(* ===== verification/Prelude.thy ===== *)
theory Prelude
  imports Main "HOL-Library.Word" "HOL-Library.Monad_Syntax"
begin

text \<open>
  Shared vocabulary of the development.

  Rust values: \<open>u64\<close> is \<open>64 word\<close>, so \<open>+\<close> wraps and \<open><\<close> is the unsigned order; \<open>usize\<close> values
  (lengths and indices of vectors, bounded by memory) are \<open>nat\<close>; \<open>String\<close> and byte slices are
  \<open>string\<close> (HOL characters are bytes, as the bytes of a Rust string are).

  A Rust function that may panic returns an \<open>option\<close>: \<open>None\<close> is the panic.  Indexing, slicing,
  \<open>expect\<close> and \<open>unwrap\<close> go through the operations below, so that a theorem that a function returns
  \<open>Some\<close> says that no panic is reachable.  A function that returns \<open>Result<T, E>\<close> returns a value of
  \<open>E + T\<close>, \<open>Inl\<close> being the error.

  The second half holds the facts about strictly ascending lists that the components share.
\<close>

type_synonym u64 = "64 word"
type_synonym usize = nat
type_synonym bytes = string

named_theorems rust_simps \<open>unfolding rules of the modelled Rust standard operations\<close>

definition u64_max :: u64 where
  "u64_max = - 1"

definition saturating_add :: "u64 \<Rightarrow> u64 \<Rightarrow> u64" where
  "saturating_add a b = (if unat a + unat b < 2 ^ 64 then a + b else u64_max)"

definition saturating_sub :: "u64 \<Rightarrow> u64 \<Rightarrow> u64" where
  "saturating_sub a b = (if a < b then 0 else a - b)"

definition vec_get :: "'a list \<Rightarrow> usize \<Rightarrow> 'a option" where
  "vec_get xs i = (if i < length xs then Some (xs ! i) else None)"

definition vec_slice :: "'a list \<Rightarrow> usize \<Rightarrow> usize \<Rightarrow> 'a list option" where
  "vec_slice xs a b = (if a \<le> b \<and> b \<le> length xs then Some (take (b - a) (drop a xs)) else None)"

definition vec_last :: "'a list \<Rightarrow> 'a option" where
  "vec_last xs = (if xs = [] then None else Some (last xs))"

text \<open>\<open>Vec::pop\<close>: the last element, if any, and what is left.\<close>

definition vec_pop :: "'a list \<Rightarrow> 'a option \<times> 'a list" where
  "vec_pop xs = (if xs = [] then (None, []) else (Some (last xs), butlast xs))"

text \<open>\<open>Iterator::position\<close>.\<close>

fun position :: "('a \<Rightarrow> bool) \<Rightarrow> 'a list \<Rightarrow> usize option" where
  "position P [] = None"
| "position P (x # xs) = (if P x then Some 0 else map_option Suc (position P xs))"

text \<open>\<open>slice::windows(2)\<close>.\<close>

fun windows2 :: "'a list \<Rightarrow> ('a \<times> 'a) list" where
  "windows2 (x # y # ys) = (x, y) # windows2 (y # ys)"
| "windows2 xs = []"

text \<open>\<open>to_string\<close> of an unsigned integer: decimal digits, no sign, no leading zero.\<close>

fun decimal :: "nat \<Rightarrow> string" where
  "decimal n = (if n < 10 then [char_of (48 + n)] else decimal (n div 10) @ [char_of (48 + n mod 10)])"

declare decimal.simps [simp del]

lemmas rust_op_defs [rust_simps] = vec_get_def vec_slice_def vec_last_def

subsection \<open>Saturating arithmetic\<close>

lemma unat_u64_max [simp]: "unat u64_max = 2 ^ 64 - 1"
  by (simp add: u64_max_def unsigned_minus_1_eq_mask mask_eq_exp_minus_1)

lemma unat_saturating_add: "unat (saturating_add a b) = min (unat a + unat b) (2 ^ 64 - 1)"
proof (cases "unat a + unat b < 2 ^ 64")
  case True
  then show ?thesis by (simp add: saturating_add_def unat_word_ariths)
next
  case False
  then show ?thesis by (simp add: saturating_add_def)
qed

lemma unat_saturating_sub: "unat (saturating_sub a b) = unat a - unat b"
proof (cases "a < b")
  case True
  then have "unat a < unat b" by (simp add: word_less_nat_alt)
  with True show ?thesis by (simp add: saturating_sub_def)
next
  case False
  then have "b \<le> a" by simp
  with False show ?thesis by (simp add: saturating_sub_def unat_sub)
qed

lemma word_less_no_overflow:
  fixes a b :: u64
  assumes "a < b"
  shows "unat (a + 1) = unat a + 1"
proof -
  have "unat a < unat b" using assms by (simp add: word_less_nat_alt)
  moreover have "unat b < 2 ^ 64" using unsigned_less [of b] by simp
  ultimately have "unat a + 1 < 2 ^ 64" by simp
  then show ?thesis by (simp add: unat_word_ariths)
qed

subsection \<open>Vector operations\<close>

lemma vec_get_Some_iff: "vec_get xs i = Some x \<longleftrightarrow> i < length xs \<and> x = xs ! i"
  by (auto simp: vec_get_def)

lemma vec_last_nonempty [simp]: "xs \<noteq> [] \<Longrightarrow> vec_last xs = Some (last xs)"
  by (simp add: vec_last_def)

lemma position_Some_iff:
  "position P xs = Some i \<longleftrightarrow> i < length xs \<and> P (xs ! i) \<and> (\<forall>j < i. \<not> P (xs ! j))"
proof (induction xs arbitrary: i)
  case Nil
  then show ?case by simp
next
  case (Cons x xs)
  show ?case
  proof (cases i)
    case 0
    then show ?thesis by simp
  next
    case (Suc k)
    then show ?thesis by (auto simp: Cons.IH less_Suc_eq_0_disj)
  qed
qed

lemma position_None_iff: "position P xs = None \<longleftrightarrow> (\<forall>x \<in> set xs. \<not> P x)"
  by (induction xs) auto

subsection \<open>Strictly ascending lists\<close>

text \<open>
  \<open>ascending k xs\<close>: the keys strictly increase.  The buffer, the delivered batches and the refs of
  a conflict answer are ascending by block number.
\<close>

definition ascending :: "('a \<Rightarrow> 'k::linorder) \<Rightarrow> 'a list \<Rightarrow> bool" where
  "ascending k xs \<longleftrightarrow> sorted_wrt (\<lambda>a b. k a < k b) xs"

definition lower_bound :: "('a \<Rightarrow> 'k::linorder) \<Rightarrow> 'a list \<Rightarrow> 'k \<Rightarrow> nat" where
  "lower_bound k xs t = length (takeWhile (\<lambda>x. k x < t) xs)"

lemma ascending_Nil [simp]: "ascending k []"
  and ascending_single [simp]: "ascending k [x]"
  by (simp_all add: ascending_def)

lemma ascending_Cons: "ascending k (x # xs) \<longleftrightarrow> (\<forall>y \<in> set xs. k x < k y) \<and> ascending k xs"
  by (simp add: ascending_def)

lemma ascending_append:
  "ascending k (xs @ ys) \<longleftrightarrow>
     ascending k xs \<and> ascending k ys \<and> (\<forall>x \<in> set xs. \<forall>y \<in> set ys. k x < k y)"
  by (simp add: ascending_def sorted_wrt_append)

lemma ascending_take [simp]: "ascending k xs \<Longrightarrow> ascending k (take n xs)"
  by (simp add: ascending_def sorted_wrt_take)

lemma ascending_drop [simp]: "ascending k xs \<Longrightarrow> ascending k (drop n xs)"
  by (simp add: ascending_def sorted_wrt_drop)

lemma ascending_nth_less:
  "ascending k xs \<Longrightarrow> i < j \<Longrightarrow> j < length xs \<Longrightarrow> k (xs ! i) < k (xs ! j)"
  using sorted_wrt_nth_less [of "\<lambda>a b. k a < k b" xs i j] by (simp add: ascending_def)

lemma ascending_nth_le:
  "ascending k xs \<Longrightarrow> i \<le> j \<Longrightarrow> j < length xs \<Longrightarrow> k (xs ! i) \<le> k (xs ! j)"
  using ascending_nth_less [of k xs i j] by (cases "i = j") auto

lemma ascending_nth_less_iff:
  assumes "ascending k xs" "i < length xs" "j < length xs"
  shows "k (xs ! i) < k (xs ! j) \<longleftrightarrow> i < j"
  using ascending_nth_less [OF assms(1), of i j] ascending_nth_le [OF assms(1), of j i] assms(2,3)
  by (meson leD leI)

lemma ascending_nth_inj:
  assumes "ascending k xs" "i < length xs" "j < length xs" "k (xs ! i) = k (xs ! j)"
  shows "i = j"
  using ascending_nth_less [OF assms(1)] assms(2-4) by (metis less_irrefl linorder_neqE_nat)

lemma ascending_last_max:
  assumes "ascending k xs" "x \<in> set xs"
  shows "k x \<le> k (last xs)"
proof -
  obtain i where i: "i < length xs" "x = xs ! i" using assms(2) by (auto simp: in_set_conv_nth)
  then have "k (xs ! i) \<le> k (xs ! (length xs - 1))"
    by (intro ascending_nth_le [OF assms(1)]) auto
  with i show ?thesis by (cases xs rule: rev_cases) auto
qed

lemma ascending_distinct: "ascending k xs \<Longrightarrow> distinct xs"
  by (induction xs) (auto simp: ascending_Cons)

subsection \<open>Lower bounds\<close>

lemma lower_bound_le_length [simp]: "lower_bound k xs t \<le> length xs"
  by (simp add: lower_bound_def length_takeWhile_le)

lemma lower_bound_below: "i < lower_bound k xs t \<Longrightarrow> k (xs ! i) < t"
  unfolding lower_bound_def
  by (metis nth_mem set_takeWhileD takeWhile_nth)

lemma lower_bound_at: "lower_bound k xs t < length xs \<Longrightarrow> t \<le> k (xs ! lower_bound k xs t)"
  unfolding lower_bound_def using nth_length_takeWhile [of "\<lambda>x. k x < t" xs] by simp

lemma lower_bound_unique:
  assumes "n \<le> length xs" "\<And>i. i < n \<Longrightarrow> k (xs ! i) < t"
    and "n < length xs \<Longrightarrow> t \<le> k (xs ! n)"
  shows "lower_bound k xs t = n"
proof (rule ccontr)
  assume "lower_bound k xs t \<noteq> n"
  then consider "lower_bound k xs t < n" | "n < lower_bound k xs t" by linarith
  then show False
  proof cases
    case 1
    then have "k (xs ! lower_bound k xs t) < t" by (rule assms(2))
    moreover have "t \<le> k (xs ! lower_bound k xs t)" using 1 assms(1) by (intro lower_bound_at) simp
    ultimately show False by simp
  next
    case 2
    then have "k (xs ! n) < t" by (rule lower_bound_below)
    moreover have "n < length xs" using 2 lower_bound_le_length [of k xs t] by linarith
    ultimately show False using assms(3) by auto
  qed
qed

lemma lower_bound_nth:
  assumes "ascending k xs" "i < length xs"
  shows "lower_bound k xs (k (xs ! i)) = i"
  using assms by (intro lower_bound_unique) (auto intro: ascending_nth_less)

lemma position_eq_lower_bound:
  assumes "ascending k xs"
  shows "position (\<lambda>x. k x = t) xs =
    (if lower_bound k xs t < length xs \<and> k (xs ! lower_bound k xs t) = t
     then Some (lower_bound k xs t) else None)"
proof (cases "\<exists>i < length xs. k (xs ! i) = t")
  case True
  then obtain i where i: "i < length xs" "k (xs ! i) = t" by blast
  then have lb: "lower_bound k xs t = i" using lower_bound_nth [OF assms, of i] by simp
  have "\<not> k (xs ! j) = t" if "j < i" for j
    using lower_bound_below [of j k xs t] that lb by simp
  then have "position (\<lambda>x. k x = t) xs = Some i"
    using i by (simp add: position_Some_iff)
  then show ?thesis using i lb by simp
next
  case False
  then have "position (\<lambda>x. k x = t) xs = None"
    by (auto simp: position_None_iff in_set_conv_nth)
  then show ?thesis using False by auto
qed

lemma position_ge_lower_bound:
  "position (\<lambda>x. t \<le> k x) xs =
    (if lower_bound k xs t < length xs then Some (lower_bound k xs t) else None)"
proof (cases "lower_bound k xs t < length xs")
  case True
  then have "position (\<lambda>x. t \<le> k x) xs = Some (lower_bound k xs t)"
    by (auto simp: position_Some_iff not_le lower_bound_at lower_bound_below)
  with True show ?thesis by simp
next
  case False
  then have "lower_bound k xs t = length xs" using lower_bound_le_length [of k xs t] by linarith
  then have "\<forall>x \<in> set xs. k x < t"
    by (metis in_set_conv_nth lower_bound_below)
  with False show ?thesis by (auto simp: position_None_iff not_le)
qed

lemma lower_bound_length_iff:
  assumes "ascending k xs" "xs \<noteq> []"
  shows "lower_bound k xs t = length xs \<longleftrightarrow> k (last xs) < t"
proof
  assume "lower_bound k xs t = length xs"
  then show "k (last xs) < t"
    using lower_bound_below [of "length xs - 1" k xs t] assms(2) by (simp add: last_conv_nth)
next
  assume "k (last xs) < t"
  then have "\<And>x. x \<in> set xs \<Longrightarrow> k x < t"
    using ascending_last_max [OF assms(1)] by (meson le_less_trans)
  then show "lower_bound k xs t = length xs" by (intro lower_bound_unique) auto
qed

lemma ascending_filter [simp]: "ascending k xs \<Longrightarrow> ascending k (filter P xs)"
  by (simp add: ascending_def sorted_wrt_filter)

lemma ascending_map: "ascending k (map f xs) \<longleftrightarrow> ascending (\<lambda>x. k (f x)) xs"
  by (simp add: ascending_def sorted_wrt_map)

lemma drop_lower_bound_filter:
  assumes "ascending k xs"
  shows "drop (lower_bound k xs t) xs = filter (\<lambda>x. t \<le> k x) xs"
  using assms
proof (induction xs)
  case Nil
  then show ?case by simp
next
  case (Cons x xs)
  then have "\<forall>y \<in> set xs. k x < k y" "drop (lower_bound k xs t) xs = filter (\<lambda>x. t \<le> k x) xs"
    by (simp_all add: ascending_Cons)
  then show ?case
    by (auto simp: lower_bound_def not_le intro!: filter_True [symmetric])
qed

lemma takeWhile_snoc:
  "takeWhile P (xs @ [x]) = (if \<forall>y \<in> set xs. P y then xs @ (if P x then [x] else []) else takeWhile P xs)"
  by (induction xs) auto

subsection \<open>Searching by key\<close>

lemma position_key:
  assumes "ascending k xs" "\<And>x. P x \<Longrightarrow> k x = t"
  shows "position P xs =
    (if lower_bound k xs t < length xs \<and> P (xs ! lower_bound k xs t)
     then Some (lower_bound k xs t) else None)"
proof (cases "\<exists>i < length xs. P (xs ! i)")
  case True
  then obtain i where i: "i < length xs" "P (xs ! i)" by blast
  then have lb: "lower_bound k xs t = i"
    using lower_bound_nth [OF assms(1), of i] assms(2) [of "xs ! i"] by simp
  have "\<not> P (xs ! j)" if "j < i" for j
    using assms(2) [of "xs ! j"] ascending_nth_less [OF assms(1) that i(1)] assms(2) [OF i(2)] by auto
  then have "position P xs = Some i" using i by (simp add: position_Some_iff)
  then show ?thesis using i lb by simp
next
  case False
  then have "position P xs = None" by (auto simp: position_None_iff in_set_conv_nth)
  then show ?thesis using False by auto
qed

lemma find_position: "find P xs = map_option (nth xs) (position P xs)"
  by (induction xs) (auto simp: option.map_comp comp_def)

lemma position_map: "position P (map f xs) = position (\<lambda>x. P (f x)) xs"
  by (induction xs) auto

lemma vec_map [simp]:
  "vec_get (map f xs) i = map_option f (vec_get xs i)"
  "vec_last (map f xs) = map_option f (vec_last xs)"
  "vec_slice (map f xs) a b = map_option (map f) (vec_slice xs a b)"
  by (simp_all add: vec_get_def vec_last_def vec_slice_def last_map take_map drop_map)

lemma find_map: "find P (map f xs) = map_option f (find (\<lambda>x. P (f x)) xs)"
  by (induction xs) auto

end
