(* ===== verification/Core_Types.thy ===== *)
theory Core_Types
  imports Prelude
begin

text \<open>
  The data model of \<open>crates/data-service-core\<close>: \<open>types.rs\<close> (blocks, refs, integrity violations,
  query errors, responses) and the plain data of \<open>source.rs\<close> (batches, stream requests and stream
  errors).  Record fields carry a prefix where two Rust structs share a field name.  Durations and
  instants are natural numbers of one clock unit.  An \<open>anyhow::Error\<close> is a \<open>fault\<close>: one constructor
  per place of the sources that builds one, with the values its message interpolates.
\<close>

type_synonym duration = nat
type_synonym instant = nat

subsection \<open>Timing stamps\<close>

record enrich_profile =
  attempts :: "32 word"
  waited :: duration
  leg_logs :: duration
  leg_receipts :: duration
  leg_traces :: duration

definition slowest_leg :: "enrich_profile \<Rightarrow> duration" where
  "slowest_leg p = max (max (leg_logs p) (leg_receipts p)) (leg_traces p)"

record block_timings =
  poll_issued :: instant
  null_polls :: "32 word"
  body_received :: instant
  enrich_done :: instant
  enrich_profile_of :: enrich_profile
  normalize_done :: instant
  compress_duration :: duration

definition compress_done :: "block_timings \<Rightarrow> instant" where
  "compress_done t = normalize_done t + compress_duration t"

subsection \<open>Refs, headers and blocks\<close>

record block_ref =
  ref_number :: u64
  ref_hash :: string

record block_header =
  hdr_number :: u64
  hdr_hash :: string
  hdr_parent_number :: u64
  hdr_parent_hash :: string
  hdr_timestamp :: "u64 option"

definition header_block_ref :: "block_header \<Rightarrow> block_ref" where
  "header_block_ref h = \<lparr>ref_number = hdr_number h, ref_hash = hdr_hash h\<rparr>"

record block =
  number :: u64
  hash :: string
  parent_number :: u64
  parent_hash :: string
  timestamp :: "u64 option"
  json_line_zstd :: bytes
  timings :: "block_timings option"

definition block_ref_of :: "block \<Rightarrow> block_ref" where
  "block_ref_of b = \<lparr>ref_number = number b, ref_hash = hash b\<rparr>"

definition parent_ref_of :: "block \<Rightarrow> block_ref" where
  "parent_ref_of b = \<lparr>ref_number = parent_number b, ref_hash = parent_hash b\<rparr>"

definition header_of :: "block \<Rightarrow> block_header" where
  "header_of b =
     \<lparr>hdr_number = number b, hdr_hash = hash b, hdr_parent_number = parent_number b,
      hdr_parent_hash = parent_hash b, hdr_timestamp = timestamp b\<rparr>"

subsection \<open>Errors\<close>

datatype integrity_violation =
    RefEquivocation u64 string
  | DescendingHeight u64 u64
  | ParentNotBuffered u64 u64
  | WriteBelowFinality u64
  | ParentHashMismatch u64 string string
  | UnbufferedFinality u64
  | FinalityHashMismatch u64 string string

record divergent_reseed =
  dr_seed :: block_ref
  dr_seed_parent :: block_ref
  dr_held :: block_ref
  dr_held_parent :: block_ref

datatype stream_error = Fork "block_ref list" | Other fault
and fault =
    SourceFault string
  | EmptyInputBatch
  | EmptyBlockHash u64
  | EmptyParentHash u64
  | UnsafeBlockHash u64
  | UnsafeParentHash u64
  | EmptyReportHash u64
  | UnsafeReportHash u64
  | NotLinked block_ref block_ref
  | EmptyForkSignal
  | ConflictingReports u64 string string
  | BatchContradictsBuffer integrity_violation
  | ObligationContradictsBuffer integrity_violation
  | CacheSizeNotPositive
  | EmptyFinalizedHash
  | UnsafeFinalizedHash
  | NoSeedBlock
  | SeedCount u64 nat
  | SeedParentAbove u64 u64
  | SeedMismatch block_ref block_ref
  | DivergentReseedFault divergent_reseed
  | SeedStreamError stream_error
  | EndedBeforeFirstBlock
  | RollbackBehindFinalizedHead block_ref "block_ref list"
  | BelowQueryNoBlocks u64 u64
  | BelowQueryStreamError fault
  | BelowQueryForkEmpty
  | BelowQueryFork "block_ref list"
  | BelowQueryNoDelivery
  | ContinuityViolated block_ref block_ref

definition is_fork :: "stream_error \<Rightarrow> bool" where
  "is_fork e = (case e of Fork _ \<Rightarrow> True | Other _ \<Rightarrow> False)"

datatype query_error = InvalidBaseBlock "block_ref list" | Internal fault

subsection \<open>Batches, requests and responses\<close>

record stream_request =
  sr_from :: u64
  sr_to :: "u64 option"
  sr_parent_hash :: "string option"

record block_batch =
  batch_blocks :: "block list"
  batch_finalized_head :: "block_ref option"

text \<open>A response: the backfill stream, where there is one, is the list of what it yields.\<close>

record data_response =
  resp_finalized_head :: "block_ref option"
  resp_head :: "(fault + block list) list option"
  resp_tail :: "block list option"

subsection \<open>Elementary facts\<close>

lemma ref_of_sel [simp]:
  "ref_number (block_ref_of b) = number b" "ref_hash (block_ref_of b) = hash b"
  "ref_number (parent_ref_of b) = parent_number b" "ref_hash (parent_ref_of b) = parent_hash b"
  by (simp_all add: block_ref_of_def parent_ref_of_def)

lemma header_block_ref_of [simp]: "header_block_ref (header_of b) = block_ref_of b"
  by (simp add: header_block_ref_def header_of_def block_ref_of_def)

lemma block_ref_of_eq_iff: "block_ref_of a = block_ref_of b \<longleftrightarrow> number a = number b \<and> hash a = hash b"
  by (simp add: block_ref_of_def)

lemma block_ref_eqI: "ref_number r = number b \<Longrightarrow> ref_hash r = hash b \<Longrightarrow> r = block_ref_of b"
  by (cases r) (simp add: block_ref_of_def)

end
