(* ===== verification/Ref_Model.thy ===== *)
theory Ref_Model
  imports Core_Types
begin

text \<open>
  The executable reference model of the repository, \<open>crates/harness/src/model.rs\<close>: the abstract
  state machine over \<open>C = (B, f)\<close> that the conformance harness compares the service with.  Theory
  \<open>Refinement\<close> proves that the buffer and the ingestion step of the service implement it.
  A method on \<open>&mut self\<close> returns the new model beside its outcome; \<open>None\<close> is a failed \<open>unwrap\<close>, an
  index out of range, or a failed \<open>assert_well_formed\<close>.
\<close>

subsection \<open>Data\<close>

record model_block =
  mb_number :: u64
  mb_hash :: string
  mb_parent_number :: u64
  mb_parent_hash :: string

definition mb_block_ref :: "model_block \<Rightarrow> block_ref" where
  "mb_block_ref b = \<lparr>ref_number = mb_number b, ref_hash = mb_hash b\<rparr>"

definition mb_parent_ref :: "model_block \<Rightarrow> block_ref" where
  "mb_parent_ref b = \<lparr>ref_number = mb_parent_number b, ref_hash = mb_parent_hash b\<rparr>"

definition linked :: "model_block \<Rightarrow> model_block \<Rightarrow> bool" where
  "linked a b \<longleftrightarrow> mb_number a = mb_parent_number b \<and> mb_hash a = mb_parent_hash b"

definition header_safe_byte :: "char \<Rightarrow> bool" where
  "header_safe_byte c =
     (let b = (of_char c :: nat) in b = 9 \<or> (b \<ge> 32 \<and> b \<noteq> 127))"

definition is_header_safe_hash_model :: "string \<Rightarrow> bool" where
  "is_header_safe_hash_model v = list_all header_safe_byte v"

datatype alarm = AlarmIntegrityViolation string | OverWindow | ForceAdvance | AlarmTerminal

datatype apply_outcome =
  Applied | IntegrityViolation string | Terminal | SessionError string

datatype init_error =
  ZeroCacheSize | InitEmptyBlockHash | InitEmptyParentHash | HeaderUnsafeBlockHash
  | HeaderUnsafeParentHash | ParentAboveBlock

datatype query_verdict =
    Data "model_block list" block_ref
  | Empty block_ref block_ref
  | ConflictVerdict
  | BackfillVerdict

record ref_model =
  m_blocks :: "model_block list"
  m_f :: usize
  m_cache_size :: usize
  m_auto_adjust :: bool
  m_fin_max :: "block_ref option"
  m_alarms :: "alarm list"

subsection \<open>Well-formedness and accessors\<close>

definition m_well_formed :: "ref_model \<Rightarrow> bool" where
  "m_well_formed m \<longleftrightarrow>
     m_blocks m \<noteq> [] \<and>
     list_all (\<lambda>(a, b). linked a b \<and> mb_number a < mb_number b) (windows2 (m_blocks m)) \<and>
     m_f m < length (m_blocks m)"

definition m_init :: "model_block \<Rightarrow> usize \<Rightarrow> bool \<Rightarrow> (init_error + ref_model) option" where
  "m_init seed cache_size auto =
     (if cache_size = 0 then Some (Inl ZeroCacheSize)
      else if mb_hash seed = [] then Some (Inl InitEmptyBlockHash)
      else if mb_parent_hash seed = [] then Some (Inl InitEmptyParentHash)
      else if \<not> is_header_safe_hash_model (mb_hash seed) then Some (Inl HeaderUnsafeBlockHash)
      else if \<not> is_header_safe_hash_model (mb_parent_hash seed)
      then Some (Inl HeaderUnsafeParentHash)
      else if mb_parent_number seed > mb_number seed then Some (Inl ParentAboveBlock)
      else
        (let m = \<lparr>m_blocks = [seed], m_f = 0, m_cache_size = cache_size, m_auto_adjust = auto,
                  m_fin_max = None, m_alarms = []\<rparr>
         in if m_well_formed m then Some (Inr m) else None))"

definition m_head :: "ref_model \<Rightarrow> block_ref option" where
  "m_head m = map_option mb_block_ref (vec_last (m_blocks m))"

definition m_finalized :: "ref_model \<Rightarrow> block_ref option" where
  "m_finalized m = map_option mb_block_ref (vec_get (m_blocks m) (m_f m))"

definition m_first :: "ref_model \<Rightarrow> block_ref option" where
  "m_first m = map_option mb_block_ref (vec_get (m_blocks m) 0)"

definition m_alarm :: "alarm \<Rightarrow> ref_model \<Rightarrow> ref_model" where
  "m_alarm a m = m\<lparr>m_alarms := m_alarms m @ [a]\<rparr>"

definition m_violation :: "string \<Rightarrow> ref_model \<Rightarrow> apply_outcome \<times> ref_model" where
  "m_violation s m = (IntegrityViolation s, m_alarm (AlarmIntegrityViolation s) m)"

subsection \<open>Transitions\<close>

definition m_push :: "ref_model \<Rightarrow> model_block \<Rightarrow> (apply_outcome \<times> ref_model) option" where
  "m_push m x =
     (if \<exists>b \<in> set (m_blocks m). mb_number b = mb_number x \<and> mb_hash b = mb_hash x \<and>
           mb_parent_number b = mb_parent_number x \<and> mb_parent_hash b = mb_parent_hash x
      then Some (Applied, m)
      else if \<exists>b \<in> set (m_blocks m). mb_number b = mb_number x \<and> mb_hash b = mb_hash x
      then Some (m_violation ''ref equivocation'' m)
      else if mb_parent_number x \<ge> mb_number x
      then Some (m_violation ''descending height'' m)
      else do {
        last \<leftarrow> vec_last (m_blocks m);
        if linked last x then Some (Applied, m\<lparr>m_blocks := m_blocks m @ [x]\<rparr>)
        else (case position (\<lambda>b. mb_number b = mb_parent_number x) (m_blocks m) of
            None \<Rightarrow> Some (m_violation ''gap: parent not buffered'' m)
          | Some i \<Rightarrow>
              if i < m_f m then Some (m_violation ''write below finality'' m)
              else do {
                p \<leftarrow> vec_get (m_blocks m) i;
                if \<not> linked p x then Some (m_violation ''parent hash mismatch'' m)
                else Some (Applied, m\<lparr>m_blocks := take (i + 1) (m_blocks m) @ [x]\<rparr>)
              })
      })"

definition m_finalize :: "ref_model \<Rightarrow> block_ref \<Rightarrow> (apply_outcome \<times> ref_model) option" where
  "m_finalize m r = do {
     fin \<leftarrow> m_finalized m;
     if ref_number r < ref_number fin then Some (Applied, m)
     else do {
       first \<leftarrow> vec_get (m_blocks m) 0;
       if ref_number r < mb_number first then Some (Applied, m)
       else do {
         last \<leftarrow> vec_last (m_blocks m);
         if ref_number r > mb_number last
         then Some (Applied, m\<lparr>m_f := length (m_blocks m) - 1\<rparr>)
         else (case position (\<lambda>b. mb_number b = ref_number r) (m_blocks m) of
             None \<Rightarrow> Some (m_violation ''finality names unbuffered height'' m)
           | Some i \<Rightarrow> do {
               b \<leftarrow> vec_get (m_blocks m) i;
               if mb_hash b \<noteq> ref_hash r
               then Some (m_violation ''finality hash mismatch'' m)
               else Some (Applied, m\<lparr>m_f := max (m_f m) i\<rparr>)
             })
       }
     }
   }"

definition m_settle_report :: "ref_model \<Rightarrow> (apply_outcome \<times> ref_model) option" where
  "m_settle_report m = do {
     last \<leftarrow> vec_last (m_blocks m);
     case m_fin_max m of
       None \<Rightarrow> Some (Applied, m)
     | Some r \<Rightarrow>
         if ref_number r \<le> mb_number last
         then do {
           (out, m') \<leftarrow> m_finalize m r;
           case out of
             IntegrityViolation s \<Rightarrow> Some (IntegrityViolation s, m')
           | _ \<Rightarrow> Some (Applied, m')
         }
         else Some (Applied, m\<lparr>m_f := length (m_blocks m) - 1\<rparr>)
   }"

definition m_note_report :: "ref_model \<Rightarrow> block_ref \<Rightarrow> (apply_outcome \<times> ref_model) option" where
  "m_note_report m r = do {
     fin \<leftarrow> m_finalized m;
     if ref_number r < ref_number fin then Some (Applied, m)
     else if (case m_fin_max m of
                None \<Rightarrow> False
              | Some x \<Rightarrow> ref_number r = ref_number x \<and> ref_hash r \<noteq> ref_hash x)
     then Some (m_violation ''conflicting finality reports'' m)
     else if (case m_fin_max m of None \<Rightarrow> True | Some x \<Rightarrow> ref_number r > ref_number x)
     then Some (Applied, m\<lparr>m_fin_max := Some r\<rparr>)
     else Some (Applied, m)
   }"

definition m_compact :: "ref_model \<Rightarrow> ref_model" where
  "m_compact m =
     (let excess = length (m_blocks m) - m_cache_size m;
          m1 = (if excess > m_f m \<and> m_auto_adjust m
                then m_alarm ForceAdvance (m\<lparr>m_f := excess\<rparr>) else m);
          k = min excess (m_f m1);
          m2 = (if k > 0 then m1\<lparr>m_blocks := drop k (m_blocks m1), m_f := m_f m1 - k\<rparr> else m1)
      in if length (m_blocks m2) > m_cache_size m2 then m_alarm OverWindow m2 else m2)"

subsection \<open>The atomic step\<close>

fun m_push_all :: "ref_model \<Rightarrow> model_block list \<Rightarrow> (apply_outcome \<times> ref_model) option" where
  "m_push_all m [] = Some (Applied, m)"
| "m_push_all m (x # xs) = do {
     (out, m') \<leftarrow> m_push m x;
     case out of Applied \<Rightarrow> m_push_all m' xs | bad \<Rightarrow> Some (bad, m')
   }"

definition m_batch_step ::
    "ref_model \<Rightarrow> model_block list \<Rightarrow> block_ref option \<Rightarrow> (apply_outcome \<times> ref_model) option" where
  "m_batch_step m bs report = do {
     (out, m1) \<leftarrow> m_push_all m bs;
     case out of
       Applied \<Rightarrow> do {
         (out2, m2) \<leftarrow> m_settle_report m1;
         case out2 of
           Applied \<Rightarrow>
             (case report of
                None \<Rightarrow> Some (Applied, m2)
              | Some r \<Rightarrow> do {
                  (out3, m3) \<leftarrow> m_note_report m2 r;
                  case out3 of Applied \<Rightarrow> m_settle_report m3 | bad \<Rightarrow> Some (bad, m3)
                })
         | bad \<Rightarrow> Some (bad, m2)
       }
     | bad \<Rightarrow> Some (bad, m1)
   }"

text \<open>\<open>atomic_step\<close>: alarms raised inside a rejected step stay raised.\<close>

definition m_atomic_step ::
    "(ref_model \<Rightarrow> (apply_outcome \<times> ref_model) option) \<Rightarrow> ref_model \<Rightarrow>
     (apply_outcome \<times> ref_model) option" where
  "m_atomic_step step m = do {
     (out, m') \<leftarrow> step m;
     case out of
       Applied \<Rightarrow>
         (let m2 = m_compact m' in if m_well_formed m2 then Some (Applied, m2) else None)
     | bad \<Rightarrow> Some (bad, m'\<lparr>m_blocks := m_blocks m, m_f := m_f m, m_fin_max := m_fin_max m\<rparr>)
   }"

definition m_batch_malformed :: "model_block list \<Rightarrow> bool" where
  "m_batch_malformed bs =
     list_ex (\<lambda>(a, b). mb_number a \<ge> mb_number b \<or> \<not> linked a b) (windows2 bs)"

definition m_apply_batch ::
    "ref_model \<Rightarrow> model_block list \<Rightarrow> block_ref option \<Rightarrow> (apply_outcome \<times> ref_model) option" where
  "m_apply_batch m bs report =
     (if bs = [] then Some (SessionError ''empty input batch (DEF-20)'', m)
      else if m_batch_malformed bs
      then Some (SessionError ''malformed input batch (DEF-20)'', m)
      else if list_ex (\<lambda>b. mb_hash b = [] \<or> mb_parent_hash b = []) bs
      then Some (SessionError ''empty block hash (DEF-2)'', m)
      else if (case report of None \<Rightarrow> False | Some r \<Rightarrow> ref_hash r = [])
      then Some (SessionError ''empty finality hash (DEF-2)'', m)
      else if list_ex (\<lambda>b. \<not> is_header_safe_hash_model (mb_hash b) \<or>
                            \<not> is_header_safe_hash_model (mb_parent_hash b)) bs
      then Some (SessionError ''header-unsafe block hash (DEF-2/IB-4)'', m)
      else if (case report of None \<Rightarrow> False | Some r \<Rightarrow> \<not> is_header_safe_hash_model (ref_hash r))
      then Some (SessionError ''header-unsafe finality hash (DEF-2/IB-4)'', m)
      else m_atomic_step (\<lambda>m. m_batch_step m bs report) m)"

definition m_begin_session :: "ref_model \<Rightarrow> ref_model" where
  "m_begin_session m = m\<lparr>m_fin_max := None\<rparr>"

subsection \<open>Fork signals and queries\<close>

fun min_number :: "block_ref \<Rightarrow> block_ref list \<Rightarrow> u64" where
  "min_number r [] = ref_number r"
| "min_number r (s # rs) = min (ref_number r) (min_number s rs)"

definition m_fork_signal ::
    "ref_model \<Rightarrow> block_ref list \<Rightarrow> ((apply_outcome + block_ref) \<times> ref_model) option" where
  "m_fork_signal m prev =
     (case prev of
        [] \<Rightarrow> Some (Inl (SessionError ''empty fork signal''), m)
      | r # rs \<Rightarrow> do {
          window \<leftarrow> vec_slice (m_blocks m) (m_f m) (length (m_blocks m));
          let lowest = min_number r rs;
          case find (\<lambda>b. mb_block_ref b \<in> set prev \<or> mb_number b < lowest) (rev window) of
            Some b \<Rightarrow> Some (Inr (mb_block_ref b), m)
          | None \<Rightarrow> Some (Inl Terminal, m_alarm AlarmTerminal m)
        })"

definition m_query :: "ref_model \<Rightarrow> u64 \<Rightarrow> string option \<Rightarrow> query_verdict option" where
  "m_query m from base = do {
     first \<leftarrow> vec_get (m_blocks m) 0;
     let rooted = (mb_parent_number first = mb_number first);
     if \<not> rooted \<and> from \<le> mb_parent_number first then Some BackfillVerdict
     else do {
       last \<leftarrow> vec_last (m_blocks m);
       if from > mb_number last then
         (if from = mb_number last + 1 \<and>
             (case base of None \<Rightarrow> False | Some ph \<Rightarrow> ph \<noteq> mb_hash last)
          then Some ConflictVerdict
          else do {
            h \<leftarrow> m_head m;
            fin \<leftarrow> m_finalized m;
            Some (Empty h fin)
          })
       else do {
         pos \<leftarrow> position (\<lambda>b. mb_number b \<ge> from) (m_blocks m);
         x \<leftarrow> vec_get (m_blocks m) pos;
         if (case base of None \<Rightarrow> False | Some ph \<Rightarrow> mb_parent_hash x \<noteq> ph)
         then Some ConflictVerdict
         else do {
           rest \<leftarrow> vec_slice (m_blocks m) pos (length (m_blocks m));
           fin \<leftarrow> m_finalized m;
           Some (Data rest fin)
         }
       }
     }
   }"

definition m_is_known_ref :: "ref_model \<Rightarrow> block_ref \<Rightarrow> bool" where
  "m_is_known_ref m r =
     list_ex (\<lambda>b. mb_block_ref b = r \<or>
                  (mb_parent_number b \<noteq> mb_number b \<and> mb_parent_ref b = r)) (m_blocks m)"

end
