(* ===== verification/Json.thy ===== *)
theory Json
  imports Prelude
begin

text \<open>
  JSON values as the program sees them: the public enum \<open>serde_json::Value\<close> with the accessors the
  sources call on it.  The members of an object are an association list with one entry per key.
  Non-integral numbers are carried by their bit pattern and never inspected.  Parsing text into a
  value is not part of the program: where a component parses, the parser is an argument.  The string
  functions are those of \<open>str\<close> on the bytes of the string; \<open>to_lowercase\<close> maps the ASCII letters, the
  only ones that can produce a byte of the patterns searched for.
\<close>

datatype json_number = PosInt u64 | NegInt int | Float u64

datatype json =
    JNull
  | JBool bool
  | JNumber json_number
  | JString string
  | JArray "json list"
  | JObject "(string \<times> json) list"

fun as_object :: "json \<Rightarrow> (string \<times> json) list option" where
  "as_object (JObject kvs) = Some kvs"
| "as_object v = None"

fun as_array :: "json \<Rightarrow> json list option" where
  "as_array (JArray vs) = Some vs"
| "as_array v = None"

fun as_str :: "json \<Rightarrow> string option" where
  "as_str (JString s) = Some s"
| "as_str v = None"

fun as_u64 :: "json \<Rightarrow> u64 option" where
  "as_u64 (JNumber (PosInt n)) = Some n"
| "as_u64 v = None"

fun as_i64 :: "json \<Rightarrow> int option" where
  "as_i64 (JNumber (PosInt n)) = (if unat n < 2 ^ 63 then Some (int (unat n)) else None)"
| "as_i64 (JNumber (NegInt i)) = Some i"
| "as_i64 v = None"

fun json_get :: "string \<Rightarrow> json \<Rightarrow> json option" where
  "json_get k (JObject kvs) = map_of kvs k"
| "json_get k v = None"

definition contains_key :: "string \<Rightarrow> (string \<times> json) list \<Rightarrow> bool" where
  "contains_key k kvs \<longleftrightarrow> map_of kvs k \<noteq> None"

text \<open>An absent member and a \<open>null\<close> both deserialise to \<open>None\<close> of an \<open>Option\<close> field.\<close>

definition optional_member :: "string \<Rightarrow> (string \<times> json) list \<Rightarrow> json option" where
  "optional_member k kvs =
     (case map_of kvs k of None \<Rightarrow> None | Some JNull \<Rightarrow> None | Some v \<Rightarrow> Some v)"

subsection \<open>Strings\<close>

fun str_contains :: "string \<Rightarrow> string \<Rightarrow> bool" where
  "str_contains [] p = (p = [])"
| "str_contains (c # cs) p = (take (length p) (c # cs) = p \<or> str_contains cs p)"

fun str_find :: "string \<Rightarrow> string \<Rightarrow> nat option" where
  "str_find [] p = (if p = [] then Some 0 else None)"
| "str_find (c # cs) p =
     (if take (length p) (c # cs) = p then Some 0 else map_option Suc (str_find cs p))"

definition ascii_lower :: "char \<Rightarrow> char" where
  "ascii_lower c =
     (let n = of_char c :: nat in if 65 \<le> n \<and> n \<le> 90 then char_of (n + 32) else c)"

definition to_lowercase :: "string \<Rightarrow> string" where
  "to_lowercase s = map ascii_lower s"

lemma str_contains_prefix: "take (length p) s = p \<Longrightarrow> str_contains s p"
  by (cases s) auto

lemma str_contains_append: "str_contains (a @ p @ b) p"
proof (induction a)
  case Nil
  show ?case by (rule str_contains_prefix) simp
qed simp

lemma str_contains_iff: "str_contains s p \<longleftrightarrow> (\<exists>a b. s = a @ p @ b)"
proof
  show "str_contains s p \<Longrightarrow> \<exists>a b. s = a @ p @ b"
  proof (induction s)
    case Nil
    then show ?case by auto
  next
    case (Cons c cs)
    show ?case
    proof (cases "take (length p) (c # cs) = p")
      case True
      then have "c # cs = [] @ p @ drop (length p) (c # cs)"
        using append_take_drop_id [of "length p" "c # cs"] by simp
      then show ?thesis by blast
    next
      case False
      then obtain a b where "cs = a @ p @ b" using Cons by auto
      then have "c # cs = (c # a) @ p @ b" by simp
      then show ?thesis by blast
    qed
  qed
qed (auto simp: str_contains_append)

lemma str_find_SomeD:
  "str_find s p = Some i \<Longrightarrow> i \<le> length s \<and> take (length p) (drop i s) = p"
proof (induction s arbitrary: i)
  case (Cons c cs)
  then show ?case by (cases i) (auto split: if_splits)
qed (auto split: if_splits)

lemma str_find_None_iff: "str_find s p = None \<longleftrightarrow> \<not> str_contains s p"
  by (induction s) auto

lemma str_find_least: "str_find s p = Some i \<Longrightarrow> j < i \<Longrightarrow> take (length p) (drop j s) \<noteq> p"
proof (induction s arbitrary: i j)
  case (Cons c cs)
  then show ?case by (cases j) (auto split: if_splits)
qed (auto split: if_splits)

lemma as_u64_Some_iff: "as_u64 v = Some n \<longleftrightarrow> v = JNumber (PosInt n)"
  by (cases v rule: as_u64.cases) auto

lemma map_of_optional_member:
  "optional_member k kvs = Some v \<longleftrightarrow> map_of kvs k = Some v \<and> v \<noteq> JNull"
  by (auto simp: optional_member_def split: option.splits json.splits)

end
