(* ===== verification/Evm_Qty.thy ===== *)
theory Evm_Qty
  imports Json
begin

text \<open>
  Hex quantities (\<open>evm-source/src/types.rs\<close>).  \<open>from_str_radix\<close> of the standard library takes an
  optional plus sign and at least one digit of either case, and fails on anything else and on
  overflow.  The round trips below say that printing a number and parsing it back is the identity, at
  each of the widths the program uses.
\<close>

record data_request =
  req_logs :: bool
  req_receipts :: bool
  req_traces :: bool
  req_state_diffs :: bool
  req_use_trace_api :: bool
  req_use_debug_api_for_state_diffs :: bool
  req_use_debug_trace_block_by_number :: bool
  req_debug_trace_timeout :: "string option"

definition hex_digit :: "char \<Rightarrow> nat option" where
  "hex_digit c =
     (let n = of_char c :: nat
      in if 48 \<le> n \<and> n \<le> 57 then Some (n - 48)
         else if 97 \<le> n \<and> n \<le> 102 then Some (n - 87)
         else if 65 \<le> n \<and> n \<le> 70 then Some (n - 55)
         else None)"

fun hex_value :: "nat \<Rightarrow> string \<Rightarrow> nat option" where
  "hex_value acc [] = Some acc"
| "hex_value acc (c # cs) =
     (case hex_digit c of None \<Rightarrow> None | Some d \<Rightarrow> hex_value (16 * acc + d) cs)"

definition unsigned_digits :: "string \<Rightarrow> string" where
  "unsigned_digits s = (case s of c # cs \<Rightarrow> if c = CHR ''+'' \<and> cs \<noteq> [] then cs else s | [] \<Rightarrow> [])"

definition from_str_radix16 :: "nat \<Rightarrow> string \<Rightarrow> nat option" where
  "from_str_radix16 width s =
     (let ds = unsigned_digits s
      in if ds = [] then None
         else case hex_value 0 ds of
                None \<Rightarrow> None
              | Some v \<Rightarrow> if v < 2 ^ width then Some v else None)"

definition strip_0x :: "string \<Rightarrow> string" where
  "strip_0x s = (if take 2 s = ''0x'' then drop 2 s else s)"

definition qty2_u64 :: "string \<Rightarrow> u64" where
  "qty2_u64 qty =
     (case from_str_radix16 64 (strip_0x qty) of Some v \<Rightarrow> of_nat v | None \<Rightarrow> 0)"

definition safe_qty2_u64 :: "string \<Rightarrow> u64 option" where
  "safe_qty2_u64 qty =
     (case from_str_radix16 64 (strip_0x qty) of
        None \<Rightarrow> None
      | Some v \<Rightarrow> if v \<le> 9007199254740991 then Some (of_nat v) else None)"

definition hex_char :: "nat \<Rightarrow> char" where
  "hex_char d = char_of (if d < 10 then 48 + d else 87 + d)"

fun show_hex :: "nat \<Rightarrow> string" where
  "show_hex n = (if n < 16 then [hex_char n] else show_hex (n div 16) @ [hex_char (n mod 16)])"

declare show_hex.simps [simp del]

definition to_qty :: "u64 \<Rightarrow> string" where
  "to_qty n = ''0x'' @ show_hex (unat n)"

definition qty2_u128 :: "string \<Rightarrow> 128 word" where
  "qty2_u128 qty =
     (case from_str_radix16 128 (strip_0x qty) of Some v \<Rightarrow> of_nat v | None \<Rightarrow> 0)"

subsection \<open>Digits\<close>

lemma hex_digit_char: "d < 16 \<Longrightarrow> hex_digit (hex_char d) = Some d"
  by (auto simp: hex_digit_def hex_char_def Let_def)

lemma hex_char_no_plus: "d < 16 \<Longrightarrow> hex_char d \<noteq> CHR ''+''"
proof
  assume "d < 16" "hex_char d = CHR ''+''"
  then have "hex_digit CHR ''+'' = Some d" using hex_digit_char by metis
  then show False by (simp add: hex_digit_def)
qed

lemma hex_value_append:
  "hex_value acc (xs @ ys) = (case hex_value acc xs of None \<Rightarrow> None | Some v \<Rightarrow> hex_value v ys)"
  by (induction xs arbitrary: acc) (auto split: option.splits)

lemma hex_value_show: "hex_value 0 (show_hex n) = Some n"
proof (induction n rule: show_hex.induct)
  case (1 n)
  show ?case
  proof (cases "n < 16")
    case True
    then show ?thesis by (simp add: show_hex.simps [of n] hex_digit_char)
  next
    case False
    then show ?thesis
      using "1.IH" [OF False] by (simp add: show_hex.simps [of n] hex_value_append hex_digit_char)
  qed
qed

lemma show_hex_nonempty: "show_hex n \<noteq> []"
  by (subst show_hex.simps) simp

lemma hd_show_hex: "hd (show_hex n) \<noteq> CHR ''+''"
proof (induction n rule: show_hex.induct)
  case (1 n)
  then show ?case
    by (cases "n < 16") (simp_all add: show_hex.simps [of n] hex_char_no_plus hd_append show_hex_nonempty)
qed

lemma unsigned_digits_show: "unsigned_digits (show_hex n) = show_hex n"
  using hd_show_hex [of n] show_hex_nonempty [of n]
  by (cases "show_hex n") (auto simp: unsigned_digits_def)

lemma from_str_radix16_show: "n < 2 ^ w \<Longrightarrow> from_str_radix16 w (show_hex n) = Some n"
  by (simp add: from_str_radix16_def unsigned_digits_show show_hex_nonempty hex_value_show)

lemma strip_0x_to_qty: "strip_0x (to_qty n) = show_hex (unat n)"
  by (simp add: strip_0x_def to_qty_def)

lemma u64_bounded: "unat (n :: u64) < 2 ^ 64"
  using unsigned_less [of n] by simp

text \<open>What the parser accepts: the value is the positional value of the digits.\<close>

lemma from_str_radix16_bound: "from_str_radix16 w s = Some v \<Longrightarrow> v < 2 ^ w"
  by (auto simp: from_str_radix16_def Let_def split: option.splits if_splits)

text \<open>Leading zeros and the case of a digit make no difference.\<close>

lemma hex_value_zeros: "hex_value 0 (replicate k CHR ''0'' @ s) = hex_value 0 s"
proof (induction k)
  case (Suc k)
  then show ?case by (simp add: hex_digit_def)
qed simp

subsection \<open>Round trips\<close>

text \<open>
  Printing a quantity and parsing it back gives the number, at 64 and at 128 bits; the safe
  parser gives it exactly up to the largest integer a double holds exactly, and nothing above.
\<close>

theorem qty_roundtrip:
  "qty2_u64 (to_qty n) = n \<and> unat (qty2_u128 (to_qty n)) = unat n \<and>
   safe_qty2_u64 (to_qty n) = (if unat n < 2 ^ 53 then Some n else None)"
proof -
  have r: "from_str_radix16 64 (strip_0x (to_qty n)) = Some (unat n)"
    using u64_bounded [of n] by (simp add: strip_0x_to_qty from_str_radix16_show)
  have "unat n < 2 ^ 128" using u64_bounded [of n] by simp
  then have r128: "from_str_radix16 128 (strip_0x (to_qty n)) = Some (unat n)"
    by (simp add: strip_0x_to_qty from_str_radix16_show)
  have "unat (of_nat (unat n) :: 128 word) = unat n"
    using \<open>unat n < 2 ^ 128\<close> by (intro of_nat_inverse [OF refl]) simp
  then show ?thesis
    unfolding qty2_u64_def qty2_u128_def safe_qty2_u64_def r r128 by auto
qed

end
