(* ===== verification/Sim.thy ===== *)
theory Sim
  imports Ref_Model Evm_Qty
begin

unbundle bit_operations_syntax

text \<open>
  The deterministic simulator of the harness (\<open>harness/src/sim.rs\<close>) with its provenance ledger, and the
  scripted histories of \<open>script.rs\<close>.

  The zstd encoder and decoder are parameters; \<open>None\<close> is a failed one, which both callers unwrap.  A
  stream is the list of its items; what an item leaves in the ledger is recorded when it is pulled.
\<close>

subsection \<open>Hashes\<close>

definition splitmix64 :: "u64 \<Rightarrow> u64" where
  "splitmix64 x0 =
     (let x1 = x0 + 0x9E3779B97F4A7C15;
          x2 = (x1 XOR drop_bit 30 x1) * 0xBF58476D1CE4E5B9;
          x3 = (x2 XOR drop_bit 27 x2) * 0x94D049BB133111EB
      in x3 XOR drop_bit 31 x3)"

definition pad_hex :: "nat \<Rightarrow> nat \<Rightarrow> string" where
  "pad_hex width n = replicate (width - length (show_hex n)) (CHR ''0'') @ show_hex n"

definition hash_at :: "u64 \<Rightarrow> u64 \<Rightarrow> u64 \<Rightarrow> string" where
  "hash_at seed n branch =
     ''0x'' @ pad_hex 16 (unat (splitmix64 (seed XOR n * 0x0100000001B3 XOR word_rotl 17 branch)))"

subsection \<open>The ledger\<close>

record batch_event =
  ev_blocks :: "model_block list"
  ev_finalized :: "block_ref option"
  ev_finalized_stream :: bool

record ledger_entry =
  le_header :: model_block
  le_json_line :: string

record ledger =
  entries :: "model_block \<rightharpoonup> ledger_entry"
  events :: "batch_event list"

definition empty_ledger :: ledger where
  "empty_ledger = \<lparr>entries = Map.empty, events = []\<rparr>"

definition line_of :: "ledger \<Rightarrow> model_block \<Rightarrow> string option" where
  "line_of lg header = map_option le_json_line (entries lg header)"

fun replay_events :: "batch_event list \<Rightarrow> ref_model \<Rightarrow> ref_model option" where
  "replay_events [] m = Some m"
| "replay_events (ev # evs) m =
     (if ev_finalized_stream ev then replay_events evs m
      else do {
        (out, m') \<leftarrow> m_apply_batch m (ev_blocks ev) (ev_finalized ev);
        if out = Applied then replay_events evs m' else None
      })"

definition replay :: "ledger \<Rightarrow> usize \<Rightarrow> bool \<Rightarrow> ref_model option" where
  "replay lg cache_size auto_adjust =
     (case events lg of
        [] \<Rightarrow> None
      | seed # evs \<Rightarrow>
          if \<not> (ev_finalized_stream seed \<and> length (ev_blocks seed) = 1) then None
          else do {
            b \<leftarrow> vec_get (ev_blocks seed) 0;
            init \<leftarrow> m_init b cache_size auto_adjust;
            (case init of Inl e \<Rightarrow> None | Inr m \<Rightarrow> replay_events evs m)
          })"

subsection \<open>The canonical chain\<close>

record sim_chain =
  sim_seed :: u64
  sim_blocks :: "block list"

definition sim_line :: "u64 \<Rightarrow> u64 \<Rightarrow> u64 \<Rightarrow> string \<Rightarrow> string \<Rightarrow> string" where
  "sim_line seed n pn h ph =
     ''{\"number\":'' @ decimal (unat n) @ '',\"parentNumber\":'' @ decimal (unat pn) @ '',\"hash\":\"'' @ h @
     ''\",\"parentHash\":\"'' @ ph @ ''\",\"seed\":'' @ decimal (unat seed) @ ''}'' @ [CHR 0x0A]"

definition sim_block :: "(bytes \<Rightarrow> bytes option) \<Rightarrow> u64 \<Rightarrow> u64 \<Rightarrow> block option" where
  "sim_block encode seed n =
     (let h = hash_at seed n 0;
          ph = (if n = 0 then ''0x0'' else hash_at seed (n - 1) 0);
          pn = (if n = 0 then 0 else n - 1)
      in map_option
           (\<lambda>z. \<lparr>number = n, hash = h, parent_number = pn, parent_hash = ph, timestamp = Some (n * 1000),
                 json_line_zstd = z, timings = None\<rparr>)
           (encode (sim_line seed n pn h ph)))"

definition generate :: "(bytes \<Rightarrow> bytes option) \<Rightarrow> u64 \<Rightarrow> u64 \<Rightarrow> sim_chain option" where
  "generate encode seed len =
     map_option (\<lambda>bs. \<lparr>sim_seed = seed, sim_blocks = bs\<rparr>)
       (those (map (\<lambda>i. sim_block encode seed (of_nat i)) [0..<unat len]))"

definition header_tuple :: "block \<Rightarrow> model_block" where
  "header_tuple b =
     \<lparr>mb_number = number b, mb_hash = hash b, mb_parent_number = parent_number b, mb_parent_hash = parent_hash b\<rparr>"

definition sim_header :: "sim_chain \<Rightarrow> u64 \<Rightarrow> model_block option" where
  "sim_header sim n = map_option header_tuple (vec_get (sim_blocks sim) (unat n))"

definition sim_block_ref :: "sim_chain \<Rightarrow> u64 \<Rightarrow> block_ref option" where
  "sim_block_ref sim n = map_option block_ref_of (vec_get (sim_blocks sim) (unat n))"

definition sim_len :: "sim_chain \<Rightarrow> u64" where
  "sim_len sim = of_nat (length (sim_blocks sim))"

subsection \<open>The source\<close>

record sim_source =
  ss_chain :: "block list"
  ss_ledger :: ledger
  ss_batch_size :: usize
  ss_fin_lag :: u64
  ss_init_finalized :: u64

definition sim_source_new :: "sim_chain \<Rightarrow> usize \<Rightarrow> u64 \<Rightarrow> u64 \<Rightarrow> sim_source" where
  "sim_source_new sim batch_size fin_lag init_finalized =
     \<lparr>ss_chain = sim_blocks sim, ss_ledger = empty_ledger, ss_batch_size = batch_size, ss_fin_lag = fin_lag,
      ss_init_finalized = init_finalized\<rparr>"

text \<open>
  \<open>record\<close>: one entry per delivered linkage tuple; a second delivery of a tuple has to carry the same line.
  \<open>decode\<close> is the zstd decoder with the check that the payload is UTF-8.
\<close>

fun record_blocks ::
    "(bytes \<Rightarrow> string option) \<Rightarrow> block list \<Rightarrow> (model_block \<rightharpoonup> ledger_entry) \<Rightarrow> (model_block \<rightharpoonup> ledger_entry) option" where
  "record_blocks decode [] es = Some es"
| "record_blocks decode (b # bs) es = do {
     line \<leftarrow> decode (json_line_zstd b);
     let header = header_tuple b;
     (case es header of
        None \<Rightarrow> record_blocks decode bs (es(header \<mapsto> \<lparr>le_header = header, le_json_line = line\<rparr>))
      | Some slot \<Rightarrow> if le_json_line slot = line then record_blocks decode bs es else None)
   }"

definition record_batch :: "(bytes \<Rightarrow> string option) \<Rightarrow> block_batch \<Rightarrow> bool \<Rightarrow> ledger \<Rightarrow> ledger option" where
  "record_batch decode batch finalized_stream lg = do {
     es \<leftarrow> record_blocks decode (batch_blocks batch) (entries lg);
     Some \<lparr>entries = es,
           events = events lg @ [\<lparr>ev_blocks = map header_tuple (batch_blocks batch),
                                  ev_finalized = batch_finalized_head batch, ev_finalized_stream = finalized_stream\<rparr>]\<rparr>
   }"

definition sim_get_head :: "sim_source \<Rightarrow> block_ref option" where
  "sim_get_head src = map_option block_ref_of (vec_last (ss_chain src))"

definition sim_get_finalized_head :: "sim_source \<Rightarrow> block_ref option" where
  "sim_get_finalized_head src = map_option block_ref_of (vec_get (ss_chain src) (unat (ss_init_finalized src)))"

definition beyond :: "stream_request \<Rightarrow> block \<Rightarrow> bool" where
  "beyond req b = (case sr_to req of Some t \<Rightarrow> number b > t | None \<Rightarrow> False)"

fun finalized_items :: "stream_request \<Rightarrow> bool \<Rightarrow> block list \<Rightarrow> (stream_error + block_batch) list" where
  "finalized_items req positioned [] = []"
| "finalized_items req positioned (b # bs) =
     (if number b < sr_from req then finalized_items req positioned bs
      else if beyond req b then []
      else if \<not> positioned \<and> sr_parent_hash req \<noteq> None \<and> sr_parent_hash req \<noteq> Some (parent_hash b)
      then [Inl (Fork [parent_ref_of b])]
      else Inr \<lparr>batch_blocks = [b], batch_finalized_head = Some (block_ref_of b)\<rparr> # finalized_items req True bs)"

definition sim_get_finalized_stream :: "sim_source \<Rightarrow> stream_request \<Rightarrow> (stream_error + block_batch) list" where
  "sim_get_finalized_stream src req = finalized_items req False (ss_chain src)"

text \<open>
  The report of a batch is the block \<open>fin_lag\<close> below its last, an index into the canonical chain.
\<close>

definition head_batch_of :: "sim_source \<Rightarrow> block list \<Rightarrow> block_batch option" where
  "head_batch_of src batch = do {
     l \<leftarrow> vec_last batch;
     fin \<leftarrow> (if number l < ss_fin_lag src then Some None
            else map_option (\<lambda>b. Some (block_ref_of b)) (vec_get (ss_chain src) (unat (number l - ss_fin_lag src))));
     Some \<lparr>batch_blocks = batch, batch_finalized_head = fin\<rparr>
   }"

definition finish_head_batch :: "sim_source \<Rightarrow> block list \<Rightarrow> block_batch list option" where
  "finish_head_batch src batch =
     (if batch = [] then Some [] else map_option (\<lambda>b. [b]) (head_batch_of src batch))"

fun head_items :: "sim_source \<Rightarrow> stream_request \<Rightarrow> bool \<Rightarrow> block list \<Rightarrow> block list \<Rightarrow> block_batch list option" where
  "head_items src req positioned batch [] = finish_head_batch src batch"
| "head_items src req positioned batch (b # bs) =
     (if number b < sr_from req then head_items src req positioned batch bs
      else if beyond req b then finish_head_batch src batch
      else if \<not> positioned \<and> sr_parent_hash req \<noteq> None \<and> sr_parent_hash req \<noteq> Some (parent_hash b)
      then None
      else
        (let batch' = batch @ [b]
         in if length batch' = max 1 (ss_batch_size src)
            then do {
              out \<leftarrow> head_batch_of src batch';
              rest \<leftarrow> head_items src req True [] bs;
              Some (out # rest)
            }
            else head_items src req True batch' bs))"

text \<open>The batches of the head stream, and whether it ends after them instead of idling.\<close>

definition sim_get_stream :: "sim_source \<Rightarrow> stream_request \<Rightarrow> (block_batch list \<times> bool) option" where
  "sim_get_stream src req =
     map_option (\<lambda>bs. (bs, sr_to req \<noteq> None)) (head_items src req False [] (ss_chain src))"

subsection \<open>Scripted histories\<close>

record script_event =
  se_blocks :: "model_block list"
  se_finalized_head :: "block_ref option"

definition event_blocks :: "model_block list \<Rightarrow> script_event" where
  "event_blocks bs = \<lparr>se_blocks = bs, se_finalized_head = None\<rparr>"

definition with_finality :: "block_ref \<Rightarrow> script_event \<Rightarrow> script_event" where
  "with_finality r ev = ev\<lparr>se_finalized_head := Some r\<rparr>"

definition block_of :: "(bytes \<Rightarrow> bytes option) \<Rightarrow> model_block \<Rightarrow> block option" where
  "block_of encode b =
     map_option
       (\<lambda>z. \<lparr>number = mb_number b, hash = mb_hash b, parent_number = mb_parent_number b,
             parent_hash = mb_parent_hash b, timestamp = Some (mb_number b * 1000), json_line_zstd = z, timings = None\<rparr>)
       (encode (''{\"number\":'' @ decimal (unat (mb_number b)) @ ''}'' @ [CHR 0x0A]))"

fun script_apply :: "script_event list \<Rightarrow> ref_model \<Rightarrow> (ref_model \<times> apply_outcome) option" where
  "script_apply [] m = Some (m, Applied)"
| "script_apply (ev # evs) m = do {
     (out, m') \<leftarrow> m_apply_batch m (se_blocks ev) (se_finalized_head ev);
     if out = Applied then script_apply evs m' else Some (m', out)
   }"

definition script_replay ::
    "model_block \<Rightarrow> script_event list \<Rightarrow> usize \<Rightarrow> bool \<Rightarrow> (ref_model \<times> apply_outcome) option" where
  "script_replay seed evs cache_size auto_adjust = do {
     init \<leftarrow> m_init seed cache_size auto_adjust;
     (case init of Inl e \<Rightarrow> None | Inr m \<Rightarrow> script_apply evs m)
   }"

text \<open>
  \<open>ScriptedSource\<close>: the first head stream carries the script and then idles, a later one idles at once.
\<close>

record scripted_source =
  sc_seed :: block
  sc_script :: "script_event list"
  sc_stream_calls :: nat
  sc_delivered :: nat

definition scripted_new :: "(bytes \<Rightarrow> bytes option) \<Rightarrow> model_block \<Rightarrow> script_event list \<Rightarrow> scripted_source option" where
  "scripted_new encode seed evs =
     map_option (\<lambda>b. \<lparr>sc_seed = b, sc_script = evs, sc_stream_calls = 0, sc_delivered = 0\<rparr>) (block_of encode seed)"

definition scripted_head :: "scripted_source \<Rightarrow> block_ref" where
  "scripted_head src = block_ref_of (sc_seed src)"

definition scripted_finalized_stream :: "scripted_source \<Rightarrow> block_batch list" where
  "scripted_finalized_stream src =
     [\<lparr>batch_blocks = [sc_seed src], batch_finalized_head = Some (block_ref_of (sc_seed src))\<rparr>]"

definition scripted_batch :: "(bytes \<Rightarrow> bytes option) \<Rightarrow> script_event \<Rightarrow> block_batch option" where
  "scripted_batch encode ev =
     map_option (\<lambda>bs. \<lparr>batch_blocks = bs, batch_finalized_head = se_finalized_head ev\<rparr>)
       (those (map (block_of encode) (se_blocks ev)))"

definition scripted_stream ::
    "(bytes \<Rightarrow> bytes option) \<Rightarrow> scripted_source \<Rightarrow> (block_batch list \<times> scripted_source) option" where
  "scripted_stream encode src = do {
     items \<leftarrow> (if sc_stream_calls src = 0 then those (map (scripted_batch encode) (sc_script src)) else Some []);
     Some (items, src\<lparr>sc_stream_calls := sc_stream_calls src + 1\<rparr>)
   }"

definition next_asked :: "scripted_source \<Rightarrow> scripted_source" where
  "next_asked src = src\<lparr>sc_delivered := sc_delivered src + 1\<rparr>"

end
