(* ===== verification/Machines.thy ===== *)
theory Machines
  imports Prelude
begin

text \<open>
  The interface the loops of the program share.  Many of its loops apply one fallible operation to
  each element of a sequence and leave at the first failure (\<open>for x in xs { op(x)?; }\<close>); \<open>each\<close> is
  that loop.  The locale \<open>total_op\<close> states what such an operation promises: on a state that satisfies
  the invariant it returns (no panic), keeps the invariant and moves along a preorder; the loop then
  promises the same.  \<open>simulation_op\<close> relates the operation of an implementation to that of a
  specification and carries the relation through the loop.  The interpretations are in the theories
  of the components.
\<close>

fun each ::
    "('s \<Rightarrow> 'x \<Rightarrow> ('r \<times> 's) option) \<Rightarrow> ('r \<Rightarrow> bool) \<Rightarrow> 'x list \<Rightarrow> 's \<Rightarrow> (bool \<times> 's) option" where
  "each op ok [] s = Some (True, s)"
| "each op ok (x # xs) s =
     (case op s x of
        None \<Rightarrow> None
      | Some (r, s') \<Rightarrow> if ok r then each op ok xs s' else Some (False, s'))"

locale total_op =
  fixes inv :: "'s \<Rightarrow> bool"
    and rel :: "'s \<Rightarrow> 's \<Rightarrow> bool"
    and op :: "'s \<Rightarrow> 'x \<Rightarrow> ('r \<times> 's) option"
    and ok :: "'r \<Rightarrow> bool"
  assumes op_total: "inv s \<Longrightarrow> \<exists>r s'. op s x = Some (r, s') \<and> inv s' \<and> rel s s'"
    and rel_refl: "rel s s"
    and rel_trans: "rel s s' \<Longrightarrow> rel s' s'' \<Longrightarrow> rel s s''"
begin

lemma op_keeps: "inv s \<Longrightarrow> op s x = Some (r, s') \<Longrightarrow> inv s' \<and> rel s s'"
  using op_total [of s x] by auto

lemma each_total: "inv s \<Longrightarrow> \<exists>b s'. each op ok xs s = Some (b, s') \<and> inv s' \<and> rel s s'"
proof (induction xs arbitrary: s)
  case Nil
  then show ?case by (auto simp: rel_refl)
next
  case (Cons x xs)
  obtain r s1 where 1: "op s x = Some (r, s1)" "inv s1" "rel s s1"
    using op_total [OF Cons.prems] by blast
  then show ?case using Cons.IH [OF 1(2)] rel_trans [OF 1(3)] by (auto simp: 1)
qed

lemma each_keeps: "inv s \<Longrightarrow> each op ok xs s = Some (b, s') \<Longrightarrow> inv s' \<and> rel s s'"
  using each_total [of s xs] by auto

end

locale simulation_op =
  conc: total_op inv rel op ok + abst: total_op inv' rel' op' ok'
  for inv :: "'s \<Rightarrow> bool" and rel :: "'s \<Rightarrow> 's \<Rightarrow> bool" and op :: "'s \<Rightarrow> 'x \<Rightarrow> ('r \<times> 's) option"
    and ok :: "'r \<Rightarrow> bool"
    and inv' :: "'t \<Rightarrow> bool" and rel' :: "'t \<Rightarrow> 't \<Rightarrow> bool"
    and op' :: "'t \<Rightarrow> 'y \<Rightarrow> ('q \<times> 't) option" and ok' :: "'q \<Rightarrow> bool" +
  fixes R :: "'s \<Rightarrow> 't \<Rightarrow> bool"
    and input :: "'x \<Rightarrow> 'y"
  assumes sim_step: "inv s \<Longrightarrow> inv' t \<Longrightarrow> R s t \<Longrightarrow> op s x = Some (r, s') \<Longrightarrow>
      op' t (input x) = Some (q, t') \<Longrightarrow> (ok r \<longleftrightarrow> ok' q) \<and> (ok r \<longrightarrow> R s' t')"
begin

lemma each_sim:
  "inv s \<Longrightarrow> inv' t \<Longrightarrow> R s t \<Longrightarrow> each op ok xs s = Some (b, s') \<Longrightarrow>
   each op' ok' (map input xs) t = Some (b', t') \<Longrightarrow> b' = b \<and> (b \<longrightarrow> R s' t')"
proof (induction xs arbitrary: s t)
  case Nil
  then show ?case by simp
next
  case (Cons x xs)
  obtain r s1 where 1: "op s x = Some (r, s1)" "inv s1"
    using conc.op_total [OF Cons.prems(1)] by blast
  obtain q t1 where 2: "op' t (input x) = Some (q, t1)" "inv' t1"
    using abst.op_total [OF Cons.prems(2)] by blast
  have sim: "ok r \<longleftrightarrow> ok' q" "ok r \<longrightarrow> R s1 t1"
    using sim_step [OF Cons.prems(1-3) 1(1) 2(1)] by auto
  show ?case
  proof (cases "ok r")
    case True
    then show ?thesis using Cons.IH [OF 1(2) 2(2)] Cons.prems(4,5) sim 1 2 by simp
  next
    case False
    then show ?thesis using Cons.prems(4,5) sim 1 2 by auto
  qed
qed

end

end
