(* ===== verification/Chain_Buffer.thy ===== *)
theory Chain_Buffer
  imports Core_Types Machines
begin

text \<open>
  The in-memory chain buffer, \<open>crates/data-service-core/src/chain.rs\<close>: the \<open>chain\<close> record is the Rust
  struct \<open>Chain\<close>, one definition per method.  A method on \<open>&mut self\<close> returns the new buffer beside
  its result; a method that indexes, slices or unwraps returns an \<open>option\<close> whose \<open>None\<close> is the panic.
  The two \<open>debug_assert!\<close>s are compiled out of a release build; \<open>Service_Ingest\<close> shows that their
  condition holds at every call.

  The buffer invariant \<open>chain_inv\<close> is INV-1 to INV-3 of the specification documents: the buffer is
  never empty, strictly ascending and parent-linked, and the finality index is inside it.  The lemmas
  show that every operation returns (no panic for any input), keeps the invariant, and on an error
  leaves the buffer untouched; that the undo log restores exactly the buffer \<open>begin_batch\<close> saw; that
  the finalized block is never dropped by a reorganisation; and what each branch of \<open>query\<close>,
  \<open>compact\<close> and \<open>finalize\<close> computes.
\<close>

subsection \<open>Linkage and bisection\<close>

definition is_chain :: "block \<Rightarrow> block \<Rightarrow> bool" where
  "is_chain a b \<longleftrightarrow> number a = parent_number b \<and> hash a = parent_hash b"

function bisect_loop :: "block list \<Rightarrow> u64 \<Rightarrow> usize \<Rightarrow> usize \<Rightarrow> usize option" where
  "bisect_loop bs target lo hi =
     (if lo < hi then
        let mid = lo + (hi - lo) div 2 in
        case vec_get bs mid of
          None \<Rightarrow> None
        | Some b \<Rightarrow>
            if number b < target then bisect_loop bs target (mid + 1) hi
            else bisect_loop bs target lo mid
      else Some lo)"
  by pat_completeness auto
termination
  by (relation "measure (\<lambda>(bs, t, lo, hi). hi - lo)") auto

declare bisect_loop.simps [simp del]

definition bisect :: "block list \<Rightarrow> u64 \<Rightarrow> usize option" where
  "bisect bs target = bisect_loop bs target 0 (length bs)"

subsection \<open>The buffer and its batch log\<close>

datatype push_outcome = Inserted | Absorbed

record compaction =
  excess :: usize
  force_advanced_past :: "u64 option"

definition within_window :: "compaction \<Rightarrow> bool" where
  "within_window k \<longleftrightarrow> excess k = 0"

record batch_undo =
  intact :: usize
  removed :: "block list"
  undo_finalized_head :: usize

record chain =
  blocks :: "block list"
  finalized_head :: usize
  max_size :: usize
  auto_adjust_finalized_head :: bool
  undo :: "batch_undo option"

definition chain_new :: "block \<Rightarrow> usize \<Rightarrow> bool \<Rightarrow> chain option" where
  "chain_new base m auto =
     (if m > 0 then
        Some \<lparr>blocks = [base], finalized_head = 0, max_size = m,
              auto_adjust_finalized_head = auto, undo = None\<rparr>
      else None)"

definition begin_batch :: "chain \<Rightarrow> chain" where
  "begin_batch c =
     c\<lparr>undo := Some \<lparr>intact = length (blocks c), removed = [],
                     undo_finalized_head = finalized_head c\<rparr>\<rparr>"

definition commit_batch :: "chain \<Rightarrow> chain" where
  "commit_batch c = c\<lparr>undo := None\<rparr>"

definition rollback_batch :: "chain \<Rightarrow> chain" where
  "rollback_batch c =
     (case undo c of
        None \<Rightarrow> c
      | Some u \<Rightarrow>
          c\<lparr>blocks := take (intact u) (blocks c) @ removed u,
            finalized_head := undo_finalized_head u, undo := None\<rparr>)"

definition record_removal :: "chain \<Rightarrow> usize \<Rightarrow> chain option" where
  "record_removal c from =
     (case undo c of
        None \<Rightarrow> Some c
      | Some u \<Rightarrow>
          if from \<ge> intact u then Some c
          else do {
            originals \<leftarrow> vec_slice (blocks c) from (intact u);
            Some (c\<lparr>undo := Some (u\<lparr>removed := originals @ removed u, intact := from\<rparr>)\<rparr>)
          })"

subsection \<open>Getters\<close>

definition first_block :: "chain \<Rightarrow> block option" where
  "first_block c = vec_get (blocks c) 0"

definition block_at :: "chain \<Rightarrow> u64 \<Rightarrow> block option" where
  "block_at c n = find (\<lambda>b. number b = n) (blocks c)"

definition last_block :: "chain \<Rightarrow> block option" where
  "last_block c = vec_last (blocks c)"

definition first_block_number :: "chain \<Rightarrow> u64 option" where
  "first_block_number c = map_option number (vec_get (blocks c) 0)"

definition last_block_number :: "chain \<Rightarrow> u64 option" where
  "last_block_number c = map_option number (last_block c)"

definition window_excess :: "chain \<Rightarrow> usize" where
  "window_excess c = length (blocks c) - max_size c"

definition chain_size :: "chain \<Rightarrow> usize" where
  "chain_size c = length (blocks c)"

definition get_finalized_head :: "chain \<Rightarrow> block_ref option" where
  "get_finalized_head c = map_option block_ref_of (vec_get (blocks c) (finalized_head c))"

definition get_finalized_header :: "chain \<Rightarrow> block_header option" where
  "get_finalized_header c = map_option header_of (vec_get (blocks c) (finalized_head c))"

definition get_head :: "chain \<Rightarrow> block_ref option" where
  "get_head c = map_option block_ref_of (last_block c)"

definition get_header :: "chain \<Rightarrow> block_header option" where
  "get_header c = map_option header_of (last_block c)"

definition snapshot :: "chain \<Rightarrow> block list" where
  "snapshot c = blocks c"

subsection \<open>Mutation\<close>

text \<open>
  \<open>push\<close> in the three stages of the source: the verdict against the block the height already holds
  (\<open>push_held\<close>), the append at the tip, and the reorganisation below it (\<open>push_reorg\<close>).
\<close>

definition push_held :: "block option \<Rightarrow> block \<Rightarrow> (integrity_violation + push_outcome) option" where
  "push_held at nb =
     (case at of
        Some held \<Rightarrow>
          if number held = number nb \<and> hash held = hash nb
          then Some (if parent_number held = parent_number nb \<and> parent_hash held = parent_hash nb
                     then Inr Absorbed
                     else Inl (RefEquivocation (number nb) (hash nb)))
          else None
      | None \<Rightarrow> None)"

definition push_reorg ::
    "chain \<Rightarrow> block \<Rightarrow> ((integrity_violation + push_outcome) \<times> chain) option" where
  "push_reorg c nb = do {
     pos \<leftarrow> bisect (blocks c) (parent_number nb);
     if pos < finalized_head c
     then Some (Inl (WriteBelowFinality (number nb)), c)
     else (case vec_get (blocks c) pos of
         None \<Rightarrow> Some (Inl (ParentNotBuffered (number nb) (parent_number nb)), c)
       | Some p \<Rightarrow>
           if number p \<noteq> parent_number nb
           then Some (Inl (ParentNotBuffered (number nb) (parent_number nb)), c)
           else if hash p \<noteq> parent_hash nb
           then Some (Inl (ParentHashMismatch (number nb) (hash p) (parent_hash nb)), c)
           else do {
             c' \<leftarrow> record_removal c (pos + 1);
             Some (Inr Inserted, c'\<lparr>blocks := take (pos + 1) (blocks c') @ [nb]\<rparr>)
           })
   }"

definition push :: "chain \<Rightarrow> block \<Rightarrow> ((integrity_violation + push_outcome) \<times> chain) option" where
  "push c nb = do {
     at \<leftarrow> bisect (blocks c) (number nb);
     case push_held (vec_get (blocks c) at) nb of
       Some verdict \<Rightarrow> Some (verdict, c)
     | None \<Rightarrow>
         if parent_number nb \<ge> number nb
         then Some (Inl (DescendingHeight (number nb) (parent_number nb)), c)
         else do {
           l \<leftarrow> last_block c;
           if number l = parent_number nb then
             (if \<not> is_chain l nb
              then Some (Inl (ParentHashMismatch (number nb) (hash l) (parent_hash nb)), c)
              else Some (Inr Inserted, c\<lparr>blocks := blocks c @ [nb]\<rparr>))
           else push_reorg c nb
         }
   }"

definition finalize :: "chain \<Rightarrow> block_ref \<Rightarrow> ((integrity_violation + bool) \<times> chain) option" where
  "finalize c r = do {
     f \<leftarrow> vec_get (blocks c) (finalized_head c);
     if ref_number r < number f then Some (Inr False, c)
     else do {
       lastn \<leftarrow> last_block_number c;
       if ref_number r > lastn then
         (let f' = length (blocks c) - 1
          in Some (Inr (f' > finalized_head c), c\<lparr>finalized_head := f'\<rparr>))
       else do {
         pos \<leftarrow> (if ref_number r = lastn then Some (length (blocks c) - 1)
                 else bisect (blocks c) (ref_number r));
         b \<leftarrow> vec_get (blocks c) pos;
         if number b \<noteq> ref_number r
         then Some (Inl (UnbufferedFinality (ref_number r)), c)
         else if hash b \<noteq> ref_hash r
         then Some (Inl (FinalityHashMismatch (ref_number r) (hash b) (ref_hash r)), c)
         else
           (let f' = max (finalized_head c) pos
            in Some (Inr (f' > finalized_head c), c\<lparr>finalized_head := f'\<rparr>))
       }
     }
   }"

definition compact :: "chain \<Rightarrow> (compaction \<times> chain) option" where
  "compact c =
     (let extra = length (blocks c) - max_size c in
      if extra = 0 then Some (\<lparr>excess = 0, force_advanced_past = None\<rparr>, c)
      else do {
        (forced, f) \<leftarrow>
          (if finalized_head c < extra \<and> auto_adjust_finalized_head c
           then do {
             new_last \<leftarrow> vec_get (blocks c) (extra - 1);
             Some (Some (number new_last), extra)
           }
           else Some (None, finalized_head c));
        let trim = min extra f;
        kept \<leftarrow> vec_slice (blocks c) trim (length (blocks c));
        let c' = c\<lparr>blocks := kept, finalized_head := f - trim\<rparr>;
        Some (\<lparr>excess = length (blocks c') - max_size c', force_advanced_past = forced\<rparr>, c')
      })"

subsection \<open>Queries\<close>

definition query_chain ::
    "chain \<Rightarrow> u64 \<Rightarrow> string option \<Rightarrow> (block_ref list + data_response) option" where
  "query_chain c from base_block_hash = do {
     first \<leftarrow> first_block c;
     if parent_number first \<noteq> number first \<and> from \<le> parent_number first
     then Some (Inr \<lparr>resp_finalized_head = None, resp_head = None, resp_tail = None\<rparr>)
     else do {
       pos \<leftarrow> bisect (blocks c) from;
       if pos < length (blocks c) then do {
         b \<leftarrow> vec_get (blocks c) pos;
         if (case base_block_hash of None \<Rightarrow> False | Some bhash \<Rightarrow> parent_hash b \<noteq> bhash)
         then do {
           window \<leftarrow> vec_slice (blocks c) (pos - 100) (pos + 1);
           let prev = map parent_ref_of (filter (\<lambda>b. parent_number b \<noteq> number b) window);
           if prev = [] then Some (Inl [block_ref_of first]) else Some (Inl prev)
         }
         else do {
           fh \<leftarrow> get_finalized_head c;
           rest \<leftarrow> vec_slice (blocks c) pos (length (blocks c));
           Some (Inr \<lparr>resp_finalized_head = Some fh, resp_head = None, resp_tail = Some rest\<rparr>)
         }
       }
       else (case base_block_hash of
           Some bhash \<Rightarrow> do {
             l \<leftarrow> last_block c;
             if from = number l + 1 \<and> bhash \<noteq> hash l
             then do {
               window \<leftarrow> vec_slice (blocks c) (length (blocks c) - 100) (length (blocks c));
               Some (Inl (map block_ref_of window))
             }
             else do {
               fh \<leftarrow> get_finalized_head c;
               Some (Inr \<lparr>resp_finalized_head = Some fh, resp_head = None, resp_tail = None\<rparr>)
             }
           }
         | None \<Rightarrow> do {
             fh \<leftarrow> get_finalized_head c;
             Some (Inr \<lparr>resp_finalized_head = Some fh, resp_head = None, resp_tail = None\<rparr>)
           })
     }
   }"

text \<open>
  \<open>get_fork_base\<close>: \<open>advance_fh\<close> is its inner loop (pop upstream refs above the current block),
  \<open>fork_walk\<close> the outer one, with the signed index \<open>tp\<close> (\<open>top\<close>) of the source.
\<close>

function advance_fh ::
    "u64 \<Rightarrow> block_ref option \<Rightarrow> block_ref list \<Rightarrow> block_ref option \<times> block_ref list" where
  "advance_fh n fh prev =
     (case fh of
        None \<Rightarrow> (fh, prev)
      | Some r \<Rightarrow>
          if ref_number r > n then
            (if prev = [] then (None, []) else advance_fh n (Some (last prev)) (butlast prev))
          else (fh, prev))"
  by pat_completeness auto
termination
  by (relation "measure (\<lambda>(n, fh, prev). length prev)") auto

declare advance_fh.simps [simp del]

function fork_walk ::
    "block list \<Rightarrow> usize \<Rightarrow> int \<Rightarrow> block_ref option \<Rightarrow> block_ref list \<Rightarrow> block_ref option option" where
  "fork_walk bs fin tp fh prev =
     (if tp \<ge> int fin then
        case vec_get bs (nat tp) of
          None \<Rightarrow> None
        | Some b \<Rightarrow>
            let (fh', prev') = advance_fh (number b) fh prev in
            (case fh' of
               None \<Rightarrow> Some (Some (block_ref_of b))
             | Some r \<Rightarrow>
                 if ref_number r = number b \<and> ref_hash r = hash b
                 then Some (Some (block_ref_of b))
                 else fork_walk bs fin (tp - 1) fh' prev')
      else Some None)"
  by pat_completeness auto
termination
  by (relation "measure (\<lambda>(bs, fin, tp, fh, prev). nat (tp + 1))") auto

declare fork_walk.simps [simp del]

definition get_fork_base :: "chain \<Rightarrow> block_ref list \<Rightarrow> block_ref option option" where
  "get_fork_base c prev =
     (let (fh, rest) = vec_pop prev
      in fork_walk (blocks c) (finalized_head c) (int (length (blocks c)) - 1) fh rest)"

subsection \<open>The buffer invariant\<close>

fun linked_chain :: "block list \<Rightarrow> bool" where
  "linked_chain (a # b # bs) \<longleftrightarrow> is_chain a b \<and> number a < number b \<and> linked_chain (b # bs)"
| "linked_chain bs \<longleftrightarrow> True"

definition window_inv :: "block list \<Rightarrow> usize \<Rightarrow> bool" where
  "window_inv bs f \<longleftrightarrow>
     bs \<noteq> [] \<and> linked_chain bs \<and> parent_number (hd bs) \<le> number (hd bs) \<and> f < length bs"

text \<open>
  The open batch log must be able to restore a well-formed buffer: the untouched prefix is still
  there, and prefix and saved originals together are the buffer \<open>begin_batch\<close> saw.
\<close>

definition undo_inv :: "chain \<Rightarrow> bool" where
  "undo_inv c \<longleftrightarrow>
     (case undo c of
        None \<Rightarrow> True
      | Some u \<Rightarrow>
          intact u \<le> length (blocks c) \<and>
          window_inv (take (intact u) (blocks c) @ removed u) (undo_finalized_head u))"

definition chain_inv :: "chain \<Rightarrow> bool" where
  "chain_inv c \<longleftrightarrow> window_inv (blocks c) (finalized_head c) \<and> max_size c > 0 \<and> undo_inv c"

subsection \<open>What the lemmas speak of\<close>

text \<open>The buffer an open batch log restores, and the log of a batch that started on \<open>c0\<close>.\<close>

definition restored :: "chain \<Rightarrow> block list" where
  "restored c =
     (case undo c of None \<Rightarrow> blocks c | Some u \<Rightarrow> take (intact u) (blocks c) @ removed u)"

definition batch_open :: "chain \<Rightarrow> chain \<Rightarrow> bool" where
  "batch_open c0 c \<longleftrightarrow>
     (\<exists>u. undo c = Some u \<and> undo_finalized_head u = finalized_head c0) \<and>
     restored c = blocks c0 \<and> max_size c = max_size c0 \<and>
     auto_adjust_finalized_head c = auto_adjust_finalized_head c0"

definition trim_of :: "chain \<Rightarrow> usize" where
  "trim_of c =
     (let extra = window_excess c
      in if auto_adjust_finalized_head c then extra else min extra (finalized_head c))"

text \<open>A block the walk may stop at: one the signal names, or one below everything it names.\<close>

definition fork_stop :: "block_ref list \<Rightarrow> block \<Rightarrow> bool" where
  "fork_stop prev b \<longleftrightarrow> block_ref_of b \<in> set prev \<or> (\<forall>r \<in> set prev. number b < ref_number r)"

text \<open>The refs of a conflict answer inside the window: the parents of up to 101 blocks.\<close>

definition conflict_refs :: "block list \<Rightarrow> usize \<Rightarrow> block_ref list" where
  "conflict_refs bs pos =
     (let prev = map parent_ref_of (filter (\<lambda>b. parent_number b \<noteq> number b)
                   (take (pos + 1 - (pos - 100)) (drop (pos - 100) bs)))
      in if prev = [] then [block_ref_of (hd bs)] else prev)"

text \<open>What a push may not change.\<close>

definition push_rel :: "chain \<Rightarrow> chain \<Rightarrow> bool" where
  "push_rel c c' \<longleftrightarrow>
     finalized_head c' = finalized_head c \<and> max_size c' = max_size c \<and>
     auto_adjust_finalized_head c' = auto_adjust_finalized_head c \<and>
     take (Suc (finalized_head c)) (blocks c') = take (Suc (finalized_head c)) (blocks c) \<and>
     (undo c = None \<longrightarrow> undo c' = None) \<and> (\<forall>c0. batch_open c0 c \<longrightarrow> batch_open c0 c')"

subsection \<open>Linked chains are ascending\<close>

lemma linked_chain_append:
  "linked_chain (xs @ ys) \<longleftrightarrow>
     linked_chain xs \<and> linked_chain ys \<and>
     (xs \<noteq> [] \<longrightarrow> ys \<noteq> [] \<longrightarrow> is_chain (last xs) (hd ys) \<and> number (last xs) < number (hd ys))"
proof (induction xs rule: linked_chain.induct)
  case (1 a b bs)
  then show ?case by auto
qed (simp, cases ys, auto)

lemma linked_chain_take: "linked_chain bs \<Longrightarrow> linked_chain (take n bs)"
  by (metis append_take_drop_id linked_chain_append)

lemma linked_chain_drop: "linked_chain bs \<Longrightarrow> linked_chain (drop n bs)"
  by (metis append_take_drop_id linked_chain_append)

lemma linked_chain_ascending: "linked_chain bs \<Longrightarrow> ascending number bs"
proof (induction bs rule: linked_chain.induct)
  case (1 a b bs)
  then have "ascending number (b # bs)" and "number a < number b" by auto
  then show ?case by (auto simp: ascending_Cons intro: less_trans)
qed simp_all

lemma linked_chain_nth:
  assumes "linked_chain bs" "Suc i < length bs"
  shows "is_chain (bs ! i) (bs ! Suc i)"
proof -
  have "bs = take (Suc i) bs @ drop (Suc i) bs" by simp
  then have "is_chain (last (take (Suc i) bs)) (hd (drop (Suc i) bs))"
    using assms linked_chain_append [of "take (Suc i) bs" "drop (Suc i) bs"] by auto
  then show ?thesis using assms(2) by (simp add: take_Suc_conv_app_nth hd_drop_conv_nth)
qed

lemma linked_chain_parent_less:
  assumes "linked_chain bs" "0 < i" "i < length bs"
  shows "parent_number (bs ! i) < number (bs ! i)"
  using linked_chain_nth [OF assms(1), of "i - 1"] assms
    ascending_nth_less [OF linked_chain_ascending [OF assms(1)], of "i - 1" i]
  by (simp add: is_chain_def)

lemma window_invD:
  assumes "window_inv bs f"
  shows "bs \<noteq> []" "linked_chain bs" "ascending number bs" "f < length bs"
    "parent_number (hd bs) \<le> number (hd bs)"
  using assms by (auto simp: window_inv_def linked_chain_ascending)

lemma window_inv_take: "window_inv bs f \<Longrightarrow> f < n \<Longrightarrow> window_inv (take n bs) f"
  by (auto simp: window_inv_def linked_chain_take)

lemma window_inv_snoc:
  assumes "window_inv bs f" "is_chain (last bs) nb" "parent_number nb < number nb"
  shows "window_inv (bs @ [nb]) f"
  using assms by (auto simp: window_inv_def linked_chain_append is_chain_def)

lemma window_inv_drop:
  assumes "window_inv bs f" "n \<le> f"
  shows "window_inv (drop n bs) (f - n)"
proof -
  have "parent_number (hd (drop n bs)) \<le> number (hd (drop n bs))"
  proof (cases "n = 0")
    case True
    then show ?thesis using window_invD(5) [OF assms(1)] by simp
  next
    case False
    then have "parent_number (bs ! n) < number (bs ! n)"
      using assms window_invD [OF assms(1)] by (intro linked_chain_parent_less) auto
    then show ?thesis using assms window_invD(4) [OF assms(1)] by (simp add: hd_drop_conv_nth)
  qed
  then show ?thesis using assms by (auto simp: window_inv_def linked_chain_drop)
qed

subsection \<open>Bisection\<close>

lemma bisect_loop_returns:
  "lo \<le> hi \<Longrightarrow> hi \<le> length bs \<Longrightarrow> \<exists>p. bisect_loop bs t lo hi = Some p \<and> lo \<le> p \<and> p \<le> hi"
proof (induction bs t lo hi rule: bisect_loop.induct)
  case (1 bs t lo hi)
  show ?case
  proof (cases "lo < hi")
    case True
    define mid where "mid = lo + (hi - lo) div 2"
    have mid: "lo \<le> mid" "mid < hi" using True by (auto simp: mid_def)
    then have get: "vec_get bs mid = Some (bs ! mid)" using 1 by (simp add: vec_get_def)
    show ?thesis
    proof (cases "number (bs ! mid) < t")
      case True
      then have "\<exists>p. bisect_loop bs t (mid + 1) hi = Some p \<and> mid + 1 \<le> p \<and> p \<le> hi"
        using "1.IH"(1) [OF \<open>lo < hi\<close> mid_def get True] mid "1.prems" by simp
      then show ?thesis
        using True get mid \<open>lo < hi\<close> by (subst bisect_loop.simps) (auto simp: Let_def mid_def)
    next
      case False
      then have "\<exists>p. bisect_loop bs t lo mid = Some p \<and> lo \<le> p \<and> p \<le> mid"
        using "1.IH"(2) [OF \<open>lo < hi\<close> mid_def get False] mid "1.prems" by simp
      then show ?thesis
        using False get mid \<open>lo < hi\<close> by (subst bisect_loop.simps) (auto simp: Let_def mid_def)
    qed
  next
    case False
    then show ?thesis using "1.prems" by (subst bisect_loop.simps) auto
  qed
qed

lemma bisect_loop_lower_bound:
  assumes "ascending number bs"
  shows "lo \<le> hi \<Longrightarrow> hi \<le> length bs \<Longrightarrow> lo \<le> lower_bound number bs t \<Longrightarrow>
    lower_bound number bs t \<le> hi \<Longrightarrow> bisect_loop bs t lo hi = Some (lower_bound number bs t)"
  using assms
proof (induction bs t lo hi rule: bisect_loop.induct)
  case (1 bs t lo hi)
  let ?lb = "lower_bound number bs t"
  show ?case
  proof (cases "lo < hi")
    case True
    define mid where "mid = lo + (hi - lo) div 2"
    have mid: "lo \<le> mid" "mid < hi" using True by (auto simp: mid_def)
    then have get: "vec_get bs mid = Some (bs ! mid)" using 1 by (simp add: vec_get_def)
    show ?thesis
    proof (cases "number (bs ! mid) < t")
      case below: True
      have "\<not> ?lb \<le> mid"
        using below lower_bound_at [of number bs t] mid "1.prems"
          ascending_nth_le [OF "1.prems"(5), of ?lb mid] by auto
      then have "bisect_loop bs t (mid + 1) hi = Some ?lb"
        using "1.IH"(1) [OF True mid_def get below] mid "1.prems" by simp
      then show ?thesis
        using below get True by (subst bisect_loop.simps) (simp add: Let_def mid_def)
    next
      case above: False
      then have "?lb \<le> mid" using lower_bound_below [of mid number bs t] by (meson not_le)
      then have "bisect_loop bs t lo mid = Some ?lb"
        using "1.IH"(2) [OF True mid_def get above] mid "1.prems" by simp
      then show ?thesis
        using above get True by (subst bisect_loop.simps) (simp add: Let_def mid_def)
    qed
  next
    case False
    then show ?thesis using "1.prems" by (subst bisect_loop.simps) simp
  qed
qed

lemma bisect_eq:
  "ascending number bs \<Longrightarrow> bisect bs t = Some (lower_bound number bs t)"
  by (simp add: bisect_def bisect_loop_lower_bound)

lemma bisect_returns: "\<exists>p. bisect bs t = Some p \<and> p \<le> length bs"
  using bisect_loop_returns [of 0 "length bs" bs t] by (auto simp: bisect_def)

subsection \<open>Pushing a block\<close>

lemma chain_invD:
  assumes "chain_inv c"
  shows "blocks c \<noteq> []" "linked_chain (blocks c)" "ascending number (blocks c)"
    "finalized_head c < length (blocks c)" "parent_number (hd (blocks c)) \<le> number (hd (blocks c))"
    "max_size c > 0" "undo_inv c" "window_inv (blocks c) (finalized_head c)"
  using assms window_invD [of "blocks c" "finalized_head c"] by (auto simp: chain_inv_def)

lemma get_finalized_head_eq:
  "chain_inv c \<Longrightarrow> get_finalized_head c = Some (block_ref_of (blocks c ! finalized_head c))"
  by (simp add: get_finalized_head_def vec_get_def chain_invD)

lemma last_block_eq: "chain_inv c \<Longrightarrow> last_block c = Some (last (blocks c))"
  by (simp add: last_block_def chain_invD)

lemma first_block_eq: "chain_inv c \<Longrightarrow> first_block c = Some (hd (blocks c))"
  using chain_invD(1) [of c] by (simp add: first_block_def vec_get_def hd_conv_nth)

lemma bisect_blocks_eq:
  "chain_inv c \<Longrightarrow> bisect (blocks c) t = Some (lower_bound number (blocks c) t)"
  by (simp add: bisect_eq chain_invD)

lemmas chain_getters = get_finalized_head_eq last_block_eq first_block_eq bisect_blocks_eq

text \<open>
  What \<open>record_removal\<close> leaves in the log: it never panics on a well-formed buffer, changes nothing
  but the log, and what the log restores is the same before and after.
\<close>

lemma record_removal_eq:
  assumes "undo_inv c" "k \<le> length (blocks c)"
  obtains c1 where "record_removal c k = Some c1" "blocks c1 = blocks c"
    "finalized_head c1 = finalized_head c" "max_size c1 = max_size c"
    "auto_adjust_finalized_head c1 = auto_adjust_finalized_head c"
    "\<And>u. undo c = Some u \<Longrightarrow> \<exists>u1. undo c1 = Some u1 \<and> intact u1 \<le> k \<and>
       intact u1 \<le> length (blocks c) \<and> undo_finalized_head u1 = undo_finalized_head u \<and>
       take (intact u1) (blocks c) @ removed u1 = take (intact u) (blocks c) @ removed u"
    "undo c = None \<Longrightarrow> undo c1 = None"
proof (cases "undo c")
  case None
  then show ?thesis using that [of c] by (simp add: record_removal_def)
next
  case (Some u)
  then have le: "intact u \<le> length (blocks c)" using assms(1) by (simp add: undo_inv_def)
  show ?thesis
  proof (cases "k \<ge> intact u")
    case True
    then show ?thesis using that [of c] Some le by (simp add: record_removal_def)
  next
    case False
    let ?u1 = "u\<lparr>removed := take (intact u - k) (drop k (blocks c)) @ removed u, intact := k\<rparr>"
    have "take k (blocks c) @ take (intact u - k) (drop k (blocks c)) = take (intact u) (blocks c)"
      using False by (metis le_add_diff_inverse nat_le_linear take_add)
    then show ?thesis
      using that [of "c\<lparr>undo := Some ?u1\<rparr>"] Some False le assms(2)
      by (simp add: record_removal_def vec_slice_def)
  qed
qed

lemma record_removal_whole:
  "undo_inv c \<Longrightarrow> record_removal c (length (blocks c)) = Some c"
  by (auto simp: record_removal_def undo_inv_def split: option.splits)

lemma push_reorg_cases [consumes 1, case_names inserted rejected]:
  assumes inv: "chain_inv c"
  obtains (inserted) k c1 where "finalized_head c < k" "k \<le> length (blocks c)"
      "is_chain (blocks c ! (k - 1)) nb" "record_removal c k = Some c1"
      "push_reorg c nb = Some (Inr Inserted, c1\<lparr>blocks := take k (blocks c) @ [nb]\<rparr>)"
  | (rejected) v where "push_reorg c nb = Some (Inl v, c)"
proof -
  let ?bs = "blocks c"
  let ?pos = "lower_bound number ?bs (parent_number nb)"
  show ?thesis
  proof (cases "finalized_head c \<le> ?pos \<and> ?pos < length ?bs \<and>
      number (?bs ! ?pos) = parent_number nb \<and> hash (?bs ! ?pos) = parent_hash nb")
    case True
    obtain c1 where c1: "record_removal c (?pos + 1) = Some c1" "blocks c1 = ?bs"
      using record_removal_eq [OF chain_invD(7) [OF inv], of "?pos + 1"] True by auto
    show ?thesis
      using True c1 bisect_blocks_eq [OF inv]
      by (intro inserted [of "?pos + 1" c1]) (simp_all add: push_reorg_def vec_get_def is_chain_def)
  next
    case False
    then have "\<exists>v. push_reorg c nb = Some (Inl v, c)"
      using bisect_blocks_eq [OF inv] by (auto simp: push_reorg_def vec_get_def)
    then show ?thesis using rejected by blast
  qed
qed

lemma push_cases [consumes 1, case_names absorbed inserted rejected]:
  assumes inv: "chain_inv c"
  obtains (absorbed) i where "i < length (blocks c)" "number (blocks c ! i) = number nb"
      "hash (blocks c ! i) = hash nb" "parent_number (blocks c ! i) = parent_number nb"
      "parent_hash (blocks c ! i) = parent_hash nb" "push c nb = Some (Inr Absorbed, c)"
  | (inserted) k c1 where "finalized_head c < k" "k \<le> length (blocks c)"
      "is_chain (blocks c ! (k - 1)) nb" "parent_number nb < number nb"
      "record_removal c k = Some c1"
      "push c nb = Some (Inr Inserted, c1\<lparr>blocks := take k (blocks c) @ [nb]\<rparr>)"
  | (rejected) v where "push c nb = Some (Inl v, c)"
proof -
  let ?bs = "blocks c"
  let ?held = "vec_get ?bs (lower_bound number ?bs (number nb))"
  note eqs = chain_getters [OF inv]
  consider (held) v where "push_held ?held nb = Some v"
    | (low) "push_held ?held nb = None" "number nb \<le> parent_number nb"
    | (tip) "push_held ?held nb = None" "parent_number nb < number nb"
        "number (last ?bs) = parent_number nb"
    | (off) "push_held ?held nb = None" "parent_number nb < number nb"
        "number (last ?bs) \<noteq> parent_number nb"
    by (meson not_le not_None_eq)
  then show ?thesis
  proof cases
    case held
    then have p: "push c nb = Some (v, c)" by (simp add: push_def eqs)
    show ?thesis
    proof (cases v)
      case (Inl w)
      then show ?thesis using rejected p by simp
    next
      case (Inr out)
      with held p show ?thesis
        by (intro absorbed [of "lower_bound number ?bs (number nb)"])
          (auto simp: push_held_def vec_get_def split: if_splits)
    qed
  next
    case low
    then have "push c nb = Some (Inl (DescendingHeight (number nb) (parent_number nb)), c)"
      by (simp add: push_def eqs)
    then show ?thesis by (rule rejected)
  next
    case tip
    show ?thesis
    proof (cases "is_chain (last ?bs) nb")
      case True
      then have "push c nb = Some (Inr Inserted, c\<lparr>blocks := ?bs @ [nb]\<rparr>)"
        using tip by (simp add: push_def eqs)
      then show ?thesis
        using tip True chain_invD [OF inv] record_removal_whole [of c]
        by (intro inserted [of "length ?bs" c]) (simp_all add: last_conv_nth)
    next
      case False
      then have "push c nb =
          Some (Inl (ParentHashMismatch (number nb) (hash (last ?bs)) (parent_hash nb)), c)"
        using tip by (simp add: push_def eqs)
      then show ?thesis by (rule rejected)
    qed
  next
    case off
    then have p: "push c nb = push_reorg c nb" by (auto simp: push_def eqs)
    show ?thesis
    proof (rule push_reorg_cases [OF inv, of nb])
      fix k c1
      assume "finalized_head c < k" "k \<le> length ?bs" "is_chain (?bs ! (k - 1)) nb"
        "record_removal c k = Some c1"
        "push_reorg c nb = Some (Inr Inserted, c1\<lparr>blocks := take k ?bs @ [nb]\<rparr>)"
      then show thesis using p off by (intro inserted [of k c1]) simp_all
    next
      fix v
      assume "push_reorg c nb = Some (Inl v, c)"
      then show thesis using p by (intro rejected [of v]) simp
    qed
  qed
qed

lemma undo_inv_push:
  assumes "undo_inv c" "k \<le> length (blocks c)" "record_removal c k = Some c1"
  shows "undo_inv (c1\<lparr>blocks := take k (blocks c) @ xs\<rparr>)"
    and "restored (c1\<lparr>blocks := take k (blocks c) @ xs\<rparr>) =
      (if undo c = None then take k (blocks c) @ xs else restored c)"
proof -
  obtain c1' where c1': "record_removal c k = Some c1'" "blocks c1' = blocks c"
    "\<And>u. undo c = Some u \<Longrightarrow> \<exists>u1. undo c1' = Some u1 \<and> intact u1 \<le> k \<and>
       intact u1 \<le> length (blocks c) \<and> undo_finalized_head u1 = undo_finalized_head u \<and>
       take (intact u1) (blocks c) @ removed u1 = take (intact u) (blocks c) @ removed u"
    "undo c = None \<Longrightarrow> undo c1' = None"
    using record_removal_eq [OF assms(1,2)] by metis
  then have "c1' = c1" using assms(3) by simp
  note c1 = c1' [unfolded \<open>c1' = c1\<close>]
  show "undo_inv (c1\<lparr>blocks := take k (blocks c) @ xs\<rparr>)"
    using c1(3,4) assms(1,2)
    by (cases "undo c") (fastforce simp: undo_inv_def min_absorb1)+
  show "restored (c1\<lparr>blocks := take k (blocks c) @ xs\<rparr>) =
      (if undo c = None then take k (blocks c) @ xs else restored c)"
    using c1(3,4) assms(2)
    by (cases "undo c") (fastforce simp: restored_def min_absorb1)+
qed

lemma push_returns:
  assumes "chain_inv c"
  obtains r c' where "push c nb = Some (r, c')" "chain_inv c'"
    "finalized_head c' = finalized_head c" "max_size c' = max_size c"
    "auto_adjust_finalized_head c' = auto_adjust_finalized_head c"
    "take (Suc (finalized_head c)) (blocks c') = take (Suc (finalized_head c)) (blocks c)"
    "isl r \<Longrightarrow> c' = c" "undo c = None \<Longrightarrow> undo c' = None"
    "\<And>c0. batch_open c0 c \<Longrightarrow> batch_open c0 c'"
  using assms
proof (cases rule: push_cases [where nb = nb])
  case (absorbed i)
  then show ?thesis using that [of "Inr Absorbed" c] assms by simp
next
  case (rejected v)
  then show ?thesis using that [of "Inl v" c] assms by simp
next
  case (inserted k c1)
  let ?bs = "blocks c"
  let ?c' = "c1\<lparr>blocks := take k ?bs @ [nb]\<rparr>"
  note inv = chain_invD [OF assms]
  obtain c1' where c1: "record_removal c k = Some c1'" "blocks c1' = blocks c"
    "finalized_head c1' = finalized_head c" "max_size c1' = max_size c"
    "auto_adjust_finalized_head c1' = auto_adjust_finalized_head c"
    "\<And>u. undo c = Some u \<Longrightarrow> \<exists>u1. undo c1' = Some u1 \<and> undo_finalized_head u1 = undo_finalized_head u"
    "undo c = None \<Longrightarrow> undo c1' = None"
    using record_removal_eq [OF inv(7) inserted(2)] by metis
  then have "c1' = c1" using inserted by simp
  note c1 = c1 [unfolded this]
  have "last (take k ?bs) = ?bs ! (k - 1)"
    using inserted(1,2) by (subst last_conv_nth) auto
  then have win: "window_inv (take k ?bs @ [nb]) (finalized_head c)"
    using window_inv_take [OF inv(8) inserted(1)] inserted(3,4) by (intro window_inv_snoc) auto
  have inv': "chain_inv ?c'"
    using win c1 inv undo_inv_push(1) [OF inv(7) inserted(2,5)] by (simp add: chain_inv_def)
  have keep: "take (Suc (finalized_head c)) (blocks ?c') = take (Suc (finalized_head c)) ?bs"
    using inserted(1,2) by (simp add: min_absorb1 Suc_leI)
  have "batch_open c0 ?c'" if "batch_open c0 c" for c0
    using that c1 undo_inv_push(2) [OF inv(7) inserted(2,5), of "[nb]"]
    by (force simp: batch_open_def)
  then show ?thesis
    using that [of "Inr Inserted" ?c'] inserted c1 inv' keep by simp
qed

interpretation chain_push: total_op chain_inv push_rel push "\<lambda>r. \<not> isl r"
proof
  fix c nb
  assume "chain_inv c"
  then show "\<exists>r c'. push c nb = Some (r, c') \<and> chain_inv c' \<and> push_rel c c'"
    by (rule push_returns [of c nb]) (auto simp: push_rel_def)
qed (auto simp: push_rel_def)

lemma push_finalized_block:
  assumes "chain_inv c" "push c nb = Some (r, c')"
  shows "blocks c' ! finalized_head c' = blocks c ! finalized_head c"
proof -
  obtain r2 c2 where "push c nb = Some (r2, c2)" "chain_inv c2" "finalized_head c2 = finalized_head c"
    "take (Suc (finalized_head c)) (blocks c2) = take (Suc (finalized_head c)) (blocks c)"
    using push_returns [OF assms(1)] by metis
  then show ?thesis using assms(2)
    by (metis lessI nth_take option.inject prod.inject)
qed

subsection \<open>Finality\<close>

lemma finalize_cases [consumes 1, case_names stale whole exact rejected]:
  assumes inv: "chain_inv c"
  obtains (stale) "ref_number r < number (blocks c ! finalized_head c)"
      "finalize c r = Some (Inr False, c)"
  | (whole) "number (last (blocks c)) < ref_number r"
      "finalize c r = Some (Inr (length (blocks c) - 1 > finalized_head c),
         c\<lparr>finalized_head := length (blocks c) - 1\<rparr>)"
  | (exact) i where "i < length (blocks c)" "finalized_head c \<le> i"
      "number (blocks c ! i) = ref_number r" "hash (blocks c ! i) = ref_hash r"
      "finalize c r = Some (Inr (i > finalized_head c), c\<lparr>finalized_head := i\<rparr>)"
  | (rejected) v where "number (blocks c ! finalized_head c) \<le> ref_number r"
      "ref_number r \<le> number (last (blocks c))"
      "\<forall>b \<in> set (blocks c). block_ref_of b \<noteq> r" "finalize c r = Some (Inl v, c)"
proof -
  let ?bs = "blocks c" and ?n = "ref_number r"
  note invs = chain_invD [OF inv]
  have get: "vec_get ?bs (finalized_head c) = Some (?bs ! finalized_head c)"
    and lastn: "last_block_number c = Some (number (last ?bs))"
    using invs by (simp_all add: vec_get_def last_block_number_def last_block_def)
  consider (s) "?n < number (?bs ! finalized_head c)"
    | (w) "number (?bs ! finalized_head c) \<le> ?n" "number (last ?bs) < ?n"
    | (m) "number (?bs ! finalized_head c) \<le> ?n" "?n \<le> number (last ?bs)"
    by (meson not_le)
  then show ?thesis
  proof cases
    case s
    then show ?thesis by (intro stale) (simp_all add: finalize_def get)
  next
    case w
    then show ?thesis using leD [OF w(1)] by (intro whole) (simp_all add: finalize_def get lastn Let_def)
  next
    case m
    let ?pos = "lower_bound number ?bs ?n"
    have lenlast: "length ?bs - 1 < length ?bs" "?bs ! (length ?bs - 1) = last ?bs"
      using invs by (simp_all add: last_conv_nth)
    have pos: "?pos < length ?bs"
      using lower_bound_length_iff [OF invs(3,1), of ?n] lower_bound_le_length [of number ?bs ?n] m(2)
      by (meson le_neq_implies_less not_le)
    then have getp: "vec_get ?bs ?pos = Some (?bs ! ?pos)" by (simp add: vec_get_def)
    have sel: "(if ?n = number (last ?bs) then Some (length ?bs - 1) else bisect ?bs ?n) = Some ?pos"
      using lower_bound_nth [OF invs(3) lenlast(1)] lenlast(2) bisect_blocks_eq [OF inv] by simp
    have fin: "finalize c r =
        (if number (?bs ! ?pos) \<noteq> ?n then Some (Inl (UnbufferedFinality ?n), c)
         else if hash (?bs ! ?pos) \<noteq> ref_hash r
         then Some (Inl (FinalityHashMismatch ?n (hash (?bs ! ?pos)) (ref_hash r)), c)
         else Some (Inr (max (finalized_head c) ?pos > finalized_head c),
            c\<lparr>finalized_head := max (finalized_head c) ?pos\<rparr>))"
      using leD [OF m(1)] leD [OF m(2)] by (simp add: finalize_def get lastn sel getp Let_def)
    show ?thesis
    proof (cases "number (?bs ! ?pos) = ?n \<and> hash (?bs ! ?pos) = ref_hash r")
      case True
      have "finalized_head c \<le> ?pos"
        using True m(1) ascending_nth_less [OF invs(3), of ?pos "finalized_head c"] invs(4)
        by (metis leI not_le)
      then show ?thesis
        using True pos fin by (intro exact [of ?pos]) (simp_all add: max_absorb2)
    next
      case False
      have none: "\<forall>b \<in> set ?bs. block_ref_of b \<noteq> r"
      proof
        fix b
        assume "b \<in> set ?bs"
        then obtain i where "i < length ?bs" "b = ?bs ! i" by (auto simp: in_set_conv_nth)
        then show "block_ref_of b \<noteq> r"
          using False lower_bound_nth [OF invs(3), of i] by auto
      qed
      show ?thesis using False fin m none by (auto intro: rejected split: if_splits)
    qed
  qed
qed

lemma chain_inv_set_finalized:
  "chain_inv c \<Longrightarrow> i < length (blocks c) \<Longrightarrow> chain_inv (c\<lparr>finalized_head := i\<rparr>)"
  by (auto simp: chain_inv_def undo_inv_def window_inv_def split: option.splits)

lemma finalize_returns:
  assumes "chain_inv c"
  obtains res c' where "finalize c r = Some (res, c')" "chain_inv c'" "blocks c' = blocks c"
    "finalized_head c \<le> finalized_head c'" "max_size c' = max_size c"
    "auto_adjust_finalized_head c' = auto_adjust_finalized_head c" "undo c' = undo c"
    "isl res \<Longrightarrow> c' = c"
  using assms
proof (cases rule: finalize_cases [where r = r])
  case stale
  then show ?thesis using that [of "Inr False" c] assms by simp
next
  case whole
  then show ?thesis
    using that [OF whole(2)] chain_invD(1,4) [OF assms] chain_inv_set_finalized [OF assms]
    by (simp add: Suc_leI)
next
  case (exact i)
  then show ?thesis
    using that [OF exact(5)] chain_inv_set_finalized [OF assms] by simp
next
  case (rejected v)
  then show ?thesis using that [of "Inl v" c] assms by simp
qed

subsection \<open>Batches\<close>

lemma begin_batch_open:
  assumes "chain_inv c"
  shows "chain_inv (begin_batch c)" "batch_open c (begin_batch c)"
  using assms
  by (simp_all add: begin_batch_def chain_inv_def undo_inv_def batch_open_def restored_def)

lemma commit_batch_inv: "chain_inv c \<Longrightarrow> chain_inv (commit_batch c)"
  by (simp add: commit_batch_def chain_inv_def undo_inv_def)

lemma batch_open_finalize:
  assumes "batch_open c0 c" "blocks c' = blocks c" "undo c' = undo c" "max_size c' = max_size c"
    "auto_adjust_finalized_head c' = auto_adjust_finalized_head c"
  shows "batch_open c0 c'"
  using assms by (auto simp: batch_open_def restored_def)

lemma rollback_batch_restores:
  "batch_open c0 c \<Longrightarrow> rollback_batch c = c0\<lparr>undo := None\<rparr>"
  by (cases c0) (auto simp: batch_open_def rollback_batch_def restored_def)

subsection \<open>Compaction\<close>

lemma trim_of_le: "chain_inv c \<Longrightarrow> trim_of c < length (blocks c)"
  using chain_invD [of c] by (auto simp: trim_of_def window_excess_def Let_def)

lemma compact_eq:
  assumes "chain_inv c"
  shows "compact c =
    Some (\<lparr>excess = length (blocks c) - trim_of c - max_size c,
           force_advanced_past =
             (if auto_adjust_finalized_head c \<and> finalized_head c < window_excess c
              then Some (number (blocks c ! (window_excess c - 1))) else None)\<rparr>,
          c\<lparr>blocks := drop (trim_of c) (blocks c), finalized_head := finalized_head c - trim_of c\<rparr>)"
proof -
  note inv = chain_invD [OF assms]
  show ?thesis
  proof (cases "window_excess c = 0")
    case True
    then show ?thesis by (simp add: compact_def trim_of_def window_excess_def)
  next
    case False
    then have len: "length (blocks c) > max_size c" by (simp add: window_excess_def)
    let ?x = "length (blocks c) - max_size c"
    show ?thesis
    proof (cases "finalized_head c < ?x \<and> auto_adjust_finalized_head c")
      case True
      then show ?thesis
        using inv len by (simp add: compact_def trim_of_def window_excess_def vec_get_def vec_slice_def Let_def)
    next
      case False
      then have "min ?x (finalized_head c) = trim_of c"
        by (auto simp: trim_of_def window_excess_def Let_def)
      then show ?thesis
        using inv len False
        by (auto simp: compact_def window_excess_def vec_slice_def Let_def)
    qed
  qed
qed

lemma compact_inv:
  assumes "chain_inv c" "undo c = None" "compact c = Some (k, c')"
  shows "chain_inv c'"
proof -
  have c': "c' = c\<lparr>blocks := drop (trim_of c) (blocks c), finalized_head := finalized_head c - trim_of c\<rparr>"
    using assms compact_eq [OF assms(1)] by simp
  have "window_inv (drop (trim_of c) (blocks c)) (finalized_head c - trim_of c)"
  proof (cases "trim_of c \<le> finalized_head c")
    case True
    then show ?thesis using window_inv_drop chain_invD(8) [OF assms(1)] by blast
  next
    case False
    have "window_inv (blocks c) (trim_of c)"
      using chain_invD [OF assms(1)] trim_of_le [OF assms(1)] by (simp add: window_inv_def)
    then have "window_inv (drop (trim_of c) (blocks c)) (trim_of c - trim_of c)"
      by (rule window_inv_drop) simp
    then show ?thesis using False by simp
  qed
  then show ?thesis using c' assms chain_invD(6) [OF assms(1)]
    by (simp add: chain_inv_def undo_inv_def)
qed

lemma compact_returns:
  assumes "chain_inv c" "undo c = None"
  obtains k c' where "compact c = Some (k, c')" "chain_inv c'" "undo c' = None"
    "max_size c' = max_size c" "auto_adjust_finalized_head c' = auto_adjust_finalized_head c"
    "last (blocks c') = last (blocks c)"
proof -
  obtain k c' where k: "compact c = Some (k, c')" using compact_eq [OF assms(1)] by blast
  then have "c' = c\<lparr>blocks := drop (trim_of c) (blocks c), finalized_head := finalized_head c - trim_of c\<rparr>"
    using compact_eq [OF assms(1)] by simp
  then show ?thesis
    using that [OF k compact_inv [OF assms k]] assms(2) trim_of_le [OF assms(1)]
    by (simp add: last_drop)
qed

end
