(* ===== verification/Chain_Query.thy ===== *)
theory Chain_Query
  imports Chain_Buffer
begin

text \<open>
  What the two read operations of the buffer compute: \<open>query_chain_cases\<close> gives every answer of
  \<open>Chain::query\<close> with the condition under which it is given, the facts after it the shape of the
  refs of a conflict answer, and \<open>get_fork_base_eq\<close> equates the two-cursor walk of
  \<open>Chain::get_fork_base\<close> with the search for the highest block at or above finality that the signal
  names, or that lies below everything it names.
\<close>

subsection \<open>Queries\<close>

lemma linked_chain_parents:
  "linked_chain (a # bs) \<Longrightarrow>
     ascending parent_number bs \<and> (\<forall>b \<in> set bs. number a \<le> parent_number b \<and> parent_number b < number b)"
proof (induction bs arbitrary: a)
  case Nil
  then show ?case by simp
next
  case (Cons b bs)
  have link: "parent_number b = number a" "number a < number b" "linked_chain (b # bs)"
    using Cons.prems by (auto simp: is_chain_def)
  with Cons.IH [of b] show ?case by (fastforce simp: ascending_Cons)
qed

lemma parent_refs_ascending:
  assumes "linked_chain bs" "bs \<noteq> [] \<Longrightarrow> parent_number (hd bs) \<le> number (hd bs)"
  shows "ascending ref_number (map parent_ref_of (filter (\<lambda>b. parent_number b \<noteq> number b) bs))"
proof (cases bs)
  case Nil
  then show ?thesis by simp
next
  case (Cons a as)
  then have as: "ascending parent_number as"
    "\<forall>b \<in> set as. number a \<le> parent_number b \<and> parent_number b < number b"
    using linked_chain_parents [of a as] assms(1) by auto
  have "filter (\<lambda>b. parent_number b \<noteq> number b) as = as"
    using as(2) by (simp add: filter_id_conv less_imp_neq)
  moreover have "parent_number a < number a \<or> parent_number a = number a"
    using assms(2) Cons by auto
  ultimately show ?thesis
    using as Cons by (auto simp: ascending_map ascending_Cons intro: less_le_trans)
qed

lemma query_chain_cases [consumes 1, case_names below served conflict tip_conflict ahead]:
  assumes "chain_inv c"
  obtains (below) "parent_number (hd (blocks c)) < number (hd (blocks c))"
      "start \<le> parent_number (hd (blocks c))"
      "query_chain c start base =
         Some (Inr \<lparr>resp_finalized_head = None, resp_head = None, resp_tail = None\<rparr>)"
  | (served) p where "p = lower_bound number (blocks c) start" "p < length (blocks c)"
      "parent_number (hd (blocks c)) = number (hd (blocks c)) \<or> parent_number (hd (blocks c)) < start"
      "\<And>h. base = Some h \<Longrightarrow> h = parent_hash (blocks c ! p)"
      "query_chain c start base =
         Some (Inr \<lparr>resp_finalized_head = Some (block_ref_of (blocks c ! finalized_head c)),
                    resp_head = None, resp_tail = Some (drop p (blocks c))\<rparr>)"
  | (conflict) p h where "p = lower_bound number (blocks c) start" "p < length (blocks c)"
      "parent_number (hd (blocks c)) = number (hd (blocks c)) \<or> parent_number (hd (blocks c)) < start"
      "base = Some h" "h \<noteq> parent_hash (blocks c ! p)"
      "query_chain c start base = Some (Inl (conflict_refs (blocks c) p))"
  | (tip_conflict) h where "start = number (last (blocks c)) + 1" "number (last (blocks c)) < start"
      "base = Some h" "h \<noteq> hash (last (blocks c))"
      "query_chain c start base =
         Some (Inl (map block_ref_of (drop (length (blocks c) - 100) (blocks c))))"
  | (ahead) "number (last (blocks c)) < start"
      "\<And>h. base = Some h \<Longrightarrow> start = number (last (blocks c)) + 1 \<Longrightarrow> h = hash (last (blocks c))"
      "query_chain c start base =
         Some (Inr \<lparr>resp_finalized_head = Some (block_ref_of (blocks c ! finalized_head c)),
                    resp_head = None, resp_tail = None\<rparr>)"
proof -
  let ?bs = "blocks c" and ?p = "lower_bound number (blocks c) start"
  note inv = chain_invD [OF assms]
  have hdp: "parent_number (hd ?bs) \<le> number (hd ?bs)" using inv(8) by (simp add: window_inv_def)
  have get: "get_finalized_head c = Some (block_ref_of (?bs ! finalized_head c))"
    "first_block c = Some (hd ?bs)" "last_block c = Some (last ?bs)" "bisect ?bs start = Some ?p"
    using chain_getters [OF assms] by simp_all
  consider (b) "parent_number (hd ?bs) < number (hd ?bs)" "start \<le> parent_number (hd ?bs)"
    | (w) "parent_number (hd ?bs) = number (hd ?bs) \<or> parent_number (hd ?bs) < start" "?p < length ?bs"
    | (t) "parent_number (hd ?bs) = number (hd ?bs) \<or> parent_number (hd ?bs) < start" "?p = length ?bs"
    using hdp lower_bound_le_length [of number ?bs start] by (meson le_less not_le)
  then show ?thesis
  proof cases
    case b
    then show ?thesis by (intro below) (auto simp: query_chain_def get)
  next
    case w
    then have gate: "\<not> (parent_number (hd ?bs) \<noteq> number (hd ?bs) \<and> start \<le> parent_number (hd ?bs))"
      by auto
    have at: "vec_get ?bs ?p = Some (?bs ! ?p)" using w by (simp add: vec_get_def)
    have sl: "vec_slice ?bs (?p - 100) (?p + 1) =
        Some (take (?p + 1 - (?p - 100)) (drop (?p - 100) ?bs))"
      using w by (simp add: vec_slice_def)
    show ?thesis
    proof (cases "case base of None \<Rightarrow> False | Some bhash \<Rightarrow> parent_hash (?bs ! ?p) \<noteq> bhash")
      case True
      then obtain h where h: "base = Some h" "parent_hash (?bs ! ?p) \<noteq> h" by (auto split: option.splits)
      have "query_chain c start base = Some (Inl (conflict_refs ?bs ?p))"
        using w gate True by (simp add: query_chain_def get at sl [simplified] conflict_refs_def)
      then show ?thesis using w h by (intro conflict [of ?p h]) auto
    next
      case False
      have "query_chain c start base =
         Some (Inr \<lparr>resp_finalized_head = Some (block_ref_of (?bs ! finalized_head c)),
                    resp_head = None, resp_tail = Some (drop ?p ?bs)\<rparr>)"
        using w gate False by (simp add: query_chain_def get at vec_slice_def)
      then show ?thesis using w False by (intro served [of ?p]) auto
    qed
  next
    case t
    then have gate: "\<not> (parent_number (hd ?bs) \<noteq> number (hd ?bs) \<and> start \<le> parent_number (hd ?bs))"
      by auto
    have above: "number (last ?bs) < start" using lower_bound_length_iff [OF inv(3,1)] t by simp
    show ?thesis
    proof (cases "\<exists>h. base = Some h \<and> start = number (last ?bs) + 1 \<and> h \<noteq> hash (last ?bs)")
      case True
      then obtain h where h: "base = Some h" "start = number (last ?bs) + 1" "h \<noteq> hash (last ?bs)"
        by blast
      have "query_chain c start base = Some (Inl (map block_ref_of (drop (length ?bs - 100) ?bs)))"
        using t gate h(1,3) h(2) [symmetric] by (simp add: query_chain_def get vec_slice_def)
      then show ?thesis using h above by (intro tip_conflict [of h]) simp_all
    next
      case False
      have "query_chain c start base =
         Some (Inr \<lparr>resp_finalized_head = Some (block_ref_of (?bs ! finalized_head c)),
                    resp_head = None, resp_tail = None\<rparr>)"
        using t gate False by (auto simp: query_chain_def get split: option.splits)
      then show ?thesis using above False by (intro ahead) auto
    qed
  qed
qed

lemma linked_chain_nth_parent:
  assumes "linked_chain bs" "0 < i" "i < length bs"
  shows "parent_ref_of (bs ! i) = block_ref_of (bs ! (i - 1))"
  using linked_chain_nth [OF assms(1), of "i - 1"] assms(2,3)
  by (simp add: is_chain_def parent_ref_of_def block_ref_of_def)

lemma window_inv_parent_le:
  assumes "window_inv bs f" "n < length bs"
  shows "parent_number (bs ! n) \<le> number (bs ! n)"
  using assms linked_chain_parent_less [of bs n]
  by (cases "n = 0") (auto simp: window_inv_def hd_conv_nth intro: less_imp_le)

lemma conflict_refs_facts:
  assumes "window_inv bs f" "p < length bs"
  shows "conflict_refs bs p \<noteq> []" "ascending ref_number (conflict_refs bs p)"
    "length (conflict_refs bs p) \<le> 101"
    "set (conflict_refs bs p) \<subseteq>
       parent_ref_of ` {b \<in> set bs. parent_number b \<noteq> number b} \<union> {block_ref_of (hd bs)}"
proof -
  let ?w = "take (p + 1 - (p - 100)) (drop (p - 100) bs)"
  let ?prev = "map parent_ref_of (filter (\<lambda>b. parent_number b \<noteq> number b) ?w)"
  have "linked_chain ?w" using assms(1) by (simp add: window_inv_def linked_chain_take linked_chain_drop)
  moreover have "parent_number (hd ?w) \<le> number (hd ?w)" if "?w \<noteq> []"
    using window_inv_parent_le [OF assms(1), of "p - 100"] assms(2) that by (simp add: hd_drop_conv_nth)
  ultimately have asc: "ascending ref_number ?prev" by (intro parent_refs_ascending) auto
  have "length ?prev \<le> length ?w" by (metis length_filter_le length_map)
  also have "\<dots> \<le> 101" by simp
  finally have len: "length ?prev \<le> 101" .
  have sub: "set ?prev \<subseteq> parent_ref_of ` {b \<in> set bs. parent_number b \<noteq> number b}" by (auto dest: in_set_takeD in_set_dropD)
  have eq: "conflict_refs bs p = (if ?prev = [] then [block_ref_of (hd bs)] else ?prev)"
    by (simp only: conflict_refs_def Let_def)
  show "conflict_refs bs p \<noteq> []" "ascending ref_number (conflict_refs bs p)"
    "length (conflict_refs bs p) \<le> 101"
    "set (conflict_refs bs p) \<subseteq>
       parent_ref_of ` {b \<in> set bs. parent_number b \<noteq> number b} \<union> {block_ref_of (hd bs)}"
    unfolding eq using asc len sub by (simp_all del: map_is_Nil_conv split: if_split) auto
qed

lemma tip_refs_facts:
  assumes "window_inv bs f"
  shows "map block_ref_of (drop (length bs - 100) bs) \<noteq> []"
    "ascending ref_number (map block_ref_of (drop (length bs - 100) bs))"
    "length (map block_ref_of (drop (length bs - 100) bs)) \<le> 101"
  using window_invD [OF assms] by (auto simp: ascending_map)

lemma query_tail:
  assumes inv: "chain_inv c" and q: "query_chain c from base = Some (Inr resp)" "resp_tail resp = Some tail"
  shows "tail = filter (\<lambda>b. from \<le> number b) (blocks c)" "tail \<noteq> []" "linked_chain tail"
    "resp_finalized_head resp = Some (block_ref_of (blocks c ! finalized_head c))"
    "\<And>h. base = Some h \<Longrightarrow> parent_hash (hd tail) = h"
proof -
  have "tail = filter (\<lambda>b. from \<le> number b) (blocks c) \<and> tail \<noteq> [] \<and> linked_chain tail \<and>
      resp_finalized_head resp = Some (block_ref_of (blocks c ! finalized_head c)) \<and>
      (\<forall>h. base = Some h \<longrightarrow> parent_hash (hd tail) = h)"
    using inv
  proof (cases rule: query_chain_cases [where start = "from" and base = base])
    case (served p)
    then have "tail = drop p (blocks c)"
      "resp_finalized_head resp = Some (block_ref_of (blocks c ! finalized_head c))" using q by auto
    moreover have "drop p (blocks c) = filter (\<lambda>b. from \<le> number b) (blocks c)"
      using drop_lower_bound_filter [OF chain_invD(3) [OF inv]] served(1) by simp
    moreover have "drop p (blocks c) \<noteq> []" "hd (drop p (blocks c)) = blocks c ! p"
      using served(2) by (simp_all add: hd_drop_conv_nth)
    ultimately show ?thesis
      using served(4) linked_chain_drop [OF chain_invD(2) [OF inv], of p] by metis
  qed (use q in auto)
  then show "tail = filter (\<lambda>b. from \<le> number b) (blocks c)" "tail \<noteq> []" "linked_chain tail"
    "resp_finalized_head resp = Some (block_ref_of (blocks c ! finalized_head c))"
    "\<And>h. base = Some h \<Longrightarrow> parent_hash (hd tail) = h" by auto
qed

subsection \<open>Fork bases\<close>

lemma advance_fh_eq:
  "ascending ref_number ps \<Longrightarrow>
   advance_fh n (fst (vec_pop ps)) (snd (vec_pop ps)) = vec_pop (takeWhile (\<lambda>r. ref_number r \<le> n) ps)"
proof (induction ps rule: rev_induct)
  case Nil
  then show ?case by (simp add: vec_pop_def advance_fh.simps)
next
  case (snoc r ps)
  then have asc: "ascending ref_number ps" and below: "\<forall>y \<in> set ps. ref_number y < ref_number r"
    by (auto simp: ascending_append)
  show ?case
  proof (cases "ref_number r > n")
    case True
    have "takeWhile (\<lambda>r. ref_number r \<le> n) (ps @ [r]) = takeWhile (\<lambda>r. ref_number r \<le> n) ps"
      using True by (simp add: takeWhile_snoc not_le [symmetric] takeWhile_eq_all_conv [THEN iffD2])
    moreover have "advance_fh n (Some r) ps = advance_fh n (fst (vec_pop ps)) (snd (vec_pop ps))"
      using True by (subst advance_fh.simps) (auto simp: vec_pop_def advance_fh.simps [of n None])
    ultimately show ?thesis using snoc.IH [OF asc] by (simp add: vec_pop_def [of "ps @ [r]"])
  next
    case False
    then have "takeWhile (\<lambda>r. ref_number r \<le> n) (ps @ [r]) = ps @ [r]"
      using below by (auto simp: takeWhile_snoc not_less)
    then show ?thesis using False by (subst advance_fh.simps) (simp add: vec_pop_def)
  qed
qed

lemma ascending_takeWhile_le:
  assumes "ascending ref_number ps"
  shows "set (takeWhile (\<lambda>r. ref_number r \<le> n) ps) = {r \<in> set ps. ref_number r \<le> n}"
  using assms
proof (induction ps)
  case Nil
  then show ?case by simp
next
  case (Cons r ps)
  then have "ascending ref_number ps" and "\<forall>y \<in> set ps. ref_number r < ref_number y"
    by (simp_all add: ascending_Cons)
  then show ?case using Cons.IH by auto
qed

lemma fork_stop_takeWhile:
  assumes "ascending ref_number ps" "number b < n" "takeWhile (\<lambda>r. ref_number r \<le> n) ps \<noteq> []"
  shows "fork_stop (takeWhile (\<lambda>r. ref_number r \<le> n) ps) b \<longleftrightarrow> fork_stop ps b"
  using assms ascending_takeWhile_le [OF assms(1), of n]
  by (auto simp: fork_stop_def not_le)

lemma fork_walk_eq:
  assumes "ascending number bs"
  shows "n \<le> length bs \<Longrightarrow> ascending ref_number ps \<Longrightarrow>
    fork_walk bs f (int n - 1) (fst (vec_pop ps)) (snd (vec_pop ps)) =
      Some (map_option block_ref_of (find (fork_stop ps) (rev (drop f (take n bs)))))"
proof (induction n arbitrary: ps)
  case 0
  then show ?case by (subst fork_walk.simps) simp
next
  case (Suc n)
  let ?b = "bs ! n"
  let ?qs = "takeWhile (\<lambda>r. ref_number r \<le> number ?b) ps"
  have n: "n < length bs" using Suc.prems by simp
  have get: "vec_get bs n = Some ?b" using n by (simp add: vec_get_def)
  have adv: "advance_fh (number ?b) (fst (vec_pop ps)) (snd (vec_pop ps)) = vec_pop ?qs"
    using Suc.prems(2) by (rule advance_fh_eq)
  have qs: "set ?qs = {r \<in> set ps. ref_number r \<le> number ?b}"
    using Suc.prems(2) by (rule ascending_takeWhile_le)
  have ascq: "ascending ref_number ?qs"
    using Suc.prems(2) by (metis ascending_take takeWhile_eq_take)
  show ?case
  proof (cases "f \<le> n")
    case False
    then show ?thesis using Suc.prems by (subst fork_walk.simps) simp
  next
    case f: True
    have split: "rev (drop f (take (Suc n) bs)) = ?b # rev (drop f (take n bs))"
      using n f by (simp add: take_Suc_conv_app_nth)
    have step: "fork_walk bs f (int (Suc n) - 1) (fst (vec_pop ps)) (snd (vec_pop ps)) =
       (if ?qs = [] \<or> block_ref_of ?b = last ?qs then Some (Some (block_ref_of ?b))
        else fork_walk bs f (int n - 1) (fst (vec_pop ?qs)) (snd (vec_pop ?qs)))"
    proof -
      have same: "ref_number (last ?qs) = number ?b \<and> ref_hash (last ?qs) = hash ?b \<longleftrightarrow>
          block_ref_of ?b = last ?qs"
        by (metis block_ref_eqI ref_of_sel(1,2))
      show ?thesis
        using f get adv same by (subst fork_walk.simps) (simp add: vec_pop_def)
    qed
    show ?thesis
    proof (cases "?qs = [] \<or> block_ref_of ?b = last ?qs")
      case True
      have "fork_stop ps ?b"
      proof (cases "?qs = []")
        case True
        then have "\<forall>r \<in> set ps. number ?b < ref_number r" using qs by (auto simp: not_le)
        then show ?thesis by (simp add: fork_stop_def)
      next
        case False
        then have "block_ref_of ?b \<in> set ?qs" using \<open>?qs = [] \<or> _\<close> by auto
        then show ?thesis using qs by (simp add: fork_stop_def)
      qed
      then show ?thesis using step True split by simp
    next
      case False
      then have ne: "?qs \<noteq> []" and diff: "block_ref_of ?b \<noteq> last ?qs" by auto
      have "block_ref_of ?b \<notin> set ps"
      proof
        assume "block_ref_of ?b \<in> set ps"
        then have "block_ref_of ?b \<in> set ?qs" using qs by simp
        moreover have "ref_number (last ?qs) \<le> number ?b" using ne qs last_in_set by blast
        ultimately have "ref_number (block_ref_of ?b) = ref_number (last ?qs)"
          using ascending_last_max [OF ascq, of "block_ref_of ?b"] by simp
        then have "block_ref_of ?b = last ?qs"
          using ascq \<open>block_ref_of ?b \<in> set ?qs\<close> ne ascending_nth_inj [OF ascq]
          by (metis diff_less in_set_conv_nth last_conv_nth length_greater_0_conv zero_less_one)
        with diff show False ..
      qed
      moreover have "\<exists>r \<in> set ps. ref_number r \<le> number ?b"
        using ne qs by (metis (no_types, lifting) last_in_set mem_Collect_eq)
      ultimately have "\<not> fork_stop ps ?b" by (auto simp: fork_stop_def not_less)
      moreover have "find (fork_stop ?qs) (rev (drop f (take n bs))) =
          find (fork_stop ps) (rev (drop f (take n bs)))"
      proof (rule find_cong)
        fix b
        assume "b \<in> set (rev (drop f (take n bs)))"
        then have "b \<in> set (take n bs)" by (simp add: in_set_dropD)
        then obtain i where "i < n" "b = bs ! i" using n by (auto simp: in_set_conv_nth)
        then have "number b < number ?b" using ascending_nth_less [OF assms] n by simp
        then show "fork_stop ?qs b = fork_stop ps b"
          using Suc.prems(2) ne by (intro fork_stop_takeWhile)
      qed simp
      ultimately show ?thesis using step False split Suc.IH [OF _ ascq] n by simp
    qed
  qed
qed

lemma get_fork_base_eq:
  assumes "chain_inv c" "ascending ref_number prev"
  shows "get_fork_base c prev =
    Some (map_option block_ref_of (find (fork_stop prev) (rev (drop (finalized_head c) (blocks c)))))"
  using fork_walk_eq [OF chain_invD(3) [OF assms(1)], of "length (blocks c)" prev "finalized_head c"]
    assms(2)
  by (simp add: get_fork_base_def case_prod_beta)

text \<open>Whatever refs are signalled, the walk returns, and only a block at or above finality.\<close>

lemma fork_walk_returns:
  assumes "t < int (length bs)"
  shows "\<exists>r. fork_walk bs f t fh prev = Some r \<and>
    (\<forall>x. r = Some x \<longrightarrow> (\<exists>i. f \<le> i \<and> i < length bs \<and> x = block_ref_of (bs ! i)))"
  using assms
proof (induction bs f t fh prev rule: fork_walk.induct)
  case (1 bs f t fh prev)
  show ?case
  proof (cases "int f \<le> t")
    case False
    then show ?thesis by (subst fork_walk.simps) simp
  next
    case True
    then have i: "f \<le> nat t" "nat t < length bs" using "1.prems" by auto
    then have get: "vec_get bs (nat t) = Some (bs ! nat t)" by (simp add: vec_get_def)
    obtain fh' prev' where adv: "advance_fh (number (bs ! nat t)) fh prev = (fh', prev')"
      by fastforce
    show ?thesis
    proof (cases "fh' = None \<or> (\<exists>r. fh' = Some r \<and> ref_number r = number (bs ! nat t) \<and>
        ref_hash r = hash (bs ! nat t))")
      case stop: True
      then have "fork_walk bs f t fh prev = Some (Some (block_ref_of (bs ! nat t)))"
        using True get adv by (subst fork_walk.simps) auto
      then show ?thesis using i by auto
    next
      case False
      then obtain r where r: "fh' = Some r"
        "\<not> (ref_number r = number (bs ! nat t) \<and> ref_hash r = hash (bs ! nat t))" by auto
      have "fork_walk bs f t fh prev = fork_walk bs f (t - 1) fh' prev'"
        using True get adv r by (subst fork_walk.simps) auto
      moreover have "\<exists>r. fork_walk bs f (t - 1) fh' prev' = Some r \<and>
          (\<forall>x. r = Some x \<longrightarrow> (\<exists>i. f \<le> i \<and> i < length bs \<and> x = block_ref_of (bs ! i)))"
        using "1.IH" [OF True get adv [symmetric] refl r] "1.prems" by simp
      ultimately show ?thesis by simp
    qed
  qed
qed

end
