(* ===== verification/Chain_Spec.thy ===== *)
theory Chain_Spec
  imports Chain_Buffer
begin

text \<open>
  What \<open>push\<close> and \<open>finalize\<close> compute, without bisection, cursors or logs: \<open>push_result\<close> is the block
  list after offering a block (\<open>None\<close> when it is rejected), \<open>finalize_result\<close> the finality index after
  a report.  The implementation computes exactly these (\<open>push_result_correct\<close>,
  \<open>finalize_result_correct\<close>); theory \<open>Refinement\<close> shows the same of the reference model.
\<close>

definition push_result :: "block list \<Rightarrow> usize \<Rightarrow> block \<Rightarrow> block list option" where
  "push_result bs f nb =
     (case find (\<lambda>b. block_ref_of b = block_ref_of nb) bs of
        Some held \<Rightarrow> if parent_ref_of held = parent_ref_of nb then Some bs else None
      | None \<Rightarrow>
          if number nb \<le> parent_number nb then None
          else (case position (\<lambda>b. is_chain b nb) bs of
              None \<Rightarrow> None
            | Some i \<Rightarrow> if i < f then None else Some (take (i + 1) bs @ [nb])))"

definition finalize_result :: "block list \<Rightarrow> usize \<Rightarrow> block_ref \<Rightarrow> usize option" where
  "finalize_result bs f r =
     (if ref_number r < number (bs ! f) then Some f
      else if number (last bs) < ref_number r then Some (length bs - 1)
      else map_option (max f) (position (\<lambda>b. block_ref_of b = r) bs))"

lemma push_held_result:
  assumes "ascending number bs"
  shows "push_held (vec_get bs (lower_bound number bs (number nb))) nb =
    (case find (\<lambda>b. block_ref_of b = block_ref_of nb) bs of
       Some held \<Rightarrow> Some (if parent_ref_of held = parent_ref_of nb then Inr Absorbed
                         else Inl (RefEquivocation (number nb) (hash nb)))
     | None \<Rightarrow> None)"
proof -
  have "find (\<lambda>b. block_ref_of b = block_ref_of nb) bs =
      (let i = lower_bound number bs (number nb)
       in if i < length bs \<and> block_ref_of (bs ! i) = block_ref_of nb then Some (bs ! i) else None)"
    using position_key [OF assms, of "\<lambda>b. block_ref_of b = block_ref_of nb" "number nb"]
    by (simp add: find_position block_ref_of_eq_iff Let_def)
  then show ?thesis
    by (auto simp: push_held_def vec_get_def Let_def block_ref_of_def parent_ref_of_def)
qed

lemma push_result_parent:
  assumes "ascending number bs"
  shows "position (\<lambda>b. is_chain b nb) bs =
    (let i = lower_bound number bs (parent_number nb)
     in if i < length bs \<and> is_chain (bs ! i) nb then Some i else None)"
  using position_key [OF assms, of "\<lambda>b. is_chain b nb" "parent_number nb"]
  by (simp add: is_chain_def Let_def)

lemma push_reorg_result:
  assumes inv: "chain_inv c"
  shows "\<exists>r c'. push_reorg c nb = Some (r, c') \<and>
    (case position (\<lambda>b. is_chain b nb) (blocks c) of
       None \<Rightarrow> isl r \<and> c' = c
     | Some i \<Rightarrow>
         if i < finalized_head c then isl r \<and> c' = c
         else \<not> isl r \<and> blocks c' = take (i + 1) (blocks c) @ [nb])"
proof -
  let ?bs = "blocks c" and ?p = "lower_bound number (blocks c) (parent_number nb)"
  have b: "bisect ?bs (parent_number nb) = Some ?p" using bisect_blocks_eq [OF inv] .
  show ?thesis
  proof (cases "finalized_head c \<le> ?p \<and> ?p < length ?bs \<and> is_chain (?bs ! ?p) nb")
    case True
    then obtain c1 where "record_removal c (?p + 1) = Some c1" "blocks c1 = ?bs"
      using record_removal_eq [OF chain_invD(7) [OF inv], of "?p + 1"] by auto
    then have "push_reorg c nb = Some (Inr Inserted, c1\<lparr>blocks := take (?p + 1) ?bs @ [nb]\<rparr>)"
      using True b by (simp add: push_reorg_def vec_get_def is_chain_def)
    then show ?thesis using True by (simp add: push_result_parent [OF chain_invD(3) [OF inv]])
  next
    case False
    then have "\<exists>v. push_reorg c nb = Some (Inl v, c)"
      using b by (auto simp: push_reorg_def vec_get_def is_chain_def)
    then obtain v where "push_reorg c nb = Some (Inl v, c)" ..
    then show ?thesis using False
      by (auto simp: push_result_parent [OF chain_invD(3) [OF inv]] Let_def)
  qed
qed

lemma push_result_correct:
  assumes inv: "chain_inv c"
  shows "\<exists>r c'. push c nb = Some (r, c') \<and>
    (case push_result (blocks c) (finalized_head c) nb of
       None \<Rightarrow> isl r \<and> c' = c
     | Some bs \<Rightarrow> \<not> isl r \<and> blocks c' = bs)"
proof -
  let ?bs = "blocks c"
  note eqs = chain_getters [OF inv] push_held_result [OF chain_invD(3) [OF inv]]
  show ?thesis
  proof (cases "find (\<lambda>b. block_ref_of b = block_ref_of nb) ?bs")
    case (Some held)
    then show ?thesis by (simp add: push_def eqs push_result_def)
  next
    case None
    show ?thesis
    proof (cases "number nb \<le> parent_number nb")
      case True
      then show ?thesis using None by (simp add: push_def eqs push_result_def)
    next
      case False
      show ?thesis
      proof (cases "number (last ?bs) = parent_number nb")
        case True
        have "length ?bs - 1 < length ?bs" using chain_invD(1) [OF inv] by simp
        then have lb: "lower_bound number ?bs (parent_number nb) = length ?bs - 1"
          using lower_bound_nth [OF chain_invD(3) [OF inv], of "length ?bs - 1"] True
            chain_invD(1) [OF inv] by (simp add: last_conv_nth)
        then show ?thesis
          using None False True chain_invD(1,4) [OF inv]
          by (auto simp: push_def eqs push_result_def push_result_parent [OF chain_invD(3) [OF inv]]
              Let_def last_conv_nth)
      next
        case off: False
        then have "push c nb = push_reorg c nb" using None False by (simp add: push_def eqs)
        then show ?thesis
          using push_reorg_result [OF inv, of nb] None False
          by (auto simp: push_result_def split: option.splits if_splits)
      qed
    qed
  qed
qed

lemma finalize_result_correct:
  assumes inv: "chain_inv c"
  shows "\<exists>r c'. finalize c x = Some (r, c') \<and>
    (case finalize_result (blocks c) (finalized_head c) x of
       None \<Rightarrow> isl r \<and> c' = c
     | Some f \<Rightarrow> \<not> isl r \<and> c' = c\<lparr>finalized_head := f\<rparr>)"
  using inv
proof (cases rule: finalize_cases [where r = x])
  case stale
  then show ?thesis by (auto simp: finalize_result_def)
next
  case whole
  have "number (blocks c ! finalized_head c) \<le> number (last (blocks c))"
    using chain_invD(3,4) [OF inv] ascending_last_max by fastforce
  then show ?thesis using whole by (auto simp: finalize_result_def)
next
  case (exact i)
  have "position (\<lambda>b. block_ref_of b = x) (blocks c) = Some i"
    using exact ascending_nth_less [OF chain_invD(3) [OF inv], of _ i]
    by (fastforce simp: position_Some_iff block_ref_of_def)
  moreover have "number (blocks c ! finalized_head c) \<le> number (blocks c ! i)"
    using ascending_nth_le [OF chain_invD(3) [OF inv] exact(2,1)] .
  moreover have "number (blocks c ! i) \<le> number (last (blocks c))"
    using ascending_last_max [OF chain_invD(3) [OF inv] nth_mem [OF exact(1)]] .
  ultimately show ?thesis using exact by (auto simp: finalize_result_def max_absorb2)
next
  case (rejected v)
  then show ?thesis by (auto simp: finalize_result_def not_less position_None_iff [THEN iffD2])
qed

lemma finalize_result_bounds:
  assumes "finalize_result bs f r = Some f'" "f < length bs" "bs \<noteq> []"
  shows "f \<le> f'" "f' < length bs"
  using assms by (auto simp: finalize_result_def position_Some_iff split: if_splits)

lemma finalize_result_reaches:
  assumes "finalize_result bs f r = Some f'" "ascending number bs" "f < length bs" "bs \<noteq> []"
    "number (bs ! f) \<le> ref_number r"
  shows "number (bs ! f') \<le> ref_number r"
proof (cases "number (last bs) < ref_number r")
  case True
  then show ?thesis
    using assms ascending_last_max [OF assms(2), of "bs ! f'"] finalize_result_bounds [OF assms(1,3,4)]
    by (meson le_less_trans less_imp_le nth_mem)
next
  case False
  then obtain i where i: "position (\<lambda>b. block_ref_of b = r) bs = Some i" "f' = max f i"
    using assms(1) leD [OF assms(5)] by (auto simp: finalize_result_def split: if_splits)
  then have "number (bs ! i) = ref_number r" by (auto simp: position_Some_iff)
  then show ?thesis using i(2) assms(5) by (auto simp: max_def)
qed

lemma finalize_result_idem:
  assumes "finalize_result bs f r = Some f'" "ascending number bs" "f < length bs" "bs \<noteq> []"
  shows "finalize_result bs f' r = Some f'"
proof (cases "ref_number r < number (bs ! f)")
  case True
  then show ?thesis using assms by (simp add: finalize_result_def)
next
  case False
  then have "number (bs ! f') \<le> ref_number r"
    using finalize_result_reaches [OF assms] by simp
  then show ?thesis using assms(1) False by (auto simp: finalize_result_def split: if_splits)
qed

end
