(* ===== verification/F64.thy ===== *)
theory F64
  imports Prelude
begin

text \<open>
  Integer-valued \<open>f64\<close> numbers.  The Prometheus gauges and counters of \<open>metrics.rs\<close> hold \<open>f64\<close> values
  built by \<open>as f64\<close> from integers and by adding or subtracting such values, so each of them is the
  rounding of an integer to 53 significant bits, ties to even.  They are modelled by that integer:
  \<open>f64_round\<close> is the rounding, and every operation rounds its exact result.  The facts below are the
  ones the alarms rely on: the rounding is exact up to \<open>2 ^ 53\<close>, monotone and idempotent on what it
  keeps.
\<close>

fun bit_len :: "nat \<Rightarrow> nat" where
  "bit_len n = (if n = 0 then 0 else Suc (bit_len (n div 2)))"

declare bit_len.simps [simp del]

text \<open>Divide by \<open>2 ^ e\<close>, rounding to the nearest and ties to even.\<close>

definition div_half_even :: "nat \<Rightarrow> nat \<Rightarrow> nat" where
  "div_half_even n e =
     (let q = n div 2 ^ e; r = 2 * (n mod 2 ^ e)
      in if r > 2 ^ e \<or> (r = 2 ^ e \<and> odd q) then q + 1 else q)"

definition round53 :: "nat \<Rightarrow> nat" where
  "round53 n = (let e = bit_len n - 53 in div_half_even n e * 2 ^ e)"

definition f64_round :: "int \<Rightarrow> int" where
  "f64_round x = (if x \<ge> 0 then int (round53 (nat x)) else - int (round53 (nat (- x))))"

definition f64_of_u64 :: "u64 \<Rightarrow> int" where
  "f64_of_u64 w = f64_round (int (unat w))"

definition f64_of_usize :: "usize \<Rightarrow> int" where
  "f64_of_usize n = f64_round (int n)"

lemma bit_len_0 [simp]: "bit_len 0 = 0"
  by (simp add: bit_len.simps)

lemma bit_len_less_iff: "bit_len n \<le> k \<longleftrightarrow> n < 2 ^ k"
proof (induction n arbitrary: k rule: bit_len.induct)
  case (1 n)
  show ?case
  proof (cases "n = 0")
    case False
    then have step: "bit_len n = Suc (bit_len (n div 2))" by (subst bit_len.simps) simp
    show ?thesis
    proof (cases k)
      case 0
      then show ?thesis using step False by simp
    next
      case (Suc j)
      have "n < 2 ^ Suc j \<longleftrightarrow> n div 2 < 2 ^ j" by (auto simp: less_mult_imp_div_less)
      then show ?thesis using step Suc "1.IH" [OF False, of j] by simp
    qed
  qed simp
qed

lemma bit_len_ge: "n > 0 \<Longrightarrow> 2 ^ (bit_len n - 1) \<le> n"
  using bit_len_less_iff [of n "bit_len n - 1"] bit_len_less_iff [of n 0]
  by (cases "bit_len n") auto

lemma bit_len_mono: "m \<le> n \<Longrightarrow> bit_len m \<le> bit_len n"
  using bit_len_less_iff [of m "bit_len n"] bit_len_less_iff [of n "bit_len n"] by simp

lemma div_half_even_0 [simp]: "div_half_even n 0 = n"
  by (simp add: div_half_even_def)

lemma div_half_even_bounds:
  "n div 2 ^ e \<le> div_half_even n e" "div_half_even n e \<le> n div 2 ^ e + 1"
  by (simp_all add: div_half_even_def Let_def)

lemma div_half_even_mono:
  assumes "m \<le> n"
  shows "div_half_even m e \<le> div_half_even n e"
proof (cases "m div 2 ^ e = n div 2 ^ e")
  case True
  then have "m mod 2 ^ e \<le> n mod 2 ^ e"
    using assms by (metis add_le_cancel_left mult_div_mod_eq)
  then show ?thesis using True by (auto simp: div_half_even_def Let_def)
next
  case False
  then have "m div 2 ^ e + 1 \<le> n div 2 ^ e" using div_le_mono [OF assms, of "2 ^ e"] by linarith
  then show ?thesis using div_half_even_bounds [of m e] div_half_even_bounds [of n e] by linarith
qed

lemma div_half_even_power: "k \<ge> e \<Longrightarrow> div_half_even (2 ^ k) e = 2 ^ (k - e)"
  by (simp add: div_half_even_def Let_def power_diff mod_2_eq_odd dvd_imp_mod_0 le_imp_power_dvd)

lemma round53_exact: "n < 2 ^ 53 \<Longrightarrow> round53 n = n"
  using bit_len_less_iff [of n 53] by (simp add: round53_def)

lemma round53_le_power:
  assumes "bit_len n \<le> k" "53 \<le> k"
  shows "round53 n \<le> 2 ^ k"
proof -
  let ?e = "bit_len n - 53"
  have n: "n \<le> 2 ^ k" using bit_len_less_iff [of n k] assms(1) by simp
  have e: "?e \<le> k" using assms by simp
  have "div_half_even n ?e \<le> 2 ^ (k - ?e)"
    using div_half_even_mono [OF n, of ?e] div_half_even_power [OF e] by simp
  then have "round53 n \<le> 2 ^ (k - ?e) * 2 ^ ?e" by (simp add: round53_def Let_def)
  also have "\<dots> = 2 ^ k" using e by (simp flip: power_add)
  finally show ?thesis .
qed

lemma round53_ge_power:
  assumes "2 ^ k \<le> n" "bit_len n \<le> Suc k"
  shows "2 ^ k \<le> round53 n"
proof -
  let ?e = "bit_len n - 53"
  have e: "?e \<le> k" using assms(2) by simp
  have "2 ^ (k - ?e) \<le> div_half_even n ?e"
    using div_half_even_mono [OF assms(1), of ?e] div_half_even_power [OF e] by simp
  then have "2 ^ (k - ?e) * 2 ^ ?e \<le> round53 n" by (simp add: round53_def Let_def)
  moreover have "2 ^ (k - ?e) * 2 ^ ?e = (2::nat) ^ k" using e by (simp flip: power_add)
  ultimately show ?thesis by simp
qed

lemma round53_mono:
  assumes "m \<le> n"
  shows "round53 m \<le> round53 n"
proof (cases "bit_len n \<le> 53 \<or> bit_len m = bit_len n")
  case True
  then have "bit_len m - 53 = bit_len n - 53" using bit_len_mono [OF assms] by auto
  then show ?thesis
    using div_half_even_mono [OF assms, of "bit_len n - 53"] by (simp add: round53_def Let_def)
next
  case False
  define k where "k = bit_len n - 1"
  have k: "bit_len m \<le> k" "53 \<le> k" "bit_len n \<le> Suc k"
    using False bit_len_mono [OF assms] by (auto simp: k_def)
  have "n > 0" using False by (cases "n = 0") auto
  then have "2 ^ k \<le> n" unfolding k_def by (rule bit_len_ge)
  then show ?thesis
    using round53_le_power [OF k(1,2)] round53_ge_power [OF _ k(3)] by fastforce
qed

lemma f64_of_u64_mono: "a \<le> b \<Longrightarrow> f64_of_u64 a \<le> f64_of_u64 b"
  using round53_mono [of "unat a" "unat b"] by (simp add: f64_of_u64_def f64_round_def word_le_nat_alt)

lemma f64_of_u64_exact: "unat w < 2 ^ 53 \<Longrightarrow> f64_of_u64 w = int (unat w)"
  by (simp add: f64_of_u64_def f64_round_def round53_exact)

lemma f64_of_u64_nonneg [simp]: "0 \<le> f64_of_u64 w"
  by (simp add: f64_of_u64_def f64_round_def)

lemma f64_round_exact: "\<bar>x\<bar> < 2 ^ 53 \<Longrightarrow> f64_round x = x"
  by (simp add: f64_round_def round53_exact nat_less_iff)

lemma round53_pos: "0 < n \<Longrightarrow> 0 < round53 n"
  using round53_mono [of 1 n] round53_exact [of 1] by simp

lemma f64_round_0_iff [simp]: "f64_round x = 0 \<longleftrightarrow> x = 0"
  using round53_pos [of "nat x"] round53_pos [of "nat (- x)"] round53_exact [of 0]
  by (cases "x > 0"; cases "x < 0") (auto simp: f64_round_def)

end
