(* ===== verification/Metrics.thy ===== *)
theory Metrics
  imports Core_Types F64
begin

text \<open>
  \<open>crates/data-service-core/src/metrics.rs\<close>: the registry of gauges, counters and histograms with the
  typed upstream observation, the stall clock and the WP-9 ladder note beside them, and the global
  cache of block ingestion times.  Gauges and counters hold integer-valued \<open>f64\<close>s (theory \<open>F64\<close>); a
  histogram is the list of its observations, the newest first (a \<open>Duration\<close> is observed in clock
  units); a labelled vector is a map from label values.  Every clock reading is an argument:
  \<open>now\<close> of the monotonic clock, \<open>now_ms\<close> of the wall clock.  The encoders of a scrape
  (\<open>gather_text\<close>, \<open>gather_json\<close>) belong to the Prometheus and JSON libraries and are left out; what
  they recompute first, \<open>refresh_derived_levels\<close>, is here.
\<close>

type_synonym gauge = int
type_synonym counter = int
type_synonym counter_vec = "string \<rightharpoonup> int"
type_synonym histogram = "int list"
type_synonym histogram_vec = "string \<rightharpoonup> int list"

subsection \<open>The block ingestion timestamp cache\<close>

text \<open>
  The two hash maps are association lists: a list fixes one iteration order, which the source leaves
  to the hasher, and the facts below hold of every list.  \<open>min_by_key\<close> returns the first minimum.
\<close>

record block_timestamp_cache =
  bt_cache :: "(string \<times> u64) list"
  bt_max_size :: usize
  bt_ttl :: duration
  bt_expiry :: "(string \<times> instant) list"

definition bt_new :: "usize \<Rightarrow> duration \<Rightarrow> block_timestamp_cache" where
  "bt_new m ttl = \<lparr>bt_cache = [], bt_max_size = m, bt_ttl = ttl, bt_expiry = []\<rparr>"

definition hm_remove :: "string \<Rightarrow> (string \<times> 'v) list \<Rightarrow> (string \<times> 'v) list" where
  "hm_remove k m = filter (\<lambda>(k', v). k' \<noteq> k) m"

definition hm_insert :: "string \<Rightarrow> 'v \<Rightarrow> (string \<times> 'v) list \<Rightarrow> (string \<times> 'v) list" where
  "hm_insert k v m = (k, v) # hm_remove k m"

fun min_by_val :: "(string \<times> u64) list \<Rightarrow> (string \<times> u64) option" where
  "min_by_val [] = None"
| "min_by_val ((k, v) # m) =
     (case min_by_val m of
        None \<Rightarrow> Some (k, v)
      | Some (k', v') \<Rightarrow> if v' < v then Some (k', v') else Some (k, v))"

definition bt_evict_expired :: "instant \<Rightarrow> block_timestamp_cache \<Rightarrow> block_timestamp_cache" where
  "bt_evict_expired now c =
     c\<lparr>bt_cache := fold (\<lambda>(k, e) m. if e \<le> now then hm_remove k m else m) (bt_expiry c) (bt_cache c),
       bt_expiry := filter (\<lambda>(k, e). \<not> e \<le> now) (bt_expiry c)\<rparr>"

definition bt_evict_oldest :: "block_timestamp_cache \<Rightarrow> block_timestamp_cache" where
  "bt_evict_oldest c =
     (if length (bt_cache c) \<ge> bt_max_size c
      then (case min_by_val (bt_cache c) of
              None \<Rightarrow> c
            | Some (k, v) \<Rightarrow>
                c\<lparr>bt_cache := hm_remove k (bt_cache c), bt_expiry := hm_remove k (bt_expiry c)\<rparr>)
      else c)"

text \<open>\<open>set\<close> reads the clock twice: \<open>now\<close> for the sweep and \<open>now2\<close> for the new entry.\<close>

definition bt_set ::
    "instant \<Rightarrow> instant \<Rightarrow> string \<Rightarrow> u64 \<Rightarrow> block_timestamp_cache \<Rightarrow> block_timestamp_cache" where
  "bt_set now now2 height ts c =
     (let c2 = bt_evict_oldest (bt_evict_expired now c)
      in c2\<lparr>bt_cache := hm_insert height ts (bt_cache c2),
            bt_expiry := hm_insert height (now2 + bt_ttl c2) (bt_expiry c2)\<rparr>)"

definition bt_get :: "instant \<Rightarrow> string \<Rightarrow> block_timestamp_cache \<Rightarrow> u64 option" where
  "bt_get now height c =
     (case map_of (bt_expiry c) height of
        Some e \<Rightarrow> if now > e then None else map_of (bt_cache c) height
      | None \<Rightarrow> map_of (bt_cache c) height)"

definition block_timestamp_cache_init :: "duration \<Rightarrow> block_timestamp_cache" where
  "block_timestamp_cache_init second = bt_new 1000 (30 * 60 * second)"

definition record_block_ingestion ::
    "instant \<Rightarrow> instant \<Rightarrow> u64 \<Rightarrow> u64 \<Rightarrow> block_timestamp_cache \<Rightarrow> block_timestamp_cache" where
  "record_block_ingestion now now2 block_number at_ms c =
     bt_set now now2 (decimal (unat block_number)) at_ms c"

definition get_block_ingestion_timestamp ::
    "instant \<Rightarrow> string \<Rightarrow> block_timestamp_cache \<Rightarrow> u64 option" where
  "get_block_ingestion_timestamp now height c = bt_get now height c"

subsection \<open>Closed label sets (OB-8)\<close>

datatype query_class = Window | WaitEmpty | Backfill | Conflict | QueryClassError
datatype truncation_cause = TruncBudget | TruncError | TruncDisconnect
datatype session_restart = RestartError | RestartFork | RestartReset
datatype upstream_request_kind = Single | Batch
datatype enrichment_retry = DataLagging | HeaderContested | Incoherent
datatype upstream_error_class =
  ClassRpc | ClassHttp | ClassConnection | ClassDisconnected | ClassTimeout | ClassProtocol
  | ClassRetryRequested

fun query_class_str :: "query_class \<Rightarrow> string" where
  "query_class_str Window = ''window''"
| "query_class_str WaitEmpty = ''wait_empty''"
| "query_class_str Backfill = ''backfill''"
| "query_class_str Conflict = ''conflict''"
| "query_class_str QueryClassError = ''error''"

fun truncation_cause_str :: "truncation_cause \<Rightarrow> string" where
  "truncation_cause_str TruncBudget = ''budget''"
| "truncation_cause_str TruncError = ''error''"
| "truncation_cause_str TruncDisconnect = ''disconnect''"

fun session_restart_str :: "session_restart \<Rightarrow> string" where
  "session_restart_str RestartError = ''error''"
| "session_restart_str RestartFork = ''fork''"
| "session_restart_str RestartReset = ''reset''"

fun upstream_request_kind_str :: "upstream_request_kind \<Rightarrow> string" where
  "upstream_request_kind_str Single = ''single''"
| "upstream_request_kind_str Batch = ''batch''"

fun enrichment_retry_str :: "enrichment_retry \<Rightarrow> string" where
  "enrichment_retry_str DataLagging = ''data_lagging''"
| "enrichment_retry_str HeaderContested = ''header_contested''"
| "enrichment_retry_str Incoherent = ''incoherent''"

fun upstream_error_class_str :: "upstream_error_class \<Rightarrow> string" where
  "upstream_error_class_str ClassRpc = ''rpc''"
| "upstream_error_class_str ClassHttp = ''http''"
| "upstream_error_class_str ClassConnection = ''connection''"
| "upstream_error_class_str ClassDisconnected = ''disconnected''"
| "upstream_error_class_str ClassTimeout = ''timeout''"
| "upstream_error_class_str ClassProtocol = ''protocol''"
| "upstream_error_class_str ClassRetryRequested = ''retry_requested''"

definition query_class_all :: "query_class list" where
  "query_class_all = [Window, WaitEmpty, Backfill, Conflict, QueryClassError]"

definition truncation_cause_all :: "truncation_cause list" where
  "truncation_cause_all = [TruncBudget, TruncError, TruncDisconnect]"

definition session_restart_all :: "session_restart list" where
  "session_restart_all = [RestartError, RestartFork, RestartReset]"

definition upstream_request_kind_all :: "upstream_request_kind list" where
  "upstream_request_kind_all = [Single, Batch]"

definition enrichment_retry_all :: "enrichment_retry list" where
  "enrichment_retry_all = [DataLagging, HeaderContested, Incoherent]"

definition upstream_error_class_all :: "upstream_error_class list" where
  "upstream_error_class_all =
     [ClassRpc, ClassHttp, ClassConnection, ClassDisconnected, ClassTimeout, ClassProtocol,
      ClassRetryRequested]"

subsection \<open>The registry\<close>

record upstream_head_observation_t =
  number_observed_at :: instant
  explicitly_observed_at :: "instant option"
  observed_number :: u64

record stall_clock_t =
  last_commit_at :: "instant option"
  behind_since :: "instant option"

record metrics =
  g_last_block :: gauge
  last_block_lag_ms :: gauge
  g_first_block :: gauge
  g_finalized_block :: gauge
  stored_blocks :: gauge
  g_window_excess :: gauge
  commits_total :: counter
  last_commit_timestamp_ms :: gauge
  block_lag_ms :: histogram
  head_detection_gap_ms :: histogram
  head_interval_ms :: histogram
  processing_time_ms :: histogram
  queries_total :: counter_vec
  query_outcomes_total :: counter_vec
  query_duration_ms :: histogram_vec
  truncations_total :: counter_vec
  upstream_head :: gauge
  upstream_head_timestamp_ms :: gauge
  upstream_head_observation :: "upstream_head_observation_t option"
  upstream_finalized_head :: gauge
  upstream_finalized_head_timestamp_ms :: gauge
  upstream_requests_total :: counter_vec
  upstream_calls_total :: counter
  upstream_errors_total :: counter_vec
  upstream_retries_total :: counter_vec
  over_window :: gauge
  force_advances_total :: counter
  g_force_advanced_past :: gauge
  integrity_violations_total :: counter
  session_restarts_total :: counter_vec
  enrichment_retries_total :: counter_vec
  acquisition_retry_exhaustions_total :: counter
  fork_rebases_total :: counter
  watermark_regressions_total :: counter
  terminal_state :: gauge
  stall_alarm :: gauge
  process_start_timestamp_ms :: gauge
  first_acceptance_timestamp_ms :: gauge
  first_commit_timestamp_ms :: gauge
  shutdown_start_timestamp_ms :: gauge
  stall_after :: duration
  process_started_at :: instant
  stall_active :: bool
  stall_clock :: stall_clock_t
  ladder :: "int \<times> string option"

text \<open>The names the constructor registers, with the label and the bucket bounds
  (in hundredths of a millisecond) of each family.\<close>

datatype series_kind =
    GaugeSeries
  | CounterSeries
  | CounterVecSeries string
  | HistogramSeries "nat list"
  | HistogramVecSeries string "nat list"

definition block_lag_buckets :: "nat list" where
  "block_lag_buckets =
     [10000, 20000, 50000, 100000, 200000, 500000, 1000000, 1500000, 2000000, 3000000,
      6000000, 30000000, 60000000, 120000000, 360000000]"

definition head_detection_gap_buckets :: "nat list" where
  "head_detection_gap_buckets = [2500, 5000, 10000, 20000, 30000, 50000, 75000, 100000, 150000, 300000]"

definition head_interval_buckets :: "nat list" where
  "head_interval_buckets =
     [10000, 20000, 30000, 50000, 75000, 100000, 130000, 200000, 260000, 300000, 400000,
      500000, 600000, 800000, 1000000, 1200000, 1300000, 1600000, 2000000, 2400000,
      3600000, 6000000]"

definition processing_time_buckets :: "nat list" where
  "processing_time_buckets =
     [1, 5, 10, 25, 50, 100, 200, 500, 1000, 2000, 5000, 10000, 20000, 50000, 100000]"

definition query_duration_buckets :: "nat list" where
  "query_duration_buckets =
     [50, 100, 500, 1000, 2500, 5000, 10000, 25000, 50000, 100000, 250000, 500000,
      1000000, 3000000, 6000000]"

definition registered_series :: "(string \<times> series_kind) list" where
  "registered_series =
     [(''sqd_hotblocks_last_block'', GaugeSeries),
      (''sqd_hotblocks_last_block_lag_ms'', GaugeSeries),
      (''sqd_hotblocks_first_block'', GaugeSeries),
      (''sqd_hotblocks_finalized_block'', GaugeSeries),
      (''sqd_hotblocks_stored_blocks'', GaugeSeries),
      (''sqd_hotblocks_window_excess'', GaugeSeries),
      (''sqd_hotblocks_commits_total'', CounterSeries),
      (''sqd_hotblocks_last_commit_timestamp_ms'', GaugeSeries),
      (''sqd_hotblocks_block_lag_ms'', HistogramSeries block_lag_buckets),
      (''sqd_hotblocks_head_detection_gap_ms'', HistogramSeries head_detection_gap_buckets),
      (''sqd_hotblocks_head_interval_ms'', HistogramSeries head_interval_buckets),
      (''sqd_hotblocks_processing_time_ms'', HistogramSeries processing_time_buckets),
      (''sqd_hotblocks_queries_total'', CounterVecSeries ''type''),
      (''sqd_hotblocks_query_outcomes_total'', CounterVecSeries ''class''),
      (''sqd_hotblocks_query_duration_ms'', HistogramVecSeries ''class'' query_duration_buckets),
      (''sqd_hotblocks_response_truncations_total'', CounterVecSeries ''cause''),
      (''sqd_hotblocks_upstream_head'', GaugeSeries),
      (''sqd_hotblocks_upstream_head_timestamp_ms'', GaugeSeries),
      (''sqd_hotblocks_upstream_finalized_head'', GaugeSeries),
      (''sqd_hotblocks_upstream_finalized_head_timestamp_ms'', GaugeSeries),
      (''sqd_hotblocks_upstream_requests_total'', CounterVecSeries ''kind''),
      (''sqd_hotblocks_upstream_calls_total'', CounterSeries),
      (''sqd_hotblocks_upstream_errors_total'', CounterVecSeries ''class''),
      (''sqd_hotblocks_upstream_retries_total'', CounterVecSeries ''class''),
      (''sqd_hotblocks_over_window'', GaugeSeries),
      (''sqd_hotblocks_force_advances_total'', CounterSeries),
      (''sqd_hotblocks_force_advanced_past'', GaugeSeries),
      (''sqd_hotblocks_integrity_violations_total'', CounterSeries),
      (''sqd_hotblocks_session_restarts_total'', CounterVecSeries ''cause''),
      (''sqd_hotblocks_enrichment_retries_total'', CounterVecSeries ''reason''),
      (''sqd_hotblocks_acquisition_retry_exhaustions_total'', CounterSeries),
      (''sqd_hotblocks_fork_rebases_total'', CounterSeries),
      (''sqd_hotblocks_watermark_regressions_total'', CounterSeries),
      (''sqd_hotblocks_terminal_state'', GaugeSeries),
      (''sqd_hotblocks_stall_alarm'', GaugeSeries),
      (''sqd_hotblocks_process_start_timestamp_ms'', GaugeSeries),
      (''sqd_hotblocks_first_acceptance_timestamp_ms'', GaugeSeries),
      (''sqd_hotblocks_first_commit_timestamp_ms'', GaugeSeries),
      (''sqd_hotblocks_shutdown_start_timestamp_ms'', GaugeSeries)]"

definition unreached :: gauge where
  "unreached = - 1"

text \<open>The pre-registered label values of a vector, each at zero.\<close>

definition preset :: "'v \<Rightarrow> string list \<Rightarrow> (string \<rightharpoonup> 'v)" where
  "preset z ls = (\<lambda>l. if l \<in> set ls then Some z else None)"

definition with_stall_alarm :: "duration \<Rightarrow> instant \<Rightarrow> u64 \<Rightarrow> metrics" where
  "with_stall_alarm after now now_ms =
     \<lparr>g_last_block = 0, last_block_lag_ms = 0, g_first_block = 0, g_finalized_block = 0,
      stored_blocks = 0, g_window_excess = 0, commits_total = 0,
      last_commit_timestamp_ms = unreached, block_lag_ms = [], head_detection_gap_ms = [],
      head_interval_ms = [], processing_time_ms = [],
      queries_total = preset 0 [''cache'', ''backfill'', ''error''],
      query_outcomes_total = preset 0 (map query_class_str query_class_all),
      query_duration_ms = preset [] (map query_class_str query_class_all),
      truncations_total = preset 0 (map truncation_cause_str truncation_cause_all),
      upstream_head = 0, upstream_head_timestamp_ms = unreached, upstream_head_observation = None,
      upstream_finalized_head = 0, upstream_finalized_head_timestamp_ms = unreached,
      upstream_requests_total = preset 0 (map upstream_request_kind_str upstream_request_kind_all),
      upstream_calls_total = 0,
      upstream_errors_total = preset 0 (map upstream_error_class_str upstream_error_class_all),
      upstream_retries_total = preset 0 (map upstream_error_class_str upstream_error_class_all),
      over_window = 0, force_advances_total = 0, g_force_advanced_past = unreached,
      integrity_violations_total = 0,
      session_restarts_total = preset 0 (map session_restart_str session_restart_all),
      enrichment_retries_total = preset 0 (map enrichment_retry_str enrichment_retry_all),
      acquisition_retry_exhaustions_total = 0, fork_rebases_total = 0,
      watermark_regressions_total = 0, terminal_state = 0, stall_alarm = 0,
      process_start_timestamp_ms = f64_of_u64 now_ms, first_acceptance_timestamp_ms = unreached,
      first_commit_timestamp_ms = unreached, shutdown_start_timestamp_ms = unreached,
      stall_after = after, process_started_at = now, stall_active = False,
      stall_clock = \<lparr>last_commit_at = None, behind_since = None\<rparr>, ladder = (0, None)\<rparr>"

definition metrics_new :: "duration \<Rightarrow> instant \<Rightarrow> u64 \<Rightarrow> metrics" where
  "metrics_new second now now_ms = with_stall_alarm (60 * second) now now_ms"

subsection \<open>Recording\<close>

definition counter_inc :: "counter \<Rightarrow> counter" where
  "counter_inc c = f64_round (c + 1)"

definition vec_inc :: "string \<Rightarrow> counter_vec \<Rightarrow> counter_vec" where
  "vec_inc l v = v(l \<mapsto> counter_inc (case v l of None \<Rightarrow> 0 | Some n \<Rightarrow> n))"

definition hvec_observe :: "string \<Rightarrow> int \<Rightarrow> histogram_vec \<Rightarrow> histogram_vec" where
  "hvec_observe l x v = v(l \<mapsto> x # (case v l of None \<Rightarrow> [] | Some xs \<Rightarrow> xs))"

definition set_last_block :: "u64 \<Rightarrow> metrics \<Rightarrow> metrics" where
  "set_last_block v m = m\<lparr>g_last_block := f64_of_u64 v\<rparr>"

definition set_last_block_timestamp :: "u64 \<Rightarrow> u64 \<Rightarrow> metrics \<Rightarrow> metrics" where
  "set_last_block_timestamp now_ms v m =
     (if v = 0 then m\<lparr>last_block_lag_ms := unreached\<rparr>
      else m\<lparr>last_block_lag_ms := f64_round (f64_of_u64 now_ms - f64_of_u64 v)\<rparr>)"

definition set_first_block :: "u64 \<Rightarrow> metrics \<Rightarrow> metrics" where
  "set_first_block v m = m\<lparr>g_first_block := f64_of_u64 v\<rparr>"

definition set_stored_blocks :: "usize \<Rightarrow> metrics \<Rightarrow> metrics" where
  "set_stored_blocks v m = m\<lparr>stored_blocks := f64_of_usize v\<rparr>"

definition set_finalized_block :: "u64 \<Rightarrow> metrics \<Rightarrow> metrics" where
  "set_finalized_block v m = m\<lparr>g_finalized_block := f64_of_u64 v\<rparr>"

definition set_window_excess :: "usize \<Rightarrow> metrics \<Rightarrow> metrics" where
  "set_window_excess x m =
     m\<lparr>g_window_excess := f64_of_usize x, over_window := (if x > 0 then 1 else 0)\<rparr>"

definition record_commit :: "instant \<Rightarrow> u64 \<Rightarrow> metrics \<Rightarrow> metrics" where
  "record_commit now now_ms m =
     (let t = f64_of_u64 now_ms;
          m1 = m\<lparr>commits_total := counter_inc (commits_total m),
                 stall_clock := (stall_clock m)\<lparr>last_commit_at := Some now\<rparr>,
                 last_commit_timestamp_ms := t\<rparr>
      in if first_commit_timestamp_ms m1 < 0 then m1\<lparr>first_commit_timestamp_ms := t\<rparr> else m1)"

definition observe_block_lag :: "u64 \<Rightarrow> u64 \<Rightarrow> metrics \<Rightarrow> metrics" where
  "observe_block_lag ts at_ms m =
     (if ts = 0 then m
      else m\<lparr>block_lag_ms := f64_round (f64_of_u64 at_ms - f64_of_u64 ts) # block_lag_ms m\<rparr>)"

definition observe_head_detection_gap :: "duration \<Rightarrow> metrics \<Rightarrow> metrics" where
  "observe_head_detection_gap gap m = m\<lparr>head_detection_gap_ms := int gap # head_detection_gap_ms m\<rparr>"

definition observe_head_interval :: "duration \<Rightarrow> metrics \<Rightarrow> metrics" where
  "observe_head_interval d m = m\<lparr>head_interval_ms := int d # head_interval_ms m\<rparr>"

definition track_processing_time :: "duration \<Rightarrow> metrics \<Rightarrow> metrics" where
  "track_processing_time elapsed m = m\<lparr>processing_time_ms := int elapsed # processing_time_ms m\<rparr>"

definition inc_query :: "string \<Rightarrow> metrics \<Rightarrow> metrics" where
  "inc_query kind m = m\<lparr>queries_total := vec_inc kind (queries_total m)\<rparr>"

definition record_query :: "query_class \<Rightarrow> duration \<Rightarrow> metrics \<Rightarrow> metrics" where
  "record_query c elapsed m =
     m\<lparr>query_outcomes_total := vec_inc (query_class_str c) (query_outcomes_total m),
       query_duration_ms := hvec_observe (query_class_str c) (int elapsed) (query_duration_ms m)\<rparr>"

definition record_truncation :: "truncation_cause \<Rightarrow> metrics \<Rightarrow> metrics" where
  "record_truncation c m =
     m\<lparr>truncations_total := vec_inc (truncation_cause_str c) (truncations_total m)\<rparr>"

definition observe_upstream_head :: "instant \<Rightarrow> u64 \<Rightarrow> u64 \<Rightarrow> metrics \<Rightarrow> metrics" where
  "observe_upstream_head now now_ms n m =
     m\<lparr>upstream_head_observation :=
         Some \<lparr>number_observed_at = now, explicitly_observed_at = Some now, observed_number = n\<rparr>,
       upstream_head := f64_of_u64 n, upstream_head_timestamp_ms := f64_of_u64 now_ms\<rparr>"

definition observe_upstream_progress :: "instant \<Rightarrow> u64 \<Rightarrow> metrics \<Rightarrow> metrics" where
  "observe_upstream_progress now n m =
     (let obs = upstream_head_observation m in
      if (case obs of None \<Rightarrow> False | Some cur \<Rightarrow> observed_number cur \<ge> n) then m
      else m\<lparr>upstream_head_observation :=
               Some \<lparr>number_observed_at = now,
                     explicitly_observed_at =
                       (case obs of None \<Rightarrow> None | Some cur \<Rightarrow> explicitly_observed_at cur),
                     observed_number = n\<rparr>,
             upstream_head := f64_of_u64 n\<rparr>)"

definition fresh_upstream_head :: "instant \<Rightarrow> metrics \<Rightarrow> u64 option" where
  "fresh_upstream_head now m = do {
     obs \<leftarrow> upstream_head_observation m;
     at \<leftarrow> explicitly_observed_at obs;
     if now - at < stall_after m then Some (observed_number obs) else None
   }"

text \<open>\<open>ms\<close> is one millisecond in clock units.\<close>

definition upstream_head_refresh_interval :: "duration \<Rightarrow> metrics \<Rightarrow> duration" where
  "upstream_head_refresh_interval ms m = max (stall_after m div 2) ms"

definition upstream_head_refresh_timeout :: "duration \<Rightarrow> metrics \<Rightarrow> duration" where
  "upstream_head_refresh_timeout ms m = max (upstream_head_refresh_interval ms m div 4) ms"

definition observe_upstream_finalized_head :: "u64 \<Rightarrow> u64 \<Rightarrow> metrics \<Rightarrow> metrics" where
  "observe_upstream_finalized_head now_ms n m =
     m\<lparr>upstream_finalized_head := f64_of_u64 n,
       upstream_finalized_head_timestamp_ms := f64_of_u64 now_ms\<rparr>"

definition record_upstream_request :: "upstream_request_kind \<Rightarrow> usize \<Rightarrow> metrics \<Rightarrow> metrics" where
  "record_upstream_request k calls m =
     m\<lparr>upstream_requests_total := vec_inc (upstream_request_kind_str k) (upstream_requests_total m),
       upstream_calls_total := f64_round (upstream_calls_total m + f64_of_usize calls)\<rparr>"

definition record_upstream_error :: "upstream_error_class \<Rightarrow> metrics \<Rightarrow> metrics" where
  "record_upstream_error c m =
     m\<lparr>upstream_errors_total := vec_inc (upstream_error_class_str c) (upstream_errors_total m)\<rparr>"

definition record_upstream_retry :: "upstream_error_class \<Rightarrow> metrics \<Rightarrow> metrics" where
  "record_upstream_retry c m =
     m\<lparr>upstream_retries_total := vec_inc (upstream_error_class_str c) (upstream_retries_total m)\<rparr>"

definition record_force_advance :: "u64 \<Rightarrow> metrics \<Rightarrow> metrics" where
  "record_force_advance past m =
     m\<lparr>force_advances_total := counter_inc (force_advances_total m),
       g_force_advanced_past := f64_of_u64 past\<rparr>"

definition record_integrity_violation :: "metrics \<Rightarrow> metrics" where
  "record_integrity_violation m =
     m\<lparr>integrity_violations_total := counter_inc (integrity_violations_total m)\<rparr>"

definition record_session_restart :: "session_restart \<Rightarrow> metrics \<Rightarrow> metrics" where
  "record_session_restart c m =
     m\<lparr>session_restarts_total := vec_inc (session_restart_str c) (session_restarts_total m)\<rparr>"

definition record_enrichment_retry :: "enrichment_retry \<Rightarrow> metrics \<Rightarrow> metrics" where
  "record_enrichment_retry r m =
     m\<lparr>enrichment_retries_total := vec_inc (enrichment_retry_str r) (enrichment_retries_total m)\<rparr>"

definition record_acquisition_retry_exhausted :: "metrics \<Rightarrow> metrics" where
  "record_acquisition_retry_exhausted m =
     m\<lparr>acquisition_retry_exhaustions_total :=
         counter_inc (acquisition_retry_exhaustions_total m)\<rparr>"

definition record_fork_rebase :: "metrics \<Rightarrow> metrics" where
  "record_fork_rebase m = m\<lparr>fork_rebases_total := counter_inc (fork_rebases_total m)\<rparr>"

definition record_watermark_regression :: "metrics \<Rightarrow> metrics" where
  "record_watermark_regression m =
     m\<lparr>watermark_regressions_total := counter_inc (watermark_regressions_total m)\<rparr>"

definition record_terminal_state :: "metrics \<Rightarrow> metrics" where
  "record_terminal_state m = m\<lparr>terminal_state := 1\<rparr>"

definition note_session_end :: "int \<Rightarrow> string option \<Rightarrow> metrics \<Rightarrow> metrics" where
  "note_session_end pos err m = m\<lparr>ladder := (pos, err)\<rparr>"

definition record_first_acceptance :: "u64 \<Rightarrow> metrics \<Rightarrow> metrics" where
  "record_first_acceptance now_ms m =
     (if first_acceptance_timestamp_ms m < 0
      then m\<lparr>first_acceptance_timestamp_ms := f64_of_u64 now_ms\<rparr> else m)"

definition record_shutdown_start :: "u64 \<Rightarrow> metrics \<Rightarrow> metrics" where
  "record_shutdown_start now_ms m =
     (if shutdown_start_timestamp_ms m < 0
      then m\<lparr>shutdown_start_timestamp_ms := f64_of_u64 now_ms\<rparr> else m)"

subsection \<open>The stall alarm\<close>

definition behind_upstream :: "metrics \<Rightarrow> bool" where
  "behind_upstream m =
     (case upstream_head_observation m of
        None \<Rightarrow> False
      | Some cur \<Rightarrow> f64_of_u64 (observed_number cur) > g_last_block m)"

datatype stall_edge = NoEdge | StallRaised | StallCleared

text \<open>
  The result also says which log record the call emits: one per flip of the alarm (OB-10).
\<close>

definition refresh_stall_alarm :: "instant \<Rightarrow> metrics \<Rightarrow> stall_edge \<times> metrics" where
  "refresh_stall_alarm now m =
     (let (stalled, clock) =
        (case upstream_head_observation m of
           Some obs \<Rightarrow>
             if behind_upstream m then
               (let since0 = (case behind_since (stall_clock m) of
                                None \<Rightarrow> number_observed_at obs | Some t \<Rightarrow> t);
                    committed_at = (case last_commit_at (stall_clock m) of
                                      None \<Rightarrow> process_started_at m | Some t \<Rightarrow> t);
                    since = max committed_at since0
                in (now - since \<ge> stall_after m, (stall_clock m)\<lparr>behind_since := Some since0\<rparr>))
             else (False, (stall_clock m)\<lparr>behind_since := None\<rparr>)
         | None \<Rightarrow> (False, (stall_clock m)\<lparr>behind_since := None\<rparr>))
      in (if stall_active m = stalled then NoEdge else if stalled then StallRaised else StallCleared,
          m\<lparr>stall_clock := clock, stall_alarm := (if stalled then 1 else 0),
            stall_active := stalled\<rparr>))"

definition refresh_derived_levels :: "instant \<Rightarrow> metrics \<Rightarrow> stall_edge \<times> metrics" where
  "refresh_derived_levels now m = refresh_stall_alarm now m"

end
