(* ===== verification/Service_Ingest.thy ===== *)
theory Service_Ingest
  imports Chain_Query Chain_Spec Metrics
begin

text \<open>
  The ingestion half of \<open>crates/data-service-core/src/service.rs\<close>: validation of a delivered batch,
  the transactional application of a batch to the buffer (\<open>apply_batch_locked\<close>), the body of the
  session loop (\<open>ingest_item\<close>), seeding and re-seeding (\<open>init_service\<close>) and the restart ladder of
  \<open>DataService::run\<close> as a step function on an explicit program counter.  What the source, the clocks
  and the callers of \<open>stop\<close> supply is input of the step, so a theorem about all runs is a theorem about
  every source.  Each step that touches the buffer is one scope of the write lock.  Log records are
  left out; the text of an error is an argument (\<open>display\<close>).
\<close>

subsection \<open>Validation of a batch\<close>

definition is_header_safe_hash :: "string \<Rightarrow> bool" where
  "is_header_safe_hash v =
     list_all (\<lambda>c. let b = (of_char c :: nat) in b = 9 \<or> (b \<ge> 32 \<and> b \<noteq> 127)) v"

definition validate_block :: "block \<Rightarrow> fault + unit" where
  "validate_block b =
     (if hash b = [] then Inl (EmptyBlockHash (number b))
      else if parent_hash b = [] then Inl (EmptyParentHash (number b))
      else if \<not> is_header_safe_hash (hash b) then Inl (UnsafeBlockHash (number b))
      else if \<not> is_header_safe_hash (parent_hash b) then Inl (UnsafeParentHash (number b))
      else Inr ())"

fun validate_blocks :: "block list \<Rightarrow> fault + unit" where
  "validate_blocks [] = Inr ()"
| "validate_blocks (b # bs) = (case validate_block b of Inl e \<Rightarrow> Inl e | Inr _ \<Rightarrow> validate_blocks bs)"

definition validate_report :: "block_ref option \<Rightarrow> fault + unit" where
  "validate_report report =
     (case report of
        None \<Rightarrow> Inr ()
      | Some r \<Rightarrow>
          if ref_hash r = [] then Inl (EmptyReportHash (ref_number r))
          else if \<not> is_header_safe_hash (ref_hash r) then Inl (UnsafeReportHash (ref_number r))
          else Inr ())"

fun validate_pairs :: "(block \<times> block) list \<Rightarrow> fault + unit" where
  "validate_pairs [] = Inr ()"
| "validate_pairs ((a, b) # ps) =
     (if number b \<le> number a \<or> \<not> is_chain a b
      then Inl (NotLinked (block_ref_of a) (block_ref_of b))
      else validate_pairs ps)"

definition validate_ingest_batch :: "block_batch \<Rightarrow> stream_error + unit" where
  "validate_ingest_batch batch =
     (if batch_blocks batch = [] then Inl (Other EmptyInputBatch)
      else (case validate_blocks (batch_blocks batch) of
          Inl e \<Rightarrow> Inl (Other e)
        | Inr _ \<Rightarrow>
            (case validate_report (batch_finalized_head batch) of
               Inl e \<Rightarrow> Inl (Other e)
             | Inr _ \<Rightarrow>
                 (case validate_pairs (windows2 (batch_blocks batch)) of
                    Inl e \<Rightarrow> Inl (Other e)
                  | Inr _ \<Rightarrow> Inr ()))))"

subsection \<open>Applying a batch\<close>

record ingested =
  index :: usize
  at_ms :: u64

definition settle_obligation :: "chain \<Rightarrow> block_ref \<Rightarrow> ((stream_error + unit) \<times> chain) option" where
  "settle_obligation c fh = do {
     (res, c') \<leftarrow> finalize c fh;
     case res of
       Inr True \<Rightarrow> do { _ \<leftarrow> get_finalized_header c'; Some (Inr (), c') }
     | Inr False \<Rightarrow> Some (Inr (), c')
     | Inl e \<Rightarrow> Some (Inl (Other (ObligationContradictsBuffer e)), c')
   }"

text \<open>The push loop of \<open>apply_batch_locked\<close>; \<open>clk i\<close> is the wall clock after pushing block \<open>i\<close>.\<close>

fun push_loop ::
    "(usize \<Rightarrow> u64) \<Rightarrow> usize \<Rightarrow> block list \<Rightarrow> chain \<Rightarrow> ((stream_error + ingested list) \<times> chain) option" where
  "push_loop clk i [] c = Some (Inr [], c)"
| "push_loop clk i (b # bs) c = do {
     (res, c') \<leftarrow> push c b;
     case res of
       Inl e \<Rightarrow> Some (Inl (Other (BatchContradictsBuffer e)), c')
     | Inr outcome \<Rightarrow> do {
         (rest, c'') \<leftarrow> push_loop clk (Suc i) bs c';
         Some (case rest of
                 Inl e \<Rightarrow> Inl e
               | Inr ins \<Rightarrow>
                   Inr (if outcome = Inserted then \<lparr>index = i, at_ms = clk i\<rparr> # ins else ins),
               c'')
       }
   }"

definition settle_max :: "chain \<Rightarrow> block_ref option \<Rightarrow> ((stream_error + unit) \<times> chain) option" where
  "settle_max c fmax =
     (case fmax of None \<Rightarrow> Some (Inr (), c) | Some fh \<Rightarrow> settle_obligation c fh)"

text \<open>The WP-12 checks of \<open>apply_batch_locked\<close>: before the pushes, and after the first settlement.\<close>

definition conflicting_report ::
    "chain \<Rightarrow> block_ref option \<Rightarrow> block_ref option \<Rightarrow> fault option option" where
  "conflicting_report c report fmax =
     (case (report, fmax) of
        (Some r, Some current) \<Rightarrow> do {
          fin \<leftarrow> get_finalized_head c;
          Some (if ref_number r \<ge> ref_number fin \<and> ref_number r = ref_number current \<and>
                   ref_hash r \<noteq> ref_hash current
                then Some (ConflictingReports (ref_number r) (ref_hash current) (ref_hash r))
                else None)
        }
      | _ \<Rightarrow> Some None)"

definition raises_max :: "chain \<Rightarrow> block_ref option \<Rightarrow> block_ref option \<Rightarrow> bool option" where
  "raises_max c report fmax =
     (case report of
        None \<Rightarrow> Some False
      | Some r \<Rightarrow> do {
          applied \<leftarrow> get_finalized_head c;
          Some (ref_number r \<ge> ref_number applied \<and>
                (case fmax of None \<Rightarrow> True | Some current \<Rightarrow> ref_number r > ref_number current))
        })"

definition apply_batch_locked ::
    "(usize \<Rightarrow> u64) \<Rightarrow> chain \<Rightarrow> block_batch \<Rightarrow> block_ref option \<Rightarrow>
     ((stream_error + ingested list) \<times> chain \<times> block_ref option) option" where
  "apply_batch_locked clk c batch fmax = do {
     conflict \<leftarrow> conflicting_report c (batch_finalized_head batch) fmax;
     case conflict of
       Some e \<Rightarrow> Some (Inl (Other e), c, fmax)
     | None \<Rightarrow> do {
         (res, c1) \<leftarrow> push_loop clk 0 (batch_blocks batch) c;
         case res of
           Inl e \<Rightarrow> Some (Inl e, c1, fmax)
         | Inr inserted \<Rightarrow> do {
             (res2, c2) \<leftarrow> settle_max c1 fmax;
             case res2 of
               Inl e \<Rightarrow> Some (Inl e, c2, fmax)
             | Inr _ \<Rightarrow> do {
                 raised \<leftarrow> raises_max c2 (batch_finalized_head batch) fmax;
                 if raised then do {
                   (res3, c3) \<leftarrow> settle_max c2 (batch_finalized_head batch);
                   Some (case res3 of Inl e \<Rightarrow> Inl e | Inr _ \<Rightarrow> Inr inserted, c3,
                         batch_finalized_head batch)
                 }
                 else Some (Inr inserted, c2, fmax)
               }
           }
       }
   }"

subsection \<open>The service state\<close>

text \<open>
  The fields of \<open>DataService\<close>, with the values sent on the \<open>started\<close> channel (newest first), the flag
  of the cancel channel and the process-wide ingestion time cache.
\<close>

record service =
  buffer_size :: usize
  svc_auto_adjust :: bool
  svc_metrics :: metrics
  svc_chain :: "chain option"
  block_watch :: u64
  started :: "(unit + unit) list"
  stopped :: bool
  cancelled :: bool
  response_budget_ms :: u64
  timestamp_cache :: block_timestamp_cache

definition service_with_metrics ::
    "usize \<Rightarrow> bool \<Rightarrow> metrics \<Rightarrow> block_timestamp_cache \<Rightarrow> service" where
  "service_with_metrics bsize auto m cache =
     \<lparr>buffer_size = bsize, svc_auto_adjust = auto, svc_metrics = m, svc_chain = None,
      block_watch = 0, started = [], stopped = False, cancelled = False,
      response_budget_ms = 60000, timestamp_cache = cache\<rparr>"

definition set_response_budget :: "u64 \<Rightarrow> service \<Rightarrow> service" where
  "set_response_budget ms s = s\<lparr>response_budget_ms := ms\<rparr>"

definition stop :: "service \<Rightarrow> service" where
  "stop s = s\<lparr>stopped := True\<rparr>"

definition stop_requested :: "service \<Rightarrow> bool" where
  "stop_requested s = (stopped s \<or> cancelled s)"

definition upd_metrics :: "(metrics \<Rightarrow> metrics) \<Rightarrow> service \<Rightarrow> service" where
  "upd_metrics f s = s\<lparr>svc_metrics := f (svc_metrics s)\<rparr>"

definition service_finalized_head :: "service \<Rightarrow> block_ref option" where
  "service_finalized_head s = do { c \<leftarrow> svc_chain s; get_finalized_head c }"

definition service_head :: "service \<Rightarrow> block_ref option" where
  "service_head s = do { c \<leftarrow> svc_chain s; get_head c }"

definition is_ready :: "instant \<Rightarrow> service \<Rightarrow> bool option" where
  "is_ready now s =
     (case fresh_upstream_head now (svc_metrics s) of
        None \<Rightarrow> Some False
      | Some h \<Rightarrow> do { hd \<leftarrow> service_head s; Some (h \<le> ref_number hd) })"

text \<open>\<open>refresh_upstream_head\<close>: \<open>None\<close> is a timed-out read.\<close>

definition refresh_upstream_head ::
    "instant \<Rightarrow> u64 \<Rightarrow> (fault + block_ref) option \<Rightarrow> service \<Rightarrow> service" where
  "refresh_upstream_head now now_ms answer s =
     (case answer of
        Some (Inr h) \<Rightarrow> upd_metrics (observe_upstream_head now now_ms (ref_number h)) s
      | _ \<Rightarrow> s)"

definition trigger_update_locked :: "u64 \<Rightarrow> chain \<Rightarrow> service \<Rightarrow> service option" where
  "trigger_update_locked now_ms c s = do {
     last \<leftarrow> last_block c;
     first \<leftarrow> first_block_number c;
     fin \<leftarrow> get_finalized_head c;
     Some ((upd_metrics (\<lambda>m.
              set_window_excess (window_excess c)
               (set_stored_blocks (chain_size c)
                 (set_finalized_block (ref_number fin)
                   (set_last_block_timestamp now_ms (case timestamp last of None \<Rightarrow> 0 | Some t \<Rightarrow> t)
                     (set_last_block (number last)
                       (set_first_block first m)))))) s)
           \<lparr>block_watch := number last\<rparr>)
   }"

subsection \<open>Seeding\<close>

definition seed_contradicts :: "block \<Rightarrow> block \<Rightarrow> bool" where
  "seed_contradicts held seed \<longleftrightarrow>
     hash held \<noteq> hash seed \<or> parent_number held \<noteq> parent_number seed \<or>
     parent_hash held \<noteq> parent_hash seed"

definition install_seed :: "u64 \<Rightarrow> block \<Rightarrow> service \<Rightarrow> service option" where
  "install_seed now_ms seed s = do {
     c \<leftarrow> chain_new seed (buffer_size s) (svc_auto_adjust s);
     trigger_update_locked now_ms c (s\<lparr>svc_chain := Some c\<rparr>)
   }"

definition replace_chain :: "u64 \<Rightarrow> block \<Rightarrow> service \<Rightarrow> ((fault + unit) \<times> service) option" where
  "replace_chain now_ms seed s =
     (case svc_chain s of
        None \<Rightarrow> do { s' \<leftarrow> install_seed now_ms seed s; Some (Inr (), s') }
      | Some prev \<Rightarrow>
          (case block_at prev (number seed) of
             Some held \<Rightarrow>
               if seed_contradicts held seed
               then Some (Inl (DivergentReseedFault
                      \<lparr>dr_seed = block_ref_of seed, dr_seed_parent = parent_ref_of seed,
                       dr_held = block_ref_of held, dr_held_parent = parent_ref_of held\<rparr>), s)
               else do {
                 fin \<leftarrow> get_finalized_head prev;
                 s' \<leftarrow> install_seed now_ms seed
                   (if number seed < ref_number fin
                    then upd_metrics record_watermark_regression s else s);
                 Some (Inr (), s')
               }
           | None \<Rightarrow> do {
               fin \<leftarrow> get_finalized_head prev;
               s' \<leftarrow> install_seed now_ms seed
                 (if number seed < ref_number fin
                  then upd_metrics record_watermark_regression s else s);
               Some (Inr (), s')
             }))"

text \<open>
  \<open>init\<close>: \<open>head\<close> is the answer of \<open>get_finalized_head\<close>, \<open>item\<close> the first item of the finalized
  stream opened for that one height (\<open>None\<close> when the stream ends at once).
\<close>

definition init_request :: "block_ref \<Rightarrow> stream_request" where
  "init_request head =
     \<lparr>sr_from = ref_number head, sr_to = Some (ref_number head), sr_parent_hash = None\<rparr>"

definition init_service ::
    "u64 \<Rightarrow> fault + block_ref \<Rightarrow> (stream_error + block_batch) option \<Rightarrow> service \<Rightarrow>
     ((fault + unit) \<times> service) option" where
  "init_service now_ms head item s =
     (if buffer_size s = 0 then Some (Inl CacheSizeNotPositive, s)
      else (case head of
        Inl e \<Rightarrow> Some (Inl e, s)
      | Inr h \<Rightarrow>
          if ref_hash h = [] then Some (Inl EmptyFinalizedHash, s)
          else if \<not> is_header_safe_hash (ref_hash h) then Some (Inl UnsafeFinalizedHash, s)
          else (case item of
            None \<Rightarrow> Some (Inl NoSeedBlock, s)
          | Some (Inl e) \<Rightarrow> Some (Inl (SeedStreamError e), s)
          | Some (Inr batch) \<Rightarrow>
              if length (batch_blocks batch) \<noteq> 1
              then Some (Inl (SeedCount (ref_number h) (length (batch_blocks batch))), s)
              else (case validate_ingest_batch batch of
                Inl e \<Rightarrow> Some (Inl (SeedStreamError e), s)
              | Inr _ \<Rightarrow> do {
                  seed \<leftarrow> vec_get (batch_blocks batch) 0;
                  if parent_number seed > number seed
                  then Some (Inl (SeedParentAbove (number seed) (parent_number seed)), s)
                  else if number seed \<noteq> ref_number h \<or> hash seed \<noteq> ref_hash h
                  then Some (Inl (SeedMismatch (block_ref_of seed) h), s)
                  else replace_chain now_ms seed s
                }))))"

subsection \<open>One session\<close>

text \<open>The clock readings one batch takes; \<open>block_ms i\<close> and \<open>cache_at i\<close> belong to block \<open>i\<close>.\<close>

record batch_clock =
  block_ms :: "usize \<Rightarrow> u64"
  progress_at :: instant
  cache_at :: "usize \<Rightarrow> instant \<times> instant"
  commit_at :: instant
  commit_ms :: u64
  update_ms :: u64
  spent :: duration

text \<open>The \<open>&mut\<close> arguments of \<open>ingest_session\<close>.\<close>

record session =
  first_block_ingested :: bool
  finalized_max :: "block_ref option"

fun publish_ingested ::
    "batch_clock \<Rightarrow> block list \<Rightarrow> ingested list \<Rightarrow> service \<Rightarrow> service option" where
  "publish_ingested clk bs [] s = Some s"
| "publish_ingested clk bs (i # is) s = do {
     b \<leftarrow> vec_get bs (index i);
     let s1 = s\<lparr>timestamp_cache :=
                  record_block_ingestion (fst (cache_at clk (index i))) (snd (cache_at clk (index i)))
                    (number b) (at_ms i) (timestamp_cache s)\<rparr>;
     let s2 = (case timestamp b of
                 None \<Rightarrow> s1
               | Some ts \<Rightarrow> upd_metrics (observe_block_lag ts (at_ms i)) s1);
     publish_ingested clk bs is s2
   }"

text \<open>What a surviving batch publishes once it is committed.\<close>

definition publish_batch ::
    "batch_clock \<Rightarrow> block list \<Rightarrow> ingested list \<Rightarrow> service \<Rightarrow> service option" where
  "publish_batch clk bs ins s =
     publish_ingested clk bs ins
       (case vec_last bs of
          None \<Rightarrow> s
        | Some l \<Rightarrow> upd_metrics (observe_upstream_progress (progress_at clk) (number l)) s)"

text \<open>The end of the lock scope: startup signal, compaction with its alarms, levels and watchers.\<close>

definition finish_batch ::
    "batch_clock \<Rightarrow> bool \<Rightarrow> chain \<Rightarrow> service \<Rightarrow> session \<Rightarrow> (service \<times> session) option" where
  "finish_batch clk inserted_any c s ses = do {
     (s1, ses1) \<leftarrow>
       (if inserted_any then do {
          _ \<leftarrow> get_header c;
          Some (if first_block_ingested ses then (s, ses)
                else (s\<lparr>started := Inr () # started s\<rparr>, ses\<lparr>first_block_ingested := True\<rparr>))
        }
        else Some (s, ses));
     (k, c') \<leftarrow> compact c;
     let s2 = (case compaction.force_advanced_past k of
                 None \<Rightarrow> s1 | Some past \<Rightarrow> upd_metrics (record_force_advance past) s1);
     s3 \<leftarrow> trigger_update_locked (update_ms clk) c' (s2\<lparr>svc_chain := Some c'\<rparr>);
     Some (s3, ses1)
   }"

definition ingest_batch ::
    "batch_clock \<Rightarrow> block_batch \<Rightarrow> service \<Rightarrow> session \<Rightarrow>
     ((stream_error + unit) \<times> service \<times> session) option" where
  "ingest_batch clk batch s ses = do {
     c \<leftarrow> svc_chain s;
     (res, c1, fmax) \<leftarrow> apply_batch_locked (block_ms clk) (begin_batch c) batch (finalized_max ses);
     let ses1 = ses\<lparr>finalized_max := fmax\<rparr>;
     case res of
       Inl e \<Rightarrow>
         Some (Inl e,
           upd_metrics record_integrity_violation (s\<lparr>svc_chain := Some (rollback_batch c1)\<rparr>), ses1)
     | Inr inserted \<Rightarrow> do {
         s1 \<leftarrow> publish_batch clk (batch_blocks batch) inserted s;
         let s2 = upd_metrics (record_commit (commit_at clk) (commit_ms clk)) s1;
         (s3, ses2) \<leftarrow> finish_batch clk (inserted \<noteq> []) (commit_batch c1) s2 ses1;
         Some (Inr (), upd_metrics (track_processing_time (spent clk)) s3, ses2)
       }
   }"

text \<open>What the session loop waits for: the cancel channel or the next item of the source stream.\<close>

datatype stream_event =
    CancelFired
  | StreamEnded
  | StreamItem "stream_error + block_batch"

datatype session_step = Continue | SessionEnds "stream_error + unit"

definition ingest_request :: "block_ref \<Rightarrow> stream_request" where
  "ingest_request base =
     \<lparr>sr_from = saturating_add (ref_number base) 1, sr_to = None,
      sr_parent_hash = Some (ref_hash base)\<rparr>"

definition ingest_item ::
    "batch_clock \<Rightarrow> stream_event \<Rightarrow> service \<Rightarrow> session \<Rightarrow> (session_step \<times> service \<times> session) option" where
  "ingest_item clk ev s ses =
     (case ev of
        CancelFired \<Rightarrow> Some (SessionEnds (Inr ()), s\<lparr>cancelled := True\<rparr>, ses)
      | StreamEnded \<Rightarrow> Some (SessionEnds (Inr ()), s, ses)
      | StreamItem (Inl (Fork prev)) \<Rightarrow>
          if prev = [] then Some (SessionEnds (Inl (Other EmptyForkSignal)), s, ses)
          else Some (SessionEnds (Inl (Fork prev)), s, ses)
      | StreamItem (Inl (Other e)) \<Rightarrow> Some (SessionEnds (Inl (Other e)), s, ses)
      | StreamItem (Inr batch) \<Rightarrow>
          if stopped s then Some (SessionEnds (Inr ()), s, ses)
          else (case validate_ingest_batch batch of
            Inl e \<Rightarrow> Some (SessionEnds (Inl e), s, ses)
          | Inr _ \<Rightarrow> do {
              (res, s', ses') \<leftarrow> ingest_batch clk batch s ses;
              Some (case res of Inl e \<Rightarrow> SessionEnds (Inl e) | Inr _ \<Rightarrow> Continue, s', ses')
            }))"

subsection \<open>The restart ladder\<close>

datatype run_end = Stopped | StartupFailure fault | RunTerminal fault

datatype run_pc = AtTop | InSession | AtVerdict "stream_error + unit" | Ended run_end

record run_state =
  rs_pc :: run_pc
  rs_base :: block_ref
  rs_stacked :: int
  rs_session :: session
  rs_service :: service

definition run_start :: "service \<Rightarrow> run_state option" where
  "run_start s = do {
     h \<leftarrow> service_head s;
     Some \<lparr>rs_pc = AtTop, rs_base = h, rs_stacked = 0,
           rs_session = \<lparr>first_block_ingested = False, finalized_max = None\<rparr>, rs_service = s\<rparr>
   }"

text \<open>
  The top of the loop.  The seed inputs \<open>now_ms\<close>, \<open>head\<close> and \<open>item\<close> are those of \<open>init_service\<close> and
  are read only on a full re-init.
\<close>

definition run_top ::
    "u64 \<Rightarrow> fault + block_ref \<Rightarrow> (stream_error + block_batch) option \<Rightarrow> run_state \<Rightarrow> run_state option" where
  "run_top now_ms head item r =
     (if stop_requested (rs_service r) then Some (r\<lparr>rs_pc := Ended Stopped\<rparr>)
      else if rs_stacked r > 5 then do {
        let r1 = r\<lparr>rs_session := (rs_session r)\<lparr>finalized_max := None\<rparr>\<rparr>;
        (res, s') \<leftarrow> init_service now_ms head item (rs_service r);
        case res of
          Inl (DivergentReseedFault d) \<Rightarrow>
            Some (r1\<lparr>rs_pc := Ended (RunTerminal (DivergentReseedFault d)),
                     rs_service := upd_metrics record_terminal_state s'\<rparr>)
        | Inl e \<Rightarrow> Some (r1\<lparr>rs_pc := AtVerdict (Inl (Other e)), rs_service := s'\<rparr>)
        | Inr _ \<Rightarrow> do {
            let s2 = upd_metrics (record_session_restart RestartReset) s';
            h \<leftarrow> service_head s2;
            Some (r1\<lparr>rs_pc := InSession, rs_base := h, rs_service := s2\<rparr>)
          }
      }
      else Some (r\<lparr>rs_pc := InSession\<rparr>))"

definition send_startup_failure :: "run_state \<Rightarrow> run_state" where
  "send_startup_failure r =
     (if first_block_ingested (rs_session r) then r
      else r\<lparr>rs_service := (rs_service r)\<lparr>started := Inl () # started (rs_service r)\<rparr>\<rparr>)"

text \<open>A session that ended without a fork: the ladder counts sessions that left the head where it was.\<close>

definition run_restart :: "string option \<Rightarrow> run_state \<Rightarrow> run_state option" where
  "run_restart message r = do {
     let s1 = upd_metrics (record_session_restart RestartError) (rs_service r);
     head \<leftarrow> service_head s1;
     let k = (if ref_number head = ref_number (rs_base r) then rs_stacked r + 1 else 0);
     Some (r\<lparr>rs_pc := AtTop, rs_base := head, rs_stacked := k,
             rs_service := upd_metrics (note_session_end k message) s1\<rparr>)
   }"

definition restart_pause_secs :: "int \<Rightarrow> nat" where
  "restart_pause_secs k = (if k > 1 then 30 else 0)"

definition run_verdict ::
    "(fault \<Rightarrow> string) \<Rightarrow> stream_error + unit \<Rightarrow> run_state \<Rightarrow> run_state option" where
  "run_verdict display result r =
     (if stop_requested (rs_service r) then Some (r\<lparr>rs_pc := Ended Stopped\<rparr>)
      else (case result of
        Inr _ \<Rightarrow>
          (let r1 = r\<lparr>rs_session := (rs_session r)\<lparr>finalized_max := None\<rparr>\<rparr> in
           if \<not> first_block_ingested (rs_session r1)
           then Some ((send_startup_failure r1)\<lparr>rs_pc := Ended (StartupFailure EndedBeforeFirstBlock)\<rparr>)
           else run_restart (Some ''stream ended without an error'') r1)
      | Inl (Fork prev) \<Rightarrow> do {
          let r1 = r\<lparr>rs_stacked := 0\<rparr>;
          c \<leftarrow> svc_chain (rs_service r1);
          fb \<leftarrow> get_fork_base c prev;
          case fb of
            Some b \<Rightarrow>
              Some (r1\<lparr>rs_pc := AtTop, rs_base := b,
                rs_service := upd_metrics (\<lambda>m. note_session_end 0 None (record_fork_rebase
                          (record_session_restart RestartFork m))) (rs_service r1)\<rparr>)
          | None \<Rightarrow> do {
              fin \<leftarrow> service_finalized_head (rs_service r1);
              let r2 = r1\<lparr>rs_service := upd_metrics record_terminal_state (rs_service r1)\<rparr>;
              Some ((send_startup_failure r2)
                      \<lparr>rs_pc := Ended (RunTerminal (RollbackBehindFinalizedHead fin prev))\<rparr>)
            }
        }
      | Inl (Other e) \<Rightarrow>
          (let r1 = r\<lparr>rs_session := (rs_session r)\<lparr>finalized_max := None\<rparr>\<rparr> in
           if \<not> first_block_ingested (rs_session r1)
           then Some ((send_startup_failure r1)\<lparr>rs_pc := Ended (StartupFailure e)\<rparr>)
           else run_restart (Some (display e)) r1)))"

text \<open>
  One step of the run.  Besides the loop itself, the callers may request a stop at any moment, the
  head observer may read the upstream head, and the ticker or a scrape may refresh the stall level.
\<close>

datatype run_input =
    CallStop
  | CallCancel
  | ReadUpstreamHead instant u64 "(fault + block_ref) option"
  | RefreshLevels instant
  | Go u64 "fault + block_ref" "(stream_error + block_batch) option" batch_clock stream_event

definition run_step :: "(fault \<Rightarrow> string) \<Rightarrow> run_input \<Rightarrow> run_state \<Rightarrow> run_state option" where
  "run_step display i r =
     (case i of
        CallStop \<Rightarrow> Some (r\<lparr>rs_service := stop (rs_service r)\<rparr>)
      | CallCancel \<Rightarrow> Some (r\<lparr>rs_service := (rs_service r)\<lparr>cancelled := True\<rparr>\<rparr>)
      | ReadUpstreamHead now now_ms answer \<Rightarrow>
          Some (r\<lparr>rs_service := refresh_upstream_head now now_ms answer (rs_service r)\<rparr>)
      | RefreshLevels now \<Rightarrow>
          Some (r\<lparr>rs_service := upd_metrics (\<lambda>m. snd (refresh_derived_levels now m)) (rs_service r)\<rparr>)
      | Go now_ms head item clk ev \<Rightarrow>
          (case rs_pc r of
             AtTop \<Rightarrow> run_top now_ms head item r
           | InSession \<Rightarrow> do {
               (st, s', ses') \<leftarrow> ingest_item clk ev (rs_service r) (rs_session r);
               Some (r\<lparr>rs_pc := (case st of Continue \<Rightarrow> InSession | SessionEnds res \<Rightarrow> AtVerdict res),
                       rs_service := s', rs_session := ses'\<rparr>)
             }
           | AtVerdict result \<Rightarrow> run_verdict display result r
           | Ended e \<Rightarrow> Some r))"

fun run_steps :: "(fault \<Rightarrow> string) \<Rightarrow> run_input list \<Rightarrow> run_state \<Rightarrow> run_state option" where
  "run_steps display [] r = Some r"
| "run_steps display (i # is) r = do { r' \<leftarrow> run_step display i r; run_steps display is r' }"

subsection \<open>The push loop and the settlement\<close>

definition settle_result :: "block list \<Rightarrow> usize \<Rightarrow> block_ref option \<Rightarrow> usize option" where
  "settle_result bs f fmax = (case fmax of None \<Rightarrow> Some f | Some r \<Rightarrow> finalize_result bs f r)"

lemma push_loop_each:
  "each push (\<lambda>r. \<not> isl r) bs c = map_option (\<lambda>(res, c'). (\<not> isl res, c')) (push_loop clk i bs c)"
proof (induction bs arbitrary: c i)
  case Nil
  then show ?case by simp
next
  case (Cons b bs)
  show ?case
  proof (cases "push c b")
    case (Some p)
    obtain r c1 where p: "p = (r, c1)" by fastforce
    show ?thesis
      using Some p Cons.IH [of c1 "Suc i"]
      by (cases r; cases "push_loop clk (Suc i) bs c1") (auto split: sum.splits)
  qed simp
qed

lemma push_loop_total:
  assumes "chain_inv c"
  obtains res c' where "push_loop clk i bs c = Some (res, c')" "chain_inv c'" "push_rel c c'"
proof -
  obtain b c' where "each push (\<lambda>r. \<not> isl r) bs c = Some (b, c')" "chain_inv c'" "push_rel c c'"
    using chain_push.each_total [OF assms] by blast
  then show ?thesis using that by (auto simp: push_loop_each [of bs c clk i])
qed

lemma push_loop_indices:
  "push_loop clk i bs c = Some (Inr ins, c') \<Longrightarrow>
     (\<forall>x \<in> set ins. i \<le> index x \<and> index x < i + length bs \<and> at_ms x = clk (index x)) \<and> ascending index ins"
proof (induction bs arbitrary: i c ins)
  case Nil
  then show ?case by simp
next
  case (Cons b bs)
  from Cons.prems obtain out c1 ins1 where
    p: "push c b = Some (Inr out, c1)" "push_loop clk (Suc i) bs c1 = Some (Inr ins1, c')"
    and ins: "ins = (if out = Inserted then \<lparr>index = i, at_ms = clk i\<rparr> # ins1 else ins1)"
    by (auto split: sum.splits bind_splits)
  have "(\<forall>x \<in> set ins1. Suc i \<le> index x \<and> index x < Suc i + length bs \<and> at_ms x = clk (index x))"
    "ascending index ins1"
    using Cons.IH [OF p(2)] by auto
  then show ?case using ins by (auto simp: ascending_Cons)
qed

lemma settle_max_result:
  assumes "chain_inv c"
  shows "\<exists>r c'. settle_max c fmax = Some (r, c') \<and>
    (case settle_result (blocks c) (finalized_head c) fmax of
       None \<Rightarrow> isl r \<and> c' = c
     | Some f \<Rightarrow> \<not> isl r \<and> c' = c\<lparr>finalized_head := f\<rparr> \<and> f < length (blocks c))"
proof (cases fmax)
  case None
  then show ?thesis using chain_invD(4) [OF assms] by (simp add: settle_max_def settle_result_def)
next
  case (Some x)
  obtain r c' where fin: "finalize c x = Some (r, c')"
    "case finalize_result (blocks c) (finalized_head c) x of
       None \<Rightarrow> isl r \<and> c' = c | Some f \<Rightarrow> \<not> isl r \<and> c' = c\<lparr>finalized_head := f\<rparr>"
    using finalize_result_correct [OF assms] by blast
  show ?thesis
  proof (cases "finalize_result (blocks c) (finalized_head c) x")
    case None
    then show ?thesis using Some fin
      by (cases r) (simp_all add: settle_max_def settle_obligation_def settle_result_def)
  next
    case (Some f)
    then have "f < length (blocks c)"
      using finalize_result_bounds chain_invD(1,4) [OF assms] by blast
    then show ?thesis using Some fin \<open>fmax = Some x\<close>
      by (cases r) (auto simp: settle_max_def settle_obligation_def settle_result_def
          get_finalized_header_def vec_get_def split: bool.splits)
  qed
qed

end
