(* ===== verification/Service_Batch.thy ===== *)
theory Service_Batch
  imports Service_Ingest
begin

text \<open>
  The lock scope of one batch (\<open>ingest_batch\<close> and what it calls): it returns for every input, applies
  the batch whole or restores the buffer it found, leaves the levels describing the buffer, and never
  lowers the finalized head or rewrites anything at or below it.  The specification vocabulary comes
  first, the lemmas in the order of the calls after it.
\<close>

subsection \<open>Vocabulary\<close>

text \<open>What applying a batch keeps: the configuration and the open log; finality only rises.\<close>

definition apply_rel :: "chain \<Rightarrow> chain \<Rightarrow> bool" where
  "apply_rel c c' \<longleftrightarrow>
     finalized_head c \<le> finalized_head c' \<and> max_size c' = max_size c \<and>
     auto_adjust_finalized_head c' = auto_adjust_finalized_head c \<and>
     take (Suc (finalized_head c)) (blocks c') = take (Suc (finalized_head c)) (blocks c) \<and>
     (\<forall>c0. batch_open c0 c \<longrightarrow> batch_open c0 c')"

text \<open>The part of the service state that only the ingestion steps and the stop calls write.\<close>

definition same_config :: "service \<Rightarrow> service \<Rightarrow> bool" where
  "same_config s s' \<longleftrightarrow>
     buffer_size s' = buffer_size s \<and> svc_auto_adjust s' = svc_auto_adjust s \<and>
     stopped s' = stopped s \<and> cancelled s' = cancelled s \<and>
     response_budget_ms s' = response_budget_ms s"

text \<open>The levels a step leaves behind describe the buffer it leaves behind (OB-1, OB-6).\<close>

definition levels_match :: "chain \<Rightarrow> service \<Rightarrow> bool" where
  "levels_match c s \<longleftrightarrow>
     block_watch s = number (last (blocks c)) \<and>
     g_last_block (svc_metrics s) = f64_of_u64 (number (last (blocks c))) \<and>
     g_first_block (svc_metrics s) = f64_of_u64 (number (hd (blocks c))) \<and>
     g_finalized_block (svc_metrics s) = f64_of_u64 (number (blocks c ! finalized_head c)) \<and>
     stored_blocks (svc_metrics s) = f64_of_usize (length (blocks c)) \<and>
     g_window_excess (svc_metrics s) = f64_of_usize (length (blocks c) - max_size c) \<and>
     over_window (svc_metrics s) = (if length (blocks c) > max_size c then 1 else 0)"

definition svc_inv :: "service \<Rightarrow> bool" where
  "svc_inv s \<longleftrightarrow>
     buffer_size s > 0 \<and>
     (\<exists>c. svc_chain s = Some c \<and> chain_inv c \<and> undo c = None \<and> max_size c = buffer_size s \<and>
          auto_adjust_finalized_head c = svc_auto_adjust s \<and> levels_match c s)"

text \<open>The recording operations that leave the state levels alone.\<close>

definition keeps_levels :: "(metrics \<Rightarrow> metrics) \<Rightarrow> bool" where
  "keeps_levels f \<longleftrightarrow>
     (\<forall>m. g_last_block (f m) = g_last_block m \<and> g_first_block (f m) = g_first_block m \<and>
          g_finalized_block (f m) = g_finalized_block m \<and> stored_blocks (f m) = stored_blocks m \<and>
          g_window_excess (f m) = g_window_excess m \<and> over_window (f m) = over_window m)"

definition hash_ok :: "string \<Rightarrow> bool" where
  "hash_ok h \<longleftrightarrow> h \<noteq> [] \<and> is_header_safe_hash h"

definition batch_ok :: "block_batch \<Rightarrow> bool" where
  "batch_ok batch \<longleftrightarrow>
     batch_blocks batch \<noteq> [] \<and>
     (\<forall>b \<in> set (batch_blocks batch). hash_ok (hash b) \<and> hash_ok (parent_hash b)) \<and>
     (\<forall>r. batch_finalized_head batch = Some r \<longrightarrow> hash_ok (ref_hash r)) \<and>
     linked_chain (batch_blocks batch)"

definition fin_number :: "chain \<Rightarrow> u64" where
  "fin_number c = number (blocks c ! finalized_head c)"

text \<open>Finality does not regress, and nothing at or below the old finalized head is new.\<close>

definition finality_kept :: "chain \<Rightarrow> chain \<Rightarrow> bool" where
  "finality_kept c c' \<longleftrightarrow>
     fin_number c \<le> fin_number c' \<and>
     (\<forall>b \<in> set (blocks c'). number b \<le> fin_number c \<longrightarrow> b \<in> set (blocks c))"

subsection \<open>Applying a batch\<close>

lemma apply_rel_refl [simp]: "apply_rel c c"
  by (simp add: apply_rel_def)

lemma push_rel_apply: "push_rel c c' \<Longrightarrow> apply_rel c c'"
  by (simp add: push_rel_def apply_rel_def)

lemma apply_rel_settle:
  assumes "apply_rel c c'" "finalized_head c' \<le> f"
  shows "apply_rel c (c'\<lparr>finalized_head := f\<rparr>)"
  using assms batch_open_finalize [of _ c' "c'\<lparr>finalized_head := f\<rparr>"]
  by (auto simp: apply_rel_def)

lemma settle_result_bounds:
  assumes "settle_result bs f fmax = Some f'" "f < length bs" "bs \<noteq> []"
  shows "f \<le> f'" "f' < length bs"
  using assms finalize_result_bounds [of bs f _ f'] by (auto simp: settle_result_def split: option.splits)

lemma settle_max_total:
  assumes "chain_inv c"
  obtains r c' where "settle_max c fmax = Some (r, c')" "chain_inv c'"
    "blocks c' = blocks c" "\<And>c0. apply_rel c0 c \<Longrightarrow> apply_rel c0 c'"
    "\<not> isl r \<Longrightarrow> settle_result (blocks c) (finalized_head c) fmax = Some (finalized_head c')"
    "isl r \<Longrightarrow> settle_result (blocks c) (finalized_head c) fmax = None \<and> c' = c"
proof -
  obtain r c' where s: "settle_max c fmax = Some (r, c')"
    "case settle_result (blocks c) (finalized_head c) fmax of
       None \<Rightarrow> isl r \<and> c' = c
     | Some f \<Rightarrow> \<not> isl r \<and> c' = c\<lparr>finalized_head := f\<rparr> \<and> f < length (blocks c)"
    using settle_max_result [OF assms] by blast
  show ?thesis
  proof (cases "settle_result (blocks c) (finalized_head c) fmax")
    case None
    then show ?thesis using s assms by (intro that [OF s(1)]) auto
  next
    case (Some f)
    then have "finalized_head c \<le> f"
      using settle_result_bounds chain_invD(1,4) [OF assms] by blast
    then show ?thesis
      using s Some chain_inv_set_finalized [OF assms] apply_rel_settle [of _ c f]
      by (intro that [OF s(1)]) auto
  qed
qed

lemma conflicting_report_eq:
  assumes "chain_inv c"
  shows "conflicting_report c report fmax = Some
    (case (report, fmax) of
       (Some r, Some cur) \<Rightarrow>
         if ref_number r \<ge> number (blocks c ! finalized_head c) \<and>
            ref_number r = ref_number cur \<and> ref_hash r \<noteq> ref_hash cur
         then Some (ConflictingReports (ref_number r) (ref_hash cur) (ref_hash r)) else None
     | _ \<Rightarrow> None)"
  using assms by (auto simp: conflicting_report_def chain_getters split: option.splits)

lemma raises_max_eq:
  assumes "chain_inv c"
  shows "raises_max c report fmax = Some
    (case report of
       None \<Rightarrow> False
     | Some r \<Rightarrow> ref_number r \<ge> number (blocks c ! finalized_head c) \<and>
         (case fmax of None \<Rightarrow> True | Some cur \<Rightarrow> ref_number r > ref_number cur))"
  using assms by (auto simp: raises_max_def chain_getters split: option.splits)

lemma apply_batch_cases [consumes 1, case_names conflict rejected unsettled raised unraised]:
  assumes inv: "chain_inv c"
  obtains (conflict) e where
      "conflicting_report c (batch_finalized_head batch) fmax = Some (Some e)"
      "apply_batch_locked clk c batch fmax = Some (Inl (Other e), c, fmax)"
  | (rejected) e c1 where "conflicting_report c (batch_finalized_head batch) fmax = Some None"
      "push_loop clk 0 (batch_blocks batch) c = Some (Inl e, c1)"
      "apply_batch_locked clk c batch fmax = Some (Inl e, c1, fmax)"
  | (unsettled) ins c1 e where "conflicting_report c (batch_finalized_head batch) fmax = Some None"
      "push_loop clk 0 (batch_blocks batch) c = Some (Inr ins, c1)"
      "settle_max c1 fmax = Some (Inl e, c1)"
      "apply_batch_locked clk c batch fmax = Some (Inl e, c1, fmax)"
  | (raised) ins c1 c2 r res c3 where
      "conflicting_report c (batch_finalized_head batch) fmax = Some None"
      "push_loop clk 0 (batch_blocks batch) c = Some (Inr ins, c1)"
      "settle_max c1 fmax = Some (Inr (), c2)" "batch_finalized_head batch = Some r"
      "raises_max c2 (Some r) fmax = Some True" "settle_max c2 (Some r) = Some (res, c3)"
      "apply_batch_locked clk c batch fmax =
         Some (case res of Inl e \<Rightarrow> Inl e | Inr _ \<Rightarrow> Inr ins, c3, Some r)"
  | (unraised) ins c1 c2 where
      "conflicting_report c (batch_finalized_head batch) fmax = Some None"
      "push_loop clk 0 (batch_blocks batch) c = Some (Inr ins, c1)"
      "settle_max c1 fmax = Some (Inr (), c2)"
      "raises_max c2 (batch_finalized_head batch) fmax = Some False"
      "apply_batch_locked clk c batch fmax = Some (Inr ins, c2, fmax)"
proof -
  let ?rep = "batch_finalized_head batch"
  obtain conf where conf: "conflicting_report c ?rep fmax = Some conf"
    using conflicting_report_eq [OF inv] by blast
  show ?thesis
  proof (cases conf)
    case (Some e)
    then show ?thesis using conf by (intro conflict [of e]) (simp_all add: apply_batch_locked_def)
  next
    case None
    note conf = conf [unfolded None]
    obtain res c1 where push: "push_loop clk 0 (batch_blocks batch) c = Some (res, c1)" "chain_inv c1"
      using push_loop_total [OF inv] by metis
    show ?thesis
    proof (cases res)
      case (Inl e)
      then show ?thesis
        using conf push by (intro rejected [of e c1]) (simp_all add: apply_batch_locked_def)
    next
      case (Inr ins)
      obtain res2 c2 where set: "settle_max c1 fmax = Some (res2, c2)" "chain_inv c2" "isl res2 \<Longrightarrow> c2 = c1"
        using settle_max_total [OF push(2)] by metis
      show ?thesis
      proof (cases res2)
        case (Inl e)
        then show ?thesis using conf push set \<open>res = Inr ins\<close>
          by (intro unsettled [of ins c1 e]) (simp_all add: apply_batch_locked_def)
      next
        case (Inr u)
        obtain up where up: "raises_max c2 ?rep fmax = Some up"
          using raises_max_eq [OF set(2)] by blast
        show ?thesis
        proof (cases up)
          case False
          then show ?thesis using conf push set up \<open>res = Inr ins\<close> Inr
            by (intro unraised [of ins c1 c2]) (simp_all add: apply_batch_locked_def)
        next
          case True
          then obtain r where r: "?rep = Some r"
            using up raises_max_eq [OF set(2)] by (cases ?rep) auto
          obtain res3 c3 where "settle_max c2 (Some r) = Some (res3, c3)"
            using settle_max_total [OF set(2)] by metis
          then show ?thesis using conf push set up \<open>res = Inr ins\<close> Inr True r
            by (intro raised [of ins c1 c2 r res3 c3]) (simp_all add: apply_batch_locked_def)
        qed
      qed
    qed
  qed
qed

lemma apply_batch_total:
  assumes inv: "chain_inv c"
  obtains res c' fmax' where "apply_batch_locked clk c batch fmax = Some (res, c', fmax')"
    "chain_inv c'" "apply_rel c c'"
    "\<And>ins. res = Inr ins \<Longrightarrow> ascending index ins \<and>
       (\<forall>x \<in> set ins. index x < length (batch_blocks batch) \<and> at_ms x = clk (index x))"
  using inv
proof (cases rule: apply_batch_cases [where clk = clk and batch = batch and fmax = fmax])
  case (conflict e)
  then show ?thesis using that [OF conflict(2) inv] by simp
next
  case (rejected e c1)
  then show ?thesis
    using that [OF rejected(3)] push_loop_total [OF inv, of clk 0 "batch_blocks batch"]
    by (metis Inl_Inr_False option.inject prod.inject push_rel_apply)
next
  case (unsettled ins c1 e)
  then show ?thesis
    using that [OF unsettled(4)] push_loop_total [OF inv, of clk 0 "batch_blocks batch"]
    by (metis Inl_Inr_False option.inject prod.inject push_rel_apply)
next
  case (raised ins c1 c2 r res c3)
  have 1: "chain_inv c1" "apply_rel c c1"
    using push_loop_total [OF inv, of clk 0 "batch_blocks batch"] raised(2)
    by (metis option.inject prod.inject push_rel_apply)+
  have 2: "chain_inv c2" "apply_rel c c2"
    using settle_max_total [OF 1(1), of fmax] raised(3) 1(2) by (metis option.inject prod.inject)+
  have 3: "chain_inv c3" "apply_rel c c3"
    using settle_max_total [OF 2(1), of "Some r"] raised(6) 2(2) by (metis option.inject prod.inject)+
  show ?thesis
    using that [OF raised(7) 3] push_loop_indices [OF raised(2)] by (cases res) auto
next
  case (unraised ins c1 c2)
  have 1: "chain_inv c1" "apply_rel c c1"
    using push_loop_total [OF inv, of clk 0 "batch_blocks batch"] unraised(2)
    by (metis option.inject prod.inject push_rel_apply)+
  have 2: "chain_inv c2" "apply_rel c c2"
    using settle_max_total [OF 1(1), of fmax] unraised(3) 1(2) by (metis option.inject prod.inject)+
  show ?thesis
    using that [OF unraised(5) 2] push_loop_indices [OF unraised(2)] by auto
qed

subsection \<open>The lock scope of a batch\<close>

lemma upd_metrics_sel [simp]:
  "svc_chain (upd_metrics f s) = svc_chain s" "block_watch (upd_metrics f s) = block_watch s"
  "started (upd_metrics f s) = started s" "stopped (upd_metrics f s) = stopped s"
  "cancelled (upd_metrics f s) = cancelled s" "buffer_size (upd_metrics f s) = buffer_size s"
  "svc_auto_adjust (upd_metrics f s) = svc_auto_adjust s"
  "response_budget_ms (upd_metrics f s) = response_budget_ms s"
  "timestamp_cache (upd_metrics f s) = timestamp_cache s"
  "svc_metrics (upd_metrics f s) = f (svc_metrics s)"
  by (simp_all add: upd_metrics_def)

lemma publish_ingested_total:
  assumes "\<forall>x \<in> set ins. index x < length bs"
  shows "\<exists>s'. publish_ingested clk bs ins s = Some s' \<and> svc_chain s' = svc_chain s \<and>
    started s' = started s \<and> block_watch s' = block_watch s \<and> same_config s s'"
  using assms
proof (induction ins arbitrary: s)
  case Nil
  then show ?case by (simp add: same_config_def)
next
  case (Cons i ins)
  let ?s1 = "s\<lparr>timestamp_cache :=
      record_block_ingestion (fst (cache_at clk (index i))) (snd (cache_at clk (index i)))
        (number (bs ! index i)) (at_ms i) (timestamp_cache s)\<rparr>"
  let ?s2 = "case timestamp (bs ! index i) of
      None \<Rightarrow> ?s1 | Some ts \<Rightarrow> upd_metrics (observe_block_lag ts (at_ms i)) ?s1"
  have "publish_ingested clk bs (i # ins) s = publish_ingested clk bs ins ?s2"
    using Cons.prems by (simp add: vec_get_def Let_def)
  then show ?case
    using Cons.IH [of ?s2] Cons.prems by (cases "timestamp (bs ! index i)") (auto simp: same_config_def)
qed

lemmas level_setters =
  set_window_excess_def set_stored_blocks_def set_finalized_block_def set_last_block_timestamp_def
  set_last_block_def set_first_block_def

lemma trigger_update_total:
  assumes "chain_inv c"
  obtains s' where "trigger_update_locked now_ms c s = Some s'" "svc_chain s' = svc_chain s"
    "started s' = started s" "same_config s s'" "levels_match c s'"
proof -
  have "first_block_number c = Some (number (hd (blocks c)))"
    using chain_invD(1) [OF assms] by (simp add: first_block_number_def vec_get_def hd_conv_nth)
  then show ?thesis
    using chain_getters [OF assms]
    by (intro that [of "the (trigger_update_locked now_ms c s)"])
      (simp_all add: trigger_update_locked_def same_config_def levels_match_def level_setters
        window_excess_def chain_size_def)
qed

lemma keeps_levels_ops [simp]:
  "keeps_levels (track_processing_time d)" "keeps_levels record_integrity_violation"
  "keeps_levels record_terminal_state" "keeps_levels (record_session_restart x)"
  "keeps_levels (note_session_end k e)" "keeps_levels record_fork_rebase"
  "keeps_levels (observe_upstream_head now now_ms n)" "keeps_levels record_watermark_regression"
  "keeps_levels (\<lambda>m. snd (refresh_derived_levels now m))"
  by (simp_all add: keeps_levels_def track_processing_time_def record_integrity_violation_def
      record_terminal_state_def record_session_restart_def note_session_end_def
      record_fork_rebase_def observe_upstream_head_def record_watermark_regression_def
      refresh_derived_levels_def refresh_stall_alarm_def case_prod_beta Let_def)

lemma keeps_levels_comp: "keeps_levels f \<Longrightarrow> keeps_levels g \<Longrightarrow> keeps_levels (\<lambda>m. f (g m))"
  by (simp add: keeps_levels_def)

lemma levels_match_upd [simp]: "keeps_levels f \<Longrightarrow> levels_match c (upd_metrics f s) = levels_match c s"
  by (simp add: levels_match_def keeps_levels_def)

lemma svc_inv_upd [simp]: "keeps_levels f \<Longrightarrow> svc_inv (upd_metrics f s) = svc_inv s"
  by (simp add: svc_inv_def)

lemma finish_batch_total:
  assumes "chain_inv c" "undo c = None"
  obtains k c' s' where "compact c = Some (k, c')" "chain_inv c'" "undo c' = None"
    "max_size c' = max_size c" "auto_adjust_finalized_head c' = auto_adjust_finalized_head c"
    "finish_batch clk any c s ses =
       Some (s', if any then ses\<lparr>first_block_ingested := True\<rparr> else ses)"
    "svc_chain s' = Some c'" "levels_match c' s'" "same_config s s'"
    "started s' = (if any \<and> \<not> first_block_ingested ses then Inr () # started s else started s)"
proof -
  obtain k c' where k: "compact c = Some (k, c')" "chain_inv c'" "undo c' = None"
    "max_size c' = max_size c" "auto_adjust_finalized_head c' = auto_adjust_finalized_head c"
    by (rule compact_returns [OF assms])
  let ?s1 = "if any \<and> \<not> first_block_ingested ses then s\<lparr>started := Inr () # started s\<rparr> else s"
  let ?s2 = "case compaction.force_advanced_past k of
      None \<Rightarrow> ?s1 | Some past \<Rightarrow> upd_metrics (record_force_advance past) ?s1"
  obtain s' where s': "trigger_update_locked (update_ms clk) c' (?s2\<lparr>svc_chain := Some c'\<rparr>) = Some s'"
    "svc_chain s' = svc_chain (?s2\<lparr>svc_chain := Some c'\<rparr>)"
    "started s' = started (?s2\<lparr>svc_chain := Some c'\<rparr>)"
    "same_config (?s2\<lparr>svc_chain := Some c'\<rparr>) s'" "levels_match c' s'"
    by (rule trigger_update_total
        [OF k(2), where now_ms = "update_ms clk" and s = "?s2\<lparr>svc_chain := Some c'\<rparr>"])
  have head: "get_header c = Some (header_of (last (blocks c)))"
    using chain_getters [OF assms(1)] by (simp add: get_header_def)
  have again: "first_block_ingested ses \<Longrightarrow> ses\<lparr>first_block_ingested := True\<rparr> = ses"
    by (cases ses) simp
  have same: "same_config s ?s2" by (auto simp: same_config_def split: option.splits)
  have "finish_batch clk any c s ses =
       Some (s', if any then ses\<lparr>first_block_ingested := True\<rparr> else ses)"
    using s'(1) k(1) head again
    by (cases any; cases "first_block_ingested ses"; cases "compaction.force_advanced_past k")
      (simp_all add: finish_batch_def Let_def)
  moreover have "same_config s s'" using same s'(4) by (simp add: same_config_def)
  moreover have "started s' = (if any \<and> \<not> first_block_ingested ses then Inr () # started s else started s)"
    using s'(3) by (auto split: option.splits)
  ultimately show ?thesis using k s'(2,5) by (intro that [of k c' s']) simp_all
qed

lemma same_config_trans: "same_config s s1 \<Longrightarrow> same_config s1 s2 \<Longrightarrow> same_config s s2"
  by (simp add: same_config_def)

lemma ingest_batch_cases [consumes 2, case_names rejected committed]:
  assumes inv: "svc_inv s" and c: "svc_chain s = Some c"
  obtains (rejected) e c1 fmax where
      "apply_batch_locked (block_ms clk) (begin_batch c) batch (finalized_max ses) =
         Some (Inl e, c1, fmax)"
      "ingest_batch clk batch s ses =
         Some (Inl e, upd_metrics record_integrity_violation s, ses\<lparr>finalized_max := fmax\<rparr>)"
  | (committed) ins c1 fmax k c2 s' where
      "apply_batch_locked (block_ms clk) (begin_batch c) batch (finalized_max ses) =
         Some (Inr ins, c1, fmax)"
      "chain_inv c1" "apply_rel (begin_batch c) c1"
      "compact (commit_batch c1) = Some (k, c2)"
      "ingest_batch clk batch s ses = Some (Inr (), s',
         \<lparr>first_block_ingested = first_block_ingested ses \<or> ins \<noteq> [], finalized_max = fmax\<rparr>)"
      "svc_chain s' = Some c2" "svc_inv s'" "same_config s s'"
      "started s' = (if ins \<noteq> [] \<and> \<not> first_block_ingested ses then Inr () # started s else started s)"
proof -
  have cinv: "chain_inv c" "undo c = None" "max_size c = buffer_size s"
    "auto_adjust_finalized_head c = svc_auto_adjust s" "buffer_size s > 0"
    using inv c by (auto simp: svc_inv_def)
  note open_batch = begin_batch_open [OF cinv(1)]
  obtain res c1 fmax where app:
    "apply_batch_locked (block_ms clk) (begin_batch c) batch (finalized_max ses) = Some (res, c1, fmax)"
    "chain_inv c1" "apply_rel (begin_batch c) c1"
    "\<And>ins. res = Inr ins \<Longrightarrow> \<forall>x \<in> set ins. index x < length (batch_blocks batch)"
    using apply_batch_total [OF open_batch(1)] by metis
  show ?thesis
  proof (cases res)
    case (Inl e)
    have "rollback_batch c1 = c"
      using rollback_batch_restores [of c c1] app(3) open_batch(2) cinv(2) by (simp add: apply_rel_def)
    then have "ingest_batch clk batch s ses =
         Some (Inl e, upd_metrics record_integrity_violation s, ses\<lparr>finalized_max := fmax\<rparr>)"
      using app(1) Inl c by (simp add: ingest_batch_def Let_def)
    then show ?thesis using app(1) Inl by (intro rejected) simp_all
  next
    case (Inr ins)
    let ?s0 = "case vec_last (batch_blocks batch) of
        None \<Rightarrow> s
      | Some l \<Rightarrow> upd_metrics (observe_upstream_progress (progress_at clk) (number l)) s"
    have s0: "same_config s ?s0" "started ?s0 = started s"
      by (auto simp: same_config_def split: option.splits)
    obtain s1 where s1: "publish_ingested clk (batch_blocks batch) ins ?s0 = Some s1"
      "started s1 = started ?s0" "same_config ?s0 s1"
      using publish_ingested_total [OF app(4) [OF Inr], of clk ?s0] by blast
    let ?s2 = "upd_metrics (record_commit (commit_at clk) (commit_ms clk)) s1"
    let ?ses = "ses\<lparr>finalized_max := fmax\<rparr>"
    have com: "chain_inv (commit_batch c1)" "undo (commit_batch c1) = None"
      using commit_batch_inv [OF app(2)] by (simp_all add: commit_batch_def)
    obtain k c2 s3 where f: "compact (commit_batch c1) = Some (k, c2)" "chain_inv c2" "undo c2 = None"
      "max_size c2 = max_size (commit_batch c1)"
      "auto_adjust_finalized_head c2 = auto_adjust_finalized_head (commit_batch c1)"
      "finish_batch clk (ins \<noteq> []) (commit_batch c1) ?s2 ?ses =
         Some (s3, if ins \<noteq> [] then ?ses\<lparr>first_block_ingested := True\<rparr> else ?ses)"
      "svc_chain s3 = Some c2" "levels_match c2 s3" "same_config ?s2 s3"
      "started s3 = (if ins \<noteq> [] \<and> \<not> first_block_ingested ?ses then Inr () # started ?s2
         else started ?s2)"
      by (rule finish_batch_total
          [OF com, where clk = clk and any = "ins \<noteq> []" and s = ?s2 and ses = ?ses])
    let ?s4 = "upd_metrics (track_processing_time (spent clk)) s3"
    have cfg: "same_config s ?s4"
      using s0(1) s1(3) f(9) by (simp add: same_config_def)
    have st: "started ?s4 =
        (if ins \<noteq> [] \<and> \<not> first_block_ingested ses then Inr () # started s else started s)"
      using f(10) s0(2) s1(2) by simp
    have run: "ingest_batch clk batch s ses = Some (Inr (), ?s4,
         \<lparr>first_block_ingested = first_block_ingested ses \<or> ins \<noteq> [], finalized_max = fmax\<rparr>)"
      using app(1) Inr c s1(1) f(6) by (cases ses) (simp add: ingest_batch_def publish_batch_def Let_def)
    have "max_size c2 = buffer_size s3" "auto_adjust_finalized_head c2 = svc_auto_adjust s3"
      "buffer_size s3 > 0"
      using f(4,5) app(3) cinv(3-5) cfg
      by (simp_all add: apply_rel_def commit_batch_def begin_batch_def same_config_def)
    then have "svc_inv ?s4" using f(2,3,7,8) by (simp add: svc_inv_def)
    then show ?thesis
      using f(7) by (intro committed [OF app(1) [unfolded Inr] app(2,3) f(1) run _ _ cfg st]) simp_all
  qed
qed

subsection \<open>What validation accepts\<close>

lemma validate_blocks_iff:
  "validate_blocks bs = Inr () \<longleftrightarrow> (\<forall>b \<in> set bs. hash_ok (hash b) \<and> hash_ok (parent_hash b))"
proof (induction bs)
  case (Cons b bs)
  then show ?case by (cases "validate_block b") (auto simp: validate_block_def hash_ok_def split: if_splits)
qed simp

lemma validate_pairs_iff: "validate_pairs (windows2 bs) = Inr () \<longleftrightarrow> linked_chain bs"
  by (induction bs rule: windows2.induct) (auto simp: not_le)

lemma validate_report_iff:
  "validate_report report = Inr () \<longleftrightarrow> (\<forall>r. report = Some r \<longrightarrow> hash_ok (ref_hash r))"
  by (cases report) (auto simp: validate_report_def hash_ok_def)

lemma validate_ingest_batch_iff: "validate_ingest_batch batch = Inr () \<longleftrightarrow> batch_ok batch"
  using validate_blocks_iff [of "batch_blocks batch"] validate_pairs_iff [of "batch_blocks batch"]
    validate_report_iff [of "batch_finalized_head batch"]
  by (auto simp: validate_ingest_batch_def batch_ok_def split: sum.splits)

lemma validate_ingest_batch_cases:
  obtains (ok) "validate_ingest_batch batch = Inr ()" "batch_ok batch"
  | (bad) e where "validate_ingest_batch batch = Inl (Other e)" "\<not> batch_ok batch"
proof (cases "validate_ingest_batch batch")
  case (Inl e)
  moreover obtain f where "e = Other f"
    using Inl by (auto simp: validate_ingest_batch_def split: sum.splits if_splits)
  ultimately show ?thesis using bad validate_ingest_batch_iff [of batch] by simp
next
  case (Inr u)
  then show ?thesis using ok validate_ingest_batch_iff [of batch] by simp
qed

subsection \<open>Finality across a batch\<close>

lemma apply_rel_finality:
  assumes "chain_inv c" "chain_inv c1" "apply_rel c c1"
  shows "finality_kept c c1"
proof -
  let ?f = "finalized_head c"
  note inv = chain_invD [OF assms(1)] and inv1 = chain_invD [OF assms(2)]
  have rel: "?f \<le> finalized_head c1" "take (Suc ?f) (blocks c1) = take (Suc ?f) (blocks c)"
    using assms(3) by (simp_all add: apply_rel_def)
  have len: "?f < length (blocks c1)" using rel(1) inv1(4) by simp
  have at: "blocks c1 ! j = blocks c ! j" if "j \<le> ?f" for j
    using arg_cong [OF rel(2), of "\<lambda>xs. xs ! j"] that by simp
  have "fin_number c \<le> fin_number c1"
    using at [of ?f] ascending_nth_le [OF inv1(3) rel(1) inv1(4)] by (simp add: fin_number_def)
  moreover have "b \<in> set (blocks c)" if b: "b \<in> set (blocks c1)" "number b \<le> fin_number c" for b
  proof -
    obtain j where j: "j < length (blocks c1)" "b = blocks c1 ! j" using b(1) by (auto simp: in_set_conv_nth)
    then have "j \<le> ?f"
      using b(2) at [of ?f] ascending_nth_less [OF inv1(3), of ?f j] unfolding fin_number_def
      by (metis leD leI order_refl)
    then show ?thesis using j at inv(4) by (metis le_less_trans nth_mem)
  qed
  ultimately show ?thesis by (simp add: finality_kept_def)
qed

lemma compact_finality:
  assumes "chain_inv c" "compact c = Some (k, c')"
  shows "fin_number c \<le> fin_number c'" "set (blocks c') \<subseteq> set (blocks c)"
    "\<not> auto_adjust_finalized_head c \<Longrightarrow> blocks c' ! finalized_head c' = blocks c ! finalized_head c"
proof -
  have c': "blocks c' = drop (trim_of c) (blocks c)" "finalized_head c' = finalized_head c - trim_of c"
    using compact_eq [OF assms(1)] assms(2) by auto
  note inv = chain_invD [OF assms(1)] and le = trim_of_le [OF assms(1)]
  have at: "blocks c' ! finalized_head c' = blocks c ! max (trim_of c) (finalized_head c)"
    using c' le inv(4) by (simp add: max_def)
  show "fin_number c \<le> fin_number c'"
    using at ascending_nth_le [OF inv(3), of "finalized_head c" "max (trim_of c) (finalized_head c)"] le inv(4)
    by (simp add: fin_number_def)
  show "set (blocks c') \<subseteq> set (blocks c)" using c'(1) by (simp add: set_drop_subset)
  assume "\<not> auto_adjust_finalized_head c"
  then have "trim_of c \<le> finalized_head c" by (simp add: trim_of_def Let_def)
  then show "blocks c' ! finalized_head c' = blocks c ! finalized_head c" using at by (simp add: max_absorb2)
qed

lemma finality_kept_refl [simp]: "finality_kept c c"
  by (simp add: finality_kept_def)

lemma ingest_batch_finality:
  assumes "svc_inv s" "svc_chain s = Some c" "ingest_batch clk batch s ses = Some (res, s', ses')"
    "svc_chain s' = Some c'"
  shows "finality_kept c c'"
  using assms(1,2)
proof (cases rule: ingest_batch_cases [where clk = clk and batch = batch and ses = ses])
  case (rejected e c1 fmax)
  then show ?thesis using assms by simp
next
  case (committed ins c1 fmax k c2 s2)
  have cinv: "chain_inv c" using assms(1,2) by (simp add: svc_inv_def)
  have "finality_kept (begin_batch c) c1"
    using apply_rel_finality [OF begin_batch_open(1) [OF cinv] committed(2,3)] .
  then have 1: "finality_kept c (commit_batch c1)"
    by (simp add: finality_kept_def fin_number_def begin_batch_def commit_batch_def)
  have "c' = c2" using assms(3,4) committed(5,6) by simp
  then show ?thesis
    using 1 compact_finality(1,2) [OF commit_batch_inv [OF committed(2)] committed(4)]
    by (auto simp: finality_kept_def)
qed

end
