(* ===== verification/Service_Run.thy ===== *)
theory Service_Run
  imports Service_Batch
begin

text \<open>
  Seeding, sessions and the restart ladder: \<open>run_inv\<close> is kept by every step of a run, for every input
  of the source, the clocks and the callers, and no step panics (the interpretation \<open>run\<close> of
  \<open>total_op\<close>).
\<close>

subsection \<open>Vocabulary\<close>

definition reseeds :: "service \<Rightarrow> block \<Rightarrow> bool" where
  "reseeds s seed \<longleftrightarrow>
     (\<forall>prev held. svc_chain s = Some prev \<longrightarrow> block_at prev (number seed) = Some held \<longrightarrow>
        \<not> seed_contradicts held seed)"

definition held_base :: "service \<Rightarrow> block_ref \<Rightarrow> bool" where
  "held_base s r \<longleftrightarrow>
     (\<exists>c i. svc_chain s = Some c \<and> finalized_head c \<le> i \<and> i < length (blocks c) \<and>
        r = block_ref_of (blocks c ! i))"

text \<open>The startup channel: nothing is sent before the first block or a fatal end, then one verdict.\<close>

definition startup_inv :: "run_state \<Rightarrow> bool" where
  "startup_inv r \<longleftrightarrow>
     (if first_block_ingested (rs_session r) then started (rs_service r) = [Inr ()]
      else started (rs_service r) =
        (case rs_pc r of
           Ended (StartupFailure e) \<Rightarrow> [Inl ()]
         | Ended (RunTerminal (RollbackBehindFinalizedHead f p)) \<Rightarrow> [Inl ()]
         | _ \<Rightarrow> []))"

definition run_inv :: "run_state \<Rightarrow> bool" where
  "run_inv r \<longleftrightarrow>
     svc_inv (rs_service r) \<and> rs_stacked r \<ge> 0 \<and> startup_inv r \<and>
     (rs_stacked r > 0 \<longrightarrow> first_block_ingested (rs_session r)) \<and>
     (rs_pc r = AtTop \<longrightarrow> held_base (rs_service r) (rs_base r)) \<and>
     (\<forall>prev. rs_pc r = AtVerdict (Inl (Fork prev)) \<longrightarrow> prev \<noteq> []) \<and>
     (\<forall>e. rs_pc r = Ended (StartupFailure e) \<longrightarrow> \<not> first_block_ingested (rs_session r))"

text \<open>What no step undoes: the end of the run and the first committed block.\<close>

definition run_rel :: "run_state \<Rightarrow> run_state \<Rightarrow> bool" where
  "run_rel r r' \<longleftrightarrow>
     (\<forall>e. rs_pc r = Ended e \<longrightarrow> rs_pc r' = Ended e) \<and>
     (first_block_ingested (rs_session r) \<longrightarrow> first_block_ingested (rs_session r'))"

text \<open>One session that delivers nothing and fails: top of the loop, the failure, its verdict.\<close>

definition fruitless :: "run_input \<Rightarrow> batch_clock \<Rightarrow> fault \<Rightarrow> run_input list" where
  "fruitless go clk e = [go, Go 0 (Inl e) None clk (StreamItem (Inl (Other e))), go]"

subsection \<open>Seeding\<close>

lemma chain_new_inv:
  assumes "m > 0" "parent_number seed \<le> number seed"
  shows "chain_new seed m auto = Some \<lparr>blocks = [seed], finalized_head = 0, max_size = m,
      auto_adjust_finalized_head = auto, undo = None\<rparr>"
    and "chain_inv \<lparr>blocks = [seed], finalized_head = 0, max_size = m,
      auto_adjust_finalized_head = auto, undo = None\<rparr>"
  using assms by (simp_all add: chain_new_def chain_inv_def window_inv_def undo_inv_def)

lemma install_seed_total:
  assumes "buffer_size s > 0" "parent_number seed \<le> number seed"
  obtains s' where "install_seed now_ms seed s = Some s'" "svc_inv s'"
    "svc_chain s' = chain_new seed (buffer_size s) (svc_auto_adjust s)"
    "started s' = started s" "same_config s s'"
proof -
  note new = chain_new_inv [OF assms, of "svc_auto_adjust s"]
  obtain c where c: "chain_new seed (buffer_size s) (svc_auto_adjust s) = Some c" "chain_inv c"
    "undo c = None" "max_size c = buffer_size s" "auto_adjust_finalized_head c = svc_auto_adjust s"
    using new by simp
  obtain s' where s': "trigger_update_locked now_ms c (s\<lparr>svc_chain := Some c\<rparr>) = Some s'"
    "svc_chain s' = Some c" "started s' = started s" "same_config s s'" "levels_match c s'"
    using trigger_update_total [OF c(2), of now_ms "s\<lparr>svc_chain := Some c\<rparr>"]
    by (simp add: same_config_def) metis
  have "svc_inv s'" using s' c assms(1) by (simp add: svc_inv_def same_config_def)
  then show ?thesis using s' c by (intro that [of s']) (simp_all add: install_seed_def)
qed

lemma replace_chain_cases:
  assumes "svc_inv s \<or> svc_chain s = None" "buffer_size s > 0" "parent_number seed \<le> number seed"
  obtains (divergent) d where "\<not> reseeds s seed" "dr_seed d = block_ref_of seed"
      "replace_chain now_ms seed s = Some (Inl (DivergentReseedFault d), s)"
  | (seeded) s' where "reseeds s seed" "replace_chain now_ms seed s = Some (Inr (), s')" "svc_inv s'"
      "svc_chain s' = chain_new seed (buffer_size s) (svc_auto_adjust s)"
      "started s' = started s" "same_config s s'"
proof (cases "svc_chain s")
  case None
  obtain s' where "install_seed now_ms seed s = Some s'" "svc_inv s'"
    "svc_chain s' = chain_new seed (buffer_size s) (svc_auto_adjust s)"
    "started s' = started s" "same_config s s'"
    using install_seed_total [OF assms(2,3)] by metis
  then show ?thesis using None by (intro seeded [of s']) (simp_all add: replace_chain_def reseeds_def)
next
  case (Some prev)
  then have fin: "\<exists>f. get_finalized_head prev = Some f"
    using assms(1) by (auto simp: svc_inv_def get_finalized_head_eq)
  then obtain f where f: "get_finalized_head prev = Some f" ..
  let ?s0 = "if number seed < ref_number f then upd_metrics record_watermark_regression s else s"
  have s0: "buffer_size ?s0 = buffer_size s" "svc_auto_adjust ?s0 = svc_auto_adjust s"
    "started ?s0 = started s" "same_config s ?s0"
    by (simp_all add: same_config_def)
  have "buffer_size ?s0 > 0" using s0(1) assms(2) by simp
  then obtain s' where s': "install_seed now_ms seed ?s0 = Some s'" "svc_inv s'"
    "svc_chain s' = chain_new seed (buffer_size ?s0) (svc_auto_adjust ?s0)"
    "started s' = started ?s0" "same_config ?s0 s'"
    using install_seed_total [OF _ assms(3)] by metis
  show ?thesis
  proof (cases "reseeds s seed")
    case True
    then have "replace_chain now_ms seed s = Some (Inr (), s')"
      using Some f s'(1) by (auto simp: replace_chain_def reseeds_def split: option.splits)
    then show ?thesis
      using True s'(2-5) s0 same_config_trans [OF s0(4) s'(5)] by (intro seeded [of s']) simp_all
  next
    case False
    then obtain held where "block_at prev (number seed) = Some held" "seed_contradicts held seed"
      using Some by (auto simp: reseeds_def)
    then show ?thesis
      using Some False by (intro divergent) (simp_all add: replace_chain_def)
  qed
qed

lemma init_service_cases [consumes 1, case_names failed divergent seeded]:
  assumes "svc_inv s \<or> svc_chain s = None"
  obtains (failed) e where "init_service now_ms head item s = Some (Inl e, s)"
      "\<And>d. e = DivergentReseedFault d \<Longrightarrow> head = Inl e"
  | (divergent) seed report d where "head = Inr (block_ref_of seed)"
      "item = Some (Inr \<lparr>batch_blocks = [seed], batch_finalized_head = report\<rparr>)"
      "\<not> reseeds s seed"
      "init_service now_ms head item s = Some (Inl (DivergentReseedFault d), s)"
  | (seeded) seed report s' where "buffer_size s > 0" "head = Inr (block_ref_of seed)"
      "item = Some (Inr \<lparr>batch_blocks = [seed], batch_finalized_head = report\<rparr>)"
      "batch_ok \<lparr>batch_blocks = [seed], batch_finalized_head = report\<rparr>"
      "parent_number seed \<le> number seed" "reseeds s seed"
      "init_service now_ms head item s = Some (Inr (), s')" "svc_inv s'"
      "svc_chain s' = chain_new seed (buffer_size s) (svc_auto_adjust s)"
      "started s' = started s" "same_config s s'"
proof -
  show ?thesis
  proof (cases "buffer_size s > 0 \<and> (\<exists>h. head = Inr h \<and> hash_ok (ref_hash h) \<and>
      (\<exists>seed report. item = Some (Inr \<lparr>batch_blocks = [seed], batch_finalized_head = report\<rparr>) \<and>
        batch_ok \<lparr>batch_blocks = [seed], batch_finalized_head = report\<rparr> \<and>
        parent_number seed \<le> number seed \<and> h = block_ref_of seed))")
    case True
    then obtain seed report where x: "buffer_size s > 0" "head = Inr (block_ref_of seed)"
      "hash_ok (hash seed)"
      "item = Some (Inr \<lparr>batch_blocks = [seed], batch_finalized_head = report\<rparr>)"
      "batch_ok \<lparr>batch_blocks = [seed], batch_finalized_head = report\<rparr>"
      "parent_number seed \<le> number seed" by auto
    have "init_service now_ms head item s = replace_chain now_ms seed s"
      using x validate_ingest_batch_iff [of "\<lparr>batch_blocks = [seed], batch_finalized_head = report\<rparr>"]
        leD [OF x(6)]
      by (simp add: init_service_def hash_ok_def vec_get_def)
    then show ?thesis
      using replace_chain_cases [OF assms x(1,6), of now_ms] divergent seeded x by metis
  next
    case False
    have "\<exists>e. init_service now_ms head item s = Some (Inl e, s) \<and>
        (\<forall>d. e = DivergentReseedFault d \<longrightarrow> head = Inl e)"
    proof (rule ccontr)
      assume no: "\<not> ?thesis"
      from no have b: "buffer_size s > 0"
        by (cases "buffer_size s = 0") (auto simp: init_service_def)
      from no b obtain h where h: "head = Inr h" by (cases head) (auto simp: init_service_def)
      from no b h have hok: "hash_ok (ref_hash h)"
        by (auto simp: init_service_def hash_ok_def split: if_splits)
      from no b h hok obtain batch where item: "item = Some (Inr batch)"
        by (cases item; cases "the item") (auto simp: init_service_def hash_ok_def)
      from no b h hok item have len: "length (batch_blocks batch) = 1"
        by (auto simp: init_service_def hash_ok_def split: if_splits)
      then obtain seed where seed: "batch_blocks batch = [seed]"
        by (auto simp: length_Suc_conv)
      obtain report where batch: "batch = \<lparr>batch_blocks = [seed], batch_finalized_head = report\<rparr>"
        using seed by (cases batch) auto
      have ok: "validate_ingest_batch batch = Inr ()"
        using no b h hok item seed
        by (cases rule: validate_ingest_batch_cases [of batch]) (auto simp: init_service_def hash_ok_def)
      have "\<not> parent_number seed > number seed" "number seed = ref_number h \<and> hash seed = ref_hash h"
        using no b h hok item seed ok
        by (auto simp: init_service_def hash_ok_def vec_get_def split: if_splits)
      then have "parent_number seed \<le> number seed" "h = block_ref_of seed"
        by (auto intro: block_ref_eqI)
      then show False
        using False b h hok item batch ok validate_ingest_batch_iff [of batch] by metis
    qed
    then show ?thesis using failed by blast
  qed
qed

subsection \<open>The run\<close>

lemma service_head_eq:
  assumes "svc_inv s" "svc_chain s = Some c"
  shows "service_head s = Some (block_ref_of (last (blocks c)))"
  using assms chain_getters(2) [of c] by (auto simp: service_head_def get_head_def svc_inv_def)

lemma held_base_last:
  assumes "svc_inv s" "svc_chain s = Some c"
  shows "held_base s (block_ref_of (last (blocks c)))"
  using assms chain_invD(1,4) [of c]
  by (auto simp: held_base_def svc_inv_def last_conv_nth intro!: exI [of _ "length (blocks c) - 1"])

lemma push_loop_error: "push_loop clk i bs c = Some (Inl e, c') \<Longrightarrow> \<exists>f. e = Other f"
  by (induction bs arbitrary: i c) (auto split: sum.splits bind_splits if_splits)

lemma settle_max_error: "settle_max c fmax = Some (Inl e, c') \<Longrightarrow> \<exists>f. e = Other f"
  by (auto simp: settle_max_def settle_obligation_def split: option.splits sum.splits bool.splits bind_splits)

lemma apply_batch_error:
  assumes "chain_inv c" "apply_batch_locked clk c batch fmax = Some (Inl e, c', fmax')"
  shows "\<exists>f. e = Other f"
  using assms(1)
proof (cases rule: apply_batch_cases [where clk = clk and batch = batch and fmax = fmax])
  case (raised ins c1 c2 r res c3)
  then show ?thesis using assms(2) settle_max_error [of c2 "Some r"] by (cases res) auto
qed (use assms(2) push_loop_error settle_max_error in fastforce)+

lemma ingest_item_total:
  assumes inv: "svc_inv s"
  obtains st s' ses' where "ingest_item clk ev s ses = Some (st, s', ses')" "svc_inv s'"
    "first_block_ingested ses \<Longrightarrow> first_block_ingested ses'"
    "started s' = (if first_block_ingested ses' \<and> \<not> first_block_ingested ses
       then Inr () # started s else started s)"
    "\<And>prev. st = SessionEnds (Inl (Fork prev)) \<Longrightarrow> prev \<noteq> []"
    "\<And>c c'. svc_chain s = Some c \<Longrightarrow> svc_chain s' = Some c' \<Longrightarrow> finality_kept c c'"
proof (cases "\<exists>batch. ev = StreamItem (Inr batch) \<and> \<not> stopped s \<and> batch_ok batch")
  case True
  then obtain batch where ev: "ev = StreamItem (Inr batch)" "\<not> stopped s" "batch_ok batch" by blast
  obtain c where c: "svc_chain s = Some c" "chain_inv c" using inv by (auto simp: svc_inv_def)
  have v: "validate_ingest_batch batch = Inr ()" using ev(3) validate_ingest_batch_iff by simp
  show ?thesis
    using inv c(1)
  proof (cases rule: ingest_batch_cases [where clk = clk and batch = batch and ses = ses])
    case (rejected e c1 fmax)
    obtain f where "e = Other f"
      using apply_batch_error [OF begin_batch_open(1) [OF c(2)] rejected(1)] ..
    then show ?thesis
      using ev v rejected(2) inv
      by (intro that [of "SessionEnds (Inl e)" "upd_metrics record_integrity_violation s"
            "ses\<lparr>finalized_max := fmax\<rparr>"]) (auto simp: ingest_item_def)
  next
    case (committed ins c1 fmax k c2 s2)
    then show ?thesis
      using ev v ingest_batch_finality [OF inv c(1) committed(5)]
      by (intro that [of Continue s2
            "\<lparr>first_block_ingested = first_block_ingested ses \<or> ins \<noteq> [], finalized_max = fmax\<rparr>"])
        (auto simp: ingest_item_def c)
  qed
next
  case False
  show ?thesis
  proof (cases ev)
    case CancelFired
    then show ?thesis using inv
      by (intro that [of "SessionEnds (Inr ())" "s\<lparr>cancelled := True\<rparr>" ses])
        (auto simp: ingest_item_def svc_inv_def levels_match_def)
  next
    case StreamEnded
    then show ?thesis using inv by (intro that [of _ s ses]) (auto simp: ingest_item_def)
  next
    case (StreamItem x)
    have "\<exists>res. ingest_item clk ev s ses = Some (SessionEnds res, s, ses) \<and>
        (\<forall>prev. res = Inl (Fork prev) \<longrightarrow> prev \<noteq> [])"
    proof (cases x)
      case (Inl e)
      then show ?thesis using StreamItem by (cases e) (auto simp: ingest_item_def)
    next
      case (Inr batch)
      then show ?thesis using StreamItem False
        by (cases rule: validate_ingest_batch_cases [of batch]) (auto simp: ingest_item_def)
    qed
    then show ?thesis using inv by (elim exE conjE) (rule that, auto)
  qed
qed

lemma run_top_total:
  assumes inv: "run_inv r" and pc: "rs_pc r = AtTop"
  obtains r' where "run_top now_ms head item r = Some r'" "run_inv r'"
proof (cases "stop_requested (rs_service r) \<or> rs_stacked r \<le> 5")
  case True
  then show ?thesis
  proof (cases "stop_requested (rs_service r)")
    case stop: True
    then show ?thesis
      using that [of "r\<lparr>rs_pc := Ended Stopped\<rparr>"] inv pc
      by (auto simp: run_top_def run_inv_def startup_inv_def)
  next
    case False
    then show ?thesis
      using that [of "r\<lparr>rs_pc := InSession\<rparr>"] inv pc True
      by (auto simp: run_top_def run_inv_def startup_inv_def)
  qed
next
  case False
  then have first: "first_block_ingested (rs_session r)" and go: "\<not> stop_requested (rs_service r)"
    "5 < rs_stacked r" and sinv: "svc_inv (rs_service r)"
    using inv by (auto simp: run_inv_def)
  have started: "started (rs_service r) = [Inr ()]"
    using inv first by (simp add: run_inv_def startup_inv_def)
  let ?r1 = "r\<lparr>rs_session := (rs_session r)\<lparr>finalized_max := None\<rparr>\<rparr>"
  have "svc_inv (rs_service r) \<or> svc_chain (rs_service r) = None" using sinv by simp
  then show ?thesis
  proof (cases rule: init_service_cases [where now_ms = now_ms and head = head and item = item])
    case (failed e)
    show ?thesis
    proof (cases "\<exists>d. e = DivergentReseedFault d")
      case True
      then obtain d where "e = DivergentReseedFault d" ..
      then show ?thesis
        using go failed(1) sinv started first False inv
        by (intro that [of "?r1\<lparr>rs_pc := Ended (RunTerminal e),
              rs_service := upd_metrics record_terminal_state (rs_service r)\<rparr>"])
          (simp_all add: run_top_def run_inv_def startup_inv_def)
    next
      case no: False
      then have run: "run_top now_ms head item r =
          Some (?r1\<lparr>rs_pc := AtVerdict (Inl (Other e)), rs_service := rs_service r\<rparr>)"
        using go failed(1) by (cases e) (simp_all add: run_top_def)
      show ?thesis
        using sinv started first False inv
        by (intro that [OF run]) (simp add: run_inv_def startup_inv_def)
    qed
  next
    case (divergent seed report d)
    then show ?thesis
      using go sinv started first False inv
      by (intro that [of "?r1\<lparr>rs_pc := Ended (RunTerminal (DivergentReseedFault d)),
            rs_service := upd_metrics record_terminal_state (rs_service r)\<rparr>"])
        (simp_all add: run_top_def run_inv_def startup_inv_def)
  next
    case (seeded seed report s')
    let ?s2 = "upd_metrics (record_session_restart RestartReset) s'"
    obtain c where c: "svc_chain ?s2 = Some c" "svc_inv ?s2" using seeded(8) by (auto simp: svc_inv_def)
    have h: "service_head ?s2 = Some (block_ref_of (last (blocks c)))"
      using service_head_eq [OF c(2,1)] .
    show ?thesis
      using go seeded(7,10) c h sinv started first False inv
      by (intro that [of "?r1\<lparr>rs_pc := InSession, rs_base := block_ref_of (last (blocks c)),
            rs_service := ?s2\<rparr>"])
        (simp_all add: run_top_def run_inv_def startup_inv_def)
  qed
qed

lemma run_restart_total:
  assumes "run_inv r" "first_block_ingested (rs_session r)"
  obtains r' where "run_restart msg r = Some r'" "run_inv r'"
proof -
  have sinv: "svc_inv (rs_service r)" and st: "started (rs_service r) = [Inr ()]" and k: "rs_stacked r \<ge> 0"
    using assms by (auto simp: run_inv_def startup_inv_def)
  let ?s1 = "upd_metrics (record_session_restart RestartError) (rs_service r)"
  obtain c where c: "svc_chain ?s1 = Some c" "svc_inv ?s1" using sinv by (auto simp: svc_inv_def)
  have "held_base (upd_metrics g ?s1) (block_ref_of (last (blocks c)))" if "keeps_levels g" for g
    using that held_base_last [of "upd_metrics g ?s1" c] c by simp
  then show ?thesis
    using service_head_eq [OF c(2,1)] assms(2) c k st
    by (intro that [of "the (run_restart msg r)"])
      (simp_all add: run_restart_def Let_def run_inv_def startup_inv_def)
qed

lemma run_inv_session:
  "run_inv r \<Longrightarrow> run_inv (r\<lparr>rs_session := (rs_session r)\<lparr>finalized_max := x\<rparr>\<rparr>)"
  by (simp add: run_inv_def startup_inv_def)

lemma run_startup_failure:
  assumes "run_inv r" "\<not> first_block_ingested (rs_session r)" "rs_pc r = AtVerdict v"
  shows "run_inv ((send_startup_failure (r\<lparr>rs_session := (rs_session r)\<lparr>finalized_max := x\<rparr>\<rparr>))
      \<lparr>rs_pc := Ended (StartupFailure e)\<rparr>)"
  using assms
  by (simp add: run_inv_def startup_inv_def send_startup_failure_def svc_inv_def levels_match_def)

lemma run_verdict_total:
  assumes inv: "run_inv r" and pc: "rs_pc r = AtVerdict result"
  obtains r' where "run_verdict display result r = Some r'" "run_inv r'"
proof (cases "stop_requested (rs_service r)")
  case True
  then show ?thesis
    using inv pc by (intro that [of "r\<lparr>rs_pc := Ended Stopped\<rparr>"])
      (simp_all add: run_verdict_def run_inv_def startup_inv_def)
next
  case go: False
  note result_is = that
  let ?r1 = "r\<lparr>rs_session := (rs_session r)\<lparr>finalized_max := None\<rparr>\<rparr>"
  have plain: ?thesis
    if run: "run_verdict display result r =
        (if \<not> first_block_ingested (rs_session ?r1)
         then Some ((send_startup_failure ?r1)\<lparr>rs_pc := Ended (StartupFailure e)\<rparr>)
         else run_restart msg ?r1)" for e msg
  proof (cases "first_block_ingested (rs_session r)")
    case True
    then obtain r' where "run_restart msg ?r1 = Some r'" "run_inv r'"
      using run_restart_total [OF run_inv_session [OF inv], of None msg] by auto
    then show ?thesis using run True by (intro result_is [of r']) simp_all
  next
    case False
    then show ?thesis
      using run run_startup_failure [OF inv False pc, where x = None and e = e]
      by (intro result_is [of "(send_startup_failure ?r1)\<lparr>rs_pc := Ended (StartupFailure e)\<rparr>"])
        simp_all
  qed
  show ?thesis
  proof (cases result)
    case (Inr u)
    then show ?thesis using go by (intro plain) (simp add: run_verdict_def Let_def)
  next
    case (Inl err)
    show ?thesis
    proof (cases err)
      case (Other e)
      then show ?thesis using go Inl by (intro plain) (simp add: run_verdict_def Let_def)
    next
      case (Fork prev)
      obtain c where c: "svc_chain (rs_service r) = Some c" "chain_inv c" "svc_inv (rs_service r)"
        using inv by (auto simp: run_inv_def svc_inv_def)
      obtain fb where fb: "get_fork_base c prev = Some fb"
        "\<And>x. fb = Some x \<Longrightarrow> \<exists>i. finalized_head c \<le> i \<and> i < length (blocks c) \<and> x = block_ref_of (blocks c ! i)"
        using fork_walk_returns [of "int (length (blocks c)) - 1" "blocks c" "finalized_head c"
            "fst (vec_pop prev)" "snd (vec_pop prev)"]
        by (auto simp: get_fork_base_def case_prod_beta)
      show ?thesis
      proof (cases fb)
        case (Some b)
        let ?g = "\<lambda>m. note_session_end 0 None (record_fork_rebase (record_session_restart RestartFork m))"
        have g: "keeps_levels ?g" 
          by (rule keeps_levels_comp [of "note_session_end 0 None",
                OF _ keeps_levels_comp [of record_fork_rebase]]) simp_all
        have "held_base (upd_metrics ?g (rs_service r)) b"
          using fb(2) [OF Some] c(1) by (auto simp: held_base_def)
        then show ?thesis
          using go Inl Fork c fb(1) Some g inv pc
          by (intro that [of "(r\<lparr>rs_stacked := 0\<rparr>)\<lparr>rs_pc := AtTop, rs_base := b,
                rs_service := upd_metrics ?g (rs_service r)\<rparr>"])
            (simp_all add: run_verdict_def run_inv_def startup_inv_def Let_def)
      next
        case None
        have fin: "service_finalized_head s = Some (block_ref_of (blocks c ! finalized_head c))"
          if "svc_chain s = Some c" for s
          using that chain_getters(1) [OF c(2)] by (simp add: service_finalized_head_def)
        let ?r2 = "r\<lparr>rs_stacked := 0, rs_service := upd_metrics record_terminal_state (rs_service r)\<rparr>"
        show ?thesis
          using go Inl Fork c fb(1) None fin inv pc
          by (intro that [of "(send_startup_failure ?r2)\<lparr>rs_pc := Ended (RunTerminal
                (RollbackBehindFinalizedHead (block_ref_of (blocks c ! finalized_head c)) prev))\<rparr>"])
            (auto simp: run_verdict_def run_inv_def startup_inv_def Let_def send_startup_failure_def
              svc_inv_def levels_match_def record_terminal_state_def)
      qed
    qed
  qed
qed

lemma run_restart_session: "run_restart msg r = Some r' \<Longrightarrow> rs_session r' = rs_session r"
  by (auto simp: run_restart_def Let_def split: bind_splits)

lemma run_top_session:
  "run_top now_ms head item r = Some r' \<Longrightarrow>
     first_block_ingested (rs_session r') = first_block_ingested (rs_session r)"
  by (auto simp: run_top_def Let_def split: bind_splits if_splits sum.splits fault.splits)

lemma run_verdict_session:
  "run_verdict display v r = Some r' \<Longrightarrow>
     first_block_ingested (rs_session r') = first_block_ingested (rs_session r)"
  by (auto simp: run_verdict_def Let_def send_startup_failure_def dest!: run_restart_session
      split: bind_splits if_splits sum.splits stream_error.splits option.splits)

lemma svc_inv_flags [simp]:
  "svc_inv (stop s) = svc_inv s" "svc_inv (s\<lparr>cancelled := b\<rparr>) = svc_inv s"
  by (simp_all add: svc_inv_def stop_def levels_match_def)

lemma run_inv_service:
  assumes "run_inv r" "svc_inv s'" "started s' = started (rs_service r)"
    "svc_chain s' = svc_chain (rs_service r)"
  shows "run_inv (r\<lparr>rs_service := s'\<rparr>)"
  using assms by (simp add: run_inv_def startup_inv_def held_base_def)

lemma run_step_session:
  assumes inv: "run_inv r" and pc: "rs_pc r = InSession"
  obtains r' where "run_step display (Go now_ms head item clk ev) r = Some r'" "run_inv r'" "run_rel r r'"
proof -
  have sinv: "svc_inv (rs_service r)" using inv by (simp add: run_inv_def)
  obtain st s' ses' where i: "ingest_item clk ev (rs_service r) (rs_session r) = Some (st, s', ses')"
    "svc_inv s'" "first_block_ingested (rs_session r) \<Longrightarrow> first_block_ingested ses'"
    "started s' = (if first_block_ingested ses' \<and> \<not> first_block_ingested (rs_session r)
       then Inr () # started (rs_service r) else started (rs_service r))"
    "\<And>prev. st = SessionEnds (Inl (Fork prev)) \<Longrightarrow> prev \<noteq> []"
    using ingest_item_total [OF sinv, of clk ev "rs_session r"] by metis
  let ?r' = "r\<lparr>rs_pc := (case st of Continue \<Rightarrow> InSession | SessionEnds res \<Rightarrow> AtVerdict res),
      rs_service := s', rs_session := ses'\<rparr>"
  have "run_inv ?r'"
    using inv pc i(2-5) by (cases st) (auto simp: run_inv_def startup_inv_def)
  moreover have "run_rel r ?r'" using i(3) pc by (simp add: run_rel_def)
  moreover have "run_step display (Go now_ms head item clk ev) r = Some ?r'"
    using pc i(1) by (simp add: run_step_def)
  ultimately show ?thesis using that by blast
qed

lemma run_step_total:
  assumes inv: "run_inv r"
  shows "\<exists>r'. run_step display i r = Some r' \<and> run_inv r' \<and> run_rel r r'"
proof (cases i)
  case CallStop
  have "svc_inv (stop (rs_service r))" using inv by (simp add: run_inv_def)
  then have "run_inv (r\<lparr>rs_service := stop (rs_service r)\<rparr>)"
    by (intro run_inv_service [OF inv]) (simp_all add: stop_def)
  then show ?thesis using CallStop by (simp add: run_step_def run_rel_def)
next
  case CallCancel
  then show ?thesis using run_inv_service [OF inv, of "(rs_service r)\<lparr>cancelled := True\<rparr>"] inv
    by (simp add: run_step_def run_rel_def run_inv_def)
next
  case (ReadUpstreamHead now now_ms answer)
  have "svc_inv (refresh_upstream_head now now_ms answer (rs_service r)) \<and>
      started (refresh_upstream_head now now_ms answer (rs_service r)) = started (rs_service r) \<and>
      svc_chain (refresh_upstream_head now now_ms answer (rs_service r)) = svc_chain (rs_service r)"
    using inv by (auto simp: refresh_upstream_head_def run_inv_def split: option.splits sum.splits)
  then show ?thesis using ReadUpstreamHead run_inv_service [OF inv]
    by (simp add: run_step_def run_rel_def)
next
  case (RefreshLevels now)
  have "svc_inv (rs_service r)" using inv by (simp add: run_inv_def)
  then have "run_inv (r\<lparr>rs_service :=
      upd_metrics (\<lambda>m. snd (refresh_derived_levels now m)) (rs_service r)\<rparr>)"
    by (intro run_inv_service [OF inv]) simp_all
  then show ?thesis using RefreshLevels by (simp add: run_step_def run_rel_def)
next
  case (Go now_ms head item clk ev)
  show ?thesis
  proof (cases "rs_pc r")
    case AtTop
    obtain r' where "run_top now_ms head item r = Some r'" "run_inv r'"
      by (rule run_top_total [OF inv AtTop, where now_ms = now_ms and head = head and item = item])
    then show ?thesis using Go AtTop run_top_session [of now_ms head item r r']
      by (simp add: run_step_def run_rel_def)
  next
    case InSession
    then show ?thesis using run_step_session [OF inv InSession, of display] Go by metis
  next
    case (AtVerdict v)
    obtain r' where "run_verdict display v r = Some r'" "run_inv r'"
      by (rule run_verdict_total [OF inv AtVerdict, where display = display])
    then show ?thesis using Go AtVerdict run_verdict_session [of display v r r']
      by (simp add: run_step_def run_rel_def)
  next
    case (Ended e)
    then show ?thesis using Go inv by (simp add: run_step_def run_rel_def)
  qed
qed

interpretation run: total_op run_inv run_rel
  "\<lambda>r i. map_option (Pair ()) (run_step display i r)" "\<lambda>_. True" for display
proof
  fix r i
  assume "run_inv r"
  then show "\<exists>u r'. map_option (Pair ()) (run_step display i r) = Some (u, r') \<and> run_inv r' \<and> run_rel r r'"
    using run_step_total [of r display i] by auto
qed (auto simp: run_rel_def)

lemma run_steps_each:
  "each (\<lambda>r i. map_option (Pair ()) (run_step display i r)) (\<lambda>_. True) is r =
     map_option (Pair True) (run_steps display is r)"
proof (induction "is" arbitrary: r)
  case (Cons i "is")
  then show ?case by (cases "run_step display i r") simp_all
qed simp

lemma run_steps_total:
  assumes "run_inv r"
  shows "\<exists>r'. run_steps display is r = Some r' \<and> run_inv r' \<and> run_rel r r'"
  using run.each_total [OF assms, of display "is"] by (auto simp: run_steps_each)

lemma run_start_inv:
  assumes "svc_inv s" "started s = []"
  obtains r where "run_start s = Some r" "run_inv r" "rs_service r = s" "rs_pc r = AtTop"
proof -
  obtain c where c: "svc_chain s = Some c" using assms(1) by (auto simp: svc_inv_def)
  show ?thesis
    using service_head_eq [OF assms(1) c] held_base_last [OF assms(1) c] assms
    by (intro that [of "the (run_start s)"]) (simp_all add: run_start_def run_inv_def startup_inv_def)
qed

lemma run_top_finality:
  assumes "run_top now_ms head item r = Some r'" "rs_stacked r \<le> 5"
  shows "rs_service r' = rs_service r"
  using assms by (auto simp: run_top_def split: if_splits)

lemma run_verdict_chain:
  "run_verdict display v r = Some r' \<Longrightarrow> svc_chain (rs_service r') = svc_chain (rs_service r)"
  by (auto simp: run_verdict_def run_restart_def Let_def send_startup_failure_def
      split: bind_splits if_splits sum.splits stream_error.splits option.splits)

text \<open>Only a full re-init, after more than five fruitless sessions, can lower the finalized head.\<close>

lemma run_step_finality:
  assumes inv: "run_inv r" and step: "run_step display i r = Some r'"
    and no_reset: "rs_pc r = AtTop \<Longrightarrow> rs_stacked r \<le> 5"
    and c: "svc_chain (rs_service r) = Some c" "svc_chain (rs_service r') = Some c'"
  shows "finality_kept c c'"
proof (cases "\<exists>now_ms head item clk ev. i = Go now_ms head item clk ev \<and> rs_pc r = InSession")
  case True
  then obtain now_ms head item clk ev where i: "i = Go now_ms head item clk ev" "rs_pc r = InSession"
    by blast
  have sinv: "svc_inv (rs_service r)" using inv by (simp add: run_inv_def)
  obtain st s' ses' where it: "ingest_item clk ev (rs_service r) (rs_session r) = Some (st, s', ses')"
    "\<And>c c'. svc_chain (rs_service r) = Some c \<Longrightarrow> svc_chain s' = Some c' \<Longrightarrow> finality_kept c c'"
    using ingest_item_total [OF sinv, of clk ev "rs_session r"] by metis
  then have "rs_service r' = s'" using step i by (auto simp: run_step_def)
  then show ?thesis using it(2) c by simp
next
  case False
  have "svc_chain (rs_service r') = svc_chain (rs_service r)"
    using step False
    by (cases i; cases "rs_pc r")
      (auto simp: run_step_def stop_def refresh_upstream_head_def
        dest: run_top_finality [OF _ no_reset] run_verdict_chain split: option.splits sum.splits)
  then show ?thesis using c by simp
qed

subsection \<open>The ladder\<close>

lemma fruitless_session:
  assumes inv: "run_inv r" and pc: "rs_pc r = AtTop" and first: "first_block_ingested (rs_session r)"
    and run: "\<not> stop_requested (rs_service r)" and low: "rs_stacked r \<le> 5"
    and c: "svc_chain (rs_service r) = Some c" and base: "ref_number (rs_base r) = number (last (blocks c))"
    and go: "go = Go now_ms head item clk0 ev"
  obtains r' where "run_steps display (fruitless go clk e) r = Some r'" "run_inv r'" "rs_pc r' = AtTop"
    "rs_stacked r' = rs_stacked r + 1" "first_block_ingested (rs_session r')"
    "\<not> stop_requested (rs_service r')" "svc_chain (rs_service r') = Some c"
    "rs_base r' = block_ref_of (last (blocks c))" "same_config (rs_service r) (rs_service r')"
proof -
  have sinv: "svc_inv (rs_service r)" using inv by (simp add: run_inv_def)
  let ?s1 = "upd_metrics (record_session_restart RestartError) (rs_service r)"
  have head: "service_head ?s1 = Some (block_ref_of (last (blocks c)))"
    using service_head_eq [of ?s1 c] sinv c by simp
  let ?r' = "r\<lparr>rs_session := (rs_session r)\<lparr>finalized_max := None\<rparr>, rs_pc := AtTop,
      rs_base := block_ref_of (last (blocks c)), rs_stacked := rs_stacked r + 1,
      rs_service := upd_metrics (note_session_end (rs_stacked r + 1) (Some (display e))) ?s1\<rparr>"
  have "run_steps display (fruitless go clk e) r = Some ?r'"
    using pc run low first head base
    by (simp add: fruitless_def go run_step_def run_top_def ingest_item_def run_verdict_def run_restart_def
        stop_requested_def Let_def)
  moreover have "run_inv ?r'"
    using run_steps_total [OF inv, of display "fruitless go clk e"] calculation by simp
  ultimately show ?thesis
    using first run c by (intro that [of ?r']) (simp_all add: stop_requested_def same_config_def)
qed

lemma fruitless_sessions:
  assumes "run_inv r" "rs_pc r = AtTop" "first_block_ingested (rs_session r)"
    "\<not> stop_requested (rs_service r)" "rs_stacked r + int (length es) \<le> 6"
    "svc_chain (rs_service r) = Some c" "ref_number (rs_base r) = number (last (blocks c))"
    and go: "go = Go now_ms head item clk0 ev"
  shows "\<exists>r'. run_steps display (concat (map (fruitless go clk) es)) r = Some r' \<and> run_inv r' \<and>
    rs_pc r' = AtTop \<and> rs_stacked r' = rs_stacked r + int (length es) \<and>
    first_block_ingested (rs_session r') \<and> \<not> stop_requested (rs_service r') \<and>
    svc_chain (rs_service r') = Some c \<and> same_config (rs_service r) (rs_service r')"
  using assms
proof (induction es arbitrary: r)
  case Nil
  then show ?case by (simp add: same_config_def)
next
  case (Cons e es)
  have app: "run_steps display (xs @ ys) r = Option.bind (run_steps display xs r) (run_steps display ys)"
    for xs ys r
  proof (induction xs arbitrary: r)
    case (Cons x xs)
    then show ?case by (cases "run_step display x r") simp_all
  qed simp
  have "rs_stacked r \<le> 5" using Cons.prems(5) by simp
  then obtain r1 where r1: "run_steps display (fruitless go clk e) r = Some r1" "run_inv r1" "rs_pc r1 = AtTop"
    "rs_stacked r1 = rs_stacked r + 1" "first_block_ingested (rs_session r1)"
    "\<not> stop_requested (rs_service r1)" "svc_chain (rs_service r1) = Some c"
    "rs_base r1 = block_ref_of (last (blocks c))" "same_config (rs_service r) (rs_service r1)"
    by (rule fruitless_session [OF Cons.prems(1-4) _ Cons.prems(6,7) go, where display = display and clk = clk and e = e])
  have "\<exists>r'. run_steps display (concat (map (fruitless go clk) es)) r1 = Some r' \<and> run_inv r' \<and>
    rs_pc r' = AtTop \<and> rs_stacked r' = rs_stacked r1 + int (length es) \<and>
    first_block_ingested (rs_session r') \<and> \<not> stop_requested (rs_service r') \<and>
    svc_chain (rs_service r') = Some c \<and> same_config (rs_service r1) (rs_service r')"
    using r1 Cons.prems(5) go by (intro Cons.IH) simp_all
  then show ?case using r1(1,4,9) same_config_trans by (fastforce simp: app)
qed

end
