(* ===== verification/Refinement.thy ===== *)
theory Refinement
  imports Service_Run Ref_Model
begin

text \<open>
  The service implements the reference model.  \<open>abs_block\<close> forgets the payload of a block, \<open>chain_rel\<close>
  relates a buffer to a model that holds the same blocks, finality index and parameters.  Every
  operation of the buffer simulates the model's (the interpretations \<open>model_push\<close> and \<open>push_sim\<close> carry
  the push through a batch), and so do the application of a whole batch, compaction, fork resolution
  and queries.
\<close>

subsection \<open>Vocabulary\<close>

definition abs_block :: "block \<Rightarrow> model_block" where
  "abs_block b =
     \<lparr>mb_number = number b, mb_hash = hash b, mb_parent_number = parent_number b,
      mb_parent_hash = parent_hash b\<rparr>"

text \<open>The buffer and the model hold the same blocks, finality index and parameters.\<close>

definition chain_rel :: "chain \<Rightarrow> ref_model \<Rightarrow> bool" where
  "chain_rel c m \<longleftrightarrow>
     m_blocks m = map abs_block (blocks c) \<and> m_f m = finalized_head c \<and>
     m_cache_size m = max_size c \<and> m_auto_adjust m = auto_adjust_finalized_head c"

definition conc_block :: "model_block \<Rightarrow> block" where
  "conc_block x =
     \<lparr>number = mb_number x, hash = mb_hash x, parent_number = mb_parent_number x,
      parent_hash = mb_parent_hash x, timestamp = None, json_line_zstd = [], timings = None\<rparr>"

definition m_push_rel :: "ref_model \<Rightarrow> ref_model \<Rightarrow> bool" where
  "m_push_rel m m' \<longleftrightarrow>
     m_f m' = m_f m \<and> m_fin_max m' = m_fin_max m \<and> m_cache_size m' = m_cache_size m \<and>
     m_auto_adjust m' = m_auto_adjust m"

text \<open>The verdict of the model for the answer of the buffer.\<close>

definition verdict_of :: "chain \<Rightarrow> block_ref list + data_response \<Rightarrow> query_verdict" where
  "verdict_of c answer =
     (case answer of
        Inl prev \<Rightarrow> ConflictVerdict
      | Inr resp \<Rightarrow>
          (case resp_finalized_head resp of
             None \<Rightarrow> BackfillVerdict
           | Some fin \<Rightarrow>
               (case resp_tail resp of
                  Some tail \<Rightarrow> Data (map abs_block tail) fin
                | None \<Rightarrow> Empty (block_ref_of (last (blocks c))) fin)))"

subsection \<open>Abstraction\<close>

lemma abs_block_sel [simp]:
  "mb_number (abs_block b) = number b" "mb_hash (abs_block b) = hash b"
  "mb_parent_number (abs_block b) = parent_number b" "mb_parent_hash (abs_block b) = parent_hash b"
  "mb_block_ref (abs_block b) = block_ref_of b" "mb_parent_ref (abs_block b) = parent_ref_of b"
  "linked (abs_block a) (abs_block b) = is_chain a b"
  by (simp_all add: abs_block_def mb_block_ref_def mb_parent_ref_def block_ref_of_def
      parent_ref_of_def linked_def is_chain_def)

subsection \<open>The model computes the same results\<close>

lemma m_push_result:
  assumes blocks: "m_blocks m = map abs_block bs" and asc: "ascending number bs" and ne: "bs \<noteq> []"
    and f: "m_f m < length bs"
  shows "\<exists>out m'. m_push m (abs_block nb) = Some (out, m') \<and>
    (case push_result bs (m_f m) nb of
       None \<Rightarrow> out \<noteq> Applied \<and> (\<exists>a. m' = m_alarm a m)
     | Some bs' \<Rightarrow> out = Applied \<and> m' = m\<lparr>m_blocks := map abs_block bs'\<rparr>)"
proof (cases "find (\<lambda>b. block_ref_of b = block_ref_of nb) bs")
  case (Some held)
  then have held: "held \<in> set bs" "block_ref_of held = block_ref_of nb"
    by (auto simp: find_Some_iff)
  have uniq: "b = held" if "b \<in> set bs" "number b = number held" for b
    using that held(1) ascending_nth_inj [OF asc] by (metis in_set_conv_nth)
  have ref: "number held = number nb" "hash held = hash nb" using held(2) by (simp_all add: block_ref_of_def)
  have dup: "(\<exists>b \<in> set bs. number b = number nb \<and> hash b = hash nb \<and>
      parent_number b = parent_number nb \<and> parent_hash b = parent_hash nb) \<longleftrightarrow>
      parent_ref_of held = parent_ref_of nb"
  proof
    assume "\<exists>b \<in> set bs. number b = number nb \<and> hash b = hash nb \<and>
      parent_number b = parent_number nb \<and> parent_hash b = parent_hash nb"
    then obtain b where "b \<in> set bs" "number b = number held" "parent_number b = parent_number nb"
      "parent_hash b = parent_hash nb" using ref by auto
    moreover from this have "b = held" by (intro uniq)
    ultimately show "parent_ref_of held = parent_ref_of nb" by (simp add: parent_ref_of_def)
  next
    assume "parent_ref_of held = parent_ref_of nb"
    then show "\<exists>b \<in> set bs. number b = number nb \<and> hash b = hash nb \<and>
      parent_number b = parent_number nb \<and> parent_hash b = parent_hash nb"
      using held(1) ref by (intro bexI [of _ held]) (simp_all add: parent_ref_of_def)
  qed
  have "\<exists>b \<in> set bs. number b = number nb \<and> hash b = hash nb" using held(1) ref by auto
  then show ?thesis
    using Some blocks dup by (auto simp: m_push_def push_result_def m_violation_def)
next
  case None
  then have fresh: "\<forall>b \<in> set bs. \<not> (number b = number nb \<and> hash b = hash nb)"
    by (auto simp: find_None_iff block_ref_of_def)
  let ?i = "lower_bound number bs (parent_number nb)"
  have pos: "position (\<lambda>b. number b = parent_number nb) bs =
      (if ?i < length bs \<and> number (bs ! ?i) = parent_number nb then Some ?i else None)"
    using position_eq_lower_bound [OF asc] .
  have last: "?i = length bs - 1" if "is_chain (last bs) nb"
    using that lower_bound_nth [OF asc, of "length bs - 1"] ne by (simp add: is_chain_def last_conv_nth)
  have notdup: "\<not> (\<exists>b \<in> set (map abs_block bs). mb_number b = number nb \<and> mb_hash b = hash nb)"
    "\<not> (\<exists>b \<in> set (map abs_block bs). mb_number b = number nb \<and> mb_hash b = hash nb \<and>
        mb_parent_number b = parent_number nb \<and> mb_parent_hash b = parent_hash nb)"
    using fresh by auto
  have unfold: "m_push m (abs_block nb) =
    (if number nb \<le> parent_number nb then Some (m_violation ''descending height'' m)
     else if is_chain (last bs) nb then Some (Applied, m\<lparr>m_blocks := map abs_block (bs @ [nb])\<rparr>)
     else if \<not> (?i < length bs \<and> number (bs ! ?i) = parent_number nb)
     then Some (m_violation ''gap: parent not buffered'' m)
     else if ?i < m_f m then Some (m_violation ''write below finality'' m)
     else if \<not> is_chain (bs ! ?i) nb then Some (m_violation ''parent hash mismatch'' m)
     else Some (Applied, m\<lparr>m_blocks := map abs_block (take (?i + 1) bs @ [nb])\<rparr>))"
    unfolding m_push_def blocks abs_block_sel if_not_P [OF notdup(1)] if_not_P [OF notdup(2)]
    by (simp add: position_map pos ne vec_get_def last_map take_map)
  have res: "push_result bs (m_f m) nb =
    (if number nb \<le> parent_number nb then None
     else if ?i < length bs \<and> is_chain (bs ! ?i) nb
     then (if ?i < m_f m then None else Some (take (?i + 1) bs @ [nb])) else None)"
    using None by (simp add: push_result_def push_result_parent [OF asc] Let_def)
  have num: "number (bs ! ?i) = parent_number nb" if "is_chain (bs ! ?i) nb"
    using that by (simp add: is_chain_def)
  show ?thesis
  proof (cases "is_chain (last bs) nb")
    case True
    then show ?thesis
      using last [OF True] ne f by (auto simp: unfold res m_violation_def last_conv_nth)
  next
    case False
    then show ?thesis using num by (auto simp: unfold res m_violation_def)
  qed
qed

lemma m_finalize_result:
  assumes blocks: "m_blocks m = map abs_block bs" and asc: "ascending number bs" and ne: "bs \<noteq> []"
    and f: "m_f m < length bs"
  shows "\<exists>out m'. m_finalize m r = Some (out, m') \<and>
    (case finalize_result bs (m_f m) r of
       None \<Rightarrow> (\<exists>s. out = IntegrityViolation s) \<and> (\<exists>a. m' = m_alarm a m)
     | Some f \<Rightarrow> out = Applied \<and> m' = m\<lparr>m_f := f\<rparr>)"
proof -
  have fin: "m_finalized m = Some (block_ref_of (bs ! m_f m))"
    using blocks f by (simp add: m_finalized_def vec_get_def)
  have first: "vec_get bs 0 = Some (hd bs)" using ne by (simp add: vec_get_def hd_conv_nth)
  have low: "number (hd bs) \<le> number (bs ! m_f m)"
    using ascending_nth_le [OF asc, of 0 "m_f m"] ne f by (simp add: hd_conv_nth)
  let ?i = "lower_bound number bs (ref_number r)"
  have r: "number x = ref_number r" if "block_ref_of x = r" for x
    using that by auto
  have pos: "position (\<lambda>b. number b = ref_number r) bs =
      (if ?i < length bs \<and> number (bs ! ?i) = ref_number r then Some ?i else None)"
    "position (\<lambda>b. block_ref_of b = r) bs =
      (if ?i < length bs \<and> block_ref_of (bs ! ?i) = r then Some ?i else None)"
    by (rule position_eq_lower_bound [OF asc]) (rule position_key [OF asc r])
  show ?thesis
  proof (cases "ref_number r < number (bs ! m_f m)")
    case True
    then show ?thesis by (simp add: m_finalize_def finalize_result_def fin)
  next
    case False
    then have "\<not> ref_number r < number (hd bs)" using low by auto
    then show ?thesis
      using False fin first pos ne blocks
      by (cases r) (auto simp: m_finalize_def finalize_result_def m_violation_def position_map vec_get_def
          block_ref_of_def)
  qed
qed


lemma abs_conc [simp]: "abs_block (conc_block x) = x"
  by (simp add: abs_block_def conc_block_def)

lemma model_blocks_abs: "\<exists>bs. xs = map abs_block bs"
  by (rule exI [of _ "map conc_block xs"]) (simp add: comp_def)

lemma windows2_linked:
  "list_all (\<lambda>(a, b). linked a b \<and> mb_number a < mb_number b) (windows2 (map abs_block bs)) = linked_chain bs"
  by (induction bs rule: linked_chain.induct) auto

lemma m_well_formed_iff:
  assumes "m_blocks m = map abs_block bs"
  shows "m_well_formed m \<longleftrightarrow> bs \<noteq> [] \<and> linked_chain bs \<and> m_f m < length bs"
  using assms by (simp add: m_well_formed_def windows2_linked)

lemma m_well_formed_blocks:
  assumes "m_well_formed m"
  obtains bs where "m_blocks m = map abs_block bs" "bs \<noteq> []" "linked_chain bs" "ascending number bs"
    "m_f m < length bs"
  using assms model_blocks_abs [of "m_blocks m"] m_well_formed_iff linked_chain_ascending by metis

lemma push_result_linked:
  assumes "linked_chain bs" "push_result bs f nb = Some bs'" "f < length bs"
  shows "linked_chain bs'" "f < length bs'" "bs' \<noteq> []"
proof -
  have "linked_chain bs' \<and> f < length bs' \<and> bs' \<noteq> []"
  proof (cases "bs' = bs")
    case True
    then show ?thesis using assms by auto
  next
    case False
    then obtain i where i: "position (\<lambda>b. is_chain b nb) bs = Some i" "\<not> i < f"
      "bs' = take (i + 1) bs @ [nb]" "parent_number nb < number nb"
      using assms(2) by (auto simp: push_result_def split: option.splits if_splits)
    then have "i < length bs" "is_chain (bs ! i) nb" by (auto simp: position_Some_iff)
    then show ?thesis
      using i assms linked_chain_take [OF assms(1), of "Suc i"]
      by (auto simp: linked_chain_append take_Suc_conv_app_nth is_chain_def)
  qed
  then show "linked_chain bs'" "f < length bs'" "bs' \<noteq> []" by simp_all
qed

lemma m_alarm_sel [simp]:
  "m_blocks (m_alarm a m) = m_blocks m" "m_f (m_alarm a m) = m_f m"
  "m_fin_max (m_alarm a m) = m_fin_max m" "m_cache_size (m_alarm a m) = m_cache_size m"
  "m_auto_adjust (m_alarm a m) = m_auto_adjust m" "m_well_formed (m_alarm a m) = m_well_formed m"
  by (simp_all add: m_alarm_def m_well_formed_def)

interpretation model_push: total_op m_well_formed m_push_rel m_push "\<lambda>out. out = Applied"
proof
  fix m x
  assume wf: "m_well_formed m"
  then obtain bs where bs: "m_blocks m = map abs_block bs" "bs \<noteq> []" "linked_chain bs"
    "ascending number bs" "m_f m < length bs" by (rule m_well_formed_blocks)
  obtain out m' where p: "m_push m x = Some (out, m')"
    "case push_result bs (m_f m) (conc_block x) of
       None \<Rightarrow> out \<noteq> Applied \<and> (\<exists>a. m' = m_alarm a m)
     | Some bs' \<Rightarrow> out = Applied \<and> m' = m\<lparr>m_blocks := map abs_block bs'\<rparr>"
    using m_push_result [OF bs(1,4,2,5), of "conc_block x"] by auto
  have "m_well_formed m' \<and> m_push_rel m m'"
  proof (cases "push_result bs (m_f m) (conc_block x)")
    case None
    then show ?thesis using p(2) wf by (auto simp: m_push_rel_def)
  next
    case (Some bs')
    then show ?thesis
      using p(2) push_result_linked [OF bs(3) Some bs(5)] m_well_formed_iff [of m' bs']
      by (auto simp: m_push_rel_def)
  qed
  then show "\<exists>out m'. m_push m x = Some (out, m') \<and> m_well_formed m' \<and> m_push_rel m m'"
    using p(1) by blast
qed (auto simp: m_push_rel_def)

interpretation push_sim: simulation_op chain_inv push_rel push "\<lambda>r. \<not> isl r"
  m_well_formed m_push_rel m_push "\<lambda>out. out = Applied" chain_rel abs_block
proof
  fix c m nb r c' out m'
  assume inv: "chain_inv c" and rel: "chain_rel c m" and p: "push c nb = Some (r, c')"
    and q: "m_push m (abs_block nb) = Some (out, m')"
  have bs: "m_blocks m = map abs_block (blocks c)" "m_f m = finalized_head c"
    using rel by (simp_all add: chain_rel_def)
  note invs = chain_invD [OF inv]
  have kept: "push_rel c c'" using chain_push.op_keeps [OF inv p] by simp
  show "(\<not> isl r) = (out = Applied) \<and> (\<not> isl r \<longrightarrow> chain_rel c' m')"
    using push_result_correct [OF inv, of nb] m_push_result [OF bs(1) invs(3,1), of nb] invs(4) bs p q
      kept rel
    by (cases "push_result (blocks c) (finalized_head c) nb") (auto simp: chain_rel_def push_rel_def)
qed

lemma m_push_all_each:
  "each m_push (\<lambda>out. out = Applied) xs m = map_option (\<lambda>(out, m'). (out = Applied, m')) (m_push_all m xs)"
proof (induction xs arbitrary: m)
  case (Cons x xs)
  show ?case
  proof (cases "m_push m x")
    case (Some p)
    then show ?thesis using Cons.IH by (cases p; cases "fst p") auto
  qed simp
qed simp

lemma push_loop_sim:
  assumes "chain_inv c" "chain_rel c m" "push_loop clk i bs c = Some (res, c')"
  obtains out m' where "m_push_all m (map abs_block bs) = Some (out, m')"
    "isl res \<longleftrightarrow> out \<noteq> Applied" "\<not> isl res \<Longrightarrow> chain_rel c' m'" "m_fin_max m' = m_fin_max m"
proof -
  have wf: "m_well_formed m"
    using assms(1,2) chain_invD(1,2,4) [OF assms(1)] m_well_formed_iff by (auto simp: chain_rel_def)
  obtain b m' where e: "each m_push (\<lambda>out. out = Applied) (map abs_block bs) m = Some (b, m')"
    "m_push_rel m m'"
    using model_push.each_total [OF wf] by blast
  then obtain out where out: "m_push_all m (map abs_block bs) = Some (out, m')" "b = (out = Applied)"
    by (auto simp: m_push_all_each)
  have "each push (\<lambda>r. \<not> isl r) bs c = Some (\<not> isl res, c')"
    using assms(3) push_loop_each [of bs c clk i] by simp
  then have "b = (\<not> isl res) \<and> (\<not> isl res \<longrightarrow> chain_rel c' m')"
    using push_sim.each_sim [OF assms(1) wf assms(2)] e(1) by blast
  then show ?thesis using out e(2) by (intro that [of out m']) (auto simp: m_push_rel_def)
qed

lemma m_settle_result:
  assumes "chain_inv c" "chain_rel c m"
  shows "\<exists>out m'. m_settle_report m = Some (out, m') \<and>
    (case settle_result (blocks c) (finalized_head c) (m_fin_max m) of
       None \<Rightarrow> out \<noteq> Applied
     | Some f \<Rightarrow> out = Applied \<and> m' = m\<lparr>m_f := f\<rparr>)"
proof -
  have bs: "m_blocks m = map abs_block (blocks c)" "m_f m = finalized_head c"
    using assms(2) by (simp_all add: chain_rel_def)
  note inv = chain_invD [OF assms(1)]
  have top: "number (blocks c ! finalized_head c) \<le> number (last (blocks c))"
    using ascending_last_max [OF inv(3)] inv(4) by simp
  show ?thesis
  proof (cases "m_fin_max m")
    case None
    then show ?thesis using bs inv(1) by (simp add: m_settle_report_def settle_result_def)
  next
    case (Some r)
    show ?thesis
    proof (cases "number (last (blocks c)) < ref_number r")
      case True
      then have "\<not> ref_number r < number (blocks c ! finalized_head c)" using top by auto
      then show ?thesis
        using Some True not_le [THEN iffD2, OF True] bs inv(1)
        by (simp add: m_settle_report_def settle_result_def finalize_result_def)
    next
      case False
      then show ?thesis
        using Some m_finalize_result [OF bs(1) inv(3,1), of r] bs inv(1,4)
        by (auto simp: m_settle_report_def settle_result_def not_less split: option.splits)
    qed
  qed
qed

lemma m_note_report_eq:
  assumes "chain_inv c" "chain_rel c m"
  shows "\<exists>out m'. m_note_report m r = Some (out, m') \<and>
    (if ref_number r < fin_number c then out = Applied \<and> m' = m
     else case m_fin_max m of
       None \<Rightarrow> out = Applied \<and> m' = m\<lparr>m_fin_max := Some r\<rparr>
     | Some x \<Rightarrow>
         if ref_number r = ref_number x \<and> ref_hash r \<noteq> ref_hash x then out \<noteq> Applied
         else if ref_number x < ref_number r then out = Applied \<and> m' = m\<lparr>m_fin_max := Some r\<rparr>
         else out = Applied \<and> m' = m)"
proof -
  have "m_finalized m = Some (block_ref_of (blocks c ! finalized_head c))"
    using assms chain_invD(4) [OF assms(1)] by (simp add: chain_rel_def m_finalized_def vec_get_def)
  then show ?thesis
    by (cases "m_fin_max m") (auto simp: m_note_report_def fin_number_def m_violation_def)
qed

lemma chain_rel_settle: "chain_rel c m \<Longrightarrow> chain_rel (c\<lparr>finalized_head := f\<rparr>) (m\<lparr>m_f := f\<rparr>)"
  by (simp add: chain_rel_def)

lemma chain_rel_fin_max [simp]: "chain_rel c (m\<lparr>m_fin_max := x\<rparr>) = chain_rel c m"
  by (simp add: chain_rel_def)

text \<open>Settling the same obligation twice is settling it once.\<close>

lemma m_settle_again:
  assumes "chain_inv c" "chain_rel c m"
    and "settle_result bs f (m_fin_max m) = Some (finalized_head c)" "bs = blocks c"
    and "f < length bs"
  shows "m_settle_report m = Some (Applied, m)"
proof -
  have "settle_result (blocks c) (finalized_head c) (m_fin_max m) = Some (finalized_head c)"
    using assms(3-5) finalize_result_idem [OF _ chain_invD(3) [OF assms(1)]] chain_invD(1) [OF assms(1)]
    by (auto simp: settle_result_def split: option.splits)
  moreover have "m\<lparr>m_f := finalized_head c\<rparr> = m" using assms(2) by (cases m) (simp add: chain_rel_def)
  ultimately show ?thesis using m_settle_result [OF assms(1,2)] by auto
qed

lemma settle_max_chain:
  assumes "chain_inv c" "settle_max c fmax = Some (Inr (), c')"
  obtains f where "settle_result (blocks c) (finalized_head c) fmax = Some f"
    "c' = c\<lparr>finalized_head := f\<rparr>" "chain_inv c'" "finalized_head c \<le> f"
  using settle_max_result [OF assms(1), of fmax] assms settle_result_bounds chain_inv_set_finalized
    chain_invD(1,4) [OF assms(1)]
  by (auto split: option.splits)

text \<open>
  The contradiction between two reports at one height is checked before the pushes by the service and
  after the settlement by the model; the verdicts agree because settling the current obligation
  cannot lift finality above its own height unless it was there before.
\<close>

lemma conflict_after_settle:
  assumes "chain_inv c" "settle_result (blocks c) (finalized_head c) (Some cur) = Some f"
    "fin_number c \<le> ref_number cur"
  shows "number (blocks c ! f) \<le> ref_number cur"
  using assms finalize_result_reaches [OF _ chain_invD(3,4,1) [OF assms(1)], of cur f]
  by (simp add: settle_result_def fin_number_def)

lemma push_rel_fin_number:
  assumes "push_rel c c1"
  shows "fin_number c1 = fin_number c"
proof -
  have "take (Suc (finalized_head c)) (blocks c1) = take (Suc (finalized_head c)) (blocks c)"
    and "finalized_head c1 = finalized_head c"
    using assms by (simp_all add: push_rel_def)
  then show ?thesis by (metis fin_number_def lessI nth_take)
qed

lemma batch_step_rejects:
  assumes inv: "chain_inv c1" and rel: "chain_rel c1 m1"
    and push: "m_push_all m xs = Some (Applied, m1)"
    and bad: "settle_result (blocks c1) (finalized_head c1) (m_fin_max m1) = None"
  shows "\<exists>out m'. m_batch_step m xs report = Some (out, m') \<and> out \<noteq> Applied"
proof -
  obtain out m2 where "m_settle_report m1 = Some (out, m2)" "out \<noteq> Applied"
    using m_settle_result [OF inv rel] bad by auto
  then show ?thesis using push by (cases out) (auto simp: m_batch_step_def)
qed

lemma batch_step_settles:
  assumes inv: "chain_inv c1" and rel: "chain_rel c1 m1"
    and push: "m_push_all m xs = Some (Applied, m1)"
    and ok: "settle_result (blocks c1) (finalized_head c1) (m_fin_max m1) = Some f"
  shows "m_batch_step m xs report =
    (case report of
       None \<Rightarrow> Some (Applied, m1\<lparr>m_f := f\<rparr>)
     | Some r \<Rightarrow> do {
         (out3, m3) \<leftarrow> m_note_report (m1\<lparr>m_f := f\<rparr>) r;
         case out3 of Applied \<Rightarrow> m_settle_report m3 | bad \<Rightarrow> Some (bad, m3)
       })"
proof -
  have "m_settle_report m1 = Some (Applied, m1\<lparr>m_f := f\<rparr>)"
    using m_settle_result [OF inv rel] ok by auto
  then show ?thesis using push by (simp add: m_batch_step_def)
qed

lemma apply_batch_sim_conflict:
  assumes inv: "chain_inv c" and rel: "chain_rel c m"
    and conf: "conflicting_report c (batch_finalized_head batch) (m_fin_max m) = Some (Some e)"
  shows "\<exists>out m'. m_batch_step m (map abs_block (batch_blocks batch)) (batch_finalized_head batch) =
    Some (out, m') \<and> out \<noteq> Applied"
proof -
  obtain r cur where r: "batch_finalized_head batch = Some r" "m_fin_max m = Some cur"
    "fin_number c \<le> ref_number r" "ref_number r = ref_number cur" "ref_hash r \<noteq> ref_hash cur"
    using conf conflicting_report_eq [OF inv]
    by (auto simp: fin_number_def split: option.splits if_splits)
  obtain res c1 where p: "push_loop (\<lambda>_. 0) 0 (batch_blocks batch) c = Some (res, c1)" "chain_inv c1"
    "push_rel c c1"
    by (rule push_loop_total [OF inv])
  obtain out1 m1 where q: "m_push_all m (map abs_block (batch_blocks batch)) = Some (out1, m1)"
    "isl res \<longleftrightarrow> out1 \<noteq> Applied" "\<not> isl res \<Longrightarrow> chain_rel c1 m1" "m_fin_max m1 = m_fin_max m"
    using push_loop_sim [OF inv rel p(1)] by metis
  show ?thesis
  proof (cases "out1 = Applied")
    case False
    then show ?thesis using q(1) by (cases out1) (auto simp: m_batch_step_def)
  next
    case True
    then have rel1: "chain_rel c1 m1" using q(2,3) by simp
    note q1 = q(1) [unfolded True]
    show ?thesis
    proof (cases "settle_result (blocks c1) (finalized_head c1) (m_fin_max m1)")
      case None
      then show ?thesis using batch_step_rejects [OF p(2) rel1 q1] by blast
    next
      case (Some f)
      have f: "f < length (blocks c1)"
        using settle_result_bounds(2) [OF Some] chain_invD(1,4) [OF p(2)] by simp
      have "number (blocks c1 ! f) \<le> ref_number cur"
        using conflict_after_settle [OF p(2), of cur f] Some q(4) r push_rel_fin_number [OF p(3)] by simp
      moreover have "m_note_report (m1\<lparr>m_f := f\<rparr>) r = Some (m_violation ''conflicting finality reports'' (m1\<lparr>m_f := f\<rparr>))"
        using calculation r q(4) f rel1
        by (auto simp: m_note_report_def m_finalized_def vec_get_def chain_rel_def)
      ultimately show ?thesis
        using batch_step_settles [OF p(2) rel1 q1 Some, of "Some r"] r(1) by (simp add: m_violation_def)
    qed
  qed
qed

lemma apply_batch_sim:
  assumes inv: "chain_inv c" and rel: "chain_rel c m"
    and app: "apply_batch_locked clk c batch (m_fin_max m) = Some (res, c', fmax')"
  obtains out m' where "m_batch_step m (map abs_block (batch_blocks batch)) (batch_finalized_head batch) =
      Some (out, m')" "isl res \<longleftrightarrow> out \<noteq> Applied"
    "\<not> isl res \<Longrightarrow> chain_rel c' m' \<and> m_fin_max m' = fmax'"
  using inv
proof (cases rule: apply_batch_cases [where clk = clk and batch = batch and fmax = "m_fin_max m"])
  case (conflict e)
  then show ?thesis using apply_batch_sim_conflict [OF inv rel] app that by fastforce
next
  case (rejected e c1)
  obtain out m1 where "m_push_all m (map abs_block (batch_blocks batch)) = Some (out, m1)" "out \<noteq> Applied"
    using push_loop_sim [OF inv rel rejected(2)] by (metis sum.disc(1))
  then have "m_batch_step m (map abs_block (batch_blocks batch)) (batch_finalized_head batch) = Some (out, m1)"
    by (cases out) (auto simp: m_batch_step_def)
  then show ?thesis using that rejected(3) app \<open>out \<noteq> Applied\<close> by fastforce
next
  case (unsettled ins c1 e)
  have c1: "chain_inv c1" using push_loop_total [OF inv] unsettled(2) by (metis option.inject prod.inject)
  obtain m1 where q: "m_push_all m (map abs_block (batch_blocks batch)) = Some (Applied, m1)"
    "chain_rel c1 m1" "m_fin_max m1 = m_fin_max m"
    using push_loop_sim [OF inv rel unsettled(2)] by (metis sum.disc(2))
  have "settle_result (blocks c1) (finalized_head c1) (m_fin_max m1) = None"
    using settle_max_result [OF c1, of "m_fin_max m"] unsettled(3) q(3) by (auto split: option.splits)
  then show ?thesis
    using batch_step_rejects [OF c1 q(2,1)] that unsettled(4) app by fastforce
next
  case (raised ins c1 c2 r res3 c3)
  have c1: "chain_inv c1" using push_loop_total [OF inv] raised(2) by (metis option.inject prod.inject)
  obtain m1 where q: "m_push_all m (map abs_block (batch_blocks batch)) = Some (Applied, m1)"
    "chain_rel c1 m1" "m_fin_max m1 = m_fin_max m"
    using push_loop_sim [OF inv rel raised(2)] by (metis sum.disc(2))
  obtain f where f: "settle_result (blocks c1) (finalized_head c1) (m_fin_max m) = Some f"
    "c2 = c1\<lparr>finalized_head := f\<rparr>" "chain_inv c2"
    using settle_max_chain [OF c1 raised(3)] by metis
  let ?m2 = "m1\<lparr>m_f := f\<rparr>" and ?m3 = "m1\<lparr>m_f := f, m_fin_max := Some r\<rparr>"
  have rel2: "chain_rel c2 ?m2" using chain_rel_settle [OF q(2)] f(2) by simp
  then have rel3: "chain_rel c2 ?m3" by (simp add: chain_rel_def)
  have noted: "m_note_report ?m2 r = Some (Applied, ?m3)"
    using m_note_report_eq [OF f(3) rel2, of r] raised(5) raises_max_eq [OF f(3), of "Some r" "m_fin_max m"] q(3)
    by (auto simp: fin_number_def split: option.splits if_splits)
  have step: "m_batch_step m (map abs_block (batch_blocks batch)) (batch_finalized_head batch) =
      m_settle_report ?m3"
    using batch_step_settles [OF c1 q(2,1)] f(1) q(3) noted raised(4) by simp
  note sim = m_settle_result [OF f(3) rel3] and conc = settle_max_result [OF f(3), of "Some r"]
  show ?thesis
  proof (cases "settle_result (blocks c2) (finalized_head c2) (Some r)")
    case None
    then obtain out m4 where "m_settle_report ?m3 = Some (out, m4)" "out \<noteq> Applied"
      using sim by auto
    moreover have "isl res" using None conc raised(6,7) app by (auto split: sum.splits)
    ultimately show ?thesis using that [of out m4] step by simp
  next
    case (Some f2)
    then have "m_settle_report ?m3 = Some (Applied, ?m3\<lparr>m_f := f2\<rparr>)" using sim by auto
    moreover have "c3 = c2\<lparr>finalized_head := f2\<rparr>" "\<not> isl res3" using Some conc raised(6) by auto
    moreover from this have "\<not> isl res" "c' = c3" "fmax' = Some r"
      using raised(7) app by (auto split: sum.splits)
    ultimately show ?thesis
      using that [of Applied "?m3\<lparr>m_f := f2\<rparr>"] step chain_rel_settle [OF rel3, of f2] by simp
  qed
next
  case (unraised ins c1 c2)
  have p: "chain_inv c1" "push_rel c c1"
    using push_loop_total [OF inv] unraised(2) by (metis option.inject prod.inject)+
  obtain m1 where q: "m_push_all m (map abs_block (batch_blocks batch)) = Some (Applied, m1)"
    "chain_rel c1 m1" "m_fin_max m1 = m_fin_max m"
    using push_loop_sim [OF inv rel unraised(2)] by (metis sum.disc(2))
  obtain f where f: "settle_result (blocks c1) (finalized_head c1) (m_fin_max m) = Some f"
    "c2 = c1\<lparr>finalized_head := f\<rparr>" "chain_inv c2" "finalized_head c1 \<le> f"
    using settle_max_chain [OF p(1) unraised(3)] by metis
  let ?m2 = "m1\<lparr>m_f := f\<rparr>"
  have rel2: "chain_rel c2 ?m2" using chain_rel_settle [OF q(2)] f(2) by simp
  have step: "m_batch_step m (map abs_block (batch_blocks batch)) (batch_finalized_head batch) = Some (Applied, ?m2)"
  proof (cases "batch_finalized_head batch")
    case None
    then show ?thesis using batch_step_settles [OF p(1) q(2,1)] f(1) q(3) by simp
  next
    case (Some r)
    have up: "fin_number c \<le> fin_number c2"
      using f(2,4) ascending_nth_le [OF chain_invD(3) [OF p(1)] f(4)] chain_invD(4) [OF f(3)]
        push_rel_fin_number [OF p(2)] by (simp add: fin_number_def)
    have "m_note_report ?m2 r = Some (Applied, ?m2)"
    proof (cases "ref_number r < fin_number c2")
      case True
      then show ?thesis using m_note_report_eq [OF f(3) rel2, of r] by auto
    next
      case False
      then obtain cur where cur: "m_fin_max m = Some cur" "\<not> ref_number cur < ref_number r"
        using unraised(4) Some raises_max_eq [OF f(3), of "Some r" "m_fin_max m"]
        by (cases "m_fin_max m") (auto simp: fin_number_def)
      have "number (blocks c ! finalized_head c) \<le> ref_number r"
        using up False unfolding fin_number_def by (meson le_less_trans not_le)
      then have "\<not> (ref_number r = ref_number cur \<and> ref_hash r \<noteq> ref_hash cur)"
        using unraised(1) Some conflicting_report_eq [OF inv, of "Some r" "m_fin_max m"] cur(1)
        by (auto split: if_splits)
      moreover have "m_fin_max ?m2 = Some cur" using cur(1) q(3) by simp
      ultimately have "\<exists>out m'. m_note_report ?m2 r = Some (out, m') \<and> out = Applied \<and> m' = ?m2"
        using m_note_report_eq [OF f(3) rel2, of r] False cur(2)
        by (simp only: if_False option.case if_not_P)
      then show ?thesis by blast
    qed
    moreover have "m_settle_report ?m2 = Some (Applied, ?m2)"
    proof (rule m_settle_again [OF f(3) rel2])
      show "settle_result (blocks c1) (finalized_head c1) (m_fin_max ?m2) = Some (finalized_head c2)"
        using f(1,2) q(3) by simp
      show "blocks c1 = blocks c2" using f(2) by simp
      show "finalized_head c1 < length (blocks c1)" using chain_invD(4) [OF p(1)] .
    qed
    ultimately show ?thesis using batch_step_settles [OF p(1) q(2,1)] f(1) q(3) Some by simp
  qed
  show ?thesis using that [OF step] unraised(5) app rel2 q(3) by simp
qed

subsection \<open>Compaction, fork signals and queries\<close>

lemma compact_sim:
  assumes "chain_inv c" "chain_rel c m" "compact c = Some (k, c')"
  shows "chain_rel c' (m_compact m)" "m_fin_max (m_compact m) = m_fin_max m"
proof -
  have c': "blocks c' = drop (trim_of c) (blocks c)" "finalized_head c' = finalized_head c - trim_of c"
    "max_size c' = max_size c" "auto_adjust_finalized_head c' = auto_adjust_finalized_head c"
    using compact_eq [OF assms(1)] assms(3) by auto
  show "chain_rel c' (m_compact m)" "m_fin_max (m_compact m) = m_fin_max m"
    using assms(2) c'
    by (auto simp: chain_rel_def m_compact_def trim_of_def window_excess_def Let_def drop_map min_def)
qed

lemma min_number_less_iff: "n < min_number r rs \<longleftrightarrow> (\<forall>x \<in> set (r # rs). n < ref_number x)"
  by (induction rs arbitrary: r) auto

lemma fork_signal_sim:
  assumes inv: "chain_inv c" and rel: "chain_rel c m" and prev: "prev \<noteq> []" "ascending ref_number prev"
  shows "\<exists>out m'. m_fork_signal m prev = Some (out, m') \<and> chain_rel c m' \<and>
    get_fork_base c prev = Some (case out of Inl _ \<Rightarrow> None | Inr b \<Rightarrow> Some b) \<and>
    (isl out \<longrightarrow> out = Inl Terminal)"
proof -
  obtain r rs where p: "prev = r # rs" using prev(1) by (cases prev) auto
  let ?w = "drop (finalized_head c) (blocks c)"
  have "find (\<lambda>b. mb_block_ref b \<in> set prev \<or> mb_number b < min_number r rs) (map abs_block (rev ?w)) =
      map_option abs_block (find (fork_stop prev) (rev ?w))"
    by (simp add: p find_map fork_stop_def [abs_def] min_number_less_iff)
  moreover have "vec_slice (m_blocks m) (m_f m) (length (m_blocks m)) = Some (map abs_block ?w)"
    using rel chain_invD(4) [OF inv] by (simp add: chain_rel_def vec_slice_def drop_map)
  ultimately show ?thesis
    using get_fork_base_eq [OF inv prev(2)] rel p
    by (cases "find (fork_stop prev) (rev ?w)")
      (auto simp: m_fork_signal_def rev_map [symmetric] chain_rel_def)
qed

lemma query_sim:
  assumes inv: "chain_inv c" and rel: "chain_rel c m"
  obtains answer where "query_chain c from base = Some answer"
    "m_query m from base = Some (verdict_of c answer)"
proof -
  note invs = chain_invD [OF inv]
  have bs: "m_blocks m = map abs_block (blocks c)" "m_f m = finalized_head c"
    using rel by (simp_all add: chain_rel_def)
  have get: "vec_get (blocks c) 0 = Some (hd (blocks c))" "vec_last (blocks c) = Some (last (blocks c))"
    "m_finalized m = Some (block_ref_of (blocks c ! finalized_head c))"
    "m_head m = Some (block_ref_of (last (blocks c)))"
    using bs invs(1,4) by (simp_all add: vec_get_def hd_conv_nth m_finalized_def m_head_def)
  have at: "vec_get (blocks c) p = Some (blocks c ! p)"
    "vec_slice (blocks c) p (length (blocks c)) = Some (drop p (blocks c))" if "p < length (blocks c)" for p
    using that by (simp_all add: vec_get_def vec_slice_def)
  have beyond: "\<not> (parent_number (hd (blocks c)) \<noteq> number (hd (blocks c)) \<and> from \<le> parent_number (hd (blocks c)))"
    if "number (last (blocks c)) < from"
  proof -
    have "number (hd (blocks c)) \<le> number (last (blocks c))"
      using ascending_last_max [OF invs(3)] invs(1) by simp
    then show ?thesis using invs(5) that by auto
  qed
  show ?thesis
    using inv
  proof (cases rule: query_chain_cases [where start = "from" and base = base])
    case below
    then show ?thesis
      using below(1,2) by (intro that [OF below(3)]) (auto simp: m_query_def bs get verdict_of_def)
  next
    case (served p)
    then have le: "\<not> number (last (blocks c)) < from"
      using lower_bound_length_iff [OF invs(3,1), of "from"] by auto
    have pos: "position (\<lambda>b. from \<le> number b) (blocks c) = Some p"
      using served(1,2) position_ge_lower_bound [of "from" number "blocks c"] by simp
    show ?thesis
      using served(2,3,4) le pos
      by (intro that [OF served(5)]; cases base)
        (auto simp: m_query_def bs get at verdict_of_def position_map)
  next
    case (conflict p h)
    then have le: "\<not> number (last (blocks c)) < from"
      using lower_bound_length_iff [OF invs(3,1), of "from"] by auto
    have pos: "position (\<lambda>b. from \<le> number b) (blocks c) = Some p"
      using conflict(1,2) position_ge_lower_bound [of "from" number "blocks c"] by simp
    show ?thesis
      using conflict(2-5) le pos
      by (intro that [OF conflict(6)]) 
        (auto simp: m_query_def bs get at verdict_of_def position_map)
  next
    case (tip_conflict h)
    have "\<not> (parent_number (hd (blocks c)) \<noteq> number (hd (blocks c)) \<and> from \<le> parent_number (hd (blocks c)))"
      using beyond [OF tip_conflict(2)] .
    then show ?thesis
      using tip_conflict(1) [symmetric] tip_conflict(2-4)
      by (intro that [OF tip_conflict(5)]) (simp add: m_query_def bs get verdict_of_def)
  next
    case ahead
    have "\<not> (parent_number (hd (blocks c)) \<noteq> number (hd (blocks c)) \<and> from \<le> parent_number (hd (blocks c)))"
      using beyond [OF ahead(1)] .
    then show ?thesis
      using ahead(1,2)
      by (intro that [OF ahead(3)]) (auto simp: m_query_def bs get verdict_of_def split: option.splits)
  qed
qed

subsection \<open>One delivered batch\<close>

lemma header_safe_same: "is_header_safe_hash_model = is_header_safe_hash"
  by (rule ext) (simp add: is_header_safe_hash_model_def is_header_safe_hash_def header_safe_byte_def [abs_def])

lemma windows2_malformed: "m_batch_malformed (map abs_block bs) \<longleftrightarrow> \<not> linked_chain bs"
  unfolding m_batch_malformed_def
  by (induction bs rule: linked_chain.induct) (auto simp: not_le)

text \<open>The shape checks of the model reject exactly what \<open>validate_ingest_batch\<close> rejects.\<close>

lemma m_apply_batch_shape:
  "batch_ok batch \<Longrightarrow>
     m_apply_batch m (map abs_block (batch_blocks batch)) (batch_finalized_head batch) =
     m_atomic_step (\<lambda>m. m_batch_step m (map abs_block (batch_blocks batch)) (batch_finalized_head batch)) m"
  "\<not> batch_ok batch \<Longrightarrow>
     \<exists>s. m_apply_batch m (map abs_block (batch_blocks batch)) (batch_finalized_head batch) = Some (SessionError s, m)"
  by (auto simp: m_apply_batch_def batch_ok_def hash_ok_def windows2_malformed header_safe_same
      list_ex_iff split: option.splits)

lemma m_atomic_step_reject:
  assumes "step m = Some (out, m')" "out \<noteq> Applied"
  shows "m_atomic_step step m =
    Some (out, m'\<lparr>m_blocks := m_blocks m, m_f := m_f m, m_fin_max := m_fin_max m\<rparr>)"
  using assms by (cases out) (simp_all add: m_atomic_step_def)

lemma m_push_all_config:
  "m_push_all m xs = Some (out, m') \<Longrightarrow> m_well_formed m \<Longrightarrow> m_push_rel m m'"
  using model_push.each_keeps [of m xs] by (auto simp: m_push_all_each)

lemma m_batch_step_config:
  assumes "m_well_formed m" "m_batch_step m xs report = Some (out, m')"
  shows "m_cache_size m' = m_cache_size m \<and> m_auto_adjust m' = m_auto_adjust m"
proof -
  have settle: "m_cache_size b = m_cache_size a \<and> m_auto_adjust b = m_auto_adjust a"
    if "m_settle_report a = Some (w, b)" for a b w
    using that by (auto simp: m_settle_report_def m_finalize_def m_violation_def
        split: option.splits if_splits bind_splits apply_outcome.splits)
  have note_: "m_cache_size b = m_cache_size a \<and> m_auto_adjust b = m_auto_adjust a"
    if "m_note_report a r = Some (w, b)" for a b r w
    using that by (auto simp: m_note_report_def m_violation_def split: option.splits if_splits bind_splits)
  show ?thesis
    using assms m_push_all_config
    by (auto simp: m_batch_step_def m_push_rel_def dest!: settle note_
        split: option.splits bind_splits apply_outcome.splits)
qed

lemma chain_rel_well_formed:
  assumes "chain_inv c" "chain_rel c m"
  shows "m_well_formed m"
  using assms chain_invD(1,2,4) [OF assms(1)] m_well_formed_iff by (auto simp: chain_rel_def)

lemma begin_batch_rel [simp]: "chain_rel (begin_batch c) m = chain_rel c m"
  by (simp add: chain_rel_def begin_batch_def)

lemma commit_batch_rel [simp]: "chain_rel (commit_batch c) m = chain_rel c m"
  by (simp add: chain_rel_def commit_batch_def)

lemma ingest_batch_sim:
  assumes inv: "svc_inv s" and c: "svc_chain s = Some c" and rel: "chain_rel c m"
    and fm: "m_fin_max m = finalized_max ses" and ok: "batch_ok batch"
  obtains res s' ses' c' out m' where "ingest_batch clk batch s ses = Some (res, s', ses')"
    "m_apply_batch m (map abs_block (batch_blocks batch)) (batch_finalized_head batch) = Some (out, m')"
    "svc_chain s' = Some c'" "chain_rel c' m'" "isl res \<longleftrightarrow> out \<noteq> Applied"
    "m_fin_max m' = (if isl res then finalized_max ses else finalized_max ses')"
proof -
  let ?step = "\<lambda>m. m_batch_step m (map abs_block (batch_blocks batch)) (batch_finalized_head batch)"
  have cinv: "chain_inv c" using inv c by (simp add: svc_inv_def)
  note binv = begin_batch_open(1) [OF cinv]
  have brel: "chain_rel (begin_batch c) m" using rel by simp
  have wf: "m_well_formed m" using chain_rel_well_formed [OF cinv rel] .
  note shape = m_apply_batch_shape(1) [OF ok, of m]
  show ?thesis
    using inv c
  proof (cases rule: ingest_batch_cases [where clk = clk and batch = batch and ses = ses])
    case (rejected e c1 fmax)
    obtain out m' where o: "?step m = Some (out, m')" "out \<noteq> Applied"
      using apply_batch_sim [OF binv brel, of "block_ms clk" batch] rejected(1) fm
      by (metis sum.disc(1))
    let ?m = "m'\<lparr>m_blocks := m_blocks m, m_f := m_f m, m_fin_max := m_fin_max m\<rparr>"
    have "m_apply_batch m (map abs_block (batch_blocks batch)) (batch_finalized_head batch) = Some (out, ?m)"
      using shape m_atomic_step_reject [of ?step, OF o] by simp
    moreover have "chain_rel c ?m"
      using m_batch_step_config [OF wf o(1)] rel by (simp add: chain_rel_def)
    ultimately show ?thesis using that [OF rejected(2)] c fm o(2) by simp
  next
    case (committed ins c1 fmax k c2 s2)
    obtain m' where o: "?step m = Some (Applied, m')" "chain_rel c1 m'" "m_fin_max m' = fmax"
      using apply_batch_sim [OF binv brel, of "block_ms clk" batch] committed(1) fm
      by (metis sum.disc(2))
    have ci: "chain_inv (commit_batch c1)" using commit_batch_inv [OF committed(2)] .
    have crel: "chain_rel (commit_batch c1) m'" using o(2) by simp
    have rel2: "chain_rel c2 (m_compact m')" "m_fin_max (m_compact m') = fmax"
      using compact_sim [OF ci crel committed(4)] o(3) by simp_all
    have "chain_inv c2" using committed(6,7) by (simp add: svc_inv_def)
    then have "m_well_formed (m_compact m')" using chain_rel_well_formed rel2(1) by blast
    then have "m_apply_batch m (map abs_block (batch_blocks batch)) (batch_finalized_head batch) =
        Some (Applied, m_compact m')"
      using shape o(1) by (simp add: m_atomic_step_def Let_def)
    then show ?thesis using that [OF committed(5)] committed(6) rel2 by simp
  qed
qed

lemma ingest_item_sim:
  assumes inv: "svc_inv s" and c: "svc_chain s = Some c" and rel: "chain_rel c m"
    and fm: "m_fin_max m = finalized_max ses" and run: "\<not> stopped s"
  shows "\<exists>st s' ses' c' out m'. ingest_item clk (StreamItem (Inr batch)) s ses = Some (st, s', ses') \<and>
    m_apply_batch m (map abs_block (batch_blocks batch)) (batch_finalized_head batch) = Some (out, m') \<and>
    svc_chain s' = Some c' \<and> chain_rel c' m' \<and> (st = Continue \<longleftrightarrow> out = Applied) \<and>
    (out = Applied \<longrightarrow> m_fin_max m' = finalized_max ses') \<and>
    (out \<noteq> Applied \<longrightarrow> c' = c \<and> m_fin_max m' = m_fin_max m)"
proof (cases rule: validate_ingest_batch_cases [of batch])
  case ok
  obtain res s' ses' c' out m' where x: "ingest_batch clk batch s ses = Some (res, s', ses')"
    "m_apply_batch m (map abs_block (batch_blocks batch)) (batch_finalized_head batch) = Some (out, m')"
    "svc_chain s' = Some c'" "chain_rel c' m'" "isl res \<longleftrightarrow> out \<noteq> Applied"
    "m_fin_max m' = (if isl res then finalized_max ses else finalized_max ses')"
    by (rule ingest_batch_sim [OF inv c rel fm ok(2)])
  have same: "c' = c" if "isl res"
    using inv c
  proof (cases rule: ingest_batch_cases [where clk = clk and batch = batch and ses = ses])
    case (rejected e c1 fmax)
    then show ?thesis using x(1,3) c by simp
  next
    case (committed ins c1 fmax k c2 s2)
    then show ?thesis using x(1) that by simp
  qed
  show ?thesis
    using x ok(1) run same fm by (cases res) (auto simp: ingest_item_def)
next
  case (bad e)
  then show ?thesis
    using m_apply_batch_shape(2) [OF bad(2), of m] run c rel fm by (auto simp: ingest_item_def)
qed

subsection \<open>Conflict answers\<close>

lemma known_ref_iff:
  assumes "m_blocks m = map abs_block bs"
  shows "m_is_known_ref m r \<longleftrightarrow>
    r \<in> block_ref_of ` set bs \<or> r \<in> parent_ref_of ` {b \<in> set bs. parent_number b \<noteq> number b}"
  using assms by (auto simp: m_is_known_ref_def list_ex_iff)

lemma query_conflict_refs:
  assumes inv: "chain_inv c" and rel: "chain_rel c m" and q: "query_chain c from base = Some (Inl prev)"
  shows "prev \<noteq> []" "ascending ref_number prev" "length prev \<le> 101" "\<forall>r \<in> set prev. m_is_known_ref m r"
proof -
  have bs: "m_blocks m = map abs_block (blocks c)" using rel by (simp add: chain_rel_def)
  note win = chain_invD(8) [OF inv] and ne = chain_invD(1) [OF inv]
  have "prev \<noteq> [] \<and> ascending ref_number prev \<and> length prev \<le> 101 \<and> (\<forall>r \<in> set prev. m_is_known_ref m r)"
    using inv
  proof (cases rule: query_chain_cases [where start = "from" and base = base])
    case (conflict p h)
    then have prev: "prev = conflict_refs (blocks c) p" using q by simp
    note facts = conflict_refs_facts [OF win conflict(2)]
    have "block_ref_of (hd (blocks c)) \<in> block_ref_of ` set (blocks c)" using ne by simp
    then show ?thesis using facts unfolding prev known_ref_iff [OF bs] by blast
  next
    case (tip_conflict h)
    then have prev: "prev = map block_ref_of (drop (length (blocks c) - 100) (blocks c))" using q by simp
    have "\<forall>r \<in> set prev. r \<in> block_ref_of ` set (blocks c)" unfolding prev by (auto dest: in_set_dropD)
    then show ?thesis using tip_refs_facts [OF win] unfolding prev known_ref_iff [OF bs] by blast
  qed (use q in auto)
  then show "prev \<noteq> []" "ascending ref_number prev" "length prev \<le> 101"
    "\<forall>r \<in> set prev. m_is_known_ref m r" by simp_all
qed

end
