(* ===== verification/Sim_Run.thy ===== *)
theory Sim_Run
  imports Sim Refinement
begin

text \<open>
  The history the simulator delivers: the reference model applies every prefix of it cleanly, so replaying
  the ledger never panics, and the service that ingests it holds the buffer of the replayed model.
\<close>

subsection \<open>A canonical history in the model\<close>

text \<open>
  \<open>canon cs m a h\<close>: the model holds the blocks from \<open>a\<close> up to \<open>h\<close> of the chain \<open>cs\<close>, and its finality maximum
  is a block of that chain below \<open>h\<close>.
\<close>

definition canon :: "block list \<Rightarrow> ref_model \<Rightarrow> nat \<Rightarrow> nat \<Rightarrow> bool" where
  "canon cs m a h \<longleftrightarrow>
     m_blocks m = map abs_block (drop a (take h cs)) \<and> a < h \<and> h \<le> length cs \<and> m_f m < h - a \<and>
     m_cache_size m > 0 \<and> (\<forall>r. m_fin_max m = Some r \<longrightarrow> (\<exists>k < h. r = block_ref_of (cs ! k)))"

definition chain_ok :: "block list \<Rightarrow> bool" where
  "chain_ok cs \<longleftrightarrow> linked_chain cs \<and> (\<forall>b \<in> set cs. hash_ok (hash b) \<and> hash_ok (parent_hash b))"

lemma canon_window:
  assumes "canon cs m a h" "linked_chain cs"
  shows "linked_chain (drop a (take h cs))" "ascending number (drop a (take h cs))" "drop a (take h cs) \<noteq> []"
    "length (drop a (take h cs)) = h - a" "last (drop a (take h cs)) = cs ! (h - 1)" "hd (drop a (take h cs)) = cs ! a"
  using assms linked_chain_drop [OF linked_chain_take [OF assms(2), of h], of a]
  by (auto simp: canon_def linked_chain_ascending last_drop last_conv_nth hd_drop_conv_nth)

lemma window_nth: "i < h - a \<Longrightarrow> h \<le> length cs \<Longrightarrow> drop a (take h cs) ! i = cs ! (a + i)"
  by simp

lemma canon_push:
  assumes "canon cs m a h" "linked_chain cs" "h < length cs"
  shows "m_push m (abs_block (cs ! h)) = Some (Applied, m\<lparr>m_blocks := map abs_block (drop a (take (Suc h) cs))\<rparr>)"
    "canon cs (m\<lparr>m_blocks := map abs_block (drop a (take (Suc h) cs))\<rparr>) a (Suc h)"
proof -
  note w = canon_window [OF assms(1,2)]
  have c: "m_blocks m = map abs_block (drop a (take h cs))" "a < h" "h \<le> length cs" using assms(1) by (simp_all add: canon_def)
  have asc: "ascending number cs" using assms(2) by (rule linked_chain_ascending)
  have below: "number b < number (cs ! h)" if b: "b \<in> set (drop a (take h cs))" for b
  proof -
    obtain i where "a + i < h" "b = cs ! (a + i)" using b c(3)
      by (fastforce simp: in_set_conv_nth less_diff_conv add.commute)
    then show ?thesis using ascending_nth_less [OF asc] assms(3) by simp
  qed
  have link: "is_chain (cs ! (h - 1)) (cs ! h)" using linked_chain_nth [OF assms(2), of "h - 1"] c(2) assms(3) by simp
  have "number (cs ! (h - 1)) < number (cs ! h)" using ascending_nth_less [OF asc, of "h - 1" h] c(2) assms(3) by simp
  then have up: "\<not> parent_number (cs ! h) \<ge> number (cs ! h)" using link by (simp add: is_chain_def)
  have no_ref: "\<forall>b \<in> set (m_blocks m). mb_number b \<noteq> number (cs ! h)" using below c(1) by fastforce
  have grow: "drop a (take (Suc h) cs) = drop a (take h cs) @ [cs ! h]" using c(2,3) assms(3) by (simp add: take_Suc_conv_app_nth)
  have last: "vec_last (m_blocks m) = Some (abs_block (cs ! (h - 1)))" using c(1) w(3,5) by (simp add: vec_last_def last_map)
  have "m_push m (abs_block (cs ! h)) = Some (Applied, m\<lparr>m_blocks := m_blocks m @ [abs_block (cs ! h)]\<rparr>)"
    using no_ref up link last unfolding m_push_def by auto
  then show "m_push m (abs_block (cs ! h)) = Some (Applied, m\<lparr>m_blocks := map abs_block (drop a (take (Suc h) cs))\<rparr>)"
    by (simp add: grow c(1))
  show "canon cs (m\<lparr>m_blocks := map abs_block (drop a (take (Suc h) cs))\<rparr>) a (Suc h)"
    using assms(1,3) unfolding canon_def by (auto intro: less_SucI)
qed

lemma canon_push_all:
  assumes "linked_chain cs" "h + n \<le> length cs" "canon cs m a h"
  shows "m_push_all m (map abs_block (take n (drop h cs))) = Some (Applied, m\<lparr>m_blocks := map abs_block (drop a (take (h + n) cs))\<rparr>)"
    "canon cs (m\<lparr>m_blocks := map abs_block (drop a (take (h + n) cs))\<rparr>) a (h + n)"
  using assms(2,3)
proof (induction n arbitrary: m h)
  case 0
  case 1
  then show ?case by (cases m) (simp add: canon_def)
next
  case 0
  case 2
  then show ?case by (simp add: canon_def)
next
  case (Suc n)
  case 1
  note p = canon_push [OF 1(2) assms(1)]
  have "take (Suc n) (drop h cs) = cs ! h # take n (drop (Suc h) cs)" using 1(1) by (simp add: Cons_nth_drop_Suc [symmetric])
  then show ?case using p Suc(1) [of "Suc h"] 1(1) by simp
next
  case (Suc n)
  case 2
  note p = canon_push [OF 2(2) assms(1)]
  show ?case using Suc(2) [OF _ p(2)] 2(1) by simp
qed

lemma canon_settle:
  assumes "canon cs m a h" "linked_chain cs"
  shows "\<exists>f. m_settle_report m = Some (Applied, m\<lparr>m_f := f\<rparr>) \<and> f < h - a \<and> canon cs (m\<lparr>m_f := f\<rparr>) a h"
proof -
  let ?bs = "drop a (take h cs)"
  note w = canon_window [OF assms]
  have c: "m_blocks m = map abs_block ?bs" "a < h" "h \<le> length cs" "m_f m < h - a" using assms(1) by (simp_all add: canon_def)
  have asc: "ascending number cs" using assms(2) by (rule linked_chain_ascending)
  have last: "vec_last (m_blocks m) = Some (abs_block (cs ! (h - 1)))" using c(1) w(3,5) by (simp add: vec_last_def last_map)
  show ?thesis
  proof (cases "m_fin_max m")
    case None
    then show ?thesis using last assms(1) c(4) by (intro exI [of _ "m_f m"]) (simp add: m_settle_report_def)
  next
    case (Some r)
    then obtain k where k: "k < h" "r = block_ref_of (cs ! k)" using assms(1) by (auto simp: canon_def)
    have le: "ref_number r \<le> number (cs ! (h - 1))" using k ascending_nth_le [OF asc, of k "h - 1"] c(2,3) by (simp add: block_ref_of_def)
    have "\<exists>f. finalize_result ?bs (m_f m) r = Some f \<and> f < h - a"
    proof (cases "k < a")
      case True
      then have "ref_number r < number (?bs ! m_f m)"
        using k c(3,4) ascending_nth_less [OF asc, of k "a + m_f m"] by (simp add: block_ref_of_def)
      then show ?thesis using c(4) by (simp add: finalize_result_def)
    next
      case False
      then have i: "k - a < length ?bs" "?bs ! (k - a) = cs ! k" using k(1) c(3) by auto
      then have "\<exists>j. position (\<lambda>b. block_ref_of b = r) ?bs = Some j \<and> j < h - a"
        using k(2) position_None_iff [of "\<lambda>b. block_ref_of b = r" ?bs] position_Some_iff [of "\<lambda>b. block_ref_of b = r" ?bs]
          nth_mem [OF i(1)] w(4) by (metis not_None_eq)
      then show ?thesis using c(4) le w(5) by (auto simp: finalize_result_def)
    qed
    then obtain f where f: "finalize_result ?bs (m_f m) r = Some f" "f < h - a" by blast
    then have "m_finalize m r = Some (Applied, m\<lparr>m_f := f\<rparr>)"
      using m_finalize_result [OF c(1) w(2,3), of r] c(4) w(4) by auto
    then show ?thesis using Some last le f(2) assms(1)
      by (intro exI [of _ f]) (auto simp: m_settle_report_def canon_def)
  qed
qed

lemma canon_note:
  assumes "canon cs m a h" "linked_chain cs" "k < h"
  shows "\<exists>m'. m_note_report m (block_ref_of (cs ! k)) = Some (Applied, m') \<and> canon cs m' a h"
proof -
  note w = canon_window [OF assms(1,2)]
  have c: "m_blocks m = map abs_block (drop a (take h cs))" "h \<le> length cs" "m_f m < h - a" using assms(1) by (simp_all add: canon_def)
  have "m_finalized m = Some (block_ref_of (cs ! (a + m_f m)))" using c by (simp add: m_finalized_def vec_get_def)
  moreover have "ref_hash (block_ref_of (cs ! k)) = ref_hash x"
    if x: "m_fin_max m = Some x" "ref_number (block_ref_of (cs ! k)) = ref_number x" for x
  proof -
    obtain j where j: "j < h" "x = block_ref_of (cs ! j)" using assms(1) x(1) unfolding canon_def by blast
    have "k = j"
      by (rule ascending_nth_inj [OF linked_chain_ascending [OF assms(2)]]) (use x(2) j assms(3) c(2) in \<open>auto simp: block_ref_of_def\<close>)
    then show ?thesis using j(2) by simp
  qed
  moreover have "canon cs (m\<lparr>m_fin_max := Some (block_ref_of (cs ! k))\<rparr>) a h" using assms(1,3) by (auto simp: canon_def)
  ultimately show ?thesis using assms(1)
    by (cases "m_fin_max m") (auto simp: m_note_report_def)
qed

lemma canon_compact:
  assumes "canon cs m a h" "linked_chain cs"
  shows "\<exists>a'. canon cs (m_compact m) a' h"
proof -
  note w = canon_window [OF assms]
  have c: "m_blocks m = map abs_block (drop a (take h cs))" "a < h" "h \<le> length cs" "m_f m < h - a" "m_cache_size m > 0"
    using assms(1) by (simp_all add: canon_def)
  define m1 where "m1 = (if length (m_blocks m) - m_cache_size m > m_f m \<and> m_auto_adjust m
      then m_alarm ForceAdvance (m\<lparr>m_f := length (m_blocks m) - m_cache_size m\<rparr>) else m)"
  have len: "length (m_blocks m) = h - a" using c(1) w(4) by simp
  have m1: "canon cs m1 a h" using assms(1) len c(2,5) unfolding m1_def by (auto simp: canon_def m_alarm_def)
  define k where "k = min (length (m_blocks m) - m_cache_size m) (m_f m1)"
  have k: "k \<le> m_f m1" by (simp add: k_def)
  have "canon cs (m1\<lparr>m_blocks := drop k (m_blocks m1), m_f := m_f m1 - k\<rparr>) (a + k) h"
    using m1 k by (auto simp: canon_def drop_map add.commute)
  then have "\<exists>a'. canon cs (if k > 0 then m1\<lparr>m_blocks := drop k (m_blocks m1), m_f := m_f m1 - k\<rparr> else m1) a' h"
    using m1 by auto
  moreover have "m_compact m =
      (let m2 = (if k > 0 then m1\<lparr>m_blocks := drop k (m_blocks m1), m_f := m_f m1 - k\<rparr> else m1)
       in if length (m_blocks m2) > m_cache_size m2 then m_alarm OverWindow m2 else m2)"
    by (simp add: m_compact_def m1_def k_def Let_def)
  moreover have "canon cs (m_alarm x n) a' h = canon cs n a' h" for x n a' by (simp add: canon_def)
  ultimately show ?thesis by (auto simp: Let_def)
qed

lemma canon_well_formed:
  assumes "canon cs m a h" "linked_chain cs"
  shows "m_well_formed m"
  using canon_window [OF assms] assms(1) m_well_formed_iff [of m "drop a (take h cs)"] by (auto simp: canon_def)

definition report_ok :: "block list \<Rightarrow> nat \<Rightarrow> block_ref option \<Rightarrow> bool" where
  "report_ok cs h report \<longleftrightarrow> (\<forall>r. report = Some r \<longrightarrow> (\<exists>k < h. r = block_ref_of (cs ! k)))"

lemma canon_batch:
  assumes "chain_ok cs" "canon cs m a h" "n > 0" "h + n \<le> length cs" "report_ok cs (h + n) report"
  shows "\<exists>m' a'. m_apply_batch m (map abs_block (take n (drop h cs))) report = Some (Applied, m') \<and> canon cs m' a' (h + n)"
proof -
  let ?bs = "take n (drop h cs)" and ?m1 = "m\<lparr>m_blocks := map abs_block (drop a (take (h + n) cs))\<rparr>"
  have lc: "linked_chain cs" using assms(1) by (simp add: chain_ok_def)
  note push = canon_push_all [OF lc assms(4,2)]
  obtain f where f: "m_settle_report ?m1 = Some (Applied, ?m1\<lparr>m_f := f\<rparr>)" "canon cs (?m1\<lparr>m_f := f\<rparr>) a (h + n)"
    using canon_settle [OF push(2) lc] by blast
  have "\<exists>m3. m_batch_step m (map abs_block ?bs) report = Some (Applied, m3) \<and> canon cs m3 a (h + n)"
  proof (cases report)
    case None
    then show ?thesis using push(1) f by (simp add: m_batch_step_def)
  next
    case (Some r)
    then obtain k where k: "k < h + n" "r = block_ref_of (cs ! k)" using assms(5) by (auto simp: report_ok_def)
    obtain m2 where m2: "m_note_report (?m1\<lparr>m_f := f\<rparr>) r = Some (Applied, m2)" "canon cs m2 a (h + n)"
      using canon_note [OF f(2) lc k(1)] k(2) by blast
    obtain g where "m_settle_report m2 = Some (Applied, m2\<lparr>m_f := g\<rparr>)" "canon cs (m2\<lparr>m_f := g\<rparr>) a (h + n)"
      using canon_settle [OF m2(2) lc] by blast
    then show ?thesis using Some push(1) f(1) m2(1) by (simp add: m_batch_step_def)
  qed
  then obtain m3 where m3: "m_batch_step m (map abs_block ?bs) report = Some (Applied, m3)" "canon cs m3 a (h + n)" by blast
  obtain a' where a': "canon cs (m_compact m3) a' (h + n)" using canon_compact [OF m3(2) lc] by blast
  have "report_ok cs (h + n) report \<Longrightarrow> \<forall>r. report = Some r \<longrightarrow> hash_ok (ref_hash r)"
    using assms(1,4) by (auto simp: report_ok_def chain_ok_def block_ref_of_def)
  then have "batch_ok \<lparr>batch_blocks = ?bs, batch_finalized_head = report\<rparr>"
    using assms(1,3-5) linked_chain_take [OF linked_chain_drop [OF lc], of n h]
    by (auto simp: batch_ok_def chain_ok_def dest!: in_set_takeD in_set_dropD)
  from m_apply_batch_shape(1) [OF this, of m] show ?thesis
    using m3(1) a' canon_well_formed [OF a' lc] by (auto simp: m_atomic_step_def Let_def)
qed

subsection \<open>The generated chain\<close>

lemma unat_index: "i < 2 ^ 64 \<Longrightarrow> unat (of_nat i :: u64) = i"
  by (simp add: unat_of_nat take_bit_nat_eq_self)

lemma those_Some: "those xs = Some ys \<Longrightarrow> xs = map Some ys"
  by (induction xs arbitrary: ys) (auto split: option.splits)

lemma generate_blocks:
  assumes "generate encode seed len = Some sim"
  shows "length (sim_blocks sim) = unat len"
    "i < unat len \<Longrightarrow> sim_block encode seed (of_nat i) = Some (sim_blocks sim ! i)"
proof -
  have "those (map (\<lambda>i. sim_block encode seed (of_nat i)) [0..<unat len]) = Some (sim_blocks sim)"
    using assms by (auto simp: generate_def)
  then have "map (\<lambda>i. sim_block encode seed (of_nat i)) [0..<unat len] = map Some (sim_blocks sim)"
    by (rule those_Some)
  then show "length (sim_blocks sim) = unat len" "i < unat len \<Longrightarrow> sim_block encode seed (of_nat i) = Some (sim_blocks sim ! i)"
    by (auto simp: list_eq_iff_nth_eq)
qed

lemma hex_text_safe: "\<forall>c \<in> set (show_hex n). 48 \<le> (of_char c :: nat) \<and> (of_char c :: nat) \<le> 102"
proof (induction n rule: show_hex.induct)
  case (1 n)
  have digit: "48 \<le> (of_char (hex_char d) :: nat) \<and> (of_char (hex_char d) :: nat) \<le> 102" if "d < 16" for d
    using that by (simp add: hex_char_def)
  show ?case
  proof (cases "n < 16")
    case True
    then show ?thesis using digit [of n] by (subst show_hex.simps) simp
  next
    case False
    then show ?thesis using digit [of "n mod 16"] 1 by (subst show_hex.simps) auto
  qed
qed

lemma hash_at_ok: "hash_ok (hash_at seed n branch)"
  using hex_text_safe [of "unat (splitmix64 (seed XOR n * 0x0100000001B3 XOR word_rotl 17 branch))"]
  by (fastforce simp: hash_ok_def hash_at_def is_header_safe_hash_def pad_hex_def list_all_iff Let_def)

lemma sim_block_fields:
  assumes "sim_block encode seed n = Some b"
  shows "number b = n" "hash b = hash_at seed n 0" "parent_number b = (if n = 0 then 0 else n - 1)"
    "parent_hash b = (if n = 0 then ''0x0'' else hash_at seed (n - 1) 0)"
    "encode (sim_line seed n (parent_number b) (hash b) (parent_hash b)) = Some (json_line_zstd b)"
  using assms by (auto simp: sim_block_def Let_def)

lemma generate_chain_ok:
  assumes "generate encode seed len = Some sim"
  shows "chain_ok (sim_blocks sim)" "i < unat len \<Longrightarrow> number (sim_blocks sim ! i) = of_nat i"
proof -
  let ?cs = "sim_blocks sim"
  note g = generate_blocks [OF assms]
  have blk: "number (?cs ! i) = of_nat i" "hash (?cs ! i) = hash_at seed (of_nat i) 0"
      "parent_number (?cs ! i) = (if (of_nat i :: u64) = 0 then 0 else of_nat i - 1)"
      "parent_hash (?cs ! i) = (if (of_nat i :: u64) = 0 then ''0x0'' else hash_at seed (of_nat i - 1) 0)" if "i < unat len" for i
    using sim_block_fields [OF g(2) [OF that]] by simp_all
  show "i < unat len \<Longrightarrow> number (?cs ! i) = of_nat i" using blk(1) .
  have small: "unat len < 2 ^ 64" using unsigned_less [of len] by simp
  have step: "is_chain (?cs ! i) (?cs ! Suc i) \<and> number (?cs ! i) < number (?cs ! Suc i)" if "Suc i < unat len" for i
  proof -
    have n: "unat (of_nat i :: u64) = i" "unat (of_nat (Suc i) :: u64) = Suc i" using that small by (simp_all add: unat_index del: of_nat_Suc)
    then have "(of_nat (Suc i) :: u64) \<noteq> 0" "(of_nat i :: u64) < of_nat (Suc i)"
      by (metis Zero_not_Suc unat_0) (metis n lessI word_less_nat_alt)
    then show ?thesis using blk [of i] blk [of "Suc i"] that by (simp add: is_chain_def)
  qed
  have linked: "linked_chain bs" if "\<And>i. Suc i < length bs \<Longrightarrow> is_chain (bs ! i) (bs ! Suc i) \<and> number (bs ! i) < number (bs ! Suc i)" for bs
    using that
  proof (induction bs rule: linked_chain.induct)
    case (1 a b bs)
    have "is_chain a b \<and> number a < number b" using 1(2) [of 0] by simp
    moreover have "linked_chain (b # bs)" using 1(1) 1(2) [of "Suc _"] by fastforce
    ultimately show ?case by simp
  qed auto
  have "linked_chain ?cs" using linked step g(1) by simp
  moreover have "hash_ok ''0x0''" by (simp add: hash_ok_def is_header_safe_hash_def)
  ultimately show "chain_ok ?cs" using blk hash_at_ok g(1) by (auto simp: chain_ok_def in_set_conv_nth)
qed

subsection \<open>The head stream\<close>

text \<open>The batches are consecutive pieces of the chain, each reporting a block below its own end.\<close>

fun consecutive :: "block list \<Rightarrow> nat \<Rightarrow> block_batch list \<Rightarrow> bool" where
  "consecutive cs b [] = True"
| "consecutive cs b (x # xs) \<longleftrightarrow>
     (\<exists>n > 0. b + n \<le> length cs \<and> batch_blocks x = take n (drop b cs) \<and> report_ok cs (b + n) (batch_finalized_head x) \<and>
        consecutive cs (b + n) xs)"

lemma consecutive_take: "consecutive cs b xs \<Longrightarrow> consecutive cs b (take k xs)"
  by (induction cs b xs arbitrary: k rule: consecutive.induct) (auto simp: take_Cons split: nat.splits)

definition numbered :: "block list \<Rightarrow> bool" where
  "numbered cs \<longleftrightarrow> length cs < 2 ^ 64 \<and> (\<forall>i < length cs. number (cs ! i) = of_nat i)"

lemma numbered_unat: "numbered cs \<Longrightarrow> i < length cs \<Longrightarrow> unat (number (cs ! i)) = i"
  by (simp add: numbered_def unat_index)

lemma head_batch_of_ok:
  assumes "numbered (ss_chain src)" "n > 0" "b + n \<le> length (ss_chain src)"
  shows "\<exists>fin. head_batch_of src (take n (drop b (ss_chain src))) =
      Some \<lparr>batch_blocks = take n (drop b (ss_chain src)), batch_finalized_head = fin\<rparr> \<and>
    report_ok (ss_chain src) (b + n) fin"
proof -
  let ?cs = "ss_chain src" and ?l = "b + n - 1"
  have last: "vec_last (take n (drop b ?cs)) = Some (?cs ! ?l)"
    using assms(2,3) by (simp add: vec_last_def last_conv_nth)
  show ?thesis
  proof (cases "number (?cs ! ?l) < ss_fin_lag src")
    case True
    then show ?thesis by (simp add: head_batch_of_def last report_ok_def)
  next
    case False
    let ?k = "unat (number (?cs ! ?l) - ss_fin_lag src)"
    have "?k \<le> ?l" using False numbered_unat [OF assms(1), of ?l] assms(2,3) by (simp add: unat_sub not_less)
    then have "?k < b + n" "?k < length ?cs" using assms(2,3) by auto
    then show ?thesis using False by (auto simp: head_batch_of_def last vec_get_def report_ok_def)
  qed
qed

lemma finish_head_batch_ok:
  assumes "numbered (ss_chain src)" "b \<le> length (ss_chain src)"
  shows "\<exists>items. finish_head_batch src (drop b (ss_chain src)) = Some items \<and> consecutive (ss_chain src) b items \<and>
    concat (map batch_blocks items) = drop b (ss_chain src)"
proof (cases "b = length (ss_chain src)")
  case False
  then obtain fin where "head_batch_of src (take (length (ss_chain src) - b) (drop b (ss_chain src))) =
      Some \<lparr>batch_blocks = take (length (ss_chain src) - b) (drop b (ss_chain src)), batch_finalized_head = fin\<rparr>"
      "report_ok (ss_chain src) (b + (length (ss_chain src) - b)) fin"
    using head_batch_of_ok [OF assms(1), of "length (ss_chain src) - b" b] assms(2) by auto
  then show ?thesis using False assms(2)
    by (auto simp: finish_head_batch_def intro!: exI [of _ "length (ss_chain src) - b"])
qed (simp add: finish_head_batch_def)

lemma head_items_ok:
  assumes "numbered (ss_chain src)" "sr_to req = None" "\<And>b. b \<in> set (drop h (ss_chain src)) \<Longrightarrow> sr_from req \<le> number b"
    and "b \<le> h" "h \<le> length (ss_chain src)"
  shows "\<exists>items. head_items src req True (drop b (take h (ss_chain src))) (drop h (ss_chain src)) = Some items \<and>
    consecutive (ss_chain src) b items \<and> concat (map batch_blocks items) = drop b (ss_chain src)"
  using assms(3-5)
proof (induction "length (ss_chain src) - h" arbitrary: h b)
  case 0
  then have "h = length (ss_chain src)" by simp
  then show ?case using finish_head_batch_ok [OF assms(1), of b] 0(3) by simp
next
  case (Suc d)
  let ?cs = "ss_chain src"
  have h: "h < length ?cs" using Suc(2) by simp
  have rest: "drop h ?cs = ?cs ! h # drop (Suc h) ?cs" using h by (simp add: Cons_nth_drop_Suc)
  have "sr_from req \<le> number (?cs ! h)" using Suc(3) rest by simp
  then have go: "\<not> number (?cs ! h) < sr_from req" "\<not> beyond req (?cs ! h)" using assms(2) by (auto simp: beyond_def)
  have later: "\<And>b. b \<in> set (drop (Suc h) ?cs) \<Longrightarrow> sr_from req \<le> number b" using Suc(3) rest by simp
  have batch: "drop b (take h ?cs) @ [?cs ! h] = drop b (take (Suc h) ?cs)" using h Suc(4) by (simp add: take_Suc_conv_app_nth)
  have d: "d = length ?cs - Suc h" using Suc(2) by simp
  show ?case
  proof (cases "length (drop b (take (Suc h) ?cs)) = max 1 (ss_batch_size src)")
    case False
    then show ?thesis
      using Suc(1) [of "Suc h" b] later h Suc(2,4) go by (auto simp: rest batch)
  next
    case True
    have full: "drop b (take (Suc h) ?cs) = take (Suc h - b) (drop b ?cs)" by (simp add: drop_take)
    obtain fin where fin: "head_batch_of src (take (Suc h - b) (drop b ?cs)) =
        Some \<lparr>batch_blocks = take (Suc h - b) (drop b ?cs), batch_finalized_head = fin\<rparr>" "report_ok ?cs (b + (Suc h - b)) fin"
      using head_batch_of_ok [OF assms(1), of "Suc h - b" b] h Suc(4) by auto
    obtain items where items: "head_items src req True [] (drop (Suc h) ?cs) = Some items"
        "consecutive ?cs (Suc h) items" "concat (map batch_blocks items) = drop (Suc h) ?cs"
      using Suc(1) [OF d later, of "Suc h"] h by auto
    have "take (Suc h - b) (drop b ?cs) @ drop (Suc h) ?cs = drop b ?cs"
      using append_take_drop_id [of "Suc h - b" "drop b ?cs"] Suc(4) by simp
    moreover have "head_items src req True (drop b (take h ?cs)) (drop h ?cs) =
        Some (\<lparr>batch_blocks = take (Suc h - b) (drop b ?cs), batch_finalized_head = fin\<rparr> # items)"
      using go True fin(1) [folded full] items(1) unfolding rest head_items.simps batch Let_def full [symmetric]
      by (simp del: length_drop length_take)
    moreover have "consecutive ?cs b (\<lparr>batch_blocks = take (Suc h - b) (drop b ?cs), batch_finalized_head = fin\<rparr> # items)"
      using fin(2) items(2) Suc(4) h by (auto intro!: exI [of _ "Suc h - b"])
    ultimately show ?thesis using items(3) by auto
  qed
qed

lemma head_items_start:
  assumes "numbered (ss_chain src)" "sr_from req = of_nat f" "sr_to req = None" "f \<le> length (ss_chain src)" "i \<le> f" "f < 2 ^ 64"
    and "f < length (ss_chain src) \<Longrightarrow> sr_parent_hash req = Some (parent_hash (ss_chain src ! f))"
  shows "head_items src req False [] (drop i (ss_chain src)) = head_items src req True [] (drop f (ss_chain src))"
  using assms(5)
proof (induction "f - i" arbitrary: i)
  case 0
  then have i: "i = f" by simp
  show ?case
  proof (cases "f < length (ss_chain src)")
    case True
    then have "drop f (ss_chain src) = ss_chain src ! f # drop (Suc f) (ss_chain src)" by (simp add: Cons_nth_drop_Suc)
    then show ?thesis using i assms(3) assms(7) [OF True] assms(1,2) True by (simp add: numbered_def beyond_def)
  qed (simp add: i)
next
  case (Suc d)
  then have i: "i < f" "i < length (ss_chain src)" using assms(4) by auto
  then have "drop i (ss_chain src) = ss_chain src ! i # drop (Suc i) (ss_chain src)" by (simp add: Cons_nth_drop_Suc)
  moreover have "number (ss_chain src ! i) < sr_from req"
    using numbered_unat [OF assms(1) i(2)] i(1) assms(2,6) by (simp add: word_less_nat_alt unat_index)
  ultimately show ?case using Suc(1) [of "Suc i"] Suc(2) i(1) by simp
qed

subsection \<open>The ledger\<close>

text \<open>The record of a batch in the ledger, and the batches of a session recorded one after the other.\<close>

definition delivery :: "block_batch \<Rightarrow> batch_event" where
  "delivery batch =
     \<lparr>ev_blocks = map header_tuple (batch_blocks batch), ev_finalized = batch_finalized_head batch,
      ev_finalized_stream = False\<rparr>"

fun record_all :: "(bytes \<Rightarrow> string option) \<Rightarrow> block_batch list \<Rightarrow> ledger \<Rightarrow> ledger option" where
  "record_all decode [] lg = Some lg"
| "record_all decode (x # xs) lg = do { lg' \<leftarrow> record_batch decode x False lg; record_all decode xs lg' }"

text \<open>\<open>line\<close> is what the payload of a block decodes to; the ledger holds it for every block in \<open>bs\<close>.\<close>

definition provenance :: "(block \<Rightarrow> string) \<Rightarrow> block set \<Rightarrow> block set \<Rightarrow> (model_block \<rightharpoonup> ledger_entry) \<Rightarrow> bool" where
  "provenance line all bs es \<longleftrightarrow>
     (\<forall>h e. es h = Some e \<longrightarrow> (\<exists>b \<in> all. h = header_tuple b \<and> le_json_line e = line b)) \<and>
     (\<forall>b \<in> bs. map_option le_json_line (es (header_tuple b)) = Some (line b))"

lemma record_blocks_ok:
  assumes "\<And>b. b \<in> all \<Longrightarrow> decode (json_line_zstd b) = Some (line b)" "inj_on header_tuple all" "set bs \<subseteq> all"
    and "provenance line all old es" "old \<subseteq> all"
  shows "\<exists>es'. record_blocks decode bs es = Some es' \<and> provenance line all (old \<union> set bs) es'"
  using assms(3-5)
proof (induction bs arbitrary: es old)
  case (Cons b bs)
  have b: "b \<in> all" "decode (json_line_zstd b) = Some (line b)" using Cons.prems(1) assms(1) by auto
  show ?case
  proof (cases "es (header_tuple b)")
    case None
    let ?es = "es(header_tuple b \<mapsto> \<lparr>le_header = header_tuple b, le_json_line = line b\<rparr>)"
    have "provenance line all (insert b old) ?es"
      using Cons.prems(2,3) b(1) inj_onD [OF assms(2)] unfolding provenance_def by (auto split: if_splits)
    from Cons.IH [OF _ this] show ?thesis using Cons.prems(1,3) b None by (auto simp: Let_def fun_upd_def)
  next
    case (Some e)
    then obtain b' where "b' \<in> all" "header_tuple b = header_tuple b'" "le_json_line e = line b'"
      using Cons.prems(2) unfolding provenance_def by blast
    then have e: "le_json_line e = line b" using inj_onD [OF assms(2)] b(1) by metis
    then have "provenance line all (insert b old) es" using Cons.prems(2) Some unfolding provenance_def by auto
    from Cons.IH [OF _ this] show ?thesis using Cons.prems(1,3) b Some e by (auto simp: Let_def)
  qed
qed simp

lemma record_all_ok:
  assumes "\<And>b. b \<in> all \<Longrightarrow> decode (json_line_zstd b) = Some (line b)" "inj_on header_tuple all"
    and "set (concat (map batch_blocks xs)) \<subseteq> all" "provenance line all old (entries lg)" "old \<subseteq> all"
  shows "\<exists>lg'. record_all decode xs lg = Some lg' \<and> events lg' = events lg @ map delivery xs \<and>
    provenance line all (old \<union> set (concat (map batch_blocks xs))) (entries lg')"
  using assms(3-5)
proof (induction xs arbitrary: lg old)
  case (Cons x xs)
  have own: "set (batch_blocks x) \<subseteq> all" using Cons.prems(1) by simp
  obtain es where es: "record_blocks decode (batch_blocks x) (entries lg) = Some es"
      "provenance line all (old \<union> set (batch_blocks x)) es"
    using record_blocks_ok [OF assms(1,2) own Cons.prems(2,3)] by blast
  let ?lg = "\<lparr>entries = es, events = events lg @ [delivery x]\<rparr>"
  have "record_batch decode x False lg = Some ?lg" using es(1) by (simp add: record_batch_def delivery_def)
  moreover obtain lg' where "record_all decode xs ?lg = Some lg'" "events lg' = events ?lg @ map delivery xs"
      "provenance line all (old \<union> set (batch_blocks x) \<union> set (concat (map batch_blocks xs))) (entries lg')"
    using Cons.IH [of "old \<union> set (batch_blocks x)" ?lg] Cons.prems es(2) by auto
  ultimately show ?case by (auto simp: Un_assoc)
qed simp

subsection \<open>The session over the stream\<close>

text \<open>The items of a stream ingested one after the other, as long as the session continues.\<close>

fun ingest_all :: "(batch_clock \<times> block_batch) list \<Rightarrow> service \<Rightarrow> session \<Rightarrow> (service \<times> session) option" where
  "ingest_all [] s ses = Some (s, ses)"
| "ingest_all ((clk, x) # xs) s ses = do {
     (st, s', ses') \<leftarrow> ingest_item clk (StreamItem (Inr x)) s ses;
     if st = Continue then ingest_all xs s' ses' else None
   }"

lemma header_tuple_abs: "header_tuple = abs_block"
  by (rule ext) (simp add: header_tuple_def abs_block_def)

lemma ingest_continues:
  assumes "ingest_item clk (StreamItem (Inr x)) s ses = Some (Continue, s', ses')" "svc_inv s"
  shows "svc_inv s'" "\<not> stopped s'"
proof -
  obtain c where c: "svc_chain s = Some c" using assms(2) by (auto simp: svc_inv_def)
  have go: "\<not> stopped s" "ingest_batch clk x s ses = Some (Inr (), s', ses')"
    using assms(1) by (auto simp: ingest_item_def split: if_splits sum.splits Option.bind_splits)
  show "svc_inv s'" "\<not> stopped s'"
    using assms(2) c
    by (cases rule: ingest_batch_cases [where clk = clk and batch = x and ses = ses], use go in \<open>auto simp: same_config_def\<close>)+
qed

lemma follow:
  assumes "chain_ok cs" "consecutive cs b (map snd xs)" "canon cs m a b"
    and "svc_inv s" "svc_chain s = Some c" "chain_rel c m" "m_fin_max m = finalized_max ses" "\<not> stopped s"
  shows "\<exists>m' s' ses' c'. replay_events (map (delivery \<circ> snd) xs) m = Some m' \<and>
    ingest_all xs s ses = Some (s', ses') \<and> svc_chain s' = Some c' \<and> chain_rel c' m'"
  using assms(2-8)
proof (induction xs arbitrary: b m a s c ses)
  case (Cons y xs)
  obtain clk x where y: "y = (clk, x)" by (cases y)
  obtain n where n: "n > 0" "b + n \<le> length cs" "batch_blocks x = take n (drop b cs)"
      "report_ok cs (b + n) (batch_finalized_head x)" "consecutive cs (b + n) (map snd xs)"
    using Cons.prems(1) y by auto
  obtain m' a' where m': "m_apply_batch m (map abs_block (batch_blocks x)) (batch_finalized_head x) = Some (Applied, m')"
      "canon cs m' a' (b + n)"
    using canon_batch [OF assms(1) Cons.prems(2) n(1,2,4)] n(3) by auto
  obtain s' ses' c' where s': "ingest_item clk (StreamItem (Inr x)) s ses = Some (Continue, s', ses')"
      "svc_chain s' = Some c'" "chain_rel c' m'" "m_fin_max m' = finalized_max ses'"
    using ingest_item_sim [OF Cons.prems(3-7), of clk x] m'(1) by auto
  note next_ok = ingest_continues [OF s'(1) Cons.prems(3)]
  from Cons.IH [OF n(5) m'(2) next_ok(1) s'(2-4) next_ok(2)] show ?case
    using y m'(1) s'(1) by (auto simp: delivery_def header_tuple_abs)
qed auto

subsection \<open>The run from the seed on\<close>

lemma numbered_le: "numbered cs \<Longrightarrow> i < length cs \<Longrightarrow> j < length cs \<Longrightarrow> number (cs ! i) \<le> number (cs ! j) \<longleftrightarrow> i \<le> j"
  by (simp add: word_le_nat_alt numbered_unat)

lemma seed_delivered:
  assumes "numbered cs" "i < length cs" "j \<le> i"
  shows "finalized_items (init_request (block_ref_of (cs ! i))) False (drop j cs) =
    [Inr \<lparr>batch_blocks = [cs ! i], batch_finalized_head = Some (block_ref_of (cs ! i))\<rparr>]"
  using assms(3)
proof (induction "i - j" arbitrary: j)
  case 0
  then have j: "j = i" by simp
  let ?req = "init_request (block_ref_of (cs ! i))"
  have "finalized_items ?req True (drop (Suc i) cs) = []"
  proof (cases "Suc i < length cs")
    case True
    then have "number (cs ! Suc i) > number (cs ! i)" using numbered_le [OF assms(1), of "Suc i" i] assms(2) by (simp add: not_le)
    then show ?thesis using True
      by (simp add: Cons_nth_drop_Suc [symmetric] init_request_def block_ref_of_def beyond_def not_less order.strict_implies_order)
  qed simp
  then show ?case using assms(2) by (simp add: j Cons_nth_drop_Suc [symmetric] init_request_def block_ref_of_def beyond_def)
next
  case (Suc d)
  then have j: "j < i" "j < length cs" using assms(2) by auto
  then have "number (cs ! j) < number (cs ! i)" using numbered_le [OF assms(1) assms(2) j(2)] by simp
  then show ?case using Suc(1) [of "Suc j"] Suc(2) j
    by (simp add: Cons_nth_drop_Suc [symmetric] init_request_def block_ref_of_def)
qed

lemma stream_delivered:
  assumes "numbered (ss_chain src)" "linked_chain (ss_chain src)" "i < length (ss_chain src)"
  shows "\<exists>items. sim_get_stream src (ingest_request (block_ref_of (ss_chain src ! i))) = Some (items, False) \<and>
    consecutive (ss_chain src) (Suc i) items \<and> concat (map batch_blocks items) = drop (Suc i) (ss_chain src)"
proof -
  let ?cs = "ss_chain src" and ?req = "ingest_request (block_ref_of (ss_chain src ! i))"
  have small: "length ?cs < 2 ^ 64" using assms(1) by (simp add: numbered_def)
  have n: "number (?cs ! i) = of_nat i" "unat (number (?cs ! i)) = i"
    using assms(1,3) numbered_unat by (simp_all add: numbered_def)
  have "unat (sr_from ?req) = Suc i"
    using n(2) small assms(3) by (simp add: ingest_request_def block_ref_of_def unat_saturating_add)
  then have start: "sr_from ?req = of_nat (Suc i)" by (metis of_nat_unat ucast_id)
  have parent: "sr_parent_hash ?req = Some (parent_hash (?cs ! Suc i))" if "Suc i < length ?cs"
    using linked_chain_nth [OF assms(2) that] by (simp add: ingest_request_def block_ref_of_def is_chain_def)
  have "head_items src ?req False [] ?cs = head_items src ?req True [] (drop (Suc i) ?cs)"
    using head_items_start [OF assms(1) start _ _ _ _ parent, of 0] assms(3) small by (simp add: ingest_request_def)
  moreover have "sr_from ?req \<le> number b" if b: "b \<in> set (drop (Suc i) ?cs)" for b
  proof -
    obtain j where "j < length (drop (Suc i) ?cs)" "b = drop (Suc i) ?cs ! j" using b unfolding in_set_conv_nth by blast
    then have "Suc i + j < length ?cs" "b = ?cs ! (Suc i + j)" by simp_all
    then show ?thesis using numbered_unat [OF assms(1), of "Suc i + j"] start small
      by (simp add: word_le_nat_alt unat_index del: of_nat_Suc)
  qed
  ultimately show ?thesis
    using head_items_ok [OF assms(1), of ?req "Suc i" "Suc i"] assms(3)
    by (auto simp: sim_get_stream_def ingest_request_def)
qed

lemma inj_header_tuple:
  assumes "linked_chain cs"
  shows "inj_on header_tuple (set cs)"
proof (rule inj_onI)
  fix a b assume "a \<in> set cs" "b \<in> set cs" "header_tuple a = header_tuple b"
  then obtain i j where "i < length cs" "a = cs ! i" "j < length cs" "b = cs ! j" "number a = number b"
    by (auto simp: in_set_conv_nth header_tuple_def)
  then show "a = b" using ascending_nth_inj [OF linked_chain_ascending [OF assms], of i j] by simp
qed

definition line_at :: "u64 \<Rightarrow> block \<Rightarrow> string" where
  "line_at seed b = sim_line seed (number b) (parent_number b) (hash b) (parent_hash b)"

definition new_session :: session where
  "new_session = \<lparr>first_block_ingested = False, finalized_max = None\<rparr>"

lemma seeded_start:
  assumes "chain_ok cs" "i < length cs" "parent_number (cs ! i) \<le> number (cs ! i)" "cache_size > 0"
  shows "\<exists>s c. init_service now_ms (Inr (block_ref_of (cs ! i)))
      (Some (Inr \<lparr>batch_blocks = [cs ! i], batch_finalized_head = Some (block_ref_of (cs ! i))\<rparr>))
      (service_with_metrics cache_size auto metrics tc) = Some (Inr (), s) \<and>
    svc_inv s \<and> \<not> stopped s \<and> svc_chain s = Some c \<and> max_size c = cache_size \<and> auto_adjust_finalized_head c = auto \<and>
    blocks c = [cs ! i] \<and> finalized_head c = 0"
proof -
  let ?s = "service_with_metrics cache_size auto metrics tc"
  let ?batch = "\<lparr>batch_blocks = [cs ! i], batch_finalized_head = Some (block_ref_of (cs ! i))\<rparr>"
  have new: "svc_chain ?s = None" "buffer_size ?s = cache_size" "svc_auto_adjust ?s = auto" "\<not> stopped ?s"
    by (simp_all add: service_with_metrics_def)
  have ok: "hash_ok (hash (cs ! i))" "hash_ok (parent_hash (cs ! i))" using assms(1,2) by (auto simp: chain_ok_def)
  then have "batch_ok ?batch" by (simp add: batch_ok_def block_ref_of_def)
  then have v: "validate_ingest_batch ?batch = Inr ()" using validate_ingest_batch_iff by simp
  have "reseeds ?s (cs ! i)" using new(1) by (simp add: reseeds_def)
  then obtain s where s: "replace_chain now_ms (cs ! i) ?s = Some (Inr (), s)" "svc_inv s"
      "svc_chain s = chain_new (cs ! i) cache_size auto" "same_config ?s s"
    by (cases rule: replace_chain_cases [OF disjI2 [OF new(1)] _ assms(3), of now_ms]) (use assms(4) new(2,3) in auto)
  have "init_service now_ms (Inr (block_ref_of (cs ! i))) (Some (Inr ?batch)) ?s = Some (Inr (), s)"
    using s(1) new(2) assms(3,4) ok v leD [OF assms(3)] by (simp add: init_service_def hash_ok_def vec_get_def)
  then show ?thesis using s(2-4) new(4) chain_new_inv(1) [OF assms(4,3), of auto] by (auto simp: same_config_def)
qed

lemma provenance_empty: "provenance line all {} Map.empty"
  by (simp add: provenance_def)

lemma run_of_prefix:
  assumes "chain_ok cs" "i < length cs" "consecutive cs (Suc i) (map snd xs)"
    and "\<And>b. b \<in> set cs \<Longrightarrow> decode (json_line_zstd b) = Some (line b)"
    and "parent_number (cs ! i) \<le> number (cs ! i)"
    and "svc_inv s" "\<not> stopped s" "svc_chain s = Some c" "blocks c = [cs ! i]" "finalized_head c = 0"
    and "set (concat (map batch_blocks (map snd xs))) \<subseteq> set cs"
  shows "\<exists>lg0 lg m s' ses c'.
    record_batch decode \<lparr>batch_blocks = [cs ! i], batch_finalized_head = Some (block_ref_of (cs ! i))\<rparr> True empty_ledger = Some lg0 \<and>
    record_all decode (map snd xs) lg0 = Some lg \<and>
    (\<forall>b \<in> set (cs ! i # concat (map batch_blocks (map snd xs))). line_of lg (header_tuple b) = Some (line b)) \<and>
    replay lg (max_size c) (auto_adjust_finalized_head c) = Some m \<and>
    ingest_all xs s new_session = Some (s', ses) \<and> svc_chain s' = Some c' \<and> chain_rel c' m"
proof -
  let ?seed = "\<lparr>batch_blocks = [cs ! i], batch_finalized_head = Some (block_ref_of (cs ! i))\<rparr>"
  let ?m = "\<lparr>m_blocks = [abs_block (cs ! i)], m_f = 0, m_cache_size = max_size c, m_auto_adjust = auto_adjust_finalized_head c,
      m_fin_max = None, m_alarms = []\<rparr>"
  have lc: "linked_chain cs" and mem: "cs ! i \<in> set cs" using assms(1,2) by (auto simp: chain_ok_def)
  have size: "max_size c > 0" using assms(6,8) by (auto simp: svc_inv_def)
  note inj = inj_header_tuple [OF lc]
  obtain es where es: "record_blocks decode [cs ! i] Map.empty = Some es" "provenance line (set cs) {cs ! i} es"
    using record_blocks_ok [of "set cs" decode line "[cs ! i]" "{}" Map.empty, OF assms(4) inj _ provenance_empty] mem by auto
  let ?lg0 = "\<lparr>entries = es, events = [\<lparr>ev_blocks = [abs_block (cs ! i)], ev_finalized = Some (block_ref_of (cs ! i)),
      ev_finalized_stream = True\<rparr>]\<rparr>"
  have lg0: "record_batch decode ?seed True empty_ledger = Some ?lg0"
    using es(1) by (simp add: record_batch_def empty_ledger_def header_tuple_abs)
  obtain lg where lg: "record_all decode (map snd xs) ?lg0 = Some lg" "events lg = events ?lg0 @ map delivery (map snd xs)"
      "provenance line (set cs) ({cs ! i} \<union> set (concat (map batch_blocks (map snd xs)))) (entries lg)"
    using record_all_ok [of "set cs" decode line "map snd xs" "{cs ! i}" ?lg0, OF assms(4) inj assms(11)] es(2) mem by auto
  have hashes: "hash_ok (hash (cs ! i))" "hash_ok (parent_hash (cs ! i))" using assms(1) mem by (auto simp: chain_ok_def)
  have init: "m_init (abs_block (cs ! i)) (max_size c) (auto_adjust_finalized_head c) = Some (Inr ?m)"
    using size hashes leD [OF assms(5)] by (simp add: m_init_def hash_ok_def header_safe_same m_well_formed_def)
  have canon: "canon cs ?m i (Suc i)"
    using assms(2) size by (simp add: canon_def take_Suc_conv_app_nth)
  have rel: "chain_rel c ?m" using assms(9,10) by (simp add: chain_rel_def)
  obtain m s' ses c' where run: "replay_events (map (delivery \<circ> snd) xs) ?m = Some m"
      "ingest_all xs s new_session = Some (s', ses)" "svc_chain s' = Some c'" "chain_rel c' m"
    using follow [OF assms(1,3) canon assms(6,8) rel _ assms(7), of new_session] by (auto simp: new_session_def)
  have "replay lg (max_size c) (auto_adjust_finalized_head c) = Some m"
    using run(1) init lg(2) by (simp add: replay_def vec_get_def comp_def)
  moreover have "\<forall>b \<in> set (cs ! i # concat (map batch_blocks (map snd xs))). line_of lg (header_tuple b) = Some (line b)"
    using lg(3) by (auto simp: provenance_def line_of_def)
  ultimately show ?thesis using lg0 lg(1) run(2-4) by blast
qed

subsection \<open>Everything generated\<close>

lemma generate_total: "(\<And>line. encode line \<noteq> None) \<Longrightarrow> \<exists>sim. generate encode seed len = Some sim"
proof -
  assume enc: "\<And>line. encode line \<noteq> None"
  have "\<exists>b. sim_block encode seed n = Some b" for n using enc by (auto simp: sim_block_def Let_def)
  then have "\<exists>bs. those (map (\<lambda>i. sim_block encode seed (of_nat i)) is) = Some bs" for "is" :: "nat list"
  proof (induction "is")
    case (Cons i "is")
    obtain b where "sim_block encode seed (of_nat i) = Some b" using Cons.prems by blast
    then show ?case using Cons by fastforce
  qed simp
  then show ?thesis by (fastforce simp: generate_def)
qed

lemma generated:
  assumes "generate encode seed len = Some sim" "\<And>line z. encode line = Some z \<Longrightarrow> decode z = Some line"
  shows "length (sim_blocks sim) = unat len" "chain_ok (sim_blocks sim)" "numbered (sim_blocks sim)"
    "b \<in> set (sim_blocks sim) \<Longrightarrow> decode (json_line_zstd b) = Some (line_at seed b)"
    "b \<in> set (sim_blocks sim) \<Longrightarrow> parent_number b \<le> number b"
proof -
  note len = generate_blocks(1) [OF assms(1)]
  show "length (sim_blocks sim) = unat len" "chain_ok (sim_blocks sim)" using len generate_chain_ok(1) [OF assms(1)] by simp_all
  show "numbered (sim_blocks sim)"
    using generate_chain_ok(2) [OF assms(1)] len unsigned_less [of len] by (simp add: numbered_def)
  show "decode (json_line_zstd b) = Some (line_at seed b)" "parent_number b \<le> number b" if b: "b \<in> set (sim_blocks sim)"
  proof -
    obtain i where i: "i < unat len" "b = sim_blocks sim ! i" using b len by (auto simp: in_set_conv_nth)
    note f = sim_block_fields [OF generate_blocks(2) [OF assms(1) i(1), folded i(2)]]
    show "decode (json_line_zstd b) = Some (line_at seed b)" using assms(2) [OF f(5)] f(1) by (simp add: line_at_def)
    show "parent_number b \<le> number b" using f(1,3) by (auto simp: word_le_nat_alt unat_minus_one)
  qed
qed

text \<open>
  C20.  A simulated run can be replayed.  On the chain generated from any seed, with a codec that decodes
  what it encodes, the simulator seeds a fresh service, its head stream carries the rest of the chain, and
  after any number of its batches: recording the deliveries never panics, the ledger vouches for the line of
  every delivered block, \<open>Ledger::replay\<close> returns a model without a panic, and the service that ingested the
  batches, whatever its clocks, holds the buffer of that model.
\<close>

theorem simulated_run_replays:
  assumes "generate encode seed len = Some sim" and "\<And>line z. encode line = Some z \<Longrightarrow> decode z = Some line"
    and "i < len" and "cache_size > 0"
  shows "\<exists>h first s items.
    sim_get_finalized_head (sim_source_new sim batch_size fin_lag i) = Some h \<and>
    sim_get_finalized_stream (sim_source_new sim batch_size fin_lag i) (init_request h) = [Inr first] \<and>
    init_service now_ms (Inr h) (Some (Inr first)) (service_with_metrics cache_size auto metrics tc) = Some (Inr (), s) \<and>
    sim_get_stream (sim_source_new sim batch_size fin_lag i) (ingest_request h) = Some (items, False) \<and>
    batch_blocks first @ concat (map batch_blocks items) = drop (unat i) (sim_blocks sim) \<and>
    (\<forall>k xs. map snd xs = take k items \<longrightarrow>
      (\<exists>lg0 lg m s' ses c.
        record_batch decode first True empty_ledger = Some lg0 \<and> record_all decode (take k items) lg0 = Some lg \<and>
        (\<forall>b \<in> set (batch_blocks first @ concat (map batch_blocks (take k items))).
           line_of lg (header_tuple b) = Some (line_at seed b)) \<and>
        replay lg cache_size auto = Some m \<and>
        ingest_all xs s new_session = Some (s', ses) \<and> svc_chain s' = Some c \<and> chain_rel c m))"
proof -
  let ?cs = "sim_blocks sim" and ?src = "sim_source_new sim batch_size fin_lag i" and ?i = "unat i"
  note g = generated [of encode seed len sim decode, OF assms(1,2)]
  have i: "?i < length ?cs" using assms(3) g(1) by (simp add: word_less_nat_alt)
  have lc: "linked_chain ?cs" using g(2) by (simp add: chain_ok_def)
  have src: "ss_chain ?src = ?cs" "ss_init_finalized ?src = i" by (simp_all add: sim_source_new_def)
  let ?first = "\<lparr>batch_blocks = [?cs ! ?i], batch_finalized_head = Some (block_ref_of (?cs ! ?i))\<rparr>"
  have head: "sim_get_finalized_head ?src = Some (block_ref_of (?cs ! ?i))"
    using i by (simp add: sim_get_finalized_head_def src vec_get_def)
  have seed: "sim_get_finalized_stream ?src (init_request (block_ref_of (?cs ! ?i))) = [Inr ?first]"
    using seed_delivered [OF g(3) i, of 0] by (simp add: sim_get_finalized_stream_def src)
  have parent: "parent_number (?cs ! ?i) \<le> number (?cs ! ?i)" using g(5) i by simp
  obtain s c where s: "init_service now_ms (Inr (block_ref_of (?cs ! ?i))) (Some (Inr ?first))
        (service_with_metrics cache_size auto metrics tc) = Some (Inr (), s)"
      "svc_inv s" "\<not> stopped s" "svc_chain s = Some c" "max_size c = cache_size" "auto_adjust_finalized_head c = auto"
      "blocks c = [?cs ! ?i]" "finalized_head c = 0"
    using seeded_start [OF g(2) i parent assms(4)] by blast
  obtain items where items: "sim_get_stream ?src (ingest_request (block_ref_of (?cs ! ?i))) = Some (items, False)"
      "consecutive ?cs (Suc ?i) items" "concat (map batch_blocks items) = drop (Suc ?i) ?cs"
    using stream_delivered [of ?src ?i] g(3) lc i by (auto simp: src)
  have all: "batch_blocks ?first @ concat (map batch_blocks items) = drop ?i ?cs"
    using items(3) i by (simp add: Cons_nth_drop_Suc)
  have prefix: "set (concat (map batch_blocks (take k items))) \<subseteq> set ?cs" for k
  proof -
    have "set (concat (map batch_blocks (take k items))) \<subseteq> set (concat (map batch_blocks items))" by (auto dest: in_set_takeD)
    then show ?thesis unfolding items(3) using set_drop_subset by (rule order.trans)
  qed
  have run: "\<exists>lg0 lg m s' ses c'. record_batch decode ?first True empty_ledger = Some lg0 \<and> record_all decode (take k items) lg0 = Some lg \<and>
        (\<forall>b \<in> set (batch_blocks ?first @ concat (map batch_blocks (take k items))).
           line_of lg (header_tuple b) = Some (line_at seed b)) \<and>
        replay lg cache_size auto = Some m \<and>
        ingest_all xs s new_session = Some (s', ses) \<and> svc_chain s' = Some c' \<and> chain_rel c' m"
    if xs: "map snd xs = take k items" for k xs
    using run_of_prefix [of ?cs ?i xs decode "line_at seed", OF g(2) i _ g(4) parent s(2-4,7,8)] prefix [of k]
      consecutive_take [OF items(2), of k] s(5,6) unfolding xs by simp
  show ?thesis using head seed s(1) items(1) all run by blast
qed

theorem simulated_run_replays_witness:
  "\<exists>sim h first items lg m.
    generate Some 7 5 = Some sim \<and>
    sim_get_finalized_head (sim_source_new sim 2 1 1) = Some h \<and>
    sim_get_finalized_stream (sim_source_new sim 2 1 1) (init_request h) = [Inr first] \<and>
    sim_get_stream (sim_source_new sim 2 1 1) (ingest_request h) = Some (items, False) \<and>
    length (batch_blocks first @ concat (map batch_blocks items)) = 4 \<and> replay lg 3 True = Some m"
proof -
  obtain sim where sim: "generate Some 7 5 = Some sim" using generate_total [of Some 7 5] by auto
  have len: "length (sim_blocks sim) = 5" using generate_blocks(1) [OF sim] by simp
  obtain h first s items where run: "sim_get_finalized_head (sim_source_new sim 2 1 1) = Some h"
      "sim_get_finalized_stream (sim_source_new sim 2 1 1) (init_request h) = [Inr first]"
      "sim_get_stream (sim_source_new sim 2 1 1) (ingest_request h) = Some (items, False)"
      "batch_blocks first @ concat (map batch_blocks items) = drop (unat (1 :: u64)) (sim_blocks sim)"
      "\<forall>k xs. map snd xs = take k items \<longrightarrow> (\<exists>lg0 lg m s' ses c.
        record_batch Some first True empty_ledger = Some lg0 \<and> record_all Some (take k items) lg0 = Some lg \<and>
        (\<forall>b \<in> set (batch_blocks first @ concat (map batch_blocks (take k items))).
           line_of lg (header_tuple b) = Some (line_at 7 b)) \<and>
        replay lg 3 True = Some m \<and>
        ingest_all xs s new_session = Some (s', ses) \<and> svc_chain s' = Some c \<and> chain_rel c m)"
    using simulated_run_replays [OF sim, where decode = Some and i = 1 and cache_size = 3 and batch_size = 2
        and fin_lag = 1 and now_ms = 0 and auto = True and metrics = "metrics_new 1 0 0" and tc = "bt_new 10 5"]
    by (simp del: not_None_eq split del: if_split) blast
  obtain lg m where lg: "replay lg 3 True = Some m" using run(5) [rule_format, of "[]" 0] by auto
  have "length (batch_blocks first @ concat (map batch_blocks items)) = 4" unfolding run(4) using len by simp
  then show ?thesis using sim run(1-3) lg by (intro exI conjI)
qed

end
