(* ===== verification/Json_Map.thy ===== *)
theory Json_Map
  imports Json
begin

text \<open>
  The edits of JSON values: \<open>serde_json::Map\<close> with insertion order kept (feature \<open>preserve_order\<close>), where a
  replaced member stays in place and a removed one is overwritten by the last, and the mutable accessors
  of \<open>Value\<close>.
\<close>

fun map_insert :: "string \<Rightarrow> json \<Rightarrow> (string \<times> json) list \<Rightarrow> (string \<times> json) list" where
  "map_insert k v [] = [(k, v)]"
| "map_insert k v ((k', v') # kvs) = (if k' = k then (k, v) # kvs else (k', v') # map_insert k v kvs)"

definition map_remove :: "string \<Rightarrow> (string \<times> json) list \<Rightarrow> (string \<times> json) list" where
  "map_remove k kvs =
     (case position (\<lambda>kv. fst kv = k) kvs of
        None \<Rightarrow> kvs
      | Some p \<Rightarrow> butlast (kvs[p := last kvs]))"

definition json_at :: "nat \<Rightarrow> json \<Rightarrow> json option" where
  "json_at i v = Option.bind (as_array v) (\<lambda>vs. vec_get vs i)"

fun as_bool :: "json \<Rightarrow> bool option" where
  "as_bool (JBool b) = Some b"
| "as_bool v = None"

fun on_array :: "(json list \<Rightarrow> json list) \<Rightarrow> json \<Rightarrow> json" where
  "on_array f (JArray vs) = JArray (f vs)"
| "on_array f v = v"

fun on_object :: "((string \<times> json) list \<Rightarrow> (string \<times> json) list) \<Rightarrow> json \<Rightarrow> json" where
  "on_object f (JObject kvs) = JObject (f kvs)"
| "on_object f v = v"

lemma map_of_map_insert [simp]: "map_of (map_insert k v kvs) = (map_of kvs)(k \<mapsto> v)"
  by (induction kvs) auto

lemma json_get_insert [simp]: "json_get k' (JObject (map_insert k v kvs)) = (if k' = k then Some v else json_get k' (JObject kvs))"
  by simp

lemma map_insert_keys [simp]: "set (map fst (map_insert k v kvs)) = insert k (set (map fst kvs))"
  by (induction kvs rule: map_insert.induct) auto

lemma distinct_insert: "distinct (map fst kvs) \<Longrightarrow> distinct (map fst (map_insert k v kvs))"
proof (induction kvs)
  case (Cons x kvs)
  then show ?case using map_insert_keys [of k v kvs] by (cases x) (auto simp del: map_insert_keys set_map)
qed simp

text \<open>A removal keeps every other member.\<close>

lemma set_map_remove:
  assumes "distinct (map fst kvs)"
  shows "set (map_remove k kvs) = {kv \<in> set kvs. fst kv \<noteq> k}" "distinct (map fst (map_remove k kvs))"
proof -
  have "set (map_remove k kvs) = {kv \<in> set kvs. fst kv \<noteq> k} \<and> distinct (map fst (map_remove k kvs))"
  proof (cases "position (\<lambda>kv. fst kv = k) kvs")
    case None
    then have "map_remove k kvs = kvs" by (simp add: map_remove_def)
    moreover have "\<forall>x \<in> set kvs. fst x \<noteq> k" using None by (simp add: position_None_iff)
    ultimately show ?thesis using assms by auto
  next
    case (Some p)
    then have p: "p < length kvs" "fst (kvs ! p) = k" by (auto simp: position_Some_iff)
    obtain xs x where kvs: "kvs = xs @ [x]" using p(1) by (cases kvs rule: rev_cases) auto
    show ?thesis
    proof (cases "p = length xs")
      case True
      then have "map_remove k kvs = xs" "fst x = k" using Some p(2) by (simp_all add: map_remove_def kvs list_update_append)
      moreover have "\<forall>kv \<in> set xs. fst kv \<noteq> fst x" "distinct (map fst xs)" using assms by (auto simp: kvs image_iff)
      ultimately show ?thesis by (auto simp: kvs)
    next
      case False
      then have q: "p < length xs" using p(1) kvs by simp
      then have split: "xs = take p xs @ xs ! p # drop (Suc p) xs" by (simp add: id_take_nth_drop)
      have rem: "map_remove k kvs = take p xs @ x # drop (Suc p) xs"
        using Some q by (simp add: map_remove_def kvs list_update_append butlast_append upd_conv_take_nth_drop)
      have key: "fst (xs ! p) = k" using p(2) q by (simp add: kvs nth_append)
      have "take p xs @ xs ! p # drop (Suc p) xs @ [x] = kvs" using split by (metis append.assoc append_Cons kvs)
      then have "distinct (map fst (take p xs @ xs ! p # drop (Suc p) xs @ [x]))" using assms by simp
      moreover have "set kvs = insert (xs ! p) (set (take p xs @ x # drop (Suc p) xs))" by (subst kvs, subst split) auto
      ultimately show ?thesis unfolding rem using key by (auto simp: image_iff)
    qed
  qed
  then show "set (map_remove k kvs) = {kv \<in> set kvs. fst kv \<noteq> k}" "distinct (map fst (map_remove k kvs))" by auto
qed

lemma map_of_map_remove:
  assumes "distinct (map fst kvs)"
  shows "map_of (map_remove k kvs) = (map_of kvs)(k := None)"
proof (rule ext)
  fix k'
  note r = set_map_remove [OF assms, of k]
  have "map_of (map_remove k kvs) k' = Some v \<longleftrightarrow> ((map_of kvs)(k := None)) k' = Some v" for v
    using r assms by (simp add: map_of_eq_Some_iff)
  then show "map_of (map_remove k kvs) k' = ((map_of kvs)(k := None)) k'" by (metis not_None_eq)
qed

end
