(* ===== verification/Rpc_Error.thy ===== *)
theory Rpc_Error
  imports Json
begin

text \<open>
  The error values of the JSON-RPC client and their classification
  (\<open>rpc-client/src/error.rs\<close>, \<open>rpc-client/src/observer.rs\<close>).  \<open>Connection\<close> carries the description of
  the \<open>reqwest\<close> error.  The lemmas say which classes of error each predicate accepts and how the
  predicates order: a plain-retryable error is batch-retryable, and switching on the retries of
  internal server errors only adds to both.
\<close>

record rpc_error_info =
  code :: int
  message :: string
  data :: "json option"

datatype rpc_error =
    InvalidConfig string
  | Rpc int string "json option"
  | Http nat string
  | Connection string
  | Disconnected string
  | Timeout
  | Protocol string
  | RetryExhausted rpc_error
  | RetryRequested string

definition from_info :: "rpc_error_info \<Rightarrow> rpc_error" where
  "from_info info = Rpc (code info) (message info) (data info)"

definition message_matches_rate_limit :: "string \<Rightarrow> bool" where
  "message_matches_rate_limit msg =
     (let lower = to_lowercase msg
      in str_contains lower ''rate limit'' \<or> str_contains lower ''too many requests'')"

definition simple_re_is_match :: "string \<Rightarrow> string \<Rightarrow> bool" where
  "simple_re_is_match pat s = str_contains (to_lowercase s) pat"

definition execution_timeout_is_match :: "string \<Rightarrow> bool" where
  "execution_timeout_is_match = simple_re_is_match ''execution timeout''"

definition request_timed_out_is_match :: "string \<Rightarrow> bool" where
  "request_timed_out_is_match s =
     (let lower = to_lowercase s
      in case str_find lower ''request'' of
           Some pos \<Rightarrow> str_contains (drop pos lower) ''timed out''
         | None \<Rightarrow> False)"

definition internal_error_is_match :: "string \<Rightarrow> bool" where
  "internal_error_is_match s =
     (let lower = to_lowercase s
      in str_contains lower ''internal error'' \<or> str_contains lower ''internal server error'')"

fun is_retryable :: "rpc_error \<Rightarrow> bool \<Rightarrow> bool" where
  "is_retryable (InvalidConfig m) internal = False"
| "is_retryable (RetryRequested m) internal = True"
| "is_retryable Timeout internal = True"
| "is_retryable (Connection m) internal = True"
| "is_retryable (Disconnected m) internal = True"
| "is_retryable (Http status body) internal = (status \<in> {408, 429, 502, 503, 504, 529})"
| "is_retryable (Rpc c m d) internal =
     (if c = - 32005 \<or> c = 429 then True
      else if message_matches_rate_limit m then True
      else if execution_timeout_is_match m then True
      else if request_timed_out_is_match m then True
      else if internal then
        (if c = - 32000 \<or> c = - 32603 then True
         else if internal_error_is_match m then True
         else False)
      else False)"
| "is_retryable (Protocol m) internal = False"
| "is_retryable (RetryExhausted e) internal = False"

definition is_retryable_batch :: "rpc_error \<Rightarrow> bool \<Rightarrow> bool" where
  "is_retryable_batch e internal =
     (if is_retryable e internal then True
      else case e of
          Protocol m \<Rightarrow> True
        | Rpc c m d \<Rightarrow>
            if m = ''response too large'' then True
            else if c = - 32000 then True
            else False
        | _ \<Rightarrow> False)"

fun is_batch_shape :: "rpc_error \<Rightarrow> bool" where
  "is_batch_shape (Protocol m) = True"
| "is_batch_shape (Rpc c m d) = (m = ''response too large'')"
| "is_batch_shape e = False"

definition is_retryable_batch_only :: "rpc_error \<Rightarrow> bool \<Rightarrow> bool" where
  "is_retryable_batch_only e internal =
     (is_retryable_batch e internal \<and> \<not> is_retryable e internal)"

text \<open>The shape of a round trip and the three reports of \<open>RpcObserver\<close>.\<close>

datatype request_kind = Single | Batch

datatype observation =
    OnRequest request_kind nat
  | OnError rpc_error
  | OnRetry rpc_error

subsection \<open>Facts\<close>

lemma is_retryable_mono: "is_retryable e False \<Longrightarrow> is_retryable e internal"
  by (cases e) (auto split: if_splits)

lemma is_retryable_batch_weaker: "is_retryable e internal \<Longrightarrow> is_retryable_batch e internal"
  by (simp add: is_retryable_batch_def)

lemma is_retryable_batch_mono: "is_retryable_batch e False \<Longrightarrow> is_retryable_batch e internal"
  using is_retryable_mono [of e internal]
  by (cases e) (auto simp: is_retryable_batch_def split: if_splits)

lemma batch_shape_retryable_batch: "is_batch_shape e \<Longrightarrow> is_retryable_batch e internal"
  by (cases e) (auto simp: is_retryable_batch_def)

text \<open>The exact extent of what only a batch retries.\<close>

lemma is_retryable_batch_only_iff:
  "is_retryable_batch_only e internal \<longleftrightarrow>
     \<not> is_retryable e internal \<and>
     (is_batch_shape e \<or> (\<exists>m d. e = Rpc (- 32000) m d))"
  by (cases e) (auto simp: is_retryable_batch_only_def is_retryable_batch_def)

text \<open>
  The search behind \<open>/request.*timed out/i\<close>: every match of the expression is found, because the
  first \<open>request\<close> lies at or before the one of the match.
\<close>

lemma request_timed_out_complete:
  assumes "to_lowercase s = a @ ''request'' @ b @ ''timed out'' @ c"
  shows "request_timed_out_is_match s"
proof -
  let ?l = "to_lowercase s"
  have "str_contains ?l ''request''"
    unfolding assms by (rule str_contains_append)
  then obtain i where i: "str_find ?l ''request'' = Some i"
    using str_find_None_iff [of ?l "''request''"] by auto
  have at: "take (length ''request'') (drop (length a) ?l) = ''request''"
    unfolding assms by simp
  have le: "i \<le> length a"
  proof (rule ccontr)
    assume "\<not> i \<le> length a"
    then have "length a < i" by simp
    from str_find_least [OF i this] at show False by (rule notE)
  qed
  have "drop i ?l = (drop i a @ ''request'' @ b) @ ''timed out'' @ c"
    unfolding assms using le by simp
  then have "str_contains (drop i ?l) ''timed out''"
    by (metis str_contains_append)
  then show ?thesis by (simp add: request_timed_out_is_match_def i Let_def)
qed

end
