(* ===== verification/Rpc_Transport.thy ===== *)
theory Rpc_Transport
  imports Rpc_Error "HOL-Library.Multiset"
begin

text \<open>
  The wire types and the HTTP transport (\<open>rpc-client/src/transport.rs\<close>).  What \<open>reqwest\<close> delivers
  for a request is an input (\<open>http_exchange\<close>); the JSON parser is an argument, \<open>parse_one\<close> for a
  single response and \<open>parse_many\<close> for an array of them, each giving the error text or the value.

  The locale \<open>rpc_transport\<close> is the contract of the trait \<open>RpcTransport\<close>: a batch that succeeds has
  one response per request, in request order.  It is interpreted on the HTTP transport.
\<close>

record rpc_request =
  jsonrpc :: string
  wire_id :: u64
  wire_method :: string
  wire_params :: "json option"

record rpc_response =
  id_value :: "json option"
  result :: "json option"
  error :: "rpc_error_info option"

record owned_rpc_request =
  req_id :: u64
  req_method :: string
  req_params :: "json option"

definition as_wire :: "owned_rpc_request \<Rightarrow> rpc_request" where
  "as_wire r =
     \<lparr>jsonrpc = ''2.0'', wire_id = req_id r, wire_method = req_method r, wire_params = req_params r\<rparr>"

text \<open>Sending the body fails, the server answers with a status, or the body cannot be read.\<close>

datatype http_exchange =
    SendTimeout
  | SendFailed string
  | Answered nat string
  | BodyTimeout
  | BodyFailed string

fun is_success :: "nat \<Rightarrow> bool" where
  "is_success status = (200 \<le> status \<and> status < 300)"

fun post_raw :: "http_exchange \<Rightarrow> rpc_error + bytes" where
  "post_raw SendTimeout = Inl Timeout"
| "post_raw (SendFailed e) = Inl (Connection e)"
| "post_raw (Answered status body) = (if \<not> is_success status then Inl (Http status body) else Inr body)"
| "post_raw BodyTimeout = Inl Timeout"
| "post_raw (BodyFailed e) = Inl (Connection e)"

definition resp_id :: "rpc_response \<Rightarrow> u64" where
  "resp_id r = (case Option.bind (id_value r) as_u64 of Some n \<Rightarrow> n | None \<Rightarrow> 0)"

definition show_u64 :: "u64 \<Rightarrow> string" where
  "show_u64 n = decimal (unat n)"

definition http_send_single ::
    "(bytes \<Rightarrow> string + rpc_response) \<Rightarrow> http_exchange \<Rightarrow> owned_rpc_request
     \<Rightarrow> rpc_error + rpc_response" where
  "http_send_single parse_one x req =
     (case post_raw x of
        Inl e \<Rightarrow> Inl e
      | Inr raw \<Rightarrow>
          (case parse_one raw of
             Inl e \<Rightarrow> Inl (Protocol (''invalid JSON: '' @ e))
           | Inr resp \<Rightarrow>
               (if resp_id resp \<noteq> req_id req then
                  (if error resp \<noteq> None then Inr resp
                   else Inl (Protocol (''Got response for unknown request '' @ show_u64 (resp_id resp))))
                else Inr resp)))"

text \<open>The map from ids to responses: a later response with the same id replaces an earlier one.\<close>

definition response_map :: "rpc_response list \<Rightarrow> u64 \<rightharpoonup> rpc_response" where
  "response_map rs = map_of (rev (map (\<lambda>r. (resp_id r, r)) rs))"

fun take_responses ::
    "(u64 \<rightharpoonup> rpc_response) \<Rightarrow> owned_rpc_request list \<Rightarrow> rpc_error + rpc_response list" where
  "take_responses m [] = Inr []"
| "take_responses m (r # rs) =
     (case m (req_id r) of
        None \<Rightarrow> Inl (Protocol (''Missing result for call id '' @ show_u64 (req_id r) @ '' in batch response''))
      | Some resp \<Rightarrow>
          (case take_responses (m(req_id r := None)) rs of
             Inl e \<Rightarrow> Inl e
           | Inr ordered \<Rightarrow> Inr (resp # ordered)))"

definition http_send_batch ::
    "(bytes \<Rightarrow> string + rpc_response) \<Rightarrow> (bytes \<Rightarrow> string + rpc_response list) \<Rightarrow> http_exchange
     \<Rightarrow> owned_rpc_request list \<Rightarrow> rpc_error + rpc_response list" where
  "http_send_batch parse_one parse_many x reqs =
     (case post_raw x of
        Inl e \<Rightarrow> Inl e
      | Inr raw \<Rightarrow>
          (case parse_many raw of
             Inl e \<Rightarrow>
               (case parse_one raw of
                  Inr resp \<Rightarrow>
                    (case error resp of
                       Some info \<Rightarrow> Inl (from_info info)
                     | None \<Rightarrow> Inl (Protocol (''invalid JSON in batch response: '' @ e)))
                | Inl e' \<Rightarrow> Inl (Protocol (''invalid JSON in batch response: '' @ e)))
           | Inr responses \<Rightarrow>
               (if length responses \<noteq> length reqs then
                  Inl (Protocol (''Invalid length of a batch response: expected '' @
                                 decimal (length reqs) @ '', got '' @ decimal (length responses)))
                else take_responses (response_map responses) reqs)))"

text \<open>
  The contract of a transport, over the inputs \<open>'x\<close> a request may meet.  \<open>serves q r\<close> says that the
  response \<open>r\<close> is one for the request \<open>q\<close>.  Over HTTP that is a response with the id of the request,
  or an error envelope in reply to a single call.
\<close>

definition answers :: "owned_rpc_request \<Rightarrow> rpc_response \<Rightarrow> bool" where
  "answers q r \<longleftrightarrow> resp_id r = req_id q"

definition answers_or_fails :: "owned_rpc_request \<Rightarrow> rpc_response \<Rightarrow> bool" where
  "answers_or_fails q r \<longleftrightarrow> answers q r \<or> error r \<noteq> None"

locale rpc_transport =
  fixes send_single :: "'x \<Rightarrow> owned_rpc_request \<Rightarrow> rpc_error + rpc_response"
    and send_batch :: "'x \<Rightarrow> owned_rpc_request list \<Rightarrow> rpc_error + rpc_response list"
    and serves :: "owned_rpc_request \<Rightarrow> rpc_response \<Rightarrow> bool"
  assumes single_serves: "send_single x q = Inr r \<Longrightarrow> serves q r"
    and batch_serves: "send_batch x qs = Inr rs \<Longrightarrow> list_all2 serves qs rs"
begin

lemma batch_length: "send_batch x qs = Inr rs \<Longrightarrow> length rs = length qs"
  using batch_serves list_all2_lengthD by force

end

lemma response_map_id: "response_map rs n = Some r \<Longrightarrow> resp_id r = n \<and> r \<in> set rs"
  by (auto simp: response_map_def dest!: map_of_SomeD)

lemma take_responses_answers:
  "(\<And>n r. m n = Some r \<Longrightarrow> resp_id r = n) \<Longrightarrow> take_responses m qs = Inr rs \<Longrightarrow> list_all2 answers qs rs"
proof (induction qs arbitrary: m rs)
  case (Cons q qs)
  obtain r out where r: "m (req_id q) = Some r" "take_responses (m(req_id q := None)) qs = Inr out"
    "rs = r # out" using Cons.prems(2) by (auto split: option.splits sum.splits)
  have "list_all2 answers qs out"
    using Cons.prems(1) by (intro Cons.IH [OF _ r(2)]) (auto split: if_splits)
  moreover have "answers q r" using r Cons.prems(1) by (simp add: answers_def)
  ultimately show ?case using r by simp
qed simp

interpretation http:
  rpc_transport "http_send_single parse_one" "http_send_batch parse_one parse_many" answers_or_fails
  for parse_one parse_many
proof unfold_locales
  show "http_send_single parse_one x q = Inr r \<Longrightarrow> answers_or_fails q r" for x q r
    by (auto simp: http_send_single_def answers_or_fails_def answers_def split: sum.splits if_splits)
next
  fix x qs rs
  assume "http_send_batch parse_one parse_many x qs = Inr rs"
  then have "take_responses (response_map (projr (parse_many (projr (post_raw x))))) qs = Inr rs"
    by (auto simp: http_send_batch_def split: sum.splits if_splits option.splits)
  then have "list_all2 answers qs rs" by (rule take_responses_answers [rotated]) (simp add: response_map_id)
  then show "list_all2 answers_or_fails qs rs"
    by (rule list_all2_mono) (simp add: answers_or_fails_def)
qed

text \<open>A complete answer is found whatever order the server sends it in.\<close>

lemma take_responses_complete:
  assumes "distinct (map req_id qs)" "\<forall>q \<in> set qs. m (req_id q) \<noteq> None"
  shows "take_responses m qs = Inr (map (\<lambda>q. the (m (req_id q))) qs)"
  using assms
proof (induction qs arbitrary: m)
  case (Cons q qs)
  obtain r where r: "m (req_id q) = Some r" using Cons.prems by auto
  have other: "(m(req_id q := None)) (req_id q') = m (req_id q')" if "q' \<in> set qs" for q'
  proof -
    have "req_id q' \<noteq> req_id q" using Cons.prems(1) that by (metis distinct.simps(2) imageI list.set_map list.simps(9))
    then show ?thesis by simp
  qed
  have "take_responses (m(req_id q := None)) qs = Inr (map (\<lambda>q'. the ((m(req_id q := None)) (req_id q'))) qs)"
    using Cons.prems other by (intro Cons.IH) auto
  then show ?case using r other by simp
qed simp

lemma take_responses_dom: "take_responses m qs = Inr rs \<Longrightarrow> q \<in> set qs \<Longrightarrow> m (req_id q) \<noteq> None"
proof (induction qs arbitrary: m rs)
  case (Cons p qs)
  then show ?case by (fastforce split: option.splits sum.splits if_splits)
qed simp

lemma response_map_self:
  assumes "distinct (map resp_id rs)" "r \<in> set rs"
  shows "response_map rs (resp_id r) = Some r"
proof -
  have "distinct (map fst (rev (map (\<lambda>r. (resp_id r, r)) rs)))"
    using assms(1) by (simp add: rev_map [symmetric] comp_def)
  then show ?thesis using assms(2) by (auto simp: response_map_def intro!: map_of_is_SomeI)
qed

lemma response_map_dom: "response_map rs n \<noteq> None \<longleftrightarrow> n \<in> set (map resp_id rs)"
  unfolding response_map_def by (simp add: map_of_eq_None_iff image_image del: not_None_eq)

lemma take_responses_perm:
  assumes dq: "distinct (map req_id qs)" and ids: "mset (map resp_id rs) = mset (map req_id qs)"
  shows "\<exists>out. take_responses (response_map rs) qs = Inr out \<and> map resp_id out = map req_id qs \<and>
           mset out = mset rs"
proof -
  let ?f = "\<lambda>n. the (response_map rs n)"
  have dr: "distinct (map resp_id rs)" using dq ids by (metis mset_eq_imp_distinct_iff)
  have sets: "set (map resp_id rs) = set (map req_id qs)" using ids by (metis mset_eq_setD)
  have all: "\<forall>q \<in> set qs. response_map rs (req_id q) \<noteq> None"
    using sets by (auto simp: response_map_dom simp del: not_None_eq)
  have out: "take_responses (response_map rs) qs = Inr (map ?f (map req_id qs))"
    using take_responses_complete [OF dq all] by (simp add: comp_def)
  have "map resp_id (map ?f (map req_id qs)) = map req_id qs"
    using all response_map_id by fastforce
  moreover have "mset (map ?f (map req_id qs)) = mset rs"
  proof -
    have "mset (map ?f (map req_id qs)) = image_mset ?f (mset (map resp_id rs))"
      unfolding ids by (rule mset_map)
    also have "\<dots> = mset (map (\<lambda>r. ?f (resp_id r)) rs)" by (simp add: image_mset.compositionality comp_def)
    also have "map (\<lambda>r. ?f (resp_id r)) rs = rs"
      using response_map_self [OF dr] by (auto intro: map_idI)
    finally show ?thesis .
  qed
  ultimately show ?thesis using out by blast
qed

lemma take_responses_ids:
  assumes dq: "distinct (map req_id qs)" and len: "length rs = length qs"
    and out: "take_responses (response_map rs) qs = Inr out"
  shows "mset (map resp_id rs) = mset (map req_id qs)"
proof -
  have sub: "set (map req_id qs) \<subseteq> set (map resp_id rs)"
    using take_responses_dom [OF out] by (auto simp: response_map_dom simp del: not_None_eq)
  have "card (set (map req_id qs)) = length (map resp_id rs)"
    using distinct_card [OF dq] len by simp
  moreover have "card (set (map req_id qs)) \<le> card (set (map resp_id rs))"
    by (rule card_mono [OF _ sub]) simp
  ultimately have card: "card (set (map resp_id rs)) = length (map resp_id rs)"
    using card_length [of "map resp_id rs"] by simp
  then have "distinct (map resp_id rs)" by (rule card_distinct)
  moreover have "set (map req_id qs) = set (map resp_id rs)"
    using card_subset_eq [OF _ sub] card \<open>card (set (map req_id qs)) = length (map resp_id rs)\<close> by simp
  ultimately show ?thesis using dq by (metis set_eq_iff_mset_eq_distinct)
qed

lemma take_responses_error: "take_responses m qs = Inl e \<Longrightarrow> is_batch_shape e"
  by (induction qs arbitrary: m) (auto split: option.splits sum.splits)

subsection \<open>Batch answers arrive in request order\<close>

text \<open>
  C12.  A batch answered with an array succeeds exactly when the ids of the responses are those of
  the requests, in whatever order the server sends them; the result then holds the server's responses
  rearranged into request order.
\<close>

theorem http_batch_request_order:
  assumes "distinct (map req_id reqs)" and "is_success status" and "parse_many body = Inr responses"
  shows "let res = http_send_batch parse_one parse_many (Answered status body) reqs
         in (\<not> isl res \<longleftrightarrow> mset (map resp_id responses) = mset (map req_id reqs)) \<and>
            (case res of Inl e \<Rightarrow> is_batch_shape e
             | Inr out \<Rightarrow> map resp_id out = map req_id reqs \<and> mset out = mset responses)"
proof -
  let ?t = "take_responses (response_map responses) reqs"
  have res: "http_send_batch parse_one parse_many (Answered status body) reqs =
      (if length responses \<noteq> length reqs then
         Inl (Protocol (''Invalid length of a batch response: expected '' @
                        decimal (length reqs) @ '', got '' @ decimal (length responses)))
       else ?t)"
    using assms by (simp add: http_send_batch_def)
  have shape: "?t = Inl e \<Longrightarrow> is_batch_shape e" for e
    by (rule take_responses_error)
  show ?thesis
  proof (cases "mset (map resp_id responses) = mset (map req_id reqs)")
    case True
    then have "length responses = length reqs" by (metis length_map size_mset)
    then show ?thesis using take_responses_perm [OF assms(1) True] res True by (auto simp: Let_def)
  next
    case False
    then have "length responses = length reqs \<Longrightarrow> isl ?t"
      using take_responses_ids [OF assms(1)] by (cases ?t) auto
    then show ?thesis using res False shape by (auto simp: Let_def split: sum.splits)
  qed
qed

definition sample_request :: "u64 \<Rightarrow> owned_rpc_request" where
  "sample_request n = \<lparr>req_id = n, req_method = ''eth_chainId'', req_params = None\<rparr>"

definition sample_response :: "u64 \<Rightarrow> rpc_response" where
  "sample_response n =
     \<lparr>id_value = Some (JNumber (PosInt n)), result = Some (JString ''0x1''), error = None\<rparr>"

theorem http_batch_request_order_witness:
  "\<exists>out. http_send_batch (\<lambda>_. Inl ''not an object'') (\<lambda>_. Inr [sample_response 8, sample_response 7])
            (Answered 200 ''body'') [sample_request 7, sample_request 8] = Inr out \<and>
         map resp_id out = [7, 8]"
  using http_batch_request_order [of "[sample_request 7, sample_request 8]" 200
      "\<lambda>_. Inr [sample_response 8, sample_response 7]" "''body''" "[sample_response 8, sample_response 7]"
      "\<lambda>_. Inl ''not an object''"]
  by (auto simp: sample_request_def sample_response_def resp_id_def Let_def split: sum.splits)

end
