(* ===== verification/Upstream.thy ===== *)
theory Upstream
  imports Json_Map Sim Rpc_Transport
begin

unbundle bit_operations_syntax

text \<open>
  The fault-injecting upstream of the harness (\<open>harness/src/upstream.rs\<close>): the scripted chain, the faults
  with the calls they apply to, and the answer of the stub to a request body.

  The state is what the mutex of the stub guards.  A wait is a number of milliseconds in the result; the
  server, the JSON text and the sleep are library.
\<close>

subsection \<open>The scripted chain\<close>

fun digest_words :: "nat \<Rightarrow> u64 \<Rightarrow> string" where
  "digest_words 0 s = []"
| "digest_words (Suc n) s = (let s' = splitmix64 s in pad_hex 16 (unat s') @ digest_words n s')"

definition digest :: "u64 \<Rightarrow> u64 \<Rightarrow> u64 \<Rightarrow> string" where
  "digest kind a b = ''0x'' @ digest_words 4 (splitmix64 (kind XOR word_rotl 17 a XOR b * 0x9E3779B97F4A7C15))"

definition zero_bloom :: string where
  "zero_bloom = ''0x'' @ replicate 512 (CHR ''0'')"

definition addr :: "u64 \<Rightarrow> string" where
  "addr n = ''0x'' @ pad_hex 40 (unat n)"

definition EMPTY_TRIE_ROOT :: string where
  "EMPTY_TRIE_ROOT = ''0x56e81f171bcc55a6ff8345e692c0f86e5b48e01b996cadc001622fb5e363b421''"

record chain_block =
  cb_number :: u64
  cb_hash :: string
  cb_parent_hash :: string
  cb_txs :: "string list"

record stub_chain =
  sb_blocks :: "chain_block list"
  sb_branch :: u64

definition commitment :: "chain_block \<Rightarrow> u64 \<Rightarrow> string" where
  "commitment b salt = (if cb_txs b = [] then EMPTY_TRIE_ROOT else digest 7 (cb_number b) salt)"

text \<open>The range ends before the sum of its bounds, which wraps in a release build.\<close>

definition branched :: "u64 \<Rightarrow> u64 \<Rightarrow> nat \<Rightarrow> u64 \<Rightarrow> stub_chain" where
  "branched first_number n_blocks txs_per_block branch =
     \<lparr>sb_blocks =
        map (\<lambda>i. let n = of_nat i
                  in \<lparr>cb_number = n, cb_hash = digest branch n 1, cb_parent_hash = digest branch (saturating_sub n 1) 1,
                      cb_txs = map (\<lambda>j. digest branch n (100 + of_nat j)) [0..<txs_per_block]\<rparr>)
          [unat first_number..<unat (first_number + n_blocks)],
      sb_branch = branch\<rparr>"

definition linear_chain :: "u64 \<Rightarrow> u64 \<Rightarrow> nat \<Rightarrow> stub_chain" where
  "linear_chain first_number n_blocks txs_per_block = branched first_number n_blocks txs_per_block 0"

definition chain_first :: "stub_chain \<Rightarrow> chain_block option" where
  "chain_first c = vec_get (sb_blocks c) 0"

definition chain_last :: "stub_chain \<Rightarrow> chain_block option" where
  "chain_last c = vec_last (sb_blocks c)"

definition chain_at :: "u64 \<Rightarrow> stub_chain \<Rightarrow> chain_block option" where
  "chain_at n c = find (\<lambda>b. cb_number b = n) (sb_blocks c)"

definition by_hash :: "string \<Rightarrow> stub_chain \<Rightarrow> chain_block option" where
  "by_hash h c = find (\<lambda>b. cb_hash b = h) (sb_blocks c)"

definition foreign :: "u64 \<Rightarrow> stub_chain \<Rightarrow> chain_block option" where
  "foreign n c = do {
     b \<leftarrow> chain_first c;
     vec_get (sb_blocks (branched n 1 (length (cb_txs b)) (sb_branch c + 1))) 0
   }"

subsection \<open>Payloads\<close>

definition json_nat :: "nat \<Rightarrow> json" where
  "json_nat n = JNumber (PosInt (of_nat n))"

definition json_int :: "int \<Rightarrow> json" where
  "json_int i = JNumber (if i \<ge> 0 then PosInt (of_int i) else NegInt i)"

definition tx_json :: "chain_block \<Rightarrow> nat \<Rightarrow> string \<Rightarrow> json" where
  "tx_json b i h = JObject
     [(''hash'', JString h), (''nonce'', JString (to_qty (of_nat i))), (''blockHash'', JString (cb_hash b)),
      (''blockNumber'', JString (to_qty (cb_number b))), (''transactionIndex'', JString (to_qty (of_nat i))),
      (''from'', JString (addr 1)), (''to'', JString (addr 2)), (''value'', JString ''0x0''),
      (''gas'', JString ''0x5208''), (''gasPrice'', JString ''0x1''), (''input'', JString ''0x''),
      (''type'', JString ''0x2''), (''chainId'', JString ''0x1''), (''maxFeePerGas'', JString ''0x1''),
      (''maxPriorityFeePerGas'', JString ''0x1''), (''accessList'', JArray []), (''v'', JString ''0x0''),
      (''r'', JString ''0x1''), (''s'', JString ''0x1'')]"

definition header_json :: "chain_block \<Rightarrow> bool \<Rightarrow> (string \<times> json) list" where
  "header_json b full_txs =
     [(''number'', JString (to_qty (cb_number b))), (''hash'', JString (cb_hash b)),
      (''parentHash'', JString (cb_parent_hash b)), (''difficulty'', JString ''0x0''),
      (''totalDifficulty'', JString ''0x0''), (''extraData'', JString ''0x''), (''gasLimit'', JString ''0x1c9c380''),
      (''gasUsed'', JString (to_qty (21000 * of_nat (length (cb_txs b))))),
      (''sha3Uncles'', JString ''0x1dcc4de8dec75d7aab85b567b6ccd41ad312451b948a7413f0a142fd40d49347''),
      (''logsBloom'', JString zero_bloom), (''transactionsRoot'', JString (commitment b 2)),
      (''receiptsRoot'', JString (commitment b 3)), (''stateRoot'', JString (digest 7 (cb_number b) 4)),
      (''miner'', JString (addr 0)), (''mixHash'', JString (digest 7 (cb_number b) 5)),
      (''nonce'', JString ''0x0000000000000000''), (''baseFeePerGas'', JString ''0x1''), (''size'', JString ''0x220''),
      (''timestamp'', JString (to_qty (1700000000 + cb_number b * 12))),
      (''transactions'', JArray (if full_txs then map (\<lambda>(i, h). tx_json b i h) (enumerate 0 (cb_txs b))
                                 else map JString (cb_txs b))),
      (''uncles'', JArray []), (''withdrawals'', JArray [])]"

definition receipt_json :: "chain_block \<Rightarrow> nat \<Rightarrow> json option" where
  "receipt_json b i = do {
     h \<leftarrow> vec_get (cb_txs b) i;
     Some (JObject
       [(''blockHash'', JString (cb_hash b)), (''blockNumber'', JString (to_qty (cb_number b))),
        (''transactionHash'', JString h), (''transactionIndex'', JString (to_qty (of_nat i))),
        (''contractAddress'', JNull), (''cumulativeGasUsed'', JString (to_qty (21000 * (of_nat i + 1)))),
        (''gasUsed'', JString ''0x5208''), (''from'', JString (addr 1)), (''to'', JString (addr 2)),
        (''effectiveGasPrice'', JString ''0x1''), (''logs'', JArray []), (''logsBloom'', JString zero_bloom),
        (''status'', JString ''0x1''), (''type'', JString ''0x2'')])
   }"

definition debug_frames_json :: "chain_block \<Rightarrow> json" where
  "debug_frames_json b = JArray (map (\<lambda>h. JObject
     [(''txHash'', JString h),
      (''result'', JObject
         [(''type'', JString ''CALL''), (''from'', JString (addr 1)), (''to'', JString (addr 2)), (''value'', JString ''0x0''),
          (''gas'', JString ''0x5208''), (''gasUsed'', JString ''0x5208''), (''input'', JString ''0x''),
          (''output'', JString ''0x'')])]) (cb_txs b))"

definition debug_state_diffs_json :: "chain_block \<Rightarrow> json" where
  "debug_state_diffs_json b = JArray (map (\<lambda>h. JObject
     [(''txHash'', JString h),
      (''result'', JObject
         [(''pre'', JObject [(addr 1, JObject [(''balance'', JString ''0x2''), (''nonce'', json_nat 1)])]),
          (''post'', JObject [(addr 1, JObject [(''balance'', JString ''0x1''), (''nonce'', json_nat 2)])])])]) (cb_txs b))"

definition replay_trace_frame :: "chain_block \<Rightarrow> nat \<Rightarrow> json option" where
  "replay_trace_frame b i = do {
     h \<leftarrow> vec_get (cb_txs b) i;
     Some (JObject
       [(''action'', JObject
           [(''callType'', JString ''call''), (''from'', JString (addr 1)), (''to'', JString (addr 2)),
            (''value'', JString ''0x0''), (''gas'', JString ''0x5208''), (''input'', JString ''0x'')]),
        (''result'', JObject [(''gasUsed'', JString ''0x5208''), (''output'', JString ''0x'')]),
        (''blockHash'', JString (cb_hash b)), (''blockNumber'', JNumber (PosInt (cb_number b))),
        (''subtraces'', json_nat 0), (''traceAddress'', JArray []), (''transactionHash'', JString h),
        (''transactionPosition'', json_nat i), (''type'', JString ''call'')])
   }"

definition trace_replays :: "chain_block \<Rightarrow> json option" where
  "trace_replays b =
     map_option JArray (those (map (\<lambda>(i, h). map_option (\<lambda>frame. JObject
       [(''transactionHash'', JString h), (''output'', JString ''0x''), (''trace'', JArray [frame]),
        (''stateDiff'', JObject [(addr 1, JObject [(''balance'', JObject
           [(''*'', JObject [(''from'', JString ''0x2''), (''to'', JString ''0x1'')])])])])])
       (replay_trace_frame b i)) (enumerate 0 (cb_txs b))))"

definition trace_block_frames :: "chain_block \<Rightarrow> json option" where
  "trace_block_frames b =
     map_option (\<lambda>frames. JArray (frames @ [JObject
       [(''action'', JObject [(''author'', JString (addr 0)), (''rewardType'', JString ''block''), (''value'', JString ''0x1'')]),
        (''blockHash'', JString (cb_hash b)), (''blockNumber'', JNumber (PosInt (cb_number b))), (''result'', JNull),
        (''subtraces'', json_nat 0), (''traceAddress'', JArray []), (''transactionHash'', JNull),
        (''transactionPosition'', JNull), (''type'', JString ''reward'')]]))
       (those (map (replay_trace_frame b) [0..<length (cb_txs b)]))"

definition debug_methods :: "string list" where
  "debug_methods = [''debug_traceBlockByNumber'', ''debug_traceBlockByHash'']"

definition malformed_entry :: "string \<Rightarrow> string option \<Rightarrow> json" where
  "malformed_entry meth tracer =
     (if meth \<in> set debug_methods \<and> tracer = Some ''prestateTracer''
      then JArray [JObject [(''result'', JObject [(''pre'', JString ''not-a-map'')])]]
      else if meth \<in> set debug_methods then JArray [JObject [(''result'', JObject [(''type'', JString ''CALL'')])]]
      else if meth = ''trace_replayBlockTransactions'' then JArray [JObject [(''trace'', JString ''not-an-array'')]]
      else if meth = ''trace_block'' then JArray [JObject [(''type'', JString ''call''), (''subtraces'', JString ''many'')]]
      else JArray [JObject [(''unexpected'', JBool True)]])"

definition component_json :: "string \<Rightarrow> string option \<Rightarrow> chain_block \<Rightarrow> json option" where
  "component_json meth tracer b =
     (if meth = ''eth_getBlockReceipts'' then map_option JArray (those (map (receipt_json b) [0..<length (cb_txs b)]))
      else if meth \<in> set debug_methods
      then Some (if tracer = Some ''prestateTracer'' then debug_state_diffs_json b else debug_frames_json b)
      else if meth = ''trace_replayBlockTransactions'' then trace_replays b
      else if meth = ''trace_block'' then trace_block_frames b
      else Some JNull)"

definition tracer_of :: "string \<Rightarrow> json \<Rightarrow> string option" where
  "tracer_of meth params =
     (if meth \<in> set debug_methods
      then Option.bind (Option.bind (json_at 1 params) (json_get ''tracer'')) as_str
      else None)"

subsection \<open>The state of the stub\<close>

datatype stub_fault =
    ErrorFault int string
  | NullFault
  | WrongBlock
  | TruncatedFault
  | MalformedFault
  | MalformedEntry
  | DropKey string
  | EmptyKey string
  | Duplicated
  | MixedFrames
  | InvalidDebugFrameStructure
  | ForgedField string json
  | DelayFault duration

definition fault_error :: "string \<Rightarrow> stub_fault" where
  "fault_error msg = ErrorFault (- 32003) msg"

record call_key =
  ck_method :: string
  ck_tracer :: "string option"
  ck_block :: u64
  ck_by_hash :: bool

record injection =
  in_method :: string
  in_tracer :: "string option"
  in_block :: u64
  in_fault :: stub_fault
  in_remaining :: "nat option"

record stub =
  st_chain :: stub_chain
  st_head :: u64
  st_finalized :: u64
  st_injections :: "injection list"
  st_calls :: "(call_key \<times> nat) list"

definition stub_start :: "stub_chain \<Rightarrow> stub option" where
  "stub_start c = do {
     l \<leftarrow> chain_last c;
     f \<leftarrow> chain_first c;
     Some \<lparr>st_chain = c, st_head = cb_number l, st_finalized = cb_number f, st_injections = [], st_calls = []\<rparr>
   }"

definition set_head :: "u64 \<Rightarrow> stub \<Rightarrow> stub" where
  "set_head n s = s\<lparr>st_head := n\<rparr>"

definition set_finalized :: "u64 \<Rightarrow> stub \<Rightarrow> stub" where
  "set_finalized n s = s\<lparr>st_finalized := n\<rparr>"

definition push_injection :: "string \<Rightarrow> string option \<Rightarrow> u64 \<Rightarrow> stub_fault \<Rightarrow> nat option \<Rightarrow> stub \<Rightarrow> stub" where
  "push_injection meth tracer block fault remaining s =
     s\<lparr>st_injections := st_injections s @
       [\<lparr>in_method = meth, in_tracer = tracer, in_block = block, in_fault = fault, in_remaining = remaining\<rparr>]\<rparr>"

definition inject :: "string \<Rightarrow> u64 \<Rightarrow> stub_fault \<Rightarrow> stub \<Rightarrow> stub" where
  "inject meth block fault = push_injection meth None block fault None"

definition inject_tracer :: "string \<Rightarrow> string \<Rightarrow> u64 \<Rightarrow> stub_fault \<Rightarrow> stub \<Rightarrow> stub" where
  "inject_tracer meth tracer block fault = push_injection meth (Some tracer) block fault None"

definition inject_for :: "string \<Rightarrow> u64 \<Rightarrow> stub_fault \<Rightarrow> nat \<Rightarrow> stub \<Rightarrow> stub" where
  "inject_for meth block fault n = push_injection meth None block fault (Some n)"

definition calls_where :: "(call_key \<Rightarrow> bool) \<Rightarrow> stub \<Rightarrow> nat" where
  "calls_where p s = sum_list (map snd (filter (\<lambda>(k, n). p k) (st_calls s)))"

definition stub_calls :: "string \<Rightarrow> u64 \<Rightarrow> stub \<Rightarrow> nat" where
  "stub_calls meth block = calls_where (\<lambda>k. ck_method k = meth \<and> ck_block k = block)"

definition calls_with_tracer :: "string \<Rightarrow> string \<Rightarrow> u64 \<Rightarrow> stub \<Rightarrow> nat" where
  "calls_with_tracer meth tracer block =
     calls_where (\<lambda>k. ck_method k = meth \<and> ck_tracer k = Some tracer \<and> ck_block k = block)"

definition calls_by_address :: "string \<Rightarrow> u64 \<Rightarrow> bool \<Rightarrow> stub \<Rightarrow> nat" where
  "calls_by_address meth block hashed =
     calls_where (\<lambda>k. ck_method k = meth \<and> ck_block k = block \<and> ck_by_hash k = hashed)"

definition calls_by_hash :: "string \<Rightarrow> u64 \<Rightarrow> stub \<Rightarrow> nat" where
  "calls_by_hash meth block = calls_by_address meth block True"

definition calls_by_number :: "string \<Rightarrow> u64 \<Rightarrow> stub \<Rightarrow> nat" where
  "calls_by_number meth block = calls_by_address meth block False"

fun count_call :: "call_key \<Rightarrow> (call_key \<times> nat) list \<Rightarrow> (call_key \<times> nat) list" where
  "count_call k [] = [(k, 1)]"
| "count_call k ((k', n) # kns) = (if k' = k then (k', n + 1) # kns else (k', n) # count_call k kns)"

subsection \<open>Answers\<close>

definition visible :: "u64 option \<Rightarrow> stub \<Rightarrow> chain_block option" where
  "visible block s = do {
     n \<leftarrow> block;
     if n > st_head s then None else chain_at n (st_chain s)
   }"

definition block_methods :: "string list" where
  "block_methods =
     [''eth_getBlockByNumber'', ''eth_getBlockReceipts'', ''debug_traceBlockByNumber'', ''debug_traceBlockByHash'',
      ''trace_replayBlockTransactions'', ''trace_block'']"

definition addressed_block :: "string \<Rightarrow> json \<Rightarrow> stub \<Rightarrow> u64 option" where
  "addressed_block meth p0 s =
     (if meth \<in> set block_methods then do {
        t \<leftarrow> as_str p0;
        if t \<in> {''latest'', ''safe'', ''pending''} then Some (st_head s)
        else if t = ''finalized'' then Some (st_finalized s)
        else if length t > 42 then map_option cb_number (by_hash t (st_chain s))
        else Some (qty2_u64 t)
      }
      else if meth = ''eth_getTransactionReceipt'' then do {
        h \<leftarrow> as_str p0;
        map_option cb_number (find (\<lambda>b. h \<in> set (cb_txs b)) (sb_blocks (st_chain s)))
      }
      else None)"

definition applies :: "string \<Rightarrow> string option \<Rightarrow> u64 \<Rightarrow> injection \<Rightarrow> bool" where
  "applies meth tracer block i \<longleftrightarrow>
     in_method i = meth \<and> in_block i = block \<and> (in_tracer i = None \<or> in_tracer i = tracer) \<and> in_remaining i \<noteq> Some 0"

fun take_fault :: "string \<Rightarrow> string option \<Rightarrow> u64 \<Rightarrow> injection list \<Rightarrow> stub_fault option \<times> injection list" where
  "take_fault meth tracer block [] = (None, [])"
| "take_fault meth tracer block (i # is) =
     (if applies meth tracer block i
      then (Some (in_fault i), i\<lparr>in_remaining := map_option (\<lambda>n. n - 1) (in_remaining i)\<rparr> # is)
      else map_prod id ((#) i) (take_fault meth tracer block is))"

definition truthful :: "string \<Rightarrow> string option \<Rightarrow> u64 \<Rightarrow> stub \<Rightarrow> json option" where
  "truthful meth tracer block s =
     (case visible (Some block) s of Some b \<Rightarrow> component_json meth tracer b | None \<Rightarrow> Some JNull)"

definition full_txs :: "json \<Rightarrow> bool" where
  "full_txs params = (case Option.bind (json_at 1 params) as_bool of Some b \<Rightarrow> b | None \<Rightarrow> False)"

definition truth :: "string \<Rightarrow> json \<Rightarrow> json \<Rightarrow> string option \<Rightarrow> u64 option \<Rightarrow> stub \<Rightarrow> json option" where
  "truth meth params p0 tracer block s =
     (if meth = ''eth_chainId'' then Some (JString ''0x1'')
      else if meth = ''eth_blockNumber'' then Some (JString (to_qty (st_head s)))
      else if meth = ''eth_getLogs'' then Some (JArray [])
      else if meth = ''eth_getBlockByNumber'' then
        Some (case visible block s of Some b \<Rightarrow> JObject (header_json b (full_txs params)) | None \<Rightarrow> JNull)
      else if meth = ''eth_getTransactionReceipt'' then
        (let h = (case as_str p0 of Some h \<Rightarrow> h | None \<Rightarrow> [])
         in case visible block s of
              None \<Rightarrow> Some JNull
            | Some b \<Rightarrow> (case position (\<lambda>t. t = h) (cb_txs b) of None \<Rightarrow> Some JNull | Some i \<Rightarrow> receipt_json b i))
      else (case visible block s of Some b \<Rightarrow> component_json meth tracer b | None \<Rightarrow> Some JNull))"

definition drop_last_entry :: "string \<Rightarrow> string \<Rightarrow> json list \<Rightarrow> json list" where
  "drop_last_entry meth dropped items =
     (if meth = ''trace_block''
      then filter (\<lambda>f. Option.bind (json_get ''transactionHash'' f) as_str \<noteq> Some dropped) items
      else butlast items)"

definition empty_member :: "string \<Rightarrow> (string \<times> json) list \<Rightarrow> (string \<times> json) list" where
  "empty_member key kvs = (if contains_key key kvs then map_insert key (JArray []) kvs else kvs)"

definition mix_frames :: "json list \<Rightarrow> json list" where
  "mix_frames items =
     (case items of
        JObject kvs # e # es \<Rightarrow>
          (let stripped = map_remove ''transactionHash'' kvs
           in JObject
                (case (json_get ''trace'' (last (e # es)), map_of stripped ''trace'') of
                   (Some (JArray extra), Some (JArray own)) \<Rightarrow> map_insert ''trace'' (JArray (own @ extra)) stripped
                 | _ \<Rightarrow> stripped) # e # es)
      | _ \<Rightarrow> items)"

definition unmappable_call :: json where
  "unmappable_call =
     JArray [JObject [(''type'', JString ''SELFDESTRUCT''), (''from'', JString (addr 2)), (''gas'', JString ''0x0'')]]"

definition break_frame :: "json list \<Rightarrow> json list" where
  "break_frame items =
     (case items of
        JObject kvs # es \<Rightarrow>
          (case map_of kvs ''result'' of
             Some (JObject res) \<Rightarrow> JObject (map_insert ''result'' (JObject (map_insert ''calls'' unmappable_call res)) kvs) # es
           | _ \<Rightarrow> items)
      | _ \<Rightarrow> items)"

definition faulted :: "string \<Rightarrow> json \<Rightarrow> string option \<Rightarrow> u64 \<Rightarrow> stub_fault \<Rightarrow> stub \<Rightarrow> ((int \<times> string) + json) option" where
  "faulted meth params tracer block fault s =
     (let edit = (\<lambda>f. map_option (\<lambda>v. Inr (on_array f v)) (truthful meth tracer block s))
      in case fault of
           ErrorFault c msg \<Rightarrow> Some (Inl (c, msg))
         | NullFault \<Rightarrow> Some (Inr JNull)
         | MalformedFault \<Rightarrow> Some (Inr (JObject [(''unexpected'', JString ''payload'')]))
         | WrongBlock \<Rightarrow> map_option Inr (Option.bind (foreign block (st_chain s)) (component_json meth tracer))
         | TruncatedFault \<Rightarrow>
             (case visible (Some block) s of
                None \<Rightarrow> Some (Inr JNull)
              | Some b \<Rightarrow> edit (drop_last_entry meth (case vec_last (cb_txs b) of Some h \<Rightarrow> h | None \<Rightarrow> [])))
         | MalformedEntry \<Rightarrow> Some (Inr (malformed_entry meth tracer))
         | DropKey key \<Rightarrow> edit (map (on_object (map_remove key)))
         | EmptyKey key \<Rightarrow> edit (map (on_object (empty_member key)))
         | Duplicated \<Rightarrow> edit (\<lambda>es. case vec_last es of Some e \<Rightarrow> es @ [e] | None \<Rightarrow> es)
         | MixedFrames \<Rightarrow> edit mix_frames
         | InvalidDebugFrameStructure \<Rightarrow> edit break_frame
         | DelayFault d \<Rightarrow>
             map_option Inr
               (truth meth params (case json_at 0 params of Some v \<Rightarrow> v | None \<Rightarrow> JNull) tracer (Some block) s)
         | ForgedField key v \<Rightarrow>
             Some (Inr (case visible (Some block) s of
                          Some b \<Rightarrow> JObject (map_insert key v (header_json b (full_txs params)))
                        | None \<Rightarrow> JNull)))"

definition stub_answer ::
    "string \<Rightarrow> json \<Rightarrow> duration \<Rightarrow> stub \<Rightarrow> (((int \<times> string) + json) \<times> duration \<times> stub) option" where
  "stub_answer meth params delay s =
     (let p0 = (case json_at 0 params of Some v \<Rightarrow> v | None \<Rightarrow> JNull);
          tracer = tracer_of meth params;
          block = addressed_block meth p0 s;
          hashed = (case as_str p0 of Some v \<Rightarrow> length v > 42 | None \<Rightarrow> False)
      in case block of
           None \<Rightarrow> map_option (\<lambda>v. (Inr v, delay, s)) (truth meth params p0 tracer block s)
         | Some n \<Rightarrow>
             (let key = \<lparr>ck_method = meth, ck_tracer = tracer, ck_block = n, ck_by_hash = hashed\<rparr>;
                  (fault, left) = take_fault meth tracer n (st_injections s);
                  s' = s\<lparr>st_calls := count_call key (st_calls s), st_injections := left\<rparr>
              in case fault of
                   None \<Rightarrow> map_option (\<lambda>v. (Inr v, delay, s')) (truth meth params p0 tracer block s')
                 | Some f \<Rightarrow>
                     map_option (\<lambda>r. (r, (case f of DelayFault d \<Rightarrow> max delay d | _ \<Rightarrow> delay), s'))
                       (faulted meth params tracer n f s')))"

definition envelope :: "json \<Rightarrow> (int \<times> string) + json \<Rightarrow> json" where
  "envelope call_id res =
     JObject ([(''jsonrpc'', JString ''2.0''), (''id'', call_id)] @
       (case res of
          Inr v \<Rightarrow> [(''result'', v)]
        | Inl (c, msg) \<Rightarrow> [(''error'', JObject [(''code'', json_int c), (''message'', JString msg)])]))"

fun answer_calls :: "json list \<Rightarrow> duration \<Rightarrow> stub \<Rightarrow> (json list \<times> duration \<times> stub) option" where
  "answer_calls [] delay s = Some ([], delay, s)"
| "answer_calls (call # calls) delay s = do {
     let call_id = (case json_get ''id'' call of Some v \<Rightarrow> v | None \<Rightarrow> json_nat 1);
     let meth = (case Option.bind (json_get ''method'' call) as_str of Some m \<Rightarrow> m | None \<Rightarrow> []);
     let params = (case json_get ''params'' call of Some v \<Rightarrow> v | None \<Rightarrow> JArray []);
     (res, delay', s') \<leftarrow> stub_answer meth params delay s;
     (responses, delay'', s'') \<leftarrow> answer_calls calls delay' s';
     Some (envelope call_id res # responses, delay'', s'')
   }"

text \<open>The body of the request is parsed by the library; what does not parse counts as an empty object.\<close>

definition stub_handle :: "string + json \<Rightarrow> stub \<Rightarrow> (json \<times> duration \<times> stub) option" where
  "stub_handle parsed s = do {
     let req = (case parsed of Inr v \<Rightarrow> v | Inl e \<Rightarrow> JObject []);
     (responses, delay, s') \<leftarrow> answer_calls (case as_array req of Some vs \<Rightarrow> vs | None \<Rightarrow> [req]) 0 s;
     Some (case (responses, as_array req) of
             (single # _, None) \<Rightarrow> single
           | _ \<Rightarrow> JArray responses, delay, s')
   }"

subsection \<open>The chain is linked\<close>

lemma branched_blocks:
  assumes "unat first_number + unat n_blocks < 2 ^ 64"
  shows "length (sb_blocks (branched first_number n_blocks t branch)) = unat n_blocks"
    "i < unat n_blocks \<Longrightarrow> cb_number (sb_blocks (branched first_number n_blocks t branch) ! i) = first_number + of_nat i"
    "Suc i < unat n_blocks \<Longrightarrow> cb_parent_hash (sb_blocks (branched first_number n_blocks t branch) ! Suc i) =
       cb_hash (sb_blocks (branched first_number n_blocks t branch) ! i)"
proof -
  have sum: "unat (first_number + n_blocks) = unat first_number + unat n_blocks"
    using assms by (simp add: unat_word_ariths)
  show "length (sb_blocks (branched first_number n_blocks t branch)) = unat n_blocks" by (simp add: branched_def sum)
  have nth: "sb_blocks (branched first_number n_blocks t branch) ! i =
      (let n = first_number + of_nat i
       in \<lparr>cb_number = n, cb_hash = digest branch n 1, cb_parent_hash = digest branch (saturating_sub n 1) 1,
           cb_txs = map (\<lambda>j. digest branch n (100 + of_nat j)) [0..<t]\<rparr>)" if "i < unat n_blocks" for i
    using that by (simp add: branched_def sum Let_def)
  show "i < unat n_blocks \<Longrightarrow> cb_number (sb_blocks (branched first_number n_blocks t branch) ! i) = first_number + of_nat i"
    by (simp add: nth Let_def)
  assume i: "Suc i < unat n_blocks"
  have "unat (saturating_sub (first_number + of_nat (Suc i)) 1) = unat (first_number + of_nat i)"
    using i assms by (simp add: unat_saturating_sub unat_word_ariths unat_of_nat take_bit_nat_eq_self del: of_nat_Suc)
  then have "saturating_sub (first_number + of_nat (Suc i)) 1 = first_number + of_nat i" by (simp add: word_unat_eq_iff)
  then show "cb_parent_hash (sb_blocks (branched first_number n_blocks t branch) ! Suc i) =
      cb_hash (sb_blocks (branched first_number n_blocks t branch) ! i)"
    using i by (simp add: nth Let_def del: of_nat_Suc)
qed

subsection \<open>Faults heal and calls are counted\<close>

primrec faults_of :: "nat \<Rightarrow> string \<Rightarrow> string option \<Rightarrow> u64 \<Rightarrow> injection list \<Rightarrow> stub_fault option list" where
  "faults_of 0 meth tracer block is = []"
| "faults_of (Suc k) meth tracer block is =
     (let (f, is') = take_fault meth tracer block is in f # faults_of k meth tracer block is')"

lemma take_fault_skips:
  "\<forall>i \<in> set is. \<not> applies meth tracer block i \<Longrightarrow>
   take_fault meth tracer block (is @ js) = map_prod id ((@) is) (take_fault meth tracer block js)"
  by (induction "is") (auto simp: map_prod_def split: prod.splits)

lemma inject_for_heals:
  assumes "\<forall>i \<in> set is. \<not> applies meth tracer block i" "in_method j = meth" "in_tracer j = None" "in_block j = block"
    "in_remaining j = Some n"
  shows "faults_of k meth tracer block (is @ [j]) = replicate (min n k) (Some (in_fault j)) @ replicate (k - n) None"
  using assms(2-5)
proof (induction k arbitrary: j n)
  case (Suc k)
  show ?case
  proof (cases n)
    case 0
    then have "\<not> applies meth tracer block j" using Suc.prems by (simp add: applies_def)
    then have "take_fault meth tracer block (is @ [j]) = (None, is @ [j])"
      using take_fault_skips [OF assms(1), of "[j]"] by simp
    then show ?thesis using Suc.IH [OF Suc.prems] 0 by simp
  next
    case (Suc m)
    let ?j = "j\<lparr>in_remaining := Some m\<rparr>"
    have "applies meth tracer block j" using Suc.prems Suc by (simp add: applies_def)
    then have "take_fault meth tracer block (is @ [j]) = (Some (in_fault j), is @ [?j])"
      using take_fault_skips [OF assms(1), of "[j]"] Suc.prems Suc by simp
    moreover have "faults_of k meth tracer block (is @ [?j]) = replicate (min m k) (Some (in_fault j)) @ replicate (k - m) None"
      using Suc.IH [of ?j m] Suc.prems by simp
    ultimately show ?thesis using Suc by simp
  qed
qed simp

lemma count_call_sum:
  "sum_list (map snd (filter (\<lambda>(k, n). p k) (count_call key kns))) =
   sum_list (map snd (filter (\<lambda>(k, n). p k) kns)) + (if p key then 1 else 0)"
  by (induction key kns rule: count_call.induct) auto

subsection \<open>Every request is answered\<close>

lemma those_total: "(\<And>x. x \<in> set xs \<Longrightarrow> \<exists>y. f x = Some y) \<Longrightarrow> \<exists>ys. those (map f xs) = Some ys"
proof (induction xs)
  case (Cons x xs)
  obtain y where "f x = Some y" using Cons.prems [of x] by auto
  moreover obtain ys where "those (map f xs) = Some ys" using Cons.IH Cons.prems by auto
  ultimately show ?case by simp
qed simp

lemma component_returns: "\<exists>v. component_json meth tracer b = Some v"
proof -
  have "\<exists>ys. those (map (receipt_json b) [0..<length (cb_txs b)]) = Some ys"
      "\<exists>ys. those (map (replay_trace_frame b) [0..<length (cb_txs b)]) = Some ys"
    by (rule those_total, simp add: receipt_json_def replay_trace_frame_def vec_get_def)+
  moreover have "\<exists>v. trace_replays b = Some v"
    unfolding trace_replays_def
    by (simp del: map_map, rule those_total) (auto simp: replay_trace_frame_def vec_get_def in_set_enumerate_eq)
  ultimately show ?thesis by (auto simp: component_json_def trace_block_frames_def)
qed

text \<open>The only way to a panic is a foreign block for a script without blocks or at the last height.\<close>

definition stub_ok :: "stub \<Rightarrow> bool" where
  "stub_ok s \<longleftrightarrow>
     sb_blocks (st_chain s) \<noteq> [] \<and> (\<forall>i \<in> set (st_injections s). in_fault i = WrongBlock \<longrightarrow> in_block i \<noteq> - 1)"

lemma foreign_returns:
  assumes "sb_blocks (st_chain s) \<noteq> []" "n \<noteq> - 1"
  shows "\<exists>b. foreign n (st_chain s) = Some b"
proof -
  have "n + 1 \<noteq> 0" using assms(2) by (metis add_eq_0_iff2)
  then have "unat (n + 1) = Suc (unat n)" by (simp add: unatSuc add.commute)
  then show ?thesis using assms(1) by (simp add: foreign_def chain_first_def vec_get_def branched_def)
qed

lemma truth_returns: "\<exists>v. truth meth params p0 tracer block s = Some v"
  using component_returns [of meth tracer]
  by (auto simp: truth_def receipt_json_def vec_get_def position_Some_iff Let_def split: option.splits)

lemma truthful_returns: "\<exists>v. truthful meth tracer block s = Some v"
  using component_returns [of meth tracer] by (auto simp: truthful_def split: option.splits)

lemma faulted_returns:
  assumes "sb_blocks (st_chain s) \<noteq> []" "f = WrongBlock \<Longrightarrow> n \<noteq> - 1"
  shows "\<exists>r. faulted meth params tracer n f s = Some r"
proof -
  obtain v where v: "truthful meth tracer n s = Some v" using truthful_returns by blast
  obtain t where t: "truth meth params (case json_at 0 params of Some v \<Rightarrow> v | None \<Rightarrow> JNull) tracer (Some n) s = Some t"
    using truth_returns by blast
  show ?thesis
  proof (cases "f = WrongBlock")
    case True
    then obtain b where "foreign n (st_chain s) = Some b" using foreign_returns [OF assms(1) assms(2)] by blast
    then show ?thesis using True component_returns [of meth tracer b] by (auto simp: faulted_def)
  next
    case False
    then show ?thesis using v t by (cases f) (auto simp: faulted_def Let_def split: option.splits)
  qed
qed

lemma take_fault_from:
  "take_fault meth tracer block is = (r, is') \<Longrightarrow>
   (\<forall>f. r = Some f \<longrightarrow> (\<exists>i \<in> set is. in_fault i = f \<and> in_block i = block)) \<and>
   map in_fault is' = map in_fault is \<and> map in_block is' = map in_block is"
  by (induction "is" arbitrary: r is') (auto simp: applies_def map_prod_def split: if_splits prod.splits)

lemma faults_kept:
  assumes "map in_fault is' = map in_fault is" "map in_block is' = map in_block is"
    and "\<forall>i \<in> set is. in_fault i = WrongBlock \<longrightarrow> in_block i \<noteq> (- 1 :: u64)"
  shows "\<forall>i \<in> set is'. in_fault i = WrongBlock \<longrightarrow> in_block i \<noteq> - 1"
  using assms by (metis (no_types, lifting) in_set_conv_nth length_map nth_map)

lemma stub_answer_returns:
  assumes "stub_ok s"
  obtains r delay' s' where "stub_answer meth params delay s = Some (r, delay', s')" "stub_ok s'"
    "stub_calls m n s' = stub_calls m n s +
       (if m = meth \<and> addressed_block meth (case json_at 0 params of Some v \<Rightarrow> v | None \<Rightarrow> JNull) s = Some n then 1 else 0)"
proof -
  let ?p0 = "case json_at 0 params of Some v \<Rightarrow> v | None \<Rightarrow> JNull"
  show thesis
  proof (cases "addressed_block meth ?p0 s")
    case None
    then show thesis using that assms truth_returns [of meth params ?p0 "tracer_of meth params" None s]
      by (fastforce simp: stub_answer_def Let_def)
  next
    case (Some b)
    let ?key = "\<lparr>ck_method = meth, ck_tracer = tracer_of meth params, ck_block = b,
        ck_by_hash = (case as_str ?p0 of Some v \<Rightarrow> length v > 42 | None \<Rightarrow> False)\<rparr>"
    obtain f left where f: "take_fault meth (tracer_of meth params) b (st_injections s) = (f, left)" by fastforce
    let ?s = "s\<lparr>st_calls := count_call ?key (st_calls s), st_injections := left\<rparr>"
    note kept = take_fault_from [OF f]
    have ok: "stub_ok ?s" using assms faults_kept [of left "st_injections s"] kept by (auto simp: stub_ok_def)
    have count: "stub_calls m n ?s = stub_calls m n s + (if m = meth \<and> b = n then 1 else 0)"
      unfolding stub_calls_def calls_where_def using count_call_sum [of "\<lambda>k. ck_method k = m \<and> ck_block k = n" ?key] by auto
    show thesis
    proof (cases f)
      case None
      then show thesis using that ok count Some f truth_returns [of meth params ?p0 "tracer_of meth params" "Some b" ?s]
        by (auto simp: stub_answer_def Let_def)
    next
      case (Some g)
      have "g = WrongBlock \<Longrightarrow> b \<noteq> - 1" using kept Some assms by (auto simp: stub_ok_def)
      moreover have "sb_blocks (st_chain ?s) \<noteq> []" using ok by (simp add: stub_ok_def)
      ultimately obtain r where "faulted meth params (tracer_of meth params) b g ?s = Some r"
        using faulted_returns [of ?s g b] by blast
      then show thesis using that ok count Some f \<open>addressed_block meth ?p0 s = Some b\<close>
        by (auto simp: stub_answer_def Let_def)
    qed
  qed
qed

lemma envelope_id [simp]: "json_get ''id'' (envelope call_id res) = Some call_id"
  by (simp add: envelope_def)

lemma answer_calls_returns:
  "stub_ok s \<Longrightarrow> \<exists>rs delay' s'. answer_calls calls delay s = Some (rs, delay', s') \<and> stub_ok s' \<and>
     map (json_get ''id'') rs =
       map (\<lambda>c. Some (case json_get ''id'' c of Some v \<Rightarrow> v | None \<Rightarrow> json_nat 1)) calls"
proof (induction calls arbitrary: delay s)
  case (Cons c calls)
  let ?meth = "case Option.bind (json_get ''method'' c) as_str of Some m \<Rightarrow> m | None \<Rightarrow> []"
  let ?params = "case json_get ''params'' c of Some v \<Rightarrow> v | None \<Rightarrow> JArray []"
  obtain r d s1 where s1: "stub_answer ?meth ?params delay s = Some (r, d, s1)" "stub_ok s1"
    by (rule stub_answer_returns [OF Cons.prems])
  from Cons.IH [OF s1(2), of d] show ?case using s1(1) by (auto simp: Let_def)
qed simp

subsection \<open>A batch of the client against the stub\<close>

text \<open>The request body of the client, and its reading of a response object.\<close>

definition request_json :: "owned_rpc_request \<Rightarrow> json" where
  "request_json r =
     JObject ([(''jsonrpc'', JString ''2.0''), (''id'', JNumber (PosInt (req_id r))), (''method'', JString (req_method r))] @
              (case req_params r of Some v \<Rightarrow> [(''params'', v)] | None \<Rightarrow> []))"

definition serves_ids :: "(json \<Rightarrow> rpc_response) \<Rightarrow> bool" where
  "serves_ids read \<longleftrightarrow> (\<forall>v. id_value (read v) = json_get ''id'' v)"

lemma stub_serves_batch:
  assumes "stub_ok s" "distinct (map req_id reqs)" "serves_ids read"
    and "\<And>vs. parse_many (json_text (JArray vs)) = Inr (map read vs)"
  shows "\<exists>vs delay s' out. stub_handle (Inr (JArray (map request_json reqs))) s = Some (JArray vs, delay, s') \<and> stub_ok s' \<and>
    http_send_batch parse_one parse_many (Answered 200 (json_text (JArray vs))) reqs = Inr out \<and>
    map resp_id out = map req_id reqs \<and> mset out = mset (map read vs)"
proof -
  obtain vs delay s' where vs: "answer_calls (map request_json reqs) 0 s = Some (vs, delay, s')" "stub_ok s'"
      "map (json_get ''id'') vs = map (\<lambda>q. Some (JNumber (PosInt (req_id q)))) reqs"
    using answer_calls_returns [OF assms(1), of "map request_json reqs" 0] by (auto simp: request_json_def comp_def)
  have handle: "stub_handle (Inr (JArray (map request_json reqs))) s = Some (JArray vs, delay, s')"
    using vs(1) by (cases vs) (auto simp: stub_handle_def Let_def)
  have ids: "map resp_id (map read vs) = map req_id reqs"
    using vs(3) assms(3) by (simp add: list_eq_iff_nth_eq resp_id_def serves_ids_def)
  then have "mset (map resp_id (map read vs)) = mset (map req_id reqs)" by simp
  from take_responses_perm [OF assms(2) this] show ?thesis
    using handle vs(2) assms(4) ids by (auto simp: http_send_batch_def dest: map_eq_imp_length_eq)
qed

end
