(* ===== verification/Metrics_Export.thy ===== *)
theory Metrics_Export
  imports Json_Map Metrics
begin

text \<open>
  A scrape of the registry (\<open>data-service-core/src/metrics.rs\<close>): the metric families in the JSON form of
  prom-client and the text exposition.

  \<open>gather\<close> of a registry and the text encoder are those of the Prometheus library, so they are parameters;
  the types it gathers are those of its protocol.  A value is an \<open>f64\<close>: \<open>Integral\<close> has no fractional part,
  \<open>Fractional\<close> carries its bits; \<open>bits\<close> gives the bits of an integral one.
\<close>

datatype prom_f64 = Integral int | Fractional u64 | Infinite bool | NotANumber

record prom_bucket =
  pb_cumulative_count :: u64
  pb_upper_bound :: prom_f64

record prom_histogram =
  ph_buckets :: "prom_bucket list"
  ph_sample_count :: u64
  ph_sample_sum :: prom_f64

record prom_quantile =
  pq_quantile :: prom_f64
  pq_value :: prom_f64

record prom_summary =
  ps_quantiles :: "prom_quantile list"
  ps_sample_count :: u64
  ps_sample_sum :: prom_f64

record prom_metric =
  pm_labels :: "(string \<times> string) list"
  pm_gauge :: "prom_f64 option"
  pm_counter :: "prom_f64 option"
  pm_histogram :: "prom_histogram option"
  pm_summary :: "prom_summary option"
  pm_untyped :: "prom_f64 option"

datatype metric_type = GAUGE | COUNTER | HISTOGRAM | SUMMARY | UNTYPED

record metric_family =
  mf_name :: string
  mf_help :: string
  mf_type :: metric_type
  mf_metrics :: "prom_metric list"

record json_metric_value =
  jv_value :: json
  jv_labels :: "(string \<times> json) list"
  jv_metric_name :: "string option"

text \<open>
  \<open>u64::MAX as f64\<close> is \<open>2 ^ 64\<close> and \<open>i64::MAX as f64\<close> is \<open>2 ^ 63\<close>; the casts saturate.
\<close>

definition json_of_f64 :: "(int \<Rightarrow> u64) \<Rightarrow> prom_f64 \<Rightarrow> json" where
  "json_of_f64 bits v =
     (case v of
        Integral n \<Rightarrow>
          if n \<ge> 0 \<and> n \<le> 2 ^ 64 then JNumber (PosInt (of_int (min n (2 ^ 64 - 1))))
          else if n \<ge> - (2 ^ 63) \<and> n \<le> 2 ^ 63 then JNumber (NegInt n)
          else JNumber (Float (bits n))
      | Fractional b \<Rightarrow> JNumber (Float b)
      | Infinite _ \<Rightarrow> JNull
      | NotANumber \<Rightarrow> JNull)"

definition metric_labels :: "prom_metric \<Rightarrow> (string \<times> json) list" where
  "metric_labels m = fold (\<lambda>(k, v). map_insert k (JString v)) (pm_labels m) []"

definition sample :: "json \<Rightarrow> (string \<times> json) list \<Rightarrow> string option \<Rightarrow> json_metric_value" where
  "sample v ls name = \<lparr>jv_value = v, jv_labels = ls, jv_metric_name = name\<rparr>"

definition simple_sample :: "(int \<Rightarrow> u64) \<Rightarrow> prom_metric \<Rightarrow> prom_f64 option \<Rightarrow> json_metric_value list" where
  "simple_sample bits m v = [sample (json_of_f64 bits (case v of Some x \<Rightarrow> x | None \<Rightarrow> Integral 0)) (metric_labels m) None]"

definition bucket_sample :: "(int \<Rightarrow> u64) \<Rightarrow> string \<Rightarrow> prom_metric \<Rightarrow> prom_bucket \<Rightarrow> json_metric_value" where
  "bucket_sample bits name m b =
     sample (JNumber (PosInt (pb_cumulative_count b)))
       (map_insert ''le''
          (case pb_upper_bound b of Infinite _ \<Rightarrow> JString ''+Inf'' | v \<Rightarrow> json_of_f64 bits v) (metric_labels m))
       (Some (name @ ''_bucket''))"

definition histogram_samples :: "(int \<Rightarrow> u64) \<Rightarrow> string \<Rightarrow> prom_metric \<Rightarrow> prom_histogram \<Rightarrow> json_metric_value list" where
  "histogram_samples bits name m h =
     map (bucket_sample bits name m) (ph_buckets h) @
     [sample (JNumber (PosInt (ph_sample_count h))) (map_insert ''le'' (JString ''+Inf'') (metric_labels m))
        (Some (name @ ''_bucket'')),
      sample (json_of_f64 bits (ph_sample_sum h)) (metric_labels m) (Some (name @ ''_sum'')),
      sample (JNumber (PosInt (ph_sample_count h))) (metric_labels m) (Some (name @ ''_count''))]"

definition summary_samples :: "(int \<Rightarrow> u64) \<Rightarrow> string \<Rightarrow> prom_metric \<Rightarrow> prom_summary \<Rightarrow> json_metric_value list" where
  "summary_samples bits name m s =
     map (\<lambda>q. sample (json_of_f64 bits (pq_value q))
                (map_insert ''quantile'' (json_of_f64 bits (pq_quantile q)) (metric_labels m)) (Some name)) (ps_quantiles s) @
     [sample (json_of_f64 bits (ps_sample_sum s)) (metric_labels m) (Some (name @ ''_sum'')),
      sample (JNumber (PosInt (ps_sample_count s))) (metric_labels m) (Some (name @ ''_count''))]"

definition metric_samples :: "(int \<Rightarrow> u64) \<Rightarrow> metric_family \<Rightarrow> prom_metric \<Rightarrow> json_metric_value list" where
  "metric_samples bits family m =
     (case mf_type family of
        GAUGE \<Rightarrow> simple_sample bits m (pm_gauge m)
      | COUNTER \<Rightarrow> simple_sample bits m (pm_counter m)
      | HISTOGRAM \<Rightarrow> (case pm_histogram m of None \<Rightarrow> [] | Some h \<Rightarrow> histogram_samples bits (mf_name family) m h)
      | SUMMARY \<Rightarrow> (case pm_summary m of None \<Rightarrow> [] | Some s \<Rightarrow> summary_samples bits (mf_name family) m s)
      | UNTYPED \<Rightarrow> simple_sample bits m (pm_untyped m))"

definition metric_values :: "(int \<Rightarrow> u64) \<Rightarrow> metric_family \<Rightarrow> json_metric_value list" where
  "metric_values bits family = concat (map (metric_samples bits family) (mf_metrics family))"

fun metric_type_name :: "metric_type \<Rightarrow> string" where
  "metric_type_name COUNTER = ''counter''"
| "metric_type_name GAUGE = ''gauge''"
| "metric_type_name SUMMARY = ''summary''"
| "metric_type_name UNTYPED = ''untyped''"
| "metric_type_name HISTOGRAM = ''histogram''"

definition value_json :: "json_metric_value \<Rightarrow> json" where
  "value_json v =
     JObject ([(''value'', jv_value v), (''labels'', JObject (jv_labels v))] @
       (case jv_metric_name v of Some n \<Rightarrow> [(''metricName'', JString n)] | None \<Rightarrow> []))"

definition family_json :: "(int \<Rightarrow> u64) \<Rightarrow> metric_family \<Rightarrow> json" where
  "family_json bits family =
     JObject [(''help'', JString (mf_help family)), (''name'', JString (mf_name family)),
              (''type'', JString (metric_type_name (mf_type family))),
              (''values'', JArray (map value_json (metric_values bits family))), (''aggregator'', JString ''sum'')]"

text \<open>A scrape refreshes the derived levels first.  \<open>utf8\<close> is the check of \<open>String::from_utf8\<close>.\<close>

definition gather_json ::
    "(int \<Rightarrow> u64) \<Rightarrow> (metrics \<Rightarrow> metric_family list) \<Rightarrow> instant \<Rightarrow> metrics \<Rightarrow> json \<times> metrics" where
  "gather_json bits gather now m =
     (let m' = snd (refresh_derived_levels now m) in (JArray (map (family_json bits) (gather m')), m'))"

definition gather_text ::
    "(metric_family list \<Rightarrow> string + bytes) \<Rightarrow> (bytes \<Rightarrow> bool) \<Rightarrow> (metrics \<Rightarrow> metric_family list) \<Rightarrow> instant \<Rightarrow> metrics \<Rightarrow>
     (string + string) \<times> metrics" where
  "gather_text encode utf8 gather now m =
     (let m' = snd (refresh_derived_levels now m)
      in (case encode (gather m') of Inl e \<Rightarrow> Inl e | Inr buf \<Rightarrow> Inr (if utf8 buf then buf else []), m'))"

definition get_single_metric_text ::
    "(metric_family list \<Rightarrow> string + bytes) \<Rightarrow> (bytes \<Rightarrow> bool) \<Rightarrow> (metrics \<Rightarrow> metric_family list) \<Rightarrow> instant \<Rightarrow> string \<Rightarrow> metrics \<Rightarrow>
     string option \<times> metrics" where
  "get_single_metric_text encode utf8 gather now name m =
     (let m' = snd (refresh_derived_levels now m);
          found = filter (\<lambda>mf. mf_name mf = name) (gather m')
      in (if found = [] then None
          else case encode found of Inl e \<Rightarrow> None | Inr buf \<Rightarrow> Some (if utf8 buf then buf else []), m'))"

subsection \<open>The registered collectors\<close>

text \<open>
  The families of the registry with their help texts and the field of the state each one shows, in the order
  of the constructor.
\<close>

datatype series_value =
    GaugeValue gauge
  | CounterValue counter
  | CounterVecValue string counter_vec
  | HistogramValue "nat list" histogram
  | HistogramVecValue string "nat list" histogram_vec

fun kind_of :: "series_value \<Rightarrow> series_kind" where
  "kind_of (GaugeValue _) = GaugeSeries"
| "kind_of (CounterValue _) = CounterSeries"
| "kind_of (CounterVecValue l _) = CounterVecSeries l"
| "kind_of (HistogramValue bs _) = HistogramSeries bs"
| "kind_of (HistogramVecValue l bs _) = HistogramVecSeries l bs"

definition buffer_collectors :: "metrics \<Rightarrow> (string \<times> string \<times> series_value) list" where
  "buffer_collectors m =
     [(''sqd_hotblocks_last_block'', ''Number of the last stored block'',
       GaugeValue (g_last_block m)),
      (''sqd_hotblocks_last_block_lag_ms'', ''Lag of the last stored block in ms'',
       GaugeValue (last_block_lag_ms m)),
      (''sqd_hotblocks_first_block'', ''Number of the first stored block'',
       GaugeValue (g_first_block m)),
      (''sqd_hotblocks_finalized_block'', ''Number of the finalized stored block'',
       GaugeValue (g_finalized_block m)),
      (''sqd_hotblocks_stored_blocks'', ''Amount of stored blocks'',
       GaugeValue (stored_blocks m)),
      (''sqd_hotblocks_block_lag_ms'', ''Time to process a block from creation to end of processing in ms'',
       HistogramValue block_lag_buckets (block_lag_ms m)),
      (''sqd_hotblocks_head_detection_gap_ms'', ''Wait before the poll that discovered a new head block in ms'',
       HistogramValue head_detection_gap_buckets (head_detection_gap_ms m)),
      (''sqd_hotblocks_head_interval_ms'', ''Observed interval between head block arrivals in ms'',
       HistogramValue head_interval_buckets (head_interval_ms m)),
      (''sqd_hotblocks_processing_time_ms'', ''Time taken to process a block in milliseconds'',
       HistogramValue processing_time_buckets (processing_time_ms m)),
      (''sqd_hotblocks_queries_total'', ''Total number of queries by type'',
       CounterVecValue ''type'' (queries_total m)),
      (''sqd_hotblocks_window_excess'', ''Blocks held above the configured window (INV-4)'',
       GaugeValue (g_window_excess m)),
      (''sqd_hotblocks_commits_total'', ''Ingestion batches committed to the buffer'',
       CounterValue (commits_total m)),
      (''sqd_hotblocks_last_commit_timestamp_ms'', ''Wall clock of the last committed batch in epoch ms, -1 before the first'',
       GaugeValue (last_commit_timestamp_ms m)),
      (''sqd_hotblocks_query_outcomes_total'', ''Query outcomes by class (OB-5)'',
       CounterVecValue ''class'' (query_outcomes_total m)),
      (''sqd_hotblocks_query_duration_ms'', ''Time to a query verdict in milliseconds, by class'',
       HistogramVecValue ''class'' query_duration_buckets (query_duration_ms m)),
      (''sqd_hotblocks_response_truncations_total'', ''Responses that ended at a record boundary before their range, by cause (RP-12)'',
       CounterVecValue ''cause'' (truncations_total m))]"

definition upstream_collectors :: "metrics \<Rightarrow> (string \<times> string \<times> series_value) list" where
  "upstream_collectors m =
     [(''sqd_hotblocks_upstream_head'', ''Upstream head height from the last read or committed source progress'',
       GaugeValue (upstream_head m)),
      (''sqd_hotblocks_upstream_head_timestamp_ms'', ''When the upstream head was last read successfully, epoch ms, -1 if never'',
       GaugeValue (upstream_head_timestamp_ms m)),
      (''sqd_hotblocks_upstream_finalized_head'', ''Upstream finalized height as last observed'',
       GaugeValue (upstream_finalized_head m)),
      (''sqd_hotblocks_upstream_finalized_head_timestamp_ms'', ''When the upstream finalized head was last observed, epoch ms, -1 if never'',
       GaugeValue (upstream_finalized_head_timestamp_ms m)),
      (''sqd_hotblocks_upstream_requests_total'', ''Upstream JSON-RPC round trips by shape'',
       CounterVecValue ''kind'' (upstream_requests_total m)),
      (''sqd_hotblocks_upstream_calls_total'', ''Upstream JSON-RPC calls submitted, counting batch items individually'',
       CounterValue (upstream_calls_total m)),
      (''sqd_hotblocks_upstream_errors_total'', ''Upstream failures by class'',
       CounterVecValue ''class'' (upstream_errors_total m)),
      (''sqd_hotblocks_upstream_retries_total'', ''Upstream retries by the class that provoked them'',
       CounterVecValue ''class'' (upstream_retries_total m)),
      (''sqd_hotblocks_over_window'', ''1 while the buffer is above its window bound (OB-6)'',
       GaugeValue (over_window m))]"

definition run_collectors :: "metrics \<Rightarrow> (string \<times> string \<times> series_value) list" where
  "run_collectors m =
     [(''sqd_hotblocks_force_advances_total'', ''Finalized-head force advances under auto-adjust (WP-24)'',
       CounterValue (force_advances_total m)),
      (''sqd_hotblocks_force_advanced_past'', ''Height the last force advance moved the finalized head past, -1 if never'',
       GaugeValue (g_force_advanced_past m)),
      (''sqd_hotblocks_integrity_violations_total'', ''Batches rejected whole as integrity violations (WP-5)'',
       CounterValue (integrity_violations_total m)),
      (''sqd_hotblocks_session_restarts_total'', ''Ingestion session restarts by cause (WP-9)'',
       CounterVecValue ''cause'' (session_restarts_total m)),
      (''sqd_hotblocks_enrichment_retries_total'', ''Block enrichment re-acquisitions by reason (FM-16 / WP-11.4)'',
       CounterVecValue ''reason'' (enrichment_retries_total m)),
      (''sqd_hotblocks_acquisition_retry_exhaustions_total'', ''Blocks that exhausted their whole-block re-acquisition budget (WP-11.3)'',
       CounterValue (acquisition_retry_exhaustions_total m)),
      (''sqd_hotblocks_fork_rebases_total'', ''Fork rebases applied to the buffer (T6)'',
       CounterValue (fork_rebases_total m)),
      (''sqd_hotblocks_watermark_regressions_total'', ''Re-seeds opening an epoch below the previous finalized head (WP-20)'',
       CounterValue (watermark_regressions_total m)),
      (''sqd_hotblocks_terminal_state'', ''1 once ingestion has reached the FM-30 terminal state'',
       GaugeValue (terminal_state m)),
      (''sqd_hotblocks_stall_alarm'', ''1 while the upstream head is ahead and nothing has committed for P-STALL-ALARM (LIV-2)'',
       GaugeValue (stall_alarm m)),
      (''sqd_hotblocks_process_start_timestamp_ms'', ''Process start, epoch ms'',
       GaugeValue (process_start_timestamp_ms m)),
      (''sqd_hotblocks_first_acceptance_timestamp_ms'', ''First HTTP request served, epoch ms, -1 before it'',
       GaugeValue (first_acceptance_timestamp_ms m)),
      (''sqd_hotblocks_first_commit_timestamp_ms'', ''First committed batch, epoch ms, -1 before it'',
       GaugeValue (first_commit_timestamp_ms m)),
      (''sqd_hotblocks_shutdown_start_timestamp_ms'', ''Start of graceful shutdown, epoch ms, -1 before it'',
       GaugeValue (shutdown_start_timestamp_ms m))]"

definition collectors :: "metrics \<Rightarrow> (string \<times> string \<times> series_value) list" where
  "collectors m = buffer_collectors m @ upstream_collectors m @ run_collectors m"

text \<open>No name is registered twice, which would panic, and every collector is registered.\<close>

lemma collectors_distinct: "distinct (map fst (collectors m))"
  by (simp add: collectors_def buffer_collectors_def upstream_collectors_def run_collectors_def)

lemma collectors_registered: "set (map (\<lambda>(n, h, v). (n, kind_of v)) (collectors m)) = set registered_series"
  by (simp add: collectors_def buffer_collectors_def upstream_collectors_def run_collectors_def registered_series_def
      insert_commute)

subsection \<open>What a scrape says\<close>

text \<open>A level that is an exact count comes out as that number, an unreached one as \<open>-1\<close>.\<close>

lemma exact_level_json:
  assumes "unat n < 2 ^ 53"
  shows "as_u64 (json_of_f64 bits (Integral (f64_of_u64 n))) = Some n"
proof -
  have "f64_of_u64 n = int (unat n)" using assms by (intro f64_of_u64_exact) simp
  moreover have "int (unat n) < int (2 ^ 53)" using assms by (simp only: of_nat_less_iff)
  ultimately show ?thesis by (simp add: json_of_f64_def min_def)
qed

lemma unreached_json: "as_i64 (json_of_f64 bits (Integral unreached)) = Some (- 1)"
  by (simp add: json_of_f64_def unreached_def)

text \<open>A histogram gives a sample per bucket and one each for infinity, sum and count, all under its labels.\<close>

lemma metric_labels_keys: "distinct (map fst (metric_labels m))"
proof -
  have "distinct (map fst kvs) \<Longrightarrow> distinct (map fst (fold (\<lambda>(k, v). map_insert k (JString v)) ls kvs))" for ls kvs
    by (induction ls arbitrary: kvs) (auto simp: distinct_insert)
  then show ?thesis by (simp add: metric_labels_def)
qed

lemma metric_labels_values:
  assumes "distinct (map fst (pm_labels m))"
  shows "map_of (metric_labels m) = map_option JString \<circ> map_of (pm_labels m)"
proof -
  have "distinct (map fst ls) \<Longrightarrow>
      map_of (fold (\<lambda>(k, v). map_insert k (JString v)) ls kvs) = map_of kvs ++ (map_option JString \<circ> map_of ls)" for ls kvs
  proof (induction ls arbitrary: kvs)
    case (Cons x ls)
    obtain k v where x: "x = (k, v)" by (cases x)
    then have "map_of ls k = None" using Cons.prems by (simp add: map_of_eq_None_iff)
    then show ?case using Cons x by (auto simp: fun_eq_iff map_add_def split: option.splits)
  qed (simp add: map_add_def fun_eq_iff)
  from this [OF assms, of "[]"] show ?thesis by (simp add: metric_labels_def)
qed

lemma histogram_samples_keep_labels:
  assumes "v \<in> set (histogram_samples bits name m h)" "k \<noteq> ''le''"
  shows "map_of (jv_labels v) k = map_of (metric_labels m) k"
  using assms by (auto simp: histogram_samples_def bucket_sample_def sample_def)

lemma histogram_samples_length: "length (histogram_samples bits name m h) = length (ph_buckets h) + 3"
  by (simp add: histogram_samples_def)

text \<open>The JSON of a scrape has one entry per family, under its name; a single family is found under its name only.\<close>

lemma gather_json_names:
  assumes "gather_json bits gather now m = (JArray vs, m')"
  shows "map (json_get ''name'') vs = map (\<lambda>f. Some (JString (mf_name f))) (gather m')"
  using assms by (auto simp: gather_json_def family_json_def Let_def)

lemma single_metric_found:
  assumes "get_single_metric_text encode utf8 gather now name m = (Some t, m')"
  shows "\<exists>f \<in> set (gather m'). mf_name f = name"
  using assms by (auto simp: get_single_metric_text_def Let_def filter_empty_conv split: if_splits)

end
