(* ===== verification/Ws_Transport.thy ===== *)
theory Ws_Transport
  imports Rpc_Transport
begin

text \<open>
  The WebSocket transport (\<open>rpc-client/src/transport/ws.rs\<close>): the pending map of a connection, the
  routing of incoming frames, the life cycle of a connection and the result of a request.

  A \<open>oneshot\<close> channel is named by the id of its request; \<open>channels\<close> is what the receivers see of them:
  still open, a delivered response, or closed because the sender was dropped.  \<open>responders\<close> are the
  senders still in the map.  Hash sets are lists without duplicates, in the order they are iterated.
  The parser of a frame and the deserialiser of a response (\<open>serde_json\<close>) are arguments.  The live
  connections (\<open>Arc<Active>\<close>) are cells of a store, shared by the slot of the connection, the callers
  and the reader tasks.
\<close>

subsection \<open>The pending map\<close>

datatype channel = Waiting | Delivered rpc_response | Closed

record pending_state =
  responders :: "u64 list"
  batches :: "u64 \<rightharpoonup> u64 list"
  id_to_batch :: "u64 \<rightharpoonup> u64"
  channels :: "u64 \<rightharpoonup> channel"

definition pending_default :: pending_state where
  "pending_default =
     \<lparr>responders = [], batches = Map.empty, id_to_batch = Map.empty, channels = Map.empty\<rparr>"

text \<open>Dropping a sender closes a channel nothing was sent on.\<close>

definition drop_sender :: "u64 \<Rightarrow> pending_state \<Rightarrow> pending_state" where
  "drop_sender i st =
     st\<lparr>responders := removeAll i (responders st),
        channels := (if i \<in> set (responders st) then (channels st)(i \<mapsto> Closed) else channels st)\<rparr>"

definition register :: "u64 \<Rightarrow> pending_state \<Rightarrow> pending_state" where
  "register i st =
     st\<lparr>responders := List.insert i (responders st), channels := (channels st)(i \<mapsto> Waiting)\<rparr>"

definition register_batch :: "u64 list \<Rightarrow> pending_state \<Rightarrow> pending_state option" where
  "register_batch ids st =
     (case vec_get ids 0 of
        None \<Rightarrow> None
      | Some key \<Rightarrow>
          (let st1 = fold (\<lambda>i s. s\<lparr>id_to_batch := (id_to_batch s)(i \<mapsto> key)\<rparr>) ids st;
               st2 = st1\<lparr>batches := (batches st1)(key \<mapsto> remdups ids)\<rparr>
           in Some (fold register ids st2)))"

text \<open>Take an id out of the batch that holds it, and the batch out of the index once it is empty.\<close>

definition leave_batch :: "u64 \<Rightarrow> pending_state \<Rightarrow> pending_state" where
  "leave_batch i st =
     (case id_to_batch st i of
        None \<Rightarrow> st
      | Some key \<Rightarrow>
          (let st1 = st\<lparr>id_to_batch := (id_to_batch st)(i := None)\<rparr>
           in case batches st1 key of
                None \<Rightarrow> st1
              | Some members \<Rightarrow>
                  (let rest = removeAll i members
                   in st1\<lparr>batches := (batches st1)(key := if rest = [] then None else Some rest)\<rparr>)))"

definition unregister :: "u64 list \<Rightarrow> pending_state \<Rightarrow> pending_state" where
  "unregister ids st = fold (\<lambda>i s. leave_batch i (drop_sender i s)) ids st"

subsection \<open>Routing\<close>

definition deliver :: "u64 \<Rightarrow> rpc_response \<Rightarrow> pending_state \<Rightarrow> pending_state" where
  "deliver i resp st =
     st\<lparr>responders := removeAll i (responders st), channels := (channels st)(i \<mapsto> Delivered resp)\<rparr>"

definition route_one ::
    "(json \<Rightarrow> rpc_response option) \<Rightarrow> json \<Rightarrow> pending_state \<Rightarrow> string option \<times> pending_state" where
  "route_one from_value value st =
     (case as_object value of
        None \<Rightarrow> (Some ''response frame is not an object'', st)
      | Some obj \<Rightarrow>
          (if contains_key ''method'' obj then (None, st)
           else
             (case map_of obj ''id'' of
                None \<Rightarrow>
                  (if contains_key ''error'' obj
                   then (Some ''received whole-batch error frame (id:null)'', st) else (None, st))
              | Some JNull \<Rightarrow>
                  (if contains_key ''error'' obj
                   then (Some ''received whole-batch error frame (id:null)'', st) else (None, st))
              | Some v \<Rightarrow>
                  (case as_u64 v of
                     None \<Rightarrow> (None, st)
                   | Some i \<Rightarrow>
                       (case from_value value of
                          None \<Rightarrow> (Some (''malformed response for id '' @ show_u64 i), st)
                        | Some resp \<Rightarrow>
                            (let st1 = leave_batch i st
                             in if i \<in> set (responders st1) then (None, deliver i resp st1)
                                else (Some (''got response for unknown request '' @ show_u64 i), st1)))))))"

definition item_id :: "json \<Rightarrow> u64 option" where
  "item_id item = Option.bind (json_get ''id'' item) as_u64"

definition present_ids :: "json list \<Rightarrow> u64 list" where
  "present_ids items = remdups (List.map_filter item_id items)"

definition owning_batches :: "u64 list \<Rightarrow> pending_state \<Rightarrow> u64 list" where
  "owning_batches present st = remdups (List.map_filter (id_to_batch st) present)"

definition fail_short_batch :: "u64 list \<Rightarrow> u64 \<Rightarrow> pending_state \<Rightarrow> pending_state" where
  "fail_short_batch present key st =
     (case batches st key of
        None \<Rightarrow> st
      | Some expected \<Rightarrow>
          (let st1 = st\<lparr>batches := (batches st)(key := None)\<rparr>;
               st2 = fold (\<lambda>i s. s\<lparr>id_to_batch := (id_to_batch s)(i := None)\<rparr>) expected st1
           in fold drop_sender (filter (\<lambda>i. i \<notin> set present) expected) st2))"

definition fail_short_batches :: "u64 list \<Rightarrow> u64 list \<Rightarrow> pending_state \<Rightarrow> pending_state" where
  "fail_short_batches batch_keys present st = fold (fail_short_batch present) batch_keys st"

fun route_items ::
    "(json \<Rightarrow> rpc_response option) \<Rightarrow> json list \<Rightarrow> pending_state \<Rightarrow> string option \<times> pending_state" where
  "route_items from_value [] st = (None, st)"
| "route_items from_value (item # items) st =
     (case route_one from_value item st of
        (Some reason, st1) \<Rightarrow> (Some reason, st1)
      | (None, st1) \<Rightarrow> route_items from_value items st1)"

definition route_array ::
    "(json \<Rightarrow> rpc_response option) \<Rightarrow> json list \<Rightarrow> pending_state \<Rightarrow> string option \<times> pending_state" where
  "route_array from_value items st =
     (let present = present_ids items;
          batch_keys = owning_batches present st
      in case route_items from_value items st of
           (Some reason, st1) \<Rightarrow> (Some reason, st1)
         | (None, st1) \<Rightarrow> (None, fail_short_batches batch_keys present st1))"

definition route_text ::
    "(string \<Rightarrow> json option) \<Rightarrow> (json \<Rightarrow> rpc_response option) \<Rightarrow> string \<Rightarrow> pending_state
     \<Rightarrow> string option \<times> pending_state" where
  "route_text parse from_value text st =
     (case parse text of
        None \<Rightarrow> (Some ''received invalid JSON message'', st)
      | Some (JArray items) \<Rightarrow> route_array from_value items st
      | Some (JObject kvs) \<Rightarrow> route_one from_value (JObject kvs) st
      | Some _ \<Rightarrow> (Some ''received non-object JSON frame'', st))"

text \<open>The reader task: the frames it reads, up to the one that ends the connection.\<close>

datatype ws_message =
    Text string | Binary string | Ping string | Pong string | CloseFrame | RawFrame | SocketError string

fun reader_task ::
    "(string \<Rightarrow> json option) \<Rightarrow> (json \<Rightarrow> rpc_response option) \<Rightarrow> ws_message list \<Rightarrow> pending_state
     \<Rightarrow> string list \<Rightarrow> string \<times> pending_state \<times> string list" where
  "reader_task parse from_value [] st pongs = (''socket stream ended'', st, pongs)"
| "reader_task parse from_value (msg # msgs) st pongs =
     (case msg of
        SocketError e \<Rightarrow> (''socket error: '' @ e, st, pongs)
      | Text text \<Rightarrow>
          (case route_text parse from_value text st of
             (Some reason, st1) \<Rightarrow> (reason, st1, pongs)
           | (None, st1) \<Rightarrow> reader_task parse from_value msgs st1 pongs)
      | Binary b \<Rightarrow> (''received non-text (binary) frame'', st, pongs)
      | Ping payload \<Rightarrow> reader_task parse from_value msgs st (pongs @ [payload])
      | Pong p \<Rightarrow> reader_task parse from_value msgs st pongs
      | CloseFrame \<Rightarrow> (''socket closed by peer'', st, pongs)
      | RawFrame \<Rightarrow> reader_task parse from_value msgs st pongs)"

subsection \<open>Connections\<close>

record connection =
  store :: "pending_state list"
  active :: "nat option"
  dialing :: bool
  failures :: usize
  generation :: u64

definition connection_new :: connection where
  "connection_new = \<lparr>store = [], active = None, dialing = False, failures = 0, generation = 0\<rparr>"

definition RECONNECT_BACKOFF :: "nat list" where
  "RECONNECT_BACKOFF = [0, 100, 500, 2000, 5000]"

definition backoff_for :: "usize \<Rightarrow> nat option" where
  "backoff_for n = vec_get RECONNECT_BACKOFF (min n (length RECONNECT_BACKOFF - 1))"

text \<open>
  The first half of \<open>get_active\<close>, under the lock: the live connection, or join the dial in flight, or
  start one after the back-off.
\<close>

datatype get_active_plan = UseActive nat | JoinDial | StartDial "nat option"

definition get_active_begin :: "connection \<Rightarrow> get_active_plan \<times> connection" where
  "get_active_begin c =
     (case active c of
        Some a \<Rightarrow> (UseActive a, c)
      | None \<Rightarrow>
          (if dialing c then (JoinDial, c)
           else (StartDial (backoff_for (failures c)), c\<lparr>dialing := True\<rparr>)))"

text \<open>\<open>dial\<close>: a fresh pending map, and the generation its reader will reset.\<close>

definition dial :: "(string + unit) \<Rightarrow> connection \<Rightarrow> (rpc_error + nat \<times> u64) \<times> connection" where
  "dial connected c =
     (case connected of
        Inl e \<Rightarrow> (Inl (Disconnected (''WS connect failed: '' @ e)), c)
      | Inr _ \<Rightarrow> (Inr (length (store c), generation c), c\<lparr>store := store c @ [pending_default]\<rparr>))"

text \<open>The second half of \<open>get_active\<close>: each caller that awaited the dial settles its outcome.\<close>

definition settle_dial :: "(string + nat) \<Rightarrow> connection \<Rightarrow> (rpc_error + nat) \<times> connection" where
  "settle_dial outcome c =
     (case outcome of
        Inr a \<Rightarrow> (Inr a, c\<lparr>dialing := False, active := Some a, failures := 0\<rparr>)
      | Inl e \<Rightarrow>
          (Inl (Disconnected e),
           c\<lparr>dialing := False, failures := min (2 ^ 64 - 1) (failures c + 1)\<rparr>))"

definition drain :: "pending_state \<Rightarrow> pending_state" where
  "drain st =
     fold drop_sender (responders st) (st\<lparr>batches := Map.empty, id_to_batch := Map.empty\<rparr>)"

definition reset :: "u64 \<Rightarrow> connection \<Rightarrow> connection" where
  "reset gen c =
     (if generation c \<noteq> gen then c
      else
        (let c1 = c\<lparr>generation := gen + 1, active := None\<rparr>
         in case active c of
              None \<Rightarrow> c1
            | Some a \<Rightarrow> c1\<lparr>store := (store c1)[a := drain (store c1 ! a)]\<rparr>))"

definition reset_current :: "connection \<Rightarrow> connection" where
  "reset_current c = reset (generation c) c"

subsection \<open>Requests\<close>

record ws_transport =
  pool :: "connection list"
  next_conn :: u64

definition ws_new :: "usize \<Rightarrow> ws_transport" where
  "ws_new pool_size = \<lparr>pool = replicate (max pool_size 1) connection_new, next_conn = 0\<rparr>"

definition pick :: "ws_transport \<Rightarrow> nat \<times> ws_transport" where
  "pick t = (unat (next_conn t) mod length (pool t), t\<lparr>next_conn := next_conn t + 1\<rparr>)"

definition effective_timeout :: "nat \<Rightarrow> nat option" where
  "effective_timeout timeout = (if timeout = 0 then None else Some timeout)"

text \<open>
  What a request waiting on its channels comes to: the channel states when the wait ended, or \<open>None\<close>
  when the deadline passed first (which needs one).  The connection is the one the request used, as
  it is then.
\<close>

definition settle_single :: "channel option \<Rightarrow> connection \<Rightarrow> (rpc_error + rpc_response) \<times> connection" where
  "settle_single ended c =
     (case ended of
        Some (Delivered resp) \<Rightarrow> (Inr resp, c)
      | Some _ \<Rightarrow> (Inl (Disconnected ''connection reset''), c)
      | None \<Rightarrow> (Inl Timeout, reset_current c))"

fun delivered_all :: "channel list \<Rightarrow> rpc_response list option" where
  "delivered_all [] = Some []"
| "delivered_all (Delivered r # chs) = map_option (Cons r) (delivered_all chs)"
| "delivered_all (ch # chs) = None"

definition settle_batch ::
    "u64 list \<Rightarrow> nat \<Rightarrow> u64 \<Rightarrow> channel list option \<Rightarrow> connection
     \<Rightarrow> (rpc_error + rpc_response list) \<times> connection" where
  "settle_batch ids a gen_before ended c =
     (case ended of
        None \<Rightarrow> (Inl Timeout, reset_current c)
      | Some chs \<Rightarrow>
          (case delivered_all chs of
             Some out \<Rightarrow> (Inr out, c)
           | None \<Rightarrow>
               (if generation c \<noteq> gen_before then Inl (Disconnected ''connection reset'')
                else Inl (Protocol ''short batch response: server omitted one or more ids''),
                c\<lparr>store := (store c)[a := unregister ids (store c ! a)]\<rparr>)))"

text \<open>The writer task is gone: the registration is undone and the connection dropped.\<close>

definition send_failed :: "u64 list \<Rightarrow> nat \<Rightarrow> connection \<Rightarrow> rpc_error \<times> connection" where
  "send_failed ids a c =
     (Disconnected ''writer task gone'',
      reset_current (c\<lparr>store := (store c)[a := unregister ids (store c ! a)]\<rparr>))"

end
