(* ===== verification/Ws_Pending.thy ===== *)
theory Ws_Pending
  imports Ws_Transport
begin

text \<open>
  The invariant of the pending map of a WebSocket connection and what it gives the callers: a
  receiver waits exactly while its sender is registered, so a request is settled as soon as its
  sender leaves the map; the batch index and its reverse agree; and an answered batch keeps nobody
  waiting.
\<close>

definition pending_inv :: "pending_state \<Rightarrow> bool" where
  "pending_inv st \<longleftrightarrow>
     (\<forall>i. channels st i = Some Waiting \<longleftrightarrow> i \<in> set (responders st)) \<and>
     (\<forall>i k. id_to_batch st i = Some k \<longrightarrow> (\<exists>m. batches st k = Some m \<and> i \<in> set m)) \<and>
     (\<forall>k m. batches st k = Some m \<longrightarrow> m \<noteq> [] \<and> (\<forall>i \<in> set m. id_to_batch st i = Some k)) \<and>
     (\<forall>i. id_to_batch st i \<noteq> None \<longrightarrow> i \<in> set (responders st)) \<and>
     (\<forall>k. batches st k \<noteq> None \<longrightarrow> channels st k \<noteq> None)"

lemma pending_invD:
  assumes "pending_inv st"
  shows "channels st i = Some Waiting \<longleftrightarrow> i \<in> set (responders st)"
    and "id_to_batch st i = Some k \<Longrightarrow> \<exists>m. batches st k = Some m \<and> i \<in> set m"
    and "batches st k = Some m \<Longrightarrow> m \<noteq> []"
    and "batches st k = Some m \<Longrightarrow> i \<in> set m \<Longrightarrow> id_to_batch st i = Some k"
    and "id_to_batch st i = Some k \<Longrightarrow> i \<in> set (responders st)"
    and "batches st k = Some m \<Longrightarrow> channels st k \<noteq> None"
  using assms unfolding pending_inv_def by blast+

lemma pending_default_inv [simp]: "pending_inv pending_default"
  by (simp add: pending_inv_def pending_default_def)

subsection \<open>The operations on one id\<close>

lemma leave_batch_frame [simp]:
  "responders (leave_batch i st) = responders st" "channels (leave_batch i st) = channels st"
  "id_to_batch (leave_batch i st) = (id_to_batch st)(i := None)"
  by (auto simp: leave_batch_def Let_def split: option.splits)

lemma leave_batch_batches:
  assumes "pending_inv st"
  shows "batches (leave_batch i st) k =
           (case batches st k of
              None \<Rightarrow> None
            | Some m \<Rightarrow> if id_to_batch st i = Some k then (if removeAll i m = [] then None else Some (removeAll i m))
                        else Some m)"
  using pending_invD(2) [OF assms, of i]
  by (cases "id_to_batch st i") (auto simp: leave_batch_def Let_def split: option.splits)

text \<open>Taking an id out of its batch and its sender out of the map keeps the invariant.\<close>

lemma removed_inv:
  assumes inv: "pending_inv st"
    and rs: "set (responders st') = set (responders st) - {i}"
    and ch: "channels st' i \<noteq> Some Waiting" "\<And>j. j \<noteq> i \<Longrightarrow> channels st' j = channels st j"
      "channels st i \<noteq> None \<Longrightarrow> channels st' i \<noteq> None"
    and b: "batches st' = batches (leave_batch i st)" and ib: "id_to_batch st' = (id_to_batch st)(i := None)"
  shows "pending_inv st'"
  unfolding pending_inv_def
proof (intro conjI allI impI)
  fix j
  show "channels st' j = Some Waiting \<longleftrightarrow> j \<in> set (responders st')"
    using pending_invD(1) [OF inv, of j] rs ch by (cases "j = i") auto
  show "id_to_batch st' j \<noteq> None \<Longrightarrow> j \<in> set (responders st')"
    using pending_invD(5) [OF inv, of j] rs ib by (auto split: if_splits)
  show "batches st' j \<noteq> None \<Longrightarrow> channels st' j \<noteq> None"
    using pending_invD(6) [OF inv, of j] ch b leave_batch_batches [OF inv, of i j]
    by (cases "j = i") (auto split: option.splits)
next
  fix j k assume "id_to_batch st' j = Some k"
  then have j: "j \<noteq> i" "id_to_batch st j = Some k" using ib by (auto split: if_splits)
  then show "\<exists>m. batches st' k = Some m \<and> j \<in> set m"
    using pending_invD(2) [OF inv, of j k] leave_batch_batches [OF inv, of i k] b
    by (auto simp: filter_empty_conv removeAll_filter_not_eq)
next
  fix k m assume m: "batches st' k = Some m"
  then obtain m0 where m0: "batches st k = Some m0"
    "m = (if id_to_batch st i = Some k then removeAll i m0 else m0)" "removeAll i m0 = [] \<longrightarrow> id_to_batch st i \<noteq> Some k"
    using leave_batch_batches [OF inv, of i k] b by (auto split: option.splits if_splits)
  then show "m \<noteq> []" using pending_invD(3) [OF inv m0(1)] by (auto split: if_splits)
  show "\<forall>j \<in> set m. id_to_batch st' j = Some k"
    using m0 ib pending_invD(4) [OF inv m0(1)] by (auto split: if_splits)
qed

lemma forget_inv: "pending_inv st \<Longrightarrow> pending_inv (leave_batch i (drop_sender i st))"
proof -
  assume inv: "pending_inv st"
  have eq: "batches (leave_batch i (drop_sender i st)) = batches (leave_batch i st)"
    "id_to_batch (leave_batch i (drop_sender i st)) = (id_to_batch st)(i := None)"
    by (auto simp: leave_batch_def drop_sender_def Let_def split: option.splits)
  show ?thesis
    by (rule removed_inv [OF inv _ _ _ _ eq])
       (use pending_invD(1) [OF inv, of i] in \<open>auto simp: drop_sender_def\<close>)
qed

lemma unregister_inv: "pending_inv st \<Longrightarrow> pending_inv (unregister ids st)"
  unfolding unregister_def by (induction ids arbitrary: st) (simp_all add: forget_inv)

lemma deliver_inv: "pending_inv st \<Longrightarrow> pending_inv (deliver i resp (leave_batch i st))"
  by (rule removed_inv) (auto simp: deliver_def)

lemma leave_unknown: "pending_inv st \<Longrightarrow> i \<notin> set (responders st) \<Longrightarrow> leave_batch i st = st"
  using pending_invD(5) [of st i] by (cases "id_to_batch st i") (auto simp: leave_batch_def)

text \<open>
  What routing one frame can do: nothing, or deliver to a registered id of its own.
\<close>

lemma route_one_cases:
  assumes "pending_inv st" and "route_one from_value v st = (reason, st')"
  obtains (same) "st' = st"
    | (sent) i resp where "item_id v = Some i" "from_value v = Some resp" "i \<in> set (responders st)"
      "st' = deliver i resp (leave_batch i st)" "reason = None"
proof (cases "as_object v")
  case None
  then have "st' = st" using assms(2) by (auto simp: route_one_def)
  then show ?thesis by (rule same)
next
  case (Some obj)
  then have JObject: "v = JObject obj" by (cases v) auto
  show ?thesis
  proof (cases "st' = st")
    case False
    then have nm: "\<not> contains_key ''method'' obj"
      using assms(2) JObject by (auto simp: route_one_def)
    obtain i where id: "map_of obj ''id'' = Some (JNumber (PosInt i))"
      using assms(2) False nm JObject
      by (auto simp: route_one_def as_u64_Some_iff split: option.splits json.splits if_splits)
    obtain resp where resp: "from_value v = Some resp"
      using assms(2) False nm id JObject by (cases "from_value v") (auto simp: route_one_def)
    have "(reason, st') = (if i \<in> set (responders st) then (None, deliver i resp (leave_batch i st))
        else (Some (''got response for unknown request '' @ show_u64 i), leave_batch i st))"
      using assms(2) nm id resp JObject by (simp add: route_one_def Let_def)
    moreover have "item_id v = Some i" using id JObject by (simp add: item_id_def)
    ultimately show ?thesis
      using sent [of i resp] False leave_unknown [OF assms(1), of i] resp by (auto split: if_splits)
  qed (rule same)
qed

lemma route_one_inv: "pending_inv st \<Longrightarrow> route_one from_value v st = (reason, st') \<Longrightarrow> pending_inv st'"
proof -
  assume inv: "pending_inv st" and r: "route_one from_value v st = (reason, st')"
  show "pending_inv st'" by (rule route_one_cases [OF inv r]) (simp_all add: inv deliver_inv)
qed

lemma route_items_inv:
  "pending_inv st \<Longrightarrow> route_items from_value items st = (reason, st') \<Longrightarrow> pending_inv st'"
proof (induction items arbitrary: st)
  case (Cons item items)
  obtain r st1 where 1: "route_one from_value item st = (r, st1)" by (cases "route_one from_value item st")
  have "pending_inv st1" by (rule route_one_inv [OF Cons.prems(1) 1])
  then show ?case using Cons 1 by (cases r) auto
qed simp

subsection \<open>Batches\<close>

lemma fold_unindex [simp]:
  "fold (\<lambda>i s. s\<lparr>id_to_batch := (id_to_batch s)(i := None)\<rparr>) ids st =
     st\<lparr>id_to_batch := (\<lambda>i. if i \<in> set ids then None else id_to_batch st i)\<rparr>"
  by (induction ids arbitrary: st) (auto intro!: pending_state.equality ext)

lemma fold_index [simp]:
  "fold (\<lambda>i s. s\<lparr>id_to_batch := (id_to_batch s)(i \<mapsto> key)\<rparr>) ids st =
     st\<lparr>id_to_batch := (\<lambda>i. if i \<in> set ids then Some key else id_to_batch st i)\<rparr>"
  by (induction ids arbitrary: st) (auto intro!: pending_state.equality ext)

lemma fold_drop_sender [simp]:
  "fold drop_sender ids st =
     st\<lparr>responders := filter (\<lambda>i. i \<notin> set ids) (responders st),
        channels := (\<lambda>i. if i \<in> set ids \<and> i \<in> set (responders st) then Some Closed else channels st i)\<rparr>"
proof (induction ids arbitrary: st)
  case (Cons i ids)
  show ?case
    unfolding fold_simps Cons.IH
    by (auto simp: drop_sender_def removeAll_filter_not_eq
        intro!: pending_state.equality ext filter_cong)
qed (simp add: filter_id_conv)

lemma fold_register [simp]:
  "set (responders (fold register ids st)) = set ids \<union> set (responders st)"
  "channels (fold register ids st) = (\<lambda>i. if i \<in> set ids then Some Waiting else channels st i)"
  "batches (fold register ids st) = batches st" "id_to_batch (fold register ids st) = id_to_batch st"
  by (induction ids arbitrary: st) (auto simp: register_def intro!: ext)

lemma register_inv:
  "pending_inv st \<Longrightarrow> channels st i = None \<Longrightarrow> pending_inv (register i st)"
  unfolding pending_inv_def by (auto simp: register_def)

lemma register_batch_inv:
  assumes "pending_inv st" "\<forall>i \<in> set ids. channels st i = None" "register_batch ids st = Some st'"
  shows "pending_inv st'"
proof -
  obtain key where ids: "ids \<noteq> []" "key = ids ! 0" and st': "st' = fold register ids
      (st\<lparr>id_to_batch := (\<lambda>i. if i \<in> set ids then Some key else id_to_batch st i),
          batches := (batches st)(key \<mapsto> remdups ids)\<rparr>)"
    using assms(3) by (auto simp: register_batch_def vec_get_def Let_def split: if_splits)
  then have key: "key \<in> set ids" by simp
  have new: "i \<notin> set (responders st)" "id_to_batch st i = None" if "i \<in> set ids" for i
    using that assms(2) pending_invD(1,5) [OF assms(1), of i] by fastforce+
  have kb: "batches st key = None"
    using pending_invD(6) [OF assms(1), of key] key assms(2) by fastforce
  show ?thesis
    unfolding pending_inv_def st'
    using pending_invD [OF assms(1)] new key kb ids(1)
    by (auto split: if_splits) (metis option.inject option.distinct(1))+
qed

lemma fail_short_batch_inv:
  assumes "pending_inv st"
  shows "pending_inv (fail_short_batch present key st)"
proof (cases "batches st key")
  case (Some m)
  let ?st = "fail_short_batch present key st"
  have f: "responders ?st = filter (\<lambda>i. i \<notin> set (filter (\<lambda>i. i \<notin> set present) m)) (responders st)"
    "channels ?st = (\<lambda>i. if i \<in> set (filter (\<lambda>i. i \<notin> set present) m) \<and> i \<in> set (responders st)
                         then Some Closed else channels st i)"
    "batches ?st = (batches st)(key := None)"
    "id_to_batch ?st = (\<lambda>i. if i \<in> set m then None else id_to_batch st i)"
    using Some by (auto simp: fail_short_batch_def Let_def fun_eq_iff)
  show ?thesis
    unfolding pending_inv_def f using pending_invD [OF assms] Some
    by (auto split: if_splits) (metis option.inject)+
qed (simp add: fail_short_batch_def assms)

lemma fail_short_batches_inv:
  "pending_inv st \<Longrightarrow> pending_inv (fail_short_batches keys present st)"
  unfolding fail_short_batches_def by (induction keys arbitrary: st) (simp_all add: fail_short_batch_inv)

lemma route_array_inv:
  "pending_inv st \<Longrightarrow> route_array from_value items st = (reason, st') \<Longrightarrow> pending_inv st'"
  by (cases "route_items from_value items st")
     (auto simp: route_array_def Let_def split: option.splits
      intro: fail_short_batches_inv dest: route_items_inv)

lemma route_text_inv:
  "pending_inv st \<Longrightarrow> route_text parse from_value text st = (reason, st') \<Longrightarrow> pending_inv st'"
  by (auto simp: route_text_def split: option.splits json.splits intro: route_array_inv route_one_inv)

lemma drain_inv: "pending_inv st \<Longrightarrow> pending_inv (drain st)"
  unfolding pending_inv_def by (auto simp: drain_def)

subsection \<open>Answered batches\<close>

text \<open>
  Routing the items only ever takes ids out of the map, and an id that is still registered although
  its item was routed belongs to an item the router skipped as a notification.
\<close>

definition is_notification :: "json \<Rightarrow> bool" where
  "is_notification v \<longleftrightarrow> (\<exists>obj. as_object v = Some obj \<and> contains_key ''method'' obj)"

lemma route_one_skipped:
  assumes "route_one from_value v st = (None, st')" "item_id v = Some i" "i \<in> set (responders st')"
  shows "is_notification v"
proof -
  obtain obj where v: "v = JObject obj" "map_of obj ''id'' = Some (JNumber (PosInt i))"
    using assms(2) by (cases v) (auto simp: item_id_def as_u64_Some_iff split: Option.bind_splits)
  show ?thesis
  proof (rule ccontr)
    assume "\<not> is_notification v"
    then have "\<not> contains_key ''method'' obj" by (simp add: is_notification_def v)
    then show False
      using assms(1,3) v by (auto simp: route_one_def deliver_def Let_def split: option.splits if_splits)
  qed
qed

lemma route_items_responders:
  "pending_inv st \<Longrightarrow> route_items from_value items st = (reason, st') \<Longrightarrow>
   set (responders st') \<subseteq> set (responders st)"
proof (induction items arbitrary: st)
  case (Cons it items)
  obtain r st1 where 1: "route_one from_value it st = (r, st1)" by (cases "route_one from_value it st")
  have inv1: "pending_inv st1" by (rule route_one_inv [OF Cons.prems(1) 1])
  have "set (responders st1) \<subseteq> set (responders st)"
    by (rule route_one_cases [OF Cons.prems(1) 1]) (auto simp: deliver_def)
  then show ?case using Cons.IH [OF inv1] Cons.prems(2) 1 by (cases r) auto
qed simp

lemma route_items_skipped:
  assumes "pending_inv st" "route_items from_value items st = (None, st')"
    and "i \<in> set (responders st')" "item \<in> set items" "item_id item = Some i"
  shows "\<exists>item' \<in> set items. item_id item' = Some i \<and> is_notification item'"
  using assms
proof (induction items arbitrary: st)
  case (Cons it items)
  obtain st1 where 1: "route_one from_value it st = (None, st1)" "route_items from_value items st1 = (None, st')"
    using Cons.prems(2) by (auto split: prod.splits option.splits)
  have inv1: "pending_inv st1" by (rule route_one_inv [OF Cons.prems(1) 1(1)])
  have sub: "i \<in> set (responders st1)"
    using route_items_responders [OF inv1 1(2)] Cons.prems(3) by blast
  show ?case
  proof (cases "item = it")
    case True
    then show ?thesis using route_one_skipped [OF 1(1) _ sub] Cons.prems(5) by auto
  next
    case False
    then show ?thesis using Cons.IH [OF inv1 1(2) Cons.prems(3) _ Cons.prems(5)] Cons.prems(4) by auto
  qed
qed simp

lemma route_items_members:
  assumes "pending_inv st" "route_items from_value items st = (None, st')"
    and "id_to_batch st i = Some k" "i \<in> set (responders st')"
  shows "\<exists>m. batches st' k = Some m \<and> i \<in> set m"
  using assms
proof (induction items arbitrary: st)
  case Nil
  then show ?case using pending_invD(2) by fastforce
next
  case (Cons it items)
  obtain st1 where 1: "route_one from_value it st = (None, st1)" "route_items from_value items st1 = (None, st')"
    using Cons.prems(2) by (auto split: prod.splits option.splits)
  have inv1: "pending_inv st1" by (rule route_one_inv [OF Cons.prems(1) 1(1)])
  have "i \<in> set (responders st1)" using route_items_responders [OF inv1 1(2)] Cons.prems(4) by blast
  then have "id_to_batch st1 i = Some k"
    using Cons.prems(3) by (rule_tac route_one_cases [OF Cons.prems(1) 1(1)]) (auto simp: deliver_def)
  then show ?case using Cons.IH [OF inv1 1(2)] Cons.prems(4) by blast
qed

lemma fail_short_batches_responders:
  assumes "pending_inv st" "i \<in> set (responders (fail_short_batches keys present st))"
  shows "i \<in> set (responders st)"
    and "k \<in> set keys \<Longrightarrow> batches st k = Some m \<Longrightarrow> i \<in> set m \<Longrightarrow> i \<in> set present"
proof -
  have gen: "pending_inv st \<Longrightarrow> i \<in> set (responders (fold (fail_short_batch present) keys st)) \<Longrightarrow>
      i \<in> set (responders st) \<and>
      (\<forall>k \<in> set keys. \<forall>m. batches st k = Some m \<and> i \<in> set m \<longrightarrow> i \<in> set present)" for st
  proof (induction keys arbitrary: st)
    case (Cons key keys)
    let ?st = "fail_short_batch present key st"
    from Cons.IH [OF fail_short_batch_inv [OF Cons.prems(1)]] Cons.prems(2) have
      1: "i \<in> set (responders ?st)"
      "\<forall>k \<in> set keys. \<forall>m. batches ?st k = Some m \<and> i \<in> set m \<longrightarrow> i \<in> set present" by simp_all
    have 2: "i \<in> set (responders st)" "\<And>m. batches st key = Some m \<Longrightarrow> i \<in> set m \<Longrightarrow> i \<in> set present"
      using 1(1) by (auto simp: fail_short_batch_def Let_def split: option.splits)
    have 3: "batches ?st k = batches st k" if "k \<noteq> key" for k
      using that by (auto simp: fail_short_batch_def Let_def split: option.splits)
    show ?case
    proof (intro conjI ballI allI impI)
      fix k m assume k: "k \<in> set (key # keys)" and m: "batches st k = Some m \<and> i \<in> set m"
      show "i \<in> set present"
      proof (cases "k = key")
        case True
        then show ?thesis using 2 m by blast
      next
        case False
        then show ?thesis using 1(2) 3 [OF False] k m by auto
      qed
    qed (rule 2)
  qed simp
  show "i \<in> set (responders st)"
    and "k \<in> set keys \<Longrightarrow> batches st k = Some m \<Longrightarrow> i \<in> set m \<Longrightarrow> i \<in> set present"
    using gen [OF assms(1)] assms(2) unfolding fail_short_batches_def by blast+
qed

subsection \<open>The pending map as a state machine\<close>

text \<open>
  The states a pending map can reach: callers register fresh ids (the client never reuses one), undo
  a registration, the reader routes text frames, and a reset drains the map.
\<close>

inductive pending_reach ::
    "(string \<Rightarrow> json option) \<Rightarrow> (json \<Rightarrow> rpc_response option) \<Rightarrow> pending_state \<Rightarrow> bool"
  for parse from_value where
  connected: "pending_reach parse from_value pending_default"
| registered: "pending_reach parse from_value st \<Longrightarrow> channels st i = None \<Longrightarrow>
    pending_reach parse from_value (register i st)"
| batch_registered: "pending_reach parse from_value st \<Longrightarrow> \<forall>i \<in> set ids. channels st i = None \<Longrightarrow>
    register_batch ids st = Some st' \<Longrightarrow> pending_reach parse from_value st'"
| unregistered: "pending_reach parse from_value st \<Longrightarrow> pending_reach parse from_value (unregister ids st)"
| routed: "pending_reach parse from_value st \<Longrightarrow> route_text parse from_value frame st = (reason, st') \<Longrightarrow>
    pending_reach parse from_value st'"
| drained: "pending_reach parse from_value st \<Longrightarrow> pending_reach parse from_value (drain st)"

lemma pending_reach_inv: "pending_reach parse from_value st \<Longrightarrow> pending_inv st"
proof (induction rule: pending_reach.induct)
  case (registered st i)
  then show ?case by (simp add: register_inv)
next
  case (batch_registered st ids st')
  then show ?case by (simp add: register_batch_inv)
next
  case (routed st frame reason st')
  then show ?case by (simp add: route_text_inv)
qed (simp_all add: unregister_inv drain_inv)

text \<open>A delivered response was parsed from a frame item that carries the id of the request.\<close>

definition delivered_ok :: "(json \<Rightarrow> rpc_response option) \<Rightarrow> pending_state \<Rightarrow> bool" where
  "delivered_ok from_value st \<longleftrightarrow>
     (\<forall>i r. channels st i = Some (Delivered r) \<longrightarrow> (\<exists>v. item_id v = Some i \<and> from_value v = Some r))"

text \<open>No operation but a delivery puts a response on a channel.\<close>

lemma delivered_ok_kept:
  "delivered_ok fv st \<Longrightarrow>
   (\<And>i r. channels st' i = Some (Delivered r) \<Longrightarrow> channels st i = Some (Delivered r)) \<Longrightarrow>
   delivered_ok fv st'"
  unfolding delivered_ok_def by blast

lemma unregister_channels:
  "channels (unregister ids st) i = Some (Delivered r) \<Longrightarrow> channels st i = Some (Delivered r)"
  unfolding unregister_def
proof (induction ids arbitrary: st)
  case (Cons j ids)
  have "channels (leave_batch j (drop_sender j st)) i = Some (Delivered r)"
    by (rule Cons.IH) (use Cons.prems in simp)
  then show ?case by (auto simp: drop_sender_def split: if_splits)
qed simp

lemma route_one_delivered:
  "pending_inv st \<Longrightarrow> delivered_ok fv st \<Longrightarrow> route_one fv v st = (reason, st') \<Longrightarrow> delivered_ok fv st'"
proof -
  assume inv: "pending_inv st" and ok: "delivered_ok fv st" and r: "route_one fv v st = (reason, st')"
  show ?thesis
    by (rule route_one_cases [OF inv r]) (use ok in \<open>auto simp: delivered_ok_def deliver_def\<close>)
qed

lemma route_items_delivered:
  "pending_inv st \<Longrightarrow> delivered_ok fv st \<Longrightarrow> route_items fv items st = (reason, st') \<Longrightarrow> delivered_ok fv st'"
proof (induction items arbitrary: st)
  case (Cons item items)
  obtain r st1 where 1: "route_one fv item st = (r, st1)" by (cases "route_one fv item st")
  have "pending_inv st1" "delivered_ok fv st1"
    using route_one_inv [OF Cons.prems(1) 1] route_one_delivered [OF Cons.prems(1,2) 1] .
  then show ?case using Cons.IH [of st1] Cons.prems(3) 1 by (cases r) auto
qed simp

lemma fail_short_batches_channels:
  "channels (fail_short_batches keys present st) i = Some (Delivered r) \<Longrightarrow>
   channels st i = Some (Delivered r)"
  unfolding fail_short_batches_def
proof (induction keys arbitrary: st)
  case (Cons k keys)
  have "channels (fail_short_batch present k st) i = Some (Delivered r)"
    by (rule Cons.IH) (use Cons.prems in simp)
  then show ?case by (auto simp: fail_short_batch_def Let_def split: option.splits if_splits)
qed simp

lemma route_text_delivered:
  assumes inv: "pending_inv st" and ok: "delivered_ok fv st"
    and r: "route_text parse fv text st = (reason, st')"
  shows "delivered_ok fv st'"
proof -
  consider (same) "st' = st" | (one) v where "route_one fv v st = (reason, st')"
    | (array) items where "route_array fv items st = (reason, st')"
    using r by (auto simp: route_text_def split: option.splits json.splits)
  then show ?thesis
  proof cases
    case array
    obtain q st1 where items: "route_items fv items st = (q, st1)" by (cases "route_items fv items st")
    have "delivered_ok fv st1" by (rule route_items_delivered [OF inv ok items])
    moreover have "st' = st1 \<or> (\<exists>keys present. st' = fail_short_batches keys present st1)"
      using array items by (cases q) (auto simp: route_array_def Let_def)
    ultimately show ?thesis using fail_short_batches_channels delivered_ok_kept by metis
  qed (use ok route_one_delivered [OF inv ok] in auto)
qed

lemma pending_reach_delivered: "pending_reach parse fv st \<Longrightarrow> delivered_ok fv st"
proof (induction rule: pending_reach.induct)
  case connected
  then show ?case by (simp add: delivered_ok_def pending_default_def)
next
  case (registered st i)
  then show ?case by (auto intro: delivered_ok_kept simp: register_def split: if_splits)
next
  case (batch_registered st ids st')
  then show ?case
    by (elim delivered_ok_kept)
       (auto simp: register_batch_def Let_def split: option.splits if_splits)
next
  case (unregistered st ids)
  then show ?case by (auto intro: delivered_ok_kept dest: unregister_channels)
next
  case (routed st frame reason st')
  then show ?case by (blast intro: route_text_delivered pending_reach_inv)
next
  case (drained st)
  then show ?case by (auto intro: delivered_ok_kept simp: drain_def split: if_splits)
qed

subsection \<open>Properties\<close>

text \<open>
  C17.  In every reachable state of a connection's pending map a receiver waits exactly while its
  sender is registered, the batch index and its reverse index agree and hold registered ids only, and
  a response delivered for an id was parsed from a frame item carrying that id: no request is left
  waiting on a sender that is gone, and none gets another request's response.
\<close>

theorem ws_pending_invariant:
  assumes "pending_reach parse from_value st"
  shows "pending_inv st \<and> delivered_ok from_value st"
  using pending_reach_inv [OF assms] pending_reach_delivered [OF assms] by blast

theorem ws_pending_invariant_witness:
  "pending_inv (register 7 pending_default) \<and> delivered_ok (\<lambda>_. None) (register 7 pending_default)"
  by (rule ws_pending_invariant [of "\<lambda>_. None"], rule pending_reach.registered,
      rule pending_reach.connected) (simp add: pending_default_def)

text \<open>
  C18.  An array frame that does not corrupt the connection settles every batch it answers: a member
  of such a batch that is still waiting afterwards has an item in the frame that is a notification
  (an object with a \<open>method\<close>), so when the items are responses every member is delivered or failed at
  once, the missing ones without waiting for a timeout.
\<close>

theorem short_batch_fails_promptly:
  assumes "pending_inv st" and "route_array from_value items st = (None, st')"
    and "item \<in> set items" and "item_id item = Some j" and "id_to_batch st j = Some k"
    and "id_to_batch st i = Some k" and "channels st' i = Some Waiting"
  shows "\<exists>item' \<in> set items. item_id item' = Some i \<and> is_notification item'"
proof -
  let ?present = "present_ids items" and ?keys = "owning_batches (present_ids items) st"
  obtain st1 where items: "route_items from_value items st = (None, st1)"
    and st': "st' = fail_short_batches ?keys ?present st1"
    using assms(2) by (auto simp: route_array_def Let_def split: prod.splits option.splits)
  have inv1: "pending_inv st1" by (rule route_items_inv [OF assms(1) items])
  have "i \<in> set (responders st')"
    using pending_invD(1) [OF route_array_inv [OF assms(1,2)]] assms(7) by blast
  note left = this [unfolded st']
  have i1: "i \<in> set (responders st1)" by (rule fail_short_batches_responders(1) [OF inv1 left])
  obtain m where m: "batches st1 k = Some m" "i \<in> set m"
    using route_items_members [OF assms(1) items assms(6) i1] by blast
  have "j \<in> set ?present" using assms(3,4) by (force simp: present_ids_def map_filter_def)
  then have "k \<in> set ?keys" using assms(5) by (force simp: owning_batches_def map_filter_def)
  from fail_short_batches_responders(2) [OF inv1 left this m] have "i \<in> set ?present" .
  then obtain item' where "item' \<in> set items" "item_id item' = Some i"
    by (auto simp: present_ids_def map_filter_def)
  then show ?thesis using route_items_skipped [OF assms(1) items i1] by blast
qed

definition sample_batch_state :: pending_state where
  "sample_batch_state = the (register_batch [7, 8] pending_default)"

definition sample_item :: json where
  "sample_item = JObject [(''id'', JNumber (PosInt 7)), (''result'', JNull)]"

text \<open>The server answers the first of two calls only: the second one fails at once.\<close>

theorem short_batch_fails_promptly_witness:
  "\<exists>st'. route_array (\<lambda>_. Some (sample_response 7)) [sample_item] sample_batch_state = (None, st') \<and>
     channels st' 8 \<noteq> Some Waiting"
proof -
  have eval: "fst (route_array (\<lambda>_. Some (sample_response 7)) [sample_item] sample_batch_state) = None"
    by code_simp
  then obtain st' where run:
    "route_array (\<lambda>_. Some (sample_response 7)) [sample_item] sample_batch_state = (None, st')"
    by (cases "route_array (\<lambda>_. Some (sample_response 7)) [sample_item] sample_batch_state") simp
  have inv: "pending_inv sample_batch_state"
    by (rule register_batch_inv [OF pending_default_inv, of "[7, 8]"])
       (simp_all add: sample_batch_state_def register_batch_def vec_get_def pending_default_def)
  have ids: "id_to_batch sample_batch_state 7 = Some 7" "id_to_batch sample_batch_state 8 = Some 7"
    "item_id sample_item = Some 7" "\<not> is_notification sample_item"
    by (simp_all add: sample_batch_state_def register_batch_def vec_get_def sample_item_def item_id_def
        is_notification_def contains_key_def register_def)
  show ?thesis
    using short_batch_fails_promptly [OF inv run, of sample_item 7 7 8] ids run by auto
qed

text \<open>
  C19.  A reset for the current generation leaves no request waiting on the connection it tears down
  and makes room for a new dial; a late reset for an older generation changes nothing, so it cannot
  take down the connection that replaced its own.
\<close>

theorem reset_settles_all:
  assumes "active c = Some a" and "a < length (store c)" and "pending_inv (store c ! a)"
  shows "let c' = reset gen c
         in if gen = generation c
            then generation c' = gen + 1 \<and> active c' = None \<and> reset gen c' = c' \<and>
                 (\<forall>i. channels (store c' ! a) i \<noteq> Some Waiting) \<and> pending_inv (store c' ! a)
            else c' = c"
proof (cases "gen = generation c")
  case True
  have "channels (drain (store c ! a)) i \<noteq> Some Waiting" for i
    using pending_invD(1) [OF assms(3), of i] by (simp add: drain_def)
  then show ?thesis using True assms drain_inv [OF assms(3)] by (simp add: reset_def Let_def)
qed (simp add: reset_def)

theorem reset_settles_all_witness:
  "let c = connection_new\<lparr>store := [register 7 pending_default], active := Some 0\<rparr>; c' = reset 0 c
   in generation c' = 1 \<and> active c' = None \<and> channels (store c' ! 0) 7 \<noteq> Some Waiting"
  using reset_settles_all [of "connection_new\<lparr>store := [register 7 pending_default], active := Some 0\<rparr>" 0 0]
    register_inv [OF pending_default_inv, of 7]
  by (simp add: Let_def connection_new_def pending_default_def)

text \<open>
  A connection that dies between the end of its dial and the settling of the dial is installed all
  the same: its reader has already reset the generation it was born in, finds no live connection to
  drain, and the caller then makes the dead connection current and waits on it.
\<close>

lemma dead_connection_installed:
  "let (plan, c1) = get_active_begin connection_new;
       (dialed, c2) = dial (Inr ()) c1;
       c3 = reset 0 c2;
       (res, c4) = settle_dial (Inr 0) c3;
       c5 = c4\<lparr>store := (store c4)[0 := register 7 (store c4 ! 0)]\<rparr>
   in dialed = Inr (0, 0) \<and> active c5 = Some 0 \<and> generation c5 = 1 \<and> reset 0 c5 = c5 \<and>
      channels (store c5 ! 0) 7 = Some Waiting"
  by (simp add: get_active_begin_def connection_new_def dial_def reset_def settle_dial_def register_def
      pending_default_def)

end
