(* ===== verification/Ws_Send.thy ===== *)
theory Ws_Send
  imports Ws_Pending
begin

text \<open>
  The calls of the WebSocket transport (\<open>send_single\<close>, \<open>send_batch\<close> and the writer task of
  \<open>rpc-client/src/transport/ws.rs\<close>) from the registration to the result, and the proof that they keep the
  contract \<open>rpc_transport\<close>, which the HTTP transport keeps as well.

  A call runs over one connection generation.  What happens on that connection, before the call and while
  it waits, is a list of moves: frames of the reader, registrations of other calls, resets.
\<close>

subsection \<open>Reading a response\<close>

text \<open>
  The derived \<open>Deserialize\<close> of \<open>RpcErrorInfo\<close> and \<open>RpcResponse\<close>: a struct is read from an object or, in
  the order of its fields, from an array; a missing or null member is \<open>None\<close>.  The router hands only
  objects to \<open>read_response\<close>.
\<close>

definition nullable :: "json \<Rightarrow> json option" where
  "nullable v = (if v = JNull then None else Some v)"

definition error_info_of :: "json option \<Rightarrow> json option \<Rightarrow> json option \<Rightarrow> rpc_error_info option" where
  "error_info_of c m d = do {
     n \<leftarrow> Option.bind c as_i64;
     t \<leftarrow> Option.bind m as_str;
     Some \<lparr>code = n, message = t, data = Option.bind d nullable\<rparr>
   }"

fun read_error_info :: "json \<Rightarrow> rpc_error_info option" where
  "read_error_info (JObject kvs) = error_info_of (map_of kvs ''code'') (map_of kvs ''message'') (map_of kvs ''data'')"
| "read_error_info (JArray [c, m]) = error_info_of (Some c) (Some m) None"
| "read_error_info (JArray [c, m, d]) = error_info_of (Some c) (Some m) (Some d)"
| "read_error_info v = None"

definition read_response :: "json \<Rightarrow> rpc_response option" where
  "read_response v =
     (case v of
        JObject kvs \<Rightarrow>
          (case optional_member ''error'' kvs of
             None \<Rightarrow> Some \<lparr>id_value = optional_member ''id'' kvs, result = optional_member ''result'' kvs, error = None\<rparr>
           | Some e \<Rightarrow>
               map_option
                 (\<lambda>info. \<lparr>id_value = optional_member ''id'' kvs, result = optional_member ''result'' kvs, error = Some info\<rparr>)
                 (read_error_info e))
      | _ \<Rightarrow> None)"

lemma read_response_id:
  assumes "read_response v = Some r" "item_id v = Some i"
  shows "resp_id r = i"
  using assms
  by (auto simp: read_response_def item_id_def resp_id_def optional_member_def split: json.splits option.splits
      elim!: as_u64.elims)

subsection \<open>The writer task\<close>

text \<open>
  What the two channels give, \<open>None\<close> when a channel is closed, with the outcome of the write; the result
  is what the sink accepted before it is closed.
\<close>

datatype writer_event = Outgoing "string option" | PongReply "string option"

fun writer_task :: "(writer_event \<times> bool) list \<Rightarrow> ws_message list" where
  "writer_task [] = []"
| "writer_task ((Outgoing None, ok) # evs) = []"
| "writer_task ((Outgoing (Some text), ok) # evs) = (if ok then Text text # writer_task evs else [])"
| "writer_task ((PongReply (Some payload), ok) # evs) = (if ok then Pong payload # writer_task evs else [])"
| "writer_task ((PongReply None, ok) # evs) = writer_task evs"

text \<open>
  The frames of the callers go out in order and none is made up.  A closed pong channel is polled again and
  again: such turns of the loop write nothing and do not end it.
\<close>

definition sent_texts :: "ws_message list \<Rightarrow> string list" where
  "sent_texts msgs = List.map_filter (\<lambda>msg. case msg of Text t \<Rightarrow> Some t | _ \<Rightarrow> None) msgs"

definition offered_texts :: "(writer_event \<times> bool) list \<Rightarrow> string list" where
  "offered_texts evs = List.map_filter (\<lambda>(ev, ok). case ev of Outgoing t \<Rightarrow> t | _ \<Rightarrow> None) evs"

lemma writer_sends_in_order: "\<exists>rest. offered_texts evs = sent_texts (writer_task evs) @ rest"
  by (induction evs rule: writer_task.induct) (auto simp: offered_texts_def sent_texts_def List.map_filter_simps)

lemma writer_spins: "writer_task (replicate n (PongReply None, ok) @ evs) = writer_task evs"
  by (induction n) auto

subsection \<open>A call on a connection\<close>

definition send_frame :: "bool \<Rightarrow> rpc_error + unit" where
  "send_frame writer_gone = (if writer_gone then Inl (Disconnected ''writer task gone'') else Inr ())"

text \<open>A connection with one generation behind it, as \<open>dial\<close> leaves it.\<close>

definition live :: "u64 \<Rightarrow> connection" where
  "live g = \<lparr>store = [pending_default], active = Some 0, dialing = False, failures = 0, generation = g\<rparr>"

datatype conn_move =
    Frame string
  | Registers u64
  | RegistersBatch "u64 list"
  | Unregisters "u64 list"
  | Resets u64

definition on_cell :: "(pending_state \<Rightarrow> pending_state) \<Rightarrow> connection \<Rightarrow> connection" where
  "on_cell f c = c\<lparr>store := (store c)[0 := f (store c ! 0)]\<rparr>"

fun conn_step :: "(string \<Rightarrow> json option) \<Rightarrow> conn_move \<Rightarrow> connection \<Rightarrow> connection" where
  "conn_step parse (Frame t) c = on_cell (\<lambda>st. snd (route_text parse read_response t st)) c"
| "conn_step parse (Registers i) c = on_cell (register i) c"
| "conn_step parse (RegistersBatch ids) c =
     on_cell (\<lambda>st. case register_batch ids st of Some st' \<Rightarrow> st' | None \<Rightarrow> st) c"
| "conn_step parse (Unregisters ids) c = on_cell (unregister ids) c"
| "conn_step parse (Resets g) c = reset g c"

text \<open>
  The inputs of a call: the failure of \<open>get_active\<close>, if any; the generation and what it has been through;
  whether the writer is gone; what happens until the wait ends.  A wait that these moves leave open ends
  with the deadline, and without one with the loss of the connection.  (When the connection was already
  reset before the call registered on it, nothing ends a wait without a deadline: that run has no result,
  and \<open>Disconnected\<close> stands for it.)
\<close>

record ws_wait =
  ww_dial_error :: "string option"
  ww_generation :: u64
  ww_before :: "conn_move list"
  ww_writer_gone :: bool
  ww_during :: "conn_move list"
  ww_timeout :: nat

definition waits_on :: "u64 list \<Rightarrow> connection \<Rightarrow> channel list" where
  "waits_on ids c = map (\<lambda>i. case channels (store c ! 0) i of Some ch \<Rightarrow> ch | None \<Rightarrow> Closed) ids"

text \<open>\<open>try_join_all\<close> is ready when a channel is closed or all are served.\<close>

definition still_open :: "channel list \<Rightarrow> bool" where
  "still_open chs \<longleftrightarrow> Waiting \<in> set chs \<and> Closed \<notin> set chs"

definition await_channels :: "nat \<Rightarrow> u64 list \<Rightarrow> connection \<Rightarrow> channel list option \<times> connection" where
  "await_channels timeout ids c =
     (if \<not> still_open (waits_on ids c) then (Some (waits_on ids c), c)
      else if effective_timeout timeout \<noteq> None then (None, c)
      else let c' = reset_current c in (Some (waits_on ids c'), c'))"

definition ws_send_single ::
    "(string \<Rightarrow> json option) \<Rightarrow> ws_wait \<Rightarrow> owned_rpc_request \<Rightarrow> (rpc_error + rpc_response) \<times> connection" where
  "ws_send_single parse x req =
     (let c = fold (conn_step parse) (ww_before x) (live (ww_generation x))
      in case ww_dial_error x of
           Some e \<Rightarrow> (Inl (Disconnected e), c)
         | None \<Rightarrow>
             (let c1 = on_cell (register (req_id req)) c
              in case send_frame (ww_writer_gone x) of
                   Inl e \<Rightarrow> (let (e', c2) = send_failed [req_id req] 0 c1 in (Inl e', c2))
                 | Inr _ \<Rightarrow>
                     (let c2 = fold (conn_step parse) (ww_during x) c1;
                          (ended, c3) = await_channels (ww_timeout x) [req_id req] c2
                      in settle_single (Option.bind ended (\<lambda>chs. vec_get chs 0)) c3)))"

definition ws_send_batch ::
    "(string \<Rightarrow> json option) \<Rightarrow> ws_wait \<Rightarrow> owned_rpc_request list \<Rightarrow> (rpc_error + rpc_response list) \<times> connection" where
  "ws_send_batch parse x reqs =
     (let c = fold (conn_step parse) (ww_before x) (live (ww_generation x))
      in if reqs = [] then (Inr [], c)
         else case ww_dial_error x of
           Some e \<Rightarrow> (Inl (Disconnected e), c)
         | None \<Rightarrow>
             (let ids = map req_id reqs;
                  gen_before = generation c;
                  c1 = on_cell (\<lambda>st. case register_batch ids st of Some st' \<Rightarrow> st' | None \<Rightarrow> st) c
              in case send_frame (ww_writer_gone x) of
                   Inl e \<Rightarrow> (let (e', c2) = send_failed ids 0 c1 in (Inl e', c2))
                 | Inr _ \<Rightarrow>
                     (let c2 = fold (conn_step parse) (ww_during x) c1;
                          (ended, c3) = await_channels (ww_timeout x) ids c2
                      in settle_batch ids 0 gen_before ended c3)))"

subsection \<open>The contract of a transport\<close>

definition cell_ok :: "connection \<Rightarrow> bool" where
  "cell_ok c \<longleftrightarrow> length (store c) = 1 \<and> (\<forall>a. active c = Some a \<longrightarrow> a = 0) \<and> delivered_ok read_response (store c ! 0)"

lemma delivered_ok_deliver:
  "delivered_ok fv st \<Longrightarrow> item_id v = Some i \<Longrightarrow> fv v = Some r \<Longrightarrow>
   delivered_ok fv (deliver i r (leave_batch i st))"
  by (auto simp: delivered_ok_def deliver_def)

lemma delivered_ok_leave: "delivered_ok fv st \<Longrightarrow> delivered_ok fv (leave_batch i st)"
  by (simp add: delivered_ok_def)

lemma route_one_delivers:
  assumes "delivered_ok fv st"
  shows "delivered_ok fv (snd (route_one fv v st))"
proof (cases "\<exists>i r. item_id v = Some i \<and> fv v = Some r")
  case True
  then obtain i r where v: "item_id v = Some i" "fv v = Some r" by blast
  then obtain obj where obj: "as_object v = Some obj" "Option.bind (map_of obj ''id'') as_u64 = Some i"
    by (cases v) (auto simp: item_id_def)
  then obtain w where w: "map_of obj ''id'' = Some w" "as_u64 w = Some i" by (cases "map_of obj ''id''") auto
  show ?thesis using assms v obj(1) w
    by (cases w) (auto simp: route_one_def Let_def delivered_ok_deliver delivered_ok_leave)
next
  case False
  have "snd (route_one fv v st) = st"
  proof (cases "as_object v")
    case (Some obj)
    then have "item_id v = Option.bind (map_of obj ''id'') as_u64" by (cases v) (auto simp: item_id_def)
    then show ?thesis using Some False by (auto simp: route_one_def split: option.splits json.splits)
  qed (simp add: route_one_def)
  then show ?thesis using assms by simp
qed

lemma route_items_delivers: "delivered_ok fv st \<Longrightarrow> delivered_ok fv (snd (route_items fv items st))"
proof (induction items arbitrary: st)
  case (Cons v items)
  then show ?case using route_one_delivers [of fv st v] by (auto split: prod.splits option.splits)
qed simp

lemma route_array_delivers:
  assumes "delivered_ok fv st"
  shows "delivered_ok fv (snd (route_array fv items st))"
proof -
  obtain q st1 where items: "route_items fv items st = (q, st1)" by (cases "route_items fv items st")
  then have ok: "delivered_ok fv st1" using route_items_delivers [OF assms, of items] by simp
  have "snd (route_array fv items st) = st1 \<or>
      (\<exists>keys present. snd (route_array fv items st) = fail_short_batches keys present st1)"
    using items by (cases q) (auto simp: route_array_def Let_def)
  then show ?thesis using ok fail_short_batches_channels delivered_ok_kept by metis
qed

lemma route_text_delivers: "delivered_ok fv st \<Longrightarrow> delivered_ok fv (snd (route_text parse fv t st))"
  by (auto simp: route_text_def route_one_delivers route_array_delivers split: option.splits json.splits)

lemma on_cell_ok: "cell_ok c \<Longrightarrow> (delivered_ok read_response (store c ! 0) \<Longrightarrow> delivered_ok read_response (f (store c ! 0))) \<Longrightarrow> cell_ok (on_cell f c)"
  by (auto simp: cell_ok_def on_cell_def)

lemma register_delivers: "delivered_ok fv st \<Longrightarrow> delivered_ok fv (register i st)"
  by (auto simp: delivered_ok_def register_def split: if_splits)

lemma register_batch_delivers:
  "delivered_ok fv st \<Longrightarrow> delivered_ok fv (case register_batch ids st of Some st' \<Rightarrow> st' | None \<Rightarrow> st)"
  by (auto simp: register_batch_def Let_def delivered_ok_def split: option.splits if_splits)

lemma unregister_delivers: "delivered_ok fv st \<Longrightarrow> delivered_ok fv (unregister ids st)"
  by (auto intro: delivered_ok_kept dest: unregister_channels)

lemma reset_cell_ok: "cell_ok c \<Longrightarrow> cell_ok (reset g c)"
  by (auto simp: cell_ok_def reset_def Let_def drain_def delivered_ok_def split: option.splits if_splits)

lemma conn_step_ok: "cell_ok c \<Longrightarrow> cell_ok (conn_step parse mv c)"
  by (cases mv) (auto intro!: on_cell_ok route_text_delivers register_delivers register_batch_delivers unregister_delivers reset_cell_ok)

lemma conn_steps_ok: "cell_ok c \<Longrightarrow> cell_ok (fold (conn_step parse) mvs c)"
  by (induction mvs arbitrary: c) (auto simp: conn_step_ok)

lemma live_ok: "cell_ok (live g)"
  by (simp add: cell_ok_def live_def delivered_ok_def pending_default_def)

lemma await_channels_ok:
  assumes "await_channels timeout ids c = (Some chs, c')" "cell_ok c"
  shows "cell_ok c'" "chs = waits_on ids c'"
  using assms reset_cell_ok by (auto simp: await_channels_def reset_current_def Let_def split: if_splits)

lemma waits_on_answers:
  assumes "cell_ok c" "channels (store c ! 0) i = Some (Delivered r)"
  shows "resp_id r = i"
  using assms read_response_id unfolding cell_ok_def delivered_ok_def by blast

lemma delivered_all_answers:
  "cell_ok c \<Longrightarrow> delivered_all (waits_on (map req_id qs) c) = Some rs \<Longrightarrow> list_all2 answers qs rs"
proof (induction qs arbitrary: rs)
  case (Cons q qs)
  let ?ch = "case channels (store c ! 0) (req_id q) of Some ch \<Rightarrow> ch | None \<Rightarrow> Closed"
  obtain r out where "?ch = Delivered r" "delivered_all (waits_on (map req_id qs) c) = Some out" "rs = r # out"
    using Cons.prems(2) by (cases ?ch) (auto simp: waits_on_def)
  then show ?case using Cons.IH [OF Cons.prems(1)] waits_on_answers [OF Cons.prems(1), of "req_id q" r]
    by (auto simp: answers_def split: option.splits)
qed (simp add: waits_on_def)

interpretation ws: rpc_transport "\<lambda>x q. fst (ws_send_single parse x q)" "\<lambda>x qs. fst (ws_send_batch parse x qs)" answers
  for parse
proof unfold_locales
  fix x q r
  assume run: "fst (ws_send_single parse x q) = Inr r"
  define c where "c = fold (conn_step parse) (ww_during x)
      (on_cell (register (req_id q)) (fold (conn_step parse) (ww_before x) (live (ww_generation x))))"
  have ok: "cell_ok c" unfolding c_def
    by (intro conn_steps_ok on_cell_ok register_delivers live_ok)
  obtain ended c' where w: "await_channels (ww_timeout x) [req_id q] c = (ended, c')" by fastforce
  have "ww_dial_error x = None" "\<not> ww_writer_gone x"
    using run by (auto simp: ws_send_single_def send_frame_def send_failed_def Let_def split: option.splits if_splits)
  then have settled: "fst (settle_single (Option.bind ended (\<lambda>chs. vec_get chs 0)) c') = Inr r"
    using run w by (simp add: ws_send_single_def send_frame_def Let_def c_def)
  then obtain chs where chs: "ended = Some chs" "vec_get chs 0 = Some (Delivered r)"
    by (auto simp: settle_single_def bind_eq_Some_conv split: option.splits channel.splits)
  note a = await_channels_ok [OF w [unfolded chs(1)] ok]
  have "channels (store c' ! 0) (req_id q) = Some (Delivered r)"
    using chs(2) unfolding a(2) by (auto simp: waits_on_def vec_get_def split: option.splits)
  then show "answers q r" using waits_on_answers [OF a(1)] by (simp add: answers_def)
next
  fix x qs rs
  assume run: "fst (ws_send_batch parse x qs) = Inr rs"
  show "list_all2 answers qs rs"
  proof (cases "qs = []")
    case True
    then show ?thesis using run by (simp add: ws_send_batch_def Let_def)
  next
    case False
    let ?b = "fold (conn_step parse) (ww_before x) (live (ww_generation x))"
    define c where "c = fold (conn_step parse) (ww_during x)
        (on_cell (\<lambda>st. case register_batch (map req_id qs) st of Some st' \<Rightarrow> st' | None \<Rightarrow> st) ?b)"
    have ok: "cell_ok c" unfolding c_def
      by (intro conn_steps_ok on_cell_ok register_batch_delivers live_ok)
    obtain ended c' where w: "await_channels (ww_timeout x) (map req_id qs) c = (ended, c')" by fastforce
    have "ww_dial_error x = None" "\<not> ww_writer_gone x"
      using run False by (auto simp: ws_send_batch_def send_frame_def send_failed_def Let_def split: option.splits if_splits)
    then have settled: "fst (settle_batch (map req_id qs) 0 (generation ?b) ended c') = Inr rs"
      using run w False by (simp add: ws_send_batch_def send_frame_def Let_def c_def)
    then obtain chs where chs: "ended = Some chs" "delivered_all chs = Some rs"
      by (auto simp: settle_batch_def split: option.splits if_splits)
    note a = await_channels_ok [OF w [unfolded chs(1)] ok]
    show ?thesis using delivered_all_answers [OF a(1)] chs(2) unfolding a(2) .
  qed
qed

end
