(* ===== verification/Evm_Data.thy ===== *)
theory Evm_Data
  imports Evm_Qty
begin

text \<open>
  The raw RPC data (\<open>evm-source/src/rpc_data.rs\<close>).  The fields carry a short prefix for their struct;
  \<open>extra\<close> holds the members outside the schema.  Deserialisation is derived by \<open>serde\<close> and not
  modelled.  The second half are the kinds of debug frames and the verdict a raw block carries while
  it is acquired: once a block is marked incoherent no later mark makes it look merely late.
\<close>

subsection \<open>Structures\<close>

type_synonym json_map = "(string \<times> json) list"

record frontier_access_item =
  fai_address :: string
  fai_storage_keys :: "string list"

record access_item_both =
  aib_address :: string
  aib_storage_keys :: "string list"

datatype access_list_item = StandardAccess access_item_both | FrontierAccess frontier_access_item

fun al_address :: "access_list_item \<Rightarrow> string" where
  "al_address (StandardAccess a) = aib_address a"
| "al_address (FrontierAccess a) = fai_address a"

fun al_storage_keys :: "access_list_item \<Rightarrow> string list" where
  "al_storage_keys (StandardAccess a) = aib_storage_keys a"
| "al_storage_keys (FrontierAccess a) = fai_storage_keys a"

record eip7702_authorization =
  auth_chain_id :: string
  auth_address :: string
  auth_nonce :: string
  auth_y_parity :: string
  auth_r :: string
  auth_s :: string

record frontier_signature =
  fsig_odd_y_parity :: bool
  fsig_r :: string
  fsig_s :: string

record frontier_eip7702_authorization =
  fauth_chain_id :: u64
  fauth_address :: string
  fauth_nonce :: string
  fauth_signature :: frontier_signature

datatype eip7702_authorization_item =
    StandardAuth eip7702_authorization
  | FrontierAuth frontier_eip7702_authorization

record tempo_call =
  tcall_to :: "string option"
  tcall_value :: string
  tcall_input :: string

datatype tempo_primitive_signature =
    Secp256k1 string string "string option" "string option"
  | P256 string string string string bool
  | WebAuthn string string string string string

record tempo_keychain_signature =
  tks_user_address :: string
  tks_signature :: tempo_primitive_signature
  tks_version :: "string option"

datatype tempo_signature_object =
    KeychainSig tempo_keychain_signature
  | PrimitiveSig tempo_primitive_signature

record tempo_signed_authorization =
  tsa_chain_id :: string
  tsa_address :: string
  tsa_nonce :: string
  tsa_signature :: tempo_signature_object

record tempo_token_limit =
  ttl_token :: string
  ttl_limit :: string
  ttl_period :: "string option"

record tempo_selector_rule =
  tsr_selector :: string
  tsr_recipients :: "string list"

record tempo_call_scope =
  tcs_target :: string
  tcs_selector_rules :: "tempo_selector_rule list"

record tempo_signed_key_authorization =
  tka_chain_id :: string
  tka_key_type :: string
  tka_key_id :: string
  tka_expiry :: "string option"
  tka_limits :: "tempo_token_limit list option"
  tka_allowed_calls :: "tempo_call_scope list option"
  tka_witness :: "string option"
  tka_is_admin :: "bool option"
  tka_account :: "string option"
  tka_signature :: tempo_primitive_signature

record fee_payer_signature =
  fps_v :: string
  fps_r :: string
  fps_s :: string

record rpc_transaction =
  tx_block_number :: string
  tx_block_hash :: string
  tx_hash :: string
  tx_transaction_index :: string
  tx_chain_id :: "string option"
  tx_from :: string
  tx_to :: "string option"
  tx_gas :: string
  tx_gas_price :: "string option"
  tx_input :: "string option"
  tx_max_fee_per_gas :: "string option"
  tx_max_priority_fee_per_gas :: "string option"
  tx_nonce :: string
  tx_v :: "string option"
  tx_r :: "string option"
  tx_s :: "string option"
  tx_tx_type :: "string option"
  tx_value :: "string option"
  tx_y_parity :: "string option"
  tx_access_list :: "access_list_item list option"
  tx_max_fee_per_blob_gas :: "string option"
  tx_blob_versioned_hashes :: "string list option"
  tx_authorization_list :: "eip7702_authorization_item list option"
  tx_request_id :: "string option"
  tx_ticket_id :: "string option"
  tx_refund_to :: "string option"
  tx_max_refund :: "string option"
  tx_submission_fee_refund :: "string option"
  tx_l1_base_fee :: "string option"
  tx_deposit_value :: "string option"
  tx_retry_to :: "string option"
  tx_retry_value :: "string option"
  tx_beneficiary :: "string option"
  tx_max_submission_fee :: "string option"
  tx_retry_data :: "string option"
  tx_source_hash :: "string option"
  tx_mint :: "string option"
  tx_calls :: "tempo_call list option"
  tx_nonce_key :: "string option"
  tx_timeout_timestamp :: "string option"
  tx_signature :: "tempo_signature_object option"
  tx_fee_token :: "string option"
  tx_fee_payer_signature :: "fee_payer_signature option"
  tx_valid_before :: "string option"
  tx_valid_after :: "string option"
  tx_aa_authorization_list :: "tempo_signed_authorization list option"
  tx_key_authorization :: "tempo_signed_key_authorization option"
  tx_extra :: json_map

record rpc_withdrawal =
  wd_address :: string
  wd_amount :: string
  wd_index :: string
  wd_validator_index :: string

record rpc_log =
  log_block_hash :: string
  log_block_number :: string
  log_transaction_hash :: string
  log_transaction_index :: string
  log_log_index :: string
  log_address :: string
  log_topics :: "string list"
  log_data :: string
  log_removed :: "bool option"
  log_extra :: json_map

record rpc_receipt =
  rc_block_hash :: string
  rc_block_number :: string
  rc_transaction_hash :: string
  rc_transaction_index :: string
  rc_contract_address :: "string option"
  rc_cumulative_gas_used :: string
  rc_from :: string
  rc_gas_used :: string
  rc_effective_gas_price :: "string option"
  rc_logs :: "rpc_log list"
  rc_logs_bloom :: string
  rc_status :: "string option"
  rc_root :: "string option"
  rc_to :: "string option"
  rc_receipt_type :: string
  rc_blob_gas_used :: "string option"
  rc_blob_gas_price :: "string option"
  rc_l1_fee :: "string option"
  rc_l1_fee_scalar :: "string option"
  rc_l1_base_fee_scalar :: "string option"
  rc_l1_blob_base_fee :: "string option"
  rc_l1_blob_base_fee_scalar :: "string option"
  rc_l1_gas_price :: "string option"
  rc_l1_gas_used :: "string option"
  rc_deposit_nonce :: "string option"
  rc_deposit_receipt_version :: "string option"
  rc_extra :: json_map

record rpc_block =
  rb_number :: string
  rb_hash :: string
  rb_parent_hash :: string
  rb_difficulty :: "string option"
  rb_total_difficulty :: "string option"
  rb_excess_blob_gas :: "string option"
  rb_extra_data :: string
  rb_gas_limit :: string
  rb_gas_used :: string
  rb_sha3_uncles :: string
  rb_logs_bloom :: string
  rb_transactions_root :: string
  rb_receipts_root :: string
  rb_state_root :: string
  rb_miner :: string
  rb_mix_hash :: "string option"
  rb_nonce :: "string option"
  rb_base_fee_per_gas :: "string option"
  rb_blob_gas_used :: "string option"
  rb_parent_beacon_block_root :: "string option"
  rb_size :: string
  rb_timestamp :: string
  rb_transactions :: "rpc_transaction list"
  rb_uncles :: "string list"
  rb_withdrawals :: "rpc_withdrawal list option"
  rb_withdrawals_root :: "string option"
  rb_requests_hash :: "string option"
  rb_l1_block_number :: "string option"
  rb_main_block_general_gas_limit :: "string option"
  rb_shared_gas_limit :: "string option"
  rb_timestamp_millis_part :: "string option"

record trace_action_create =
  tac_from :: string
  tac_value :: string
  tac_gas :: string
  tac_init :: string
  tac_creation_method :: "string option"

record trace_action_call =
  tal_call_type :: string
  tal_from :: string
  tal_gas :: string
  tal_input :: string
  tal_to :: string
  tal_value :: string

record trace_action_reward =
  tar_author :: string
  tar_reward_type :: string
  tar_value :: string

record trace_action_selfdestruct =
  tas_address :: string
  tas_balance :: string
  tas_refund_address :: string

datatype trace_action =
    CreateAction trace_action_create
  | CallAction trace_action_call
  | RewardAction trace_action_reward
  | SelfdestructAction trace_action_selfdestruct

record trace_result_create =
  trc_gas_used :: string
  trc_code :: string
  trc_address :: string

record trace_result_call =
  trl_gas_used :: string
  trl_output :: string

datatype trace_result = CreateResult trace_result_create | CallResult trace_result_call

record trace_frame =
  tf_action :: trace_action
  tf_block_hash :: "string option"
  tf_block_number :: "u64 option"
  tf_result :: "trace_result option"
  tf_subtraces :: u64
  tf_trace_address :: "u64 list"
  tf_transaction_hash :: "string option"
  tf_transaction_position :: "u64 option"
  tf_frame_type :: string
  tf_error :: "string option"

record trace_transaction_replay =
  rep_output :: "string option"
  rep_state_diff :: "(string \<times> json) list option"
  rep_trace :: "trace_frame list option"
  rep_transaction_hash :: "string option"


subsection \<open>Debug frames\<close>

datatype debug_frame_kind =
    KCall | KCallCode | KDelegateCall | KStaticCall | KInvalid | KCreate | KCreate2 | KSelfdestruct
  | KStop | KUnknown

definition eq_ignore_ascii_case :: "string \<Rightarrow> string \<Rightarrow> bool" where
  "eq_ignore_ascii_case a b \<longleftrightarrow> map ascii_lower a = map ascii_lower b"

definition classify_frame :: "string \<Rightarrow> debug_frame_kind" where
  "classify_frame v =
     (if eq_ignore_ascii_case v ''CALL'' then KCall
      else if eq_ignore_ascii_case v ''CALLCODE'' then KCallCode
      else if eq_ignore_ascii_case v ''DELEGATECALL'' then KDelegateCall
      else if eq_ignore_ascii_case v ''STATICCALL'' then KStaticCall
      else if eq_ignore_ascii_case v ''INVALID'' then KInvalid
      else if eq_ignore_ascii_case v ''CREATE'' then KCreate
      else if eq_ignore_ascii_case v ''CREATE2'' then KCreate2
      else if eq_ignore_ascii_case v ''SELFDESTRUCT'' then KSelfdestruct
      else if eq_ignore_ascii_case v ''STOP'' then KStop
      else KUnknown)"

fun normalized_kind :: "debug_frame_kind \<Rightarrow> string option" where
  "normalized_kind k =
     (if k \<in> {KCall, KCallCode, KDelegateCall, KStaticCall, KInvalid} then Some ''call''
      else if k \<in> {KCreate, KCreate2} then Some ''create''
      else if k = KSelfdestruct then Some ''selfdestruct''
      else None)"

definition is_call :: "debug_frame_kind \<Rightarrow> bool" where
  "is_call k \<longleftrightarrow> k \<in> {KCall, KCallCode, KDelegateCall, KStaticCall, KInvalid}"

definition is_root_call :: "debug_frame_kind \<Rightarrow> bool" where
  "is_root_call k \<longleftrightarrow> k \<in> {KCall, KInvalid}"

definition is_create :: "debug_frame_kind \<Rightarrow> bool" where
  "is_create k \<longleftrightarrow> k \<in> {KCreate, KCreate2}"

definition is_selfdestruct :: "debug_frame_kind \<Rightarrow> bool" where
  "is_selfdestruct k \<longleftrightarrow> k = KSelfdestruct"

definition is_mappable :: "debug_frame_kind \<Rightarrow> bool" where
  "is_mappable k \<longleftrightarrow> normalized_kind k \<noteq> None"

definition preserves_context :: "debug_frame_kind \<Rightarrow> bool" where
  "preserves_context k \<longleftrightarrow> k \<in> {KCallCode, KDelegateCall}"

datatype debug_frame =
  DebugFrame
    (df_frame_type: string)
    (df_from: string)
    (df_to: "string option")
    (df_input: "string option")
    (df_output: "string option")
    (df_error: "string option")
    (df_revert_reason: "string option")
    (df_value: "string option")
    (df_gas: string)
    (df_gas_used: "string option")
    (df_calls: "debug_frame list option")
    (df_extra: json_map)

record debug_frame_result =
  dfr_result :: debug_frame
  dfr_tx_hash :: "string option"

record debug_state_diff =
  dsd_pre :: json_map
  dsd_post :: json_map

record debug_state_diff_result =
  dsr_result :: debug_state_diff
  dsr_tx_hash :: "string option"

subsection \<open>The raw block and its verdict\<close>

record raw_rpc_block =
  raw_number :: u64
  raw_hash :: string
  raw_block :: rpc_block
  raw_logs :: "rpc_log list option"
  raw_receipts :: "rpc_receipt list option"
  raw_debug_frames :: "debug_frame_result option list option"
  raw_trace_replays :: "trace_transaction_replay list option"
  raw_debug_state_diffs :: "debug_state_diff_result option list option"
  is_invalid :: bool
  is_not_ready :: bool
  header_contested :: bool
  error_message :: "string option"

definition raw_rpc_block_new :: "u64 \<Rightarrow> string \<Rightarrow> rpc_block \<Rightarrow> raw_rpc_block" where
  "raw_rpc_block_new n h b =
     \<lparr>raw_number = n, raw_hash = h, raw_block = b, raw_logs = None, raw_receipts = None,
      raw_debug_frames = None, raw_trace_replays = None, raw_debug_state_diffs = None,
      is_invalid = False, is_not_ready = False, header_contested = False, error_message = None\<rparr>"

definition mark_invalid :: "string \<Rightarrow> raw_rpc_block \<Rightarrow> raw_rpc_block" where
  "mark_invalid msg r =
     r\<lparr>is_invalid := True, is_not_ready := False, header_contested := False, error_message := Some msg\<rparr>"

definition mark_not_ready :: "string \<Rightarrow> raw_rpc_block \<Rightarrow> raw_rpc_block" where
  "mark_not_ready msg r =
     (if is_invalid r \<and> \<not> is_not_ready r then r
      else r\<lparr>is_invalid := True, is_not_ready := True, error_message := Some msg\<rparr>)"

definition mark_header_contested :: "string \<Rightarrow> raw_rpc_block \<Rightarrow> raw_rpc_block" where
  "mark_header_contested msg r =
     (if is_invalid r \<and> \<not> is_not_ready r then r
      else (mark_not_ready msg r)\<lparr>header_contested := True\<rparr>)"

definition clear_invalid :: "raw_rpc_block \<Rightarrow> raw_rpc_block" where
  "clear_invalid r =
     r\<lparr>is_invalid := False, is_not_ready := False, header_contested := False, error_message := None\<rparr>"

subsection \<open>Facts\<close>

lemma normalized_kind_cases:
  "normalized_kind k = Some ''call'' \<longleftrightarrow> is_call k"
  "normalized_kind k = Some ''create'' \<longleftrightarrow> is_create k"
  "normalized_kind k = Some ''selfdestruct'' \<longleftrightarrow> is_selfdestruct k"
  "normalized_kind k = None \<longleftrightarrow> k = KStop \<or> k = KUnknown"
  by (cases k; simp add: is_call_def is_create_def is_selfdestruct_def)+

text \<open>
  The verdicts of a raw block: no verdict, late, contested, or incoherent; the marks are ordered and a
  sequence of marks gives the strongest one.
\<close>

datatype verdict = Clean | NotReady | Contested | Incoherent

definition verdict :: "raw_rpc_block \<Rightarrow> verdict" where
  "verdict r =
     (if \<not> is_invalid r then Clean
      else if \<not> is_not_ready r then Incoherent
      else if header_contested r then Contested
      else NotReady)"

definition flags_ok :: "raw_rpc_block \<Rightarrow> bool" where
  "flags_ok r \<longleftrightarrow>
     (is_not_ready r \<longrightarrow> is_invalid r) \<and> (header_contested r \<longrightarrow> is_not_ready r) \<and>
     (is_invalid r \<longleftrightarrow> error_message r \<noteq> None)"

datatype mark = MInvalid string | MNotReady string | MContested string

fun apply_mark :: "mark \<Rightarrow> raw_rpc_block \<Rightarrow> raw_rpc_block" where
  "apply_mark (MInvalid m) r = mark_invalid m r"
| "apply_mark (MNotReady m) r = mark_not_ready m r"
| "apply_mark (MContested m) r = mark_header_contested m r"

fun severity :: "verdict \<Rightarrow> nat" where
  "severity Clean = 0" | "severity NotReady = 1" | "severity Contested = 2" | "severity Incoherent = 3"

fun mark_severity :: "mark \<Rightarrow> nat" where
  "mark_severity (MNotReady m) = 1" | "mark_severity (MContested m) = 2" | "mark_severity (MInvalid m) = 3"

lemma apply_mark_flags: "flags_ok r \<Longrightarrow> flags_ok (apply_mark m r)"
  by (cases m) (auto simp: flags_ok_def mark_invalid_def mark_not_ready_def mark_header_contested_def)

lemma apply_mark_severity:
  "flags_ok r \<Longrightarrow> severity (verdict (apply_mark m r)) = max (severity (verdict r)) (mark_severity m)"
  by (cases m)
     (auto simp: flags_ok_def verdict_def mark_invalid_def mark_not_ready_def mark_header_contested_def)

lemma marks_flags_severity:
  assumes "flags_ok r"
  shows "flags_ok (fold apply_mark marks r) \<and>
    severity (verdict (fold apply_mark marks r)) = fold max (map mark_severity marks) (severity (verdict r))"
  using assms
proof (induction marks arbitrary: r)
  case (Cons m marks)
  then show ?case by (simp add: apply_mark_flags apply_mark_severity max.commute)
qed simp

lemma new_block_clean: "flags_ok (raw_rpc_block_new n h b)" "verdict (raw_rpc_block_new n h b) = Clean"
  by (simp_all add: flags_ok_def verdict_def raw_rpc_block_new_def)

lemma clear_invalid_clean: "verdict (clear_invalid r) = Clean" "flags_ok (clear_invalid r)"
  by (simp_all add: clear_invalid_def verdict_def flags_ok_def)

text \<open>
  C21.  However a raw block is marked while it is acquired, its verdict is the strongest of the marks
  (late, contested, incoherent in this order): a contradiction found once is never downgraded to a
  state that waiting could heal, the flags stay consistent with each other and with the message, and
  clearing the verdict gives a clean block again.
\<close>

theorem verdict_is_strongest_mark:
  "let r = fold apply_mark marks (raw_rpc_block_new n h b)
   in flags_ok r \<and> severity (verdict r) = fold max (map mark_severity marks) 0 \<and>
      verdict (clear_invalid r) = Clean \<and> flags_ok (clear_invalid r)"
  using marks_flags_severity [of "raw_rpc_block_new n h b" marks]
  by (simp add: Let_def new_block_clean clear_invalid_clean)

end
