(* ===== verification/Rlp.thy ===== *)
theory Rlp
  imports Prelude
begin

text \<open>
  The RLP encoders of \<open>evm-source/src/verification.rs\<close> and their correctness against a decoder.  Bytes
  are characters.  A length is a \<open>usize\<close> of 64 bits, so encodings of payloads below \<open>2 ^ 64\<close> bytes are
  covered.  The decoder is the specification: it reads one item off the front of a byte string, as
  the Ethereum yellow paper defines the format; \<open>rlp_items\<close> reads a whole payload.
\<close>

definition byte :: "nat \<Rightarrow> char" where
  "byte n = char_of n"

abbreviation nat_of_byte :: "char \<Rightarrow> nat" where
  "nat_of_byte \<equiv> of_char"

fun be_bytes :: "nat \<Rightarrow> nat \<Rightarrow> bytes" where
  "be_bytes 0 n = []"
| "be_bytes (Suc k) n = be_bytes k (n div 256) @ [byte n]"

text \<open>The bytes from the first one that is not zero on; \<open>dflt\<close> is the start when all are zero.\<close>

definition minimal_from :: "nat \<Rightarrow> bytes \<Rightarrow> bytes" where
  "minimal_from dflt bs =
     (case position (\<lambda>b. nat_of_byte b \<noteq> 0) bs of Some i \<Rightarrow> drop i bs | None \<Rightarrow> drop dflt bs)"

definition encode_uint_bytes :: "nat \<Rightarrow> bytes" where
  "encode_uint_bytes n = minimal_from 7 (be_bytes 8 n)"

definition encode_rlp_length :: "nat \<Rightarrow> nat \<Rightarrow> bytes" where
  "encode_rlp_length len offset =
     (if len < 56 then [byte (offset + len)]
      else let len_bytes = encode_uint_bytes len
           in byte (offset + 55 + length len_bytes) # len_bytes)"

definition encode_rlp_bytes :: "bytes \<Rightarrow> bytes" where
  "encode_rlp_bytes b =
     (if length b = 1 \<and> nat_of_byte (hd b) < 128 then b
      else encode_rlp_length (length b) 128 @ b)"

definition encode_rlp_uint :: "nat \<Rightarrow> bytes" where
  "encode_rlp_uint n = (if n = 0 then [byte 128] else encode_rlp_bytes (minimal_from 15 (be_bytes 16 n)))"

datatype rlp_field = RlpBytes bytes | RlpUint nat | RlpRawList bytes

fun encode_rlp_field :: "rlp_field \<Rightarrow> bytes" where
  "encode_rlp_field (RlpBytes b) = encode_rlp_bytes b"
| "encode_rlp_field (RlpUint n) = encode_rlp_uint n"
| "encode_rlp_field (RlpRawList raw) = raw"

definition encode_rlp_items :: "bytes list \<Rightarrow> bytes" where
  "encode_rlp_items items = encode_rlp_length (length (concat items)) 192 @ concat items"

definition rlp_encode_list :: "rlp_field list \<Rightarrow> bytes" where
  "rlp_encode_list fields =
     (let payload = concat (map encode_rlp_field fields)
      in encode_rlp_length (length payload) 192 @ payload)"

subsection \<open>The decoder\<close>

datatype rlp_item = RlpString bytes | RlpList bytes

fun be_value :: "bytes \<Rightarrow> nat" where
  "be_value [] = 0"
| "be_value (b # bs) = nat_of_byte b * 256 ^ length bs + be_value bs"

definition take_exact :: "nat \<Rightarrow> bytes \<Rightarrow> (bytes \<times> bytes) option" where
  "take_exact n s = (if n \<le> length s then Some (take n s, drop n s) else None)"

fun rlp_next :: "bytes \<Rightarrow> (rlp_item \<times> bytes) option" where
  "rlp_next [] = None"
| "rlp_next (b # s) =
     (let h = nat_of_byte b
      in if h < 128 then Some (RlpString [b], s)
         else if h < 184 then map_option (apfst RlpString) (take_exact (h - 128) s)
         else if h < 192 then
           (case take_exact (h - 183) s of
              None \<Rightarrow> None
            | Some (len, s') \<Rightarrow> map_option (apfst RlpString) (take_exact (be_value len) s'))
         else if h < 248 then map_option (apfst RlpList) (take_exact (h - 192) s)
         else
           (case take_exact (h - 247) s of
              None \<Rightarrow> None
            | Some (len, s') \<Rightarrow> map_option (apfst RlpList) (take_exact (be_value len) s')))"

fun rlp_items :: "nat \<Rightarrow> bytes \<Rightarrow> rlp_item list option" where
  "rlp_items fuel [] = Some []"
| "rlp_items 0 s = None"
| "rlp_items (Suc fuel) s =
     (case rlp_next s of
        None \<Rightarrow> None
      | Some (item, rest) \<Rightarrow> map_option (Cons item) (rlp_items fuel rest))"

declare rlp_next.simps [simp del]

subsection \<open>Big-endian numbers\<close>

lemma of_byte [simp]: "nat_of_byte (byte n) = n mod 256"
  by (simp add: byte_def)

lemma length_be_bytes [simp]: "length (be_bytes k n) = k"
  by (induction k arbitrary: n) simp_all

lemma be_value_append: "be_value (xs @ ys) = be_value xs * 256 ^ length ys + be_value ys"
  by (induction xs) (simp_all add: power_add algebra_simps)

lemma be_value_be_bytes: "be_value (be_bytes k n) = n mod 256 ^ k"
proof (induction k arbitrary: n)
  case (Suc k)
  have "be_value (be_bytes (Suc k) n) = (n div 256) mod 256 ^ k * 256 + n mod 256"
    by (simp add: be_value_append Suc.IH)
  also have "\<dots> = n mod (256 * 256 ^ k)"
    by (simp add: mod_mult2_eq mult.commute)
  finally show ?case by simp
qed simp

lemma be_value_drop_zeros:
  "(\<forall>j < i. nat_of_byte (bs ! j) = 0) \<Longrightarrow> i \<le> length bs \<Longrightarrow> be_value (drop i bs) = be_value bs"
proof (induction bs arbitrary: i)
  case (Cons b bs)
  show ?case
  proof (cases i)
    case (Suc j)
    have "nat_of_byte b = 0" using Cons.prems(1) Suc by (metis nth_Cons_0 zero_less_Suc)
    moreover have "be_value (drop j bs) = be_value bs"
      using Cons.prems Suc by (intro Cons.IH) auto
    ultimately show ?thesis by (simp add: Suc)
  qed simp
qed simp

lemma minimal_from_pos:
  assumes "be_value bs \<noteq> 0"
  shows "be_value (minimal_from d bs) = be_value bs" "minimal_from d bs \<noteq> []"
    "nat_of_byte (hd (minimal_from d bs)) \<noteq> 0" "length (minimal_from d bs) \<le> length bs"
proof -
  have zero: "\<forall>b \<in> set xs. nat_of_byte b = 0 \<Longrightarrow> be_value xs = 0" for xs
    by (induction xs) auto
  then obtain i where i: "position (\<lambda>b. nat_of_byte b \<noteq> 0) bs = Some i"
    using assms zero [of bs] position_None_iff [of "\<lambda>b. nat_of_byte b \<noteq> 0" bs]
    by (cases "position (\<lambda>b. nat_of_byte b \<noteq> 0) bs") auto
  then have pos: "i < length bs" "nat_of_byte (bs ! i) \<noteq> 0" "\<forall>j < i. nat_of_byte (bs ! j) = 0"
    by (auto simp: position_Some_iff)
  have m: "minimal_from d bs = drop i bs" unfolding minimal_from_def i by simp
  show "be_value (minimal_from d bs) = be_value bs"
    using be_value_drop_zeros [of i bs] pos m by simp
  show "minimal_from d bs \<noteq> []" "length (minimal_from d bs) \<le> length bs" using pos m by simp_all
  show "nat_of_byte (hd (minimal_from d bs)) \<noteq> 0" using pos m by (simp add: hd_drop_conv_nth)
qed

lemma encode_uint_bytes_value:
  assumes "0 < n" "n < 2 ^ 64"
  shows "be_value (encode_uint_bytes n) = n" "encode_uint_bytes n \<noteq> []" "length (encode_uint_bytes n) \<le> 8"
proof -
  have v: "be_value (be_bytes 8 n) = n" using assms(2) be_value_be_bytes [of 8 n] by simp
  then have "be_value (be_bytes 8 n) \<noteq> 0" using assms(1) by simp
  from minimal_from_pos [OF this, of 7] v
  show "be_value (encode_uint_bytes n) = n" "encode_uint_bytes n \<noteq> []" "length (encode_uint_bytes n) \<le> 8"
    by (simp_all add: encode_uint_bytes_def)
qed

subsection \<open>Reading back one item\<close>

lemma take_exact_append [simp]: "take_exact (length xs) (xs @ ys) = Some (xs, ys)"
  by (simp add: take_exact_def)

lemma rlp_next_header:
  assumes len: "length p < 2 ^ 64" and off: "offset = 128 \<or> offset = 192"
  shows "rlp_next (encode_rlp_length (length p) offset @ p @ s) =
           Some (if offset = 128 then RlpString p else RlpList p, s)"
proof (cases "length p < 56")
  case True
  then have "(offset + length p) mod 256 = offset + length p" using off by auto
  then show ?thesis
    using True off by (auto simp: encode_rlp_length_def rlp_next.simps Let_def)
next
  case False
  let ?lb = "encode_uint_bytes (length p)"
  have lb: "be_value ?lb = length p" "?lb \<noteq> []" "length ?lb \<le> 8"
  proof -
    have "0 < length p" using False by linarith
    from encode_uint_bytes_value [OF this len]
    show "be_value ?lb = length p" "?lb \<noteq> []" "length ?lb \<le> 8" .
  qed
  have h: "(offset + 55 + length ?lb) mod 256 = offset + 55 + length ?lb" using off lb(3) by auto
  have pos: "0 < length ?lb" using lb(2) by simp
  show ?thesis
    using False off lb pos h by (auto simp: encode_rlp_length_def rlp_next.simps Let_def)
qed

lemma rlp_next_bytes: "length b < 2 ^ 64 \<Longrightarrow> rlp_next (encode_rlp_bytes b @ s) = Some (RlpString b, s)"
proof (cases "length b = 1 \<and> nat_of_byte (hd b) < 128")
  case True
  then obtain c where "b = [c]" by (cases b) auto
  then show ?thesis using True by (simp add: encode_rlp_bytes_def rlp_next.simps)
next
  case False
  assume "length b < 2 ^ 64"
  then show ?thesis
    using rlp_next_header [of b 128 s] unfolding encode_rlp_bytes_def if_not_P [OF False] by simp
qed

lemma rlp_next_list:
  "length (concat items) < 2 ^ 64 \<Longrightarrow>
   rlp_next (encode_rlp_items items @ s) = Some (RlpList (concat items), s)"
  using rlp_next_header [of "concat items" 192 s] by (simp add: encode_rlp_items_def)

text \<open>The minimal big-endian form of a number: no leading zero, and nothing for zero.\<close>

definition uint_bytes :: "nat \<Rightarrow> bytes" where
  "uint_bytes n = (if n = 0 then [] else minimal_from 15 (be_bytes 16 n))"

lemma uint_bytes_value:
  assumes "n < 2 ^ 128"
  shows "be_value (uint_bytes n) = n" "length (uint_bytes n) \<le> 16"
    "uint_bytes n \<noteq> [] \<Longrightarrow> nat_of_byte (hd (uint_bytes n)) \<noteq> 0"
proof -
  have "be_value (be_bytes 16 n) = n" using assms be_value_be_bytes [of 16 n] by simp
  then show "be_value (uint_bytes n) = n" "length (uint_bytes n) \<le> 16"
    "uint_bytes n \<noteq> [] \<Longrightarrow> nat_of_byte (hd (uint_bytes n)) \<noteq> 0"
    using minimal_from_pos [of "be_bytes 16 n" 15] by (auto simp: uint_bytes_def)
qed

lemma rlp_next_uint:
  assumes "n < 2 ^ 128"
  shows "rlp_next (encode_rlp_uint n @ s) = Some (RlpString (uint_bytes n), s)"
proof (cases "n = 0")
  case True
  then show ?thesis by (simp add: encode_rlp_uint_def uint_bytes_def rlp_next.simps take_exact_def)
next
  case False
  have "length (uint_bytes n) < 2 ^ 64" using uint_bytes_value(2) [OF assms] by simp
  from rlp_next_bytes [OF this] False show ?thesis by (simp add: encode_rlp_uint_def uint_bytes_def)
qed

lemma length_encode_rlp_uint: "n < 2 ^ 128 \<Longrightarrow> length (encode_rlp_uint n) \<le> 17"
  using uint_bytes_value(2) [of n]
  by (auto simp: encode_rlp_uint_def encode_rlp_bytes_def encode_rlp_length_def uint_bytes_def
      split: if_splits)

subsection \<open>Reading back a list\<close>

text \<open>What a field stands for; a raw field holds one encoded list.\<close>

fun field_item :: "rlp_field \<Rightarrow> rlp_item" where
  "field_item (RlpBytes b) = RlpString b"
| "field_item (RlpUint n) = RlpString (uint_bytes n)"
| "field_item (RlpRawList raw) = fst (the (rlp_next raw))"

fun field_ok :: "rlp_field \<Rightarrow> bool" where
  "field_ok (RlpBytes b) = (length b < 2 ^ 64)"
| "field_ok (RlpUint n) = (n < 2 ^ 128)"
| "field_ok (RlpRawList raw) =
     (\<exists>items. raw = encode_rlp_items items \<and> length (concat items) < 2 ^ 64)"

lemma rlp_next_field: "field_ok f \<Longrightarrow> rlp_next (encode_rlp_field f @ s) = Some (field_item f, s)"
proof (cases f)
  case (RlpRawList raw)
  assume "field_ok f"
  then obtain items where items: "raw = encode_rlp_items items" "length (concat items) < 2 ^ 64"
    using RlpRawList by auto
  show ?thesis using rlp_next_list [OF items(2)] rlp_next_list [OF items(2), of "[]"]
    by (simp add: RlpRawList items(1))
qed (simp_all add: rlp_next_bytes rlp_next_uint)

lemma rlp_items_fields:
  "\<forall>f \<in> set fields. field_ok f \<Longrightarrow> length fields \<le> fuel \<Longrightarrow>
   rlp_items fuel (concat (map encode_rlp_field fields)) = Some (map field_item fields)"
proof (induction fields arbitrary: fuel)
  case (Cons f fields)
  obtain fuel' where fuel: "fuel = Suc fuel'" using Cons.prems(2) by (cases fuel) auto
  have nx: "rlp_next (encode_rlp_field f @ concat (map encode_rlp_field fields)) =
      Some (field_item f, concat (map encode_rlp_field fields))"
    using Cons.prems(1) by (simp add: rlp_next_field)
  then obtain c cs where
    c: "encode_rlp_field f @ concat (map encode_rlp_field fields) = c # cs"
    by (cases "encode_rlp_field f @ concat (map encode_rlp_field fields)") (auto simp: rlp_next.simps)
  show ?case using Cons nx by (simp add: fuel c)
qed simp

text \<open>
  C26.  The RLP encoding of a list of fields can be read back: a standard decoder finds one list whose
  payload holds exactly the fields, strings as they were and numbers in minimal big-endian form whose
  value is the number.  In particular different field lists have different encodings, so the hash of
  a header commits to every field.
\<close>

theorem rlp_list_roundtrip:
  assumes "\<forall>f \<in> set fields. field_ok f" and "length (concat (map encode_rlp_field fields)) < 2 ^ 64"
  shows "\<exists>payload. rlp_next (rlp_encode_list fields) = Some (RlpList payload, []) \<and>
           rlp_items (length fields) payload = Some (map field_item fields) \<and>
           (\<forall>n. RlpUint n \<in> set fields \<longrightarrow> be_value (uint_bytes n) = n)"
proof -
  have "rlp_next (rlp_encode_list fields) = Some (RlpList (concat (map encode_rlp_field fields)), [])"
    using rlp_next_list [OF assms(2), of "[]"] by (simp add: rlp_encode_list_def encode_rlp_items_def Let_def)
  moreover have "be_value (uint_bytes n) = n" if "RlpUint n \<in> set fields" for n
    using assms(1) that uint_bytes_value(1) by fastforce
  ultimately show ?thesis using rlp_items_fields [OF assms(1) order_refl] by blast
qed

theorem rlp_list_roundtrip_witness:
  "\<exists>payload. rlp_next (rlp_encode_list [RlpBytes ''cat'', RlpUint 1024]) = Some (RlpList payload, []) \<and>
     rlp_items (Suc (Suc 0)) payload = Some [RlpString ''cat'', RlpString (uint_bytes 1024)] \<and>
     be_value (uint_bytes 1024) = 1024"
proof -
  have "length (concat (map encode_rlp_field [RlpBytes ''cat'', RlpUint 1024])) < 2 ^ 64"
    using length_encode_rlp_uint [of 1024] by (simp add: encode_rlp_bytes_def encode_rlp_length_def)
  then show ?thesis using rlp_list_roundtrip [of "[RlpBytes ''cat'', RlpUint 1024]"] by simp
qed

end
