(* ===== verification/Evm_Verify.thy ===== *)
theory Evm_Verify
  imports Evm_Data Rlp "HOL-Library.List_Lexorder"
begin

text \<open>
  The commitments of a block recomputed from its contents (\<open>evm-source/src/verification.rs\<close>): header
  hash, logs bloom, transaction, receipt and withdrawal roots, and the recovery of a sender.

  The libraries behind them are the fields of \<open>evm_lib\<close>: the \<open>hex\<close> codec, the Keccak hash (32 bytes),
  the trie builder over (key, leaf) pairs, \<open>alloy\<close>'s RLP of an index, and the signature and recovery
  functions of \<open>k256\<close>, the last of which gives the uncompressed public key.  A failing function gives \<open>Inl\<close> the message; \<open>?\<close>
  and \<open>bail!\<close> are \<open>bind_result\<close> and \<open>Inl\<close>, and a list of fallible items is evaluated in order up to the
  first failure (\<open>collect\<close>).
\<close>

record evm_lib =
  hex_decode :: "string \<Rightarrow> string + bytes"
  hex_encode :: "bytes \<Rightarrow> string"
  keccak256 :: "bytes \<Rightarrow> bytes"
  trie_root :: "(bytes \<times> bytes) list \<Rightarrow> bytes"
  alloy_rlp_u64 :: "u64 \<Rightarrow> bytes"
  signature_from_bytes :: "bytes \<Rightarrow> string + bytes"
  recovery_id_try_from :: "nat \<Rightarrow> string + nat"
  recover_from_prehash :: "bytes \<Rightarrow> bytes \<Rightarrow> nat \<Rightarrow> string + bytes"

subsection \<open>Results\<close>

fun bind_result :: "'e + 'a \<Rightarrow> ('a \<Rightarrow> 'e + 'b) \<Rightarrow> 'e + 'b" where
  "bind_result (Inl e) f = Inl e"
| "bind_result (Inr x) f = f x"

fun collect :: "('e + 'a) list \<Rightarrow> 'e + 'a list" where
  "collect [] = Inr []"
| "collect (r # rs) = bind_result r (\<lambda>x. bind_result (collect rs) (\<lambda>xs. Inr (x # xs)))"

definition required :: "string \<Rightarrow> 'a option \<Rightarrow> string + 'a" where
  "required msg v = (case v of Some x \<Rightarrow> Inr x | None \<Rightarrow> Inl msg)"

definition or_else :: "'a option \<Rightarrow> 'a \<Rightarrow> 'a" where
  "or_else v d = (case v of Some x \<Rightarrow> x | None \<Rightarrow> d)"

definition or_option :: "'a option \<Rightarrow> 'a option \<Rightarrow> 'a option" where
  "or_option a b = (case a of Some x \<Rightarrow> Some x | None \<Rightarrow> b)"

definition with_field :: "string \<Rightarrow> string + 'a \<Rightarrow> string + 'a" where
  "with_field field r = (case r of Inl e \<Rightarrow> Inl (field @ '': '' @ e) | Inr x \<Rightarrow> Inr x)"

subsection \<open>Hex and quantities\<close>

definition decode_hex :: "evm_lib \<Rightarrow> string \<Rightarrow> string + bytes" where
  "decode_hex lib s = hex_decode lib (strip_0x s)"

definition decode_hex_or_empty :: "evm_lib \<Rightarrow> string \<Rightarrow> bytes" where
  "decode_hex_or_empty lib s = (case hex_decode lib (strip_0x s) of Inr b \<Rightarrow> b | Inl e \<Rightarrow> [])"

definition to_hex :: "evm_lib \<Rightarrow> bytes \<Rightarrow> string" where
  "to_hex lib b = ''0x'' @ hex_encode lib b"

definition rlp_index :: "evm_lib \<Rightarrow> nat \<Rightarrow> bytes" where
  "rlp_index lib i = alloy_rlp_u64 lib (of_nat i)"

definition parse_qty_u128 :: "string \<Rightarrow> nat" where
  "parse_qty_u128 s = (case from_str_radix16 128 (strip_0x s) of Some v \<Rightarrow> v | None \<Rightarrow> 0)"

definition parse_int_error :: "nat \<Rightarrow> string \<Rightarrow> string" where
  "parse_int_error width s =
     (case hex_value 0 (takeWhile (\<lambda>c. hex_digit c \<noteq> None) (unsigned_digits s)) of
        Some v \<Rightarrow> if v < 2 ^ width then ''invalid digit found in string''
                  else ''number too large to fit in target type''
      | None \<Rightarrow> ''invalid digit found in string'')"

definition parse_qty_u128_checked :: "string \<Rightarrow> string \<Rightarrow> string + nat" where
  "parse_qty_u128_checked s field =
     (let digits = strip_0x s
      in if digits = [] then Inl (field @ '' is an empty hexadecimal quantity'')
         else case from_str_radix16 128 digits of
           Some v \<Rightarrow> Inr v
         | None \<Rightarrow> Inl (field @ '' is not a valid u128 hexadecimal quantity: '' @ parse_int_error 128 digits))"

definition decode_hex_big_int :: "evm_lib \<Rightarrow> string \<Rightarrow> string + bytes" where
  "decode_hex_big_int lib s0 =
     (let s = strip_0x s0
      in if s = [] \<or> s = ''0'' then Inr []
         else bind_result
           (case hex_decode lib (if odd (length s) then CHR ''0'' # s else s) of
              Inl e \<Rightarrow> Inl (''invalid hexadecimal integer: '' @ e)
            | Inr b \<Rightarrow> Inr b)
           (\<lambda>b. let stripped = minimal_from (length b) b
                in if length stripped > 32 then Inl ''integer exceeds 256 bits'' else Inr stripped))"

definition decode_hex_with_len :: "evm_lib \<Rightarrow> string \<Rightarrow> nat \<Rightarrow> string \<Rightarrow> string + bytes" where
  "decode_hex_with_len lib s expected field =
     bind_result (with_field field (decode_hex lib s)) (\<lambda>b.
       if length b \<noteq> expected
       then Inl (field @ '' must be '' @ decimal expected @ '' bytes, got '' @ decimal (length b))
       else Inr b)"

definition decode_signature_scalar :: "evm_lib \<Rightarrow> string \<Rightarrow> string \<Rightarrow> string + bytes" where
  "decode_signature_scalar lib s field =
     bind_result (with_field field (decode_hex_big_int lib s)) (\<lambda>b.
       if length b > 32 then Inl (field @ '' exceeds 256 bits'')
       else Inr (replicate (32 - length b) (byte 0) @ b))"

text \<open>The items of a payload.\<close>

definition uint_item :: "string \<Rightarrow> string + bytes" where
  "uint_item s = Inr (encode_rlp_uint (parse_qty_u128 s))"

definition bytes_item :: "evm_lib \<Rightarrow> string \<Rightarrow> string + bytes" where
  "bytes_item lib s = bind_result (decode_hex lib s) (\<lambda>b. Inr (encode_rlp_bytes b))"

definition encode_rlp_big_uint :: "evm_lib \<Rightarrow> string \<Rightarrow> string + bytes" where
  "encode_rlp_big_uint lib s = bind_result (decode_hex_big_int lib s) (\<lambda>b. Inr (encode_rlp_bytes b))"

abbreviation big_uint_item :: "evm_lib \<Rightarrow> string \<Rightarrow> string + bytes" where
  "big_uint_item \<equiv> encode_rlp_big_uint"

definition optional_hex :: "evm_lib \<Rightarrow> string option \<Rightarrow> string + bytes" where
  "optional_hex lib v = (case v of Some s \<Rightarrow> decode_hex lib s | None \<Rightarrow> Inr [])"

definition optional_item :: "('a \<Rightarrow> string + bytes) \<Rightarrow> 'a option \<Rightarrow> string + bytes option" where
  "optional_item f v = (case v of Some x \<Rightarrow> bind_result (f x) (\<lambda>b. Inr (Some b)) | None \<Rightarrow> Inr None)"

definition item_or_empty :: "('a \<Rightarrow> string + bytes) \<Rightarrow> 'a option \<Rightarrow> string + bytes" where
  "item_or_empty f v = (case v of Some x \<Rightarrow> f x | None \<Rightarrow> Inr (encode_rlp_bytes []))"

subsection \<open>Block hash\<close>

definition bytes_field :: "evm_lib \<Rightarrow> string \<Rightarrow> string + rlp_field" where
  "bytes_field lib s = bind_result (decode_hex lib s) (\<lambda>b. Inr (RlpBytes b))"

definition uint_field :: "string \<Rightarrow> string + rlp_field" where
  "uint_field s = Inr (RlpUint (parse_qty_u128 s))"

definition ethereum_header_fields :: "evm_lib \<Rightarrow> rpc_block \<Rightarrow> string + rlp_field list" where
  "ethereum_header_fields lib b =
     collect
       ([bytes_field lib (rb_parent_hash b), bytes_field lib (rb_sha3_uncles b), bytes_field lib (rb_miner b),
         bytes_field lib (rb_state_root b), bytes_field lib (rb_transactions_root b),
         bytes_field lib (rb_receipts_root b), bytes_field lib (rb_logs_bloom b),
         bind_result (required ''block.difficulty is missing'' (rb_difficulty b)) uint_field,
         uint_field (rb_number b), uint_field (rb_gas_limit b), uint_field (rb_gas_used b),
         uint_field (rb_timestamp b), bytes_field lib (rb_extra_data b),
         bind_result (required ''block.mixHash is missing'' (rb_mix_hash b)) (bytes_field lib),
         bind_result (required ''block.nonce is missing'' (rb_nonce b)) (bytes_field lib)] @
        (case rb_base_fee_per_gas b of Some v \<Rightarrow> [uint_field v] | None \<Rightarrow> []) @
        (case rb_withdrawals_root b of Some v \<Rightarrow> [bytes_field lib v] | None \<Rightarrow> []) @
        (case (rb_blob_gas_used b, rb_excess_blob_gas b) of
           (Some used, Some excess) \<Rightarrow> [uint_field used, uint_field excess]
         | _ \<Rightarrow> []) @
        (case rb_parent_beacon_block_root b of Some v \<Rightarrow> [bytes_field lib v] | None \<Rightarrow> []) @
        (case rb_requests_hash b of Some v \<Rightarrow> [bytes_field lib v] | None \<Rightarrow> []))"

definition hash_block_header_fields :: "evm_lib \<Rightarrow> rlp_field list \<Rightarrow> string" where
  "hash_block_header_fields lib fs = ''0x'' @ hex_encode lib (keccak256 lib (rlp_encode_list fs))"

definition block_hash :: "evm_lib \<Rightarrow> rpc_block \<Rightarrow> string + string" where
  "block_hash lib b =
     bind_result (ethereum_header_fields lib b) (\<lambda>fs. Inr (hash_block_header_fields lib fs))"

definition tempo_block_hash :: "evm_lib \<Rightarrow> rpc_block \<Rightarrow> string + string" where
  "tempo_block_hash lib b =
     bind_result (required ''block.mainBlockGeneralGasLimit is missing'' (rb_main_block_general_gas_limit b))
       (\<lambda>main_gas_limit.
     bind_result (required ''block.sharedGasLimit is missing'' (rb_shared_gas_limit b)) (\<lambda>shared_gas_limit.
     bind_result (required ''block.timestampMillisPart is missing'' (rb_timestamp_millis_part b))
       (\<lambda>ts_millis_part.
     bind_result (ethereum_header_fields lib b) (\<lambda>inner_fields.
       Inr (hash_block_header_fields lib
         [RlpUint (parse_qty_u128 main_gas_limit), RlpUint (parse_qty_u128 shared_gas_limit),
          RlpUint (parse_qty_u128 ts_millis_part), RlpRawList (rlp_encode_list inner_fields)])))))"

subsection \<open>Logs bloom\<close>

unbundle bit_operations_syntax

type_synonym bloom = "8 word list"

definition empty_bloom :: bloom where
  "empty_bloom = replicate 256 0"

definition bloom_bit :: "bytes \<Rightarrow> nat \<Rightarrow> nat" where
  "bloom_bit h idx = 2047 - (256 * nat_of_byte (h ! idx) + nat_of_byte (h ! (idx + 1))) mod 2048"

definition set_bloom_bit :: "nat \<Rightarrow> bloom \<Rightarrow> bloom" where
  "set_bloom_bit bit_index bloom =
     bloom[bit_index div 8 := bloom ! (bit_index div 8) OR push_bit (7 - bit_index mod 8) 1]"

definition add_to_bloom :: "evm_lib \<Rightarrow> bytes \<Rightarrow> bloom \<Rightarrow> bloom" where
  "add_to_bloom lib entry bloom =
     (let h = keccak256 lib entry in fold (\<lambda>idx. set_bloom_bit (bloom_bit h idx)) [0, 2, 4] bloom)"

definition add_log :: "evm_lib \<Rightarrow> rpc_log \<Rightarrow> bloom \<Rightarrow> bloom" where
  "add_log lib l bloom =
     fold (\<lambda>topic. add_to_bloom lib (decode_hex_or_empty lib topic)) (log_topics l)
       (add_to_bloom lib (decode_hex_or_empty lib (log_address l)) bloom)"

definition merge_bloom :: "bloom \<Rightarrow> bloom \<Rightarrow> bloom" where
  "merge_bloom a b = map2 (OR) a b"

text \<open>
  The scheduler cuts the logs into pieces, folds each from an empty bloom and merges neighbouring
  results, in a tree of its choice.
\<close>

datatype 'a split = Piece "'a list" | Split "'a split" "'a split"

fun pieces :: "'a split \<Rightarrow> 'a list" where
  "pieces (Piece xs) = xs"
| "pieces (Split l r) = pieces l @ pieces r"

fun logs_bloom_bytes :: "evm_lib \<Rightarrow> rpc_log split \<Rightarrow> bloom" where
  "logs_bloom_bytes lib (Piece logs) = merge_bloom empty_bloom (fold (add_log lib) logs empty_bloom)"
| "logs_bloom_bytes lib (Split l r) = merge_bloom (logs_bloom_bytes lib l) (logs_bloom_bytes lib r)"

definition bytes_of_bloom :: "bloom \<Rightarrow> bytes" where
  "bytes_of_bloom bloom = map (\<lambda>w. byte (unat w)) bloom"

definition logs_bloom :: "evm_lib \<Rightarrow> rpc_log split \<Rightarrow> string" where
  "logs_bloom lib logs = to_hex lib (bytes_of_bloom (logs_bloom_bytes lib logs))"

definition byte_word :: "char \<Rightarrow> 8 word" where
  "byte_word c = of_nat (nat_of_byte c)"

definition is_bloom_superset :: "evm_lib \<Rightarrow> string \<Rightarrow> string \<Rightarrow> bool" where
  "is_bloom_superset lib superset_hex subset_hex =
     (let sup = decode_hex_or_empty lib superset_hex; sub = decode_hex_or_empty lib subset_hex
      in if length sup \<noteq> 256 \<or> length sub \<noteq> 256 then False
         else list_all (\<lambda>i. byte_word (sup ! i) AND byte_word (sub ! i) = byte_word (sub ! i)) [0 ..< 256])"

definition verify_logs_bloom :: "evm_lib \<Rightarrow> rpc_block \<Rightarrow> rpc_log split \<Rightarrow> string + unit" where
  "verify_logs_bloom lib b logs =
     (let computed = logs_bloom lib logs
      in if rb_logs_bloom b \<noteq> computed
         then Inl (''failed to verify logs bloom: expected '' @ rb_logs_bloom b @ '' got '' @ computed)
         else Inr ())"

subsection \<open>Lists inside transactions\<close>

definition decode_access_list :: "evm_lib \<Rightarrow> access_list_item list \<Rightarrow> bytes" where
  "decode_access_list lib items =
     encode_rlp_items (map (\<lambda>item.
       encode_rlp_items
         [encode_rlp_bytes (decode_hex_or_empty lib (al_address item)),
          encode_rlp_items (map (\<lambda>k. encode_rlp_bytes (decode_hex_or_empty lib k)) (al_storage_keys item))])
       items)"

fun encode_authorization :: "evm_lib \<Rightarrow> eip7702_authorization_item \<Rightarrow> string + bytes" where
  "encode_authorization lib (StandardAuth a) =
     bind_result (decode_hex lib (auth_address a)) (\<lambda>address.
     bind_result (collect
       [uint_item (auth_chain_id a), Inr (encode_rlp_bytes address), uint_item (auth_nonce a),
        uint_item (auth_y_parity a), encode_rlp_big_uint lib (auth_r a), encode_rlp_big_uint lib (auth_s a)])
     (\<lambda>items. Inr (encode_rlp_items items)))"
| "encode_authorization lib (FrontierAuth a) =
     bind_result (decode_hex lib (fauth_address a)) (\<lambda>address.
     bind_result (collect
       [Inr (encode_rlp_uint (unat (fauth_chain_id a))), Inr (encode_rlp_bytes address),
        uint_item (fauth_nonce a),
        Inr (encode_rlp_uint (if fsig_odd_y_parity (fauth_signature a) then 1 else 0)),
        encode_rlp_big_uint lib (fsig_r (fauth_signature a)),
        encode_rlp_big_uint lib (fsig_s (fauth_signature a))])
     (\<lambda>items. Inr (encode_rlp_items items)))"

definition decode_authorization_list :: "evm_lib \<Rightarrow> eip7702_authorization_item list \<Rightarrow> string + bytes" where
  "decode_authorization_list lib auths =
     bind_result (collect (map (encode_authorization lib) auths)) (\<lambda>items. Inr (encode_rlp_items items))"

definition encode_blob_hashes :: "evm_lib \<Rightarrow> string list \<Rightarrow> bytes" where
  "encode_blob_hashes lib hs =
     encode_rlp_items (map (\<lambda>h. encode_rlp_bytes (decode_hex_or_empty lib h)) hs)"

definition y_parity_or_v :: "rpc_transaction \<Rightarrow> string + string" where
  "y_parity_or_v tx =
     (case tx_y_parity tx of Some yp \<Rightarrow> Inr yp | None \<Rightarrow> required ''tx.v is missing'' (tx_v tx))"

subsection \<open>Transactions\<close>

definition encode_legacy_tx :: "evm_lib \<Rightarrow> rpc_transaction \<Rightarrow> string + bytes" where
  "encode_legacy_tx lib tx =
     bind_result (required ''tx.gasPrice is missing'' (tx_gas_price tx)) (\<lambda>gas_price.
     bind_result (required ''tx.value is missing'' (tx_value tx)) (\<lambda>val.
     bind_result (required ''tx.v is missing'' (tx_v tx)) (\<lambda>v.
     bind_result (required ''tx.r is missing'' (tx_r tx)) (\<lambda>r.
     bind_result (required ''tx.s is missing'' (tx_s tx)) (\<lambda>s.
     bind_result (optional_hex lib (tx_to tx)) (\<lambda>to_bytes.
     bind_result (collect
         [uint_item (tx_nonce tx),
          uint_item gas_price,
          uint_item (tx_gas tx),
          Inr (encode_rlp_bytes to_bytes),
          uint_item val,
          bytes_item lib (or_else (tx_input tx) ''0x''),
          uint_item v,
          big_uint_item lib r,
          big_uint_item lib s])
       (\<lambda>items. Inr (encode_rlp_items items))))))))"

definition encode_eip2930_tx :: "evm_lib \<Rightarrow> rpc_transaction \<Rightarrow> string + bytes" where
  "encode_eip2930_tx lib tx =
     bind_result (required ''tx.chainId is missing'' (tx_chain_id tx)) (\<lambda>chain_id.
     bind_result (required ''tx.gasPrice is missing'' (tx_gas_price tx)) (\<lambda>gas_price.
     bind_result (required ''tx.value is missing'' (tx_value tx)) (\<lambda>val.
     bind_result (required ''tx.v is missing'' (tx_v tx)) (\<lambda>v.
     bind_result (required ''tx.r is missing'' (tx_r tx)) (\<lambda>r.
     bind_result (required ''tx.s is missing'' (tx_s tx)) (\<lambda>s.
     bind_result (optional_hex lib (tx_to tx)) (\<lambda>to_bytes.
     bind_result (collect
         [uint_item chain_id,
          uint_item (tx_nonce tx),
          uint_item gas_price,
          uint_item (tx_gas tx),
          Inr (encode_rlp_bytes to_bytes),
          uint_item val,
          bytes_item lib (or_else (tx_input tx) ''0x''),
          Inr (decode_access_list lib (or_else (tx_access_list tx) [])),
          uint_item v,
          big_uint_item lib r,
          big_uint_item lib s])
       (\<lambda>items. Inr (byte 1 # encode_rlp_items items)))))))))"

definition encode_eip1559_tx :: "evm_lib \<Rightarrow> rpc_transaction \<Rightarrow> string + bytes" where
  "encode_eip1559_tx lib tx =
     bind_result (required ''tx.chainId is missing'' (tx_chain_id tx)) (\<lambda>chain_id.
     bind_result (required ''tx.maxPriorityFeePerGas is missing'' (tx_max_priority_fee_per_gas tx)) (\<lambda>max_prio.
     bind_result (required ''tx.maxFeePerGas is missing'' (tx_max_fee_per_gas tx)) (\<lambda>max_fee.
     bind_result (required ''tx.value is missing'' (tx_value tx)) (\<lambda>val.
     bind_result (required ''tx.v is missing'' (tx_v tx)) (\<lambda>v.
     bind_result (required ''tx.r is missing'' (tx_r tx)) (\<lambda>r.
     bind_result (required ''tx.s is missing'' (tx_s tx)) (\<lambda>s.
     bind_result (optional_hex lib (tx_to tx)) (\<lambda>to_bytes.
     bind_result (collect
         [uint_item chain_id,
          uint_item (tx_nonce tx),
          uint_item max_prio,
          uint_item max_fee,
          uint_item (tx_gas tx),
          Inr (encode_rlp_bytes to_bytes),
          uint_item val,
          bytes_item lib (or_else (tx_input tx) ''0x''),
          Inr (decode_access_list lib (or_else (tx_access_list tx) [])),
          uint_item v,
          big_uint_item lib r,
          big_uint_item lib s])
       (\<lambda>items. Inr (byte 2 # encode_rlp_items items))))))))))"

definition encode_eip4844_tx :: "evm_lib \<Rightarrow> rpc_transaction \<Rightarrow> string + bytes" where
  "encode_eip4844_tx lib tx =
     bind_result (required ''tx.chainId is missing'' (tx_chain_id tx)) (\<lambda>chain_id.
     bind_result (required ''tx.maxPriorityFeePerGas is missing'' (tx_max_priority_fee_per_gas tx)) (\<lambda>max_prio.
     bind_result (required ''tx.maxFeePerGas is missing'' (tx_max_fee_per_gas tx)) (\<lambda>max_fee.
     bind_result (required ''tx.value is missing'' (tx_value tx)) (\<lambda>val.
     bind_result (required ''tx.maxFeePerBlobGas is missing'' (tx_max_fee_per_blob_gas tx)) (\<lambda>max_fee_blob.
     bind_result (required ''tx.blobVersionedHashes is missing'' (tx_blob_versioned_hashes tx)) (\<lambda>blob_hashes.
     bind_result (y_parity_or_v tx) (\<lambda>y_parity.
     bind_result (required ''tx.r is missing'' (tx_r tx)) (\<lambda>r.
     bind_result (required ''tx.s is missing'' (tx_s tx)) (\<lambda>s.
     bind_result (optional_hex lib (tx_to tx)) (\<lambda>to_bytes.
     bind_result (collect
         [uint_item chain_id,
          uint_item (tx_nonce tx),
          uint_item max_prio,
          uint_item max_fee,
          uint_item (tx_gas tx),
          Inr (encode_rlp_bytes to_bytes),
          uint_item val,
          bytes_item lib (or_else (tx_input tx) ''0x''),
          Inr (decode_access_list lib (or_else (tx_access_list tx) [])),
          uint_item max_fee_blob,
          Inr (encode_blob_hashes lib blob_hashes),
          uint_item y_parity,
          big_uint_item lib r,
          big_uint_item lib s])
       (\<lambda>items. Inr (byte 3 # encode_rlp_items items))))))))))))"

definition encode_eip7702_tx :: "evm_lib \<Rightarrow> rpc_transaction \<Rightarrow> string + bytes" where
  "encode_eip7702_tx lib tx =
     bind_result (required ''tx.chainId is missing'' (tx_chain_id tx)) (\<lambda>chain_id.
     bind_result (required ''tx.maxPriorityFeePerGas is missing'' (tx_max_priority_fee_per_gas tx)) (\<lambda>max_prio.
     bind_result (required ''tx.maxFeePerGas is missing'' (tx_max_fee_per_gas tx)) (\<lambda>max_fee.
     bind_result (required ''tx.value is missing'' (tx_value tx)) (\<lambda>val.
     bind_result (y_parity_or_v tx) (\<lambda>y_parity.
     bind_result (required ''tx.r is missing'' (tx_r tx)) (\<lambda>r.
     bind_result (required ''tx.s is missing'' (tx_s tx)) (\<lambda>s.
     bind_result (optional_hex lib (tx_to tx)) (\<lambda>to_bytes.
     bind_result (collect
         [uint_item chain_id,
          uint_item (tx_nonce tx),
          uint_item max_prio,
          uint_item max_fee,
          uint_item (tx_gas tx),
          Inr (encode_rlp_bytes to_bytes),
          uint_item val,
          bytes_item lib (or_else (tx_input tx) ''0x''),
          Inr (decode_access_list lib (or_else (tx_access_list tx) [])),
          decode_authorization_list lib (or_else (tx_authorization_list tx) []),
          uint_item y_parity,
          big_uint_item lib r,
          big_uint_item lib s])
       (\<lambda>items. Inr (byte 4 # encode_rlp_items items))))))))))"

definition stable_tx_base_payload ::
    "evm_lib \<Rightarrow> rpc_transaction \<Rightarrow> string \<Rightarrow> string \<Rightarrow> string \<Rightarrow> string \<Rightarrow> bytes \<Rightarrow> (string + bytes) list" where
  "stable_tx_base_payload lib tx chain_id max_prio max_fee val to_bytes =
     [uint_item chain_id, uint_item (tx_nonce tx), uint_item max_prio, uint_item max_fee,
      uint_item (tx_gas tx), Inr (encode_rlp_bytes to_bytes), uint_item val,
      bytes_item lib (or_else (tx_input tx) ''0x''),
      Inr (decode_access_list lib (or_else (tx_access_list tx) []))]"

definition encode_stable_tx :: "evm_lib \<Rightarrow> rpc_transaction \<Rightarrow> string + bytes" where
  "encode_stable_tx lib tx =
     bind_result (required ''tx.chainId is missing'' (tx_chain_id tx)) (\<lambda>chain_id.
     bind_result (required ''tx.maxPriorityFeePerGas is missing'' (tx_max_priority_fee_per_gas tx)) (\<lambda>max_prio.
     bind_result (required ''tx.maxFeePerGas is missing'' (tx_max_fee_per_gas tx)) (\<lambda>max_fee.
     bind_result (required ''tx.value is missing'' (tx_value tx)) (\<lambda>val.
     bind_result (required ''tx.nonceKey is missing'' (tx_nonce_key tx)) (\<lambda>nonce_key.
     bind_result (required ''tx.yParity and tx.v are missing'' (or_option (tx_y_parity tx) (tx_v tx))) (\<lambda>y_parity.
     bind_result (required ''tx.r is missing'' (tx_r tx)) (\<lambda>r.
     bind_result (required ''tx.s is missing'' (tx_s tx)) (\<lambda>s.
     bind_result (optional_hex lib (tx_to tx)) (\<lambda>to_bytes.
     bind_result (collect
         (stable_tx_base_payload lib tx chain_id max_prio max_fee val to_bytes @
          [uint_item y_parity,
           big_uint_item lib r,
           big_uint_item lib s,
           uint_item nonce_key,
           uint_item (or_else (tx_timeout_timestamp tx) ''0x0'')]))
       (\<lambda>items. Inr (byte 63 # encode_rlp_items items)))))))))))"

subsection \<open>Tempo transactions\<close>

definition encode_tempo_call :: "evm_lib \<Rightarrow> tempo_call \<Rightarrow> string + bytes" where
  "encode_tempo_call lib c =
     bind_result (optional_hex lib (tcall_to c)) (\<lambda>to_bytes.
     bind_result (collect [Inr (encode_rlp_bytes to_bytes), encode_rlp_big_uint lib (tcall_value c),
                           bytes_item lib (tcall_input c)])
       (\<lambda>items. Inr (encode_rlp_items items)))"

definition encode_tempo_calls :: "evm_lib \<Rightarrow> tempo_call list \<Rightarrow> string + bytes" where
  "encode_tempo_calls lib calls =
     bind_result (collect (map (encode_tempo_call lib) calls)) (\<lambda>items. Inr (encode_rlp_items items))"

definition tempo_parity :: "string option \<Rightarrow> string option \<Rightarrow> string + nat" where
  "tempo_parity y_parity v =
     bind_result (required ''Tempo secp256k1 signature is missing yParity/v'' (or_option y_parity v)) (\<lambda>p.
     bind_result (parse_qty_u128_checked p ''Tempo signature yParity/v'') (\<lambda>parity.
       if parity > 1 then Inl ''Tempo signature yParity/v must be 0 or 1'' else Inr parity))"

fun encode_tempo_primitive_signature_bytes :: "evm_lib \<Rightarrow> tempo_primitive_signature \<Rightarrow> string + bytes" where
  "encode_tempo_primitive_signature_bytes lib (Secp256k1 r s y_parity v) =
     bind_result (tempo_parity y_parity v) (\<lambda>parity.
     bind_result (collect [decode_signature_scalar lib r ''Tempo signature r'',
                           decode_signature_scalar lib s ''Tempo signature s''])
       (\<lambda>parts. Inr (concat parts @ [byte (parity + 27)])))"
| "encode_tempo_primitive_signature_bytes lib (P256 r s x y pre_hash) =
     bind_result (collect [decode_signature_scalar lib r ''Tempo P256 signature r'',
                           decode_signature_scalar lib s ''Tempo P256 signature s'',
                           decode_hex_with_len lib x 32 ''Tempo P256 pubKeyX'',
                           decode_hex_with_len lib y 32 ''Tempo P256 pubKeyY''])
       (\<lambda>parts. Inr (byte 1 # concat parts @ [byte (if pre_hash then 1 else 0)]))"
| "encode_tempo_primitive_signature_bytes lib (WebAuthn r s x y webauthn_data) =
     bind_result (decode_hex lib webauthn_data) (\<lambda>auth_data.
     bind_result (collect [decode_signature_scalar lib r ''Tempo WebAuthn signature r'',
                           decode_signature_scalar lib s ''Tempo WebAuthn signature s'',
                           decode_hex_with_len lib x 32 ''Tempo WebAuthn pubKeyX'',
                           decode_hex_with_len lib y 32 ''Tempo WebAuthn pubKeyY''])
       (\<lambda>parts. Inr (byte 2 # auth_data @ concat parts)))"

fun encode_tempo_signature_bytes :: "evm_lib \<Rightarrow> tempo_signature_object \<Rightarrow> string + bytes" where
  "encode_tempo_signature_bytes lib (PrimitiveSig s) = encode_tempo_primitive_signature_bytes lib s"
| "encode_tempo_signature_bytes lib (KeychainSig k) =
     bind_result (collect [decode_hex_with_len lib (tks_user_address k) 20 ''Tempo keychain userAddress'',
                           encode_tempo_primitive_signature_bytes lib (tks_signature k)])
       (\<lambda>parts. Inr (byte (if tks_version k = Some ''v2'' then 4 else 3) # concat parts))"

definition encode_tempo_authorization :: "evm_lib \<Rightarrow> tempo_signed_authorization \<Rightarrow> string + bytes" where
  "encode_tempo_authorization lib a =
     bind_result (collect
       [encode_rlp_big_uint lib (tsa_chain_id a), bytes_item lib (tsa_address a),
        encode_rlp_big_uint lib (tsa_nonce a),
        bind_result (encode_tempo_signature_bytes lib (tsa_signature a)) (\<lambda>b. Inr (encode_rlp_bytes b))])
     (\<lambda>items. Inr (encode_rlp_items items))"

definition encode_tempo_authorizations :: "evm_lib \<Rightarrow> tempo_signed_authorization list \<Rightarrow> string + bytes" where
  "encode_tempo_authorizations lib auths =
     bind_result (collect (map (encode_tempo_authorization lib) auths)) (\<lambda>items. Inr (encode_rlp_items items))"

definition tempo_signature_type :: "string \<Rightarrow> string + nat" where
  "tempo_signature_type key_type =
     (if key_type = ''secp256k1'' then Inr 0
      else if key_type = ''p256'' then Inr 1
      else if key_type = ''webAuthn'' then Inr 2
      else Inl (''unsupported Tempo key type: '' @ key_type))"

definition encode_tempo_selector_rule :: "evm_lib \<Rightarrow> tempo_selector_rule \<Rightarrow> string + bytes" where
  "encode_tempo_selector_rule lib rule =
     bind_result (collect (map (bytes_item lib) (tsr_recipients rule))) (\<lambda>recipients.
     bind_result (bytes_item lib (tsr_selector rule)) (\<lambda>selector.
       Inr (encode_rlp_items [selector, encode_rlp_items recipients])))"

definition encode_tempo_call_scope :: "evm_lib \<Rightarrow> tempo_call_scope \<Rightarrow> string + bytes" where
  "encode_tempo_call_scope lib scope =
     bind_result (collect (map (encode_tempo_selector_rule lib) (tcs_selector_rules scope))) (\<lambda>rules.
     bind_result (bytes_item lib (tcs_target scope)) (\<lambda>target.
       Inr (encode_rlp_items [target, encode_rlp_items rules])))"

definition encode_tempo_token_limit :: "evm_lib \<Rightarrow> tempo_token_limit \<Rightarrow> string + bytes" where
  "encode_tempo_token_limit lib l =
     bind_result (bytes_item lib (ttl_token l)) (\<lambda>token.
     bind_result (encode_rlp_big_uint lib (ttl_limit l)) (\<lambda>amount.
       case ttl_period l of
         None \<Rightarrow> Inr (encode_rlp_items [token, amount])
       | Some period \<Rightarrow>
           bind_result (parse_qty_u128_checked period ''Tempo token-limit period'') (\<lambda>n.
             if n \<noteq> 0
             then bind_result (encode_rlp_big_uint lib period) (\<lambda>p. Inr (encode_rlp_items [token, amount, p]))
             else Inr (encode_rlp_items [token, amount]))))"

text \<open>Optional fields up to the last one present, an absent one before it as an empty string.\<close>

definition encode_trailing_optional :: "bytes option list \<Rightarrow> bytes list" where
  "encode_trailing_optional fs =
     (let len = length (dropWhile (\<lambda>f. f = None) (rev fs))
      in map (\<lambda>f. or_else f (encode_rlp_bytes [])) (take len fs))"

definition encode_tempo_key_authorization ::
    "evm_lib \<Rightarrow> tempo_signed_key_authorization \<Rightarrow> string + bytes" where
  "encode_tempo_key_authorization lib a =
     bind_result (optional_item (\<lambda>ls. bind_result (collect (map (encode_tempo_token_limit lib) ls))
                                        (\<lambda>items. Inr (encode_rlp_items items))) (tka_limits a)) (\<lambda>limits.
     bind_result (optional_item (\<lambda>ss. bind_result (collect (map (encode_tempo_call_scope lib) ss))
                                        (\<lambda>items. Inr (encode_rlp_items items))) (tka_allowed_calls a)) (\<lambda>allowed_calls.
     bind_result (collect
       [encode_rlp_big_uint lib (tka_chain_id a),
        bind_result (tempo_signature_type (tka_key_type a)) (\<lambda>n. Inr (encode_rlp_uint n)),
        bytes_item lib (tka_key_id a)]) (\<lambda>fs.
     bind_result (optional_item (encode_rlp_big_uint lib) (tka_expiry a)) (\<lambda>expiry.
     bind_result (optional_item (bytes_item lib) (tka_witness a)) (\<lambda>witness.
     bind_result (optional_item (bytes_item lib) (tka_account a)) (\<lambda>account.
     bind_result (encode_tempo_primitive_signature_bytes lib (tka_signature a)) (\<lambda>sig.
       Inr (encode_rlp_items
         [encode_rlp_items (fs @ encode_trailing_optional
            [expiry, limits, allowed_calls, witness,
             if tka_is_admin a = Some True then Some (encode_rlp_uint 1) else None, account]),
          encode_rlp_bytes sig]))))))))"

definition encode_tempo_fee_payer :: "evm_lib \<Rightarrow> rpc_transaction \<Rightarrow> bool \<Rightarrow> string + bytes" where
  "encode_tempo_fee_payer lib tx for_signing =
     (if for_signing then
        (if tx_fee_payer_signature tx \<noteq> None then Inr (encode_rlp_bytes [byte 0]) else Inr (encode_rlp_bytes []))
      else
        (case tx_fee_payer_signature tx of
           Some fp \<Rightarrow>
             bind_result (collect [encode_rlp_big_uint lib (fps_v fp), encode_rlp_big_uint lib (fps_r fp),
                                   encode_rlp_big_uint lib (fps_s fp)])
               (\<lambda>items. Inr (encode_rlp_items items))
         | None \<Rightarrow> Inr (encode_rlp_bytes [])))"

definition encode_tempo_transaction_fields :: "evm_lib \<Rightarrow> rpc_transaction \<Rightarrow> bool \<Rightarrow> string + bytes list" where
  "encode_tempo_transaction_fields lib tx for_signing =
     bind_result (required ''tx.chainId is missing'' (tx_chain_id tx)) (\<lambda>chain_id.
     bind_result (required ''tx.maxPriorityFeePerGas is missing'' (tx_max_priority_fee_per_gas tx)) (\<lambda>max_prio.
     bind_result (required ''tx.maxFeePerGas is missing'' (tx_max_fee_per_gas tx)) (\<lambda>max_fee.
     bind_result (required ''tx.calls is missing for 0x76 tx'' (tx_calls tx)) (\<lambda>calls.
     bind_result (required ''tx.nonceKey is missing for 0x76 tx'' (tx_nonce_key tx)) (\<lambda>nonce_key.
     bind_result
       (if for_signing \<and> tx_fee_payer_signature tx \<noteq> None then Inr (encode_rlp_bytes [])
        else item_or_empty (bytes_item lib) (tx_fee_token tx)) (\<lambda>fee_token.
     bind_result (encode_tempo_fee_payer lib tx for_signing) (\<lambda>fee_payer.
       collect
         ([encode_rlp_big_uint lib chain_id, encode_rlp_big_uint lib max_prio, encode_rlp_big_uint lib max_fee,
           encode_rlp_big_uint lib (tx_gas tx), encode_tempo_calls lib calls,
           Inr (decode_access_list lib (or_else (tx_access_list tx) [])),
           encode_rlp_big_uint lib nonce_key, encode_rlp_big_uint lib (tx_nonce tx),
           item_or_empty (encode_rlp_big_uint lib) (tx_valid_before tx),
           item_or_empty (encode_rlp_big_uint lib) (tx_valid_after tx),
           Inr fee_token, Inr fee_payer,
           encode_tempo_authorizations lib (or_else (tx_aa_authorization_list tx) [])] @
          (case tx_key_authorization tx of
             Some ka \<Rightarrow> [encode_tempo_key_authorization lib ka]
           | None \<Rightarrow> [])))))))))"

definition encode_tempo_tx :: "evm_lib \<Rightarrow> rpc_transaction \<Rightarrow> string + bytes" where
  "encode_tempo_tx lib tx =
     bind_result (required ''tx.signature is missing for 0x76 tx'' (tx_signature tx)) (\<lambda>sig.
     bind_result (encode_tempo_transaction_fields lib tx False) (\<lambda>fs.
     bind_result (encode_tempo_signature_bytes lib sig) (\<lambda>b.
       Inr (byte 118 # encode_rlp_items (fs @ [encode_rlp_bytes b])))))"

definition encode_tempo_tx_for_signing :: "evm_lib \<Rightarrow> rpc_transaction \<Rightarrow> string + bytes" where
  "encode_tempo_tx_for_signing lib tx =
     bind_result (encode_tempo_transaction_fields lib tx True) (\<lambda>fs.
       Inr (byte 118 # encode_rlp_items fs))"

subsection \<open>Rollup transactions and the dispatch\<close>

definition encode_arbitrum_deposit :: "evm_lib \<Rightarrow> rpc_transaction \<Rightarrow> string + bytes" where
  "encode_arbitrum_deposit lib tx =
     bind_result (required ''chainId missing'' (tx_chain_id tx)) (\<lambda>chain_id.
     bind_result (required ''requestId missing'' (tx_request_id tx)) (\<lambda>request_id.
     bind_result (required ''to missing'' (tx_to tx)) (\<lambda>target.
     bind_result (required ''value missing'' (tx_value tx)) (\<lambda>val.
     bind_result (collect
         [uint_item chain_id,
          bytes_item lib request_id,
          Inr (encode_rlp_bytes (decode_hex_or_empty lib (tx_from tx))),
          bytes_item lib target,
          uint_item val])
       (\<lambda>items. Inr (byte 100 # encode_rlp_items items))))))"

definition encode_arbitrum_unsigned :: "evm_lib \<Rightarrow> rpc_transaction \<Rightarrow> string + bytes" where
  "encode_arbitrum_unsigned lib tx =
     bind_result (required ''chainId missing'' (tx_chain_id tx)) (\<lambda>chain_id.
     bind_result (required ''value missing'' (tx_value tx)) (\<lambda>val.
     bind_result (required ''input missing'' (tx_input tx)) (\<lambda>input.
     bind_result (optional_hex lib (tx_to tx)) (\<lambda>to_bytes.
     bind_result (collect
         [uint_item chain_id,
          Inr (encode_rlp_bytes (decode_hex_or_empty lib (tx_from tx))),
          uint_item (tx_nonce tx),
          uint_item (or_else (tx_gas_price tx) ''0x0''),
          uint_item (tx_gas tx),
          Inr (encode_rlp_bytes to_bytes),
          uint_item val,
          bytes_item lib input])
       (\<lambda>items. Inr (byte 101 # encode_rlp_items items))))))"

definition encode_arbitrum_submit :: "evm_lib \<Rightarrow> rpc_transaction \<Rightarrow> string + bytes" where
  "encode_arbitrum_submit lib tx =
     bind_result (required ''chainId missing'' (tx_chain_id tx)) (\<lambda>chain_id.
     bind_result (required ''input missing'' (tx_input tx)) (\<lambda>input.
     bind_result (collect
         [uint_item chain_id,
          bytes_item lib input])
       (\<lambda>items. Inr (byte 106 # encode_rlp_items items))))"

definition encode_arbitrum_tx :: "evm_lib \<Rightarrow> rpc_transaction \<Rightarrow> string \<Rightarrow> string + bytes" where
  "encode_arbitrum_tx lib tx tx_type =
     (if from_str_radix16 8 (strip_0x tx_type) = None then Inl (''invalid tx type: '' @ tx_type)
      else if tx_type = ''0x64'' then encode_arbitrum_deposit lib tx
      else if tx_type = ''0x65'' then encode_arbitrum_unsigned lib tx
      else if tx_type = ''0x6a'' then encode_arbitrum_submit lib tx
      else Inl (''unsupported Arbitrum tx type: '' @ tx_type))"

definition encode_optimism_deposit_tx :: "evm_lib \<Rightarrow> rpc_transaction \<Rightarrow> string + bytes" where
  "encode_optimism_deposit_tx lib tx =
     bind_result (required ''sourceHash missing'' (tx_source_hash tx)) (\<lambda>source_hash.
     bind_result (required ''value missing'' (tx_value tx)) (\<lambda>val.
     bind_result (required ''input missing'' (tx_input tx)) (\<lambda>input.
     bind_result (optional_hex lib (tx_to tx)) (\<lambda>to_bytes.
     bind_result (collect
         [bytes_item lib source_hash,
          Inr (encode_rlp_bytes (decode_hex_or_empty lib (tx_from tx))),
          Inr (encode_rlp_bytes to_bytes),
          uint_item (or_else (tx_mint tx) ''0x0''),
          uint_item val,
          uint_item (tx_gas tx),
          Inr (encode_rlp_uint 0),
          bytes_item lib input])
       (\<lambda>items. Inr (byte 126 # encode_rlp_items items))))))"

definition encode_transaction :: "evm_lib \<Rightarrow> rpc_transaction \<Rightarrow> string + bytes" where
  "encode_transaction lib tx =
     (let t = or_else (tx_tx_type tx) ''0x0''
      in if t = ''0x0'' then encode_legacy_tx lib tx
         else if t = ''0x1'' then encode_eip2930_tx lib tx
         else if t = ''0x2'' then encode_eip1559_tx lib tx
         else if t = ''0x3'' then encode_eip4844_tx lib tx
         else if t = ''0x4'' then encode_eip7702_tx lib tx
         else if t = ''0x3f'' then encode_stable_tx lib tx
         else if t \<in> {''0x64'', ''0x65'', ''0x66'', ''0x68'', ''0x69'', ''0x6a''} then encode_arbitrum_tx lib tx t
         else if t = ''0x7e'' then encode_optimism_deposit_tx lib tx
         else if t = ''0x76'' then encode_tempo_tx lib tx
         else if t = ''0x7f'' then Inl ''Polygon 0x7f state-sync tx should be excluded from tx root''
         else Inl (''unsupported tx type: '' @ t))"

subsection \<open>Receipts and roots\<close>

definition parse_receipt_type :: "rpc_receipt \<Rightarrow> string + nat" where
  "parse_receipt_type r =
     bind_result (parse_qty_u128_checked (rc_receipt_type r) ''receipt.type'') (\<lambda>v.
       if v < 256 then Inr v else Inl (''receipt.type exceeds one byte: '' @ rc_receipt_type r))"

definition encode_receipt_status_or_root :: "evm_lib \<Rightarrow> rpc_receipt \<Rightarrow> nat \<Rightarrow> string + bytes" where
  "encode_receipt_status_or_root lib r receipt_type =
     (case rc_status r of
        Some status \<Rightarrow>
          bind_result (parse_qty_u128_checked status ''receipt.status'') (\<lambda>n. Inr (encode_rlp_uint n))
      | None \<Rightarrow>
          (if receipt_type \<noteq> 0
           then Inl (''receipt.status is missing for typed receipt '' @ rc_receipt_type r)
           else
             bind_result (required ''receipt.status is missing and legacy receipt.root is absent'' (rc_root r)) (\<lambda>root.
             bind_result (with_field ''receipt.root'' (decode_hex lib root)) (\<lambda>b. Inr (encode_rlp_bytes b)))))"

definition encode_logs :: "evm_lib \<Rightarrow> rpc_log list \<Rightarrow> bytes" where
  "encode_logs lib logs =
     encode_rlp_items (map (\<lambda>l.
       encode_rlp_items
         [encode_rlp_bytes (decode_hex_or_empty lib (log_address l)),
          encode_rlp_items (map (\<lambda>t. encode_rlp_bytes (decode_hex_or_empty lib t)) (log_topics l)),
          encode_rlp_bytes (decode_hex_or_empty lib (log_data l))]) logs)"

definition encode_receipt :: "evm_lib \<Rightarrow> rpc_receipt \<Rightarrow> bool \<Rightarrow> string + bytes" where
  "encode_receipt lib r use_gas_used =
     (let gas_field = (if use_gas_used then rc_gas_used r else rc_cumulative_gas_used r);
          logs_encoded = encode_logs lib (rc_logs r);
          bloom_item = encode_rlp_bytes (decode_hex_or_empty lib (rc_logs_bloom r));
          gas_item = encode_rlp_uint (parse_qty_u128 gas_field)
      in bind_result (parse_receipt_type r) (\<lambda>receipt_type.
         if receipt_type = 126 then
           bind_result (required ''receipt.status is missing for 0x7e receipt'' (rc_status r)) (\<lambda>status.
           bind_result (required ''receipt.depositNonce is missing for 0x7e receipt'' (rc_deposit_nonce r)) (\<lambda>nonce.
           bind_result (parse_qty_u128_checked status ''receipt.status'') (\<lambda>n.
             Inr (byte 126 # encode_rlp_items
               [encode_rlp_uint n, gas_item, bloom_item, logs_encoded,
                encode_rlp_uint (parse_qty_u128 nonce),
                encode_rlp_uint (if rc_deposit_receipt_version r \<noteq> None then 1 else 0)]))))
         else
           bind_result (encode_receipt_status_or_root lib r receipt_type) (\<lambda>status_item.
             let list = encode_rlp_items [status_item, gas_item, bloom_item, logs_encoded]
             in Inr (if receipt_type = 0 then list else byte receipt_type # list))))"

definition encode_withdrawal :: "evm_lib \<Rightarrow> rpc_withdrawal \<Rightarrow> bytes" where
  "encode_withdrawal lib w =
     encode_rlp_items
       [encode_rlp_uint (parse_qty_u128 (wd_index w)), encode_rlp_uint (parse_qty_u128 (wd_validator_index w)),
        encode_rlp_bytes (decode_hex_or_empty lib (wd_address w)), encode_rlp_uint (parse_qty_u128 (wd_amount w))]"

text \<open>The leaves of a trie, sorted by key, and its root.\<close>

definition root_of :: "evm_lib \<Rightarrow> (bytes \<times> bytes) list \<Rightarrow> string" where
  "root_of lib leaves =
     ''0x'' @ hex_encode lib (trie_root lib (sort_key (\<lambda>(k, v). map nat_of_byte k) leaves))"

definition indexed_leaves ::
    "evm_lib \<Rightarrow> ('a \<Rightarrow> string + bytes) \<Rightarrow> ('a \<Rightarrow> nat \<Rightarrow> string) \<Rightarrow> 'a list \<Rightarrow> string + (bytes \<times> bytes) list" where
  "indexed_leaves lib enc label xs =
     collect (map (\<lambda>(idx, x). case enc x of
                      Inl e \<Rightarrow> Inl (label x idx @ '': '' @ e)
                    | Inr v \<Rightarrow> Inr (rlp_index lib idx, v)) (enumerate 0 xs))"

definition transactions_root :: "evm_lib \<Rightarrow> rpc_transaction list \<Rightarrow> string + string" where
  "transactions_root lib txs =
     bind_result
       (indexed_leaves lib (encode_transaction lib)
          (\<lambda>tx idx. ''transaction '' @ tx_hash tx @ '' ('' @ decimal idx @ '')'') txs)
       (\<lambda>leaves. Inr (root_of lib leaves))"

definition receipts_root :: "evm_lib \<Rightarrow> rpc_receipt list \<Rightarrow> bool \<Rightarrow> string + string" where
  "receipts_root lib receipts use_gas_used =
     bind_result
       (indexed_leaves lib (\<lambda>r. encode_receipt lib r use_gas_used)
          (\<lambda>r idx. ''receipt '' @ rc_transaction_hash r @ '' ('' @ decimal idx @ '')'') receipts)
       (\<lambda>leaves. Inr (root_of lib leaves))"

definition withdrawals_root :: "evm_lib \<Rightarrow> rpc_withdrawal list \<Rightarrow> string + string" where
  "withdrawals_root lib ws =
     Inr (root_of lib (map (\<lambda>(idx, w). (rlp_index lib idx, encode_withdrawal lib w)) (enumerate 0 ws)))"

definition calculate_state_sync_tx_hash :: "evm_lib \<Rightarrow> string \<Rightarrow> string \<Rightarrow> string" where
  "calculate_state_sync_tx_hash lib block_num hash =
     (let num = parse_qty_u128 block_num mod 2 ^ 64
      in ''0x'' @ hex_encode lib (keccak256 lib
           (''matic-bor-receipt-'' @ be_bytes 8 num @ decode_hex_or_empty lib hash)))"

subsection \<open>Sender recovery\<close>

definition calculate_sig_recovery :: "rpc_transaction \<Rightarrow> string + nat" where
  "calculate_sig_recovery tx =
     bind_result (parse_qty_u128_checked (or_else (tx_v tx) ''0x0'') ''tx.v'') (\<lambda>v_int.
       if v_int = 0 \<or> v_int = 1 then Inr v_int
       else if v_int = 27 \<or> v_int = 28 then Inr (v_int - 27)
       else
         bind_result (required ''tx.chainId is missing for EIP-155 recovery'' (tx_chain_id tx)) (\<lambda>chain.
         bind_result (parse_qty_u128_checked chain ''tx.chainId'') (\<lambda>chain_id.
           if chain_id \<ge> 2 ^ 64 then Inl ''tx.chainId exceeds u64''
           else if v_int \<ge> 2 ^ 64 then Inl ''tx.v exceeds u64''
           else if chain_id * 2 + 35 \<ge> 2 ^ 64 then Inl ''EIP-155 recovery value overflows u64''
           else if v_int < chain_id * 2 + 35 then Inl ''tx.v is invalid for chainId''
           else let recovery = v_int - (chain_id * 2 + 35)
                in if recovery > 1 then Inl (''tx.v yields invalid recovery id '' @ decimal recovery)
                   else Inr recovery)))"

definition signing_legacy :: "evm_lib \<Rightarrow> rpc_transaction \<Rightarrow> string + bytes" where
  "signing_legacy lib tx =
     bind_result (required ''tx.value missing'' (tx_value tx)) (\<lambda>val.
     bind_result (optional_hex lib (tx_to tx)) (\<lambda>to_bytes.
     bind_result (collect
         [uint_item (tx_nonce tx), uint_item (or_else (tx_gas_price tx) ''0x0''), uint_item (tx_gas tx),
          Inr (encode_rlp_bytes to_bytes), uint_item val, bytes_item lib (or_else (tx_input tx) ''0x'')])
       (\<lambda>items.
         let v_int = parse_qty_u128 (or_else (tx_v tx) ''0x0'')
         in if v_int \<noteq> 27 \<and> v_int \<noteq> 28 \<and> v_int \<noteq> 0 \<and> v_int \<noteq> 1
            then bind_result (required ''chainId missing'' (tx_chain_id tx))
                   (\<lambda>chain_id. Inr (encode_rlp_items
                      (items @ [encode_rlp_uint (parse_qty_u128 chain_id), encode_rlp_uint 0, encode_rlp_uint 0])))
            else Inr (encode_rlp_items items))))"

definition signing_eip2930 :: "evm_lib \<Rightarrow> rpc_transaction \<Rightarrow> string + bytes" where
  "signing_eip2930 lib tx =
     bind_result (required ''chainId missing'' (tx_chain_id tx)) (\<lambda>chain_id.
     bind_result (required ''value missing'' (tx_value tx)) (\<lambda>val.
     bind_result (optional_hex lib (tx_to tx)) (\<lambda>to_bytes.
     bind_result (collect
         [uint_item chain_id,
          uint_item (tx_nonce tx),
          uint_item (or_else (tx_gas_price tx) ''0x0''),
          uint_item (tx_gas tx),
          Inr (encode_rlp_bytes to_bytes),
          uint_item val,
          bytes_item lib (or_else (tx_input tx) ''0x''),
          Inr (decode_access_list lib (or_else (tx_access_list tx) []))])
       (\<lambda>items. Inr (byte 1 # encode_rlp_items items)))))"

definition signing_eip1559 :: "evm_lib \<Rightarrow> rpc_transaction \<Rightarrow> string + bytes" where
  "signing_eip1559 lib tx =
     bind_result (required ''chainId missing'' (tx_chain_id tx)) (\<lambda>chain_id.
     bind_result (required ''maxPriorityFeePerGas missing'' (tx_max_priority_fee_per_gas tx)) (\<lambda>max_prio.
     bind_result (required ''maxFeePerGas missing'' (tx_max_fee_per_gas tx)) (\<lambda>max_fee.
     bind_result (required ''value missing'' (tx_value tx)) (\<lambda>val.
     bind_result (optional_hex lib (tx_to tx)) (\<lambda>to_bytes.
     bind_result (collect
         [uint_item chain_id,
          uint_item (tx_nonce tx),
          uint_item max_prio,
          uint_item max_fee,
          uint_item (tx_gas tx),
          Inr (encode_rlp_bytes to_bytes),
          uint_item val,
          bytes_item lib (or_else (tx_input tx) ''0x''),
          Inr (decode_access_list lib (or_else (tx_access_list tx) []))])
       (\<lambda>items. Inr (byte 2 # encode_rlp_items items)))))))"

definition signing_eip4844 :: "evm_lib \<Rightarrow> rpc_transaction \<Rightarrow> string + bytes" where
  "signing_eip4844 lib tx =
     bind_result (required ''chainId missing'' (tx_chain_id tx)) (\<lambda>chain_id.
     bind_result (required ''maxPriorityFeePerGas missing'' (tx_max_priority_fee_per_gas tx)) (\<lambda>max_prio.
     bind_result (required ''maxFeePerGas missing'' (tx_max_fee_per_gas tx)) (\<lambda>max_fee.
     bind_result (required ''value missing'' (tx_value tx)) (\<lambda>val.
     bind_result (required ''maxFeePerBlobGas missing'' (tx_max_fee_per_blob_gas tx)) (\<lambda>max_fee_blob.
     bind_result (required ''blobVersionedHashes missing'' (tx_blob_versioned_hashes tx)) (\<lambda>blob_hashes.
     bind_result (optional_hex lib (tx_to tx)) (\<lambda>to_bytes.
     bind_result (collect
         [uint_item chain_id,
          uint_item (tx_nonce tx),
          uint_item max_prio,
          uint_item max_fee,
          uint_item (tx_gas tx),
          Inr (encode_rlp_bytes to_bytes),
          uint_item val,
          bytes_item lib (or_else (tx_input tx) ''0x''),
          Inr (decode_access_list lib (or_else (tx_access_list tx) [])),
          uint_item max_fee_blob,
          Inr (encode_blob_hashes lib blob_hashes)])
       (\<lambda>items. Inr (byte 3 # encode_rlp_items items)))))))))"

definition signing_eip7702 :: "evm_lib \<Rightarrow> rpc_transaction \<Rightarrow> string + bytes" where
  "signing_eip7702 lib tx =
     bind_result (required ''chainId missing'' (tx_chain_id tx)) (\<lambda>chain_id.
     bind_result (required ''maxPriorityFeePerGas missing'' (tx_max_priority_fee_per_gas tx)) (\<lambda>max_prio.
     bind_result (required ''maxFeePerGas missing'' (tx_max_fee_per_gas tx)) (\<lambda>max_fee.
     bind_result (required ''value missing'' (tx_value tx)) (\<lambda>val.
     bind_result (optional_hex lib (tx_to tx)) (\<lambda>to_bytes.
     bind_result (collect
         [uint_item chain_id,
          uint_item (tx_nonce tx),
          uint_item max_prio,
          uint_item max_fee,
          uint_item (tx_gas tx),
          Inr (encode_rlp_bytes to_bytes),
          uint_item val,
          bytes_item lib (or_else (tx_input tx) ''0x''),
          Inr (decode_access_list lib (or_else (tx_access_list tx) [])),
          decode_authorization_list lib (or_else (tx_authorization_list tx) [])])
       (\<lambda>items. Inr (byte 4 # encode_rlp_items items)))))))"

definition signing_stable :: "evm_lib \<Rightarrow> rpc_transaction \<Rightarrow> string + bytes" where
  "signing_stable lib tx =
     bind_result (required ''chainId missing'' (tx_chain_id tx)) (\<lambda>chain_id.
     bind_result (required ''maxPriorityFeePerGas missing'' (tx_max_priority_fee_per_gas tx)) (\<lambda>max_prio.
     bind_result (required ''maxFeePerGas missing'' (tx_max_fee_per_gas tx)) (\<lambda>max_fee.
     bind_result (required ''value missing'' (tx_value tx)) (\<lambda>val.
     bind_result (required ''nonceKey missing'' (tx_nonce_key tx)) (\<lambda>nonce_key.
     bind_result (optional_hex lib (tx_to tx)) (\<lambda>to_bytes.
     bind_result (collect
         (stable_tx_base_payload lib tx chain_id max_prio max_fee val to_bytes @
          [uint_item nonce_key,
           uint_item (or_else (tx_timeout_timestamp tx) ''0x0'')]))
       (\<lambda>items. Inr (byte 63 # encode_rlp_items items))))))))"

definition serialize_transaction_for_signing :: "evm_lib \<Rightarrow> rpc_transaction \<Rightarrow> string + bytes option" where
  "serialize_transaction_for_signing lib tx =
     (let t = or_else (tx_tx_type tx) ''0x0''; as_some = (\<lambda>r. bind_result r (\<lambda>b. Inr (Some b)))
      in if t = ''0x0'' then as_some (signing_legacy lib tx)
         else if t = ''0x1'' then as_some (signing_eip2930 lib tx)
         else if t = ''0x2'' then as_some (signing_eip1559 lib tx)
         else if t = ''0x3'' then as_some (signing_eip4844 lib tx)
         else if t = ''0x4'' then as_some (signing_eip7702 lib tx)
         else if t = ''0x3f'' then as_some (signing_stable lib tx)
         else if t \<in> {''0x64'', ''0x65'', ''0x66'', ''0x68'', ''0x69'', ''0x6a'', ''0x7e'', ''0x7f''} then Inr None
         else if t = ''0x76'' then as_some (encode_tempo_tx_for_signing lib tx)
         else Inl (''unsupported tx type for sender recovery: '' @ t))"

definition recover_secp256k1_sender :: "evm_lib \<Rightarrow> bytes \<Rightarrow> bytes \<Rightarrow> bytes \<Rightarrow> nat \<Rightarrow> string + string" where
  "recover_secp256k1_sender lib msg_hash r s recovery_id =
     bind_result (with_field ''sig parse'' (signature_from_bytes lib (r @ s))) (\<lambda>sig_obj.
     bind_result (with_field ''recovery_id'' (recovery_id_try_from lib recovery_id)) (\<lambda>rec_id.
     bind_result (with_field ''recovery failed'' (recover_from_prehash lib msg_hash sig_obj rec_id))
       (\<lambda>uncompressed.
          Inr (''0x'' @ hex_encode lib (drop 12 (keccak256 lib (drop 1 uncompressed)))))))"

definition tempo_key_address :: "evm_lib \<Rightarrow> string \<Rightarrow> string \<Rightarrow> string + string" where
  "tempo_key_address lib x y =
     bind_result (collect [decode_hex_with_len lib x 32 ''Tempo pubKeyX'', decode_hex_with_len lib y 32 ''Tempo pubKeyY''])
       (\<lambda>parts. Inr (to_hex lib (drop 12 (keccak256 lib (concat parts)))))"

fun recover_tempo_primitive_sender :: "evm_lib \<Rightarrow> tempo_primitive_signature \<Rightarrow> bytes \<Rightarrow> string + string" where
  "recover_tempo_primitive_sender lib (Secp256k1 r s y_parity v) msg_hash =
     bind_result (tempo_parity y_parity v) (\<lambda>parity.
     bind_result (decode_signature_scalar lib r ''Tempo signature r'') (\<lambda>r'.
     bind_result (decode_signature_scalar lib s ''Tempo signature s'') (\<lambda>s'.
       recover_secp256k1_sender lib msg_hash r' s' parity)))"
| "recover_tempo_primitive_sender lib (P256 r s x y h) msg_hash = tempo_key_address lib x y"
| "recover_tempo_primitive_sender lib (WebAuthn r s x y d) msg_hash = tempo_key_address lib x y"

fun recover_tempo_sender :: "evm_lib \<Rightarrow> tempo_signature_object \<Rightarrow> bytes \<Rightarrow> string + string" where
  "recover_tempo_sender lib (KeychainSig k) msg_hash =
     bind_result (decode_hex_with_len lib (tks_user_address k) 20 ''Tempo keychain userAddress'')
       (\<lambda>b. Inr (to_hex lib b))"
| "recover_tempo_sender lib (PrimitiveSig p) msg_hash = recover_tempo_primitive_sender lib p msg_hash"

definition recover_tx_sender :: "evm_lib \<Rightarrow> rpc_transaction \<Rightarrow> string + string option" where
  "recover_tx_sender lib tx =
     bind_result (serialize_transaction_for_signing lib tx) (\<lambda>msg.
       case msg of
         None \<Rightarrow> Inr None
       | Some bs \<Rightarrow>
           (let msg_hash = keccak256 lib bs
            in if or_else (tx_tx_type tx) ''0x0'' = ''0x76'' then
                 bind_result (required ''tx.signature is missing for 0x76 tx'' (tx_signature tx)) (\<lambda>sig.
                 bind_result (recover_tempo_sender lib sig msg_hash) (\<lambda>a. Inr (Some a)))
               else
                 bind_result (required ''tx.r is missing'' (tx_r tx)) (\<lambda>r.
                 bind_result (required ''tx.s is missing'' (tx_s tx)) (\<lambda>s.
                 bind_result (decode_signature_scalar lib r ''tx.r'') (\<lambda>r'.
                 bind_result (decode_signature_scalar lib s ''tx.s'') (\<lambda>s'.
                 bind_result (calculate_sig_recovery tx) (\<lambda>recovery_id.
                 bind_result (recover_secp256k1_sender lib msg_hash r' s' recovery_id) (\<lambda>a. Inr (Some a)))))))))"

end
