(* ===== verification/Evm_Commit.thy ===== *)
theory Evm_Commit
  imports Evm_Verify "HOL-Library.Multiset"
begin

text \<open>
  What the recomputed commitments of a block promise: the leaf of a transaction determines its type,
  the header preimage determines the header, the leaves reach the trie in strictly ascending key order,
  the parallel logs bloom is the sequential one and misses no log, and a recovery id is 0 or 1.
\<close>

subsection \<open>Results\<close>

lemma bind_result_Inr:
  "bind_result r f = Inr y \<longleftrightarrow> (\<exists>x. r = Inr x \<and> f x = Inr y)"
  by (cases r) auto

lemma collect_Inr: "collect rs = Inr xs \<longleftrightarrow> rs = map Inr xs"
proof (induction rs arbitrary: xs)
  case (Cons r rs)
  then show ?case by (cases xs) (auto simp: bind_result_Inr)
qed auto

lemma required_Inr [simp]: "required msg v = Inr x \<longleftrightarrow> v = Some x"
  by (auto simp: required_def split: option.splits)

subsection \<open>Items are self-delimiting\<close>

definition one_item :: "bytes \<Rightarrow> bool" where
  "one_item x \<longleftrightarrow> (\<exists>it. \<forall>s. rlp_next (x @ s) = Some (it, s))"

lemma one_item_nonempty: "one_item x \<Longrightarrow> x \<noteq> []"
  unfolding one_item_def by (metis append.right_neutral option.distinct(1) rlp_next.simps(1))

lemma length_le_encode_rlp_bytes: "length b \<le> length (encode_rlp_bytes b)"
  by (simp add: encode_rlp_bytes_def)

lemma length_le_encode_rlp_items: "length (concat xs) \<le> length (encode_rlp_items xs)"
  by (simp add: encode_rlp_items_def)

lemma one_items_unique:
  "list_all one_item xs \<Longrightarrow> list_all one_item ys \<Longrightarrow> concat xs = concat ys \<Longrightarrow> xs = ys"
proof (induction xs arbitrary: ys)
  case Nil
  then show ?case using one_item_nonempty by (cases ys) auto
next
  case (Cons x xs)
  obtain it where x: "rlp_next (x @ concat xs) = Some (it, concat xs)"
    using Cons.prems(1) by (auto simp: one_item_def)
  have "x \<noteq> []" using Cons.prems(1) one_item_nonempty by simp
  then obtain y ys' where ys: "ys = y # ys'" using Cons.prems(3) by (cases ys) auto
  obtain it' where y: "rlp_next (y @ concat ys') = Some (it', concat ys')"
    using Cons.prems(2) ys by (auto simp: one_item_def)
  have eq: "concat xs = concat ys'" using x y Cons.prems(3) ys by simp
  then have "xs = ys'" using Cons.IH Cons.prems(1,2) ys by simp
  moreover have "x = y" using Cons.prems(3) ys eq by simp
  ultimately show ?case using ys by simp
qed

text \<open>The items a payload is made of: an unsigned quantity, a byte string, or a list.\<close>

definition item_form :: "bytes \<Rightarrow> bool" where
  "item_form x \<longleftrightarrow>
     (\<exists>n < 2 ^ 128. x = encode_rlp_uint n) \<or> (\<exists>b. x = encode_rlp_bytes b) \<or> (\<exists>xs. x = encode_rlp_items xs)"

lemma item_form_one_item: "item_form x \<Longrightarrow> length x < 2 ^ 64 \<Longrightarrow> one_item x"
proof -
  assume form: "item_form x" and len: "length x < 2 ^ 64"
  consider n where "n < 2 ^ 128" "x = encode_rlp_uint n" | b where "x = encode_rlp_bytes b"
    | xs where "x = encode_rlp_items xs"
    using form unfolding item_form_def by blast
  then show "one_item x"
  proof cases
    case 1
    then show ?thesis unfolding one_item_def using rlp_next_uint by blast
  next
    case 2
    have "length b < 2 ^ 64" using length_le_encode_rlp_bytes [of b] len 2 by simp
    then show ?thesis unfolding one_item_def 2 using rlp_next_bytes by blast
  next
    case 3
    have "length (concat xs) < 2 ^ 64" using length_le_encode_rlp_items [of xs] len 3 by simp
    then show ?thesis unfolding one_item_def 3 using rlp_next_list by blast
  qed
qed

lemma encode_rlp_items_unique:
  assumes "encode_rlp_items xs = encode_rlp_items ys" "length (encode_rlp_items xs) < 2 ^ 64"
    and "list_all item_form xs" "list_all item_form ys"
  shows "xs = ys"
proof -
  have lens: "length (concat xs) < 2 ^ 64" "length (concat ys) < 2 ^ 64"
    using length_le_encode_rlp_items [of xs] length_le_encode_rlp_items [of ys] assms(1,2) by simp_all
  have eq: "concat xs = concat ys"
    using rlp_next_list [OF lens(1), of "[]"] rlp_next_list [OF lens(2), of "[]"] assms(1) by simp
  have short: "length x < 2 ^ 64" if "x \<in> set zs" "length (concat zs) < 2 ^ 64" for x and zs :: "bytes list"
    using that member_le_sum_list [of "length x" "map length zs"] by (simp add: length_concat)
  have "list_all one_item zs" if "list_all item_form zs" "length (concat zs) < 2 ^ 64" for zs
    using that short item_form_one_item by (auto simp: list_all_iff)
  then show ?thesis using one_items_unique assms(3,4) lens eq by blast
qed

lemma encode_rlp_uint_inject:
  "n < 2 ^ 128 \<Longrightarrow> m < 2 ^ 128 \<Longrightarrow> encode_rlp_uint n = encode_rlp_uint m \<longleftrightarrow> n = m"
  using rlp_next_uint [of n "[]"] rlp_next_uint [of m "[]"] uint_bytes_value(1) [of n] uint_bytes_value(1) [of m]
  by auto

lemma encode_rlp_bytes_inject:
  assumes "encode_rlp_bytes a = encode_rlp_bytes b" "length (encode_rlp_bytes a) < 2 ^ 64"
  shows "a = b"
proof -
  have "length a < 2 ^ 64" "length b < 2 ^ 64"
    using length_le_encode_rlp_bytes [of a] length_le_encode_rlp_bytes [of b] assms by simp_all
  then show ?thesis using rlp_next_bytes [of a "[]"] rlp_next_bytes [of b "[]"] assms(1) by simp
qed

lemma parse_qty_u128_bound: "parse_qty_u128 s < 2 ^ 128"
  by (auto simp: parse_qty_u128_def dest: from_str_radix16_bound split: option.splits)

subsection \<open>Typed envelopes\<close>

lemma encode_rlp_items_head:
  "\<exists>h rest. encode_rlp_items items = h # rest \<and> (length (concat items) < 2 ^ 64 \<longrightarrow> 192 \<le> nat_of_byte h)"
proof (cases "length (concat items) < 56")
  case False
  have "length (encode_uint_bytes n) \<le> 8" if "\<not> n < 56" "n < 2 ^ 64" for n
    using that encode_uint_bytes_value(3) [of n] by simp
  from this [OF False] show ?thesis
    using False by (auto simp: encode_rlp_items_def encode_rlp_length_def Let_def)
qed (simp add: encode_rlp_items_def encode_rlp_length_def)

definition item_result :: "string + bytes \<Rightarrow> bool" where
  "item_result r \<longleftrightarrow> (\<forall>x. r = Inr x \<longrightarrow> item_form x)"

lemma item_form_intros [simp]:
  "item_form (encode_rlp_bytes b)" "item_form (encode_rlp_items xs)"
  "item_form (encode_rlp_uint (parse_qty_u128 s))"
  unfolding item_form_def using parse_qty_u128_bound by blast+

lemma item_form_zero [simp]: "item_form (encode_rlp_uint 0)"
  unfolding item_form_def by (intro disjI1 exI [of _ 0]) simp

lemma item_result_Inr [simp]: "item_result (Inr x) = item_form x"
  by (simp add: item_result_def)

lemma item_form_lists [simp]:
  "item_form (decode_access_list lib al)" "item_form (encode_blob_hashes lib hs)"
  by (simp_all add: decode_access_list_def encode_blob_hashes_def)

lemma item_results [simp]:
  "item_result (uint_item s)" "item_result (bytes_item lib s)" "item_result (encode_rlp_big_uint lib s)"
  "item_result (decode_authorization_list lib auths)" "item_result (encode_tempo_calls lib calls)"
  "item_result (encode_tempo_authorizations lib tas)" "item_result (encode_tempo_key_authorization lib ka)"
  "item_result (encode_tempo_fee_payer lib tx b)"
  by (auto simp: item_result_def uint_item_def bytes_item_def encode_rlp_big_uint_def bind_result_Inr
      decode_authorization_list_def encode_tempo_calls_def encode_tempo_authorizations_def
      encode_tempo_key_authorization_def encode_tempo_fee_payer_def split: if_splits option.splits)

lemma item_or_empty_result [simp]: "(\<And>x. item_result (f x)) \<Longrightarrow> item_result (item_or_empty f v)"
  by (simp add: item_or_empty_def split: option.splits)

lemma collect_items:
  "collect rs = Inr items \<Longrightarrow> list_all item_result rs \<Longrightarrow> list_all item_form items"
  by (auto simp: collect_Inr list.pred_map comp_def)

lemma tempo_fields_form:
  assumes "encode_tempo_transaction_fields lib tx b = Inr fs"
  shows "list_all item_form fs"
proof -
  have payer: "encode_tempo_fee_payer lib tx b = Inr p \<Longrightarrow> item_form p" for p
    using item_results(8) [of lib tx b] by (simp add: item_result_def)
  have token: "item_or_empty (bytes_item lib) v = Inr t \<Longrightarrow> item_form t" for v t
    using item_or_empty_result [of "bytes_item lib" v] item_results(2) [of lib] item_result_def by blast
  show ?thesis
    using assms unfolding encode_tempo_transaction_fields_def bind_result_Inr
    by (elim exE conjE, elim collect_items)
       (auto simp: payer token split: option.splits if_splits)
qed

text \<open>The number a type string denotes, as the first byte of the envelope writes it.\<close>

definition tx_type_number :: "rpc_transaction \<Rightarrow> nat option" where
  "tx_type_number tx = from_str_radix16 8 (strip_0x (or_else (tx_tx_type tx) ''0x0''))"

definition envelope :: "nat \<Rightarrow> bytes list \<Rightarrow> bytes \<Rightarrow> bool" where
  "envelope t items bs \<longleftrightarrow>
     t < 128 \<and> list_all item_form items \<and> bs = (if t = 0 then [] else [byte t]) @ encode_rlp_items items"

lemma envelope_length: "envelope t items bs \<Longrightarrow> length (encode_rlp_items items) \<le> length bs"
  by (simp add: envelope_def)

lemma envelope_hd:
  "envelope t items bs \<Longrightarrow> hd bs = (if t = 0 then hd (encode_rlp_items items) else byte t)"
  by (simp add: envelope_def)

lemma envelope_legacy: "list_all item_form items \<Longrightarrow> envelope 0 items (encode_rlp_items items)"
  by (simp add: envelope_def)

lemma envelope_typed:
  "list_all item_form items \<Longrightarrow> 0 < t \<Longrightarrow> t < 128 \<Longrightarrow> envelope t items (byte t # encode_rlp_items items)"
  by (simp add: envelope_def)

lemmas tx_encoders =
  encode_legacy_tx_def encode_eip2930_tx_def encode_eip1559_tx_def encode_eip4844_tx_def
  encode_eip7702_tx_def encode_stable_tx_def encode_arbitrum_deposit_def
  encode_arbitrum_unsigned_def encode_arbitrum_submit_def encode_optimism_deposit_tx_def

lemma tx_encoder_envelopes:
  "encode_legacy_tx lib tx = Inr bs \<Longrightarrow> \<exists>items. envelope 0 items bs"
  "encode_eip2930_tx lib tx = Inr bs \<Longrightarrow> \<exists>items. envelope 1 items bs"
  "encode_eip1559_tx lib tx = Inr bs \<Longrightarrow> \<exists>items. envelope 2 items bs"
  "encode_eip4844_tx lib tx = Inr bs \<Longrightarrow> \<exists>items. envelope 3 items bs"
  "encode_eip7702_tx lib tx = Inr bs \<Longrightarrow> \<exists>items. envelope 4 items bs"
  "encode_stable_tx lib tx = Inr bs \<Longrightarrow> \<exists>items. envelope 63 items bs"
  "encode_arbitrum_deposit lib tx = Inr bs \<Longrightarrow> \<exists>items. envelope 100 items bs"
  "encode_arbitrum_unsigned lib tx = Inr bs \<Longrightarrow> \<exists>items. envelope 101 items bs"
  "encode_arbitrum_submit lib tx = Inr bs \<Longrightarrow> \<exists>items. envelope 106 items bs"
  "encode_optimism_deposit_tx lib tx = Inr bs \<Longrightarrow> \<exists>items. envelope 126 items bs"
  "encode_tempo_tx lib tx = Inr bs \<Longrightarrow> \<exists>items. envelope 118 items bs"
  unfolding tx_encoders encode_tempo_tx_def bind_result_Inr
  by (elim exE conjE, drule collect_items,
      simp add: stable_tx_base_payload_def,
      force intro: envelope_legacy envelope_typed)+
     (force dest!: tempo_fields_form intro: envelope_typed)

lemma type_numbers:
  "from_str_radix16 8 (strip_0x ''0x0'') = Some 0" "from_str_radix16 8 (strip_0x ''0x1'') = Some 1"
  "from_str_radix16 8 (strip_0x ''0x2'') = Some 2" "from_str_radix16 8 (strip_0x ''0x3'') = Some 3"
  "from_str_radix16 8 (strip_0x ''0x4'') = Some 4" "from_str_radix16 8 (strip_0x ''0x3f'') = Some 63"
  "from_str_radix16 8 (strip_0x ''0x64'') = Some 100" "from_str_radix16 8 (strip_0x ''0x65'') = Some 101"
  "from_str_radix16 8 (strip_0x ''0x6a'') = Some 106" "from_str_radix16 8 (strip_0x ''0x76'') = Some 118"
  "from_str_radix16 8 (strip_0x ''0x7e'') = Some 126"
  by (simp_all add: from_str_radix16_def strip_0x_def unsigned_digits_def hex_digit_def Let_def)

lemma encode_transaction_envelope:
  assumes "encode_transaction lib tx = Inr bs"
  obtains t items where "tx_type_number tx = Some t" "envelope t items bs"
    "t = 0 \<longrightarrow> encode_legacy_tx lib tx = Inr bs" "t = 2 \<longrightarrow> encode_eip1559_tx lib tx = Inr bs"
  using assms tx_encoder_envelopes [of lib tx bs]
  unfolding encode_transaction_def encode_arbitrum_tx_def Let_def tx_type_number_def
  by (simp add: type_numbers split: if_splits) (metis type_numbers zero_neq_numeral)+

lemma envelope_unique:
  assumes "envelope t xs bs" "envelope u ys bs" "length bs < 2 ^ 64"
  shows "t = u \<and> xs = ys"
proof -
  have head: "192 \<le> nat_of_byte (hd (encode_rlp_items zs))" "encode_rlp_items zs \<noteq> []"
    if "length (encode_rlp_items zs) < 2 ^ 64" for zs
    using that encode_rlp_items_head [of zs] length_le_encode_rlp_items [of zs] by auto
  have "length (encode_rlp_items xs) < 2 ^ 64" "length (encode_rlp_items ys) < 2 ^ 64"
    using envelope_length [OF assms(1)] envelope_length [OF assms(2)] assms(3) by simp_all
  note lens = this and heads = head [OF this(1)] head [OF this(2)]
  have "t < 128" "u < 128" using assms by (simp_all add: envelope_def)
  have "t = u"
  proof (rule ccontr)
    assume ne: "t \<noteq> u"
    have "hd bs = (if t = 0 then hd (encode_rlp_items xs) else byte t)"
      "hd bs = (if u = 0 then hd (encode_rlp_items ys) else byte u)"
      using assms(1,2) [THEN envelope_hd] by simp_all
    then have "(if t = 0 then nat_of_byte (hd (encode_rlp_items xs)) else t) =
        (if u = 0 then nat_of_byte (hd (encode_rlp_items ys)) else u)"
      using \<open>t < 128\<close> \<open>u < 128\<close> by (smt (verit) of_byte mod_less less_trans numeral_less_iff semiring_norm)
    then show False using ne heads \<open>t < 128\<close> \<open>u < 128\<close> by (auto split: if_splits)
  qed
  moreover from this have "encode_rlp_items xs = encode_rlp_items ys"
    using assms(1,2) by (auto simp: envelope_def)
  ultimately show ?thesis using encode_rlp_items_unique lens assms(1,2) by (auto simp: envelope_def)
qed

subsection \<open>Fields\<close>

fun field_kind :: "rlp_field \<Rightarrow> nat" where
  "field_kind (RlpBytes b) = 0" | "field_kind (RlpUint n) = 1" | "field_kind (RlpRawList r) = 2"

fun field_form :: "rlp_field \<Rightarrow> bool" where
  "field_form (RlpBytes b) = True"
| "field_form (RlpUint n) = (n < 2 ^ 128)"
| "field_form (RlpRawList r) = item_form r"

lemma rlp_encode_list_items: "rlp_encode_list fs = encode_rlp_items (map encode_rlp_field fs)"
  by (simp add: rlp_encode_list_def encode_rlp_items_def Let_def)

lemma field_form_item: "field_form f \<Longrightarrow> item_form (encode_rlp_field f)"
  by (cases f) (auto simp: item_form_def)

lemma encode_rlp_field_inject:
  assumes "encode_rlp_field f = encode_rlp_field g" "field_kind f = field_kind g"
    and "field_form f" "field_form g" "length (encode_rlp_field f) < 2 ^ 64"
  shows "f = g"
  using assms by (cases f; cases g) (auto simp: encode_rlp_uint_inject encode_rlp_bytes_inject)

lemma rlp_encode_list_prefix_unique:
  assumes eq: "rlp_encode_list fs = rlp_encode_list gs" and len: "length (rlp_encode_list fs) < 2 ^ 64"
    and form: "list_all field_form fs" "list_all field_form gs"
    and kinds: "take n (map field_kind fs) = take n (map field_kind gs)"
  shows "length fs = length gs \<and> take n fs = take n gs"
proof -
  have items: "list_all item_form (map encode_rlp_field hs)" if "list_all field_form hs" for hs
    using that field_form_item by (simp add: list.pred_map list_all_iff)
  have maps: "map encode_rlp_field fs = map encode_rlp_field gs"
    using encode_rlp_items_unique eq len items form by (simp add: rlp_encode_list_items)
  then have lengths: "length fs = length gs" using map_eq_imp_length_eq by blast
  have "fs ! i = gs ! i" if "i < n" "i < length fs" for i
  proof (rule encode_rlp_field_inject)
    have "fs ! i \<in> set fs" "gs ! i \<in> set gs" using that lengths by simp_all
    then show "field_form (fs ! i)" "field_form (gs ! i)" using form by (auto simp: list_all_iff)
    show "encode_rlp_field (fs ! i) = encode_rlp_field (gs ! i)"
      using maps that lengths by (metis nth_map)
    show "field_kind (fs ! i) = field_kind (gs ! i)"
      using kinds that lengths by (metis length_map nth_map nth_take)
    have "length (encode_rlp_field (fs ! i)) \<le> length (concat (map encode_rlp_field fs))"
      using \<open>fs ! i \<in> set fs\<close> member_le_sum_list [of "length (encode_rlp_field (fs ! i))"
          "map length (map encode_rlp_field fs)"] by (simp add: length_concat)
    then show "length (encode_rlp_field (fs ! i)) < 2 ^ 64"
      using len length_le_encode_rlp_items [of "map encode_rlp_field fs"] by (simp add: rlp_encode_list_items)
  qed
  then show ?thesis using lengths by (auto intro!: nth_equalityI)
qed

lemma rlp_encode_list_unique:
  assumes "rlp_encode_list fs = rlp_encode_list gs" "length (rlp_encode_list fs) < 2 ^ 64"
    and "list_all field_form fs" "list_all field_form gs" "map field_kind fs = map field_kind gs"
  shows "fs = gs"
  using rlp_encode_list_prefix_unique [OF assms(1-4), of "length fs"] assms(5) by auto

definition big_uint_field :: "evm_lib \<Rightarrow> string \<Rightarrow> string + rlp_field" where
  "big_uint_field lib s = bind_result (decode_hex_big_int lib s) (\<lambda>b. Inr (RlpBytes b))"

text \<open>The fields of a signed legacy transaction and of a signed fee market transaction.\<close>

definition legacy_fields :: "evm_lib \<Rightarrow> rpc_transaction \<Rightarrow> string + rlp_field list" where
  "legacy_fields lib tx = collect
     [uint_field (tx_nonce tx), bind_result (required [] (tx_gas_price tx)) uint_field, uint_field (tx_gas tx),
      bind_result (optional_hex lib (tx_to tx)) (\<lambda>b. Inr (RlpBytes b)),
      bind_result (required [] (tx_value tx)) uint_field, bytes_field lib (or_else (tx_input tx) ''0x''),
      bind_result (required [] (tx_v tx)) uint_field, bind_result (required [] (tx_r tx)) (big_uint_field lib),
      bind_result (required [] (tx_s tx)) (big_uint_field lib)]"

definition eip1559_fields :: "evm_lib \<Rightarrow> rpc_transaction \<Rightarrow> string + rlp_field list" where
  "eip1559_fields lib tx = collect
     [bind_result (required [] (tx_chain_id tx)) uint_field, uint_field (tx_nonce tx),
      bind_result (required [] (tx_max_priority_fee_per_gas tx)) uint_field,
      bind_result (required [] (tx_max_fee_per_gas tx)) uint_field, uint_field (tx_gas tx),
      bind_result (optional_hex lib (tx_to tx)) (\<lambda>b. Inr (RlpBytes b)),
      bind_result (required [] (tx_value tx)) uint_field, bytes_field lib (or_else (tx_input tx) ''0x''),
      Inr (RlpRawList (decode_access_list lib (or_else (tx_access_list tx) []))),
      bind_result (required [] (tx_v tx)) uint_field, bind_result (required [] (tx_r tx)) (big_uint_field lib),
      bind_result (required [] (tx_s tx)) (big_uint_field lib)]"

lemmas field_items =
  uint_item_def bytes_item_def encode_rlp_big_uint_def uint_field_def bytes_field_def big_uint_field_def

lemma legacy_tx_fields:
  assumes "encode_legacy_tx lib tx = Inr bs"
  obtains fs where "legacy_fields lib tx = Inr fs" "bs = rlp_encode_list fs" "list_all field_form fs"
    "map field_kind fs = [1, 1, 1, 0, 1, 0, 1, 0, 0]"
  using assms unfolding encode_legacy_tx_def legacy_fields_def bind_result_Inr collect_Inr
  by (auto simp: Cons_eq_map_conv field_items bind_result_Inr rlp_encode_list_items parse_qty_u128_bound [simplified])

lemma eip1559_tx_fields:
  assumes "encode_eip1559_tx lib tx = Inr bs"
  obtains fs where "eip1559_fields lib tx = Inr fs" "bs = byte 2 # rlp_encode_list fs" "list_all field_form fs"
    "map field_kind fs = [1, 1, 1, 1, 1, 0, 1, 0, 2, 1, 0, 0]"
  using assms unfolding encode_eip1559_tx_def eip1559_fields_def bind_result_Inr collect_Inr
  by (auto simp: Cons_eq_map_conv field_items bind_result_Inr rlp_encode_list_items parse_qty_u128_bound [simplified])

lemma same_leaf_legacy:
  assumes "encode_legacy_tx lib tx = Inr bs" "encode_legacy_tx lib tx' = Inr bs" "length bs < 2 ^ 64"
  shows "legacy_fields lib tx = legacy_fields lib tx'"
proof -
  obtain fs where fs: "legacy_fields lib tx = Inr fs" "bs = rlp_encode_list fs" "list_all field_form fs"
    "map field_kind fs = [1, 1, 1, 0, 1, 0, 1, 0, 0]" by (rule legacy_tx_fields [OF assms(1)])
  obtain gs where gs: "legacy_fields lib tx' = Inr gs" "bs = rlp_encode_list gs" "list_all field_form gs"
    "map field_kind gs = [1, 1, 1, 0, 1, 0, 1, 0, 0]" by (rule legacy_tx_fields [OF assms(2)])
  have "fs = gs" by (rule rlp_encode_list_unique) (use fs gs assms(3) in auto)
  then show ?thesis using fs gs by simp
qed

lemma same_leaf_eip1559:
  assumes "encode_eip1559_tx lib tx = Inr bs" "encode_eip1559_tx lib tx' = Inr bs" "length bs < 2 ^ 64"
  shows "eip1559_fields lib tx = eip1559_fields lib tx'"
proof -
  obtain fs where fs: "eip1559_fields lib tx = Inr fs" "bs = byte 2 # rlp_encode_list fs"
    "list_all field_form fs" "map field_kind fs = [1, 1, 1, 1, 1, 0, 1, 0, 2, 1, 0, 0]"
    by (rule eip1559_tx_fields [OF assms(1)])
  obtain gs where gs: "eip1559_fields lib tx' = Inr gs" "bs = byte 2 # rlp_encode_list gs"
    "list_all field_form gs" "map field_kind gs = [1, 1, 1, 1, 1, 0, 1, 0, 2, 1, 0, 0]"
    by (rule eip1559_tx_fields [OF assms(2)])
  have "fs = gs" by (rule rlp_encode_list_unique) (use fs gs assms(3) in auto)
  then show ?thesis using fs gs by simp
qed

text \<open>
  C28.  The leaf of a transaction in the trie commits to what it says.  Two transactions of any of the
  supported types with the same leaf have the same type number, which for typed ones is the first byte
  and for legacy ones is left out; and two legacy or two fee market transactions with the same leaf
  agree on every signed field: nonce, fees, gas, recipient, value, input, access list, signature.
\<close>

theorem leaf_commits_to_transaction:
  assumes "encode_transaction lib tx = Inr leaf" "encode_transaction lib tx' = Inr leaf"
    and "length leaf < 2 ^ 64"
  shows "tx_type_number tx = tx_type_number tx' \<and> tx_type_number tx \<noteq> None \<and>
    (tx_type_number tx = Some 0 \<longrightarrow> legacy_fields lib tx = legacy_fields lib tx') \<and>
    (tx_type_number tx = Some 2 \<longrightarrow> eip1559_fields lib tx = eip1559_fields lib tx')"
proof -
  obtain t xs where t: "tx_type_number tx = Some t" "envelope t xs leaf"
    "t = 0 \<longrightarrow> encode_legacy_tx lib tx = Inr leaf" "t = 2 \<longrightarrow> encode_eip1559_tx lib tx = Inr leaf"
    by (rule encode_transaction_envelope [OF assms(1)])
  obtain u ys where u: "tx_type_number tx' = Some u" "envelope u ys leaf"
    "u = 0 \<longrightarrow> encode_legacy_tx lib tx' = Inr leaf" "u = 2 \<longrightarrow> encode_eip1559_tx lib tx' = Inr leaf"
    by (rule encode_transaction_envelope [OF assms(2)])
  have "t = u" using envelope_unique [OF t(2) u(2) assms(3)] by simp
  then show ?thesis using t u same_leaf_legacy same_leaf_eip1559 assms(3) by auto
qed

subsection \<open>Signature recovery\<close>

definition qty_value :: "string \<Rightarrow> nat option" where
  "qty_value s = from_str_radix16 128 (strip_0x s)"

lemma parse_qty_checked_Inr: "parse_qty_u128_checked s field = Inr v \<longleftrightarrow> qty_value s = Some v"
  by (auto simp: parse_qty_u128_checked_def qty_value_def Let_def from_str_radix16_def unsigned_digits_def
      split: option.splits)

text \<open>
  A recovery id is found exactly for the three ways to write one: 0 or 1 as they are, 27 or 28,
  and the replay-protected \<open>2 * chainId + 35 + id\<close> below \<open>2 ^ 64\<close>; the id is always 0 or 1.
\<close>

theorem sig_recovery_characterised:
  "calculate_sig_recovery tx = Inr k \<longleftrightarrow>
     k \<le> 1 \<and>
     (\<exists>v. qty_value (or_else (tx_v tx) ''0x0'') = Some v \<and>
        (v = k \<or> v = 27 + k \<or>
         (\<exists>chain c. tx_chain_id tx = Some chain \<and> qty_value chain = Some c \<and>
            v = 2 * c + 35 + k \<and> v < 2 ^ 64)))"
  (is "?lhs \<longleftrightarrow> ?rhs")
proof
  assume ?lhs
  then show ?rhs
    unfolding calculate_sig_recovery_def bind_result_Inr parse_qty_checked_Inr
    by (auto simp: bind_result_Inr parse_qty_checked_Inr Let_def split: if_splits)
next
  assume ?rhs
  then obtain v where k: "k \<le> 1" and v: "parse_qty_u128_checked (or_else (tx_v tx) ''0x0'') ''tx.v'' = Inr v"
    and cases: "v = k \<or> v = 27 + k \<or> (\<exists>chain c. tx_chain_id tx = Some chain \<and>
      parse_qty_u128_checked chain ''tx.chainId'' = Inr c \<and> v = 2 * c + 35 + k \<and> v < 2 ^ 64)"
    unfolding parse_qty_checked_Inr by blast
  from k have "k = 0 \<or> k = 1" by linarith
  with cases show ?lhs unfolding calculate_sig_recovery_def v by (auto simp: required_def)
qed

subsection \<open>Logs bloom\<close>

lemma length_set_bloom_bit [simp]: "length (set_bloom_bit i b) = length b"
  by (simp add: set_bloom_bit_def)

lemma nth_set_bloom_bit:
  "k < length b \<Longrightarrow>
   set_bloom_bit i b ! k = (if k = i div 8 then b ! k OR push_bit (7 - i mod 8) 1 else b ! k)"
  by (simp add: set_bloom_bit_def nth_list_update)

lemma set_bloom_bit_merge:
  "length a = length b \<Longrightarrow> set_bloom_bit i (merge_bloom a b) = merge_bloom a (set_bloom_bit i b)"
  by (auto simp: nth_set_bloom_bit merge_bloom_def or.assoc intro!: nth_equalityI)

lemma set_bloom_bit_commute: "set_bloom_bit i (set_bloom_bit j b) = set_bloom_bit j (set_bloom_bit i b)"
  by (auto simp: nth_set_bloom_bit or.assoc or.commute or.left_commute intro!: nth_equalityI)

lemma set_bloom_bit_idem: "set_bloom_bit i (set_bloom_bit i b) = set_bloom_bit i b"
  by (auto simp: nth_set_bloom_bit or.assoc intro!: nth_equalityI)

definition entry_bits :: "evm_lib \<Rightarrow> bytes \<Rightarrow> nat list" where
  "entry_bits lib entry = map (bloom_bit (keccak256 lib entry)) [0, 2, 4]"

definition log_entries :: "evm_lib \<Rightarrow> rpc_log \<Rightarrow> bytes list" where
  "log_entries lib l = map (decode_hex_or_empty lib) (log_address l # log_topics l)"

lemma add_to_bloom_bits: "add_to_bloom lib e b = fold set_bloom_bit (entry_bits lib e) b"
  by (simp add: add_to_bloom_def entry_bits_def Let_def)

lemma add_log_entries: "add_log lib l b = fold (add_to_bloom lib) (log_entries lib l) b"
  by (simp add: add_log_def log_entries_def fold_map comp_def)

definition log_bits :: "evm_lib \<Rightarrow> rpc_log list \<Rightarrow> nat list" where
  "log_bits lib logs = concat (map (entry_bits lib) (concat (map (log_entries lib) logs)))"

lemma add_entries_bits:
  "fold (add_to_bloom lib) es b = fold set_bloom_bit (concat (map (entry_bits lib) es)) b"
  by (induction es arbitrary: b) (simp_all add: add_to_bloom_bits)

lemma add_logs_bits: "fold (add_log lib) logs b = fold set_bloom_bit (log_bits lib logs) b"
  by (induction logs arbitrary: b) (simp_all add: log_bits_def add_log_entries add_entries_bits)

lemma length_fold_bits [simp]: "length (fold set_bloom_bit is b) = length b"
  by (induction "is" arbitrary: b) simp_all

lemma fold_bits_merge:
  "length a = length b \<Longrightarrow> fold set_bloom_bit is (merge_bloom a b) = merge_bloom a (fold set_bloom_bit is b)"
  by (induction "is" arbitrary: b) (simp_all add: set_bloom_bit_merge)

lemma merge_empty_bloom:
  "length b = 256 \<Longrightarrow> merge_bloom empty_bloom b = b" "length b = 256 \<Longrightarrow> merge_bloom b empty_bloom = b"
  by (auto simp: merge_bloom_def empty_bloom_def intro!: nth_equalityI)

lemma length_empty_bloom [simp]: "length empty_bloom = 256"
  by (simp add: empty_bloom_def)

lemma set_bloom_bit_absorbed:
  "i \<in> set is \<Longrightarrow> set_bloom_bit i (fold set_bloom_bit is b) = fold set_bloom_bit is b"
proof (induction "is" arbitrary: b)
  case (Cons j js)
  have out: "set_bloom_bit i (fold set_bloom_bit js b) = fold set_bloom_bit js (set_bloom_bit i b)" for b
    by (induction js arbitrary: b) (simp_all add: set_bloom_bit_commute)
  show ?case
    using Cons out [of "set_bloom_bit j b"] by (cases "i = j") (simp_all add: set_bloom_bit_idem)
qed simp

lemma logs_bloom_bytes_eq:
  "logs_bloom_bytes lib t = fold set_bloom_bit (log_bits lib (pieces t)) empty_bloom"
proof (induction t)
  case (Split l r)
  have "logs_bloom_bytes lib (Split l r) =
      fold set_bloom_bit (log_bits lib (pieces r))
        (merge_bloom (fold set_bloom_bit (log_bits lib (pieces l)) empty_bloom) empty_bloom)"
    by (simp add: Split.IH fold_bits_merge)
  then show ?case by (simp add: merge_empty_bloom log_bits_def)
qed (simp add: merge_empty_bloom add_logs_bits)

text \<open>
  C31.  The parallel bloom is exact: however the scheduler splits the logs and merges the pieces, the
  result is the bloom of the sequential pass over the logs in order, it has 256 bytes, and it misses
  none of the logs' addresses and topics (adding one again changes nothing).
\<close>

theorem parallel_bloom_exact:
  "logs_bloom_bytes lib t = fold (add_log lib) (pieces t) empty_bloom \<and>
   length (logs_bloom_bytes lib t) = 256 \<and>
   list_all (\<lambda>e. add_to_bloom lib e (logs_bloom_bytes lib t) = logs_bloom_bytes lib t)
     (concat (map (log_entries lib) (pieces t)))"
proof -
  have "add_to_bloom lib e (logs_bloom_bytes lib t) = logs_bloom_bytes lib t"
    if "e \<in> set (concat (map (log_entries lib) (pieces t)))" for e
  proof -
    have "set (entry_bits lib e) \<subseteq> set (log_bits lib (pieces t))" using that by (auto simp: log_bits_def)
    moreover have "set is \<subseteq> set js \<Longrightarrow>
        fold set_bloom_bit is (fold set_bloom_bit js b) = fold set_bloom_bit js b" for "is" js b
      by (induction "is") (simp_all add: set_bloom_bit_absorbed)
    ultimately show ?thesis by (simp add: add_to_bloom_bits logs_bloom_bytes_eq)
  qed
  then show ?thesis by (auto simp: logs_bloom_bytes_eq add_logs_bits list_all_iff)
qed

subsection \<open>Samples\<close>

text \<open>
  A library for concrete inputs: a real hexadecimal decoder and index encoding; the digest is the first
  32 bytes of the padded input and the trie root the digest of its leaves.
\<close>

fun unhex :: "string \<Rightarrow> string + bytes" where
  "unhex [] = Inr []"
| "unhex [c] = Inl ''Odd number of digits''"
| "unhex (c # d # cs) =
     (case (hex_digit c, hex_digit d) of
        (Some a, Some b) \<Rightarrow> bind_result (unhex cs) (\<lambda>bs. Inr (byte (16 * a + b) # bs))
      | _ \<Rightarrow> Inl ''Invalid character'')"

definition sample_lib :: evm_lib where
  "sample_lib =
     \<lparr>hex_decode = unhex,
      hex_encode = concat \<circ> map (\<lambda>b. [hex_char (nat_of_byte b div 16), hex_char (nat_of_byte b mod 16)]),
      keccak256 = (\<lambda>b. take 32 (b @ replicate 32 (byte 0))),
      trie_root = (\<lambda>leaves. take 32 (concat (map snd leaves) @ replicate 32 (byte 0))),
      alloy_rlp_u64 = (\<lambda>n. encode_rlp_uint (unat n)),
      signature_from_bytes = Inr,
      recovery_id_try_from = (\<lambda>n. if n \<le> 3 then Inr n else Inl ''recovery id''),
      recover_from_prehash = (\<lambda>h s r. Inr (byte 4 # h @ s))\<rparr>"

definition sample_tx :: "string \<Rightarrow> rpc_transaction" where
  "sample_tx n =
     \<lparr>tx_block_number = ''0x1'', tx_block_hash = ''0x33'', tx_hash = ''0x11'',
      tx_transaction_index = ''0x0'', tx_chain_id = None, tx_from = ''0x22'', tx_to = None,
      tx_gas = ''0x5208'', tx_gas_price = Some ''0x0a'', tx_input = None, tx_max_fee_per_gas = None,
      tx_max_priority_fee_per_gas = None, tx_nonce = n, tx_v = Some ''0x1b'', tx_r = Some ''0x0b'',
      tx_s = Some ''0x0c'', tx_tx_type = Some ''0x0'', tx_value = Some ''0x0'', tx_y_parity = None,
      tx_access_list = None, tx_max_fee_per_blob_gas = None, tx_blob_versioned_hashes = None,
      tx_authorization_list = None, tx_request_id = None, tx_ticket_id = None, tx_refund_to = None,
      tx_max_refund = None, tx_submission_fee_refund = None, tx_l1_base_fee = None,
      tx_deposit_value = None, tx_retry_to = None, tx_retry_value = None, tx_beneficiary = None,
      tx_max_submission_fee = None, tx_retry_data = None, tx_source_hash = None, tx_mint = None,
      tx_calls = None, tx_nonce_key = None, tx_timeout_timestamp = None, tx_signature = None,
      tx_fee_token = None, tx_fee_payer_signature = None, tx_valid_before = None, tx_valid_after = None,
      tx_aa_authorization_list = None, tx_key_authorization = None, tx_extra = []\<rparr>"

definition sample_header :: "string \<Rightarrow> rpc_transaction list \<Rightarrow> rpc_block" where
  "sample_header parent txs =
     \<lparr>rb_number = ''0x7'', rb_hash = ''0x'', rb_parent_hash = parent,
      rb_difficulty = Some ''0x0'', rb_total_difficulty = None, rb_excess_blob_gas = None,
      rb_extra_data = ''0x'', rb_gas_limit = ''0x'', rb_gas_used = ''0x'', rb_sha3_uncles = ''0x'',
      rb_logs_bloom = ''0x'', rb_transactions_root = ''0x'', rb_receipts_root = ''0x'',
      rb_state_root = ''0x'', rb_miner = ''0x'', rb_mix_hash = Some ''0x'', rb_nonce = Some ''0x'',
      rb_base_fee_per_gas = Some ''0x7'', rb_blob_gas_used = None, rb_parent_beacon_block_root = None,
      rb_size = ''0x'', rb_timestamp = ''0x64'', rb_transactions = txs, rb_uncles = [],
      rb_withdrawals = None, rb_withdrawals_root = None, rb_requests_hash = None,
      rb_l1_block_number = None, rb_main_block_general_gas_limit = None, rb_shared_gas_limit = None,
      rb_timestamp_millis_part = None\<rparr>"

definition sample_leaf :: "nat \<Rightarrow> bytes" where
  "sample_leaf nonce = encode_rlp_items
     [encode_rlp_uint nonce, encode_rlp_uint 10, encode_rlp_uint 21000, encode_rlp_bytes [], encode_rlp_uint 0,
      encode_rlp_bytes [], encode_rlp_uint 27, encode_rlp_bytes [byte 11], encode_rlp_bytes [byte 12]]"

lemmas sample_evm = sample_lib_def sample_tx_def sample_header_def

lemma sample_qty [simp]:
  "parse_qty_u128 ''0x0'' = 0" "parse_qty_u128 ''0x1'' = 1" "parse_qty_u128 ''0x01'' = 1"
  "parse_qty_u128 ''0x0a'' = 10" "parse_qty_u128 ''0x5208'' = 21000" "parse_qty_u128 ''0x1b'' = 27"
  "parse_qty_u128 ''0x7'' = 7" "parse_qty_u128 ''0x64'' = 100" "parse_qty_u128 ''0x'' = 0"
  by (simp_all add: parse_qty_u128_def from_str_radix16_def strip_0x_def unsigned_digits_def hex_digit_def Let_def)

lemma sample_decode [simp]:
  "decode_hex sample_lib ''0x'' = Inr []" "decode_hex sample_lib ''0xab'' = Inr [byte 171]"
  "decode_hex sample_lib ''0xAB'' = Inr [byte 171]"
  "decode_hex_big_int sample_lib ''0x0b'' = Inr [byte 11]" "decode_hex_big_int sample_lib ''0x0c'' = Inr [byte 12]"
  by (simp_all add: decode_hex_def decode_hex_big_int_def sample_lib_def strip_0x_def hex_digit_def Let_def
      minimal_from_def)

lemma sample_transaction:
  "encode_transaction sample_lib (sample_tx n) = Inr (sample_leaf (parse_qty_u128 n))"
  by (simp add: encode_transaction_def encode_legacy_tx_def sample_tx_def or_else_def required_def
      optional_hex_def uint_item_def bytes_item_def encode_rlp_big_uint_def sample_leaf_def)

lemma length_encode_rlp_length: "n < 2 ^ 64 \<Longrightarrow> length (encode_rlp_length n k) \<le> 9"
  using encode_uint_bytes_value(3) [of n] by (cases "n = 0") (simp_all add: encode_rlp_length_def Let_def)

lemma length_encode_rlp_items_le:
  "length (concat xs) < 2 ^ 60 \<Longrightarrow> length (encode_rlp_items xs) < 2 ^ 64"
  using length_encode_rlp_length [of "length (concat xs)" 192] by (simp add: encode_rlp_items_def)

lemma sample_leaf_length: "n < 2 ^ 128 \<Longrightarrow> length (sample_leaf n) < 2 ^ 64"
  using length_encode_rlp_uint [of n] length_encode_rlp_uint [of 10] length_encode_rlp_uint [of 21000]
    length_encode_rlp_uint [of 27] length_encode_rlp_uint [of 0]
  unfolding sample_leaf_def
  by (intro length_encode_rlp_items_le) (simp add: encode_rlp_bytes_def encode_rlp_length_def)

theorem leaf_commits_to_transaction_witness:
  "encode_transaction sample_lib (sample_tx ''0x1'') = Inr (sample_leaf 1) \<and>
   encode_transaction sample_lib (sample_tx ''0x01'') = Inr (sample_leaf 1) \<and>
   length (sample_leaf 1) < 2 ^ 64 \<and>
   tx_type_number (sample_tx ''0x1'') = Some 0 \<and>
   legacy_fields sample_lib (sample_tx ''0x1'') = legacy_fields sample_lib (sample_tx ''0x01'')"
proof -
  have enc: "encode_transaction sample_lib (sample_tx ''0x1'') = Inr (sample_leaf 1)"
    "encode_transaction sample_lib (sample_tx ''0x01'') = Inr (sample_leaf 1)"
    by (simp_all add: sample_transaction)
  have len: "length (sample_leaf 1) < 2 ^ 64" by (rule sample_leaf_length) simp
  have ty: "tx_type_number (sample_tx ''0x1'') = Some 0"
    by (simp add: tx_type_number_def sample_tx_def or_else_def type_numbers)
  show ?thesis using leaf_commits_to_transaction [OF enc len] enc len ty by blast
qed

subsection \<open>Header preimage\<close>

lemma ethereum_header_kinds:
  assumes "ethereum_header_fields lib b = Inr fs"
  shows "list_all field_form fs" "take 15 (map field_kind fs) = [0, 0, 0, 0, 0, 0, 0, 1, 1, 1, 1, 1, 0, 0, 0]"
  using assms unfolding ethereum_header_fields_def collect_Inr
  by (auto simp: Cons_eq_map_conv append_eq_map_conv map_eq_append_conv field_items bind_result_Inr
      parse_qty_u128_bound [simplified] split: option.splits)

lemma ethereum_header_core:
  assumes "ethereum_header_fields lib b = Inr fs"
  shows "decode_hex lib (rb_parent_hash b) = (case fs ! 0 of RlpBytes x \<Rightarrow> Inr x)"
    "decode_hex lib (rb_state_root b) = (case fs ! 3 of RlpBytes x \<Rightarrow> Inr x)"
    "decode_hex lib (rb_transactions_root b) = (case fs ! 4 of RlpBytes x \<Rightarrow> Inr x)"
    "decode_hex lib (rb_receipts_root b) = (case fs ! 5 of RlpBytes x \<Rightarrow> Inr x)"
    "decode_hex lib (rb_logs_bloom b) = (case fs ! 6 of RlpBytes x \<Rightarrow> Inr x)"
    "parse_qty_u128 (rb_number b) = (case fs ! 8 of RlpUint n \<Rightarrow> n)"
    "parse_qty_u128 (rb_timestamp b) = (case fs ! 11 of RlpUint n \<Rightarrow> n)"
  using assms unfolding ethereum_header_fields_def collect_Inr
  by (auto simp: Cons_eq_map_conv append_eq_map_conv map_eq_append_conv field_items bind_result_Inr)

text \<open>
  C29.  The hash of a header binds the header: when the digest has no collision between the two
  preimages, blocks with the same hash agree on parent hash, number, timestamp, the three roots and the
  bloom, and carry the same number of header fields, whatever the spelling of their hex strings.
\<close>

theorem block_hash_binds_header:
  assumes "ethereum_header_fields lib b = Inr fs" "ethereum_header_fields lib b' = Inr gs"
    and "block_hash lib b = block_hash lib b'"
    and no_collision: "hex_encode lib (keccak256 lib (rlp_encode_list fs)) =
      hex_encode lib (keccak256 lib (rlp_encode_list gs)) \<longrightarrow> rlp_encode_list fs = rlp_encode_list gs"
    and "length (rlp_encode_list fs) < 2 ^ 64"
  shows "decode_hex lib (rb_parent_hash b) = decode_hex lib (rb_parent_hash b') \<and>
    parse_qty_u128 (rb_number b) = parse_qty_u128 (rb_number b') \<and>
    parse_qty_u128 (rb_timestamp b) = parse_qty_u128 (rb_timestamp b') \<and>
    decode_hex lib (rb_state_root b) = decode_hex lib (rb_state_root b') \<and>
    decode_hex lib (rb_transactions_root b) = decode_hex lib (rb_transactions_root b') \<and>
    decode_hex lib (rb_receipts_root b) = decode_hex lib (rb_receipts_root b') \<and>
    decode_hex lib (rb_logs_bloom b) = decode_hex lib (rb_logs_bloom b') \<and>
    length fs = length gs"
proof -
  have "rlp_encode_list fs = rlp_encode_list gs"
    using assms(3) no_collision by (simp add: block_hash_def assms(1,2) hash_block_header_fields_def)
  from rlp_encode_list_prefix_unique [OF this assms(5) ethereum_header_kinds(1) [OF assms(1)]
      ethereum_header_kinds(1) [OF assms(2)], of 15]
  have eq: "length fs = length gs" "take 15 fs = take 15 gs"
    using ethereum_header_kinds(2) [OF assms(1)] ethereum_header_kinds(2) [OF assms(2)] by simp_all
  have "fs ! i = gs ! i" if "i < 15" for i using eq that by (metis nth_take)
  then show ?thesis
    using eq(1) by (simp add: ethereum_header_core [OF assms(1)] ethereum_header_core [OF assms(2)])
qed

definition sample_header_fields :: "rlp_field list" where
  "sample_header_fields =
     [RlpBytes [byte 171], RlpBytes [], RlpBytes [], RlpBytes [], RlpBytes [], RlpBytes [], RlpBytes [],
      RlpUint 0, RlpUint 7, RlpUint 0, RlpUint 0, RlpUint 100, RlpBytes [], RlpBytes [], RlpBytes [], RlpUint 7]"

lemma sample_header_eq:
  "ethereum_header_fields sample_lib (sample_header ''0xab'' []) = Inr sample_header_fields"
  "ethereum_header_fields sample_lib (sample_header ''0xAB'' []) = Inr sample_header_fields"
  by (simp_all add: ethereum_header_fields_def sample_header_def field_items required_def sample_header_fields_def)

theorem block_hash_binds_header_witness:
  "parse_qty_u128 (rb_number (sample_header ''0xab'' [])) = parse_qty_u128 (rb_number (sample_header ''0xAB'' [])) \<and>
   decode_hex sample_lib (rb_parent_hash (sample_header ''0xab'' [])) =
     decode_hex sample_lib (rb_parent_hash (sample_header ''0xAB'' []))"
proof -
  have same: "block_hash sample_lib (sample_header ''0xab'' []) = block_hash sample_lib (sample_header ''0xAB'' [])"
    by (simp add: block_hash_def sample_header_eq)
  have len: "length (rlp_encode_list sample_header_fields) < 2 ^ 64"
    using length_encode_rlp_uint [of 0] length_encode_rlp_uint [of 7] length_encode_rlp_uint [of 100]
    unfolding rlp_encode_list_items
    by (intro length_encode_rlp_items_le)
       (simp add: sample_header_fields_def encode_rlp_bytes_def encode_rlp_length_def)
  show ?thesis using block_hash_binds_header [OF sample_header_eq same impI len] by blast
qed

subsection \<open>Leaves of a trie\<close>

definition leaf_key :: "bytes \<times> bytes \<Rightarrow> nat list" where
  "leaf_key = (\<lambda>(k, v). map nat_of_byte k)"

lemma root_of_eq: "root_of lib leaves = to_hex lib (trie_root lib (sort_key leaf_key leaves))"
  by (simp add: root_of_def to_hex_def leaf_key_def)

definition leaf_of ::
    "evm_lib \<Rightarrow> ('a \<Rightarrow> string + bytes) \<Rightarrow> ('a \<Rightarrow> nat \<Rightarrow> string) \<Rightarrow> nat \<Rightarrow> 'a \<Rightarrow> string + (bytes \<times> bytes)" where
  "leaf_of lib enc label idx x =
     (case enc x of Inl e \<Rightarrow> Inl (label x idx @ '': '' @ e) | Inr v \<Rightarrow> Inr (rlp_index lib idx, v))"

lemma leaf_of_cases:
  "leaf_of lib enc label i x = Inr kv \<longleftrightarrow> (\<exists>v. enc x = Inr v \<and> kv = (rlp_index lib i, v))"
  "leaf_of lib enc label i x = Inl e \<longleftrightarrow> (\<exists>e'. enc x = Inl e' \<and> e = label x i @ '': '' @ e')"
  by (auto simp: leaf_of_def split: sum.splits)

lemma indexed_leaves_eq:
  "indexed_leaves lib enc label xs = collect (map (\<lambda>i. leaf_of lib enc label i (xs ! i)) [0 ..< length xs])"
  unfolding indexed_leaves_def leaf_of_def
  by (intro arg_cong [where f = collect] nth_equalityI) (simp_all add: nth_enumerate_eq cong: sum.case_cong)

lemma collect_Inl: "collect rs = Inl e \<longleftrightarrow> (\<exists>ys zs. rs = map Inr ys @ Inl e # zs)"
proof (induction rs)
  case (Cons r rs)
  show ?case
  proof (cases r)
    case (Inr b)
    then have "collect (r # rs) = Inl e \<longleftrightarrow> collect rs = Inl e" by (cases "collect rs") auto
    also have "\<dots> \<longleftrightarrow> (\<exists>ys zs. r # rs = map Inr ys @ Inl e # zs)"
      unfolding Cons.IH using Inr by (auto simp: Cons_eq_append_conv Cons_eq_map_conv)
    finally show ?thesis .
  qed (auto simp: Cons_eq_append_conv Cons_eq_map_conv)
qed simp

lemma indexed_leaves_Inl:
  assumes "indexed_leaves lib enc label xs = Inl e"
  shows "\<exists>i < length xs. (\<exists>e'. enc (xs ! i) = Inl e' \<and> e = label (xs ! i) i @ '': '' @ e') \<and>
           list_all (\<lambda>x. \<not> isl (enc x)) (take i xs)"
proof -
  obtain ys zs where eq: "map (\<lambda>i. leaf_of lib enc label i (xs ! i)) [0 ..< length xs] = map Inr ys @ Inl e # zs"
    using assms unfolding indexed_leaves_eq collect_Inl by blast
  let ?i = "length ys"
  have len: "?i < length xs" using arg_cong [OF eq, of length] by simp
  have at: "leaf_of lib enc label j (xs ! j) = (map Inr ys @ Inl e # zs) ! j" if "j < length xs" for j
    using that by (simp add: eq [symmetric])
  have "\<not> isl (enc (xs ! j))" if "j < ?i" for j
    using at [of j] that len by (auto simp: nth_append leaf_of_cases)
  then have "list_all (\<lambda>x. \<not> isl (enc x)) (take ?i xs)" by (auto simp: list_all_iff in_set_conv_nth)
  moreover have "leaf_of lib enc label ?i (xs ! ?i) = Inl e" using at [OF len] by (simp add: nth_append)
  ultimately show ?thesis using len unfolding leaf_of_cases by blast
qed

lemma sorted_distinct_leaves:
  assumes "distinct (map fst leaves)"
  shows "sorted_wrt (\<lambda>a b. leaf_key a < leaf_key b) (sort_key leaf_key leaves)"
proof -
  have keys: "map leaf_key leaves = map (map nat_of_byte) (map fst leaves)"
    by (simp add: leaf_key_def split_def)
  have "distinct (map leaf_key leaves)"
    unfolding keys using assms inj_of_char by (subst distinct_map) (auto intro!: inj_onI dest: inj_map_eq_map [THEN iffD1, rotated])
  then have "distinct (map leaf_key (sort_key leaf_key leaves))"
    by (metis distinct_map mset_eq_imp_distinct_iff mset_map mset_sort)
  then have "sorted_wrt (<) (map leaf_key (sort_key leaf_key leaves))"
    by (simp add: strict_sorted_iff)
  then show ?thesis by (simp add: sorted_wrt_map)
qed

lemma indexed_leaves_Inr:
  assumes "indexed_leaves lib enc label xs = Inr leaves"
    and inj: "inj_on (rlp_index lib) {..< length xs}"
  shows "map fst leaves = map (rlp_index lib) [0 ..< length xs]"
    "map (Inr \<circ> snd) leaves = map enc xs" "distinct (map fst leaves)"
proof -
  have eq: "map (\<lambda>i. leaf_of lib enc label i (xs ! i)) [0 ..< length xs] = map Inr leaves"
    using assms(1) unfolding indexed_leaves_eq collect_Inr .
  have len: "length leaves = length xs" using arg_cong [OF eq, of length] by simp
  have at: "leaf_of lib enc label i (xs ! i) = Inr (leaves ! i)" if "i < length xs" for i
    using arg_cong [OF eq, of "\<lambda>l. l ! i"] that len by simp
  have parts: "fst (leaves ! i) = rlp_index lib i" "enc (xs ! i) = Inr (snd (leaves ! i))" if "i < length xs" for i
    using at [OF that] by (auto simp: leaf_of_cases)
  show keys: "map fst leaves = map (rlp_index lib) [0 ..< length xs]"
    by (rule nth_equalityI) (simp_all add: len parts)
  show "map (Inr \<circ> snd) leaves = map enc xs"
    by (rule nth_equalityI) (simp_all add: len parts)
  show "distinct (map fst leaves)" unfolding keys using inj by (simp add: distinct_map lessThan_atLeast0)
qed

text \<open>
  The trie builder gets its leaves in strictly ascending key order, one per transaction, under the
  RLP of the transaction's index: the order the builder asks for, although the keys of consecutive
  indexes are not ascending.  A transaction that does not encode yields no root at all but an error that
  names the first such transaction.
\<close>

theorem transactions_root_leaves:
  assumes "inj_on (rlp_index lib) {..< length txs}"
  shows "case transactions_root lib txs of
      Inr root \<Rightarrow> \<exists>leaves. root = to_hex lib (trie_root lib leaves) \<and>
        sorted_wrt (\<lambda>a b. leaf_key a < leaf_key b) leaves \<and>
        (\<exists>vs. map (encode_transaction lib) txs = map Inr vs \<and>
           mset leaves = mset (zip (map (rlp_index lib) [0 ..< length txs]) vs))
    | Inl e \<Rightarrow> \<exists>i < length txs. \<exists>e'. encode_transaction lib (txs ! i) = Inl e' \<and>
        e = ''transaction '' @ tx_hash (txs ! i) @ '' ('' @ decimal i @ ''): '' @ e' \<and>
        list_all (\<lambda>tx. \<not> isl (encode_transaction lib tx)) (take i txs)"
proof (cases "indexed_leaves lib (encode_transaction lib)
    (\<lambda>tx idx. ''transaction '' @ tx_hash tx @ '' ('' @ decimal idx @ '')'') txs")
  case (Inl e)
  then have "transactions_root lib txs = Inl e" unfolding transactions_root_def by (simp only: bind_result.simps)
  with indexed_leaves_Inl [OF Inl] show ?thesis by auto
next
  case (Inr leaves)
  note facts = indexed_leaves_Inr [OF Inr assms]
  have "leaves = zip (map fst leaves) (map snd leaves)" by (simp add: zip_map_fst_snd)
  then have perm: "mset (sort_key leaf_key leaves) =
      mset (zip (map (rlp_index lib) [0 ..< length txs]) (map snd leaves))" using facts(1) by simp
  have root: "transactions_root lib txs = Inr (to_hex lib (trie_root lib (sort_key leaf_key leaves)))"
    unfolding transactions_root_def Inr bind_result.simps root_of_eq ..
  have enc: "map (encode_transaction lib) txs = map Inr (map snd leaves)" using facts(2) by simp
  show ?thesis unfolding root sum.case using sorted_distinct_leaves [OF facts(3)] perm enc by blast
qed

theorem transactions_root_leaves_witness:
  "\<exists>leaves. transactions_root sample_lib [sample_tx ''0x0'', sample_tx ''0x1''] =
       Inr (to_hex sample_lib (trie_root sample_lib leaves)) \<and>
     sorted_wrt (\<lambda>a b. leaf_key a < leaf_key b) leaves \<and>
     mset leaves = {#(rlp_index sample_lib 0, sample_leaf 0), (rlp_index sample_lib 1, sample_leaf 1)#}"
proof -
  let ?txs = "[sample_tx ''0x0'', sample_tx ''0x1'']"
  have index: "rlp_index sample_lib i = encode_rlp_uint i" if "i < 2" for i
    using that by (simp add: rlp_index_def sample_lib_def unat_of_nat)
  have "inj_on (rlp_index sample_lib) {..< length ?txs}"
    by (auto simp: inj_on_def index encode_rlp_uint_inject less_Suc_eq)
  from transactions_root_leaves [OF this]
  show ?thesis
    by (cases "transactions_root sample_lib ?txs")
       (auto simp: sample_transaction Cons_eq_map_conv less_Suc_eq nth_Cons' add_mset_commute)
qed

end
