(* ===== verification/Evm_Normalize.thy ===== *)
theory Evm_Normalize
  imports Evm_Data
begin

text \<open>
  Normalisation of a raw block (\<open>evm-source/src/normalization.rs\<close>): headers, transactions with their
  receipts, logs, traces from debug frames or from \<open>trace_*\<close> replays, and state diffs.  The output
  structures carry a short prefix in front of the names of the source.  The floating point parser of
  the standard library is the argument \<open>parse_f64\<close> (its result is kept as a bit pattern).
\<close>

type_synonym f64_bits = u64

subsection \<open>Output structures\<close>

record normalized_withdrawal =
  nw_index :: string
  nw_validator_index :: string
  nw_address :: string
  nw_amount :: string

record normalized_header =
  nh_number :: u64
  nh_hash :: string
  nh_parent_hash :: string
  nh_timestamp :: u64
  nh_transactions_root :: string
  nh_receipts_root :: string
  nh_state_root :: string
  nh_logs_bloom :: string
  nh_sha3_uncles :: string
  nh_extra_data :: string
  nh_miner :: string
  nh_nonce :: "string option"
  nh_mix_hash :: "string option"
  nh_size :: u64
  nh_gas_limit :: string
  nh_gas_used :: string
  nh_difficulty :: "string option"
  nh_total_difficulty :: "string option"
  nh_base_fee_per_gas :: "string option"
  nh_uncles :: "string list option"
  nh_withdrawals :: "normalized_withdrawal list option"
  nh_withdrawals_root :: "string option"
  nh_blob_gas_used :: "string option"
  nh_excess_blob_gas :: "string option"
  nh_parent_beacon_block_root :: "string option"
  nh_requests_hash :: "string option"
  nh_l1_block_number :: "u64 option"
  nh_main_block_general_gas_limit :: "string option"
  nh_shared_gas_limit :: "string option"
  nh_timestamp_millis_part :: "string option"

record normalized_access_list_item =
  nal_address :: string
  nal_storage_keys :: "string list"

record normalized_eip7702_authorization =
  nau_chain_id :: string
  nau_address :: string
  nau_nonce :: string
  nau_y_parity :: u64
  nau_r :: string
  nau_s :: string

record normalized_tempo_call =
  ntc_to :: "string option"
  ntc_value :: string
  ntc_input :: string

datatype normalized_tempo_primitive_sig =
    NSecp256k1 string string "u64 option" "u64 option"
  | NP256 string string string string bool
  | NWebAuthn string string string string string

record normalized_tempo_keychain_sig =
  ntk_user_address :: string
  ntk_signature :: normalized_tempo_primitive_sig
  ntk_version :: "string option"

datatype normalized_tempo_sig =
    NKeychain normalized_tempo_keychain_sig
  | NPrimitive normalized_tempo_primitive_sig

record normalized_tempo_signed_auth =
  nts_chain_id :: string
  nts_address :: string
  nts_nonce :: u64
  nts_signature :: normalized_tempo_sig

record normalized_tempo_token_limit =
  ntl_token :: string
  ntl_limit :: string

record normalized_tempo_key_auth =
  nka_chain_id :: string
  nka_key_type :: string
  nka_key_id :: string
  nka_expiry :: "string option"
  nka_limits :: "normalized_tempo_token_limit list option"
  nka_signature :: normalized_tempo_primitive_sig

record normalized_fee_payer_sig =
  nfp_v :: u64
  nfp_r :: string
  nfp_s :: string

record normalized_transaction =
  ntx_transaction_index :: u64
  ntx_hash :: string
  ntx_nonce :: u64
  ntx_from :: string
  ntx_to :: "string option"
  ntx_input :: "string option"
  ntx_value :: "string option"
  ntx_tx_type :: "u64 option"
  ntx_gas :: string
  ntx_gas_price :: "string option"
  ntx_max_fee_per_gas :: "string option"
  ntx_max_priority_fee_per_gas :: "string option"
  ntx_v :: "string option"
  ntx_r :: "string option"
  ntx_s :: "string option"
  ntx_y_parity :: "u64 option"
  ntx_access_list :: "normalized_access_list_item list option"
  ntx_chain_id :: "u64 option"
  ntx_max_fee_per_blob_gas :: "string option"
  ntx_blob_versioned_hashes :: "string list option"
  ntx_authorization_list :: "normalized_eip7702_authorization list option"
  ntx_calls :: "normalized_tempo_call list option"
  ntx_nonce_key :: "string option"
  ntx_signature :: "normalized_tempo_sig option"
  ntx_fee_token :: "string option"
  ntx_fee_payer_signature :: "normalized_fee_payer_sig option"
  ntx_valid_before :: "string option"
  ntx_valid_after :: "string option"
  ntx_aa_authorization_list :: "normalized_tempo_signed_auth list option"
  ntx_key_authorization :: "normalized_tempo_key_auth option"
  ntx_contract_address :: "string option"
  ntx_cumulative_gas_used :: "string option"
  ntx_effective_gas_price :: "string option"
  ntx_gas_used :: "string option"
  ntx_logs_bloom :: "string option"
  ntx_status :: "u64 option"
  ntx_blob_gas_used :: "string option"
  ntx_blob_gas_price :: "string option"
  ntx_l1_base_fee_scalar :: "u64 option"
  ntx_l1_blob_base_fee :: "string option"
  ntx_l1_blob_base_fee_scalar :: "u64 option"
  ntx_l1_fee :: "string option"
  ntx_l1_fee_scalar :: "f64_bits option"
  ntx_l1_gas_price :: "string option"
  ntx_l1_gas_used :: "string option"

record normalized_log =
  nl_log_index :: u64
  nl_transaction_index :: u64
  nl_transaction_hash :: string
  nl_address :: string
  nl_data :: string
  nl_topics :: "string list"

record normalized_trace_create_action =
  nca_from :: string
  nca_value :: "string option"
  nca_gas :: string
  nca_init :: string
  nca_creation_method :: "string option"

record normalized_trace_call_action =
  nla_from :: string
  nla_to :: string
  nla_value :: "string option"
  nla_gas :: string
  nla_input :: string
  nla_call_type :: string

record normalized_debug_trace_call_action =
  nda_call_type :: string
  nda_from :: string
  nda_to :: string
  nda_value :: "string option"
  nda_gas :: string
  nda_input :: string

record normalized_trace_reward_action =
  nra_author :: string
  nra_value :: string
  nra_reward_type :: string

record normalized_trace_selfdestruct_action =
  nsa_address :: string
  nsa_refund_address :: string
  nsa_balance :: "string option"

datatype normalized_trace_action =
    NCreate normalized_trace_create_action
  | NCall normalized_trace_call_action
  | NReward normalized_trace_reward_action
  | NSelfdestruct normalized_trace_selfdestruct_action

datatype normalized_debug_trace_action =
    DCreate normalized_trace_create_action
  | DCall normalized_debug_trace_call_action
  | DReward normalized_trace_reward_action
  | DSelfdestruct normalized_trace_selfdestruct_action

record normalized_trace_create_result =
  ncr_gas_used :: string
  ncr_code :: "string option"
  ncr_address :: "string option"

record normalized_trace_call_result =
  nlr_gas_used :: "string option"
  nlr_output :: "string option"

datatype normalized_trace_result =
    NCreateResult normalized_trace_create_result
  | NCallResult normalized_trace_call_result

record normalized_trace_api =
  nta_transaction_index :: u64
  nta_trace_address :: "u64 list"
  nta_trace_type :: string
  nta_subtraces :: u64
  nta_error :: "string option"
  nta_revert_reason :: "string option"
  nta_action :: normalized_trace_action
  nta_result :: "normalized_trace_result option"

record normalized_debug_trace =
  ndt_transaction_index :: u64
  ndt_trace_address :: "u64 list"
  ndt_subtraces :: u64
  ndt_error :: "string option"
  ndt_revert_reason :: "string option"
  ndt_trace_type :: string
  ndt_action :: normalized_debug_trace_action
  ndt_result :: "normalized_trace_result option"

datatype normalized_trace = TraceApi normalized_trace_api | DebugTrace normalized_debug_trace

record normalized_state_diff =
  nsd_transaction_index :: u64
  nsd_address :: string
  nsd_key :: string
  nsd_kind :: string
  nsd_prev :: "string option"
  nsd_next :: "string option"

record normalized_block =
  nb_header :: normalized_header
  nb_transactions :: "normalized_transaction list"
  nb_logs :: "normalized_log list"
  nb_traces :: "normalized_trace list option"
  nb_state_diffs :: "normalized_state_diff list option"

subsection \<open>Transactions and logs\<close>

definition map_access_list_item :: "access_list_item \<Rightarrow> normalized_access_list_item" where
  "map_access_list_item src = \<lparr>nal_address = al_address src, nal_storage_keys = al_storage_keys src\<rparr>"

definition parse_qty_u128_str :: "string \<Rightarrow> nat" where
  "parse_qty_u128_str s = (case from_str_radix16 128 (strip_0x s) of Some v \<Rightarrow> v | None \<Rightarrow> 0)"

fun map_eip7702_auth :: "eip7702_authorization_item \<Rightarrow> normalized_eip7702_authorization" where
  "map_eip7702_auth (FrontierAuth a) =
     \<lparr>nau_chain_id = to_qty (fauth_chain_id a), nau_address = fauth_address a,
      nau_nonce = decimal (parse_qty_u128_str (fauth_nonce a)),
      nau_y_parity = (if fsig_odd_y_parity (fauth_signature a) then 1 else 0),
      nau_r = fsig_r (fauth_signature a), nau_s = fsig_s (fauth_signature a)\<rparr>"
| "map_eip7702_auth (StandardAuth a) =
     \<lparr>nau_chain_id = auth_chain_id a, nau_address = auth_address a,
      nau_nonce = decimal (parse_qty_u128_str (auth_nonce a)),
      nau_y_parity = qty2_u64 (auth_y_parity a), nau_r = auth_r a, nau_s = auth_s a\<rparr>"

fun map_tempo_primitive_sig :: "tempo_primitive_signature \<Rightarrow> normalized_tempo_primitive_sig" where
  "map_tempo_primitive_sig (Secp256k1 r s y v) =
     NSecp256k1 r s (map_option qty2_u64 y) (map_option qty2_u64 v)"
| "map_tempo_primitive_sig (P256 r s x y h) = NP256 r s x y h"
| "map_tempo_primitive_sig (WebAuthn r s x y d) = NWebAuthn r s x y d"

fun map_tempo_sig :: "tempo_signature_object \<Rightarrow> normalized_tempo_sig" where
  "map_tempo_sig (KeychainSig k) =
     NKeychain \<lparr>ntk_user_address = to_lowercase (tks_user_address k),
                ntk_signature = map_tempo_primitive_sig (tks_signature k), ntk_version = tks_version k\<rparr>"
| "map_tempo_sig (PrimitiveSig p) = NPrimitive (map_tempo_primitive_sig p)"

definition map_tempo_call :: "tempo_call \<Rightarrow> normalized_tempo_call" where
  "map_tempo_call c =
     \<lparr>ntc_to = map_option to_lowercase (tcall_to c), ntc_value = tcall_value c, ntc_input = tcall_input c\<rparr>"

definition map_fee_payer_sig :: "fee_payer_signature \<Rightarrow> normalized_fee_payer_sig" where
  "map_fee_payer_sig fp = \<lparr>nfp_v = qty2_u64 (fps_v fp), nfp_r = fps_r fp, nfp_s = fps_s fp\<rparr>"

definition map_tempo_signed_auth :: "tempo_signed_authorization \<Rightarrow> normalized_tempo_signed_auth" where
  "map_tempo_signed_auth a =
     \<lparr>nts_chain_id = tsa_chain_id a, nts_address = to_lowercase (tsa_address a),
      nts_nonce = qty2_u64 (tsa_nonce a), nts_signature = map_tempo_sig (tsa_signature a)\<rparr>"

definition map_tempo_key_auth :: "tempo_signed_key_authorization \<Rightarrow> normalized_tempo_key_auth" where
  "map_tempo_key_auth ka =
     \<lparr>nka_chain_id = tka_chain_id ka, nka_key_type = tka_key_type ka,
      nka_key_id = to_lowercase (tka_key_id ka), nka_expiry = tka_expiry ka,
      nka_limits = map_option
        (map (\<lambda>l. \<lparr>ntl_token = to_lowercase (ttl_token l), ntl_limit = ttl_limit l\<rparr>)) (tka_limits ka),
      nka_signature = map_tempo_primitive_sig (tka_signature ka)\<rparr>"

definition map_transaction ::
    "(string \<Rightarrow> f64_bits option) \<Rightarrow> rpc_transaction \<Rightarrow> rpc_receipt option \<Rightarrow> normalized_transaction" where
  "map_transaction parse_f64 src receipt =
     \<lparr>ntx_transaction_index = qty2_u64 (tx_transaction_index src),
      ntx_hash = tx_hash src,
      ntx_nonce = qty2_u64 (tx_nonce src),
      ntx_from = to_lowercase (tx_from src),
      ntx_to = map_option to_lowercase (tx_to src),
      ntx_input = tx_input src,
      ntx_value = tx_value src,
      ntx_tx_type = map_option qty2_u64 (tx_tx_type src),
      ntx_gas = tx_gas src,
      ntx_gas_price = tx_gas_price src,
      ntx_max_fee_per_gas = tx_max_fee_per_gas src,
      ntx_max_priority_fee_per_gas = tx_max_priority_fee_per_gas src,
      ntx_v = tx_v src,
      ntx_r = tx_r src,
      ntx_s = tx_s src,
      ntx_y_parity = map_option qty2_u64 (tx_y_parity src),
      ntx_access_list = map_option (map map_access_list_item) (tx_access_list src),
      ntx_chain_id = Option.bind (tx_chain_id src) safe_qty2_u64,
      ntx_max_fee_per_blob_gas = tx_max_fee_per_blob_gas src,
      ntx_blob_versioned_hashes = tx_blob_versioned_hashes src,
      ntx_authorization_list = map_option (map map_eip7702_auth) (tx_authorization_list src),
      ntx_calls = map_option (map map_tempo_call) (tx_calls src),
      ntx_nonce_key = tx_nonce_key src,
      ntx_signature = map_option map_tempo_sig (tx_signature src),
      ntx_fee_token = map_option to_lowercase (tx_fee_token src),
      ntx_fee_payer_signature = map_option map_fee_payer_sig (tx_fee_payer_signature src),
      ntx_valid_before = tx_valid_before src,
      ntx_valid_after = tx_valid_after src,
      ntx_aa_authorization_list = map_option (map map_tempo_signed_auth) (tx_aa_authorization_list src),
      ntx_key_authorization = map_option map_tempo_key_auth (tx_key_authorization src),
      ntx_contract_address = map_option to_lowercase (Option.bind receipt rc_contract_address),
      ntx_cumulative_gas_used = map_option rc_cumulative_gas_used receipt,
      ntx_effective_gas_price = Option.bind receipt rc_effective_gas_price,
      ntx_gas_used = map_option rc_gas_used receipt,
      ntx_logs_bloom = map_option rc_logs_bloom receipt,
      ntx_status = map_option qty2_u64 (Option.bind receipt rc_status),
      ntx_blob_gas_used = Option.bind receipt rc_blob_gas_used,
      ntx_blob_gas_price = Option.bind receipt rc_blob_gas_price,
      ntx_l1_base_fee_scalar = map_option qty2_u64 (Option.bind receipt rc_l1_base_fee_scalar),
      ntx_l1_blob_base_fee = Option.bind receipt rc_l1_blob_base_fee,
      ntx_l1_blob_base_fee_scalar = map_option qty2_u64 (Option.bind receipt rc_l1_blob_base_fee_scalar),
      ntx_l1_fee = Option.bind receipt rc_l1_fee,
      ntx_l1_fee_scalar = Option.bind (Option.bind receipt rc_l1_fee_scalar) parse_f64,
      ntx_l1_gas_price = Option.bind receipt rc_l1_gas_price,
      ntx_l1_gas_used = Option.bind receipt rc_l1_gas_used\<rparr>"

definition map_log :: "rpc_log \<Rightarrow> normalized_log" where
  "map_log src =
     \<lparr>nl_log_index = qty2_u64 (log_log_index src), nl_transaction_index = qty2_u64 (log_transaction_index src),
      nl_transaction_hash = log_transaction_hash src, nl_address = to_lowercase (log_address src),
      nl_data = log_data src, nl_topics = log_topics src\<rparr>"

subsection \<open>Traces of the trace API\<close>

fun map_trace_action :: "trace_action \<Rightarrow> normalized_trace_action" where
  "map_trace_action (CreateAction c) =
     NCreate \<lparr>nca_from = to_lowercase (tac_from c), nca_value = Some (tac_value c), nca_gas = tac_gas c,
              nca_init = tac_init c, nca_creation_method = tac_creation_method c\<rparr>"
| "map_trace_action (CallAction c) =
     NCall \<lparr>nla_from = to_lowercase (tal_from c), nla_to = to_lowercase (tal_to c),
            nla_value = Some (tal_value c), nla_gas = tal_gas c, nla_input = tal_input c,
            nla_call_type = tal_call_type c\<rparr>"
| "map_trace_action (RewardAction r) =
     NReward \<lparr>nra_author = to_lowercase (tar_author r), nra_value = tar_value r,
              nra_reward_type = tar_reward_type r\<rparr>"
| "map_trace_action (SelfdestructAction s) =
     NSelfdestruct \<lparr>nsa_address = to_lowercase (tas_address s),
                    nsa_refund_address = to_lowercase (tas_refund_address s),
                    nsa_balance = Some (tas_balance s)\<rparr>"

fun map_trace_result :: "trace_result option \<Rightarrow> normalized_trace_result option" where
  "map_trace_result None = None"
| "map_trace_result (Some (CallResult c)) =
     Some (NCallResult \<lparr>nlr_gas_used = Some (trl_gas_used c), nlr_output = Some (trl_output c)\<rparr>)"
| "map_trace_result (Some (CreateResult c)) =
     Some (NCreateResult \<lparr>ncr_gas_used = trc_gas_used c, ncr_code = Some (trc_code c),
                          ncr_address = Some (to_lowercase (trc_address c))\<rparr>)"

text \<open>Pairs of digits up to the first one that is not; a lone last digit is dropped.\<close>

fun decode_hex_node_style :: "string \<Rightarrow> bytes" where
  "decode_hex_node_style (a # b # rest) =
     (case (hex_digit a, hex_digit b) of
        (Some hi, Some lo) \<Rightarrow> char_of (16 * hi + lo) # decode_hex_node_style rest
      | _ \<Rightarrow> [])"
| "decode_hex_node_style s = []"

text \<open>
  \<open>String::from_utf8_lossy\<close>: maximal prefixes of ill-formed sequences become U+FFFD.  \<open>utf8_unit\<close> is how
  many bytes the next unit takes and whether it is well formed.
\<close>

definition byte_in :: "nat \<Rightarrow> nat \<Rightarrow> string \<Rightarrow> nat \<Rightarrow> bool" where
  "byte_in lo hi s i \<longleftrightarrow> i < length s \<and> lo \<le> of_char (s ! i) \<and> of_char (s ! i) \<le> hi"

fun utf8_unit :: "string \<Rightarrow> bool \<times> nat" where
  "utf8_unit [] = (True, 0)"
| "utf8_unit (c # cs) =
     (let s = c # cs; b = of_char c :: nat; cont = byte_in 128 191 s
      in if b < 128 then (True, 1)
         else if 194 \<le> b \<and> b \<le> 223 then (if cont 1 then (True, 2) else (False, 1))
         else if 224 \<le> b \<and> b \<le> 239 then
           (let lo = (if b = 224 then 160 else 128); hi = (if b = 237 then 159 else 191)
            in if \<not> byte_in lo hi s 1 then (False, 1)
               else if cont 2 then (True, 3) else (False, 2))
         else if 240 \<le> b \<and> b \<le> 244 then
           (let lo = (if b = 240 then 144 else 128); hi = (if b = 244 then 143 else 191)
            in if \<not> byte_in lo hi s 1 then (False, 1)
               else if \<not> cont 2 then (False, 2)
               else if cont 3 then (True, 4) else (False, 3))
         else (False, 1))"

definition replacement_character :: bytes where
  "replacement_character = [char_of (239 :: nat), char_of (191 :: nat), char_of (189 :: nat)]"

lemma utf8_unit_pos: "s \<noteq> [] \<Longrightarrow> 0 < snd (utf8_unit s)"
  by (cases s) (auto simp: Let_def)

function from_utf8_lossy :: "bytes \<Rightarrow> string" where
  "from_utf8_lossy s =
     (if s = [] then []
      else let (ok, n) = utf8_unit s
           in (if ok then take n s else replacement_character) @ from_utf8_lossy (drop n s))"
  by pat_completeness auto
termination
proof (relation "measure length")
  fix s :: bytes and p ok n
  assume "s \<noteq> []" "p = utf8_unit s" "(ok, n) = p"
  then show "(drop n s, s) \<in> measure length"
    using utf8_unit_pos [of s] by (cases "utf8_unit s") simp
qed simp

declare from_utf8_lossy.simps [simp del] utf8_unit.simps [simp del]

text \<open>\<open>str::get(n..)\<close>: \<open>None\<close> past the end and inside a character.\<close>

definition str_get_from :: "nat \<Rightarrow> string \<Rightarrow> string option" where
  "str_get_from n s =
     (if n = length s \<or> (n < length s \<and> \<not> byte_in 128 191 s n) then Some (drop n s) else None)"

definition extract_revert_reason :: "trace_result option \<Rightarrow> string option" where
  "extract_revert_reason res =
     (case res of
        None \<Rightarrow> None
      | Some (CreateResult c) \<Rightarrow> None
      | Some (CallResult c) \<Rightarrow>
          (let tail = strip_0x (trl_output c);
               tail = (case str_get_from 134 tail of Some t \<Rightarrow> t | None \<Rightarrow> []);
               buff = decode_hex_node_style tail;
               len = (case buff of b # bs \<Rightarrow> of_char b :: nat | [] \<Rightarrow> 0);
               stop = min (1 + len) (length buff);
               reason = (case vec_slice buff 1 stop of Some r \<Rightarrow> r | None \<Rightarrow> [])
           in Some (from_utf8_lossy reason)))"

definition map_trace_frame :: "trace_frame \<Rightarrow> u64 \<Rightarrow> normalized_trace" where
  "map_trace_frame src transaction_index =
     TraceApi
       \<lparr>nta_transaction_index = transaction_index, nta_trace_address = tf_trace_address src,
        nta_trace_type = (if tf_frame_type src = ''suicide'' then ''selfdestruct'' else tf_frame_type src),
        nta_subtraces = tf_subtraces src, nta_error = tf_error src,
        nta_revert_reason =
          (if (case tf_error src of Some e \<Rightarrow> e \<noteq> [] | None \<Rightarrow> False)
           then extract_revert_reason (tf_result src) else None),
        nta_action = map_trace_action (tf_action src), nta_result = map_trace_result (tf_result src)\<rparr>"

subsection \<open>Debug frames\<close>

record debug_frame_item =
  it_trace_address :: "u64 list"
  it_subtraces :: u64
  it_frame :: debug_frame

definition subcalls :: "debug_frame \<Rightarrow> debug_frame list" where
  "subcalls f = (case df_calls f of Some cs \<Rightarrow> cs | None \<Rightarrow> [])"

lemma size_subcalls [termination_simp]: "size_list size (subcalls f) < size f"
  by (cases f) (auto simp: subcalls_def split: option.splits)

fun traverse_debug_frame :: "debug_frame \<Rightarrow> u64 list \<Rightarrow> debug_frame_item list"
  and traverse_subcalls :: "debug_frame list \<Rightarrow> u64 list \<Rightarrow> nat \<Rightarrow> debug_frame_item list" where
  "traverse_debug_frame frame addr =
     \<lparr>it_trace_address = addr, it_subtraces = of_nat (length (subcalls frame)), it_frame = frame\<rparr>
     # traverse_subcalls (subcalls frame) addr 0"
| "traverse_subcalls [] addr i = []"
| "traverse_subcalls (sub # subs) addr i =
     traverse_debug_frame sub (addr @ [of_nat i]) @ traverse_subcalls subs addr (Suc i)"

declare traverse_debug_frame.simps [simp del]

definition frame_type_to_normalized :: "string \<Rightarrow> string" where
  "frame_type_to_normalized t =
     (case normalized_kind (classify_frame t) of Some k \<Rightarrow> k | None \<Rightarrow> ''unknown'')"

definition nonempty :: "string option \<Rightarrow> string option" where
  "nonempty v = (case v of Some s \<Rightarrow> if s = [] then None else Some s | None \<Rightarrow> None)"

definition create_result :: "debug_frame \<Rightarrow> normalized_trace_result option" where
  "create_result frame =
     (let gas_used = nonempty (df_gas_used frame); out = nonempty (df_output frame);
          address = nonempty (df_to frame)
      in if gas_used \<noteq> None \<or> out \<noteq> None \<or> address \<noteq> None
         then Some (NCreateResult
           \<lparr>ncr_gas_used = (case gas_used of Some g \<Rightarrow> g | None \<Rightarrow> []), ncr_code = out,
            ncr_address = map_option to_lowercase address\<rparr>)
         else None)"

definition call_result :: "debug_frame \<Rightarrow> normalized_trace_result option" where
  "call_result frame =
     (if df_gas_used frame \<noteq> None \<or> df_output frame \<noteq> None
      then Some (NCallResult \<lparr>nlr_gas_used = df_gas_used frame, nlr_output = df_output frame\<rparr>)
      else None)"

definition debug_trace ::
    "u64 \<Rightarrow> debug_frame_item \<Rightarrow> string \<Rightarrow> normalized_debug_trace_action \<Rightarrow> normalized_trace_result option
     \<Rightarrow> normalized_trace" where
  "debug_trace transaction_index item kind action res =
     DebugTrace
       \<lparr>ndt_transaction_index = transaction_index, ndt_trace_address = it_trace_address item,
        ndt_subtraces = it_subtraces item, ndt_error = df_error (it_frame item),
        ndt_revert_reason = df_revert_reason (it_frame item), ndt_trace_type = kind,
        ndt_action = action, ndt_result = res\<rparr>"

definition map_debug_item :: "u64 \<Rightarrow> debug_frame_item \<Rightarrow> normalized_trace option" where
  "map_debug_item transaction_index item =
     (let frame = it_frame item;
          kind = frame_type_to_normalized (df_frame_type frame);
          input = (case df_input frame of Some i \<Rightarrow> i | None \<Rightarrow> ''0x'')
      in if kind = ''create'' then
           Some (debug_trace transaction_index item ''create''
             (DCreate \<lparr>nca_from = to_lowercase (df_from frame), nca_value = df_value frame,
                       nca_gas = df_gas frame, nca_init = input, nca_creation_method = None\<rparr>)
             (create_result frame))
         else if kind = ''call'' then
           (case df_to frame of
              None \<Rightarrow> None
            | Some t \<Rightarrow>
                Some (debug_trace transaction_index item ''call''
                  (DCall \<lparr>nda_call_type = to_lowercase (df_frame_type frame),
                          nda_from = to_lowercase (df_from frame), nda_to = to_lowercase t,
                          nda_value = df_value frame, nda_gas = df_gas frame, nda_input = input\<rparr>)
                  (call_result frame)))
         else if kind = ''selfdestruct'' then
           (case df_to frame of
              None \<Rightarrow> None
            | Some t \<Rightarrow>
                Some (debug_trace transaction_index item ''selfdestruct''
                  (DSelfdestruct \<lparr>nsa_address = to_lowercase (df_from frame),
                                  nsa_refund_address = to_lowercase t, nsa_balance = df_value frame\<rparr>)
                  None))
         else None)"

definition map_debug_frame :: "u64 \<Rightarrow> debug_frame_result \<Rightarrow> normalized_trace list" where
  "map_debug_frame transaction_index frame_result =
     (let root = dfr_result frame_result
      in if classify_frame (df_frame_type root) = KStop \<and> subcalls root = [] then []
         else List.map_filter (map_debug_item transaction_index) (traverse_debug_frame root []))"

subsection \<open>State diffs\<close>

definition make_debug_state_diff_record ::
    "u64 \<Rightarrow> string \<Rightarrow> string \<Rightarrow> string option \<Rightarrow> string option \<Rightarrow> normalized_state_diff" where
  "make_debug_state_diff_record transaction_index address key prev nxt =
     (let base = \<lparr>nsd_transaction_index = transaction_index, nsd_address = to_lowercase address,
                  nsd_key = key, nsd_kind = [], nsd_prev = None, nsd_next = None\<rparr>
      in case (prev, nxt) of
           (None, Some n) \<Rightarrow> base\<lparr>nsd_kind := ''+'', nsd_next := Some n\<rparr>
         | (Some p, None) \<Rightarrow> base\<lparr>nsd_kind := ''-'', nsd_prev := Some p\<rparr>
         | (Some p, Some n) \<Rightarrow> base\<lparr>nsd_kind := ''*'', nsd_prev := Some p, nsd_next := Some n\<rparr>
         | (None, None) \<Rightarrow> base\<lparr>nsd_kind := ''=''\<rparr>)"

definition member_str :: "string \<Rightarrow> json_map \<Rightarrow> string option" where
  "member_str k m = Option.bind (map_of m k) as_str"

fun number_as_u64 :: "json_number \<Rightarrow> u64" where
  "number_as_u64 (PosInt n) = n"
| "number_as_u64 n = 0"

fun nonce_value :: "json option \<Rightarrow> string" where
  "nonce_value (Some (JNumber n)) = to_qty (number_as_u64 n)"
| "nonce_value (Some (JString s)) = s"
| "nonce_value v = ''0x0''"

definition member_object :: "string \<Rightarrow> json_map \<Rightarrow> json_map option" where
  "member_object k m = Option.bind (map_of m k) as_object"

definition storage_diffs :: "u64 \<Rightarrow> string \<Rightarrow> json_map \<Rightarrow> json_map \<Rightarrow> normalized_state_diff list" where
  "storage_diffs transaction_index address prev nxt =
     (case member_object ''storage'' prev of
        None \<Rightarrow> []
      | Some prev_storage \<Rightarrow>
          map (\<lambda>(key, val).
                 make_debug_state_diff_record transaction_index address key (as_str val)
                   (Option.bind (member_object ''storage'' nxt) (member_str key)))
            prev_storage) @
     (case member_object ''storage'' nxt of
        None \<Rightarrow> []
      | Some next_storage \<Rightarrow>
          List.map_filter
            (\<lambda>(key, val).
               if (case member_object ''storage'' prev of Some s \<Rightarrow> contains_key key s | None \<Rightarrow> False)
               then None
               else Some (make_debug_state_diff_record transaction_index address key None (as_str val)))
            next_storage)"

definition map_debug_state_map ::
    "u64 \<Rightarrow> string \<Rightarrow> json_map \<Rightarrow> json_map \<Rightarrow> normalized_state_diff list" where
  "map_debug_state_map transaction_index address prev nxt =
     (let record = make_debug_state_diff_record transaction_index address
      in (case member_str ''code'' nxt of
            Some c \<Rightarrow> [record ''code'' (member_str ''code'' prev) (Some c)] | None \<Rightarrow> []) @
         (case member_str ''balance'' nxt of
            Some b \<Rightarrow> [record ''balance'' (member_str ''balance'' prev) (Some b)] | None \<Rightarrow> []) @
         (case map_of nxt ''nonce'' of
            Some n \<Rightarrow> [record ''nonce'' (Some (nonce_value (map_of prev ''nonce''))) (Some (nonce_value (Some n)))]
          | None \<Rightarrow> []) @
         storage_diffs transaction_index address prev nxt)"

definition object_or_empty :: "json option \<Rightarrow> json_map" where
  "object_or_empty v = (case Option.bind v as_object of Some m \<Rightarrow> m | None \<Rightarrow> [])"

definition map_debug_state_diff :: "u64 \<Rightarrow> debug_state_diff_result \<Rightarrow> normalized_state_diff list" where
  "map_debug_state_diff transaction_index diff_result =
     (let pre = dsd_pre (dsr_result diff_result); post = dsd_post (dsr_result diff_result)
      in concat (map (\<lambda>(address, pre_val).
           map_debug_state_map transaction_index address (object_or_empty (Some pre_val))
             (object_or_empty (map_of post address))) pre) @
         concat (map (\<lambda>(address, post_val).
           if contains_key address pre then []
           else map_debug_state_map transaction_index address [] (object_or_empty (Some post_val))) post))"

definition make_state_diff_from_replay ::
    "u64 \<Rightarrow> string \<Rightarrow> string \<Rightarrow> json \<Rightarrow> normalized_state_diff option" where
  "make_state_diff_from_replay transaction_index address key diff =
     (let base = \<lparr>nsd_transaction_index = transaction_index, nsd_address = to_lowercase address,
                  nsd_key = key, nsd_kind = [], nsd_prev = None, nsd_next = None\<rparr>
      in if as_str diff = Some ''='' then Some (base\<lparr>nsd_kind := ''=''\<rparr>)
         else case as_object diff of
           None \<Rightarrow> None
         | Some obj \<Rightarrow>
             (case map_of obj ''+'' of
                Some added \<Rightarrow> map_option (\<lambda>s. base\<lparr>nsd_kind := ''+'', nsd_next := Some s\<rparr>) (as_str added)
              | None \<Rightarrow>
                  (case map_of obj ''*'' of
                     Some change \<Rightarrow>
                       do {
                         f \<leftarrow> Option.bind (json_get ''from'' change) as_str;
                         t \<leftarrow> Option.bind (json_get ''to'' change) as_str;
                         Some (base\<lparr>nsd_kind := ''*'', nsd_prev := Some f, nsd_next := Some t\<rparr>)
                       }
                   | None \<Rightarrow>
                       (case map_of obj ''-'' of
                          Some removed \<Rightarrow>
                            map_option (\<lambda>s. base\<lparr>nsd_kind := ''-'', nsd_prev := Some s\<rparr>) (as_str removed)
                        | None \<Rightarrow> None))))"

definition replay_entry :: "u64 \<Rightarrow> string \<Rightarrow> string \<Rightarrow> json \<Rightarrow> normalized_state_diff option" where
  "replay_entry transaction_index address key diff =
     (case make_state_diff_from_replay transaction_index address key diff of
        None \<Rightarrow> None
      | Some d \<Rightarrow> if nsd_kind d \<noteq> ''='' then Some d else None)"

definition map_replay_state_diff :: "json_map \<Rightarrow> u64 \<Rightarrow> normalized_state_diff list" where
  "map_replay_state_diff src transaction_index =
     concat (map (\<lambda>(address, diffs_val).
       case as_object diffs_val of
         None \<Rightarrow> []
       | Some diffs_obj \<Rightarrow>
           List.map_filter (\<lambda>key. Option.bind (map_of diffs_obj key) (replay_entry transaction_index address key))
             [''code'', ''balance'', ''nonce''] @
           (case member_object ''storage'' diffs_obj of
              None \<Rightarrow> []
            | Some storage \<Rightarrow>
                List.map_filter (\<lambda>(slot_key, diff). replay_entry transaction_index address slot_key diff) storage))
       src)"

subsection \<open>Blocks\<close>

definition map_withdrawal :: "rpc_withdrawal \<Rightarrow> normalized_withdrawal" where
  "map_withdrawal w =
     \<lparr>nw_index = wd_index w, nw_validator_index = wd_validator_index w, nw_address = wd_address w,
      nw_amount = wd_amount w\<rparr>"

definition map_block_header :: "rpc_block \<Rightarrow> normalized_header" where
  "map_block_header src =
     \<lparr>nh_number = qty2_u64 (rb_number src),
      nh_hash = rb_hash src,
      nh_parent_hash = rb_parent_hash src,
      nh_timestamp = qty2_u64 (rb_timestamp src),
      nh_transactions_root = rb_transactions_root src,
      nh_receipts_root = rb_receipts_root src,
      nh_state_root = rb_state_root src,
      nh_logs_bloom = rb_logs_bloom src,
      nh_sha3_uncles = rb_sha3_uncles src,
      nh_extra_data = rb_extra_data src,
      nh_miner = rb_miner src,
      nh_nonce = rb_nonce src,
      nh_mix_hash = rb_mix_hash src,
      nh_size = qty2_u64 (rb_size src),
      nh_gas_limit = rb_gas_limit src,
      nh_gas_used = rb_gas_used src,
      nh_difficulty = rb_difficulty src,
      nh_total_difficulty = rb_total_difficulty src,
      nh_base_fee_per_gas = rb_base_fee_per_gas src,
      nh_uncles = Some (rb_uncles src),
      nh_withdrawals = map_option (map map_withdrawal) (rb_withdrawals src),
      nh_withdrawals_root = rb_withdrawals_root src,
      nh_blob_gas_used = rb_blob_gas_used src,
      nh_excess_blob_gas = rb_excess_blob_gas src,
      nh_parent_beacon_block_root = rb_parent_beacon_block_root src,
      nh_requests_hash = rb_requests_hash src,
      nh_l1_block_number = map_option qty2_u64 (rb_l1_block_number src),
      nh_main_block_general_gas_limit = rb_main_block_general_gas_limit src,
      nh_shared_gas_limit = rb_shared_gas_limit src,
      nh_timestamp_millis_part = rb_timestamp_millis_part src\<rparr>"

record mapping_options =
  with_traces :: bool
  with_state_diffs :: bool

text \<open>The position of a transaction by its hash; a later one with the same hash wins.\<close>

definition tx_index_of :: "rpc_transaction list \<Rightarrow> string \<Rightarrow> nat option" where
  "tx_index_of txs h = map_of (rev (map (\<lambda>(i, tx). (tx_hash tx, i)) (enumerate 0 txs))) h"

definition block_logs :: "raw_rpc_block \<Rightarrow> normalized_log list" where
  "block_logs raw =
     (case raw_logs raw of
        Some logs \<Rightarrow> map map_log logs
      | None \<Rightarrow>
          (case raw_receipts raw of
             Some receipts \<Rightarrow> concat (map (\<lambda>r. map map_log (rc_logs r)) receipts)
           | None \<Rightarrow> []))"

text \<open>The items of a replay list that belong to a transaction of the block.\<close>

definition replay_items ::
    "rpc_transaction list \<Rightarrow> (trace_transaction_replay \<Rightarrow> u64 \<Rightarrow> 'a list) \<Rightarrow> trace_transaction_replay list
     \<Rightarrow> 'a list" where
  "replay_items txs f replays =
     concat (map (\<lambda>replay.
       case rep_transaction_hash replay of
         None \<Rightarrow> []
       | Some h \<Rightarrow> (case tx_index_of txs h of None \<Rightarrow> [] | Some i \<Rightarrow> f replay (of_nat i))) replays)"

definition enumerated_items :: "(u64 \<Rightarrow> 'b \<Rightarrow> 'a list) \<Rightarrow> 'b option list \<Rightarrow> 'a list" where
  "enumerated_items f xs =
     concat (map (\<lambda>(i, x). case x of None \<Rightarrow> [] | Some v \<Rightarrow> f (of_nat i) v) (enumerate 0 xs))"

definition block_traces :: "raw_rpc_block \<Rightarrow> normalized_trace list" where
  "block_traces raw =
     (case raw_debug_frames raw of
        Some frames \<Rightarrow> enumerated_items map_debug_frame frames
      | None \<Rightarrow>
          (case raw_trace_replays raw of
             Some replays \<Rightarrow>
               replay_items (rb_transactions (raw_block raw))
                 (\<lambda>replay i. case rep_trace replay of
                                Some frames \<Rightarrow> map (\<lambda>f. map_trace_frame f i) frames
                              | None \<Rightarrow> []) replays
           | None \<Rightarrow> []))"

definition block_state_diffs :: "raw_rpc_block \<Rightarrow> normalized_state_diff list" where
  "block_state_diffs raw =
     (case raw_debug_state_diffs raw of
        Some diffs \<Rightarrow> enumerated_items map_debug_state_diff diffs
      | None \<Rightarrow>
          (case raw_trace_replays raw of
             Some replays \<Rightarrow>
               replay_items (rb_transactions (raw_block raw))
                 (\<lambda>replay i. case rep_state_diff replay of
                                Some sd \<Rightarrow> map_replay_state_diff sd i
                              | None \<Rightarrow> []) replays
           | None \<Rightarrow> []))"

definition map_rpc_block ::
    "(string \<Rightarrow> f64_bits option) \<Rightarrow> raw_rpc_block \<Rightarrow> mapping_options \<Rightarrow> normalized_block" where
  "map_rpc_block parse_f64 raw options =
     \<lparr>nb_header = map_block_header (raw_block raw),
      nb_transactions =
        map (\<lambda>(i, tx). map_transaction parse_f64 tx
               (Option.bind (raw_receipts raw) (\<lambda>rs. vec_get rs i)))
          (enumerate 0 (rb_transactions (raw_block raw))),
      nb_logs = block_logs raw,
      nb_traces = (if with_traces options then Some (block_traces raw) else None),
      nb_state_diffs = (if with_state_diffs options then Some (block_state_diffs raw) else None)\<rparr>"

end
