(* ===== verification/Evm_Chain.thy ===== *)
theory Evm_Chain
  imports Evm_Commit Evm_Normalize Metrics Service_Ingest Rpc_Error
begin

text \<open>
  The networks' deviations and the checks that honour them (\<open>evm-source/src/chain_utils.rs\<close>), the
  mapping of an acquired block to a block of the service (\<open>mapping.rs\<close>), and the bridge from the client's
  reports to the metrics (\<open>observability.rs\<close>).
\<close>

subsection \<open>Networks\<close>

datatype quirk =
    StateSyncTx
  | ZeroGasSystemTx
  | FakeSignatureSystemTx
  | LegacyFakeSignatureSystemTx
  | TempoHeader
  | NonSequentialLogIndexes
  | PartialTraceCoverage

record network =
  net_chain_id :: u64
  net_quirks :: "quirk list"
  net_unencodable_txs :: "string list"

definition BOR :: "quirk list" where "BOR = [StateSyncTx, PartialTraceCoverage]"
definition HYPERLIQUID :: "quirk list" where "HYPERLIQUID = [ZeroGasSystemTx]"
definition STABLE :: "quirk list" where "STABLE = [FakeSignatureSystemTx, NonSequentialLogIndexes]"
definition TEMPO :: "quirk list" where "TEMPO = [TempoHeader, LegacyFakeSignatureSystemTx]"
definition PIP74 :: "string list" where "PIP74 = [''0x7f'']"
definition ARBITRUM_RETRYABLES :: "string list" where "ARBITRUM_RETRYABLES = [''0x66'', ''0x68'', ''0x69'']"

definition net :: "u64 \<Rightarrow> quirk list \<Rightarrow> string list \<Rightarrow> network" where
  "net chain_id quirks unencodable_txs =
     \<lparr>net_chain_id = chain_id, net_quirks = quirks, net_unencodable_txs = unencodable_txs\<rparr>"

definition NETWORKS :: "network list" where
  "NETWORKS =
     [net 137 BOR PIP74, net 80002 BOR PIP74, net 109 BOR PIP74,
      net 999 HYPERLIQUID [], net 998 HYPERLIQUID [],
      net 988 STABLE [], net 2201 STABLE [],
      net 4217 TEMPO [], net 42431 TEMPO [], net 42429 TEMPO [],
      net 42161 [] ARBITRUM_RETRYABLES]"

definition ZERO :: string where "ZERO = ''0x0''"
definition LEGACY_TX_TYPE :: string where "LEGACY_TX_TYPE = ''0x0''"

record chain_utils =
  cu_chain_id :: u64
  cu_quirks :: "quirk list"
  cu_unencodable_txs :: "string list"
  use_gas_used_for_receipts_root :: bool

definition chain_utils_new :: "u64 \<Rightarrow> bool \<Rightarrow> chain_utils" where
  "chain_utils_new chain_id use_gas_used =
     (let network = find (\<lambda>n. net_chain_id n = chain_id) NETWORKS
      in \<lparr>cu_chain_id = chain_id,
          cu_quirks = (case network of Some n \<Rightarrow> net_quirks n | None \<Rightarrow> []),
          cu_unencodable_txs = (case network of Some n \<Rightarrow> net_unencodable_txs n | None \<Rightarrow> []),
          use_gas_used_for_receipts_root = use_gas_used\<rparr>)"

definition has :: "chain_utils \<Rightarrow> quirk \<Rightarrow> bool" where
  "has cu q = List.member (cu_quirks cu) q"

subsection \<open>What the header's commitments cover\<close>

definition is_unencodable :: "chain_utils \<Rightarrow> rpc_transaction \<Rightarrow> bool" where
  "is_unencodable cu tx =
     (case tx_tx_type tx of Some ty \<Rightarrow> List.member (cu_unencodable_txs cu) ty | None \<Rightarrow> False)"

definition phantom_tx_hash :: "evm_lib \<Rightarrow> chain_utils \<Rightarrow> rpc_block \<Rightarrow> string option" where
  "phantom_tx_hash lib cu b =
     (if has cu StateSyncTx then Some (calculate_state_sync_tx_hash lib (rb_number b) (rb_hash b)) else None)"

definition is_uncommitted_tx :: "chain_utils \<Rightarrow> rpc_transaction \<Rightarrow> string option \<Rightarrow> bool" where
  "is_uncommitted_tx cu tx phantom_hash \<longleftrightarrow>
     phantom_hash = Some (tx_hash tx) \<or> (has cu ZeroGasSystemTx \<and> tx_gas_price tx = Some ZERO)"

definition is_uncommitted_receipt :: "chain_utils \<Rightarrow> rpc_receipt \<Rightarrow> string option \<Rightarrow> bool" where
  "is_uncommitted_receipt cu r phantom_hash \<longleftrightarrow>
     phantom_hash = Some (rc_transaction_hash r) \<or> (has cu ZeroGasSystemTx \<and> rc_cumulative_gas_used r = ZERO)"

definition uncommitted_tx_hashes :: "evm_lib \<Rightarrow> chain_utils \<Rightarrow> rpc_block \<Rightarrow> string set" where
  "uncommitted_tx_hashes lib cu b =
     (let phantom_hash = phantom_tx_hash lib cu b
      in if phantom_hash = None \<and> \<not> has cu ZeroGasSystemTx then {}
         else set (map tx_hash (filter (\<lambda>tx. is_uncommitted_tx cu tx phantom_hash) (rb_transactions b))))"

definition committed_receipts :: "evm_lib \<Rightarrow> chain_utils \<Rightarrow> rpc_block \<Rightarrow> rpc_receipt list \<Rightarrow> rpc_receipt list" where
  "committed_receipts lib cu b receipts =
     (let phantom_hash = phantom_tx_hash lib cu b
      in filter (\<lambda>r. \<not> is_uncommitted_receipt cu r phantom_hash) receipts)"

definition is_unsigned :: "chain_utils \<Rightarrow> rpc_transaction \<Rightarrow> bool" where
  "is_unsigned cu tx =
     (let fake_signature = (tx_r tx = Some ZERO \<and> tx_s tx = Some ZERO)
      in (has cu ZeroGasSystemTx \<and> tx_gas_price tx = Some ZERO) \<or>
         (has cu FakeSignatureSystemTx \<and> fake_signature) \<or>
         (has cu LegacyFakeSignatureSystemTx \<and> fake_signature \<and> tx_tx_type tx = Some LEGACY_TX_TYPE))"

subsection \<open>The checks\<close>

definition calculate_block_hash :: "evm_lib \<Rightarrow> chain_utils \<Rightarrow> rpc_block \<Rightarrow> string + string" where
  "calculate_block_hash lib cu b = (if has cu TempoHeader then tempo_block_hash lib b else block_hash lib b)"

definition calculate_transactions_root :: "evm_lib \<Rightarrow> chain_utils \<Rightarrow> rpc_block \<Rightarrow> string + string option" where
  "calculate_transactions_root lib cu b =
     (if list_ex (is_unencodable cu) (rb_transactions b) then Inr None
      else
        let phantom_hash = phantom_tx_hash lib cu b;
            txs = filter (\<lambda>tx. \<not> is_uncommitted_tx cu tx phantom_hash) (rb_transactions b)
        in bind_result (transactions_root lib txs) (\<lambda>root. Inr (Some root)))"

text \<open>\<open>split\<close> is the scheduler's cut of the logs it is given.\<close>

definition calculate_logs_bloom ::
    "evm_lib \<Rightarrow> (rpc_log list \<Rightarrow> rpc_log split) \<Rightarrow> chain_utils \<Rightarrow> rpc_block \<Rightarrow> rpc_log list \<Rightarrow> string" where
  "calculate_logs_bloom lib split cu b logs =
     (let excluded = uncommitted_tx_hashes lib cu b
      in if excluded = {} then logs_bloom lib (split logs)
         else logs_bloom lib (split (filter (\<lambda>l. log_transaction_hash l \<notin> excluded) logs)))"

definition calculate_receipts_root ::
    "evm_lib \<Rightarrow> chain_utils \<Rightarrow> rpc_block \<Rightarrow> rpc_receipt list \<Rightarrow> string + string" where
  "calculate_receipts_root lib cu b receipts =
     receipts_root lib (committed_receipts lib cu b receipts) (use_gas_used_for_receipts_root cu)"

definition calculate_withdrawals_root :: "evm_lib \<Rightarrow> rpc_withdrawal list \<Rightarrow> string + string" where
  "calculate_withdrawals_root lib ws = withdrawals_root lib ws"

definition chain_recover_tx_sender :: "evm_lib \<Rightarrow> chain_utils \<Rightarrow> rpc_transaction \<Rightarrow> string + string option" where
  "chain_recover_tx_sender lib cu tx = (if is_unsigned cu tx then Inr None else recover_tx_sender lib tx)"

subsection \<open>Mapping to the service's block\<close>

record acquisition_timings =
  at_poll_issued :: instant
  at_null_polls :: "32 word"
  at_body_received :: instant
  at_enrich_done :: instant
  at_enrich_profile :: enrich_profile

text \<open>The readings of the clock during the mapping.\<close>

record map_clock =
  at_normalized :: instant
  at_compress_start :: instant
  at_compressed :: instant

text \<open>
  \<open>encode_line\<close> is the serialisation of the normalized block as a JSON line in a zstd stream, both of
  them library code; the multiplication of the timestamp wraps as in a release build.
\<close>

definition map_raw_block ::
    "(string \<Rightarrow> f64_bits option) \<Rightarrow> (normalized_block \<Rightarrow> string + bytes) \<Rightarrow> map_clock \<Rightarrow> raw_rpc_block \<Rightarrow>
     mapping_options \<Rightarrow> acquisition_timings option \<Rightarrow> string + block" where
  "map_raw_block parse_f64 encode_line clock raw options timings_in =
     (let normalized = map_rpc_block parse_f64 raw options
      in bind_result (encode_line normalized) (\<lambda>compressed.
         let num = qty2_u64 (rb_number (raw_block raw));
             ts = qty2_u64 (rb_timestamp (raw_block raw)) * 1000
         in Inr \<lparr>number = num, hash = rb_hash (raw_block raw), parent_number = saturating_sub num 1,
                 parent_hash = rb_parent_hash (raw_block raw), timestamp = Some ts,
                 json_line_zstd = compressed,
                 timings = map_option (\<lambda>t.
                   \<lparr>poll_issued = at_poll_issued t, null_polls = at_null_polls t,
                    body_received = at_body_received t, enrich_done = at_enrich_done t,
                    enrich_profile_of = at_enrich_profile t, normalize_done = at_normalized clock,
                    compress_duration = at_compressed clock - at_compress_start clock\<rparr>) timings_in\<rparr>))"

subsection \<open>The client's reports on the registry\<close>

fun classify :: "rpc_error \<Rightarrow> upstream_error_class" where
  "classify (InvalidConfig s) = ClassProtocol"
| "classify (Rpc c m d) = ClassRpc"
| "classify (Http st m) = ClassHttp"
| "classify (Connection s) = ClassConnection"
| "classify (Disconnected s) = ClassDisconnected"
| "classify Timeout = ClassTimeout"
| "classify (Protocol s) = ClassProtocol"
| "classify (RetryRequested s) = ClassRetryRequested"
| "classify (RetryExhausted inner) = classify inner"

fun metrics_rpc_observer :: "observation \<Rightarrow> metrics \<Rightarrow> metrics" where
  "metrics_rpc_observer (OnRequest kind calls) m =
     record_upstream_request
       (case kind of Rpc_Error.Single \<Rightarrow> Metrics.Single | Rpc_Error.Batch \<Rightarrow> Metrics.Batch) calls m"
| "metrics_rpc_observer (OnError e) m = record_upstream_error (classify e) m"
| "metrics_rpc_observer (OnRetry e) m = record_upstream_retry (classify e) m"

subsection \<open>One view of what is committed\<close>

lemma uncommitted_tx_hashes_eq:
  "uncommitted_tx_hashes lib cu b =
     tx_hash ` {tx \<in> set (rb_transactions b). is_uncommitted_tx cu tx (phantom_tx_hash lib cu b)}"
  by (auto simp: uncommitted_tx_hashes_def Let_def is_uncommitted_tx_def)

lemma logs_bloom_eq:
  "logs_bloom lib t = to_hex lib (bytes_of_bloom (fold (add_log lib) (pieces t) empty_bloom))"
  by (simp add: logs_bloom_def logs_bloom_bytes_eq add_logs_bits)

lemma list_all2_filter_eq:
  "list_all2 P xs ys \<Longrightarrow> (\<And>x y. x \<in> set xs \<Longrightarrow> P x y \<Longrightarrow> p x = q y) \<Longrightarrow>
   list_all2 P (filter p xs) (filter q ys)"
  by (induction xs ys rule: list_all2_induct) auto

lemma list_all2_right_partner: "list_all2 P xs ys \<Longrightarrow> y \<in> set ys \<Longrightarrow> \<exists>x \<in> set xs. P x y"
  by (induction xs ys rule: list_all2_induct) auto

lemma filter_concat_by_key:
  "\<forall>x \<in> set xs. \<forall>y \<in> set (f x). p y = q x \<Longrightarrow> filter p (concat (map f xs)) = concat (map f (filter q xs))"
  by (induction xs) (auto simp: filter_id_conv filter_empty_conv)

text \<open>A receipt list that goes with the transactions of a block, in their order.\<close>

definition receipts_match :: "chain_utils \<Rightarrow> rpc_transaction list \<Rightarrow> rpc_receipt list \<Rightarrow> bool" where
  "receipts_match cu txs receipts \<longleftrightarrow>
     list_all2 (\<lambda>tx r. tx_hash tx = rc_transaction_hash r \<and>
       (has cu ZeroGasSystemTx \<longrightarrow> (tx_gas_price tx = Some ZERO \<longleftrightarrow> rc_cumulative_gas_used r = ZERO)))
       txs receipts \<and>
     list_all (\<lambda>r. list_all (\<lambda>l. log_transaction_hash l = rc_transaction_hash r) (rc_logs r)) receipts"


subsection \<open>Mapped blocks at the service\<close>

definition linked_raws :: "raw_rpc_block \<times> raw_rpc_block \<Rightarrow> bool" where
  "linked_raws = (\<lambda>(a, b).
     unat (qty2_u64 (rb_number (raw_block b))) = unat (qty2_u64 (rb_number (raw_block a))) + 1 \<and>
     rb_parent_hash (raw_block b) = rb_hash (raw_block a))"

definition hashes_ok :: "raw_rpc_block \<Rightarrow> bool" where
  "hashes_ok raw \<longleftrightarrow>
     list_all (\<lambda>h. h \<noteq> [] \<and> is_header_safe_hash h) [rb_hash (raw_block raw), rb_parent_hash (raw_block raw)]"

definition mapped :: "raw_rpc_block \<Rightarrow> block \<Rightarrow> bool" where
  "mapped raw blk \<longleftrightarrow>
     number blk = qty2_u64 (rb_number (raw_block raw)) \<and> hash blk = rb_hash (raw_block raw) \<and>
     parent_number blk = saturating_sub (number blk) 1 \<and> parent_hash blk = rb_parent_hash (raw_block raw)"

lemma map_raw_block_mapped:
  "map_raw_block parse_f64 encode_line clock raw options t = Inr blk \<Longrightarrow> mapped raw blk"
  by (auto simp: map_raw_block_def bind_result_Inr Let_def mapped_def)

lemma mapped_validate_block: "mapped raw blk \<Longrightarrow> validate_block blk = Inr () \<longleftrightarrow> hashes_ok raw"
  by (auto simp: mapped_def hashes_ok_def validate_block_def)

lemma successor_number:
  "\<not> b \<le> a \<and> a = saturating_sub b 1 \<longleftrightarrow> unat b = unat a + 1" for a b :: u64
  by (auto simp: word_le_nat_alt word_unat_eq_iff unat_saturating_sub)

lemma mapped_linked:
  assumes "mapped x c" "mapped y d"
  shows "\<not> number d \<le> number c \<and> is_chain c d \<longleftrightarrow> linked_raws (x, y)"
proof -
  have "\<not> number d \<le> number c \<and> is_chain c d \<longleftrightarrow>
      (\<not> number d \<le> number c \<and> number c = saturating_sub (number d) 1) \<and> hash c = parent_hash d"
    using assms by (auto simp: mapped_def is_chain_def)
  then show ?thesis
    using assms unfolding successor_number by (auto simp: mapped_def linked_raws_def)
qed

lemma validate_blocks_Inr: "validate_blocks bs = Inr () \<longleftrightarrow> list_all (\<lambda>b. validate_block b = Inr ()) bs"
  by (induction bs) (auto split: sum.splits)

lemma validate_pairs_Inr:
  "validate_pairs ps = Inr () \<longleftrightarrow> list_all (\<lambda>(a, b). \<not> number b \<le> number a \<and> is_chain a b) ps"
  by (induction ps rule: validate_pairs.induct) auto


subsection \<open>Samples\<close>

definition sample_receipt :: "string \<Rightarrow> string \<Rightarrow> rpc_receipt" where
  "sample_receipt h cumulative =
     \<lparr>rc_block_hash = ''0x33'', rc_block_number = ''0x1'', rc_transaction_hash = h,
      rc_transaction_index = ''0x0'', rc_contract_address = None, rc_cumulative_gas_used = cumulative,
      rc_from = ''0x22'', rc_gas_used = ''0x5208'', rc_effective_gas_price = None, rc_logs = [],
      rc_logs_bloom = ''0x'', rc_status = Some ''0x1'', rc_root = None, rc_to = None,
      rc_receipt_type = ''0x0'', rc_blob_gas_used = None, rc_blob_gas_price = None, rc_l1_fee = None,
      rc_l1_fee_scalar = None, rc_l1_base_fee_scalar = None, rc_l1_blob_base_fee = None,
      rc_l1_blob_base_fee_scalar = None, rc_l1_gas_price = None, rc_l1_gas_used = None,
      rc_deposit_nonce = None, rc_deposit_receipt_version = None, rc_extra = []\<rparr>"

definition sample_system_tx :: rpc_transaction where
  "sample_system_tx = (sample_tx ''0x0'')\<lparr>tx_hash := ''0x44'', tx_gas_price := Some ''0x0''\<rparr>"


definition sample_raw :: "string \<Rightarrow> string \<Rightarrow> string \<Rightarrow> raw_rpc_block" where
  "sample_raw n h parent =
     raw_rpc_block_new (qty2_u64 n) h ((sample_header parent [])\<lparr>rb_number := n, rb_hash := h\<rparr>)"

definition sample_mapped :: "raw_rpc_block \<Rightarrow> block" where
  "sample_mapped raw = projr (map_raw_block (\<lambda>s. None) (\<lambda>n. Inr [])
     \<lparr>at_normalized = 0, at_compress_start = 0, at_compressed = 0\<rparr> raw
     \<lparr>with_traces = False, with_state_diffs = False\<rparr> None)"


end
