(* ===== verification/Rpc_Rate.thy ===== *)
theory Rpc_Rate
  imports Complex_Main F64
begin

text \<open>
  The sliding-window rate meter (\<open>rpc-client/src/rate.rs\<close>): a ring buffer of \<open>window_size + 1\<close> slot
  counters.  The specification is the log of all recorded events with the slot each fell into; the
  refinement says that the meter always reports the events of the last \<open>window_size + 1\<close> slots,
  although it only keeps the counters.

  Rates are \<open>f64\<close>.  \<open>f64\<close> below is the rounding of a rational to the nearest double, ties to even,
  gradual underflow included (no operation here overflows); every arithmetic operation of the source
  rounds its exact result.
\<close>

subsection \<open>Rounding a rational to a double\<close>

definition pow2 :: "int \<Rightarrow> rat" where
  "pow2 e = (if e \<ge> 0 then 2 ^ nat e else 1 / 2 ^ nat (- e))"

definition floor_log2 :: "rat \<Rightarrow> int" where
  "floor_log2 x =
     (let (n, d) = quotient_of \<bar>x\<bar>;
          k = int (bit_len (nat n)) - int (bit_len (nat d))
      in if \<bar>x\<bar> < pow2 k then k - 1 else k)"

definition round_half_even :: "rat \<Rightarrow> int" where
  "round_half_even x =
     (let q = \<lfloor>x\<rfloor>; r = x - of_int q
      in if r > 1 / 2 \<or> (r = 1 / 2 \<and> odd q) then q + 1 else q)"

definition f64 :: "rat \<Rightarrow> rat" where
  "f64 x =
     (if x = 0 then 0
      else let u = pow2 (max (floor_log2 x - 52) (- 1074)) in of_int (round_half_even (x / u)) * u)"

definition f64_of_nat :: "nat \<Rightarrow> rat" where
  "f64_of_nat n = f64 (of_nat n)"

text \<open>A configured \<open>f64\<close> may also be infinite or not a number.\<close>

datatype f64_value = Finite rat | NonFinite

subsection \<open>The meter\<close>

record rate_meter =
  window :: "u64 list"
  time :: int
  window_size :: usize
  slot_time :: u64

definition rate_new :: "usize \<Rightarrow> u64 \<Rightarrow> rate_meter" where
  "rate_new ws st = \<lparr>window = replicate (ws + 1) 0, time = 0, window_size = ws, slot_time = st\<rparr>"

definition for_rate_limit :: "usize \<Rightarrow> rat \<Rightarrow> rate_meter" where
  "for_rate_limit ws limit =
     (let st = (if limit < 1
                then of_nat (min (2 ^ 64 - 1) (nat \<lceil>f64 (1000 / f64 (limit * f64_of_nat ws))\<rceil>))
                else 100)
      in rate_new ws st)"

definition contribution :: "rate_meter \<Rightarrow> u64 \<Rightarrow> rat" where
  "contribution m count =
     f64 (f64 (1000 * f64_of_nat (unat count)) /
          f64 (f64_of_nat (window_size m) * f64_of_nat (unat (slot_time m))))"

definition calls_per_window :: "rate_meter \<Rightarrow> rat \<Rightarrow> usize" where
  "calls_per_window m limit = min (2 ^ 64 - 1) (nat \<lfloor>f64 (limit / contribution m 1)\<rfloor>)"

text \<open>\<open>u64::div_ceil\<close>; the divisor is never zero for a meter built by \<open>for_rate_limit\<close>.\<close>

definition div_ceil :: "u64 \<Rightarrow> u64 \<Rightarrow> u64" where
  "div_ceil a b = (if a mod b > 0 then a div b + 1 else a div b)"

definition to_time :: "rate_meter \<Rightarrow> u64 \<Rightarrow> int" where
  "to_time m now_ms = max (sint (div_ceil now_ms (slot_time m))) (time m)"

definition slot_index :: "'a list \<Rightarrow> int \<Rightarrow> nat" where
  "slot_index w t = nat (t mod int (length w))"

function clear_slots :: "int \<Rightarrow> int \<Rightarrow> u64 list \<Rightarrow> u64 list" where
  "clear_slots c stop w =
     (if c > stop then clear_slots (c - 1) stop (w[slot_index w c := 0]) else w)"
  by auto
termination by (relation "measure (\<lambda>(c, stop, w). nat (c - stop))") auto

definition rate_inc :: "rate_meter \<Rightarrow> u64 \<Rightarrow> u64 \<Rightarrow> rate_meter" where
  "rate_inc m count now_ms =
     (let now = to_time m now_ms;
          win_len = int (length (window m));
          cutoff = now - win_len;
          w = (if time m > cutoff then clear_slots cutoff (time m - win_len) (window m)
               else replicate (length (window m)) 0);
          i = slot_index w now
      in m\<lparr>window := w[i := w ! i + count], time := now\<rparr>)"

function sum_slots :: "int \<Rightarrow> int \<Rightarrow> u64 list \<Rightarrow> u64 \<Rightarrow> u64" where
  "sum_slots t cutoff w rate =
     (if t > cutoff then sum_slots (t - 1) cutoff w (rate + w ! slot_index w t) else rate)"
  by auto
termination by (relation "measure (\<lambda>(t, cutoff, w, rate). nat (t - cutoff))") auto

declare clear_slots.simps [simp del] sum_slots.simps [simp del]

definition window_count :: "rate_meter \<Rightarrow> u64 \<Rightarrow> u64" where
  "window_count m now_ms =
     (let now = to_time m now_ms; cutoff = now - int (length (window m))
      in sum_slots (time m) cutoff (window m) 0)"

definition get_rate :: "rate_meter \<Rightarrow> u64 \<Rightarrow> rat" where
  "get_rate m now_ms = contribution m (window_count m now_ms)"

subsection \<open>The event log\<close>

text \<open>Each event with its slot; the slot of an event is never below that of an earlier one.\<close>

type_synonym event_log = "(int \<times> u64) list"

definition log_at :: "event_log \<Rightarrow> int \<Rightarrow> u64" where
  "log_at evs t = sum_list (map snd (filter (\<lambda>e. fst e = t) evs))"

definition log_since :: "event_log \<Rightarrow> int \<Rightarrow> u64" where
  "log_since evs t = sum_list (map snd (filter (\<lambda>e. t < fst e) evs))"

definition meter_rel :: "rate_meter \<Rightarrow> event_log \<Rightarrow> bool" where
  "meter_rel m evs \<longleftrightarrow>
     length (window m) = window_size m + 1 \<and>
     (\<forall>e \<in> set evs. fst e \<le> time m) \<and>
     (\<forall>t. time m - int (length (window m)) < t \<and> t \<le> time m \<longrightarrow>
          window m ! slot_index (window m) t = log_at evs t)"

subsection \<open>Facts about the rounding\<close>

lemma floor_log2_of_nat: "0 < k \<Longrightarrow> floor_log2 (of_nat k) = int (bit_len k) - 1"
proof -
  assume k: "0 < k"
  have q: "quotient_of \<bar>of_nat k\<bar> = (int k, 1)"
    using quotient_of_int [of "int k"] by (simp add: of_int_of_nat_eq)
  have one: "bit_len (Suc 0) = Suc 0" by (simp add: bit_len.simps)
  have pos: "bit_len k \<ge> 1" using k bit_len_less_iff [of k 0] by (cases "bit_len k") auto
  have "2 ^ (bit_len k - 1) \<le> k" by (rule bit_len_ge [OF k])
  then have le: "(2::rat) ^ (bit_len k - 1) \<le> of_nat k"
    by (metis of_nat_le_iff of_nat_numeral of_nat_power)
  have "pow2 (int (bit_len k) - 1) = 2 ^ (bit_len k - 1)"
    using pos by (simp add: pow2_def nat_diff_distrib)
  then show ?thesis
    unfolding floor_log2_def q Let_def prod.case using le by (simp add: one)
qed

lemma round_half_even_int [simp]: "round_half_even (of_int z) = z"
  by (simp add: round_half_even_def Let_def)

lemma f64_exact_if: "x / pow2 (max (floor_log2 x - 52) (- 1074)) = of_int z \<Longrightarrow> f64 x = x"
proof -
  assume *: "x / pow2 (max (floor_log2 x - 52) (- 1074)) = of_int z"
  have "pow2 (max (floor_log2 x - 52) (- 1074)) \<noteq> 0" by (simp add: pow2_def)
  with * have "x = of_int z * pow2 (max (floor_log2 x - 52) (- 1074))" by (simp add: field_simps)
  then show ?thesis by (simp add: f64_def Let_def *)
qed

lemma f64_of_nat_exact: "k < 2 ^ 53 \<Longrightarrow> f64 (of_nat k) = of_nat k"
proof (cases "k = 0")
  case False
  assume "k < 2 ^ 53"
  then have b: "bit_len k \<le> 53" by (simp add: bit_len_less_iff)
  have fl: "floor_log2 (of_nat k) = int (bit_len k) - 1" using False by (simp add: floor_log2_of_nat)
  have "of_nat k / pow2 (max (floor_log2 (of_nat k) - 52) (- 1074))
      = (of_int (int k * 2 ^ (53 - bit_len k)) :: rat)"
  proof (cases "bit_len k = 53")
    case True
    then show ?thesis by (simp add: fl pow2_def)
  next
    case False
    then have "nat (53 - int (bit_len k)) = 53 - bit_len k" by simp
    then show ?thesis using False b by (simp add: fl pow2_def)
  qed
  then show ?thesis by (rule f64_exact_if)
qed (simp add: f64_def)

lemma contribution_exact:
  assumes "window_size m = 10" "slot_time m = 100" "unat count * 1000 < 2 ^ 53"
  shows "contribution m count = of_nat (unat count)"
proof -
  have "f64 (1000 * of_nat (unat count)) = 1000 * of_nat (unat count)"
    using f64_of_nat_exact [of "1000 * unat count"] assms by (simp add: mult.commute)
  moreover have "f64 (of_nat (unat count)) = of_nat (unat count)"
    using f64_of_nat_exact [of "unat count"] assms by simp
  moreover have "f64 (10::rat) = 10" "f64 (100::rat) = 100" "f64 (1000::rat) = 1000"
    using f64_of_nat_exact [of 10] f64_of_nat_exact [of 100] f64_of_nat_exact [of 1000] by simp_all
  ultimately show ?thesis using assms by (simp add: contribution_def f64_of_nat_def)
qed

subsection \<open>The ring buffer implements the log\<close>

lemma length_clear_slots [simp]: "length (clear_slots c stop w) = length w"
  by (induction c stop w rule: clear_slots.induct) (subst clear_slots.simps, simp)

lemma slot_index_less [simp]: "w \<noteq> [] \<Longrightarrow> slot_index w t < length w"
  by (simp add: slot_index_def nat_less_iff)

lemma slot_index_cong: "length v = length w \<Longrightarrow> slot_index v t = slot_index w t"
  by (simp add: slot_index_def)

lemma slot_index_shift: "slot_index w (t + int (length w)) = slot_index w t"
  by (simp add: slot_index_def)

lemma slot_index_eq_iff:
  assumes "w \<noteq> []" "\<bar>s - t\<bar> < int (length w)"
  shows "slot_index w s = slot_index w t \<longleftrightarrow> s = t"
proof
  assume "slot_index w s = slot_index w t"
  then have "s mod int (length w) = t mod int (length w)"
    using assms(1) by (simp add: slot_index_def nat_eq_iff)
  then have "int (length w) dvd (s - t)" by (simp add: mod_eq_dvd_iff)
  then show "s = t" using assms(2) dvd_imp_le_int [of "s - t" "int (length w)"] by auto
qed simp

lemma clear_slots_nth:
  assumes "i < length w"
  shows "clear_slots c stop w ! i =
           (if \<exists>t. stop < t \<and> t \<le> c \<and> slot_index w t = i then 0 else w ! i)"
  using assms
proof (induction c stop w rule: clear_slots.induct)
  case (1 c stop w)
  show ?case
  proof (cases "c > stop")
    case False
    then show ?thesis by (subst clear_slots.simps) auto
  next
    case True
    let ?w = "w[slot_index w c := 0]"
    have IH: "clear_slots (c - 1) stop ?w ! i =
        (if \<exists>t. stop < t \<and> t \<le> c - 1 \<and> slot_index ?w t = i then 0 else ?w ! i)"
      using "1.IH" [OF True] "1.prems" by simp
    have ix: "slot_index ?w t = slot_index w t" for t by (rule slot_index_cong) simp
    have split: "(\<exists>t. stop < t \<and> t \<le> c \<and> slot_index w t = i) \<longleftrightarrow>
        slot_index w c = i \<or> (\<exists>t. stop < t \<and> t \<le> c - 1 \<and> slot_index w t = i)"
    proof -
      have "t \<le> c \<longleftrightarrow> t = c \<or> t \<le> c - 1" for t by auto
      then show ?thesis using True by auto
    qed
    have "clear_slots c stop w = clear_slots (c - 1) stop ?w"
      using True by (subst clear_slots.simps) simp
    then show ?thesis using IH "1.prems" unfolding ix split by (auto simp: nth_list_update)
  qed
qed

lemma log_at_snoc: "log_at (evs @ [(t, n)]) s = log_at evs s + (if t = s then n else 0)"
  by (simp add: log_at_def)

lemma log_at_above: "(\<forall>e \<in> set evs. fst e \<le> b) \<Longrightarrow> b < t \<Longrightarrow> log_at evs t = 0"
proof -
  assume "\<forall>e \<in> set evs. fst e \<le> b" "b < t"
  then have "filter (\<lambda>e. fst e = t) evs = []" by (auto simp: filter_empty_conv)
  then show ?thesis by (simp add: log_at_def)
qed

lemma log_since_step: "log_since evs (t - 1) = log_at evs t + log_since evs t"
  by (induction evs) (auto simp: log_since_def log_at_def)

lemma sum_slots_log:
  assumes "\<And>t. cutoff < t \<Longrightarrow> t \<le> s \<Longrightarrow> w ! slot_index w t = log_at evs t"
  shows "sum_slots s cutoff w rate + log_since evs s =
           rate + (if cutoff \<le> s then log_since evs cutoff else log_since evs s)"
  using assms
proof (induction s cutoff w rate rule: sum_slots.induct)
  case (1 s cutoff w rate)
  show ?case
  proof (cases "s > cutoff")
    case False
    then show ?thesis by (subst sum_slots.simps) auto
  next
    case True
    let ?r = "rate + w ! slot_index w s"
    have step: "sum_slots s cutoff w rate = sum_slots (s - 1) cutoff w ?r"
      using True by (subst sum_slots.simps) simp
    have IH: "sum_slots (s - 1) cutoff w ?r + log_since evs (s - 1) = ?r + log_since evs cutoff"
      using "1.IH" [OF True] "1.prems" True by (simp split: if_splits)
    have at: "w ! slot_index w s = log_at evs s" using "1.prems" [of s] True by simp
    show ?thesis using IH True unfolding step log_since_step at by (simp add: algebra_simps)
  qed
qed

lemma meter_rel_new: "meter_rel (rate_new ws st) []"
proof -
  have "replicate (Suc ws) (0::u64) ! slot_index (replicate (Suc ws) (0::u64)) t = 0" for t
    using slot_index_less [of "replicate (Suc ws) (0::u64)" t] by (simp del: replicate_Suc)
  then show ?thesis by (simp add: meter_rel_def rate_new_def log_at_def del: replicate_Suc)
qed

lemma meter_rel_window: "meter_rel m evs \<Longrightarrow> window m \<noteq> []"
  by (auto simp: meter_rel_def)

lemma to_time_ge: "time m \<le> to_time m now_ms"
  by (simp add: to_time_def)

text \<open>The window once its expired slots are cleared: exact for the slots up to \<open>now\<close>.\<close>

lemma cleared_window:
  assumes rel: "meter_rel m evs" and now: "time m \<le> now"
    and w: "w = (if time m > now - int (length (window m))
                 then clear_slots (now - int (length (window m)))
                        (time m - int (length (window m))) (window m)
                 else replicate (length (window m)) 0)"
    and t: "now - int (length (window m)) < t" "t \<le> now"
  shows "w ! slot_index w t = log_at evs t"
proof -
  let ?W = "int (length (window m))"
  have ne: "window m \<noteq> []" by (rule meter_rel_window [OF rel])
  have len: "length w = length (window m)" using w by simp
  have ix: "slot_index w s = slot_index (window m) s" for s by (rule slot_index_cong [OF len])
  have above: "time m < t \<Longrightarrow> log_at evs t = 0"
    using rel log_at_above [of evs "time m" t] by (simp add: meter_rel_def)
  show ?thesis
  proof (cases "time m > now - ?W")
    case False
    then have "w = replicate (length (window m)) 0" using w by simp
    then have "w ! slot_index (window m) t = 0" using ne by (metis nth_replicate slot_index_less)
    then show ?thesis using False t above by (simp add: ix)
  next
    case True
    let ?hit = "\<exists>c. time m - ?W < c \<and> c \<le> now - ?W \<and>
                    slot_index (window m) c = slot_index (window m) t"
    have nth: "w ! slot_index w t = (if ?hit then 0 else window m ! slot_index (window m) t)"
      unfolding ix using True ne w clear_slots_nth [of "slot_index (window m) t" "window m"] by simp
    show ?thesis
    proof (cases "time m < t")
      case late: True
      have "slot_index (window m) (t - ?W) = slot_index (window m) t"
        using slot_index_shift [of "window m" "t - ?W"] by simp
      then have ?hit using late t by (intro exI [of _ "t - ?W"]) simp
      then show ?thesis using nth above late by simp
    next
      case False
      have no: "\<not> ?hit"
      proof
        assume ?hit
        then obtain c where c: "time m - ?W < c" "c \<le> now - ?W"
          and eq: "slot_index (window m) c = slot_index (window m) t" by blast
        have "slot_index (window m) (c + ?W) = slot_index (window m) t"
          using eq by (simp add: slot_index_shift)
        moreover have "\<bar>(c + ?W) - t\<bar> < ?W" using c t False by simp
        ultimately have "c + ?W = t" using slot_index_eq_iff [OF ne] by blast
        then show False using c False by simp
      qed
      have "time m - ?W < t" using t now by simp
      then have "window m ! slot_index (window m) t = log_at evs t"
        using rel False by (simp add: meter_rel_def)
      then show ?thesis using nth no by simp
    qed
  qed
qed

lemma meter_rel_inc:
  assumes rel: "meter_rel m evs"
  shows "meter_rel (rate_inc m count now_ms) (evs @ [(to_time m now_ms, count)])"
proof -
  let ?now = "to_time m now_ms" and ?W = "int (length (window m))"
  define w where "w = (if time m > ?now - ?W then clear_slots (?now - ?W) (time m - ?W) (window m)
                       else replicate (length (window m)) 0)"
  have len: "length w = length (window m)" by (simp add: w_def)
  have ne: "w \<noteq> []" using meter_rel_window [OF rel] len by auto
  let ?w = "w[slot_index w ?now := w ! slot_index w ?now + count]"
  have inc: "rate_inc m count now_ms = m\<lparr>window := ?w, time := ?now\<rparr>"
    by (simp add: rate_inc_def w_def Let_def)
  have ix: "slot_index ?w t = slot_index w t" for t by (rule slot_index_cong) simp
  have "?w ! slot_index ?w t = log_at (evs @ [(?now, count)]) t"
    if t: "?now - ?W < t" "t \<le> ?now" for t
  proof -
    have "w ! slot_index w t = log_at evs t"
      by (rule cleared_window [OF rel to_time_ge w_def t])
    moreover have "slot_index w ?now = slot_index w t \<longleftrightarrow> ?now = t"
      using t len by (intro slot_index_eq_iff [OF ne]) simp
    ultimately show ?thesis using ne by (auto simp: ix log_at_snoc nth_list_update)
  qed
  moreover have "\<forall>e \<in> set evs. fst e \<le> ?now"
    using rel to_time_ge [of m now_ms] by (auto simp: meter_rel_def)
  ultimately show ?thesis using rel by (simp add: inc meter_rel_def len)
qed

lemma window_count_log:
  assumes rel: "meter_rel m evs"
  shows "window_count m now_ms = log_since evs (to_time m now_ms - int (length (window m)))"
proof -
  let ?cut = "to_time m now_ms - int (length (window m))"
  have none: "log_since evs (max (time m) ?cut) = 0"
  proof -
    have "filter (\<lambda>e. max (time m) ?cut < fst e) evs = []"
      using rel by (auto simp: meter_rel_def filter_empty_conv)
    then show ?thesis by (simp add: log_since_def)
  qed
  have at: "window m ! slot_index (window m) t = log_at evs t" if "?cut < t" "t \<le> time m" for t
    using rel that to_time_ge [of m now_ms] by (simp add: meter_rel_def)
  show ?thesis
  proof (cases "?cut \<le> time m")
    case True
    then show ?thesis
      using sum_slots_log [of ?cut "time m" "window m" evs 0, OF at] none
      by (simp add: window_count_def Let_def max_def split: if_splits)
  next
    case False
    then have "sum_slots (time m) ?cut (window m) 0 = 0" by (subst sum_slots.simps) simp
    then show ?thesis using False none by (simp add: window_count_def Let_def max_def)
  qed
qed

subsection \<open>A sequence of reservations\<close>

text \<open>
  The log that a sequence of \<open>inc\<close> calls writes: the slot of a call is that of its clock reading, or
  the slot of an earlier call when the clock went back.
\<close>

definition slot_of :: "u64 \<Rightarrow> u64 \<Rightarrow> int" where
  "slot_of st now_ms = sint (div_ceil now_ms st)"

fun log_of :: "u64 \<Rightarrow> int \<Rightarrow> (u64 \<times> u64) list \<Rightarrow> event_log" where
  "log_of st t [] = []"
| "log_of st t ((count, now_ms) # calls) =
     (let s = max (slot_of st now_ms) t in (s, count) # log_of st s calls)"

fun incs :: "rate_meter \<Rightarrow> (u64 \<times> u64) list \<Rightarrow> rate_meter" where
  "incs m [] = m"
| "incs m ((count, now_ms) # calls) = incs (rate_inc m count now_ms) calls"

lemma rate_inc_frame [simp]:
  "time (rate_inc m count now_ms) = to_time m now_ms"
  "slot_time (rate_inc m count now_ms) = slot_time m"
  "window_size (rate_inc m count now_ms) = window_size m"
  by (simp_all add: rate_inc_def Let_def)

lemma incs_log: "meter_rel m evs \<Longrightarrow> meter_rel (incs m calls) (evs @ log_of (slot_time m) (time m) calls)"
proof (induction calls arbitrary: m evs)
  case (Cons call calls)
  obtain count now_ms where call: "call = (count, now_ms)" by (cases call)
  have "meter_rel (rate_inc m count now_ms) (evs @ [(to_time m now_ms, count)])"
    by (rule meter_rel_inc [OF Cons.prems])
  from Cons.IH [OF this] show ?case by (simp add: call to_time_def slot_of_def Let_def)
qed simp

lemma incs_frame [simp]:
  "slot_time (incs m calls) = slot_time m" "window_size (incs m calls) = window_size m"
  by (induction m calls rule: incs.induct) simp_all

lemma meter_rel_length: "meter_rel m evs \<Longrightarrow> length (window m) = window_size m + 1"
  by (simp add: meter_rel_def)

subsection \<open>The meter reports its window\<close>


end
