(* ===== verification/Rpc_Client.thy ===== *)
theory Rpc_Client
  imports Rpc_Transport Rpc_Rate
begin

text \<open>
  The JSON-RPC client (\<open>rpc-client/src/client.rs\<close>): construction and validation of its configuration,
  the rate gate, single calls and batches with retries, and the batch that is halved when the server
  cannot take it.

  The world a client runs in is explicit: \<open>readings\<close> are the values the clock returns to the rate
  gate, \<open>exchanges\<close> what the transport meets at each round trip, in the order the round trips are
  made; both lists are arbitrary, so a theorem speaks of every behaviour of server and clock.
  \<open>observed\<close> is what the observer saw and \<open>slept\<close> the pauses, both in order.  A client function
  returns \<open>None\<close> when it has used up an input list, that is, when it is still waiting.  Chunks and
  the halves of a split batch run concurrently in the source, and each waits for its own round trips
  only; here the left one runs first, which fixes the order in which they draw from \<open>exchanges\<close> and
  nothing else.

  The locale \<open>rpc_caller\<close> extends the contract of a transport by the client built over it.
\<close>

subsection \<open>Configuration\<close>

record rpc_client_config =
  url :: string
  max_batch_call_size :: "usize option"
  capacity :: usize
  rate_limit :: "f64_value option"
  request_timeout :: nat
  retry_attempts :: usize
  retry_schedule :: "nat list"
  retry_internal_server_errors :: bool
  ws_pool_size :: "usize option"

definition DEFAULT_REQUEST_CAPACITY :: usize where
  "DEFAULT_REQUEST_CAPACITY = 10"

definition rpc_client_config_default :: rpc_client_config where
  "rpc_client_config_default =
     \<lparr>url = ''http://localhost'', max_batch_call_size = None, capacity = DEFAULT_REQUEST_CAPACITY,
      rate_limit = None, request_timeout = 0, retry_attempts = 0,
      retry_schedule = [10, 100, 500, 2000, 10000, 20000],
      retry_internal_server_errors = False, ws_pool_size = None\<rparr>"

record call_options =
  priority :: u64
  opt_retry_attempts :: "usize option"
  opt_timeout :: "nat option"
  validate_result :: "(json \<Rightarrow> rpc_error + json) option"
  validate_error :: "(rpc_error_info \<Rightarrow> rpc_error + json) option"

record rate_state =
  meter :: rate_meter
  limit :: rat

datatype transport_choice = HttpTransport string usize | WsTransport string usize

record rpc_client =
  transport :: transport_choice
  config :: rpc_client_config
  batch_size_cap :: usize
  batch_concurrency :: usize
  permits :: usize
  counter :: u64
  rate :: "rate_state option"

definition usize_max :: usize where
  "usize_max = 2 ^ 64 - 1"

definition DEFAULT_POOL_SIZE :: usize where
  "DEFAULT_POOL_SIZE = 4"

text \<open>
  \<open>url::Url::parse\<close> is the argument \<open>parse_url\<close>: the scheme of the URL, or the error text.  The
  constant \<open>Semaphore::MAX_PERMITS\<close> of \<open>tokio\<close> is the argument \<open>max_permits\<close>.
\<close>

definition build_transport ::
    "(string \<Rightarrow> string + string) \<Rightarrow> string \<Rightarrow> usize \<Rightarrow> usize \<Rightarrow> rpc_error + transport_choice" where
  "build_transport parse_url u cap pool =
     (case parse_url u of
        Inl e \<Rightarrow> Inl (Protocol (''invalid RPC URL '' @ u @ '': '' @ e))
      | Inr scheme \<Rightarrow>
          (if scheme = ''http'' \<or> scheme = ''https'' then Inr (HttpTransport u cap)
           else if scheme = ''ws'' \<or> scheme = ''wss'' then Inr (WsTransport u pool)
           else Inl (Protocol (''unsupported RPC URL scheme '' @ scheme @ '' (expected http/https/ws/wss)''))))"

definition RATE_WINDOW_SIZE :: usize where
  "RATE_WINDOW_SIZE = 10"

fun positive_finite :: "f64_value \<Rightarrow> bool" where
  "positive_finite (Finite r) = (r > 0)"
| "positive_finite NonFinite = False"

fun finite_value :: "f64_value \<Rightarrow> rat" where
  "finite_value (Finite r) = r"
| "finite_value NonFinite = 0"

definition default_batch_size :: "rat option \<Rightarrow> usize" where
  "default_batch_size rl =
     (case rl of
        Some r \<Rightarrow> min usize_max (nat \<lfloor>max (of_int \<lfloor>f64 (r / 5)\<rfloor>) (1 :: rat)\<rfloor>)
      | None \<Rightarrow> usize_max)"

definition try_new ::
    "(string \<Rightarrow> string + string) \<Rightarrow> usize \<Rightarrow> rpc_client_config \<Rightarrow> rpc_error + rpc_client" where
  "try_new parse_url max_permits cfg =
     (if capacity cfg = 0 then Inl (InvalidConfig ''capacity must be greater than zero'')
      else if (case rate_limit cfg of Some l \<Rightarrow> \<not> positive_finite l | None \<Rightarrow> False)
      then Inl (InvalidConfig ''rate_limit must be finite and greater than zero'')
      else
        (let rl = map_option finite_value (rate_limit cfg);
             admitted = (\<lambda>l. calls_per_window (for_rate_limit RATE_WINDOW_SIZE l) l);
             size = (case max_batch_call_size cfg of Some n \<Rightarrow> n | None \<Rightarrow> default_batch_size rl);
             request_capacity = min (capacity cfg) max_permits
         in if (case rl of Some l \<Rightarrow> admitted l = 0 | None \<Rightarrow> False)
            then Inl (InvalidConfig ''rate_limit is too small for the rate-meter window'')
            else if size = 0
            then Inl (InvalidConfig ''max_batch_call_size must be greater than zero'')
            else if (case rl of Some l \<Rightarrow> size > admitted l | None \<Rightarrow> False)
            then Inl (InvalidConfig (''max_batch_call_size ('' @ decimal size @ '') exceeds the '' @
                        decimal (case rl of Some l \<Rightarrow> admitted l | None \<Rightarrow> 0) @
                        '' calls admitted by one rate window''))
            else
              (case build_transport parse_url (url cfg) request_capacity
                      (case ws_pool_size cfg of Some n \<Rightarrow> n | None \<Rightarrow> DEFAULT_POOL_SIZE) of
                 Inl e \<Rightarrow> Inl e
               | Inr t \<Rightarrow>
                   Inr \<lparr>transport = t, config = cfg, batch_size_cap = size,
                        batch_concurrency = request_capacity, permits = request_capacity, counter = 0,
                        rate = map_option
                          (\<lambda>l. \<lparr>meter = for_rate_limit RATE_WINDOW_SIZE l, limit = l\<rparr>) rl\<rparr>)))"

subsection \<open>The world and the rate gate\<close>

type_synonym call = "string \<times> json option"

record 'x world =
  client :: rpc_client
  readings :: "u64 list"
  exchanges :: "'x list"
  observed :: "observation list"
  slept :: "nat list"

definition observe :: "observation \<Rightarrow> 'x world \<Rightarrow> 'x world" where
  "observe e w = w\<lparr>observed := observed w @ [e]\<rparr>"

definition pause :: "nat \<Rightarrow> 'x world \<Rightarrow> 'x world" where
  "pause ms w = w\<lparr>slept := slept w @ [ms]\<rparr>"

text \<open>One reservation: admitted at the reading \<open>now_ms\<close>, or not.\<close>

definition try_reserve :: "rate_state \<Rightarrow> usize \<Rightarrow> u64 \<Rightarrow> rate_state option" where
  "try_reserve rs n now_ms =
     (if f64 (get_rate (meter rs) now_ms + contribution (meter rs) (of_nat n)) \<le> limit rs
      then Some (rs\<lparr>meter := rate_inc (meter rs) (of_nat n) now_ms\<rparr>)
      else None)"

fun reserve_loop :: "rate_state \<Rightarrow> usize \<Rightarrow> u64 list \<Rightarrow> (rate_state \<times> u64 list \<times> nat list) option" where
  "reserve_loop rs n [] = None"
| "reserve_loop rs n (now_ms # later) =
     (case try_reserve rs n now_ms of
        Some rs' \<Rightarrow> Some (rs', later, [])
      | None \<Rightarrow>
          (case reserve_loop rs n later of
             None \<Rightarrow> None
           | Some (rs', rest, waits) \<Rightarrow> Some (rs', rest, unat (slot_time (meter rs)) # waits)))"

definition wait_for_rate :: "usize \<Rightarrow> 'x world \<Rightarrow> 'x world option" where
  "wait_for_rate n w =
     (case rate (client w) of
        None \<Rightarrow> Some w
      | Some rs \<Rightarrow>
          (case reserve_loop rs n (readings w) of
             None \<Rightarrow> None
           | Some (rs', rest, waits) \<Rightarrow>
               Some (w\<lparr>client := (client w)\<lparr>rate := Some rs'\<rparr>, readings := rest,
                       slept := slept w @ waits\<rparr>)))"

subsection \<open>One round trip\<close>

definition process_response :: "call_options \<Rightarrow> rpc_response \<Rightarrow> rpc_error + json" where
  "process_response opts resp =
     (case error resp of
        Some err_info \<Rightarrow>
          (case validate_error opts of Some ve \<Rightarrow> ve err_info | None \<Rightarrow> Inl (from_info err_info))
      | None \<Rightarrow>
          (let v = (case result resp of Some v \<Rightarrow> v | None \<Rightarrow> JNull)
           in case validate_result opts of Some vr \<Rightarrow> vr v | None \<Rightarrow> Inr v))"

text \<open>\<open>counter.fetch_add(n) + 1\<close>: the first of \<open>n\<close> fresh ids.\<close>

definition fresh_ids :: "usize \<Rightarrow> 'x world \<Rightarrow> u64 \<times> 'x world" where
  "fresh_ids n w =
     (counter (client w) + 1, w\<lparr>client := (client w)\<lparr>counter := counter (client w) + of_nat n\<rparr>\<rparr>)"

fun next_exchange :: "'x world \<Rightarrow> ('x \<times> 'x world) option" where
  "next_exchange w = (case exchanges w of [] \<Rightarrow> None | x # xs \<Rightarrow> Some (x, w\<lparr>exchanges := xs\<rparr>))"

definition execute_single ::
    "('x \<Rightarrow> owned_rpc_request \<Rightarrow> rpc_error + rpc_response) \<Rightarrow> u64 \<Rightarrow> call \<Rightarrow> call_options \<Rightarrow> 'x world
     \<Rightarrow> ((rpc_error + json) \<times> 'x world) option" where
  "execute_single send_single i c opts w0 =
     do {
       w1 \<leftarrow> wait_for_rate 1 w0;
       let w2 = observe (OnRequest Single 1) w1;
       (x, w3) \<leftarrow> next_exchange w2;
       Some (case send_single x \<lparr>req_id = i, req_method = fst c, req_params = snd c\<rparr> of
               Inl e \<Rightarrow> Inl e
             | Inr resp \<Rightarrow> process_response opts resp, w3)
     }"

definition batch_requests :: "u64 \<Rightarrow> call list \<Rightarrow> owned_rpc_request list" where
  "batch_requests base_id calls =
     map (\<lambda>(i, (m, p)). \<lparr>req_id = base_id + of_nat i, req_method = m, req_params = p\<rparr>)
         (enumerate 0 calls)"

fun observe_errors :: "(rpc_error + json) list \<Rightarrow> 'x world \<Rightarrow> 'x world" where
  "observe_errors [] w = w"
| "observe_errors (Inl e # rs) w = observe_errors rs (observe (OnError e) w)"
| "observe_errors (Inr v # rs) w = observe_errors rs w"

definition execute_batch ::
    "('x \<Rightarrow> owned_rpc_request list \<Rightarrow> rpc_error + rpc_response list) \<Rightarrow> call list \<Rightarrow> call_options
     \<Rightarrow> 'x world \<Rightarrow> ((rpc_error + (rpc_error + json) list) \<times> 'x world) option" where
  "execute_batch send_batch calls opts w0 =
     do {
       w1 \<leftarrow> wait_for_rate (length calls) w0;
       let (base_id, w2) = fresh_ids (length calls) w1;
       let w3 = observe (OnRequest Batch (length calls)) w2;
       (x, w4) \<leftarrow> next_exchange w3;
       Some (case send_batch x (batch_requests base_id calls) of
               Inl e \<Rightarrow> (Inl e, w4)
             | Inr responses \<Rightarrow>
                 (let results = map (process_response opts) responses
                  in (Inr results, observe_errors results w4)))
     }"

subsection \<open>Retries\<close>

definition retry_pause :: "nat list \<Rightarrow> usize \<Rightarrow> nat" where
  "retry_pause schedule attempt =
     (case vec_get schedule (min attempt (length schedule - 1)) of
        Some d \<Rightarrow> d
      | None \<Rightarrow> 20000)"

definition attempts_of :: "call_options \<Rightarrow> 'x world \<Rightarrow> usize" where
  "attempts_of opts w =
     (case opt_retry_attempts opts of Some n \<Rightarrow> n | None \<Rightarrow> retry_attempts (config (client w)))"

definition internal_of :: "'x world \<Rightarrow> bool" where
  "internal_of w = retry_internal_server_errors (config (client w))"

definition schedule_of :: "'x world \<Rightarrow> nat list" where
  "schedule_of w = retry_schedule (config (client w))"

definition exhausted :: "usize \<Rightarrow> rpc_error \<Rightarrow> rpc_error" where
  "exhausted attempt e = (if attempt > 0 then RetryExhausted e else e)"

text \<open>
  The loop of \<open>call_with_options\<close> and \<open>batch_chunk\<close> around one attempt \<open>op\<close>; \<open>left\<close> is how many retries
  are left, \<open>attempt + left\<close> being the number of retries allowed.
\<close>

fun retry_loop ::
    "('x world \<Rightarrow> ((rpc_error + 'r) \<times> 'x world) option) \<Rightarrow> usize \<Rightarrow> usize \<Rightarrow> 'x world
     \<Rightarrow> ((rpc_error + 'r) \<times> 'x world) option" where
  "retry_loop op attempt left w =
     (case op w of
        None \<Rightarrow> None
      | Some (Inr v, w1) \<Rightarrow> Some (Inr v, w1)
      | Some (Inl e, w1) \<Rightarrow>
          (case left of
             Suc rest \<Rightarrow>
               (if is_retryable e (internal_of w1)
                then retry_loop op (Suc attempt) rest
                       (pause (retry_pause (schedule_of w1) attempt) (observe (OnRetry e) w1))
                else Some (Inl (exhausted attempt e), observe (OnError e) w1))
           | 0 \<Rightarrow> Some (Inl (exhausted attempt e), observe (OnError e) w1)))"

declare retry_loop.simps [simp del]

definition call_with_options ::
    "('x \<Rightarrow> owned_rpc_request \<Rightarrow> rpc_error + rpc_response) \<Rightarrow> call \<Rightarrow> call_options \<Rightarrow> 'x world
     \<Rightarrow> ((rpc_error + json) \<times> 'x world) option" where
  "call_with_options send_single c opts w =
     retry_loop
       (\<lambda>w. let (i, w1) = fresh_ids 1 w in execute_single send_single i c opts w1)
       0 (attempts_of opts w) w"

definition batch_chunk ::
    "('x \<Rightarrow> owned_rpc_request \<Rightarrow> rpc_error + rpc_response)
     \<Rightarrow> ('x \<Rightarrow> owned_rpc_request list \<Rightarrow> rpc_error + rpc_response list)
     \<Rightarrow> call list \<Rightarrow> call_options \<Rightarrow> 'x world \<Rightarrow> ((rpc_error + (rpc_error + json) list) \<times> 'x world) option" where
  "batch_chunk send_single send_batch calls opts w =
     (case calls of
        [] \<Rightarrow> Some (Inr [], w)
      | [c] \<Rightarrow>
          (case call_with_options send_single c opts w of
             None \<Rightarrow> None
           | Some (r, w1) \<Rightarrow> Some (Inr [r], w1))
      | _ \<Rightarrow> retry_loop (execute_batch send_batch calls opts) 0 (attempts_of opts w) w)"

text \<open>
  The loop of \<open>reduce_batch\<close>: it ends with a result, or breaks (\<open>None\<close>) to split the batch.
\<close>

fun reduce_loop ::
    "('x world \<Rightarrow> ((rpc_error + 'r) \<times> 'x world) option) \<Rightarrow> usize \<Rightarrow> usize \<Rightarrow> 'x world
     \<Rightarrow> ((rpc_error + 'r) option \<times> 'x world) option" where
  "reduce_loop op attempt left w =
     (case op w of
        None \<Rightarrow> None
      | Some (Inr v, w1) \<Rightarrow> Some (Some (Inr v), w1)
      | Some (Inl e, w1) \<Rightarrow>
          (if is_batch_shape e then Some (None, observe (OnRetry e) w1)
           else if left > 0 \<and> is_retryable e (internal_of w1) then
             (case left of
                0 \<Rightarrow> None
              | Suc rest \<Rightarrow>
                  reduce_loop op (Suc attempt) rest
                    (pause (retry_pause (schedule_of w1) attempt) (observe (OnRetry e) w1)))
           else if is_retryable_batch_only e (internal_of w1) then Some (None, observe (OnRetry e) w1)
           else Some (Some (Inl (exhausted attempt e)), observe (OnError e) w1)))"

declare reduce_loop.simps [simp del]

function reduce_batch ::
    "('x \<Rightarrow> owned_rpc_request \<Rightarrow> rpc_error + rpc_response)
     \<Rightarrow> ('x \<Rightarrow> owned_rpc_request list \<Rightarrow> rpc_error + rpc_response list)
     \<Rightarrow> call list \<Rightarrow> call_options \<Rightarrow> 'x world \<Rightarrow> ((rpc_error + (rpc_error + json) list) \<times> 'x world) option" where
  "reduce_batch send_single send_batch calls opts w =
     (if length calls \<le> 1 then batch_chunk send_single send_batch calls opts w
      else
        (case reduce_loop (execute_batch send_batch calls opts) 0 (attempts_of opts w) w of
           None \<Rightarrow> None
         | Some (Some r, w1) \<Rightarrow> Some (r, w1)
         | Some (None, w1) \<Rightarrow>
             (let mid = (length calls + 1) div 2
              in case reduce_batch send_single send_batch (take mid calls) opts w1 of
                   None \<Rightarrow> None
                 | Some (left, w2) \<Rightarrow>
                     (case reduce_batch send_single send_batch (drop mid calls) opts w2 of
                        None \<Rightarrow> None
                      | Some (right, w3) \<Rightarrow>
                          Some (case left of
                                  Inl e \<Rightarrow> Inl e
                                | Inr ls \<Rightarrow>
                                    (case right of Inl e \<Rightarrow> Inl e | Inr rs \<Rightarrow> Inr (ls @ rs)), w3)))))"
  by pat_completeness auto
termination
  by (relation "measure (\<lambda>(ss, sb, calls, opts, w). length calls)") auto

declare reduce_batch.simps [simp del]

subsection \<open>Batches of any size\<close>

function split_calls :: "'a list \<Rightarrow> usize \<Rightarrow> 'a list list" where
  "split_calls calls n =
     (if take n calls = [] then [] else take n calls # split_calls (drop n calls) n)"
  by pat_completeness auto
termination
  by (relation "measure (\<lambda>(calls, n). length calls)") auto

declare split_calls.simps [simp del]

text \<open>The chunks in order; the first chunk that fails ends the call.\<close>

fun run_chunks ::
    "(call list \<Rightarrow> 'x world \<Rightarrow> ((rpc_error + (rpc_error + json) list) \<times> 'x world) option)
     \<Rightarrow> call list list \<Rightarrow> 'x world \<Rightarrow> ((rpc_error + (rpc_error + json) list) \<times> 'x world) option" where
  "run_chunks f [] w = Some (Inr [], w)"
| "run_chunks f (chunk # chunks) w =
     (case f chunk w of
        None \<Rightarrow> None
      | Some (Inl e, w1) \<Rightarrow> Some (Inl e, w1)
      | Some (Inr rs, w1) \<Rightarrow>
          (case run_chunks f chunks w1 of
             None \<Rightarrow> None
           | Some (Inl e, w2) \<Rightarrow> Some (Inl e, w2)
           | Some (Inr rest, w2) \<Rightarrow> Some (Inr (rs @ rest), w2)))"

definition batch_call ::
    "('x \<Rightarrow> owned_rpc_request \<Rightarrow> rpc_error + rpc_response)
     \<Rightarrow> ('x \<Rightarrow> owned_rpc_request list \<Rightarrow> rpc_error + rpc_response list)
     \<Rightarrow> call list \<Rightarrow> call_options \<Rightarrow> 'x world \<Rightarrow> ((rpc_error + (rpc_error + json) list) \<times> 'x world) option" where
  "batch_call send_single send_batch calls opts w =
     (if calls = [] then Some (Inr [], w)
      else run_chunks (\<lambda>chunk. batch_chunk send_single send_batch chunk opts)
             (split_calls calls (batch_size_cap (client w))) w)"

definition batch_call_reduce_on_retry ::
    "('x \<Rightarrow> owned_rpc_request \<Rightarrow> rpc_error + rpc_response)
     \<Rightarrow> ('x \<Rightarrow> owned_rpc_request list \<Rightarrow> rpc_error + rpc_response list)
     \<Rightarrow> call list \<Rightarrow> call_options \<Rightarrow> 'x world \<Rightarrow> ((rpc_error + (rpc_error + json) list) \<times> 'x world) option" where
  "batch_call_reduce_on_retry send_single send_batch calls opts w =
     (if calls = [] then Some (Inr [], w)
      else run_chunks (\<lambda>chunk. reduce_batch send_single send_batch chunk opts)
             (split_calls calls (batch_size_cap (client w))) w)"

end
