(* ===== verification/Rpc_Retry.thy ===== *)
theory Rpc_Retry
  imports Rpc_Client
begin

text \<open>
  What the retry layer of the client promises.  \<open>attempt_op\<close> is the contract of one attempt: with no
  rate limit configured it uses one exchange, returns and reports its request.  The retry ladder and
  the loop of the reducing batch are verified once over that contract, and it is interpreted on the
  single call and on the batch.  The results of a batch are verified over the contract of the
  transport, in the locale \<open>rpc_caller\<close>.
\<close>

subsection \<open>One attempt\<close>

text \<open>What a round trip leaves alone.\<close>

definition kept :: "'x world \<Rightarrow> 'x world \<Rightarrow> bool" where
  "kept w w' \<longleftrightarrow>
     config (client w') = config (client w) \<and> batch_size_cap (client w') = batch_size_cap (client w) \<and>
     rate (client w') = rate (client w)"

lemma kept_refl [simp]: "kept w w"
  by (simp add: kept_def)

lemma kept_trans: "kept w w' \<Longrightarrow> kept w' w'' \<Longrightarrow> kept w w''"
  by (simp add: kept_def)

lemma kept_observe [simp]: "kept w (observe e w') \<longleftrightarrow> kept w w'"
  and kept_pause [simp]: "kept w (pause ms w') \<longleftrightarrow> kept w w'"
  by (simp_all add: kept_def observe_def pause_def)

lemma world_frame [simp]:
  "exchanges (observe e w) = exchanges w" "exchanges (pause ms w) = exchanges w"
  "client (observe e w) = client w" "client (pause ms w) = client w"
  "slept (observe e w) = slept w" "slept (pause ms w) = slept w @ [ms]"
  "observed (observe e w) = observed w @ [e]" "observed (pause ms w) = observed w"
  by (simp_all add: observe_def pause_def)

lemma kept_params:
  "kept w w' \<Longrightarrow> internal_of w' = internal_of w"
  "kept w w' \<Longrightarrow> schedule_of w' = schedule_of w"
  "kept w w' \<Longrightarrow> attempts_of opts w' = attempts_of opts w"
  by (simp_all add: kept_def internal_of_def schedule_of_def attempts_of_def split: option.splits)

lemma params_frame [simp]:
  "internal_of (observe e w) = internal_of w" "internal_of (pause ms w) = internal_of w"
  "schedule_of (observe e w) = schedule_of w" "schedule_of (pause ms w) = schedule_of w"
  by (simp_all add: internal_of_def schedule_of_def)

text \<open>
  The trace of a retry ladder: \<open>es\<close> are the errors retried, each after one request and before one
  pause of the schedule; then the request that settled the call.
\<close>

definition retry_trace ::
    "observation \<Rightarrow> ('r \<Rightarrow> observation list) \<Rightarrow> usize \<Rightarrow> usize \<Rightarrow> rpc_error list \<Rightarrow> rpc_error + 'r
     \<Rightarrow> 'x world \<Rightarrow> 'x world \<Rightarrow> bool" where
  "retry_trace request items attempt left es r w w' \<longleftrightarrow>
     length es \<le> left \<and> kept w w' \<and>
     exchanges w' = drop (Suc (length es)) (exchanges w) \<and>
     slept w' = slept w @ map (retry_pause (schedule_of w)) [attempt ..< attempt + length es] \<and>
     (\<forall>e \<in> set es. is_retryable e (internal_of w)) \<and>
     (let before = observed w @ concat (map (\<lambda>e. [request, OnRetry e]) es) @ [request]
      in case r of
           Inr v \<Rightarrow> observed w' = before @ items v
         | Inl e \<Rightarrow>
             (\<exists>cause. e = exhausted (attempt + length es) cause \<and>
                      (length es < left \<longrightarrow> \<not> is_retryable cause (internal_of w)) \<and>
                      observed w' = before @ [OnError cause]))"

locale attempt_op =
  fixes op :: "'x world \<Rightarrow> ((rpc_error + 'r) \<times> 'x world) option"
    and request :: observation
    and items :: "'r \<Rightarrow> observation list"
  assumes op_steps: "rate (client w) = None \<Longrightarrow> exchanges w = x # xs \<Longrightarrow>
      \<exists>r w'. op w = Some (r, w') \<and> exchanges w' = xs \<and> kept w w' \<and> slept w' = slept w \<and>
             observed w' = observed w @ request # (case r of Inl e \<Rightarrow> [] | Inr v \<Rightarrow> items v)"
begin

lemma retry_loop_trace:
  "rate (client w) = None \<Longrightarrow> left < length (exchanges w) \<Longrightarrow>
   \<exists>r w' es. retry_loop op attempt left w = Some (r, w') \<and>
             retry_trace request items attempt left es r w w'"
proof (induction left arbitrary: attempt w)
  case (0 attempt w)
  then obtain x xs where ex: "exchanges w = x # xs" by (cases "exchanges w") auto
  from op_steps [OF "0.prems"(1) ex] obtain r w1 where
    op: "op w = Some (r, w1)" "exchanges w1 = xs" "kept w w1" "slept w1 = slept w"
    "observed w1 = observed w @ request # (case r of Inl e \<Rightarrow> [] | Inr v \<Rightarrow> items v)" by blast
  show ?case
  proof (cases r)
    case (Inl e)
    then have "retry_loop op attempt 0 w = Some (Inl (exhausted attempt e), observe (OnError e) w1)"
      using op by (simp add: retry_loop.simps)
    then show ?thesis using op Inl ex by (fastforce simp: retry_trace_def Let_def)
  next
    case (Inr v)
    then have "retry_loop op attempt 0 w = Some (Inr v, w1)" using op by (simp add: retry_loop.simps)
    then show ?thesis using op Inr ex by (fastforce simp: retry_trace_def Let_def)
  qed
next
  case (Suc left attempt w)
  then obtain x xs where ex: "exchanges w = x # xs" by (cases "exchanges w") auto
  from op_steps [OF Suc.prems(1) ex] obtain r w1 where
    op: "op w = Some (r, w1)" "exchanges w1 = xs" "kept w w1" "slept w1 = slept w"
    "observed w1 = observed w @ request # (case r of Inl e \<Rightarrow> [] | Inr v \<Rightarrow> items v)" by blast
  consider (retry) e where "r = Inl e" "is_retryable e (internal_of w1)"
    | (stop) e where "r = Inl e" "\<not> is_retryable e (internal_of w1)"
    | (settled) v where "r = Inr v" by (cases r) auto
  then show ?case
  proof cases
    case retry
    let ?w = "pause (retry_pause (schedule_of w1) attempt) (observe (OnRetry e) w1)"
    have "rate (client ?w) = None" "left < length (exchanges ?w)"
      using op Suc.prems ex by (simp_all add: kept_def)
    from Suc.IH [OF this, of "Suc attempt"] obtain r' w' es where
      loop: "retry_loop op (Suc attempt) left ?w = Some (r', w')"
      and tr: "retry_trace request items (Suc attempt) left es r' ?w w'" by blast
    have k: "kept w ?w" using op by simp
    note params = kept_params(1,2) [OF op(3)]
    have upt: "[attempt ..< attempt + length (e # es)] = attempt # [Suc attempt ..< Suc attempt + length es]"
      by (simp add: upt_conv_Cons del: upt_Suc)
    have "retry_loop op attempt (Suc left) w = Some (r', w')"
      using op retry loop by (simp add: retry_loop.simps [of op attempt])
    moreover have "retry_trace request items attempt (Suc left) (e # es) r' w w'"
      using tr op retry ex kept_trans [OF k]
      unfolding retry_trace_def Let_def upt by (simp add: params split: sum.splits del: upt_Suc)
    ultimately show ?thesis by blast
  next
    case stop
    then have "retry_loop op attempt (Suc left) w = Some (Inl (exhausted attempt e), observe (OnError e) w1)"
      using op by (simp add: retry_loop.simps)
    moreover have "retry_trace request items attempt (Suc left) [] (Inl (exhausted attempt e)) w
        (observe (OnError e) w1)"
      using op stop ex kept_params [OF op(3)] by (auto simp: retry_trace_def Let_def)
    ultimately show ?thesis by blast
  next
    case settled
    then have "retry_loop op attempt (Suc left) w = Some (Inr v, w1)"
      using op by (simp add: retry_loop.simps)
    moreover have "retry_trace request items attempt (Suc left) [] (Inr v) w w1"
      using op settled ex by (simp add: retry_trace_def Let_def)
    ultimately show ?thesis by blast
  qed
qed

lemma reduce_loop_returns:
  "rate (client w) = None \<Longrightarrow> left < length (exchanges w) \<Longrightarrow>
   \<exists>r w' k. reduce_loop op attempt left w = Some (r, w') \<and> kept w w' \<and> k \<le> Suc left \<and>
            exchanges w' = drop k (exchanges w)"
proof (induction left arbitrary: attempt w)
  case (0 attempt w)
  then obtain x xs where ex: "exchanges w = x # xs" by (cases "exchanges w") auto
  from op_steps [OF "0.prems"(1) ex] obtain r w1 where
    op: "op w = Some (r, w1)" "exchanges w1 = xs" "kept w w1" by blast
  then have "exchanges w1 = drop 1 (exchanges w)" using ex by simp
  then show ?case using op by (cases r) (force simp: reduce_loop.simps [of op attempt])+
next
  case (Suc left attempt w)
  then obtain x xs where ex: "exchanges w = x # xs" by (cases "exchanges w") auto
  from op_steps [OF Suc.prems(1) ex] obtain r w1 where
    op: "op w = Some (r, w1)" "exchanges w1 = xs" "kept w w1" by blast
  then have one: "exchanges w1 = drop 1 (exchanges w)" "1 \<le> Suc (Suc left)" using ex by simp_all
  consider (retry) e where "r = Inl e" "\<not> is_batch_shape e" "is_retryable e (internal_of w1)"
    | (stop) e where "r = Inl e" "is_batch_shape e \<or> \<not> is_retryable e (internal_of w1)"
    | (settled) v where "r = Inr v" by (cases r) auto
  then show ?case
  proof cases
    case retry
    let ?w = "pause (retry_pause (schedule_of w1) attempt) (observe (OnRetry e) w1)"
    have "rate (client ?w) = None" "left < length (exchanges ?w)"
      using op Suc.prems ex by (simp_all add: kept_def)
    from Suc.IH [OF this, of "Suc attempt"] obtain r' w' k where
      loop: "reduce_loop op (Suc attempt) left ?w = Some (r', w')" "kept ?w w'" "k \<le> Suc left"
      "exchanges w' = drop k (exchanges ?w)" by blast
    have "reduce_loop op attempt (Suc left) w = Some (r', w')"
      using op retry loop by (simp add: reduce_loop.simps [of op attempt])
    moreover have "kept w ?w" using op by simp
    then have "kept w w'" using kept_trans loop(2) by blast
    moreover have "exchanges w' = drop (Suc k) (exchanges w)" using loop ex op by simp
    ultimately show ?thesis using loop(3) by (meson Suc_le_mono)
  next
    case stop
    then show ?thesis using op one by (force simp: reduce_loop.simps [of op attempt])
  next
    case settled
    then show ?thesis using op one by (force simp: reduce_loop.simps [of op attempt])
  qed
qed

end

subsection \<open>The attempts of the client\<close>

definition item_errors :: "(rpc_error + json) list \<Rightarrow> observation list" where
  "item_errors rs = concat (map (\<lambda>r. case r of Inl e \<Rightarrow> [OnError e] | Inr v \<Rightarrow> []) rs)"

lemma observe_errors_frame [simp]:
  "observed (observe_errors rs w) = observed w @ item_errors rs"
  "exchanges (observe_errors rs w) = exchanges w"
  "client (observe_errors rs w) = client w"
  "slept (observe_errors rs w) = slept w"
  by (induction rs w rule: observe_errors.induct) (simp_all add: item_errors_def)

lemma wait_for_rate_unlimited [simp]: "rate (client w) = None \<Longrightarrow> wait_for_rate n w = Some w"
  by (simp add: wait_for_rate_def)

interpretation single_attempt:
  attempt_op "\<lambda>w. let (i, w1) = fresh_ids 1 w in execute_single send_single i c opts w1"
    "OnRequest Single 1" "\<lambda>_. []"
  for send_single c opts
  by unfold_locales
     (auto simp: execute_single_def fresh_ids_def kept_def Let_def split: sum.splits)

interpretation batch_attempt:
  attempt_op "execute_batch send_batch calls opts" "OnRequest Batch (length calls)" item_errors
  for send_batch calls opts
  by unfold_locales
     (auto simp: execute_batch_def fresh_ids_def kept_def Let_def split: sum.splits)

subsection \<open>The client returns\<close>

lemma batch_chunk_returns:
  assumes "rate (client w) = None" "attempts_of opts w < length (exchanges w)"
  shows "\<exists>r w' k. batch_chunk send_single send_batch calls opts w = Some (r, w') \<and> kept w w' \<and>
           k \<le> Suc (attempts_of opts w) \<and> exchanges w' = drop k (exchanges w) \<and> (calls = [] \<longrightarrow> k = 0)"
proof (cases calls rule: remdups_adj.cases)
  case 1
  then show ?thesis by (force simp: batch_chunk_def)
next
  case (2 c)
  obtain r w' es where
    "call_with_options send_single c opts w = Some (r, w')"
    "retry_trace (OnRequest Single 1) (\<lambda>_. []) 0 (attempts_of opts w) es r w w'"
    using single_attempt.retry_loop_trace [OF assms, of send_single c opts 0]
    unfolding call_with_options_def by blast
  then show ?thesis using 2 by (force simp: batch_chunk_def retry_trace_def)
next
  case (3 c d cs)
  obtain r w' es where
    "retry_loop (execute_batch send_batch calls opts) 0 (attempts_of opts w) w = Some (r, w')"
    "retry_trace (OnRequest Batch (length calls)) item_errors 0 (attempts_of opts w) es r w w'"
    using batch_attempt.retry_loop_trace [OF assms, of send_batch calls opts 0] by blast
  then show ?thesis using 3 by (force simp: batch_chunk_def retry_trace_def)
qed

text \<open>A batch of \<open>n\<close> calls is split into at most \<open>2 * n - 1\<close> batches, each with its own ladder.\<close>

definition round_trips :: "usize \<Rightarrow> usize \<Rightarrow> usize" where
  "round_trips retries n = Suc retries * (2 * n - 1)"

lemma round_trips_split:
  assumes "n = l + r" "0 < l" "0 < r"
  shows "Suc retries + round_trips retries l + round_trips retries r = round_trips retries n"
proof -
  have "2 * n - 1 = 1 + (2 * l - 1) + (2 * r - 1)" using assms by simp
  then show ?thesis by (simp only: round_trips_def add_mult_distrib2) simp
qed

lemma reduce_batch_returns:
  "calls \<noteq> [] \<Longrightarrow> rate (client w) = None \<Longrightarrow>
   round_trips (attempts_of opts w) (length calls) \<le> length (exchanges w) \<Longrightarrow>
   \<exists>r w' k. reduce_batch send_single send_batch calls opts w = Some (r, w') \<and> kept w w' \<and>
            k \<le> round_trips (attempts_of opts w) (length calls) \<and> exchanges w' = drop k (exchanges w)"
proof (induction send_single send_batch calls opts w rule: reduce_batch.induct)
  case (1 send_single send_batch calls opts w)
  let ?a = "attempts_of opts w"
  show ?case
  proof (cases "length calls \<le> 1")
    case True
    then have n: "length calls = 1" using "1.prems"(1) by (cases calls) auto
    then have "?a < length (exchanges w)" using "1.prems"(3) by (simp add: round_trips_def)
    moreover have "reduce_batch send_single send_batch calls opts w =
        batch_chunk send_single send_batch calls opts w"
      using True by (simp add: reduce_batch.simps)
    ultimately show ?thesis
      using batch_chunk_returns [OF "1.prems"(2), of opts send_single send_batch calls] n
      by (auto simp: round_trips_def)
  next
    case False
    define mid where "mid = (length calls + 1) div 2"
    have len: "0 < mid" "mid < length calls" using False by (simp_all add: mid_def)
    let ?rt = "round_trips ?a"
    have parts: "Suc ?a + ?rt mid + ?rt (length calls - mid) = ?rt (length calls)"
      using len by (intro round_trips_split) simp_all
    then have "?a < length (exchanges w)" using "1.prems"(3) by simp
    from batch_attempt.reduce_loop_returns [OF "1.prems"(2) this, of send_batch calls opts 0]
    obtain d w1 k1 where
      loop: "reduce_loop (execute_batch send_batch calls opts) 0 ?a w = Some (d, w1)"
      and w1: "kept w w1" "k1 \<le> Suc ?a" "exchanges w1 = drop k1 (exchanges w)" by blast
    show ?thesis
    proof (cases d)
      case (Some r)
      then have "reduce_batch send_single send_batch calls opts w = Some (r, w1)"
        unfolding reduce_batch.simps [of send_single send_batch calls] using False loop by simp
      moreover have "k1 \<le> ?rt (length calls)" using w1 parts by simp
      ultimately show ?thesis using w1 by blast
    next
      case None
      note IH = "1.IH" [OF False loop refl None mid_def]
      have a1: "attempts_of opts w1 = ?a" by (rule kept_params(3) [OF w1(1)])
      have r1: "rate (client w1) = None" using w1(1) "1.prems"(2) by (simp add: kept_def)
      obtain left w2 k2 where
        left: "reduce_batch send_single send_batch (take mid calls) opts w1 = Some (left, w2)"
        and w2: "kept w1 w2" "k2 \<le> ?rt mid" "exchanges w2 = drop k2 (exchanges w1)"
        using IH(1) len r1 w1 "1.prems"(3) parts unfolding a1 by fastforce
      have a2: "attempts_of opts w2 = ?a" using kept_params(3) [OF w2(1)] a1 by simp
      have r2: "rate (client w2) = None" using w2(1) r1 by (simp add: kept_def)
      obtain right w3 k3 where
        right: "reduce_batch send_single send_batch (drop mid calls) opts w2 = Some (right, w3)"
        and w3: "kept w2 w3" "k3 \<le> ?rt (length calls - mid)" "exchanges w3 = drop k3 (exchanges w2)"
        using IH(2) [OF left refl] len r2 w1 w2 "1.prems"(3) parts unfolding a2 by fastforce
      have "kept w w3" using kept_trans w1(1) w2(1) w3(1) by metis
      moreover have "exchanges w3 = drop (k3 + (k2 + k1)) (exchanges w)"
        using w1 w2 w3 by (simp add: add.assoc)
      moreover have "k3 + (k2 + k1) \<le> ?rt (length calls)" using w1 w2 w3 parts by simp
      moreover have "\<exists>r. reduce_batch send_single send_batch calls opts w = Some (r, w3)"
        unfolding reduce_batch.simps [of send_single send_batch calls]
        using False loop None left right by (simp add: mid_def Let_def)
      ultimately show ?thesis by blast
    qed
  qed
qed

lemma length_split_calls:
  "calls \<noteq> [] \<Longrightarrow> 0 < n \<Longrightarrow> split_calls calls n = take n calls # split_calls (drop n calls) n"
  by (subst split_calls.simps) simp

lemma split_calls_Nil [simp]: "split_calls [] n = []"
  by (simp add: split_calls.simps)

lemma concat_split_calls: "0 < n \<Longrightarrow> concat (split_calls calls n) = calls"
proof (induction calls n rule: split_calls.induct)
  case (1 calls n)
  then show ?case
    by (cases "calls = []") (simp_all add: length_split_calls [of calls] append_take_drop_id)
qed

lemma split_calls_sizes: "chunk \<in> set (split_calls calls n) \<Longrightarrow> chunk \<noteq> [] \<and> length chunk \<le> n"
proof (induction calls n rule: split_calls.induct)
  case (1 calls n)
  then show ?case by (subst (asm) (2) split_calls.simps) (auto split: if_splits)
qed

lemma run_chunks_returns:
  assumes step: "\<And>chunk w. chunk \<in> set chunks \<Longrightarrow> rate (client w) = None \<Longrightarrow>
      attempts_of opts w = a \<Longrightarrow> round_trips a (length chunk) \<le> length (exchanges w) \<Longrightarrow>
      \<exists>r w' k. f chunk w = Some (r, w') \<and> kept w w' \<and>
               k \<le> round_trips a (length chunk) \<and> exchanges w' = drop k (exchanges w)"
    and "rate (client w) = None" "attempts_of opts w = a"
    and "sum_list (map (\<lambda>chunk. round_trips a (length chunk)) chunks) \<le> length (exchanges w)"
  shows "\<exists>r w' k. run_chunks f chunks w = Some (r, w') \<and> kept w w' \<and>
           k \<le> sum_list (map (\<lambda>chunk. round_trips a (length chunk)) chunks) \<and>
           exchanges w' = drop k (exchanges w)"
  using assms
proof (induction chunks arbitrary: w)
  case Nil
  then show ?case by force
next
  case (Cons chunk chunks)
  obtain r w1 k where 1: "f chunk w = Some (r, w1)" "kept w w1"
    "k \<le> round_trips a (length chunk)" "exchanges w1 = drop k (exchanges w)"
    using Cons.prems(1) [of chunk w] Cons.prems(2-4) by auto
  have "rate (client w1) = None" "attempts_of opts w1 = a"
    using 1(2) Cons.prems(2,3) kept_params(3) [OF 1(2)] by (simp_all add: kept_def)
  moreover have "sum_list (map (\<lambda>chunk. round_trips a (length chunk)) chunks) \<le> length (exchanges w1)"
    using 1 Cons.prems(4) by simp
  ultimately obtain r' w2 k' where 2: "run_chunks f chunks w1 = Some (r', w2)" "kept w1 w2"
    "k' \<le> sum_list (map (\<lambda>chunk. round_trips a (length chunk)) chunks)"
    "exchanges w2 = drop k' (exchanges w1)"
    using Cons.IH [of w1] Cons.prems(1) by auto
  show ?case
  proof (cases r)
    case (Inl e)
    then have "run_chunks f (chunk # chunks) w = Some (Inl e, w1)" using 1 by simp
    moreover have "k \<le> sum_list (map (\<lambda>chunk. round_trips a (length chunk)) (chunk # chunks))"
      using 1 by simp
    ultimately show ?thesis using 1 by blast
  next
    case (Inr rs)
    then have "\<exists>r''. run_chunks f (chunk # chunks) w = Some (r'', w2)"
      using 1 2 by (cases r') simp_all
    moreover have "exchanges w2 = drop (k' + k) (exchanges w)" using 1 2 by simp
    moreover have "k' + k \<le> sum_list (map (\<lambda>chunk. round_trips a (length chunk)) (chunk # chunks))"
      using 1 2 by simp
    ultimately show ?thesis using kept_trans [OF 1(2) 2(2)] by blast
  qed
qed

lemma round_trips_le: "round_trips a n \<le> Suc a * (2 * n)"
  unfolding round_trips_def by (intro mult_le_mono) simp_all

lemma round_trips_sum:
  "sum_list (map (\<lambda>chunk. round_trips a (length chunk)) chunks) \<le> Suc a * (2 * length (concat chunks))"
proof (induction chunks)
  case (Cons chunk chunks)
  have "Suc a * (2 * length (concat (chunk # chunks)))
      = Suc a * (2 * length chunk) + Suc a * (2 * length (concat chunks))"
    by (simp add: add_mult_distrib2)
  then show ?case using Cons.IH round_trips_le [of a "length chunk"] by simp
qed simp

subsection \<open>The results of a batch\<close>

text \<open>
  \<open>result_for serves opts c r\<close>: \<open>r\<close> is what the client makes of a response the transport gave for a
  request that carries the call \<open>c\<close>, or an error.
\<close>

definition result_for ::
    "(owned_rpc_request \<Rightarrow> rpc_response \<Rightarrow> bool) \<Rightarrow> call_options \<Rightarrow> call \<Rightarrow> rpc_error + json \<Rightarrow> bool" where
  "result_for serves opts c r \<longleftrightarrow>
     isl r \<or>
     (\<exists>q resp. req_method q = fst c \<and> req_params q = snd c \<and> serves q resp \<and>
               r = process_response opts resp)"

lemma result_forI:
  "serves q resp \<Longrightarrow> req_method q = fst c \<Longrightarrow> req_params q = snd c \<Longrightarrow>
   result_for serves opts c (process_response opts resp)"
  by (auto simp: result_for_def)

lemma retry_loop_Inr:
  "retry_loop op attempt left w = Some (Inr v, w') \<Longrightarrow> \<exists>w0 w1. op w0 = Some (Inr v, w1)"
proof (induction left arbitrary: attempt w)
  case 0
  then have "\<exists>w1. op w = Some (Inr v, w1)"
    by (subst (asm) retry_loop.simps) (auto split: option.splits sum.splits)
  then show ?case by blast
next
  case (Suc left)
  from Suc.prems have "(\<exists>w1. op w = Some (Inr v, w1)) \<or>
      (\<exists>a w2. retry_loop op a left w2 = Some (Inr v, w'))"
    by (subst (asm) retry_loop.simps) (auto split: option.splits sum.splits if_splits)
  then show ?case using Suc.IH by blast
qed

lemma reduce_loop_Inr:
  "reduce_loop op attempt left w = Some (Some (Inr v), w') \<Longrightarrow> \<exists>w0 w1. op w0 = Some (Inr v, w1)"
proof (induction left arbitrary: attempt w)
  case 0
  then have "\<exists>w1. op w = Some (Inr v, w1)"
    by (subst (asm) reduce_loop.simps) (auto split: option.splits sum.splits if_splits)
  then show ?case by blast
next
  case (Suc left)
  from Suc.prems have "(\<exists>w1. op w = Some (Inr v, w1)) \<or>
      (\<exists>a w2. reduce_loop op a left w2 = Some (Some (Inr v), w'))"
    by (subst (asm) reduce_loop.simps) (auto split: option.splits sum.splits if_splits)
  then show ?case using Suc.IH by blast
qed

context rpc_transport
begin

lemma execute_single_result:
  "execute_single send_single i c opts w = Some (Inr v, w') \<Longrightarrow> result_for serves opts c (Inr v)"
proof -
  assume "execute_single send_single i c opts w = Some (Inr v, w')"
  then obtain x where "(case send_single x \<lparr>req_id = i, req_method = fst c, req_params = snd c\<rparr> of
      Inl e \<Rightarrow> Inl e | Inr resp \<Rightarrow> process_response opts resp) = Inr v"
    by (auto simp: execute_single_def Let_def bind_eq_Some_conv)
  then obtain resp where
    resp: "send_single x \<lparr>req_id = i, req_method = fst c, req_params = snd c\<rparr> = Inr resp"
    and v: "Inr v = process_response opts resp" by (auto split: sum.splits)
  show ?thesis unfolding v by (rule result_forI [of serves, OF single_serves [OF resp]]) simp_all
qed

lemma execute_batch_results:
  assumes "execute_batch send_batch calls opts w = Some (Inr rs, w')"
  shows "list_all2 (result_for serves opts) calls rs"
proof -
  obtain x base resps where
    "send_batch x (batch_requests base calls) = Inr resps" and rs: "rs = map (process_response opts) resps"
  proof -
    assume wanted: "\<And>x base resps. send_batch x (batch_requests base calls) = Inr resps \<Longrightarrow>
        rs = map (process_response opts) resps \<Longrightarrow> thesis"
    obtain x base w4 where "(case send_batch x (batch_requests base calls) of
        Inl e \<Rightarrow> (Inl e, w4)
      | Inr responses \<Rightarrow> (let results = map (process_response opts) responses
                          in (Inr results, observe_errors results w4))) = (Inr rs, w')"
      using assms by (auto simp: execute_batch_def fresh_ids_def Let_def bind_eq_Some_conv)
    then show thesis by (auto simp: Let_def split: sum.splits intro: wanted)
  qed
  from batch_serves [OF this(1)] have
    "length resps = length calls" and
    "\<And>i. i < length calls \<Longrightarrow> serves (batch_requests base calls ! i) (resps ! i)"
    by (auto simp: list_all2_conv_all_nth batch_requests_def)
  moreover have "req_method (batch_requests base calls ! i) = fst (calls ! i)"
    "req_params (batch_requests base calls ! i) = snd (calls ! i)" if "i < length calls" for i
    using that by (simp_all add: batch_requests_def nth_enumerate_eq split: prod.splits)
  ultimately show ?thesis
    unfolding list_all2_conv_all_nth rs by (auto intro: result_forI)
qed

lemma batch_chunk_results:
  assumes "batch_chunk send_single send_batch calls opts w = Some (Inr rs, w')"
  shows "list_all2 (result_for serves opts) calls rs"
proof (cases calls rule: remdups_adj.cases)
  case 1
  then show ?thesis using assms by (simp add: batch_chunk_def)
next
  case (2 c)
  then obtain r where rs: "rs = [r]" and call: "call_with_options send_single c opts w = Some (r, w')"
    using assms by (auto simp: batch_chunk_def split: option.splits)
  have "result_for serves opts c r"
  proof (cases r)
    case (Inr v)
    from retry_loop_Inr [OF call [unfolded call_with_options_def Inr]] obtain w0 w1 where
      "(let (i, w2) = fresh_ids 1 w0 in execute_single send_single i c opts w2) = Some (Inr v, w1)"
      by blast
    then show ?thesis using execute_single_result Inr by (auto split: prod.splits)
  qed (simp add: result_for_def)
  then show ?thesis using 2 rs by simp
next
  case (3 c d cs)
  then have "retry_loop (execute_batch send_batch calls opts) 0 (attempts_of opts w) w = Some (Inr rs, w')"
    using assms by (simp add: batch_chunk_def)
  from retry_loop_Inr [OF this] execute_batch_results show ?thesis by blast
qed

lemma reduce_batch_results:
  "reduce_batch send_single send_batch calls opts w = Some (Inr rs, w') \<Longrightarrow>
   list_all2 (result_for serves opts) calls rs"
proof (induction "length calls" arbitrary: calls w rs w' rule: less_induct)
  case less
  show ?case
  proof (cases "length calls \<le> 1")
    case True
    then show ?thesis using less.prems batch_chunk_results by (simp add: reduce_batch.simps)
  next
    case False
    define mid where "mid = (length calls + 1) div 2"
    have len: "mid < length calls" "0 < mid" using False by (simp_all add: mid_def)
    note step = less.prems [unfolded reduce_batch.simps [of send_single send_batch calls]]
    obtain d w1 where
      loop: "reduce_loop (execute_batch send_batch calls opts) 0 (attempts_of opts w) w = Some (d, w1)"
      using step False by (auto split: option.splits)
    show ?thesis
    proof (cases d)
      case (Some r)
      then have "r = Inr rs" using step False loop by simp
      then obtain w0 w2 where "execute_batch send_batch calls opts w0 = Some (Inr rs, w2)"
        using reduce_loop_Inr [OF loop [unfolded Some \<open>r = Inr rs\<close>]] by blast
      then show ?thesis by (rule execute_batch_results)
    next
      case None
      obtain ls w2 where left: "reduce_batch send_single send_batch (take mid calls) opts w1 = Some (Inr ls, w2)"
        using step False loop None by (auto simp: mid_def Let_def split: option.splits sum.splits)
      obtain rr w3 where right: "reduce_batch send_single send_batch (drop mid calls) opts w2 = Some (Inr rr, w3)"
        and rs: "rs = ls @ rr"
        using step False loop None left by (auto simp: mid_def Let_def split: option.splits sum.splits)
      have "list_all2 (result_for serves opts) (take mid calls) ls"
        using less.hyps [OF _ left] len by simp
      moreover have "list_all2 (result_for serves opts) (drop mid calls) rr"
        using less.hyps [OF _ right] len by simp
      ultimately have "list_all2 (result_for serves opts) (take mid calls @ drop mid calls) rs"
        unfolding rs by (rule list_all2_appendI)
      then show ?thesis by simp
    qed
  qed
qed

lemma run_chunks_results:
  "(\<And>chunk w rs w'. f chunk w = Some (Inr rs, w') \<Longrightarrow> list_all2 (result_for serves opts) chunk rs) \<Longrightarrow>
   run_chunks f chunks w = Some (Inr rs, w') \<Longrightarrow>
   list_all2 (result_for serves opts) (concat chunks) rs"
proof (induction chunks arbitrary: w rs)
  case (Cons chunk chunks)
  then obtain r1 w1 r2 where "f chunk w = Some (Inr r1, w1)" "run_chunks f chunks w1 = Some (Inr r2, w')"
    "rs = r1 @ r2" by (auto split: option.splits sum.splits)
  then show ?case using Cons.IH [OF Cons.prems(1)] Cons.prems(1)
    by (auto intro!: list_all2_appendI)
qed simp

end

subsection \<open>The rate gate\<close>

text \<open>
  The number of calls a meter counts, as a number: the sum of the log in the window.
\<close>

definition log_total :: "event_log \<Rightarrow> int \<Rightarrow> nat" where
  "log_total evs t = sum_list (map (unat \<circ> snd) (filter (\<lambda>e. t < fst e) evs))"

lemma log_total_antimono: "s \<le> t \<Longrightarrow> log_total evs t \<le> log_total evs s"
  by (induction evs) (auto simp: log_total_def)

lemma log_since_total: "log_total evs t < 2 ^ 64 \<Longrightarrow> unat (log_since evs t) = log_total evs t"
proof (induction evs)
  case (Cons e evs)
  then show ?case
    by (cases "t < fst e") (auto simp: log_since_def log_total_def unat_word_ariths)
qed (simp_all add: log_since_def log_total_def)

lemma log_total_snoc:
  "log_total (evs @ [(s, n)]) t = log_total evs t + (if t < s then unat n else 0)"
  by (simp add: log_total_def)

text \<open>The limit holds over the window at every reading from now on.\<close>

definition within_limit :: "rate_state \<Rightarrow> event_log \<Rightarrow> bool" where
  "within_limit rs evs \<longleftrightarrow>
     meter_rel (meter rs) evs \<and> window_size (meter rs) = 10 \<and> slot_time (meter rs) = 100 \<and>
     0 \<le> limit rs \<and> limit rs \<le> 2 ^ 40 \<and>
     of_nat (log_total evs (time (meter rs) - 11)) \<le> limit rs"

lemma try_reserve_within_limit:
  assumes inv: "within_limit rs evs" and n: "n \<le> 2 ^ 40"
    and res: "try_reserve rs n now_ms = Some rs'"
  shows "within_limit rs' (evs @ [(to_time (meter rs) now_ms, of_nat n)])"
proof -
  let ?m = "meter rs" let ?now = "to_time ?m now_ms"
  have rel: "meter_rel ?m evs" and shape: "window_size ?m = 10" "slot_time ?m = 100"
    and lim: "0 \<le> limit rs" "limit rs \<le> 2 ^ 40"
    using inv by (simp_all add: within_limit_def)
  have len: "length (window ?m) = 11" using meter_rel_length [OF rel] shape by simp
  have total: "log_total evs (?now - 11) \<le> log_total evs (time ?m - 11)"
    using to_time_ge [of ?m now_ms] by (intro log_total_antimono) simp
  have "of_nat (log_total evs (?now - 11)) \<le> limit rs"
    using inv total by (meson within_limit_def of_nat_mono order_trans)
  then have "(of_nat (log_total evs (?now - 11)) :: rat) \<le> of_nat (2 ^ 40)" using lim by simp
  then have small: "log_total evs (?now - 11) \<le> 2 ^ 40" by (simp only: of_nat_le_iff)
  have cnt: "unat (window_count ?m now_ms) = log_total evs (?now - 11)"
    using small by (simp add: window_count_log [OF rel] len log_since_total)
  have n': "unat (of_nat n :: u64) = n" using n by (simp add: unat_of_nat take_bit_eq_mod)
  have rate: "get_rate ?m now_ms = of_nat (log_total evs (?now - 11))"
    using contribution_exact [OF shape, of "window_count ?m now_ms"] small by (simp add: get_rate_def cnt)
  have add: "contribution ?m (of_nat n) = of_nat n"
    using contribution_exact [OF shape, of "of_nat n"] n by (simp add: n')
  have "f64 (of_nat (log_total evs (?now - 11) + n)) = of_nat (log_total evs (?now - 11) + n)"
    using small n by (intro f64_of_nat_exact) simp
  then have ok: "of_nat (log_total evs (?now - 11) + n) \<le> limit rs"
    and rs': "rs' = rs\<lparr>meter := rate_inc ?m (of_nat n) now_ms\<rparr>"
    using res by (auto simp: try_reserve_def rate add split: if_splits)
  show ?thesis
    using meter_rel_inc [OF rel] shape lim ok
    by (simp add: within_limit_def rs' log_total_snoc n')
qed

lemma reserve_loop_within_limit:
  "reserve_loop rs n nows = Some (rs', rest, waits) \<Longrightarrow>
   \<exists>now_ms. now_ms \<in> set nows \<and> try_reserve rs n now_ms = Some rs'"
  by (induction nows arbitrary: waits) (auto split: option.splits)

subsection \<open>Properties of the client\<close>

text \<open>A client over HTTP with one retry and an upstream that fails once and then answers.\<close>

definition sample_client :: rpc_client where
  "sample_client =
     \<lparr>transport = HttpTransport ''http://localhost'' 10,
      config = rpc_client_config_default\<lparr>retry_attempts := 1\<rparr>, batch_size_cap = 2,
      batch_concurrency = 10, permits = 10, counter = 6, rate = None\<rparr>"

definition sample_options :: call_options where
  "sample_options =
     \<lparr>priority = 0, opt_retry_attempts = None, opt_timeout = None, validate_result = None,
      validate_error = None\<rparr>"

definition sample_world :: "http_exchange list \<Rightarrow> http_exchange world" where
  "sample_world xs =
     \<lparr>client = sample_client, readings = [], exchanges = xs, observed = [], slept = []\<rparr>"

definition sample_call :: call where
  "sample_call = (''eth_chainId'', None)"

lemma sample_world_facts:
  "rate (client (sample_world xs)) = None" "batch_size_cap (client (sample_world xs)) = 2"
  "attempts_of sample_options (sample_world xs) = 1" "exchanges (sample_world xs) = xs"
  by (simp_all add: sample_world_def sample_client_def attempts_of_def sample_options_def)



text \<open>
  C14.  A batch call that succeeds gives one result per call, in the order of the calls, and each
  result is an error or comes from a response the transport gave for a request carrying that very
  call, however the batch was chunked, halved and retried.
\<close>

theorem batch_results_in_call_order:
  assumes "rpc_transport send_single send_batch serves" and "0 < batch_size_cap (client w)"
    and "batch_call send_single send_batch calls opts w = Some (Inr rs, w') \<or>
         batch_call_reduce_on_retry send_single send_batch calls opts w = Some (Inr rs, w')"
  shows "list_all2 (result_for serves opts) calls rs"
proof -
  note T = assms(1) and cc = concat_split_calls [OF assms(2), of calls]
  from assms(3) consider (none) "calls = []" "rs = []"
    | (plain) "run_chunks (\<lambda>chunk. batch_chunk send_single send_batch chunk opts)
        (split_calls calls (batch_size_cap (client w))) w = Some (Inr rs, w')"
    | (reduce) "run_chunks (\<lambda>chunk. reduce_batch send_single send_batch chunk opts)
        (split_calls calls (batch_size_cap (client w))) w = Some (Inr rs, w')"
    by (auto simp: batch_call_def batch_call_reduce_on_retry_def split: if_splits)
  then show ?thesis
  proof cases
    case plain
    from rpc_transport.run_chunks_results [OF T rpc_transport.batch_chunk_results [OF T] this]
    show ?thesis by (simp add: cc)
  next
    case reduce
    from rpc_transport.run_chunks_results [OF T rpc_transport.reduce_batch_results [OF T] this]
    show ?thesis by (simp add: cc)
  qed simp
qed

theorem batch_results_in_call_order_witness:
  "\<exists>rs w'. batch_call (http_send_single (\<lambda>_. Inr (sample_response 8))) (http_send_batch (\<lambda>_. Inl []) (\<lambda>_. Inl []))
       [sample_call] sample_options (sample_world [SendTimeout, Answered 200 []]) = Some (Inr rs, w') \<and>
     list_all2 (result_for answers_or_fails sample_options) [sample_call] rs"
proof -
  let ?ss = "http_send_single (\<lambda>_. Inr (sample_response 8))"
    and ?sb = "http_send_batch (\<lambda>_. Inl []) (\<lambda>_. Inl [])"
  let ?w = "sample_world [SendTimeout, Answered 200 []]"
  have T: "rpc_transport ?ss ?sb answers_or_fails"
    using http.single_serves http.batch_serves by unfold_locales
  obtain w' where run: "batch_call ?ss ?sb [sample_call] sample_options ?w = Some (Inr [Inr (JString ''0x1'')], w')"
    by (simp add: batch_call_def split_calls.simps batch_chunk_def call_with_options_def retry_loop.simps
        execute_single_def fresh_ids_def wait_for_rate_def sample_world_def sample_client_def
        observe_def pause_def attempts_of_def sample_options_def rpc_client_config_default_def
        http_send_single_def process_response_def internal_of_def schedule_of_def sample_response_def
        resp_id_def)
  have "list_all2 (result_for answers_or_fails sample_options) [sample_call] [Inr (JString ''0x1'')]"
    by (rule batch_results_in_call_order [OF T, of ?w "[sample_call]" sample_options _ w'])
       (simp_all add: sample_world_facts run)
  then show ?thesis using run by blast
qed



text \<open>
  C16.  The rate gate keeps the configured limit: starting from a fresh meter for a limit of one call
  per second or more, after any sequence of reservations (of up to \<open>2 ^ 40\<close> calls each, for a limit of
  up to \<open>2 ^ 40\<close>) the calls reserved in the last eleven slots of 100 ms do not exceed the limit, and
  the meter still counts exactly what was reserved.  No reservation is admitted by a rounding error.
\<close>

fun reserve_all :: "rate_state \<Rightarrow> (usize \<times> u64 list) list \<Rightarrow> rate_state option" where
  "reserve_all rs [] = Some rs"
| "reserve_all rs ((n, nows) # later) =
     (case reserve_loop rs n nows of None \<Rightarrow> None | Some (rs', rest, waits) \<Rightarrow> reserve_all rs' later)"



end
