(* ===== verification/Evm_Rpc.thy ===== *)
theory Evm_Rpc
  imports Evm_Chain Rpc_Retry
begin

text \<open>
  The \<open>Rpc\<close> object of the fetch layer (\<open>evm-source/src/fetch.rs\<close>, first half): its options, the
  request's legs, the cells it fills once, the calls on the chain heads, and the cached view of the
  upstream's finalized head with its epochs.

  \<open>upstream\<close> is the RPC client as one round of calls sees it: what it answers to a call and to a batch.
  Successive rounds take successive \<open>upstream\<close>s.  The locale \<open>batch_client\<close> states what the fetch layer
  relies on, one result per call; it is interpreted on the client of \<open>Rpc_Client\<close>.  \<open>decoders\<close> holds the
  deserialisers that the \<open>serde\<close> macro generates.  Durations are milliseconds.
\<close>

subsection \<open>Errors\<close>

definition show_int :: "int \<Rightarrow> string" where
  "show_int i = (if i < 0 then ''-'' @ decimal (nat (- i)) else decimal (nat i))"

fun show_rpc_error :: "rpc_error \<Rightarrow> string" where
  "show_rpc_error (InvalidConfig s) = ''invalid RPC client configuration: '' @ s"
| "show_rpc_error (Rpc c m d) = ''RPC error '' @ show_int c @ '': '' @ m"
| "show_rpc_error (Http st b) = ''HTTP error '' @ decimal st"
| "show_rpc_error (Connection s) = ''connection error: '' @ s"
| "show_rpc_error (Disconnected s) = ''disconnected: '' @ s"
| "show_rpc_error Timeout = ''request timed out''"
| "show_rpc_error (Protocol s) = ''protocol error: '' @ s"
| "show_rpc_error (RetryExhausted e) = ''retry exhausted: '' @ show_rpc_error e"
| "show_rpc_error (RetryRequested s) = ''retry requested: '' @ s"

text \<open>
  An \<open>anyhow::Error\<close>: a message, an error of the client or of the deserialiser, or a context around
  one.  \<open>display\<close> is its \<open>{}\<close>, \<open>display_chain\<close> its \<open>{:#}\<close>; a connection error has its cause as a source.
\<close>

datatype anyhow = Message string | OfRpc rpc_error | OfSerde string | Context string anyhow

fun display :: "anyhow \<Rightarrow> string" where
  "display (Message m) = m"
| "display (OfRpc e) = show_rpc_error e"
| "display (OfSerde m) = m"
| "display (Context c e) = c"

fun display_chain :: "anyhow \<Rightarrow> string" where
  "display_chain (OfRpc (Connection s)) = show_rpc_error (Connection s) @ '': '' @ s"
| "display_chain (Context c e) = c @ '': '' @ display_chain e"
| "display_chain e = display e"

definition map_err :: "('e \<Rightarrow> 'f) \<Rightarrow> 'e + 'a \<Rightarrow> 'f + 'a" where
  "map_err f r = (case r of Inl e \<Rightarrow> Inl (f e) | Inr x \<Rightarrow> Inr x)"

subsection \<open>The client\<close>

record upstream =
  up_call :: "call \<Rightarrow> call_options \<Rightarrow> rpc_error + json"
  up_batch :: "call list \<Rightarrow> call_options \<Rightarrow> rpc_error + (rpc_error + json) list"

definition one_per_call :: "upstream \<Rightarrow> bool" where
  "one_per_call up \<longleftrightarrow> (\<forall>calls opts rs. up_batch up calls opts = Inr rs \<longrightarrow> length rs = length calls)"

definition call_options_default :: call_options where
  "call_options_default =
     \<lparr>priority = 0, opt_retry_attempts = None, opt_timeout = None, validate_result = None, validate_error = None\<rparr>"

definition with_validate_error :: "(rpc_error_info \<Rightarrow> rpc_error + json) \<Rightarrow> call_options" where
  "with_validate_error f = call_options_default\<lparr>validate_error := Some f\<rparr>"

definition rpc_of_info :: "rpc_error_info \<Rightarrow> rpc_error" where
  "rpc_of_info info = Rpc (code info) (message info) (data info)"

subsection \<open>Options and requests\<close>

datatype call_frame_validation_mode = Off | Observe | Reject

fun mode_as_str :: "call_frame_validation_mode \<Rightarrow> string" where
  "mode_as_str Off = ''off''"
| "mode_as_str Observe = ''observe''"
| "mode_as_str Reject = ''reject''"

definition mode_from_str :: "string \<Rightarrow> string + call_frame_validation_mode" where
  "mode_from_str v =
     (if v = ''off'' then Inr Off
      else if v = ''observe'' then Inr Observe
      else if v = ''reject'' then Inr Reject
      else Inl (''unsupported call-frame validation mode: '' @ v))"

record rpc_options =
  finality_confirmation :: "u64 option"
  opt_finalized_head_ttl :: "duration option"
  opt_not_ready_budget :: "duration option"
  verify_block_hash :: bool
  verify_tx_sender :: bool
  verify_tx_root :: bool
  verify_receipts_root :: bool
  verify_withdrawals_root :: bool
  verify_logs_bloom :: bool
  call_frame_validation :: call_frame_validation_mode
  check_log_index :: bool
  check_cumulative_gas_used :: bool
  opt_use_gas_used_for_receipts_root :: bool

definition validate :: "rpc_options \<Rightarrow> anyhow + unit" where
  "validate opt =
     (if call_frame_validation opt = Reject \<and> (\<not> verify_tx_root opt \<or> \<not> verify_tx_sender opt)
      then Inl (Message ''call-frame validation reject requires verify_tx_root and verify_tx_sender'')
      else if opt_use_gas_used_for_receipts_root opt \<and> \<not> verify_receipts_root opt
      then Inl (Message ''use_gas_used_for_receipts_root requires verify_receipts_root'')
      else Inr ())"

definition validate_request :: "rpc_options \<Rightarrow> data_request \<Rightarrow> anyhow + unit" where
  "validate_request opt req =
     bind_result (validate opt) (\<lambda>_.
       if verify_receipts_root opt \<and> \<not> req_receipts req
       then Inl (Message ''verify_receipts_root requires receipt acquisition'')
       else Inr ())"

definition FINALIZED_HEAD_TTL :: duration where "FINALIZED_HEAD_TTL = 5000"
definition P_ENRICH_RETRIES :: nat where "P_ENRICH_RETRIES = 10"
definition P_ENRICH_DELAY :: duration where "P_ENRICH_DELAY = 50"
definition NOT_READY_BUDGET :: duration where "NOT_READY_BUDGET = 30000"
definition NOT_READY_DELAY :: duration where "NOT_READY_DELAY = 100"
definition LEGS_ONLY_RETRIES :: nat where "LEGS_ONLY_RETRIES = 3"

record leg_durations =
  ld_logs :: duration
  ld_receipts :: duration
  ld_traces :: duration

definition traces_leg_in_hand :: "raw_rpc_block \<Rightarrow> data_request \<Rightarrow> bool" where
  "traces_leg_in_hand b req =
     (if raw_number b = 0 then True
      else
        let replay_statediff = (req_state_diffs req \<and> \<not> req_use_debug_api_for_state_diffs req);
            wants_debug_frames = (req_traces req \<and> \<not> req_use_trace_api req);
            wants_debug_diffs = (req_state_diffs req \<and> req_use_debug_api_for_state_diffs req);
            wants_replays = (replay_statediff \<or> (req_traces req \<and> req_use_trace_api req))
        in (\<not> wants_debug_frames \<or> raw_debug_frames b \<noteq> None) \<and>
           (\<not> wants_debug_diffs \<or> raw_debug_state_diffs b \<noteq> None) \<and>
           (\<not> wants_replays \<or> raw_trace_replays b \<noteq> None))"

definition missing_legs :: "raw_rpc_block \<Rightarrow> data_request \<Rightarrow> data_request" where
  "missing_legs b req =
     (let traces_in_hand = traces_leg_in_hand b req
      in req\<lparr>req_logs := req_logs req \<and> raw_logs b = None,
             req_receipts := req_receipts req \<and> raw_receipts b = None,
             req_traces := req_traces req \<and> \<not> traces_in_hand,
             req_state_diffs := req_state_diffs req \<and> \<not> traces_in_hand\<rparr>)"

subsection \<open>The object\<close>

record decoders =
  de_block :: "json \<Rightarrow> string + rpc_block"
  de_logs :: "json \<Rightarrow> string + rpc_log list"
  de_receipts :: "json \<Rightarrow> string + rpc_receipt option list"
  de_receipt :: "json \<Rightarrow> string + rpc_receipt"
  de_debug_frame :: "json \<Rightarrow> string + debug_frame_result"
  de_debug_diff :: "json \<Rightarrow> string + debug_state_diff_result"
  de_replay :: "json \<Rightarrow> string + trace_transaction_replay"
  de_trace_frame :: "json \<Rightarrow> string + trace_frame"

datatype receipts_method = ByBlock | ByTx

text \<open>\<open>rpc\<close> is the object during one round: its options and cells with the client of that round.\<close>

record rpc =
  r_options :: rpc_options
  r_client :: upstream
  r_chain_utils :: "chain_utils option"
  r_receipts_method :: "receipts_method option"
  r_de :: decoders
  r_lib :: evm_lib
  r_split :: "rpc_log list \<Rightarrow> rpc_log split"

definition rpc_new ::
    "upstream \<Rightarrow> rpc_options \<Rightarrow> decoders \<Rightarrow> evm_lib \<Rightarrow> (rpc_log list \<Rightarrow> rpc_log split) \<Rightarrow> rpc" where
  "rpc_new up options de lib split =
     \<lparr>r_options = options, r_client = up, r_chain_utils = None, r_receipts_method = None,
      r_de = de, r_lib = lib, r_split = split\<rparr>"

definition finalized_head_ttl :: "rpc_options \<Rightarrow> duration" where
  "finalized_head_ttl opt = or_else (opt_finalized_head_ttl opt) FINALIZED_HEAD_TTL"

definition not_ready_budget :: "rpc_options \<Rightarrow> duration" where
  "not_ready_budget opt = or_else (opt_not_ready_budget opt) NOT_READY_BUDGET"

text \<open>The reports to the metrics registry.\<close>

datatype fetch_report =
    UpstreamHead u64
  | UpstreamFinalizedHead u64
  | AcquisitionRetryExhausted
  | EnrichmentRetried enrichment_retry
  | HeadDetectionGap duration
  | HeadInterval duration

fun apply_report :: "instant \<Rightarrow> u64 \<Rightarrow> fetch_report \<Rightarrow> metrics \<Rightarrow> metrics" where
  "apply_report now ts (UpstreamHead n) m = observe_upstream_head now ts n m"
| "apply_report now ts (UpstreamFinalizedHead n) m = observe_upstream_finalized_head ts n m"
| "apply_report now ts AcquisitionRetryExhausted m = record_acquisition_retry_exhausted m"
| "apply_report now ts (EnrichmentRetried k) m = record_enrichment_retry k m"
| "apply_report now ts (HeadDetectionGap d) m = observe_head_detection_gap d m"
| "apply_report now ts (HeadInterval d) m = observe_head_interval d m"

subsection \<open>Cells\<close>

definition get_chain_utils :: "rpc \<Rightarrow> anyhow + chain_utils" where
  "get_chain_utils r =
     (case r_chain_utils r of
        Some u \<Rightarrow> Inr u
      | None \<Rightarrow>
          bind_result (map_err (\<lambda>e. Message (''eth_chainId: '' @ show_rpc_error e))
              (up_call (r_client r) (''eth_chainId'', None) call_options_default)) (\<lambda>chain_id.
            let chain_id_str = or_else (as_str chain_id) ''0x1''
            in Inr (chain_utils_new (qty2_u64 chain_id_str) (opt_use_gas_used_for_receipts_root (r_options r)))))"

text \<open>The object after a call that asked for the chain: a failed initialisation leaves the cell empty.\<close>

definition set_chain_utils :: "rpc \<Rightarrow> rpc" where
  "set_chain_utils r =
     (case get_chain_utils r of Inr u \<Rightarrow> r\<lparr>r_chain_utils := Some u\<rparr> | Inl e \<Rightarrow> r)"

definition get_receipts_method :: "rpc \<Rightarrow> receipts_method" where
  "get_receipts_method r =
     (case r_receipts_method r of
        Some m \<Rightarrow> m
      | None \<Rightarrow>
          (case up_call (r_client r) (''eth_getBlockReceipts'', Some (JArray [JString ''latest''])) call_options_default of
             Inr (JArray vs) \<Rightarrow> ByBlock
           | _ \<Rightarrow> ByTx))"

definition set_receipts_method :: "rpc \<Rightarrow> rpc" where
  "set_receipts_method r = r\<lparr>r_receipts_method := Some (get_receipts_method r)\<rparr>"

subsection \<open>Chain heads\<close>

definition get_height :: "rpc \<Rightarrow> (anyhow + u64) \<times> fetch_report list" where
  "get_height r =
     (case up_call (r_client r) (''eth_blockNumber'', None) call_options_default of
        Inl e \<Rightarrow> (Inl (Message (''eth_blockNumber: '' @ show_rpc_error e)), [])
      | Inr v \<Rightarrow> let height = qty2_u64 (or_else (as_str v) ''0x0'') in (Inr height, [UpstreamHead height]))"

definition head_tag :: "rpc \<Rightarrow> string \<Rightarrow> (anyhow + json) \<times> fetch_report list" where
  "head_tag r commitment =
     (if commitment = ''finalized'' then
        (case finality_confirmation (r_options r) of
           Some conf \<Rightarrow>
             (case get_height r of
                (Inl e, reports) \<Rightarrow> (Inl e, reports)
              | (Inr height, reports) \<Rightarrow> (Inr (JString (to_qty (saturating_sub height conf))), reports))
         | None \<Rightarrow> (Inr (JString ''finalized''), []))
      else (Inr (JString ''latest''), []))"

text \<open>Indexing a JSON value that has no such member gives \<open>null\<close>, which is no string.\<close>

definition head_ref_of :: "json \<Rightarrow> anyhow + (u64 \<times> string)" where
  "head_ref_of v =
     (case Option.bind (json_get ''number'' v) as_str of
        None \<Rightarrow> Inl (Message ''missing block.number'')
      | Some number_str \<Rightarrow>
          (case Option.bind (json_get ''hash'' v) as_str of
             None \<Rightarrow> Inl (Message ''missing block.hash'')
           | Some h \<Rightarrow> Inr (qty2_u64 number_str, h)))"

definition get_latest_blockhash :: "rpc \<Rightarrow> string \<Rightarrow> (anyhow + (u64 \<times> string)) \<times> fetch_report list" where
  "get_latest_blockhash r commitment =
     (case head_tag r commitment of
        (Inl e, reports) \<Rightarrow> (Inl e, reports)
      | (Inr tag, reports) \<Rightarrow>
          (case bind_result (map_err (\<lambda>e. Message (''eth_getBlockByNumber(latest): '' @ show_rpc_error e))
              (up_call (r_client r) (''eth_getBlockByNumber'', Some (JArray [tag, JBool False])) call_options_default))
              head_ref_of of
             Inl e \<Rightarrow> (Inl e, reports)
           | Inr (n, h) \<Rightarrow>
               (Inr (n, h),
                reports @ [if commitment = ''finalized'' then UpstreamFinalizedHead n else UpstreamHead n])))"

subsection \<open>The cached finalized head\<close>

record finalized_head_cache =
  fhc_observed :: "(instant \<times> u64 \<times> string) option"
  fhc_refreshing :: bool
  fhc_epoch :: u64

definition finalized_head_cache_default :: finalized_head_cache where
  "finalized_head_cache_default = \<lparr>fhc_observed = None, fhc_refreshing = False, fhc_epoch = 0\<rparr>"

text \<open>The cache after T1's read has answered; a failed read leaves it as it is.\<close>

definition resync_finalized_head ::
    "instant \<Rightarrow> anyhow + (u64 \<times> string) \<Rightarrow> finalized_head_cache \<Rightarrow> finalized_head_cache" where
  "resync_finalized_head now fetched c =
     (case fetched of
        Inl e \<Rightarrow> c
      | Inr (n, h) \<Rightarrow> c\<lparr>fhc_epoch := fhc_epoch c + 1, fhc_observed := Some (now, n, h)\<rparr>)"

definition store_finalized_head ::
    "instant \<Rightarrow> u64 \<Rightarrow> u64 \<Rightarrow> string \<Rightarrow> finalized_head_cache \<Rightarrow> finalized_head_cache" where
  "store_finalized_head now epoch n h c =
     (if fhc_epoch c \<noteq> epoch then c
      else
        case fhc_observed c of
          Some (seen, n0, h0) \<Rightarrow>
            if n0 \<ge> n then c\<lparr>fhc_observed := Some (now, n0, h0)\<rparr> else c\<lparr>fhc_observed := Some (now, n, h)\<rparr>
        | None \<Rightarrow> c\<lparr>fhc_observed := Some (now, n, h)\<rparr>)"

definition finalized_head_if_fresh :: "duration \<Rightarrow> instant \<Rightarrow> finalized_head_cache \<Rightarrow> (u64 \<times> string) option" where
  "finalized_head_if_fresh ttl now c =
     (case fhc_observed c of
        None \<Rightarrow> None
      | Some (seen, n, h) \<Rightarrow> if now - seen < ttl then Some (n, h) else None)"

definition finalized_head_hint :: "finalized_head_cache \<Rightarrow> (u64 \<times> string) option" where
  "finalized_head_hint c = map_option (\<lambda>(seen, n, h). (n, h)) (fhc_observed c)"

text \<open>
  A background refresh: \<open>refresh_start\<close> decides under the lock whether to start one and gives the epoch
  it is issued under; \<open>refresh_done\<close> stores its answer.
\<close>

definition refresh_start :: "duration \<Rightarrow> instant \<Rightarrow> finalized_head_cache \<Rightarrow> u64 option \<times> finalized_head_cache" where
  "refresh_start ttl now c =
     (if fhc_refreshing c then (None, c)
      else if (case fhc_observed c of Some (seen, _, _) \<Rightarrow> now - seen < ttl | None \<Rightarrow> False) then (None, c)
      else (Some (fhc_epoch c), c\<lparr>fhc_refreshing := True\<rparr>))"

definition refresh_done ::
    "instant \<Rightarrow> u64 \<Rightarrow> anyhow + (u64 \<times> string) \<Rightarrow> finalized_head_cache \<Rightarrow> finalized_head_cache" where
  "refresh_done now epoch fetched c =
     (case fetched of
        Inr (n, h) \<Rightarrow> store_finalized_head now epoch n h (c\<lparr>fhc_refreshing := False\<rparr>)
      | Inl e \<Rightarrow> c\<lparr>fhc_refreshing := False\<rparr>)"

text \<open>
  A read through the cache: a fresh view is the answer; otherwise the epoch is noted (\<open>Inl\<close>), and the
  answer of the fetch is stored under it.
\<close>

definition cached_read :: "duration \<Rightarrow> instant \<Rightarrow> finalized_head_cache \<Rightarrow> u64 + (u64 \<times> string)" where
  "cached_read ttl now c =
     (case finalized_head_if_fresh ttl now c of Some hit \<Rightarrow> Inr hit | None \<Rightarrow> Inl (fhc_epoch c))"

definition cached_fetch_done ::
    "instant \<Rightarrow> u64 \<Rightarrow> anyhow + (u64 \<times> string) \<Rightarrow> finalized_head_cache \<Rightarrow>
     (anyhow + (u64 \<times> string)) \<times> finalized_head_cache" where
  "cached_fetch_done now epoch fetched c =
     (fetched, case fetched of Inr (n, h) \<Rightarrow> store_finalized_head now epoch n h c | Inl e \<Rightarrow> c)"

subsection \<open>One result per call\<close>

text \<open>
  \<open>batch_client\<close>: clients whose successful batches answer every call.  \<open>inv\<close> is what the states of the
  client satisfy.
\<close>

locale batch_client =
  fixes inv :: "'w \<Rightarrow> bool"
    and call1 :: "'w \<Rightarrow> call \<Rightarrow> call_options \<Rightarrow> rpc_error + json"
    and batch :: "'w \<Rightarrow> call list \<Rightarrow> call_options \<Rightarrow> rpc_error + (rpc_error + json) list"
  assumes batch_length: "inv w \<Longrightarrow> batch w calls opts = Inr rs \<Longrightarrow> length rs = length calls"
begin

definition upstream_at :: "'w \<Rightarrow> upstream" where
  "upstream_at w = \<lparr>up_call = call1 w, up_batch = batch w\<rparr>"

lemma upstream_one_per_call: "inv w \<Longrightarrow> one_per_call (upstream_at w)"
  by (auto simp: one_per_call_def upstream_at_def dest: batch_length)

end

text \<open>
  The client over HTTP in a given world.  A call that is still waiting when the scripted exchanges end
  has no answer; it counts as timed out.
\<close>

definition client_result :: "((rpc_error + 'a) \<times> 'x world) option \<Rightarrow> rpc_error + 'a" where
  "client_result r = (case r of Some (res, w) \<Rightarrow> res | None \<Rightarrow> Inl Timeout)"

lemma reduce_on_retry_length:
  assumes "0 < batch_size_cap (client w)"
    and "batch_call_reduce_on_retry (http_send_single p1) (http_send_batch p1 pm) calls opts w = Some (Inr rs, w')"
  shows "length rs = length calls"
proof (cases "calls = []")
  case False
  then have "run_chunks (\<lambda>chunk. reduce_batch (http_send_single p1) (http_send_batch p1 pm) chunk opts)
      (split_calls calls (batch_size_cap (client w))) w = Some (Inr rs, w')"
    using assms(2) by (simp add: batch_call_reduce_on_retry_def)
  from http.run_chunks_results [OF http.reduce_batch_results this]
  have "list_all2 (result_for answers_or_fails opts) calls rs" by (simp add: concat_split_calls [OF assms(1)])
  then show ?thesis by (simp add: list_all2_lengthD)
qed (use assms(2) in \<open>simp add: batch_call_reduce_on_retry_def\<close>)

interpretation http_client:
  batch_client "\<lambda>w. 0 < batch_size_cap (client w)"
    "\<lambda>w c opts. client_result (call_with_options (http_send_single p1) c opts w)"
    "\<lambda>w calls opts. client_result (batch_call_reduce_on_retry (http_send_single p1) (http_send_batch p1 pm) calls opts w)"
  for p1 pm
  by unfold_locales (auto simp: client_result_def split: option.splits dest: reduce_on_retry_length)

subsection \<open>The view within an epoch\<close>

text \<open>
  The runs of the cache: T1's reads, background refreshes and reads through the cache, whose answers
  arrive in any order.  \<open>view_run c g fs as\<close>: after \<open>g\<close> resyncs the cache is \<open>c\<close>, the fetches \<open>fs\<close> are in
  flight, each with the epoch it carries and the number of resyncs when it was issued, and \<open>as\<close> are the
  answers given since the last resync by fetches issued since then, the latest first.
\<close>

fun answer_list :: "anyhow + (u64 \<times> string) \<Rightarrow> (u64 \<times> string) list" where
  "answer_list (Inr a) = [a]"
| "answer_list (Inl e) = []"

inductive view_run ::
    "finalized_head_cache \<Rightarrow> nat \<Rightarrow> (u64 \<times> nat) list \<Rightarrow> (u64 \<times> string) list \<Rightarrow> bool" where
  initial: "view_run finalized_head_cache_default 0 [] []"
| resync: "view_run c g fs as \<Longrightarrow> Suc g < 2 ^ 64 \<Longrightarrow>
    view_run (resync_finalized_head now (Inr a) c) (Suc g) fs [a]"
| resync_failed: "view_run c g fs as \<Longrightarrow> view_run (resync_finalized_head now (Inl e) c) g fs as"
| refresh_idle: "view_run c g fs as \<Longrightarrow> refresh_start ttl now c = (None, c') \<Longrightarrow> view_run c' g fs as"
| refresh_issue: "view_run c g fs as \<Longrightarrow> refresh_start ttl now c = (Some e, c') \<Longrightarrow>
    view_run c' g ((e, g) # fs) as"
| cached_issue: "view_run c g fs as \<Longrightarrow> cached_read ttl now c = Inl e \<Longrightarrow> view_run c g ((e, g) # fs) as"
| refresh_answer: "view_run c g fs as \<Longrightarrow> (e, g0) \<in> set fs \<Longrightarrow>
    view_run (refresh_done now e fetched c) g (remove1 (e, g0) fs)
      (if g0 = g then answer_list fetched @ as else as)"
| cached_answer: "view_run c g fs as \<Longrightarrow> (e, g0) \<in> set fs \<Longrightarrow>
    view_run (snd (cached_fetch_done now e fetched c)) g (remove1 (e, g0) fs)
      (if g0 = g then answer_list fetched @ as else as)"

definition epochs_ok :: "finalized_head_cache \<Rightarrow> nat \<Rightarrow> (u64 \<times> nat) list \<Rightarrow> bool" where
  "epochs_ok c g fs \<longleftrightarrow>
     fhc_epoch c = of_nat g \<and> g < 2 ^ 64 \<and> list_all (\<lambda>(e, g0). e = of_nat g0 \<and> g0 \<le> g) fs"

definition highest :: "(u64 \<times> string) list \<Rightarrow> (u64 \<times> string) option \<Rightarrow> bool" where
  "highest as view \<longleftrightarrow>
     (case view of
        None \<Rightarrow> as = []
      | Some a \<Rightarrow> a \<in> set as \<and> list_all (\<lambda>b. fst b \<le> fst a) as)"

lemma epochs_ok_current:
  assumes "epochs_ok c g fs" "(e, g0) \<in> set fs"
  shows "fhc_epoch c = e \<longleftrightarrow> g0 = g"
proof -
  have "e = of_nat g0" "g0 \<le> g" "g < 2 ^ 64" "fhc_epoch c = of_nat g"
    using assms by (auto simp: epochs_ok_def list_all_iff)
  then show ?thesis by (auto simp: word_unat_eq_iff unat_of_nat take_bit_nat_eq_self)
qed

lemma epochs_ok_remove1: "epochs_ok c g fs \<Longrightarrow> epochs_ok c g (remove1 f fs)"
  using set_remove1_subset [of f fs] by (auto simp: epochs_ok_def list_all_iff)

lemma epochs_ok_same: "fhc_epoch c' = fhc_epoch c \<Longrightarrow> epochs_ok c' g fs = epochs_ok c g fs"
  by (simp add: epochs_ok_def)

lemma store_epoch [simp]: "fhc_epoch (store_finalized_head now e n h c) = fhc_epoch c"
  by (auto simp: store_finalized_head_def split: option.splits)

lemma refresh_done_epoch [simp]: "fhc_epoch (refresh_done now e fetched c) = fhc_epoch c"
  by (auto simp: refresh_done_def split: sum.splits)

lemma store_other_epoch: "fhc_epoch c \<noteq> e \<Longrightarrow> store_finalized_head now e n h c = c"
  by (simp add: store_finalized_head_def)

lemma store_highest:
  "fhc_epoch c = e \<Longrightarrow> highest as (finalized_head_hint c) \<Longrightarrow>
   highest ((n, h) # as) (finalized_head_hint (store_finalized_head now e n h c))"
  by (auto simp: store_finalized_head_def highest_def finalized_head_hint_def list_all_iff
      split: option.splits dest: order_trans)

lemma hint_refreshing [simp]: "finalized_head_hint (c\<lparr>fhc_refreshing := b\<rparr>) = finalized_head_hint c"
  by (simp add: finalized_head_hint_def)

lemma answered_highest:
  assumes "epochs_ok c g fs" "(e, g0) \<in> set fs" "highest as (finalized_head_hint c)"
    and "c' = (case fetched of Inr (n, h) \<Rightarrow> store_finalized_head now e n h c | Inl _ \<Rightarrow> c)"
  shows "highest (if g0 = g then answer_list fetched @ as else as) (finalized_head_hint c')"
  using epochs_ok_current [OF assms(1,2)] store_highest [of c e as] store_other_epoch [of c e] assms(3,4)
  by (cases fetched) auto

lemma refresh_done_alt:
  "refresh_done now e fetched c =
     (case fetched of Inr (n, h) \<Rightarrow> store_finalized_head now e n h (c\<lparr>fhc_refreshing := False\<rparr>)
      | Inl _ \<Rightarrow> c\<lparr>fhc_refreshing := False\<rparr>)"
  by (simp add: refresh_done_def split: sum.splits)

lemma view_run_inv: "view_run c g fs as \<Longrightarrow> epochs_ok c g fs \<and> highest as (finalized_head_hint c)"
proof (induction rule: view_run.induct)
  case initial
  then show ?case by (simp add: epochs_ok_def finalized_head_cache_default_def highest_def finalized_head_hint_def)
next
  case (resync c g fs as now a)
  then show ?case
    by (cases a) (auto simp: epochs_ok_def resync_finalized_head_def highest_def finalized_head_hint_def list_all_iff)
next
  case (resync_failed c g fs as now e)
  then show ?case by (simp add: resync_finalized_head_def)
next
  case (refresh_idle c g fs as ttl now c')
  then show ?case by (auto simp: refresh_start_def split: if_splits)
next
  case (refresh_issue c g fs as ttl now e c')
  then show ?case by (auto simp: refresh_start_def epochs_ok_def split: if_splits)
next
  case (cached_issue c g fs as ttl now e)
  then show ?case by (auto simp: cached_read_def epochs_ok_def split: option.splits)
next
  case (refresh_answer c g fs as e g0 now fetched)
  let ?c = "c\<lparr>fhc_refreshing := False\<rparr>"
  have "epochs_ok ?c g fs" using refresh_answer by (simp add: epochs_ok_def)
  moreover have "highest as (finalized_head_hint ?c)" using refresh_answer by simp
  ultimately have "highest (if g0 = g then answer_list fetched @ as else as)
      (finalized_head_hint (refresh_done now e fetched c))"
    unfolding refresh_done_alt using refresh_answer.hyps(2) by (intro answered_highest [OF _ _ _ refl])
  then show ?case using refresh_answer by (simp add: epochs_ok_remove1 epochs_ok_same [of "refresh_done now e fetched c" c])
next
  case (cached_answer c g fs as e g0 now fetched)
  let ?c' = "snd (cached_fetch_done now e fetched c)"
  have "fhc_epoch ?c' = fhc_epoch c" by (auto simp: cached_fetch_done_def split: sum.splits)
  moreover have "highest (if g0 = g then answer_list fetched @ as else as) (finalized_head_hint ?c')"
    using cached_answer by (intro answered_highest [where c = c]) (auto simp: cached_fetch_done_def)
  ultimately show ?case using cached_answer by (simp add: epochs_ok_remove1 epochs_ok_same [of ?c' c])
qed

text \<open>
  C40.  However reads and refreshes interleave and in whatever order their answers arrive, the view of
  the finalized head the strides and the prober use is an answer of the current epoch and the highest of
  them: a lagging replica does not pull it back, a fetch issued before the last resync never reaches it
  (over fewer than \<open>2 ^ 64\<close> resyncs, after which the epoch wraps), and there is no view exactly when the
  epoch has had no answer.
\<close>

theorem finalized_view_is_highest:
  assumes "view_run c g fs as"
  shows "case finalized_head_hint c of
      None \<Rightarrow> as = []
    | Some view \<Rightarrow> view \<in> set as \<and> list_all (\<lambda>a. fst a \<le> fst view) as"
  using view_run_inv [OF assms] by (simp add: highest_def)

lemma sample_view_run:
  "view_run \<lparr>fhc_observed = Some (9, 5, ''0xaa''), fhc_refreshing = False, fhc_epoch = 1\<rparr> 1 [] [(5, ''0xaa'')]"
proof -
  let ?c0 = "finalized_head_cache_default"
  have "view_run ?c0 0 [(0, 0)] []"
    by (rule cached_issue [OF initial, of 1000 0]) (simp add: cached_read_def finalized_head_if_fresh_def finalized_head_cache_default_def)
  from resync [OF this, of 9 "(5, ''0xaa'')"]
  have "view_run \<lparr>fhc_observed = Some (9, 5, ''0xaa''), fhc_refreshing = False, fhc_epoch = 1\<rparr> 1 [(0, 0)] [(5, ''0xaa'')]"
    by (simp add: resync_finalized_head_def finalized_head_cache_default_def)
  from cached_answer [OF this, of 0 0 9 "Inr (7, ''0xbb'')"] show ?thesis
    by (simp add: cached_fetch_done_def store_finalized_head_def)
qed

theorem finalized_view_is_highest_witness:
  "case finalized_head_hint \<lparr>fhc_observed = Some (9, 5, ''0xaa''), fhc_refreshing = False, fhc_epoch = 1\<rparr> of
      None \<Rightarrow> False
    | Some view \<Rightarrow> view \<in> set [(5, ''0xaa'')] \<and> list_all (\<lambda>a. fst a \<le> fst view) [(5 :: u64, ''0xaa'')]"
  using finalized_view_is_highest [OF sample_view_run] by (simp add: finalized_head_hint_def)

end
