(* ===== verification/Evm_Norm_Facts.thy ===== *)
theory Evm_Norm_Facts
  imports Evm_Normalize
begin

text \<open>
  What normalisation guarantees: the traces of a debug frame are its frames in pre-order, each with
  the path that leads to it; a state diff has the values its kind promises; every storage slot of an
  account appears once; and the revert reason of a failed call is the text the contract encoded.
\<close>

subsection \<open>Pre-order of a debug frame\<close>

text \<open>The reference definition: the frames of a tree with the path from the root to each.\<close>

function preorder :: "debug_frame \<Rightarrow> (nat list \<times> debug_frame) list" where
  "preorder f =
     ([], f) # concat (map (\<lambda>(i, sub). map (\<lambda>(path, g). (i # path, g)) (preorder sub))
                          (enumerate 0 (subcalls f)))"
  by pat_completeness auto
termination
proof (relation "measure size")
  fix f p i sub
  assume "p \<in> set (enumerate 0 (subcalls f))" "(i, sub) = p"
  then have "sub \<in> set (subcalls f)" by (auto simp: enumerate_eq_zip dest: set_zip_rightD)
  then have "size sub \<le> size_list size (subcalls f)" by (rule size_list_estimation') simp
  then show "(sub, f) \<in> measure size" using size_subcalls [of f] by simp
qed simp

declare preorder.simps [simp del]

fun frame_at :: "debug_frame \<Rightarrow> nat list \<Rightarrow> debug_frame option" where
  "frame_at f [] = Some f"
| "frame_at f (i # path) = Option.bind (vec_get (subcalls f) i) (\<lambda>sub. frame_at sub path)"

definition item_of :: "u64 list \<Rightarrow> nat list \<times> debug_frame \<Rightarrow> debug_frame_item" where
  "item_of addr = (\<lambda>(path, g).
     \<lparr>it_trace_address = addr @ map of_nat path, it_subtraces = of_nat (length (subcalls g)),
      it_frame = g\<rparr>)"

lemma traverse_preorder_aux:
  "traverse_debug_frame f addr = map (item_of addr) (preorder f)"
  "traverse_subcalls subs addr i =
     concat (map (\<lambda>(j, sub). map (item_of addr) (map (\<lambda>(path, g). (j # path, g)) (preorder sub)))
                 (enumerate i subs))"
proof (induction f addr and subs addr i rule: traverse_debug_frame_traverse_subcalls.induct)
  case (1 f addr)
  have "map (item_of addr) (preorder f) =
      item_of addr ([], f) #
      concat (map (\<lambda>(j, sub). map (item_of addr) (map (\<lambda>(path, g). (j # path, g)) (preorder sub)))
                  (enumerate 0 (subcalls f)))"
    by (subst preorder.simps) (simp add: map_concat comp_def split_def)
  then show ?case by (simp add: traverse_debug_frame.simps 1 item_of_def)
next
  case (3 sub subs addr i)
  then show ?case by (simp add: item_of_def comp_def split_def)
qed simp

lemma set_enumerate0: "(i, x) \<in> set (enumerate 0 xs) \<longleftrightarrow> i < length xs \<and> xs ! i = x"
  by (auto simp: in_set_enumerate_eq)

lemma preorder_iff: "(path, g) \<in> set (preorder f) \<longleftrightarrow> frame_at f path = Some g"
proof (induction f arbitrary: path rule: preorder.induct)
  case (1 f)
  have IH: "(q, g) \<in> set (preorder sub) \<longleftrightarrow> frame_at sub q = Some g"
    if "i < length (subcalls f)" "sub = subcalls f ! i" for i sub q
    using 1 [of "(i, sub)" i sub] that by (simp add: set_enumerate0)
  show ?case
  proof (cases path)
    case Nil
    then show ?thesis by (subst preorder.simps) auto
  next
    case (Cons i q)
    have "(path, g) \<in> set (preorder f) \<longleftrightarrow>
        (i < length (subcalls f) \<and> (q, g) \<in> set (preorder (subcalls f ! i)))"
    proof
      assume "(path, g) \<in> set (preorder f)"
      then show "i < length (subcalls f) \<and> (q, g) \<in> set (preorder (subcalls f ! i))"
        by (subst (asm) preorder.simps) (auto simp: Cons set_enumerate0)
    next
      assume *: "i < length (subcalls f) \<and> (q, g) \<in> set (preorder (subcalls f ! i))"
      then have "(i, subcalls f ! i) \<in> set (enumerate 0 (subcalls f))" by (simp add: set_enumerate0)
      then show "(path, g) \<in> set (preorder f)"
        using * by (subst preorder.simps) (force simp: Cons)
    qed
    then show ?thesis using IH by (auto simp: Cons vec_get_def)
  qed
qed

lemma distinct_concat_tagged:
  "(\<And>i x. (i, x) \<in> set (enumerate n xs) \<Longrightarrow> distinct (F x)) \<Longrightarrow>
   distinct (concat (map (\<lambda>(i, x). map (Cons i) (F x)) (enumerate n xs)))"
proof (induction xs arbitrary: n)
  case (Cons x xs)
  have "set (map (Cons n) (F x)) \<inter>
      set (concat (map (\<lambda>(i, x). map (Cons i) (F x)) (enumerate (Suc n) xs))) = {}"
    by (auto simp: in_set_enumerate_eq)
  moreover have "distinct (F x)" by (rule Cons.prems [of n]) simp
  moreover have "distinct (concat (map (\<lambda>(i, x). map (Cons i) (F x)) (enumerate (Suc n) xs)))"
    using Cons.prems by (intro Cons.IH) auto
  ultimately show ?case by (simp add: distinct_map inj_on_def)
qed simp

lemma preorder_distinct: "distinct (map fst (preorder f))"
proof (induction f rule: preorder.induct)
  case (1 f)
  have "distinct (concat (map (\<lambda>(i, sub). map (Cons i) (map fst (preorder sub))) (enumerate 0 (subcalls f))))"
    using 1 by (intro distinct_concat_tagged) auto
  moreover have "[] \<notin> set (concat (map (\<lambda>(i, sub). map (Cons i) (map fst (preorder sub)))
      (enumerate 0 (subcalls f))))" by auto
  moreover have "map fst (preorder f) =
      [] # concat (map (\<lambda>(i, sub). map (Cons i) (map fst (preorder sub))) (enumerate 0 (subcalls f)))"
    by (subst preorder.simps) (simp add: map_concat comp_def split_def)
  ultimately show ?case by simp
qed

text \<open>
  C22.  The flattening of a debug frame, which threads an address accumulator through the recursion,
  is the pre-order of the frame tree: every frame of the tree occurs exactly once, with the path from
  the root as its trace address and the number of its direct calls as its subtrace count.
\<close>

theorem traverse_is_preorder:
  "traverse_debug_frame f addr = map (item_of addr) (preorder f) \<and>
   distinct (map fst (preorder f)) \<and>
   (\<forall>path g. (path, g) \<in> set (preorder f) = (frame_at f path = Some g))"
  by (simp add: traverse_preorder_aux preorder_distinct preorder_iff)

subsection \<open>State diffs\<close>

definition diff_ok :: "normalized_state_diff \<Rightarrow> bool" where
  "diff_ok d \<longleftrightarrow>
     (nsd_kind d = ''+'' \<and> nsd_prev d = None \<and> nsd_next d \<noteq> None) \<or>
     (nsd_kind d = ''-'' \<and> nsd_prev d \<noteq> None \<and> nsd_next d = None) \<or>
     (nsd_kind d = ''*'' \<and> nsd_prev d \<noteq> None \<and> nsd_next d \<noteq> None) \<or>
     (nsd_kind d = ''='' \<and> nsd_prev d = None \<and> nsd_next d = None)"

lemma record_ok: "diff_ok (make_debug_state_diff_record i a k p n)"
  by (cases p; cases n) (simp_all add: make_debug_state_diff_record_def diff_ok_def)

lemma record_fields:
  "nsd_key (make_debug_state_diff_record i a k p n) = k"
  "nsd_prev (make_debug_state_diff_record i a k p n) = p"
  "nsd_next (make_debug_state_diff_record i a k p n) = n"
  "nsd_address (make_debug_state_diff_record i a k p n) = to_lowercase a"
  "nsd_transaction_index (make_debug_state_diff_record i a k p n) = i"
  by (cases p; cases n; simp add: make_debug_state_diff_record_def)+

lemma map_filter_in: "y \<in> set (List.map_filter f xs) \<longleftrightarrow> (\<exists>x \<in> set xs. f x = Some y)"
  by (force simp: map_filter_def)

lemma state_map_records:
  "d \<in> set (map_debug_state_map i a prev nxt) \<Longrightarrow> \<exists>k p n. d = make_debug_state_diff_record i a k p n"
  by (auto simp: map_debug_state_map_def storage_diffs_def Let_def map_filter_in
      split: option.splits if_splits) blast+

lemma debug_state_diff_records:
  "d \<in> set (map_debug_state_diff i r) \<Longrightarrow> \<exists>a k p n. d = make_debug_state_diff_record i a k p n"
  by (fastforce simp: map_debug_state_diff_def Let_def split: if_splits dest: state_map_records)

lemma replay_ok:
  assumes "replay_entry i a k v = Some d"
  shows "diff_ok d \<and> nsd_kind d \<noteq> ''='' \<and> nsd_transaction_index d = i \<and> nsd_address d = to_lowercase a"
  using assms
  by (auto simp: replay_entry_def make_state_diff_from_replay_def diff_ok_def Let_def bind_eq_Some_conv
      split: option.splits if_splits)

lemma replay_entries:
  assumes "d \<in> set (map_replay_state_diff src i)"
  shows "\<exists>a k v. replay_entry i a k v = Some d"
proof -
  obtain a w where d: "d \<in> set (case as_object w of
      None \<Rightarrow> []
    | Some obj \<Rightarrow>
        List.map_filter (\<lambda>key. Option.bind (map_of obj key) (replay_entry i a key)) [''code'', ''balance'', ''nonce''] @
        (case member_object ''storage'' obj of
           None \<Rightarrow> []
         | Some storage \<Rightarrow> List.map_filter (\<lambda>(slot_key, diff). replay_entry i a slot_key diff) storage))"
    using assms by (auto simp: map_replay_state_diff_def simp del: map_filter_simps)
  then obtain obj where "as_object w = Some obj" by (cases "as_object w") auto
  then consider key where "Option.bind (map_of obj key) (replay_entry i a key) = Some d"
    | storage slot where "(case slot of (slot_key, diff) \<Rightarrow> replay_entry i a slot_key diff) = Some d"
    using d by (cases "member_object ''storage'' obj") (auto simp: map_filter_in simp del: map_filter_simps)
  then show ?thesis by cases (auto simp: bind_eq_Some_conv split: prod.splits)
qed

text \<open>
  C23.  Every state diff that normalisation emits, from the prestate tracer or from a replay, has the
  values its kind promises and no other: an added value has no previous one, a removed value no next
  one, a changed value both and an unchanged one none; it belongs to the transaction it was asked for,
  and a replay emits no unchanged entry.
\<close>

theorem state_diffs_well_formed:
  "list_all (\<lambda>d. diff_ok d \<and> nsd_transaction_index d = i) (map_debug_state_diff i r) \<and>
   list_all (\<lambda>d. diff_ok d \<and> nsd_transaction_index d = i \<and> nsd_kind d \<noteq> ''='') (map_replay_state_diff src i)"
  using debug_state_diff_records [of _ i r] replay_entries [of _ src i]
  by (fastforce simp: list_all_iff record_ok record_fields dest: replay_ok)

subsection \<open>Storage slots\<close>

definition slots :: "json_map \<Rightarrow> json_map" where
  "slots m = (case member_object ''storage'' m of Some s \<Rightarrow> s | None \<Rightarrow> [])"

definition slot_value :: "json_map \<Rightarrow> string \<Rightarrow> string option" where
  "slot_value m k = Option.bind (map_of (slots m) k) as_str"

lemma storage_none:
  "member_object ''storage'' m = None \<Longrightarrow> slots m = []"
  "member_object ''storage'' m = None \<Longrightarrow> slot_value m k = None"
  by (simp_all add: slots_def slot_value_def)

lemma storage_some:
  "member_object ''storage'' m = Some st \<Longrightarrow> slots m = st"
  "member_object ''storage'' m = Some st \<Longrightarrow> member_str k st = slot_value m k"
  "contains_key k st \<longleftrightarrow> k \<in> fst ` set st"
  by (simp_all add: slots_def slot_value_def member_str_def contains_key_def map_of_eq_None_iff del: not_None_eq)

lemma map_filter_if:
  "List.map_filter (\<lambda>(k, v). if P k then None else Some (g k v)) xs =
     map (\<lambda>(k, v). g k v) (filter (\<lambda>(k, v). \<not> P k) xs)"
  by (induction xs) auto

lemma storage_diffs_eq:
  "storage_diffs i a prev nxt =
     map (\<lambda>(k, v). make_debug_state_diff_record i a k (as_str v) (slot_value nxt k)) (slots prev) @
     map (\<lambda>(k, v). make_debug_state_diff_record i a k None (as_str v))
       (filter (\<lambda>(k, v). k \<notin> fst ` set (slots prev)) (slots nxt))"
  by (cases "member_object ''storage'' prev"; cases "member_object ''storage'' nxt")
     (simp_all add: storage_diffs_def storage_none storage_some map_filter_if
        map_filter_if [where P = "\<lambda>_. False", simplified])

text \<open>
  The storage diffs of an account name every slot of either state exactly once, with the value
  of the slot before and after the transaction.
\<close>

theorem storage_slots_once:
  assumes "distinct (map fst (slots prev))" and "distinct (map fst (slots nxt))"
  shows "let ds = storage_diffs i a prev nxt
         in distinct (map nsd_key ds) \<and>
            set (map nsd_key ds) = fst ` set (slots prev) \<union> fst ` set (slots nxt) \<and>
            list_all (\<lambda>d. nsd_prev d = slot_value prev (nsd_key d) \<and>
                          nsd_next d = slot_value nxt (nsd_key d)) ds"
proof -
  let ?late = "filter (\<lambda>(k, v). k \<notin> fst ` set (slots prev)) (slots nxt)"
  have keys: "map nsd_key (storage_diffs i a prev nxt) = map fst (slots prev) @ map fst ?late"
    by (simp add: storage_diffs_eq split_def comp_def record_fields)
  have "distinct (map fst ?late)" using assms(2) by (simp add: distinct_map_filter)
  then have 1: "distinct (map nsd_key (storage_diffs i a prev nxt))"
    unfolding keys using assms(1) by (force simp: split_def)
  have 2: "set (map nsd_key (storage_diffs i a prev nxt)) = fst ` set (slots prev) \<union> fst ` set (slots nxt)"
    unfolding keys by (force simp: split_def)
  have "map_of (slots prev) k = Some v" if "(k, v) \<in> set (slots prev)" for k v
    using assms(1) that by simp
  moreover have "map_of (slots nxt) k = Some v" if "(k, v) \<in> set (slots nxt)" for k v
    using assms(2) that by simp
  moreover have "map_of (slots prev) k = None" if "k \<notin> fst ` set (slots prev)" for k
    using that by (simp add: map_of_eq_None_iff)
  ultimately have 3: "list_all (\<lambda>d. nsd_prev d = slot_value prev (nsd_key d) \<and>
      nsd_next d = slot_value nxt (nsd_key d)) (storage_diffs i a prev nxt)"
    unfolding storage_diffs_eq list_all_iff by (auto simp: record_fields slot_value_def)
  show ?thesis using 1 2 3 by (simp add: Let_def)
qed

theorem storage_slots_once_witness:
  "let prev = [(''storage'', JObject [(''0x1'', JString ''a'')])];
       nxt = [(''storage'', JObject [(''0x1'', JString ''b''), (''0x2'', JString ''c'')])]
   in distinct (map nsd_key (storage_diffs 0 ''0xA'' prev nxt)) \<and>
      set (map nsd_key (storage_diffs 0 ''0xA'' prev nxt)) = {''0x1''} \<union> {''0x1'', ''0x2''}"
  using storage_slots_once [of "[(''storage'', JObject [(''0x1'', JString ''a'')])]"
      "[(''storage'', JObject [(''0x1'', JString ''b''), (''0x2'', JString ''c'')])]" 0 "''0xA''"]
  by (simp add: Let_def slots_def member_object_def)

subsection \<open>Revert reasons\<close>

text \<open>The ABI encoding of \<open>Error(string)\<close>: selector, offset word, length word, text, padding.\<close>

definition hex_byte :: "char \<Rightarrow> string" where
  "hex_byte c = [hex_char (of_char c div 16), hex_char (of_char c mod 16)]"

definition abi_word :: "nat \<Rightarrow> string" where
  "abi_word n = replicate 62 CHR ''0'' @ hex_byte (char_of n)"

definition revert_output :: "bytes \<Rightarrow> string \<Rightarrow> string" where
  "revert_output reason pad =
     ''0x08c379a0'' @ abi_word 32 @ abi_word (length reason) @ concat (map hex_byte reason) @ pad"

lemma of_char_div16: "of_char c div 16 < (16 :: nat)"
  using nat_of_char_less_256 [of c] by (simp only: less_mult_imp_div_less)

lemma decode_hex_byte: "decode_hex_node_style (hex_byte c @ s) = c # decode_hex_node_style s"
  by (simp add: hex_byte_def hex_digit_char of_char_div16)

lemma decode_hex_bytes:
  "decode_hex_node_style (concat (map hex_byte r) @ s) = r @ decode_hex_node_style s"
  by (induction r) (simp_all add: decode_hex_byte)

lemma lossy_ascii: "\<forall>c \<in> set r. of_char c < (128 :: nat) \<Longrightarrow> from_utf8_lossy r = r"
proof (induction r)
  case Nil
  then show ?case by (subst from_utf8_lossy.simps) simp
next
  case (Cons c r)
  have "utf8_unit (c # r) = (True, 1)" using Cons.prems by (simp add: utf8_unit.simps Let_def)
  then show ?case using Cons by (subst from_utf8_lossy.simps) simp
qed

lemma hex_char_ascii: "d < 16 \<Longrightarrow> of_char (hex_char d) < (128 :: nat)"
  by (auto simp: hex_char_def)

lemma drop_revert_output:
  "strip_0x (revert_output r pad) =
     (''08c379a0'' @ abi_word 32 @ replicate 62 CHR ''0'') @
     hex_byte (char_of (length r)) @ concat (map hex_byte r) @ pad"
  by (simp add: revert_output_def strip_0x_def abi_word_def)

lemma drop_length_append: "drop (length xs) (xs @ ys) = ys"
  by simp

lemma revert_tail:
  "str_get_from 134 (strip_0x (revert_output r pad)) =
     Some (hex_byte (char_of (length r)) @ concat (map hex_byte r) @ pad)"
proof -
  let ?h = "''08c379a0'' @ abi_word 32 @ replicate 62 CHR ''0''"
  let ?t = "hex_byte (char_of (length r)) @ concat (map hex_byte r) @ pad"
  have len: "length ?h = 134" by (simp add: abi_word_def hex_byte_def)
  let ?n = "of_char (char_of (length r) :: char) :: nat"
  have t: "?t = hex_char (?n div 16) # (hex_char (?n mod 16) # concat (map hex_byte r) @ pad)"
    by (simp add: hex_byte_def)
  have "(?h @ ?t) ! length ?h = hex_char (?n div 16)" unfolding t by (rule nth_append_length)
  then have "of_char ((?h @ ?t) ! length ?h) < (128 :: nat)"
    by (simp only: hex_char_ascii of_char_div16)
  moreover have "length ?h < length (?h @ ?t)" by (simp add: hex_byte_def)
  ultimately have "str_get_from (length ?h) (?h @ ?t) = Some (drop (length ?h) (?h @ ?t))"
    by (simp only: str_get_from_def byte_in_def) simp
  moreover have "drop (length ?h) (?h @ ?t) = ?t"
    by (rule drop_length_append)
  ultimately show ?thesis unfolding drop_revert_output len by (simp only:)
qed

text \<open>
  The revert reason of a failed call is the text the contract reverted with: for every ASCII
  reason of up to 255 bytes, encoded as the ABI encodes \<open>Error(string)\<close> with any padding, the
  extraction gives the reason back.
\<close>

theorem revert_reason_roundtrip:
  assumes "length r < 256" and "\<forall>c \<in> set r. of_char c < (128 :: nat)"
  shows "extract_revert_reason (Some (CallResult \<lparr>trl_gas_used = g, trl_output = revert_output r pad\<rparr>)) = Some r"
proof -
  have len: "of_char (char_of (length r) :: char) = length r" using assms(1) by simp
  have "vec_slice (char_of (length r) # r @ decode_hex_node_style pad) 1
      (min (1 + length r) (length (char_of (length r) # r @ decode_hex_node_style pad))) = Some r"
    by (simp add: vec_slice_def min_def)
  then show ?thesis
    by (simp add: extract_revert_reason_def revert_tail decode_hex_byte decode_hex_bytes len
        lossy_ascii [OF assms(2)] Let_def mod_less [OF assms(1)])
qed

theorem revert_reason_roundtrip_witness:
  "extract_revert_reason (Some (CallResult \<lparr>trl_gas_used = ''0x0'', trl_output = revert_output ''paused'' ''00''\<rparr>))
     = Some ''paused''"
  by (rule revert_reason_roundtrip) simp_all

end
