(* ===== verification/Evm_Frames.thy ===== *)
theory Evm_Frames
  imports Evm_Normalize Evm_Norm_Facts
begin

text \<open>
  The structural and semantic checks of debug call frames (\<open>evm-source/src/verification.rs\<close>, the part
  on debug frames).  A check returns the description of the first violation in pre-order, or \<open>None\<close>.
  The structural check is what licenses normalisation: a tree that passes it is mapped frame by frame,
  without dropping one.
\<close>

definition is_ascii_hexdigit :: "char \<Rightarrow> bool" where
  "is_ascii_hexdigit c \<longleftrightarrow> hex_digit c \<noteq> None"

definition is_address :: "string \<Rightarrow> bool" where
  "is_address v \<longleftrightarrow>
     take 2 v = ''0x'' \<and> length (drop 2 v) = 40 \<and> list_all is_ascii_hexdigit (drop 2 v)"

fun join :: "string \<Rightarrow> string list \<Rightarrow> string" where
  "join sep [] = []"
| "join sep [x] = x"
| "join sep (x # y # ys) = x @ sep @ join sep (y # ys)"

definition trace_address :: "nat list \<Rightarrow> string" where
  "trace_address path = join ''/'' (map decimal path)"

definition frame_label :: "nat list \<Rightarrow> string" where
  "frame_label path = (if path = [] then ''root frame'' else ''frame '' @ trace_address path)"

definition typed_frame_label :: "nat list \<Rightarrow> string \<Rightarrow> string" where
  "typed_frame_label path kind =
     (if path = [] then ''root '' @ kind @ '' frame'' else kind @ '' frame '' @ trace_address path)"

definition some_nonempty :: "string option \<Rightarrow> bool" where
  "some_nonempty v = (case v of Some s \<Rightarrow> s \<noteq> [] | None \<Rightarrow> False)"

text \<open>The checks on a frame that is not a \<open>STOP\<close>, before its calls.\<close>

definition check_frame_fields :: "debug_frame \<Rightarrow> nat list \<Rightarrow> string option" where
  "check_frame_fields frame path =
     (let kind = classify_frame (df_frame_type frame)
      in if \<not> is_mappable kind
         then Some (frame_label path @ '' has unsupported type '' @ df_frame_type frame)
         else if \<not> is_address (df_from frame)
         then Some (frame_label path @ '' has invalid from address '' @ df_from frame)
         else if (case df_to frame of
                    Some t \<Rightarrow> \<not> (is_create kind \<and> t = []) \<and> \<not> is_address t
                  | None \<Rightarrow> False)
         then Some (frame_label path @ '' has invalid to address '' @ the (df_to frame))
         else if is_call kind then
           (if df_to frame = None then Some (typed_frame_label path ''call'' @ '' has no target'')
            else if df_input frame = None then Some (typed_frame_label path ''call'' @ '' has no input'')
            else None)
         else if is_create kind then
           (if df_input frame = None then Some (typed_frame_label path ''create'' @ '' has no init code'')
            else if (some_nonempty (df_to frame) \<or> some_nonempty (df_output frame)) \<and>
                    \<not> some_nonempty (df_gas_used frame)
            then Some (typed_frame_label path ''create'' @ '' has a result but no gas used'')
            else None)
         else if is_selfdestruct kind \<and> df_to frame = None
         then Some (typed_frame_label path ''selfdestruct'' @ '' has no beneficiary'')
         else None)"

fun check_frame_structure :: "debug_frame \<Rightarrow> nat list \<Rightarrow> string option"
  and check_frame_children :: "debug_frame list \<Rightarrow> nat list \<Rightarrow> nat \<Rightarrow> string option" where
  "check_frame_structure frame path =
     (if classify_frame (df_frame_type frame) = KStop then
        (if path = [] then
           (if subcalls frame \<noteq> [] then Some ''root STOP frame has subcalls'' else None)
         else Some (frame_label path @ '' has unsupported type '' @ df_frame_type frame))
      else
        (case check_frame_fields frame path of
           Some violation \<Rightarrow> Some violation
         | None \<Rightarrow> check_frame_children (subcalls frame) path 0))"
| "check_frame_children [] path i = None"
| "check_frame_children (child # children) path i =
     (case check_frame_structure child (path @ [i]) of
        Some violation \<Rightarrow> Some violation
      | None \<Rightarrow> check_frame_children children path (Suc i))"

declare check_frame_structure.simps [simp del]

definition check_debug_frame_structure :: "debug_frame \<Rightarrow> string option" where
  "check_debug_frame_structure root = check_frame_structure root []"

fun check_subcalls :: "debug_frame \<Rightarrow> nat list \<Rightarrow> string option"
  and check_children :: "string option \<Rightarrow> debug_frame list \<Rightarrow> nat list \<Rightarrow> nat \<Rightarrow> string option" where
  "check_subcalls parent path =
     (let executor = (if preserves_context (classify_frame (df_frame_type parent))
                      then Some (df_from parent) else df_to parent)
      in check_children executor (subcalls parent) path 0)"
| "check_children executor [] path i = None"
| "check_children executor (child # children) path i =
     (let kind = classify_frame (df_frame_type child); here = path @ [i]
      in if (case executor of Some e \<Rightarrow> \<not> eq_ignore_ascii_case (df_from child) e | None \<Rightarrow> False)
         then Some (''frame '' @ trace_address here @ '' is executed by '' @ df_from child @ '', but '' @
                    the executor @ '' is on top of the call stack'')
         else if is_selfdestruct kind \<and> df_to child = None
         then Some (typed_frame_label here ''selfdestruct'' @ '' has no beneficiary'')
         else
           (case (if is_mappable kind then check_subcalls child here else None) of
              Some violation \<Rightarrow> Some violation
            | None \<Rightarrow> check_children executor children path (Suc i)))"

declare check_subcalls.simps [simp del]

definition check_call_frame_tree :: "rpc_transaction \<Rightarrow> debug_frame \<Rightarrow> string option" where
  "check_call_frame_tree tx root =
     (let root_kind = classify_frame (df_frame_type root)
      in if root_kind = KStop then None
         else if \<not> eq_ignore_ascii_case (df_from root) (tx_from tx)
         then Some (''root frame is executed by '' @ df_from root @
                    '', but the transaction is sent by '' @ tx_from tx)
         else
           (case tx_to tx of
              None \<Rightarrow>
                (if \<not> is_create root_kind
                 then Some (''root frame has type '' @ df_frame_type root @
                            '', but the transaction creates a contract'')
                 else check_subcalls root [])
            | Some target \<Rightarrow>
                (if \<not> is_root_call root_kind
                 then Some (''root frame has type '' @ df_frame_type root @
                            '', but the transaction calls '' @ target)
                 else if (case df_to root of Some a \<Rightarrow> \<not> eq_ignore_ascii_case a target | None \<Rightarrow> True)
                 then Some (''root frame calls '' @
                            (case df_to root of Some a \<Rightarrow> a | None \<Rightarrow> ''nothing'') @
                            '', but the transaction calls '' @ target)
                 else check_subcalls root [])))"

subsection \<open>A tree that passes is mapped whole\<close>

text \<open>What a frame needs to be mapped.\<close>

definition frame_maps :: "debug_frame \<Rightarrow> bool" where
  "frame_maps f \<longleftrightarrow>
     is_mappable (classify_frame (df_frame_type f)) \<and>
     (\<not> is_create (classify_frame (df_frame_type f)) \<longrightarrow> df_to f \<noteq> None)"

lemma mappable_cases: "is_mappable k \<longleftrightarrow> is_call k \<or> is_create k \<or> is_selfdestruct k"
  by (cases k) (simp_all add: is_mappable_def is_call_def is_create_def is_selfdestruct_def)

lemma check_frame_fields_maps: "check_frame_fields f path = None \<Longrightarrow> frame_maps f"
  by (auto simp: check_frame_fields_def frame_maps_def mappable_cases Let_def split: if_splits)

lemma preorder_Cons:
  "set (map snd (preorder f)) = insert f (\<Union>sub \<in> set (subcalls f). set (map snd (preorder sub)))"
proof -
  have enum: "map (\<lambda>(i, sub). F sub) (enumerate n xs) = map F xs" for F :: "debug_frame \<Rightarrow> debug_frame list" and n xs
    by (induction xs arbitrary: n) simp_all
  have "map snd (preorder f) =
      f # concat (map (\<lambda>(i, sub). map snd (preorder sub)) (enumerate 0 (subcalls f)))"
    by (subst preorder.simps) (simp add: map_concat comp_def split_def)
  then show ?thesis unfolding enum by simp
qed

lemma check_structure_maps:
  "check_frame_structure f path = None \<Longrightarrow> path \<noteq> [] \<or> classify_frame (df_frame_type f) \<noteq> KStop \<Longrightarrow>
     \<forall>g \<in> set (map snd (preorder f)). frame_maps g"
  "check_frame_children subs path i = None \<Longrightarrow>
     \<forall>sub \<in> set subs. \<forall>g \<in> set (map snd (preorder sub)). frame_maps g"
proof (induction f path and subs path i rule: check_frame_structure_check_frame_children.induct)
  case (1 f path)
  then have ns: "classify_frame (df_frame_type f) \<noteq> KStop"
    by (auto simp: check_frame_structure.simps split: if_splits)
  then have fields: "check_frame_fields f path = None"
    and subs: "check_frame_children (subcalls f) path 0 = None"
    using "1.prems"(1) by (auto simp: check_frame_structure.simps split: option.splits)
  show ?case
    using "1.IH" [OF ns fields subs] check_frame_fields_maps [OF fields]
    by (subst preorder_Cons) blast
next
  case (3 child children path i)
  then have 1: "check_frame_structure child (path @ [i]) = None"
    "check_frame_children children path (Suc i) = None" by (auto split: option.splits)
  show ?case using "3.IH"(1) [OF 1(1)] "3.IH"(2) [OF 1] by simp
qed simp

lemma normalized_type:
  "is_call k \<Longrightarrow> normalized_kind k = Some ''call''"
  "is_create k \<Longrightarrow> normalized_kind k = Some ''create''"
  "is_selfdestruct k \<Longrightarrow> normalized_kind k = Some ''selfdestruct''"
  by (simp_all only: normalized_kind_cases)

fun normalized_address :: "normalized_trace \<Rightarrow> u64 list" where
  "normalized_address (TraceApi t) = nta_trace_address t"
| "normalized_address (DebugTrace t) = ndt_trace_address t"

lemma map_debug_item_maps:
  assumes "frame_maps (it_frame item)"
  shows "\<exists>t. map_debug_item i item = Some t \<and> normalized_address t = it_trace_address item"
proof -
  let ?f = "it_frame item" let ?k = "classify_frame (df_frame_type ?f)"
  consider "is_create ?k" | "is_call ?k" "df_to ?f \<noteq> None" | "is_selfdestruct ?k" "df_to ?f \<noteq> None"
    using assms by (auto simp: frame_maps_def mappable_cases)
  then show ?thesis
    by cases (auto simp: map_debug_item_def frame_type_to_normalized_def normalized_type debug_trace_def
        Let_def simp del: normalized_kind.simps)
qed

lemma map_filter_total:
  "(\<And>x. x \<in> set xs \<Longrightarrow> \<exists>y. f x = Some y \<and> g y = h x) \<Longrightarrow> map g (List.map_filter f xs) = map h xs"
proof (induction xs)
  case (Cons x xs)
  obtain y where "f x = Some y" "g y = h x" using Cons.prems [of x] by auto
  then show ?case using Cons by simp
qed simp

text \<open>
  C27.  A debug frame that passes the structural check is normalised without dropping or inventing a
  frame: an empty \<open>STOP\<close> trace gives no record, and any other tree gives one record per frame, in
  pre-order and at the address of the frame.
\<close>

theorem checked_frames_mapped_whole:
  assumes "check_debug_frame_structure (dfr_result r) = None"
  shows "map normalized_address (map_debug_frame i r) =
           (if classify_frame (df_frame_type (dfr_result r)) = KStop then []
            else map (\<lambda>(path, g). map of_nat path) (preorder (dfr_result r)))"
proof (cases "classify_frame (df_frame_type (dfr_result r)) = KStop")
  case True
  then have "subcalls (dfr_result r) = []"
    using assms by (auto simp: check_debug_frame_structure_def check_frame_structure.simps split: if_splits)
  then show ?thesis using True by (simp add: map_debug_frame_def)
next
  case False
  let ?root = "dfr_result r"
  have maps: "\<forall>g \<in> set (map snd (preorder ?root)). frame_maps g"
    using check_structure_maps(1) assms False by (simp add: check_debug_frame_structure_def)
  have "map normalized_address (List.map_filter (map_debug_item i) (traverse_debug_frame ?root [])) =
      map it_trace_address (traverse_debug_frame ?root [])"
  proof (rule map_filter_total)
    fix item assume "item \<in> set (traverse_debug_frame ?root [])"
    then have "it_frame item \<in> set (map snd (preorder ?root))"
      by (force simp: traverse_preorder_aux item_of_def)
    then show "\<exists>t. map_debug_item i item = Some t \<and> normalized_address t = it_trace_address item"
      using maps map_debug_item_maps by blast
  qed
  then show ?thesis
    using False by (simp add: map_debug_frame_def traverse_preorder_aux item_of_def comp_def split_def)
qed

definition sample_frame :: "debug_frame list option \<Rightarrow> debug_frame" where
  "sample_frame calls =
     DebugFrame ''CALL'' (''0x'' @ replicate 40 CHR ''a'') (Some (''0x'' @ replicate 40 CHR ''b''))
       (Some ''0x'') None None None None ''0x5208'' None calls []"

theorem checked_frames_mapped_whole_witness:
  "map normalized_address
     (map_debug_frame 0 \<lparr>dfr_result = sample_frame (Some [sample_frame None]), dfr_tx_hash = None\<rparr>) =
   map (\<lambda>(path, g). map of_nat path) (preorder (sample_frame (Some [sample_frame None])))"
proof -
  have ok: "check_debug_frame_structure (sample_frame (Some [sample_frame None])) = None"
    by code_simp
  have kind: "classify_frame (df_frame_type (sample_frame (Some [sample_frame None]))) = KCall"
    by code_simp
  show ?thesis
    using checked_frames_mapped_whole
      [of "\<lparr>dfr_result = sample_frame (Some [sample_frame None]), dfr_tx_hash = None\<rparr>" 0] ok kind
    by simp
qed

end
