(* ===== verification/Evm_Fetch.thy ===== *)
theory Evm_Fetch
  imports Evm_Rpc Evm_Frames
begin

text \<open>
  The acquisition of blocks (\<open>evm-source/src/fetch.rs\<close>, second half): block bodies with the header
  checks, the legs of a request (logs, receipts, traces and state diffs) fetched and applied to the
  blocks, and the coherence checks of each component.  A result of type \<open>run\<close> is \<open>None\<close> for a panic,
  \<open>Some (Inl e)\<close> for an error and \<open>Some (Inr x)\<close> for a value; the loops that index one vector by the
  position in another panic when the second is too short (\<open>positions\<close>).
\<close>

type_synonym 'a run = "(anyhow + 'a) option"
type_synonym 'a component = "string + 'a"
type_synonym verification_result = "string + unit"

definition run_bind :: "'a run \<Rightarrow> ('a \<Rightarrow> 'b run) \<Rightarrow> 'b run" where
  "run_bind r f = (case r of None \<Rightarrow> None | Some (Inl e) \<Rightarrow> Some (Inl e) | Some (Inr x) \<Rightarrow> f x)"

definition positions :: "'a list \<Rightarrow> 'b list \<Rightarrow> ('a \<times> 'b) list run" where
  "positions xs rs = (if length rs \<le> length xs then Some (Inr (zip xs rs)) else None)"

definition client_error :: "rpc_error + 'a \<Rightarrow> anyhow + 'a" where
  "client_error r = map_err OfRpc r"

subsection \<open>Header checks\<close>

definition on :: "bool \<Rightarrow> verification_result \<Rightarrow> verification_result" where
  "on enabled check = (if enabled then check else Inr ())"

definition check_block_hash :: "rpc \<Rightarrow> chain_utils \<Rightarrow> raw_rpc_block \<Rightarrow> verification_result" where
  "check_block_hash r utils raw =
     bind_result (map_err (\<lambda>e. ''block hash verification failed: '' @ e)
         (calculate_block_hash (r_lib r) utils (raw_block raw))) (\<lambda>computed.
       if \<not> eq_ignore_ascii_case computed (raw_hash raw)
       then Inl (''block hash mismatch: expected '' @ raw_hash raw @ '' got '' @ computed)
       else Inr ())"

definition check_tx_root :: "rpc \<Rightarrow> chain_utils \<Rightarrow> raw_rpc_block \<Rightarrow> verification_result" where
  "check_tx_root r utils raw =
     bind_result (map_err (\<lambda>e. ''transactions root verification failed: '' @ e)
         (calculate_transactions_root (r_lib r) utils (raw_block raw))) (\<lambda>computed.
       case computed of
         Some c \<Rightarrow>
           if \<not> eq_ignore_ascii_case c (rb_transactions_root (raw_block raw))
           then Inl (''transactions root mismatch: expected '' @ rb_transactions_root (raw_block raw) @ '' got '' @ c)
           else Inr ()
       | None \<Rightarrow> Inr ())"

definition check_sender :: "rpc \<Rightarrow> chain_utils \<Rightarrow> rpc_transaction \<Rightarrow> verification_result" where
  "check_sender r utils tx =
     bind_result (map_err (\<lambda>e. ''sender recovery failed for tx '' @ tx_hash tx @ '': '' @ e)
         (chain_recover_tx_sender (r_lib r) utils tx)) (\<lambda>recovered.
       case recovered of
         None \<Rightarrow> Inr ()
       | Some sender \<Rightarrow>
           if \<not> eq_ignore_ascii_case sender (tx_from tx)
           then Inl (''sender mismatch for tx '' @ tx_hash tx @ '': claimed '' @ tx_from tx @ '' recovered '' @ sender)
           else Inr ())"

definition check_senders :: "rpc \<Rightarrow> chain_utils \<Rightarrow> raw_rpc_block \<Rightarrow> verification_result" where
  "check_senders r utils raw =
     bind_result (collect (map (check_sender r utils) (rb_transactions (raw_block raw)))) (\<lambda>_. Inr ())"

definition check_withdrawals_root :: "rpc \<Rightarrow> raw_rpc_block \<Rightarrow> verification_result" where
  "check_withdrawals_root r raw =
     (case (rb_withdrawals_root (raw_block raw), rb_withdrawals (raw_block raw)) of
        (Some claimed, Some withdrawals) \<Rightarrow>
          bind_result (map_err (\<lambda>e. ''withdrawals root verification failed: '' @ e)
              (calculate_withdrawals_root (r_lib r) withdrawals)) (\<lambda>computed.
            if \<not> eq_ignore_ascii_case computed claimed
            then Inl (''withdrawals root mismatch: expected '' @ claimed @ '' got '' @ computed)
            else Inr ())
      | (None, None) \<Rightarrow> Inr ()
      | (Some _, None) \<Rightarrow> Inl ''withdrawals are missing while withdrawalsRoot is present''
      | (None, Some _) \<Rightarrow> Inl ''withdrawalsRoot is missing while withdrawals are present'')"

definition verify_header :: "rpc \<Rightarrow> raw_rpc_block \<Rightarrow> chain_utils \<Rightarrow> verification_result" where
  "verify_header r raw utils =
     bind_result (on (verify_block_hash (r_options r)) (check_block_hash r utils raw)) (\<lambda>_.
     bind_result (on (verify_tx_root (r_options r)) (check_tx_root r utils raw)) (\<lambda>_.
     bind_result (on (verify_tx_sender (r_options r)) (check_senders r utils raw)) (\<lambda>_.
     on (verify_withdrawals_root (r_options r)) (check_withdrawals_root r raw))))"

subsection \<open>Log and receipt checks\<close>

fun check_log_indexes :: "nat \<Rightarrow> rpc_log list \<Rightarrow> verification_result" where
  "check_log_indexes i [] = Inr ()"
| "check_log_indexes i (l # ls) =
     (let actual = qty2_u64 (log_log_index l)
      in if actual \<noteq> of_nat i
         then Inl (''log index check failed: expected '' @ decimal i @ '' got '' @ show_u64 actual)
         else check_log_indexes (Suc i) ls)"

definition check_logs_bloom :: "rpc \<Rightarrow> raw_rpc_block \<Rightarrow> rpc_log list \<Rightarrow> chain_utils \<Rightarrow> verification_result" where
  "check_logs_bloom r b logs utils =
     (let computed = calculate_logs_bloom (r_lib r) (r_split r) utils (raw_block b) logs
      in if \<not> eq_ignore_ascii_case computed (rb_logs_bloom (raw_block b))
         then Inl (''logs bloom mismatch: expected '' @ rb_logs_bloom (raw_block b) @ '' got '' @ computed)
         else Inr ())"

definition verify_logs :: "rpc \<Rightarrow> raw_rpc_block \<Rightarrow> rpc_log list \<Rightarrow> chain_utils \<Rightarrow> verification_result" where
  "verify_logs r b logs utils =
     bind_result (on (check_log_index (r_options r)) (check_log_indexes 0 logs)) (\<lambda>_.
     on (verify_logs_bloom (r_options r)) (check_logs_bloom r b logs utils))"

definition fetch_parse_qty_u128 :: "string \<Rightarrow> string \<Rightarrow> nat component" where
  "fetch_parse_qty_u128 s field =
     (let digits = strip_0x s
      in if digits = [] then Inl (field @ '' is an empty hexadecimal quantity'')
         else case from_str_radix16 128 digits of
           Some v \<Rightarrow> Inr v
         | None \<Rightarrow> Inl (field @ '' is not a valid u128 hexadecimal quantity: '' @ parse_int_error 128 digits))"

fun check_cumulative_gas :: "nat \<Rightarrow> rpc_receipt list \<Rightarrow> verification_result" where
  "check_cumulative_gas prev [] = Inr ()"
| "check_cumulative_gas prev (rc # rcs) =
     bind_result (map_err (\<lambda>e. e @ '' at tx '' @ rc_transaction_hash rc)
         (fetch_parse_qty_u128 (rc_cumulative_gas_used rc) ''receipt.cumulativeGasUsed'')) (\<lambda>cumulative.
     bind_result (map_err (\<lambda>e. e @ '' at tx '' @ rc_transaction_hash rc)
         (fetch_parse_qty_u128 (rc_gas_used rc) ''receipt.gasUsed'')) (\<lambda>used.
     if prev + used \<ge> 2 ^ 128 then Inl (''cumulative gas used overflow at tx '' @ rc_transaction_hash rc)
     else if cumulative \<noteq> prev + used
     then Inl (''cumulative gas used check failed at tx '' @ rc_transaction_hash rc)
     else check_cumulative_gas cumulative rcs))"

definition check_receipts_root :: "rpc \<Rightarrow> raw_rpc_block \<Rightarrow> rpc_receipt list \<Rightarrow> chain_utils \<Rightarrow> verification_result" where
  "check_receipts_root r b receipts utils =
     bind_result (map_err (\<lambda>e. ''receipts root verification failed: '' @ e)
         (calculate_receipts_root (r_lib r) utils (raw_block b) receipts)) (\<lambda>computed.
       if \<not> eq_ignore_ascii_case computed (rb_receipts_root (raw_block b))
       then Inl (''receipts root mismatch: expected '' @ rb_receipts_root (raw_block b) @ '' got '' @ computed)
       else Inr ())"

definition verify_receipts :: "rpc \<Rightarrow> raw_rpc_block \<Rightarrow> rpc_receipt list \<Rightarrow> chain_utils \<Rightarrow> verification_result" where
  "verify_receipts r b receipts utils =
     bind_result (on (check_cumulative_gas_used (r_options r))
       (check_cumulative_gas 0 (committed_receipts (r_lib r) utils (raw_block b) receipts))) (\<lambda>_.
     on (verify_receipts_root (r_options r)) (check_receipts_root r b receipts utils))"

subsection \<open>Block bodies\<close>

definition incoherent_placeholder :: "u64 \<Rightarrow> string \<Rightarrow> raw_rpc_block" where
  "incoherent_placeholder n reason =
     (let b = \<lparr>rb_number = to_qty n, rb_hash = [], rb_parent_hash = [], rb_difficulty = None,
               rb_total_difficulty = None, rb_excess_blob_gas = None, rb_extra_data = [], rb_gas_limit = [],
               rb_gas_used = [], rb_sha3_uncles = [], rb_logs_bloom = [], rb_transactions_root = [],
               rb_receipts_root = [], rb_state_root = [], rb_miner = [], rb_mix_hash = None, rb_nonce = None,
               rb_base_fee_per_gas = None, rb_blob_gas_used = None, rb_parent_beacon_block_root = None,
               rb_size = [], rb_timestamp = [], rb_transactions = [], rb_uncles = [], rb_withdrawals = None,
               rb_withdrawals_root = None, rb_requests_hash = None, rb_l1_block_number = None,
               rb_main_block_general_gas_limit = None, rb_shared_gas_limit = None,
               rb_timestamp_millis_part = None\<rparr>
      in mark_invalid reason (raw_rpc_block_new n [] b))"

definition blocks_validate_error :: "rpc_error_info \<Rightarrow> rpc_error + json" where
  "blocks_validate_error info =
     (if str_contains (message info) ''cannot query unfinalized data'' then Inr JNull
      else if str_contains (message info) ''invalid block height'' then Inl (RetryRequested ''invalid block height'')
      else if code info = -32000 then Inl (RetryRequested ''internal error -32000'')
      else Inl (rpc_of_info info))"

definition block_call :: "bool \<Rightarrow> u64 \<Rightarrow> call" where
  "block_call with_transactions n =
     (''eth_getBlockByNumber'', Some (JArray [JString (to_qty n), JBool with_transactions]))"

definition block_of_result :: "rpc \<Rightarrow> chain_utils \<Rightarrow> u64 \<Rightarrow> rpc_error + json \<Rightarrow> raw_rpc_block option" where
  "block_of_result r utils n res =
     (case res of
        Inl e \<Rightarrow>
          Some (incoherent_placeholder n
            (''eth_getBlockByNumber failed for block '' @ show_u64 n @ '': '' @ show_rpc_error e))
      | Inr v \<Rightarrow>
          if v = JNull then None
          else
            case de_block (r_de r) v of
              Inl e \<Rightarrow>
                Some (incoherent_placeholder n
                  (''unparsable eth_getBlockByNumber result for block '' @ show_u64 n @ '': '' @ e))
            | Inr rpc_block \<Rightarrow>
                let num = qty2_u64 (rb_number rpc_block);
                    raw = raw_rpc_block_new num (rb_hash rpc_block) rpc_block
                in if num \<noteq> n then Some (mark_invalid ''block number mismatch'' raw)
                   else
                     case verify_header r raw utils of
                       Inl reason \<Rightarrow> Some (mark_invalid reason raw)
                     | Inr _ \<Rightarrow> Some raw)"

definition get_blocks :: "rpc \<Rightarrow> u64 list \<Rightarrow> bool \<Rightarrow> raw_rpc_block option list run" where
  "get_blocks r numbers with_transactions =
     (if numbers = [] then Some (Inr [])
      else
        run_bind (Some (client_error (up_batch (r_client r) (map (block_call with_transactions) numbers)
          (with_validate_error blocks_validate_error)))) (\<lambda>results.
        run_bind (Some (get_chain_utils r)) (\<lambda>utils.
        run_bind (positions numbers results) (\<lambda>prs.
        Some (Inr (map (\<lambda>(n, res). block_of_result r utils n res) prs))))))"

definition get_single_block :: "rpc \<Rightarrow> u64 \<Rightarrow> raw_rpc_block option run" where
  "get_single_block r n =
     run_bind (get_blocks r [n] True) (\<lambda>results.
       Some (Inr (case results of [] \<Rightarrow> None | b # _ \<Rightarrow> b)))"

text \<open>The loop that keeps the linked prefix; \<open>chain\<close> is what has been kept, whose last hash it compares.\<close>

fun link_chain :: "raw_rpc_block list \<Rightarrow> raw_rpc_block option list \<Rightarrow> raw_rpc_block list" where
  "link_chain chain [] = chain"
| "link_chain chain (None # bs) = chain"
| "link_chain chain (Some b # bs) =
     (if raw_hash b = [] then chain @ [b]
      else if chain \<noteq> [] \<and> \<not> eq_ignore_ascii_case (raw_hash (last chain)) (rb_parent_hash (raw_block b)) then chain
      else link_chain (chain @ [b]) bs)"

subsection \<open>Finalized probes\<close>

definition probe_info :: "rpc_error + json \<Rightarrow> (u64 \<times> string) option" where
  "probe_info res =
     (case res of
        Inl e \<Rightarrow> None
      | Inr v \<Rightarrow>
          if v = JNull then None
          else
            case (map_option qty2_u64 (Option.bind (json_get ''number'' v) as_str),
                  Option.bind (json_get ''hash'' v) as_str) of
              (Some n, Some h) \<Rightarrow> Some (n, h)
            | _ \<Rightarrow> None)"

text \<open>\<open>finalized\<close> is the answer of the read through the cache.\<close>

definition get_finalized_block_batch ::
    "rpc \<Rightarrow> anyhow + (u64 \<times> string) \<Rightarrow> u64 list \<Rightarrow> anyhow + (u64 \<times> string) option list" where
  "get_finalized_block_batch r finalized numbers =
     bind_result finalized (\<lambda>(finalized_num, _).
       let ns = filter (\<lambda>n. n \<le> finalized_num) numbers
       in if ns = [] then Inr []
          else
            bind_result (client_error (up_batch (r_client r) (map (block_call False) ns) call_options_default)) (\<lambda>results.
              Inr (map probe_info results)))"

subsection \<open>Logs\<close>

definition is_zero_bloom :: "string \<Rightarrow> bool" where
  "is_zero_bloom bloom = list_all (\<lambda>c. c = CHR ''0'') (strip_0x bloom)"

fun fix_log_indexes :: "nat \<Rightarrow> rpc_log list \<Rightarrow> rpc_log list" where
  "fix_log_indexes i [] = []"
| "fix_log_indexes i (l # ls) = l\<lparr>log_log_index := to_qty (of_nat i)\<rparr> # fix_log_indexes (Suc i) ls"

fun renumber_logs :: "nat \<Rightarrow> rpc_receipt list \<Rightarrow> rpc_receipt list" where
  "renumber_logs i [] = []"
| "renumber_logs i (rc # rcs) =
     rc\<lparr>rc_logs := fix_log_indexes i (rc_logs rc)\<rparr> # renumber_logs (i + length (rc_logs rc)) rcs"

definition logs_validate_error :: "rpc_error_info \<Rightarrow> rpc_error + json" where
  "logs_validate_error info =
     (if str_contains (message info) ''after last accepted block'' then Inr (JArray []) else Inl (rpc_of_info info))"

definition fetch_logs :: "rpc \<Rightarrow> raw_rpc_block list \<Rightarrow> rpc_log list run" where
  "fetch_logs r blks =
     (if blks = [] then Some (Inr [])
      else
        run_bind (Some (client_error (up_call (r_client r)
          (''eth_getLogs'', Some (JArray [JObject
             [(''fromBlock'', JString (rb_number (raw_block (hd blks)))),
              (''toBlock'', JString (rb_number (raw_block (last blks))))]]))
          (with_validate_error logs_validate_error)))) (\<lambda>res.
        Some (map_err OfSerde (de_logs (r_de r) res))))"

definition group_logs :: "rpc_log list \<Rightarrow> string \<rightharpoonup> rpc_log list" where
  "group_logs logs =
     fold (\<lambda>l m. m(log_block_hash l \<mapsto> or_else (m (log_block_hash l)) [] @ [l])) logs Map.empty"

definition apply_block_logs :: "rpc \<Rightarrow> chain_utils \<Rightarrow> rpc_log list \<Rightarrow> raw_rpc_block \<Rightarrow> raw_rpc_block" where
  "apply_block_logs r utils found b =
     (if found = [] \<and> \<not> is_zero_bloom (rb_logs_bloom (raw_block b))
      then mark_not_ready ''eth_getLogs returned empty result but logsBloom is non-zero (not ready)'' b
      else
        let logs = (if has utils NonSequentialLogIndexes then fix_log_indexes 0 found else found)
        in case verify_logs r b logs utils of
             Inl reason \<Rightarrow> mark_invalid reason b
           | Inr _ \<Rightarrow> b\<lparr>raw_logs := Some logs\<rparr>)"

fun apply_grouped_logs ::
    "rpc \<Rightarrow> chain_utils \<Rightarrow> (string \<rightharpoonup> rpc_log list) \<Rightarrow> raw_rpc_block list \<Rightarrow> raw_rpc_block list" where
  "apply_grouped_logs r utils m [] = []"
| "apply_grouped_logs r utils m (b # bs) =
     apply_block_logs r utils (or_else (m (raw_hash b)) []) b #
     apply_grouped_logs r utils (m(raw_hash b := None)) bs"

definition apply_logs :: "rpc \<Rightarrow> raw_rpc_block list \<Rightarrow> rpc_log list \<Rightarrow> raw_rpc_block list run" where
  "apply_logs r blks logs =
     run_bind (Some (get_chain_utils r)) (\<lambda>utils.
       Some (Inr (apply_grouped_logs r utils (group_logs logs) blks)))"

subsection \<open>Receipts\<close>

datatype receipts_fetch = FetchedByBlock "(rpc_error + json) list" | FetchedByTx "(rpc_error + json) list"

definition receipts_validate_error :: "rpc_error_info \<Rightarrow> rpc_error + json" where
  "receipts_validate_error info =
     (if str_contains (message info) ''invalid block height'' then Inl (RetryRequested ''invalid block height'')
      else if str_contains (message info) ''unknown block'' \<or> str_contains (message info) ''not found'' \<or>
              str_contains (message info) ''header not found'' then Inr JNull
      else Inl (rpc_of_info info))"

definition fetch_receipts_by_block :: "rpc \<Rightarrow> raw_rpc_block list \<Rightarrow> anyhow + (rpc_error + json) list" where
  "fetch_receipts_by_block r blks =
     client_error (up_batch (r_client r)
       (map (\<lambda>b. (''eth_getBlockReceipts'', Some (JArray [JString (rb_number (raw_block b))]))) blks)
       (with_validate_error receipts_validate_error))"

definition fetch_receipts_by_tx :: "rpc \<Rightarrow> raw_rpc_block list \<Rightarrow> anyhow + (rpc_error + json) list" where
  "fetch_receipts_by_tx r blks =
     client_error (up_batch (r_client r)
       (concat (map (\<lambda>b. map (\<lambda>tx. (''eth_getTransactionReceipt'', Some (JArray [JString (tx_hash tx)])))
                          (rb_transactions (raw_block b))) blks))
       call_options_default)"

definition fetch_receipts :: "rpc \<Rightarrow> raw_rpc_block list \<Rightarrow> receipts_fetch run" where
  "fetch_receipts r blks =
     (case get_receipts_method r of
        ByBlock \<Rightarrow> Some (bind_result (fetch_receipts_by_block r blks) (\<lambda>rs. Inr (FetchedByBlock rs)))
      | ByTx \<Rightarrow> Some (bind_result (fetch_receipts_by_tx r blks) (\<lambda>rs. Inr (FetchedByTx rs))))"

definition em_dash :: string where "em_dash = [CHR 0xE2, CHR 0x80, CHR 0x94]"

definition foreign_receipts_message :: "string \<Rightarrow> string \<Rightarrow> string \<Rightarrow> string" where
  "foreign_receipts_message call header_hash receipt_hash =
     call @ '' returned receipts for a different block (header '' @ header_hash @ '', receipt block_hash '' @
     receipt_hash @ '') '' @ em_dash @ '' reorg / load-balanced inconsistency, will retry''"

definition foreign_receipt :: "raw_rpc_block \<Rightarrow> rpc_receipt list \<Rightarrow> rpc_receipt option" where
  "foreign_receipt b receipts = find (\<lambda>rc. \<not> eq_ignore_ascii_case (rc_block_hash rc) (raw_hash b)) receipts"

definition renumbered :: "chain_utils \<Rightarrow> rpc_receipt list \<Rightarrow> rpc_receipt list" where
  "renumbered utils receipts = (if has utils NonSequentialLogIndexes then renumber_logs 0 receipts else receipts)"

definition checked_receipts :: "rpc \<Rightarrow> chain_utils \<Rightarrow> rpc_receipt list \<Rightarrow> raw_rpc_block \<Rightarrow> raw_rpc_block" where
  "checked_receipts r utils receipts b =
     (case bind_result (verify_logs r b (concat (map rc_logs receipts)) utils)
             (\<lambda>_. verify_receipts r b receipts utils) of
        Inl reason \<Rightarrow> mark_invalid reason b
      | Inr _ \<Rightarrow> b\<lparr>raw_receipts := Some receipts\<rparr>)"

definition parsed_receipts :: "rpc \<Rightarrow> json \<Rightarrow> rpc_receipt list" where
  "parsed_receipts r v =
     List.map_filter id (case de_receipts (r_de r) v of Inr rs \<Rightarrow> rs | Inl e \<Rightarrow> [])"

definition apply_block_receipts :: "rpc \<Rightarrow> chain_utils \<Rightarrow> raw_rpc_block \<Rightarrow> rpc_error + json \<Rightarrow> raw_rpc_block" where
  "apply_block_receipts r utils b res =
     (case res of
        Inl e \<Rightarrow> mark_invalid (''eth_getBlockReceipts error: '' @ show_rpc_error e) b
      | Inr v \<Rightarrow>
          if v = JNull then mark_not_ready ''eth_getBlockReceipts returned null (block not ready)'' b
          else
            let receipts = parsed_receipts r v
            in case foreign_receipt b receipts of
                 Some bad \<Rightarrow>
                   mark_header_contested
                     (foreign_receipts_message ''eth_getBlockReceipts'' (raw_hash b) (rc_block_hash bad)) b
               | None \<Rightarrow>
                   let receipts = renumbered utils receipts
                   in if length (rb_transactions (raw_block b)) \<noteq> length receipts
                      then mark_not_ready ''got invalid number of receipts from eth_getBlockReceipts'' b
                      else checked_receipts r utils receipts b)"

text \<open>\<open>blocks[i]\<close> is written for every result \<open>i\<close>; the blocks past the results are left alone.\<close>

definition apply_receipts_by_block ::
    "rpc \<Rightarrow> raw_rpc_block list \<Rightarrow> (rpc_error + json) list \<Rightarrow> raw_rpc_block list run" where
  "apply_receipts_by_block r blks results =
     run_bind (Some (get_chain_utils r)) (\<lambda>utils.
     run_bind (positions blks results) (\<lambda>prs.
       Some (Inr (map (\<lambda>(b, res). apply_block_receipts r utils b res) prs @ drop (length results) blks))))"

fun receipt_of_result :: "rpc \<Rightarrow> rpc_error + json \<Rightarrow> rpc_receipt option" where
  "receipt_of_result r (Inl e) = None"
| "receipt_of_result r (Inr v) =
     (if v = JNull then None else case de_receipt (r_de r) v of Inr rc \<Rightarrow> Some rc | Inl e \<Rightarrow> None)"

definition apply_tx_receipts :: "rpc \<Rightarrow> chain_utils \<Rightarrow> rpc_receipt list \<Rightarrow> raw_rpc_block \<Rightarrow> raw_rpc_block" where
  "apply_tx_receipts r utils receipts b =
     (if length receipts \<noteq> length (rb_transactions (raw_block b))
      then mark_not_ready ''failed to get receipts for all transactions'' b
      else
        case foreign_receipt b receipts of
          Some bad \<Rightarrow>
            mark_header_contested
              (foreign_receipts_message ''eth_getTransactionReceipt'' (raw_hash b) (rc_block_hash bad)) b
        | None \<Rightarrow> checked_receipts r utils (renumbered utils receipts) b)"

fun apply_results_by_tx ::
    "rpc \<Rightarrow> chain_utils \<Rightarrow> raw_rpc_block list \<Rightarrow> (rpc_error + json) list \<Rightarrow> raw_rpc_block list" where
  "apply_results_by_tx r utils [] results = []"
| "apply_results_by_tx r utils (b # bs) results =
     (let tx_count = length (rb_transactions (raw_block b))
      in apply_tx_receipts r utils (List.map_filter (receipt_of_result r) (take tx_count results)) b #
         apply_results_by_tx r utils bs (drop tx_count results))"

definition apply_receipts_by_tx ::
    "rpc \<Rightarrow> raw_rpc_block list \<Rightarrow> (rpc_error + json) list \<Rightarrow> raw_rpc_block list run" where
  "apply_receipts_by_tx r blks results =
     run_bind (Some (get_chain_utils r)) (\<lambda>utils. Some (Inr (apply_results_by_tx r utils blks results)))"

fun apply_receipts :: "rpc \<Rightarrow> raw_rpc_block list \<Rightarrow> receipts_fetch \<Rightarrow> raw_rpc_block list run" where
  "apply_receipts r blks (FetchedByBlock results) = apply_receipts_by_block r blks results"
| "apply_receipts r blks (FetchedByTx results) = apply_receipts_by_tx r blks results"

subsection \<open>Component coherence\<close>

definition at_block :: "raw_rpc_block \<Rightarrow> string \<Rightarrow> string" where
  "at_block b msg = ''block '' @ show_u64 (raw_number b) @ '': '' @ msg"

definition unwrap_component :: "rpc_error + json \<Rightarrow> string \<Rightarrow> raw_rpc_block \<Rightarrow> json list component" where
  "unwrap_component res what b =
     (case res of
        Inl e \<Rightarrow> Inl (at_block b (what @ '' unavailable: '' @ show_rpc_error e))
      | Inr JNull \<Rightarrow> Inl (at_block b (what @ '' not available yet''))
      | Inr (JArray arr) \<Rightarrow> Inr arr
      | Inr _ \<Rightarrow> Inl (at_block b (what @ '' payload is not an array'')))"

definition parse_entry :: "(json \<Rightarrow> string + 'a) \<Rightarrow> json \<Rightarrow> string \<Rightarrow> raw_rpc_block \<Rightarrow> 'a component" where
  "parse_entry de item what b = map_err (\<lambda>e. at_block b (''unparsable '' @ what @ '': '' @ e)) (de item)"

definition check_frame_label :: "string option \<Rightarrow> nat \<Rightarrow> raw_rpc_block \<Rightarrow> unit component" where
  "check_frame_label tx_hash_label i b =
     (case tx_hash_label of
        None \<Rightarrow> Inr ()
      | Some labelled \<Rightarrow>
          let expected = (case vec_get (rb_transactions (raw_block b)) i of Some tx \<Rightarrow> tx_hash tx | None \<Rightarrow> [])
          in if eq_ignore_ascii_case labelled expected then Inr ()
             else Inl (at_block b (''trace result at position '' @ decimal i @ '' is labelled with transaction '' @
                         labelled @ '', expected '' @ expected)))"

text \<open>
  The walk over the frames in every mode; the violations it only reports are log records and are left
  out.
\<close>

fun validate_frames_from ::
    "nat \<Rightarrow> debug_frame_result option list \<Rightarrow> raw_rpc_block \<Rightarrow> call_frame_validation_mode \<Rightarrow> unit component" where
  "validate_frames_from i [] b mode = Inr ()"
| "validate_frames_from i (None # fs) b mode = validate_frames_from (Suc i) fs b mode"
| "validate_frames_from i (Some frame # fs) b mode =
     (case vec_get (rb_transactions (raw_block b)) i of
        None \<Rightarrow> Inl (at_block b (''debug call frame at position '' @ decimal i @ '' has no transaction''))
      | Some tx \<Rightarrow>
          bind_result (check_frame_label (dfr_tx_hash frame) i b) (\<lambda>_.
            let invalid = (\<lambda>violation. at_block b (''invalid debug call frames for transaction '' @
                             tx_hash tx @ '': '' @ violation))
            in case check_debug_frame_structure (dfr_result frame) of
                 Some violation \<Rightarrow> Inl (invalid violation)
               | None \<Rightarrow>
                   if mode = Off then validate_frames_from (Suc i) fs b mode
                   else
                     case check_call_frame_tree tx (dfr_result frame) of
                       None \<Rightarrow> validate_frames_from (Suc i) fs b mode
                     | Some violation \<Rightarrow>
                         if mode = Reject then Inl (invalid violation)
                         else validate_frames_from (Suc i) fs b mode))"

definition validate_debug_frames ::
    "debug_frame_result option list \<Rightarrow> raw_rpc_block \<Rightarrow> call_frame_validation_mode \<Rightarrow>
     debug_frame_result option list component" where
  "validate_debug_frames frames b mode = bind_result (validate_frames_from 0 frames b mode) (\<lambda>_. Inr frames)"

text \<open>The index of a hash is the last transaction that has it, as a later insertion replaces an earlier.\<close>

definition tx_position :: "raw_rpc_block \<Rightarrow> string \<Rightarrow> nat option" where
  "tx_position b = map_of (rev (zip (map tx_hash (rb_transactions (raw_block b)))
     [0..<length (rb_transactions (raw_block b))]))"

fun place_entries ::
    "(json \<Rightarrow> string + 'a) \<Rightarrow> raw_rpc_block \<Rightarrow> string \<Rightarrow> json list \<Rightarrow> 'a option list \<Rightarrow> 'a option list component" where
  "place_entries de b what [] acc = Inr acc"
| "place_entries de b what (item # items) acc =
     (case Option.bind (Option.bind (json_get ''txHash'' item) as_str) (tx_position b) of
        None \<Rightarrow> place_entries de b what items acc
      | Some i \<Rightarrow>
          bind_result (parse_entry de item what b) (\<lambda>x. place_entries de b what items (acc[i := Some x])))"

definition match_by_tx_hash ::
    "(json \<Rightarrow> string + 'a) \<Rightarrow> json list \<Rightarrow> raw_rpc_block \<Rightarrow> string \<Rightarrow> bool \<Rightarrow> 'a option list component" where
  "match_by_tx_hash de arr b what tolerate_gaps =
     bind_result (place_entries de b what arr (replicate (length (rb_transactions (raw_block b))) None)) (\<lambda>acc.
       case (if tolerate_gaps then None else position (\<lambda>e. e = None) acc) of
         Some missing \<Rightarrow>
           Inl (at_block b (''no '' @ what @ '' for transaction '' @ decimal missing @ '' of '' @ decimal (length acc)))
       | None \<Rightarrow> Inr acc)"

subsection \<open>Replays\<close>

text \<open>The hash of an entry: its own, or that of its first labelled frame.\<close>

definition named_replay :: "trace_transaction_replay \<Rightarrow> trace_transaction_replay" where
  "named_replay rep =
     (case rep_transaction_hash rep of
        Some h \<Rightarrow> rep
      | None \<Rightarrow>
          rep\<lparr>rep_transaction_hash :=
            (case List.map_filter tf_transaction_hash (or_else (rep_trace rep) []) of [] \<Rightarrow> None | h # _ \<Rightarrow> Some h)\<rparr>)"

definition foreign_frame :: "string \<Rightarrow> trace_transaction_replay \<Rightarrow> string option" where
  "foreign_frame h rep =
     find (\<lambda>fh. \<not> eq_ignore_ascii_case fh h) (List.map_filter tf_transaction_hash (or_else (rep_trace rep) []))"

definition check_replay :: "raw_rpc_block \<Rightarrow> string list \<Rightarrow> string \<Rightarrow> trace_transaction_replay \<Rightarrow> string component" where
  "check_replay b tracers what rep =
     (case rep_transaction_hash rep of
        None \<Rightarrow> Inl (at_block b (''a '' @ what @ '' entry names no transaction''))
      | Some h \<Rightarrow>
          (case foreign_frame h rep of
             Some f \<Rightarrow>
               Inl (at_block b (''the '' @ what @ '' of transaction '' @ h @ '' carries a frame of transaction '' @ f))
           | None \<Rightarrow>
               let traced = (case rep_trace rep of Some frames \<Rightarrow> frames \<noteq> [] | None \<Rightarrow> False)
               in if List.member tracers ''trace'' \<and> \<not> traced
                  then Inl (at_block b (''the '' @ what @ '' of transaction '' @ h @ '' carries no trace''))
                  else if List.member tracers ''stateDiff'' \<and> rep_state_diff rep = None
                  then Inl (at_block b (''the '' @ what @ '' of transaction '' @ h @ '' carries no state diff''))
                  else Inr h))"

text \<open>
  The counts of the entries' hashes are the list of these hashes, and \<open>remove\<close> drops all of one.  Which of
  several foreign hashes the message names depends on the iteration order of a hash map; it is the first
  here.
\<close>

fun check_counts :: "raw_rpc_block \<Rightarrow> string \<Rightarrow> string list \<Rightarrow> rpc_transaction list \<Rightarrow> unit component" where
  "check_counts b what hashes [] =
     (case hashes of
        [] \<Rightarrow> Inr ()
      | f # _ \<Rightarrow> Inl (at_block b (what @ '' name transaction '' @ f @ '', which is not in this block'')))"
| "check_counts b what hashes (tx # txs) =
     (let n = length (filter (\<lambda>h. h = tx_hash tx) hashes)
      in if n = 0 then Inl (at_block b (''no '' @ what @ '' for transaction '' @ tx_hash tx))
         else if n = 1 then check_counts b what (filter (\<lambda>h. h \<noteq> tx_hash tx) hashes) txs
         else Inl (at_block b (decimal n @ '' '' @ what @ '' for transaction '' @ tx_hash tx)))"

definition replays_of ::
    "decoders \<Rightarrow> rpc_error + json \<Rightarrow> raw_rpc_block \<Rightarrow> string list \<Rightarrow> string \<Rightarrow> trace_transaction_replay list component" where
  "replays_of de res b tracers what =
     bind_result (unwrap_component res what b) (\<lambda>arr.
     bind_result (collect (map (\<lambda>item. parse_entry (de_replay de) item ''trace replay'' b) arr)) (\<lambda>parsed.
       let replays = map named_replay parsed
       in bind_result (collect (map (check_replay b tracers what) replays)) (\<lambda>hashes.
          bind_result (check_counts b what hashes (rb_transactions (raw_block b))) (\<lambda>_. Inr replays))))"

text \<open>The rendering of an optional string by \<open>{:?}\<close>, with the escapes of \<open>str::escape_debug\<close> for ASCII.\<close>

definition escape_char :: "char \<Rightarrow> string" where
  "escape_char c =
     (let n = of_char c :: nat
      in if n = 34 then [CHR 0x5C, CHR 0x22]
         else if n = 92 then [CHR 0x5C, CHR 0x5C]
         else if n = 9 then [CHR 0x5C] @ ''t''
         else if n = 10 then [CHR 0x5C] @ ''n''
         else if n = 13 then [CHR 0x5C] @ ''r''
         else if n = 0 then [CHR 0x5C] @ ''0''
         else if n < 32 \<or> n = 127 then [CHR 0x5C] @ ''u{'' @ show_hex n @ ''}''
         else [c])"

fun debug_option_str :: "string option \<Rightarrow> string" where
  "debug_option_str None = ''None''"
| "debug_option_str (Some s) = ''Some('' @ [CHR 0x22] @ concat (map escape_char s) @ [CHR 0x22] @ '')''"

text \<open>The frames of the block grouped by transaction, in the order of the first frame of each.\<close>

fun group_frames :: "trace_frame list \<Rightarrow> (string \<times> trace_frame list) list \<Rightarrow> (string \<times> trace_frame list) list" where
  "group_frames [] groups = groups"
| "group_frames (f # fs) groups =
     (case tf_transaction_hash f of
        None \<Rightarrow> group_frames fs groups
      | Some h \<Rightarrow>
          (case position (\<lambda>g. fst g = h) groups of
             Some i \<Rightarrow> group_frames fs (groups[i := (fst (groups ! i), snd (groups ! i) @ [f])])
           | None \<Rightarrow> group_frames fs (groups @ [(h, [f])])))"

definition trace_block_replays ::
    "decoders \<Rightarrow> rpc_error + json \<Rightarrow> raw_rpc_block \<Rightarrow> trace_transaction_replay list component" where
  "trace_block_replays de res b =
     bind_result (unwrap_component res ''block traces'' b) (\<lambda>arr.
     bind_result (collect (map (\<lambda>item. parse_entry (de_trace_frame de) item ''trace frame'' b) arr)) (\<lambda>frames.
       case find (\<lambda>f. case tf_block_hash f of
                        Some h \<Rightarrow> \<not> eq_ignore_ascii_case h (raw_hash b) | None \<Rightarrow> True) frames of
         Some f \<Rightarrow>
           Inl (at_block b (''trace_block answered with a frame of block '' @ debug_option_str (tf_block_hash f)))
       | None \<Rightarrow>
           let groups = group_frames frames []
           in case find (\<lambda>tx. map_of groups (tx_hash tx) = None) (rb_transactions (raw_block b)) of
                Some tx \<Rightarrow>
                  Inl (at_block b (''trace_block returned no traces for transaction '' @ tx_hash tx))
              | None \<Rightarrow>
                  Inr (map (\<lambda>(h, fs). \<lparr>rep_output = None, rep_state_diff = None, rep_trace = Some fs,
                                        rep_transaction_hash = Some h\<rparr>) groups)))"

subsection \<open>Traces\<close>

record traces_fetch =
  tf_traceable :: "nat list"
  tf_debug_frames :: "debug_frame_result option list component list option"
  tf_debug_diffs :: "debug_state_diff_result option list component list option"
  tf_trace_replays :: "trace_transaction_replay list component list option"
  tf_trace_block :: "trace_transaction_replay list component list option"

definition traces_validate_error :: "rpc_error_info \<Rightarrow> rpc_error + json" where
  "traces_validate_error info =
     (if str_contains (message info) ''not found'' then Inr JNull
      else if str_contains (message info) ''cannot query unfinalized data'' then Inr JNull
      else Inl (rpc_of_info info))"

definition debug_trace_call :: "data_request \<Rightarrow> json \<Rightarrow> raw_rpc_block \<Rightarrow> call" where
  "debug_trace_call req trace_config b =
     (if req_use_debug_trace_block_by_number req
      then (''debug_traceBlockByNumber'', Some (JArray [JString (rb_number (raw_block b)), trace_config]))
      else (''debug_traceBlockByHash'', Some (JArray [JString (raw_hash b), trace_config])))"

definition tracer_config :: "data_request \<Rightarrow> string \<Rightarrow> (string \<times> json) list \<Rightarrow> json" where
  "tracer_config req tracer cfg =
     JObject [(''tracer'', JString tracer), (''tracerConfig'', JObject cfg),
              (''timeout'', JString (or_else (req_debug_trace_timeout req) ''60s''))]"

definition wrap_frame :: "json \<Rightarrow> json" where
  "wrap_frame item =
     (case item of
        JObject kvs \<Rightarrow> if map_of kvs ''result'' = None then JObject [(''result'', JObject kvs)] else item
      | _ \<Rightarrow> item)"

definition debug_frames_of ::
    "rpc \<Rightarrow> chain_utils \<Rightarrow> raw_rpc_block \<Rightarrow> rpc_error + json \<Rightarrow> debug_frame_result option list component" where
  "debug_frames_of r utils b res =
     bind_result (unwrap_component res ''execution traces'' b) (\<lambda>arr.
       let arr = map wrap_frame arr;
           frames =
             (if length (rb_transactions (raw_block b)) = length arr
              then collect (map (\<lambda>item. bind_result (parse_entry (de_debug_frame (r_de r)) item ''trace frame'' b)
                                          (\<lambda>f. Inr (Some f))) arr)
              else match_by_tx_hash (de_debug_frame (r_de r)) arr b ''execution traces'' (has utils PartialTraceCoverage))
       in bind_result frames (\<lambda>frames. validate_debug_frames frames b (call_frame_validation (r_options r))))"

definition fetch_debug_frames ::
    "rpc \<Rightarrow> raw_rpc_block list \<Rightarrow> data_request \<Rightarrow> debug_frame_result option list component list run" where
  "fetch_debug_frames r blks req =
     run_bind (Some (client_error (up_batch (r_client r)
       (map (debug_trace_call req (tracer_config req ''callTracer''
          [(''onlyTopCall'', JBool False), (''withLog'', JBool True)])) blks)
       (with_validate_error traces_validate_error)))) (\<lambda>results.
     run_bind (Some (get_chain_utils r)) (\<lambda>utils.
     run_bind (positions blks results) (\<lambda>prs.
       Some (Inr (map (\<lambda>(b, res). debug_frames_of r utils b res) prs)))))"

definition debug_diffs_of ::
    "rpc \<Rightarrow> chain_utils \<Rightarrow> raw_rpc_block \<Rightarrow> rpc_error + json \<Rightarrow> debug_state_diff_result option list component" where
  "debug_diffs_of r utils b res =
     bind_result (unwrap_component res ''state diffs'' b) (\<lambda>arr.
       if length (rb_transactions (raw_block b)) = length arr
       then collect (map (\<lambda>(j, item).
              bind_result (parse_entry (de_debug_diff (r_de r)) item ''state diff'' b) (\<lambda>diff.
              bind_result (check_frame_label (dsr_tx_hash diff) j b) (\<lambda>_. Inr (Some diff))))
              (zip [0..<length arr] arr))
       else match_by_tx_hash (de_debug_diff (r_de r)) arr b ''state diffs'' (has utils PartialTraceCoverage))"

definition fetch_debug_state_diffs ::
    "rpc \<Rightarrow> raw_rpc_block list \<Rightarrow> data_request \<Rightarrow> debug_state_diff_result option list component list run" where
  "fetch_debug_state_diffs r blks req =
     run_bind (Some (client_error (up_batch (r_client r)
       (map (debug_trace_call req (tracer_config req ''prestateTracer''
          [(''onlyTopCall'', JBool False), (''diffMode'', JBool True)])) blks)
       (with_validate_error traces_validate_error)))) (\<lambda>results.
     run_bind (Some (get_chain_utils r)) (\<lambda>utils.
     run_bind (positions blks results) (\<lambda>prs.
       Some (Inr (map (\<lambda>(b, res). debug_diffs_of r utils b res) prs)))))"

definition fetch_trace_replays ::
    "rpc \<Rightarrow> raw_rpc_block list \<Rightarrow> string list \<Rightarrow> trace_transaction_replay list component list run" where
  "fetch_trace_replays r blks tracers =
     run_bind (Some (client_error (up_batch (r_client r)
       (map (\<lambda>b. (''trace_replayBlockTransactions'',
                   Some (JArray [JString (raw_hash b), JArray (map JString tracers)]))) blks)
       call_options_default))) (\<lambda>results.
     run_bind (positions blks results) (\<lambda>prs.
       Some (Inr (map (\<lambda>(b, res). replays_of (r_de r) res b tracers ''trace replays'') prs))))"

definition fetch_trace_block ::
    "rpc \<Rightarrow> raw_rpc_block list \<Rightarrow> trace_transaction_replay list component list run" where
  "fetch_trace_block r blks =
     run_bind (Some (client_error (up_batch (r_client r)
       (map (\<lambda>b. (''trace_block'', Some (JArray [JString (to_qty (raw_number b))]))) blks)
       call_options_default))) (\<lambda>results.
     run_bind (positions blks results) (\<lambda>prs.
       Some (Inr (map (\<lambda>(b, res). trace_block_replays (r_de r) res b) prs))))"

text \<open>
  \<open>join_or_err\<close>: an error of the first future is the result and drops the second; otherwise both results
  are there, the second unopened.
\<close>

definition join_or_err :: "'a run \<Rightarrow> 'b run \<Rightarrow> ('a \<times> (anyhow + 'b)) run" where
  "join_or_err hi lo =
     run_bind hi (\<lambda>x. case lo of None \<Rightarrow> None | Some res \<Rightarrow> Some (Inr (x, res)))"

definition optional_leg :: "bool \<Rightarrow> 'a run \<Rightarrow> 'a option run" where
  "optional_leg wanted leg = (if wanted then run_bind leg (\<lambda>x. Some (Inr (Some x))) else Some (Inr None))"

definition traceable_positions :: "raw_rpc_block list \<Rightarrow> nat list" where
  "traceable_positions blks = filter (\<lambda>i. raw_number (blks ! i) \<noteq> 0) [0..<length blks]"

definition fetch_traces :: "rpc \<Rightarrow> raw_rpc_block list \<Rightarrow> data_request \<Rightarrow> traces_fetch run" where
  "fetch_traces r blks req =
     (let traceable = traceable_positions blks
      in if traceable = [] then
           Some (Inr \<lparr>tf_traceable = traceable, tf_debug_frames = None, tf_debug_diffs = None,
                      tf_trace_replays = None, tf_trace_block = None\<rparr>)
         else
           let need_replay_statediff = (req_state_diffs req \<and> \<not> req_use_debug_api_for_state_diffs req);
               need_replay_trace = (req_traces req \<and> req_use_trace_api req \<and> need_replay_statediff);
               need_replay = (need_replay_trace \<or> need_replay_statediff);
               trace_blocks = map (nth blks) traceable;
               tracers = (if need_replay_trace then [''trace''] else []) @
                         (if need_replay_statediff then [''stateDiff''] else [])
           in run_bind
                (join_or_err
                  (optional_leg (req_traces req \<and> \<not> req_use_trace_api req) (fetch_debug_frames r trace_blocks req))
                  (join_or_err
                    (optional_leg (req_state_diffs req \<and> req_use_debug_api_for_state_diffs req)
                      (fetch_debug_state_diffs r trace_blocks req))
                    (join_or_err
                      (optional_leg need_replay (fetch_trace_replays r trace_blocks tracers))
                      (optional_leg (req_traces req \<and> req_use_trace_api req \<and> \<not> need_replay_statediff)
                        (fetch_trace_block r trace_blocks)))))
                (\<lambda>(frames, rest).
              run_bind (Some rest) (\<lambda>(diffs, rest).
              run_bind (Some rest) (\<lambda>(replays, trace_block).
              run_bind (Some trace_block) (\<lambda>trace_block.
                Some (Inr \<lparr>tf_traceable = traceable, tf_debug_frames = frames, tf_debug_diffs = diffs,
                           tf_trace_replays = replays, tf_trace_block = trace_block\<rparr>))))))"

fun write_components ::
    "('a \<Rightarrow> raw_rpc_block \<Rightarrow> raw_rpc_block) \<Rightarrow> (nat \<times> 'a component) list \<Rightarrow> raw_rpc_block list \<Rightarrow>
     raw_rpc_block list run" where
  "write_components set_field [] blks = Some (Inr blks)"
| "write_components set_field ((i, c) # cs) blks =
     (if i < length blks
      then write_components set_field cs
             (blks[i := (case c of Inr x \<Rightarrow> set_field x (blks ! i) | Inl reason \<Rightarrow> mark_invalid reason (blks ! i))])
      else None)"

definition write_leg ::
    "('a \<Rightarrow> raw_rpc_block \<Rightarrow> raw_rpc_block) \<Rightarrow> nat list \<Rightarrow> 'a component list option \<Rightarrow> raw_rpc_block list \<Rightarrow>
     raw_rpc_block list run" where
  "write_leg set_field traceable leg blks =
     (case leg of Some cs \<Rightarrow> write_components set_field (zip traceable cs) blks | None \<Rightarrow> Some (Inr blks))"

definition apply_traces :: "raw_rpc_block list \<Rightarrow> traces_fetch \<Rightarrow> raw_rpc_block list run" where
  "apply_traces blks t =
     run_bind (write_leg (\<lambda>f b. b\<lparr>raw_debug_frames := Some f\<rparr>) (tf_traceable t) (tf_debug_frames t) blks) (\<lambda>blks.
     run_bind (write_leg (\<lambda>d b. b\<lparr>raw_debug_state_diffs := Some d\<rparr>) (tf_traceable t) (tf_debug_diffs t) blks) (\<lambda>blks.
     run_bind (write_leg (\<lambda>x b. b\<lparr>raw_trace_replays := Some x\<rparr>) (tf_traceable t) (tf_trace_replays t) blks) (\<lambda>blks.
     write_leg (\<lambda>x b. b\<lparr>raw_trace_replays := Some x\<rparr>) (tf_traceable t) (tf_trace_block t) blks)))"

subsection \<open>All the legs\<close>

definition apply_leg ::
    "(raw_rpc_block list \<Rightarrow> 'a \<Rightarrow> raw_rpc_block list run) \<Rightarrow> 'a option \<Rightarrow> raw_rpc_block list \<Rightarrow> raw_rpc_block list run" where
  "apply_leg f leg blks = (case leg of Some x \<Rightarrow> f blks x | None \<Rightarrow> Some (Inr blks))"

text \<open>\<open>elapsed\<close> holds what the clock measured for each leg that ran.\<close>

definition fetch_and_apply ::
    "rpc \<Rightarrow> leg_durations \<Rightarrow> raw_rpc_block list \<Rightarrow> data_request \<Rightarrow> (raw_rpc_block list \<times> leg_durations) run" where
  "fetch_and_apply r elapsed blks req =
     (let wants_traces = (req_traces req \<or> req_state_diffs req)
      in run_bind
           (join_or_err (optional_leg (req_logs req) (fetch_logs r blks))
             (join_or_err (optional_leg (req_receipts req) (fetch_receipts r blks))
               (optional_leg wants_traces (fetch_traces r blks req))))
           (\<lambda>(logs_fetch, rest).
         run_bind (apply_leg (apply_logs r) logs_fetch blks) (\<lambda>blks.
         run_bind (Some rest) (\<lambda>(receipts_fetch, traces_fetch).
         run_bind (apply_leg (apply_receipts r) receipts_fetch blks) (\<lambda>blks.
         run_bind (Some traces_fetch) (\<lambda>traces_fetch.
         run_bind (apply_leg apply_traces traces_fetch blks) (\<lambda>blks.
           Some (Inr (blks, \<lparr>ld_logs = (if req_logs req then ld_logs elapsed else 0),
                             ld_receipts = (if req_receipts req then ld_receipts elapsed else 0),
                             ld_traces = (if wants_traces then ld_traces elapsed else 0)\<rparr>)))))))))"

definition add_requested_data ::
    "rpc \<Rightarrow> leg_durations \<Rightarrow> raw_rpc_block list \<Rightarrow> data_request \<Rightarrow> (raw_rpc_block list \<times> leg_durations) run" where
  "add_requested_data r elapsed blks req =
     run_bind (Some (validate_request (r_options r) req)) (\<lambda>_. fetch_and_apply r elapsed blks req)"

definition get_block_batch ::
    "rpc \<Rightarrow> leg_durations \<Rightarrow> u64 list \<Rightarrow> data_request \<Rightarrow> raw_rpc_block list run" where
  "get_block_batch r elapsed numbers req =
     run_bind (get_blocks r numbers True) (\<lambda>blks.
     run_bind (add_requested_data r elapsed (link_chain [] blks) req) (\<lambda>(chain, _). Some (Inr chain)))"

definition enrich_blocks ::
    "rpc \<Rightarrow> leg_durations \<Rightarrow> raw_rpc_block list \<Rightarrow> data_request \<Rightarrow> raw_rpc_block list run" where
  "enrich_blocks r elapsed blks req =
     run_bind (add_requested_data r elapsed blks req) (\<lambda>(blks, _). Some (Inr blks))"

end
