(* ===== verification/Evm_Legs.thy ===== *)
theory Evm_Legs
  imports Evm_Fetch
begin

text \<open>
  What applying the legs of a request does to the blocks (\<open>evm-source/src/fetch.rs\<close>): the header is never
  touched, a verdict is never taken back, a leg once in hand stays, and a block that is left without a
  verdict has every leg that was asked for, checked against its header.  The locale \<open>leg_op\<close> states this
  for one leg; logs, receipts and traces are its interpretations.
\<close>

subsection \<open>Runs\<close>

lemma run_bind_Inr:
  "run_bind r f = Some (Inr y) \<longleftrightarrow> (\<exists>x. r = Some (Inr x) \<and> f x = Some (Inr y))"
  by (auto simp: run_bind_def split: option.splits sum.splits)

lemma run_bind_None: "run_bind r f = None \<longleftrightarrow> r = None \<or> (\<exists>x. r = Some (Inr x) \<and> f x = None)"
  by (auto simp: run_bind_def split: option.splits sum.splits)

lemma run_bind_simps [simp]:
  "run_bind (Some (Inr x)) f = f x" "run_bind (Some (Inl e)) f = Some (Inl e)" "run_bind None f = None"
  by (simp_all add: run_bind_def)

lemma positions_Inr [simp]: "positions xs rs = Some (Inr ps) \<longleftrightarrow> length rs \<le> length xs \<and> ps = zip xs rs"
  by (auto simp: positions_def)

lemma positions_None: "positions xs rs = None \<longleftrightarrow> length xs < length rs"
  by (auto simp: positions_def)

lemma client_error_Inr [simp]: "client_error r = Inr x \<longleftrightarrow> r = Inr x" "client_error (Inr x) = Inr x"
  by (auto simp: client_error_def map_err_def split: sum.splits)

lemma run_bind_total: "r \<noteq> None \<Longrightarrow> (\<And>x. r = Some (Inr x) \<Longrightarrow> f x \<noteq> None) \<Longrightarrow> run_bind r f \<noteq> None"
  using run_bind_None [of r f] by blast

lemma optional_leg_Inr: "optional_leg wanted leg = Some (Inr x) \<longleftrightarrow>
    (if wanted then \<exists>y. leg = Some (Inr y) \<and> x = Some y else x = None)"
  by (auto simp: optional_leg_def run_bind_Inr)

lemma optional_leg_None: "optional_leg wanted leg = None \<longleftrightarrow> wanted \<and> leg = None"
  by (auto simp: optional_leg_def run_bind_None)

lemma join_or_err_Inr:
  "join_or_err hi lo = Some (Inr y) \<longleftrightarrow> (\<exists>x res. hi = Some (Inr x) \<and> lo = Some res \<and> y = (x, res))"
  by (auto simp: join_or_err_def run_bind_Inr split: option.splits)

lemma join_or_err_None: "hi \<noteq> None \<Longrightarrow> lo \<noteq> None \<Longrightarrow> join_or_err hi lo \<noteq> None"
  by (auto simp: join_or_err_def run_bind_None split: option.splits)

subsection \<open>Growing blocks\<close>

definition same_header :: "raw_rpc_block \<Rightarrow> raw_rpc_block \<Rightarrow> bool" where
  "same_header b c \<longleftrightarrow> raw_number c = raw_number b \<and> raw_hash c = raw_hash b \<and> raw_block c = raw_block b"

definition incoherent :: "raw_rpc_block \<Rightarrow> bool" where
  "incoherent b \<longleftrightarrow> is_invalid b \<and> \<not> is_not_ready b"

definition logs_fit :: "rpc \<Rightarrow> chain_utils \<Rightarrow> raw_rpc_block \<Rightarrow> rpc_log list \<Rightarrow> bool" where
  "logs_fit r u b ls \<longleftrightarrow>
     (ls = [] \<longrightarrow> is_zero_bloom (rb_logs_bloom (raw_block b))) \<and>
     list_all (\<lambda>l. log_block_hash l = raw_hash b) ls \<and> verify_logs r b ls u = Inr ()"

definition receipts_fit :: "rpc \<Rightarrow> chain_utils \<Rightarrow> raw_rpc_block \<Rightarrow> rpc_receipt list \<Rightarrow> bool" where
  "receipts_fit r u b rcs \<longleftrightarrow>
     length rcs = length (rb_transactions (raw_block b)) \<and>
     list_all (\<lambda>rc. eq_ignore_ascii_case (rc_block_hash rc) (raw_hash b)) rcs \<and>
     verify_logs r b (concat (map rc_logs rcs)) u = Inr () \<and> verify_receipts r b rcs u = Inr ()"

definition legs_fit :: "rpc \<Rightarrow> chain_utils \<Rightarrow> raw_rpc_block \<Rightarrow> bool" where
  "legs_fit r u b \<longleftrightarrow>
     (case raw_logs b of Some ls \<Rightarrow> logs_fit r u b ls | None \<Rightarrow> True) \<and>
     (case raw_receipts b of Some rcs \<Rightarrow> receipts_fit r u b rcs | None \<Rightarrow> True)"

definition grows :: "rpc \<Rightarrow> chain_utils \<Rightarrow> raw_rpc_block \<Rightarrow> raw_rpc_block \<Rightarrow> bool" where
  "grows r u b c \<longleftrightarrow>
     same_header b c \<and> (is_invalid b \<longrightarrow> is_invalid c) \<and> (incoherent b \<longrightarrow> incoherent c) \<and>
     (legs_fit r u b \<longrightarrow> legs_fit r u c) \<and>
     (raw_logs b \<noteq> None \<longrightarrow> raw_logs c \<noteq> None) \<and> (raw_receipts b \<noteq> None \<longrightarrow> raw_receipts c \<noteq> None) \<and>
     (raw_debug_frames b \<noteq> None \<longrightarrow> raw_debug_frames c \<noteq> None) \<and>
     (raw_debug_state_diffs b \<noteq> None \<longrightarrow> raw_debug_state_diffs c \<noteq> None) \<and>
     (raw_trace_replays b \<noteq> None \<longrightarrow> raw_trace_replays c \<noteq> None)"

lemma grows_refl [simp]: "grows r u b b"
  by (simp add: grows_def same_header_def)

lemma grows_trans: "grows r u a b \<Longrightarrow> grows r u b c \<Longrightarrow> grows r u a c"
  by (simp add: grows_def same_header_def)

text \<open>The checks read the header of the block only.\<close>

lemma verify_same:
  assumes "same_header b c"
  shows "verify_logs r c ls u = verify_logs r b ls u" "verify_receipts r c rcs u = verify_receipts r b rcs u"
    "verify_header r c u = verify_header r b u"
proof -
  have eqs: "raw_hash c = raw_hash b" "raw_block c = raw_block b" using assms by (simp_all add: same_header_def)
  show "verify_logs r c ls u = verify_logs r b ls u" "verify_receipts r c rcs u = verify_receipts r b rcs u"
    "verify_header r c u = verify_header r b u"
    by (simp_all only: verify_logs_def check_logs_bloom_def verify_receipts_def check_receipts_root_def
        verify_header_def check_block_hash_def check_tx_root_def check_senders_def check_withdrawals_root_def eqs)
qed

lemma fit_same:
  assumes "same_header b c"
  shows "logs_fit r u c ls = logs_fit r u b ls" "receipts_fit r u c rcs = receipts_fit r u b rcs"
  unfolding logs_fit_def receipts_fit_def verify_same [OF assms] using assms by (simp_all add: same_header_def)

lemma mark_same:
  "same_header b (mark_invalid m b)" "same_header b (mark_not_ready m b)" "same_header b (mark_header_contested m b)"
  by (simp_all add: same_header_def mark_invalid_def mark_not_ready_def mark_header_contested_def)

lemma mark_invalid_flags [simp]:
  "is_invalid (mark_invalid m b)" "is_invalid (mark_not_ready m b)" "is_invalid (mark_header_contested m b)"
  by (simp_all add: mark_invalid_def mark_not_ready_def mark_header_contested_def)

lemma mark_incoherent:
  "incoherent (mark_invalid m b)" "incoherent b \<Longrightarrow> incoherent (mark_not_ready m b)"
  "incoherent b \<Longrightarrow> incoherent (mark_header_contested m b)"
  by (simp_all add: incoherent_def mark_invalid_def mark_not_ready_def mark_header_contested_def)

lemma mark_legs:
  "raw_logs (mark_invalid m b) = raw_logs b" "raw_receipts (mark_invalid m b) = raw_receipts b"
  "raw_debug_frames (mark_invalid m b) = raw_debug_frames b" "raw_trace_replays (mark_invalid m b) = raw_trace_replays b"
  "raw_debug_state_diffs (mark_invalid m b) = raw_debug_state_diffs b"
  "raw_logs (mark_not_ready m b) = raw_logs b" "raw_receipts (mark_not_ready m b) = raw_receipts b"
  "raw_debug_frames (mark_not_ready m b) = raw_debug_frames b" "raw_trace_replays (mark_not_ready m b) = raw_trace_replays b"
  "raw_debug_state_diffs (mark_not_ready m b) = raw_debug_state_diffs b"
  "raw_logs (mark_header_contested m b) = raw_logs b" "raw_receipts (mark_header_contested m b) = raw_receipts b"
  "raw_debug_frames (mark_header_contested m b) = raw_debug_frames b"
  "raw_trace_replays (mark_header_contested m b) = raw_trace_replays b"
  "raw_debug_state_diffs (mark_header_contested m b) = raw_debug_state_diffs b"
  by (simp_all add: mark_invalid_def mark_not_ready_def mark_header_contested_def)

lemma legs_fit_cong:
  "same_header b c \<Longrightarrow> raw_logs c = raw_logs b \<Longrightarrow> raw_receipts c = raw_receipts b \<Longrightarrow> legs_fit r u c = legs_fit r u b"
  using fit_same [of b c] by (simp add: legs_fit_def cong: option.case_cong)

lemma mark_grows [simp]:
  "grows r u b (mark_invalid m b)" "grows r u b (mark_not_ready m b)" "grows r u b (mark_header_contested m b)"
  using mark_same mark_incoherent legs_fit_cong [OF mark_same(1)] legs_fit_cong [OF mark_same(2)]
    legs_fit_cong [OF mark_same(3)]
  by (simp_all add: grows_def mark_legs)

lemma set_logs_grows: "logs_fit r u b ls \<Longrightarrow> grows r u b (b\<lparr>raw_logs := Some ls\<rparr>)"
proof -
  have same: "same_header b (b\<lparr>raw_logs := Some ls\<rparr>)" by (simp add: same_header_def)
  show "logs_fit r u b ls \<Longrightarrow> grows r u b (b\<lparr>raw_logs := Some ls\<rparr>)"
    using same by (auto simp: grows_def incoherent_def legs_fit_def fit_same [OF same] split: option.splits)
qed

lemma set_receipts_grows: "receipts_fit r u b rcs \<Longrightarrow> grows r u b (b\<lparr>raw_receipts := Some rcs\<rparr>)"
proof -
  have same: "same_header b (b\<lparr>raw_receipts := Some rcs\<rparr>)" by (simp add: same_header_def)
  show "receipts_fit r u b rcs \<Longrightarrow> grows r u b (b\<lparr>raw_receipts := Some rcs\<rparr>)"
    using same by (auto simp: grows_def incoherent_def legs_fit_def fit_same [OF same] split: option.splits)
qed

lemma grows_traceI:
  assumes "same_header b c" "raw_logs c = raw_logs b" "raw_receipts c = raw_receipts b"
    and "is_invalid c = is_invalid b" "is_not_ready c = is_not_ready b"
    and "raw_debug_frames b \<noteq> None \<Longrightarrow> raw_debug_frames c \<noteq> None"
    and "raw_debug_state_diffs b \<noteq> None \<Longrightarrow> raw_debug_state_diffs c \<noteq> None"
    and "raw_trace_replays b \<noteq> None \<Longrightarrow> raw_trace_replays c \<noteq> None"
  shows "grows r u b c"
  using assms legs_fit_cong [OF assms(1-3)] by (auto simp: grows_def incoherent_def)

lemma set_traces_grow [simp]:
  "grows r u b (b\<lparr>raw_debug_frames := Some f\<rparr>)" "grows r u b (b\<lparr>raw_debug_state_diffs := Some d\<rparr>)"
  "grows r u b (b\<lparr>raw_trace_replays := Some t\<rparr>)"
  by (rule grows_traceI; simp add: same_header_def)+

subsection \<open>The contract of a leg\<close>

text \<open>
  \<open>ok bs x\<close>: \<open>x\<close> is an answer the client can give for the blocks \<open>bs\<close>; \<open>present\<close>: the block has the leg.
\<close>

locale leg_op =
  fixes rel :: "raw_rpc_block \<Rightarrow> raw_rpc_block \<Rightarrow> bool"
    and ok :: "raw_rpc_block list \<Rightarrow> 'a \<Rightarrow> bool"
    and apply_op :: "raw_rpc_block list \<Rightarrow> 'a \<Rightarrow> raw_rpc_block list run"
    and present :: "raw_rpc_block \<Rightarrow> bool"
  assumes rel_refl: "rel b b"
    and applied: "ok bs x \<Longrightarrow> apply_op bs x = Some (Inr cs) \<Longrightarrow>
      list_all2 rel bs cs \<and> list_all (\<lambda>c. is_invalid c \<or> present c) cs"
    and returns: "ok bs x \<Longrightarrow> apply_op bs x \<noteq> None"
begin

lemma leg_applied:
  "(\<And>x. leg = Some x \<Longrightarrow> ok bs x) \<Longrightarrow> apply_leg apply_op leg bs = Some (Inr cs) \<Longrightarrow>
   list_all2 rel bs cs \<and> (leg \<noteq> None \<longrightarrow> list_all (\<lambda>c. is_invalid c \<or> present c) cs)"
  using applied by (auto simp: apply_leg_def list.rel_refl rel_refl split: option.splits)

lemma leg_returns: "(\<And>x. leg = Some x \<Longrightarrow> ok bs x) \<Longrightarrow> apply_leg apply_op leg bs \<noteq> None"
  using returns by (auto simp: apply_leg_def split: option.splits)

end

subsection \<open>Logs\<close>

lemma group_logs_snoc:
  "group_logs (ls @ [l]) = (group_logs ls)(log_block_hash l \<mapsto> or_else (group_logs ls (log_block_hash l)) [] @ [l])"
  by (simp add: group_logs_def)

definition keyed :: "(string \<rightharpoonup> rpc_log list) \<Rightarrow> bool" where
  "keyed m \<longleftrightarrow> (\<forall>h. list_all (\<lambda>l. log_block_hash l = h) (or_else (m h) []))"

lemma group_logs_keyed: "keyed (group_logs logs)"
proof (induction logs rule: rev_induct)
  case Nil
  then show ?case by (simp add: keyed_def group_logs_def or_else_def)
next
  case (snoc l ls)
  then show ?case by (auto simp: group_logs_snoc keyed_def or_else_def split: option.splits)
qed

lemma keyed_remove: "keyed m \<Longrightarrow> keyed (m(h := None))"
  by (auto simp: keyed_def or_else_def)

lemma fix_log_indexes_block: "list_all (\<lambda>l. log_block_hash l = h) (fix_log_indexes i ls) = list_all (\<lambda>l. log_block_hash l = h) ls"
  by (induction ls arbitrary: i) auto

lemma fix_log_indexes_length [simp]: "length (fix_log_indexes i ls) = length ls"
  by (induction ls arbitrary: i) auto

lemma fix_log_indexes_Nil [simp]: "fix_log_indexes i ls = [] \<longleftrightarrow> ls = []"
  by (cases ls) auto

lemma apply_block_logs_grows:
  assumes "list_all (\<lambda>l. log_block_hash l = raw_hash b) ls"
  shows "grows r u b (apply_block_logs r u ls b) \<and>
    (is_invalid (apply_block_logs r u ls b) \<or> raw_logs (apply_block_logs r u ls b) \<noteq> None)"
proof -
  let ?ls = "if has u NonSequentialLogIndexes then fix_log_indexes 0 ls else ls"
  have "list_all (\<lambda>l. log_block_hash l = raw_hash b) ?ls" "?ls = [] \<longleftrightarrow> ls = []"
    using assms by (auto simp: fix_log_indexes_block)
  then have "grows r u b (b\<lparr>raw_logs := Some ?ls\<rparr>)"
    if "verify_logs r b ?ls u = Inr ()" "\<not> (ls = [] \<and> \<not> is_zero_bloom (rb_logs_bloom (raw_block b)))"
    using that by (intro set_logs_grows) (simp add: logs_fit_def)
  then show ?thesis by (auto simp: apply_block_logs_def Let_def split: sum.splits)
qed

lemma apply_grouped_logs_grow:
  "keyed m \<Longrightarrow> list_all2 (grows r u) bs (apply_grouped_logs r u m bs) \<and>
     list_all (\<lambda>c. is_invalid c \<or> raw_logs c \<noteq> None) (apply_grouped_logs r u m bs)"
proof (induction bs arbitrary: m)
  case (Cons b bs)
  have "list_all (\<lambda>l. log_block_hash l = raw_hash b) (or_else (m (raw_hash b)) [])"
    using Cons.prems by (simp add: keyed_def)
  from apply_block_logs_grows [OF this, of r u] Cons.IH [OF keyed_remove [OF Cons.prems, of "raw_hash b"]]
  show ?case unfolding apply_grouped_logs.simps list.pred_inject list_all2_Cons by blast
qed simp

definition ready :: "rpc \<Rightarrow> chain_utils \<Rightarrow> bool" where
  "ready r u \<longleftrightarrow> r_chain_utils r = Some u"

lemma ready_utils: "ready r u \<Longrightarrow> get_chain_utils r = Inr u"
  by (simp add: ready_def get_chain_utils_def)

interpretation logs_leg:
  leg_op "grows r u" "\<lambda>bs ls. ready r u" "apply_logs r" "\<lambda>b. raw_logs b \<noteq> None"
  for r u
  by unfold_locales
     (use apply_grouped_logs_grow [OF group_logs_keyed] in \<open>auto simp: apply_logs_def ready_utils simp del: not_None_eq\<close>)

subsection \<open>Receipts\<close>

lemma renumber_logs_hashes: "map rc_block_hash (renumber_logs i rcs) = map rc_block_hash rcs"
  by (induction rcs arbitrary: i) auto

lemma renumbered_hashes: "map rc_block_hash (renumbered u rcs) = map rc_block_hash rcs"
  by (simp add: renumbered_def renumber_logs_hashes)

lemma renumbered_length [simp]: "length (renumbered u rcs) = length rcs"
  using arg_cong [OF renumbered_hashes, of length] by simp

lemma renumbered_own:
  assumes "foreign_receipt b rcs = None"
  shows "list_all (\<lambda>rc. eq_ignore_ascii_case (rc_block_hash rc) (raw_hash b)) (renumbered u rcs)"
proof -
  have "list_all (\<lambda>h. eq_ignore_ascii_case h (raw_hash b)) (map rc_block_hash (renumbered u rcs))"
    using assms unfolding renumbered_hashes by (auto simp: foreign_receipt_def find_None_iff list_all_iff)
  then show ?thesis by (simp add: list_all_iff)
qed

lemma checked_receipts_grows:
  assumes "length rcs = length (rb_transactions (raw_block b))"
    and "list_all (\<lambda>rc. eq_ignore_ascii_case (rc_block_hash rc) (raw_hash b)) rcs"
  shows "grows r u b (checked_receipts r u rcs b) \<and>
    (is_invalid (checked_receipts r u rcs b) \<or> raw_receipts (checked_receipts r u rcs b) \<noteq> None)"
proof (cases "bind_result (verify_logs r b (concat (map rc_logs rcs)) u) (\<lambda>_. verify_receipts r b rcs u)")
  case (Inr x)
  then have "verify_logs r b (concat (map rc_logs rcs)) u = Inr ()" "verify_receipts r b rcs u = Inr ()"
    by (cases "verify_logs r b (concat (map rc_logs rcs)) u"; simp)+
  with assms have "receipts_fit r u b rcs" by (simp add: receipts_fit_def)
  from set_receipts_grows [OF this] Inr show ?thesis by (simp add: checked_receipts_def)
qed (simp add: checked_receipts_def)

lemma apply_block_receipts_grows:
  "grows r u b (apply_block_receipts r u b res) \<and>
   (is_invalid (apply_block_receipts r u b res) \<or> raw_receipts (apply_block_receipts r u b res) \<noteq> None)"
  using checked_receipts_grows [of "renumbered u (parsed_receipts r (projr res))" b r u]
    renumbered_own [of b "parsed_receipts r (projr res)" u]
  by (auto simp: apply_block_receipts_def Let_def split: sum.splits option.splits)

lemma apply_tx_receipts_grows:
  "grows r u b (apply_tx_receipts r u rcs b) \<and>
   (is_invalid (apply_tx_receipts r u rcs b) \<or> raw_receipts (apply_tx_receipts r u rcs b) \<noteq> None)"
  using checked_receipts_grows [of "renumbered u rcs" b r u] renumbered_own [of b rcs u]
  by (auto simp: apply_tx_receipts_def split: option.splits)

lemma apply_results_by_tx_grow:
  "list_all2 (grows r u) bs (apply_results_by_tx r u bs results) \<and>
   list_all (\<lambda>c. is_invalid c \<or> raw_receipts c \<noteq> None) (apply_results_by_tx r u bs results)"
  by (induction bs arbitrary: results) (simp_all add: Let_def apply_tx_receipts_grows del: not_None_eq)

fun receipts_ok :: "rpc \<Rightarrow> chain_utils \<Rightarrow> raw_rpc_block list \<Rightarrow> receipts_fetch \<Rightarrow> bool" where
  "receipts_ok r u bs (FetchedByBlock results) \<longleftrightarrow> ready r u \<and> length results = length bs"
| "receipts_ok r u bs (FetchedByTx results) \<longleftrightarrow> ready r u"

lemma apply_zip_grow:
  "length results = length bs \<Longrightarrow>
   list_all2 (grows r u) bs (map (\<lambda>(b, res). apply_block_receipts r u b res) (zip bs results)) \<and>
   list_all (\<lambda>c. is_invalid c \<or> raw_receipts c \<noteq> None)
     (map (\<lambda>(b, res). apply_block_receipts r u b res) (zip bs results))"
  by (induction results bs rule: list_induct2) (simp_all add: apply_block_receipts_grows del: not_None_eq)

interpretation receipts_leg:
  leg_op "grows r u" "receipts_ok r u" "apply_receipts r" "\<lambda>b. raw_receipts b \<noteq> None"
  for r u
proof unfold_locales
  fix bs x cs
  assume ok: "receipts_ok r u bs x"
  show "apply_receipts r bs x = Some (Inr cs) \<Longrightarrow>
      list_all2 (grows r u) bs cs \<and> list_all (\<lambda>c. is_invalid c \<or> raw_receipts c \<noteq> None) cs"
    using ok apply_zip_grow [of _ bs r u] apply_results_by_tx_grow [of r u bs]
    by (cases x) (auto simp: apply_receipts_by_block_def apply_receipts_by_tx_def ready_utils run_bind_Inr)
  show "apply_receipts r bs x \<noteq> None"
    using ok by (cases x) (auto simp: apply_receipts_by_block_def apply_receipts_by_tx_def run_bind_None positions_None)
qed simp

subsection \<open>Traces\<close>

definition write_component :: "('a \<Rightarrow> raw_rpc_block \<Rightarrow> raw_rpc_block) \<Rightarrow> 'a component option \<Rightarrow> raw_rpc_block \<Rightarrow> raw_rpc_block" where
  "write_component f c b =
     (case c of None \<Rightarrow> b | Some (Inr x) \<Rightarrow> f x b | Some (Inl reason) \<Rightarrow> mark_invalid reason b)"

lemma write_components_eq:
  "distinct (map fst ps) \<Longrightarrow> list_all (\<lambda>p. fst p < length bs) ps \<Longrightarrow>
   write_components f ps bs =
     Some (Inr (map (\<lambda>j. write_component f (map_of ps j) (bs ! j)) [0..<length bs]))"
proof (induction ps arbitrary: bs)
  case Nil
  then show ?case by (simp add: write_component_def map_nth)
next
  case (Cons p ps)
  obtain i c where p: "p = (i, c)" by fastforce
  let ?bs = "bs[i := write_component f (Some c) (bs ! i)]"
  have i: "i < length bs" "map_of ps i = None" using Cons.prems p by (auto simp: map_of_eq_None_iff)
  have "write_components f ps ?bs =
      Some (Inr (map (\<lambda>j. write_component f (map_of ps j) (?bs ! j)) [0..<length ?bs]))"
    using Cons.prems p by (intro Cons.IH) auto
  moreover have "write_component f (map_of ps j) (?bs ! j) = write_component f (map_of (p # ps) j) (bs ! j)" for j
    using i by (cases "j = i") (simp_all add: p write_component_def [of f None])
  moreover have "write_components f (p # ps) bs = write_components f ps ?bs"
    using i by (simp add: p write_component_def split: sum.splits)
  ultimately show ?case by simp
qed

definition one_each :: "nat list \<Rightarrow> 'a list option \<Rightarrow> bool" where
  "one_each tr leg \<longleftrightarrow> (case leg of Some cs \<Rightarrow> length cs = length tr | None \<Rightarrow> True)"

lemma traceable_positions_props:
  "distinct (traceable_positions bs)" "i \<in> set (traceable_positions bs) \<longleftrightarrow> i < length bs \<and> raw_number (bs ! i) \<noteq> 0"
  by (auto simp: traceable_positions_def)

lemma list_all2_numbers:
  "list_all2 (grows r u) bs cs \<Longrightarrow> map raw_number cs = map raw_number bs"
  by (induction rule: list_all2_induct) (auto simp: grows_def same_header_def)

lemma traceable_positions_same:
  assumes "list_all2 (grows r u) bs cs"
  shows "traceable_positions cs = traceable_positions bs"
proof -
  have len: "length cs = length bs" using assms by (simp add: list_all2_lengthD)
  have "raw_number (cs ! i) = raw_number (bs ! i)" if "i < length bs" for i
    using arg_cong [OF list_all2_numbers [OF assms], of "\<lambda>xs. xs ! i"] that len by simp
  then show ?thesis using len by (auto simp: traceable_positions_def intro!: filter_cong)
qed

text \<open>One sub-leg: the traceable blocks get its component or a verdict, the others nothing.\<close>

lemma write_leg_grows:
  assumes grow: "\<And>x b. grows r u b (f x b)" and set: "\<And>x b. has_it (f x b)"
    and leg: "one_each (traceable_positions bs) leg"
  shows "\<exists>cs. write_leg f (traceable_positions bs) leg bs = Some (Inr cs) \<and> list_all2 (grows r u) bs cs \<and>
    (leg \<noteq> None \<longrightarrow> list_all (\<lambda>c. raw_number c = 0 \<or> is_invalid c \<or> has_it c) cs)"
proof (cases leg)
  case None
  then show ?thesis by (simp add: write_leg_def list.rel_refl)
next
  case (Some xs)
  let ?tr = "traceable_positions bs"
  let ?cs = "map (\<lambda>j. write_component f (map_of (zip ?tr xs) j) (bs ! j)) [0..<length bs]"
  have len: "length xs = length ?tr" using leg Some by (simp add: one_each_def)
  have keys: "map fst (zip ?tr xs) = ?tr" using len by simp
  have "write_components f (zip ?tr xs) bs = Some (Inr ?cs)"
  proof (rule write_components_eq)
    show "distinct (map fst (zip ?tr xs))" unfolding keys by (rule traceable_positions_props)
    have "list_all (\<lambda>i. i < length bs) (map fst (zip ?tr xs))"
      unfolding keys by (simp add: list_all_iff traceable_positions_props)
    then show "list_all (\<lambda>p. fst p < length bs) (zip ?tr xs)" by (simp add: list.pred_map comp_def)
  qed
  moreover have "list_all2 (grows r u) bs ?cs"
    by (simp add: list_all2_conv_all_nth write_component_def grow split: option.splits sum.splits)
  moreover have "raw_number (?cs ! j) = 0 \<or> is_invalid (?cs ! j) \<or> has_it (?cs ! j)" if j: "j < length bs" for j
  proof (cases "j \<in> set ?tr")
    case True
    then obtain c where "map_of (zip ?tr xs) j = Some c"
      using len by (metis map_of_zip_is_None not_None_eq)
    then show ?thesis using j set by (auto simp: write_component_def split: sum.splits)
  next
    case False
    then have "raw_number (bs ! j) = 0" using j by (simp add: traceable_positions_props)
    moreover have "map_of (zip ?tr xs) j = None" using False len by (metis map_of_zip_is_None)
    ultimately show ?thesis using j by (simp add: write_component_def)
  qed
  ultimately show ?thesis using Some by (auto simp: write_leg_def list_all_length)
qed

definition traces_ok :: "data_request \<Rightarrow> raw_rpc_block list \<Rightarrow> traces_fetch \<Rightarrow> bool" where
  "traces_ok req bs t \<longleftrightarrow>
     tf_traceable t = traceable_positions bs \<and>
     one_each (tf_traceable t) (tf_debug_frames t) \<and> one_each (tf_traceable t) (tf_debug_diffs t) \<and>
     one_each (tf_traceable t) (tf_trace_replays t) \<and> one_each (tf_traceable t) (tf_trace_block t) \<and>
     (tf_traceable t \<noteq> [] \<longrightarrow>
       (req_traces req \<and> \<not> req_use_trace_api req \<longrightarrow> tf_debug_frames t \<noteq> None) \<and>
       (req_state_diffs req \<and> req_use_debug_api_for_state_diffs req \<longrightarrow> tf_debug_diffs t \<noteq> None) \<and>
       (req_state_diffs req \<and> \<not> req_use_debug_api_for_state_diffs req \<longrightarrow> tf_trace_replays t \<noteq> None) \<and>
       (req_traces req \<and> req_use_trace_api req \<and> \<not> (req_state_diffs req \<and> \<not> req_use_debug_api_for_state_diffs req)
          \<longrightarrow> tf_trace_block t \<noteq> None))"

text \<open>Something that holds of the blocks and that growing keeps.\<close>

definition lasting :: "(raw_rpc_block \<Rightarrow> bool) \<Rightarrow> bool" where
  "lasting P \<longleftrightarrow> (\<forall>r u b c. grows r u b c \<longrightarrow> P b \<longrightarrow> P c)"

lemma lastingD: "lasting P \<Longrightarrow> grows r u b c \<Longrightarrow> P b \<Longrightarrow> P c"
  by (auto simp: lasting_def)

lemma lasting_list_all: "lasting P \<Longrightarrow> list_all2 (grows r u) bs cs \<Longrightarrow> list_all P bs \<Longrightarrow> list_all P cs"
  by (rotate_tac 1, induction rule: list_all2_induct) (auto dest: lastingD)

lemma lasting_legs:
  "lasting (\<lambda>b. is_invalid b \<or> raw_logs b \<noteq> None)" "lasting (\<lambda>b. is_invalid b \<or> raw_receipts b \<noteq> None)"
  "lasting (\<lambda>b. raw_number b = 0 \<or> is_invalid b \<or> raw_debug_frames b \<noteq> None)"
  "lasting (\<lambda>b. raw_number b = 0 \<or> is_invalid b \<or> raw_debug_state_diffs b \<noteq> None)"
  "lasting (\<lambda>b. raw_number b = 0 \<or> is_invalid b \<or> raw_trace_replays b \<noteq> None)"
  by (auto simp: lasting_def grows_def same_header_def)

lemma grows_list_trans:
  "list_all2 (grows r u) as bs \<Longrightarrow> list_all2 (grows r u) bs cs \<Longrightarrow> list_all2 (grows r u) as cs"
  by (rule list_all2_trans [of "grows r u" "grows r u"]) (auto intro: grows_trans)

lemma traces_in_handI:
  assumes "traces_ok req bs t"
    and "tf_debug_frames t \<noteq> None \<longrightarrow> list_all (\<lambda>c. raw_number c = 0 \<or> is_invalid c \<or> raw_debug_frames c \<noteq> None) cs"
    and "tf_debug_diffs t \<noteq> None \<longrightarrow> list_all (\<lambda>c. raw_number c = 0 \<or> is_invalid c \<or> raw_debug_state_diffs c \<noteq> None) cs"
    and "tf_trace_replays t \<noteq> None \<or> tf_trace_block t \<noteq> None \<longrightarrow>
      list_all (\<lambda>c. raw_number c = 0 \<or> is_invalid c \<or> raw_trace_replays c \<noteq> None) cs"
    and "tf_traceable t = [] \<longrightarrow> list_all (\<lambda>c. raw_number c = 0) cs"
  shows "list_all (\<lambda>c. is_invalid c \<or> traces_leg_in_hand c req) cs"
proof -
  have "is_invalid c \<or> traces_leg_in_hand c req" if c: "c \<in> set cs" for c
  proof -
    have "(tf_debug_frames t \<noteq> None \<longrightarrow> raw_number c = 0 \<or> is_invalid c \<or> raw_debug_frames c \<noteq> None) \<and>
        (tf_debug_diffs t \<noteq> None \<longrightarrow> raw_number c = 0 \<or> is_invalid c \<or> raw_debug_state_diffs c \<noteq> None) \<and>
        (tf_trace_replays t \<noteq> None \<or> tf_trace_block t \<noteq> None \<longrightarrow>
          raw_number c = 0 \<or> is_invalid c \<or> raw_trace_replays c \<noteq> None) \<and>
        (tf_traceable t = [] \<longrightarrow> raw_number c = 0)"
      using assms(2-5) c unfolding list_all_iff by blast
    with assms(1) show ?thesis
      unfolding traces_ok_def traces_leg_in_hand_def Let_def if_bool_eq_conj by argo
  qed
  then show ?thesis by (simp add: list_all_iff)
qed

lemma apply_traces_grow:
  assumes "traces_ok req bs t"
  shows "\<exists>cs. apply_traces bs t = Some (Inr cs) \<and> list_all2 (grows r u) bs cs \<and>
    list_all (\<lambda>c. is_invalid c \<or> traces_leg_in_hand c req) cs"
proof -
  let ?F = "\<lambda>c. raw_number c = 0 \<or> is_invalid c \<or> raw_debug_frames c \<noteq> None"
  let ?D = "\<lambda>c. raw_number c = 0 \<or> is_invalid c \<or> raw_debug_state_diffs c \<noteq> None"
  let ?R = "\<lambda>c. raw_number c = 0 \<or> is_invalid c \<or> raw_trace_replays c \<noteq> None"
  note ok = assms [unfolded traces_ok_def]
  obtain c1 where c1: "write_leg (\<lambda>f b. b\<lparr>raw_debug_frames := Some f\<rparr>) (traceable_positions bs) (tf_debug_frames t) bs
      = Some (Inr c1)" "list_all2 (grows r u) bs c1" "tf_debug_frames t \<noteq> None \<longrightarrow> list_all ?F c1"
    using write_leg_grows [of r u "\<lambda>f b. b\<lparr>raw_debug_frames := Some f\<rparr>" "\<lambda>b. raw_debug_frames b \<noteq> None" bs "tf_debug_frames t"] ok
    by auto
  note t1 = traceable_positions_same [OF c1(2)]
  obtain c2 where c2: "write_leg (\<lambda>d b. b\<lparr>raw_debug_state_diffs := Some d\<rparr>) (traceable_positions bs) (tf_debug_diffs t) c1
      = Some (Inr c2)" "list_all2 (grows r u) c1 c2" "tf_debug_diffs t \<noteq> None \<longrightarrow> list_all ?D c2"
    using write_leg_grows [of r u "\<lambda>f b. b\<lparr>raw_debug_state_diffs := Some f\<rparr>" "\<lambda>b. raw_debug_state_diffs b \<noteq> None" c1 "tf_debug_diffs t"] ok t1
    by auto
  note t2 = traceable_positions_same [OF c2(2)]
  obtain c3 where c3: "write_leg (\<lambda>x b. b\<lparr>raw_trace_replays := Some x\<rparr>) (traceable_positions bs) (tf_trace_replays t) c2
      = Some (Inr c3)" "list_all2 (grows r u) c2 c3" "tf_trace_replays t \<noteq> None \<longrightarrow> list_all ?R c3"
    using write_leg_grows [of r u "\<lambda>f b. b\<lparr>raw_trace_replays := Some f\<rparr>" "\<lambda>b. raw_trace_replays b \<noteq> None" c2 "tf_trace_replays t"] ok t1 t2
    by auto
  note t3 = traceable_positions_same [OF c3(2)]
  obtain c4 where c4: "write_leg (\<lambda>x b. b\<lparr>raw_trace_replays := Some x\<rparr>) (traceable_positions bs) (tf_trace_block t) c3
      = Some (Inr c4)" "list_all2 (grows r u) c3 c4" "tf_trace_block t \<noteq> None \<longrightarrow> list_all ?R c4"
    using write_leg_grows [of r u "\<lambda>f b. b\<lparr>raw_trace_replays := Some f\<rparr>" "\<lambda>b. raw_trace_replays b \<noteq> None" c3 "tf_trace_block t"] ok t1 t2 t3
    by auto
  have g24: "list_all2 (grows r u) c2 c4" using c3(2) c4(2) by (rule grows_list_trans)
  have g14: "list_all2 (grows r u) c1 c4" using c2(2) g24 by (rule grows_list_trans)
  have "tf_debug_frames t \<noteq> None \<longrightarrow> list_all ?F c4" "tf_debug_diffs t \<noteq> None \<longrightarrow> list_all ?D c4"
    "tf_trace_replays t \<noteq> None \<or> tf_trace_block t \<noteq> None \<longrightarrow> list_all ?R c4"
    using c1(3) c2(3) c3(3) c4(3) lasting_list_all [OF lasting_legs(3) g14] lasting_list_all [OF lasting_legs(4) g24]
      lasting_list_all [OF lasting_legs(5) c4(2)] by blast+
  moreover have "tf_traceable t = [] \<longrightarrow> list_all (\<lambda>c. raw_number c = 0) c4"
  proof
    assume "tf_traceable t = []"
    then have none: "set (traceable_positions c4) = {}"
      using ok t1 t2 t3 traceable_positions_same [OF c4(2)] by simp
    have "raw_number (c4 ! i) = 0" if "i < length c4" for i
      using that none traceable_positions_props(2) [of i c4] by simp
    then show "list_all (\<lambda>c. raw_number c = 0) c4" by (simp add: list_all_length)
  qed
  ultimately have "list_all (\<lambda>c. is_invalid c \<or> traces_leg_in_hand c req) c4"
    using traces_in_handI [OF assms, of c4] by blast
  moreover have "list_all2 (grows r u) bs c4" using c1(2) g14 by (rule grows_list_trans)
  moreover have "apply_traces bs t = Some (Inr c4)" using ok c1(1) c2(1) c3(1) c4(1) by (simp add: apply_traces_def)
  ultimately show ?thesis by blast
qed

interpretation traces_leg:
  leg_op "grows r u" "traces_ok req" apply_traces "\<lambda>b. traces_leg_in_hand b req"
  for r u req
  by unfold_locales (use apply_traces_grow in force)+

subsection \<open>What the client answers\<close>

lemma one_per_callD: "one_per_call up \<Longrightarrow> up_batch up calls opts = Inr rs \<Longrightarrow> length rs = length calls"
  by (auto simp: one_per_call_def)

lemma fetch_receipts_ok:
  assumes "one_per_call (r_client r)" "ready r u" "fetch_receipts r bs = Some (Inr x)"
  shows "receipts_ok r u bs x"
  using assms one_per_callD [OF assms(1)]
  by (cases "get_receipts_method r"; cases "fetch_receipts_by_block r bs"; cases "fetch_receipts_by_tx r bs")
     (auto simp: fetch_receipts_def fetch_receipts_by_block_def)

lemma fetch_receipts_returns: "fetch_receipts r bs \<noteq> None"
  by (simp add: fetch_receipts_def split: receipts_method.splits)

lemma sub_leg_lengths:
  assumes "one_per_call (r_client r)"
  shows "fetch_debug_frames r bs req = Some (Inr x) \<Longrightarrow> length x = length bs"
    and "fetch_debug_state_diffs r bs req = Some (Inr y) \<Longrightarrow> length y = length bs"
    and "fetch_trace_replays r bs tracers = Some (Inr z) \<Longrightarrow> length z = length bs"
    and "fetch_trace_block r bs = Some (Inr z) \<Longrightarrow> length z = length bs"
  using one_per_callD [OF assms]
  by (auto simp: fetch_debug_frames_def fetch_debug_state_diffs_def fetch_trace_replays_def fetch_trace_block_def
      run_bind_Inr)

lemma sub_leg_returns:
  assumes "one_per_call (r_client r)"
  shows "fetch_debug_frames r bs req \<noteq> None" "fetch_debug_state_diffs r bs req \<noteq> None"
    "fetch_trace_replays r bs tracers \<noteq> None" "fetch_trace_block r bs \<noteq> None"
  using one_per_callD [OF assms]
  by (auto simp: fetch_debug_frames_def fetch_debug_state_diffs_def fetch_trace_replays_def fetch_trace_block_def
      run_bind_None positions_None)

lemma fetch_traces_returns:
  assumes "one_per_call (r_client r)"
  shows "fetch_traces r bs req \<noteq> None"
proof (cases "traceable_positions bs = []")
  case True
  then show ?thesis by (simp add: fetch_traces_def)
next
  case False
  show ?thesis
    unfolding fetch_traces_def Let_def if_not_P [OF False]
    by (rule run_bind_total, intro join_or_err_None)
       (simp_all add: optional_leg_None sub_leg_returns [OF assms] run_bind_None del: not_None_eq split: prod.splits)
qed

lemma fetch_traces_ok:
  assumes "one_per_call (r_client r)" "fetch_traces r bs req = Some (Inr t)"
  shows "traces_ok req bs t"
proof (cases "traceable_positions bs = []")
  case True
  then show ?thesis using assms(2) by (auto simp: fetch_traces_def traces_ok_def one_each_def)
next
  case False
  let ?bs = "map (nth bs) (traceable_positions bs)"
  note len = sub_leg_lengths [OF assms(1), of ?bs]
  show ?thesis
    using assms(2) False len
    by (auto simp: fetch_traces_def Let_def run_bind_Inr join_or_err_Inr optional_leg_Inr traces_ok_def one_each_def
        split: if_splits)
qed

subsection \<open>All the legs\<close>

definition complete :: "raw_rpc_block \<Rightarrow> data_request \<Rightarrow> bool" where
  "complete b req \<longleftrightarrow>
     (req_logs req \<longrightarrow> raw_logs b \<noteq> None) \<and> (req_receipts req \<longrightarrow> raw_receipts b \<noteq> None) \<and>
     traces_leg_in_hand b req"

lemma receipts_ok_same: "list_all2 (grows r u) bs cs \<Longrightarrow> receipts_ok r u bs x \<Longrightarrow> receipts_ok r u cs x"
  by (cases x) (auto dest: list_all2_lengthD)

lemma traces_ok_same: "list_all2 (grows r u) bs cs \<Longrightarrow> traces_ok req bs t \<Longrightarrow> traces_ok req cs t"
  by (drule traceable_positions_same) (auto simp: traces_ok_def)

lemma no_traces_in_hand: "\<not> req_traces req \<Longrightarrow> \<not> req_state_diffs req \<Longrightarrow> traces_leg_in_hand b req"
  by (simp add: traces_leg_in_hand_def)

text \<open>The three legs one after the other, each with an answer the client can give.\<close>

lemma legs_in_sequence:
  assumes "ready r u"
    and 1: "apply_leg (apply_logs r) l bs = Some (Inr c1)" and l: "req_logs req \<longrightarrow> l \<noteq> None"
    and 2: "apply_leg (apply_receipts r) x c1 = Some (Inr c2)" and x: "req_receipts req \<longrightarrow> x \<noteq> None"
      "\<And>y. x = Some y \<Longrightarrow> receipts_ok r u bs y"
    and 3: "apply_leg apply_traces t c2 = Some (Inr cs)" and t: "req_traces req \<or> req_state_diffs req \<longrightarrow> t \<noteq> None"
      "\<And>y. t = Some y \<Longrightarrow> traces_ok req bs y"
  shows "list_all2 (grows r u) bs cs \<and> list_all (\<lambda>c. is_invalid c \<or> complete c req) cs"
proof -
  have g1: "list_all2 (grows r u) bs c1" "l \<noteq> None \<longrightarrow> list_all (\<lambda>c. is_invalid c \<or> raw_logs c \<noteq> None) c1"
    using logs_leg.leg_applied [OF _ 1, of u] assms(1) by simp_all
  have g2: "list_all2 (grows r u) c1 c2" "x \<noteq> None \<longrightarrow> list_all (\<lambda>c. is_invalid c \<or> raw_receipts c \<noteq> None) c2"
    using receipts_leg.leg_applied [OF _ 2, of u] receipts_ok_same [OF g1(1)] x(2) by simp_all
  have g02: "list_all2 (grows r u) bs c2" using g1(1) g2(1) by (rule grows_list_trans)
  have g3: "list_all2 (grows r u) c2 cs" "t \<noteq> None \<longrightarrow> list_all (\<lambda>c. is_invalid c \<or> traces_leg_in_hand c req) cs"
    using traces_leg.leg_applied [OF _ 3, of req r u] traces_ok_same [OF g02] t(2) by simp_all
  have g13: "list_all2 (grows r u) c1 cs" using g2(1) g3(1) by (rule grows_list_trans)
  have "l \<noteq> None \<longrightarrow> list_all (\<lambda>c. is_invalid c \<or> raw_logs c \<noteq> None) cs"
    "x \<noteq> None \<longrightarrow> list_all (\<lambda>c. is_invalid c \<or> raw_receipts c \<noteq> None) cs"
    using lasting_list_all [OF lasting_legs(1) g13] lasting_list_all [OF lasting_legs(2) g3(1)] g1(2) g2(2) by blast+
  then have "list_all (\<lambda>c. is_invalid c \<or> complete c req) cs"
    using l x(1) t(1) g3(2) no_traces_in_hand [of req] unfolding complete_def list_all_iff by blast
  with grows_list_trans [OF g1(1) g13] show ?thesis by blast
qed

lemma fetch_and_apply_grow:
  assumes "one_per_call (r_client r)" "ready r u" "fetch_and_apply r el bs req = Some (Inr (cs, legs))"
  shows "list_all2 (grows r u) bs cs \<and> list_all (\<lambda>c. is_invalid c \<or> complete c req) cs"
proof -
  obtain l x t c1 c2 where
      fetched: "optional_leg (req_logs req) (fetch_logs r bs) = Some (Inr l)"
        "optional_leg (req_receipts req) (fetch_receipts r bs) = Some (Inr x)"
        "optional_leg (req_traces req \<or> req_state_diffs req) (fetch_traces r bs req) = Some (Inr t)"
    and applied: "apply_leg (apply_logs r) l bs = Some (Inr c1)" "apply_leg (apply_receipts r) x c1 = Some (Inr c2)"
        "apply_leg apply_traces t c2 = Some (Inr cs)"
    using assms(3) by (auto simp: fetch_and_apply_def Let_def run_bind_Inr join_or_err_Inr)
  show ?thesis
  proof (rule legs_in_sequence [OF assms(2) applied(1) _ applied(2) _ _ applied(3)])
    show "receipts_ok r u bs y" if "x = Some y" for y
      using fetched(2) that fetch_receipts_ok [OF assms(1,2)] by (auto simp: optional_leg_Inr split: if_splits)
    show "traces_ok req bs y" if "t = Some y" for y
      using fetched(3) that fetch_traces_ok [OF assms(1)] by (auto simp: optional_leg_Inr split: if_splits)
  qed (use fetched in \<open>auto simp: optional_leg_Inr split: if_splits\<close>)
qed

lemma fetch_logs_returns: "fetch_logs r bs \<noteq> None"
  by (simp add: fetch_logs_def run_bind_None del: not_None_eq)

lemma legs_return:
  fixes k :: "raw_rpc_block list \<Rightarrow> raw_rpc_block list \<times> leg_durations"
  assumes "ready r u" and rest: "join_or_err R T = Some rest"
    and xok: "\<And>y. R = Some (Inr (Some y)) \<Longrightarrow> receipts_ok r u bs y"
    and tok: "\<And>y. T = Some (Inr (Some y)) \<Longrightarrow> traces_ok req bs y"
  shows "run_bind (apply_leg (apply_logs r) l bs) (\<lambda>c1. run_bind (Some rest) (\<lambda>(x, tf).
      run_bind (apply_leg (apply_receipts r) x c1) (\<lambda>c2. run_bind (Some tf) (\<lambda>t.
      run_bind (apply_leg apply_traces t c2) (\<lambda>cs. Some (Inr (k cs))))))) \<noteq> None"
  proof (intro run_bind_total)
    show "apply_leg (apply_logs r) l bs \<noteq> None" using assms(1) by (intro logs_leg.leg_returns)
  next
    fix c1 z assume 1: "apply_leg (apply_logs r) l bs = Some (Inr c1)" and z: "Some rest = Some (Inr z)"
    have g1: "list_all2 (grows r u) bs c1" using logs_leg.leg_applied [OF _ 1, of u] assms(1) by simp
    obtain x tf where xt: "z = (x, tf)" "R = Some (Inr x)" "T = Some tf"
      using rest z by (auto simp: join_or_err_Inr)
    have "run_bind (apply_leg (apply_receipts r) x c1) (\<lambda>c2. run_bind (Some tf) (\<lambda>t.
        run_bind (apply_leg apply_traces t c2) (\<lambda>cs. Some (Inr (k cs))))) \<noteq> None"
    proof (intro run_bind_total)
      show "apply_leg (apply_receipts r) x c1 \<noteq> None"
        using xok xt(2) receipts_ok_same [OF g1] by (intro receipts_leg.leg_returns [of _ r u]) auto
    next
      fix c2 t assume 2: "apply_leg (apply_receipts r) x c1 = Some (Inr c2)" and t: "Some tf = Some (Inr t)"
      have g2: "list_all2 (grows r u) c1 c2"
        using receipts_leg.leg_applied [OF _ 2, of u] xok xt(2) receipts_ok_same [OF g1] by auto
      show "apply_leg apply_traces t c2 \<noteq> None"
        using tok xt(3) t traces_ok_same [OF grows_list_trans [OF g1 g2]] by (intro traces_leg.leg_returns [of _ req]) auto
    qed simp_all
    then show "(case z of (x, tf) \<Rightarrow> run_bind (apply_leg (apply_receipts r) x c1) (\<lambda>c2. run_bind (Some tf) (\<lambda>t.
        run_bind (apply_leg apply_traces t c2) (\<lambda>cs. Some (Inr (k cs)))))) \<noteq> None" by (simp add: xt(1))
  qed simp_all

lemma fetch_and_apply_returns:
  assumes "one_per_call (r_client r)" "ready r u"
  shows "fetch_and_apply r el bs req \<noteq> None"
proof -
  note ret = fetch_logs_returns [of r bs] fetch_receipts_returns [of r bs] fetch_traces_returns [OF assms(1), of bs req]
  let ?L = "optional_leg (req_logs req) (fetch_logs r bs)"
  let ?R = "optional_leg (req_receipts req) (fetch_receipts r bs)"
  let ?T = "optional_leg (req_traces req \<or> req_state_diffs req) (fetch_traces r bs req)"
  have some: "?L \<noteq> None" "?R \<noteq> None" "?T \<noteq> None" using ret by (simp_all add: optional_leg_None del: not_None_eq)
  have xok: "receipts_ok r u bs y" if "?R = Some (Inr (Some y))" for y
    using that fetch_receipts_ok [OF assms] by (auto simp: optional_leg_Inr split: if_splits)
  have tok: "traces_ok req bs y" if "?T = Some (Inr (Some y))" for y
    using that fetch_traces_ok [OF assms(1)] by (auto simp: optional_leg_Inr split: if_splits)
  note later = legs_return [OF assms(2) _ xok tok]
  show ?thesis
    unfolding fetch_and_apply_def Let_def
  proof (rule run_bind_total)
    show "join_or_err ?L (join_or_err ?R ?T) \<noteq> None" using some by (intro join_or_err_None)
  next
    fix y assume "join_or_err ?L (join_or_err ?R ?T) = Some (Inr y)"
    then obtain l rest where "y = (l, rest)" "join_or_err ?R ?T = Some rest" by (auto simp: join_or_err_Inr)
    then show "(case y of (l, rest) \<Rightarrow> run_bind (apply_leg (apply_logs r) l bs) (\<lambda>c1. run_bind (Some rest) (\<lambda>(x, tf).
      run_bind (apply_leg (apply_receipts r) x c1) (\<lambda>c2. run_bind (Some tf) (\<lambda>t.
      run_bind (apply_leg apply_traces t c2) (\<lambda>cs. Some (Inr (cs, 
        \<lparr>ld_logs = (if req_logs req then ld_logs el else 0), ld_receipts = (if req_receipts req then ld_receipts el else 0),
         ld_traces = (if req_traces req \<or> req_state_diffs req then ld_traces el else 0)\<rparr>)))))))) \<noteq> None"
      using later by simp
  qed
qed

end
