(* ===== verification/Evm_Enrich.thy ===== *)
theory Evm_Enrich
  imports Evm_Legs
begin

text \<open>
  The acquisition of a head block with its retries (\<open>enrich_block_with_retry\<close> of
  \<open>evm-source/src/fetch.rs\<close>), and what the fetch layer guarantees of a block without a verdict: its number
  is the one asked for and every leg of the request is there and belongs to its header.

  \<open>rounds k\<close> is the client and the measured times of the \<open>k\<close>-th round; the clock advances by the delay and
  by the time the round took, and a round that would end past the not-ready deadline is cut there.
\<close>

subsection \<open>The retry loop\<close>

record enrich_round =
  er_rpc :: rpc
  er_took :: duration
  er_legs :: leg_durations

record enrich_state =
  es_blocks :: "raw_rpc_block list"
  es_legs :: leg_durations
  es_profile :: enrich_profile
  es_incoherent_retries :: nat
  es_deadline :: "instant option"
  es_streak :: nat
  es_now :: instant
  es_round :: nat

definition leg_durations_default :: leg_durations where
  "leg_durations_default = \<lparr>ld_logs = 0, ld_receipts = 0, ld_traces = 0\<rparr>"

definition enrich_profile_default :: enrich_profile where
  "enrich_profile_default = \<lparr>attempts = 0, waited = 0, leg_logs = 0, leg_receipts = 0, leg_traces = 0\<rparr>"

text \<open>\<open>{:?}\<close> of a duration of whole milliseconds.\<close>

definition trim_zeros :: "string \<Rightarrow> string" where
  "trim_zeros s = rev (dropWhile (\<lambda>c. c = CHR ''0'') (rev s))"

definition debug_duration :: "duration \<Rightarrow> string" where
  "debug_duration ms =
     (if 1000 \<le> ms then
        let frac = trim_zeros (tl (decimal (1000 + ms mod 1000)))
        in decimal (ms div 1000) @ (if frac = [] then [] else ''.'' @ frac) @ ''s''
      else if 0 < ms then decimal ms @ ''ms''
      else ''0ns'')"

definition wants_data :: "data_request \<Rightarrow> bool" where
  "wants_data req \<longleftrightarrow> req_logs req \<or> req_receipts req \<or> req_traces req \<or> req_state_diffs req"

definition front_block :: "raw_rpc_block list \<Rightarrow> raw_rpc_block option" where
  "front_block bs = (case bs of [] \<Rightarrow> None | b # _ \<Rightarrow> Some b)"

definition still_not_ready :: "rpc_options \<Rightarrow> u64 \<Rightarrow> string \<Rightarrow> anyhow" where
  "still_not_ready opts n err_msg =
     Message (''failed to enrich block '' @ show_u64 n @ '': still not ready after '' @
              debug_duration (not_ready_budget opts) @ '': '' @ err_msg)"

definition retries_spent :: "u64 \<Rightarrow> string \<Rightarrow> anyhow" where
  "retries_spent n err_msg =
     Message (''failed to enrich block '' @ show_u64 n @ '' after '' @ decimal P_ENRICH_RETRIES @ '' retries: '' @ err_msg)"

definition residual_request :: "raw_rpc_block list \<Rightarrow> bool \<Rightarrow> nat \<Rightarrow> data_request \<Rightarrow> data_request option" where
  "residual_request bs not_ready streak req =
     (let contested = (case front_block bs of Some b \<Rightarrow> header_contested b | None \<Rightarrow> False)
      in if not_ready \<and> \<not> contested \<and> streak < LEGS_ONLY_RETRIES then
           (case front_block bs of
              Some b \<Rightarrow> if wants_data (missing_legs b req) then Some (missing_legs b req) else None
            | None \<Rightarrow> None)
         else None)"

text \<open>One re-acquisition: the missing legs of the block in hand, or the whole block.\<close>

definition reacquire ::
    "enrich_round \<Rightarrow> u64 \<Rightarrow> data_request \<Rightarrow> data_request option \<Rightarrow> raw_rpc_block list \<Rightarrow>
     (raw_rpc_block list \<times> leg_durations) run" where
  "reacquire rd n req residual bs =
     (case residual of
        Some res_req \<Rightarrow>
          fetch_and_apply (er_rpc rd) (er_legs rd) (case bs of [] \<Rightarrow> [] | b # rest \<Rightarrow> clear_invalid b # rest) res_req
      | None \<Rightarrow>
          run_bind (get_block_batch (er_rpc rd) (er_legs rd) [n] req) (\<lambda>fetched.
            Some (Inr (fetched, leg_durations_default))))"

definition retry_kind :: "bool \<Rightarrow> bool \<Rightarrow> enrichment_retry" where
  "retry_kind not_ready contested =
     (if \<not> not_ready then Metrics.Incoherent else if contested then HeaderContested else DataLagging)"

definition sat_inc32 :: "32 word \<Rightarrow> 32 word" where
  "sat_inc32 a = (if a = - 1 then a else a + 1)"

type_synonym enriched = "(raw_rpc_block \<times> enrich_profile) run \<times> fetch_report list"

text \<open>What one pass of the loop decides before it acquires again.\<close>

datatype enrich_decision =
    Ready raw_rpc_block enrich_profile
  | GiveUp anyhow
  | Again duration "instant option" "data_request option"

definition decide :: "rpc_options \<Rightarrow> data_request \<Rightarrow> u64 \<Rightarrow> enrich_state \<Rightarrow> enrich_decision" where
  "decide opts req n s =
     (case front_block (es_blocks s) of
        Some b \<Rightarrow>
          if \<not> is_invalid b then
            Ready b ((es_profile s)\<lparr>leg_logs := ld_logs (es_legs s), leg_receipts := ld_receipts (es_legs s),
                                     leg_traces := ld_traces (es_legs s)\<rparr>)
          else
            let err_msg = or_else (error_message b) ''block not available''
            in if is_not_ready b then
                 let deadline = or_else (es_deadline s) (es_now s + not_ready_budget opts)
                 in if es_now s \<ge> deadline then GiveUp (still_not_ready opts n err_msg)
                    else Again NOT_READY_DELAY (Some deadline) (residual_request (es_blocks s) True (es_streak s) req)
               else if es_incoherent_retries s \<ge> P_ENRICH_RETRIES then GiveUp (retries_spent n err_msg)
               else Again P_ENRICH_DELAY None (residual_request (es_blocks s) False (es_streak s) req)
      | None \<Rightarrow>
          let deadline = or_else (es_deadline s) (es_now s + not_ready_budget opts)
          in if es_now s \<ge> deadline then GiveUp (still_not_ready opts n ''block not available'')
             else Again NOT_READY_DELAY (Some deadline) (residual_request [] True (es_streak s) req))"

text \<open>The state after a re-acquisition that answered.\<close>

definition advance ::
    "duration \<Rightarrow> instant option \<Rightarrow> data_request option \<Rightarrow> duration \<Rightarrow> raw_rpc_block list \<times> leg_durations \<Rightarrow>
     enrich_state \<Rightarrow> enrich_state" where
  "advance delay deadline residual took fetched s =
     \<lparr>es_blocks = fst fetched, es_legs = snd fetched,
      es_profile = (es_profile s)\<lparr>attempts := sat_inc32 (attempts (es_profile s)), waited := waited (es_profile s) + delay\<rparr>,
      es_incoherent_retries = (if deadline = None then Suc (es_incoherent_retries s) else es_incoherent_retries s),
      es_deadline = (case deadline of Some d \<Rightarrow> Some d | None \<Rightarrow> es_deadline s),
      es_streak = (if residual = None then 0 else Suc (es_streak s)),
      es_now = es_now s + delay + took, es_round = Suc (es_round s)\<rparr>"

definition timed_out :: "instant option \<Rightarrow> instant \<Rightarrow> bool" where
  "timed_out deadline finish = (case deadline of Some d \<Rightarrow> finish > d | None \<Rightarrow> False)"

definition retry_report :: "enrich_state \<Rightarrow> instant option \<Rightarrow> fetch_report" where
  "retry_report s deadline =
     EnrichmentRetried (retry_kind (deadline \<noteq> None)
       (case front_block (es_blocks s) of Some b \<Rightarrow> header_contested b | None \<Rightarrow> False))"

function enrich_loop ::
    "rpc_options \<Rightarrow> data_request \<Rightarrow> u64 \<Rightarrow> (nat \<Rightarrow> enrich_round) \<Rightarrow> enrich_state \<Rightarrow> enriched" where
  "enrich_loop opts req n rounds s =
     (case decide opts req n s of
        Ready b profile \<Rightarrow> (Some (Inr (b, profile)), [])
      | GiveUp e \<Rightarrow> (Some (Inl e), [AcquisitionRetryExhausted])
      | Again delay deadline residual \<Rightarrow>
          let rd = rounds (es_round s);
              report = retry_report s deadline
          in if timed_out deadline (es_now s + delay + er_took rd) then
               (Some (Inl (still_not_ready opts n
                  (or_else (Option.bind (front_block (es_blocks s)) error_message) ''block not available''))),
                [report, AcquisitionRetryExhausted])
             else
               case reacquire rd n req residual (es_blocks s) of
                 None \<Rightarrow> (None, [report])
               | Some (Inl e) \<Rightarrow> (Some (Inl e), [report])
               | Some (Inr fetched) \<Rightarrow>
                   let (out, reports) =
                     enrich_loop opts req n rounds (advance delay deadline residual (er_took rd) fetched s)
                   in (out, report # reports))"
  by pat_completeness auto

text \<open>
  The passes left: the incoherent budget, and the milliseconds up to the not-ready deadline, or a whole
  budget when none is set.
\<close>

definition passes_left :: "rpc_options \<Rightarrow> enrich_state \<Rightarrow> nat" where
  "passes_left opts s =
     (P_ENRICH_RETRIES - es_incoherent_retries s) +
     (case es_deadline s of Some d \<Rightarrow> d - es_now s | None \<Rightarrow> Suc (not_ready_budget opts))"

lemma decide_again:
  assumes "decide opts req n s = Again delay deadline residual"
  shows "(deadline = None \<and> delay = P_ENRICH_DELAY \<and> es_incoherent_retries s < P_ENRICH_RETRIES) \<or>
    (\<exists>d. deadline = Some d \<and> delay = NOT_READY_DELAY \<and> es_now s < d \<and>
         d = or_else (es_deadline s) (es_now s + not_ready_budget opts))"
  using assms by (auto simp: decide_def Let_def split: option.splits if_splits)

lemma advance_passes_left:
  assumes "decide opts req n s = Again delay deadline residual"
    and "\<not> timed_out deadline (es_now s + delay + took)"
  shows "passes_left opts (advance delay deadline residual took fetched s) < passes_left opts s"
  using decide_again [OF assms(1)] assms(2)
  by (auto simp: passes_left_def advance_def timed_out_def NOT_READY_DELAY_def or_else_def split: option.splits)

termination enrich_loop
  by (relation "measure (\<lambda>(opts, req, n, rounds, s). passes_left opts s)") (auto intro: advance_passes_left)

declare enrich_loop.simps [simp del]

definition enrich_block_with_retry ::
    "rpc_options \<Rightarrow> (nat \<Rightarrow> enrich_round) \<Rightarrow> instant \<Rightarrow> raw_rpc_block \<Rightarrow> data_request \<Rightarrow> enriched" where
  "enrich_block_with_retry opts rounds start body req =
     (if \<not> wants_data req then (Some (Inr (body, enrich_profile_default)), [])
      else
        let rd = rounds 0
        in case add_requested_data (er_rpc rd) (er_legs rd) [body] req of
             None \<Rightarrow> (None, [])
           | Some (Inl e) \<Rightarrow> (Some (Inl e), [])
           | Some (Inr (bs, legs)) \<Rightarrow>
               enrich_loop opts req (raw_number body) rounds
                 \<lparr>es_blocks = bs, es_legs = legs, es_profile = enrich_profile_default\<lparr>attempts := 1\<rparr>,
                  es_incoherent_retries = 0, es_deadline = None, es_streak = 0,
                  es_now = start + er_took rd, es_round = 1\<rparr>)"

subsection \<open>Sound blocks\<close>

definition header_good :: "rpc \<Rightarrow> chain_utils \<Rightarrow> u64 \<Rightarrow> raw_rpc_block \<Rightarrow> bool" where
  "header_good r u n b \<longleftrightarrow>
     raw_number b = n \<and> qty2_u64 (rb_number (raw_block b)) = n \<and> raw_hash b = rb_hash (raw_block b) \<and>
     verify_header r b u = Inr ()"

definition sound :: "rpc \<Rightarrow> chain_utils \<Rightarrow> u64 \<Rightarrow> raw_rpc_block \<Rightarrow> bool" where
  "sound r u n b \<longleftrightarrow> (incoherent b \<or> header_good r u n b) \<and> legs_fit r u b"

lemma header_good_same: "same_header b c \<Longrightarrow> header_good r u n c = header_good r u n b"
  using verify_same(3) [of b c] by (simp add: header_good_def same_header_def)

lemma sound_grows: "sound r u n b \<Longrightarrow> grows r u b c \<Longrightarrow> sound r u n c"
  using header_good_same [of b c r u n] by (auto simp: sound_def grows_def)

lemma clear_invalid_same: "same_header b (clear_invalid b)" "raw_logs (clear_invalid b) = raw_logs b"
  "raw_receipts (clear_invalid b) = raw_receipts b" "raw_debug_frames (clear_invalid b) = raw_debug_frames b"
  "raw_trace_replays (clear_invalid b) = raw_trace_replays b" "raw_debug_state_diffs (clear_invalid b) = raw_debug_state_diffs b"
  by (simp_all add: clear_invalid_def same_header_def)

lemma sound_clear: "sound r u n b \<Longrightarrow> \<not> incoherent b \<Longrightarrow> sound r u n (clear_invalid b)"
  using header_good_same [OF clear_invalid_same(1), of r u n b] legs_fit_cong [OF clear_invalid_same(1-3), of r u b]
  by (simp add: sound_def)

text \<open>The checks do not use the client.\<close>

lemma verify_client:
  "verify_header (r\<lparr>r_client := up\<rparr>) b u = verify_header r b u"
  "verify_logs (r\<lparr>r_client := up\<rparr>) b ls u = verify_logs r b ls u"
  "verify_receipts (r\<lparr>r_client := up\<rparr>) b rcs u = verify_receipts r b rcs u"
proof -
  have "check_sender (r\<lparr>r_client := up\<rparr>) u = check_sender r u"
    by (rule ext) (simp add: check_sender_def)
  then show "verify_header (r\<lparr>r_client := up\<rparr>) b u = verify_header r b u"
    by (simp add: verify_header_def check_block_hash_def check_tx_root_def check_senders_def check_withdrawals_root_def
        cong: option.case_cong)
qed (simp_all add: verify_logs_def check_logs_bloom_def verify_receipts_def check_receipts_root_def)

lemma sound_client: "sound (r\<lparr>r_client := up\<rparr>) u n b = sound r u n b"
  by (simp add: sound_def header_good_def verify_client legs_fit_def logs_fit_def receipts_fit_def cong: option.case_cong)

lemma ready_client [simp]: "ready (r\<lparr>r_client := up\<rparr>) u = ready r u"
  by (simp add: ready_def)

lemma new_legs_fit: "legs_fit r u (raw_rpc_block_new n h b)" "legs_fit r u (mark_invalid m (raw_rpc_block_new n h b))"
  by (simp_all add: legs_fit_def mark_legs) (simp_all add: raw_rpc_block_new_def)

lemma block_of_result_sound:
  assumes "block_of_result r u n res = Some b"
  shows "sound r u n b"
proof -
  have bad: "sound r u n (mark_invalid m (raw_rpc_block_new k h blk))" for m k h blk
    by (simp add: sound_def mark_incoherent new_legs_fit)
  have good: "verify_header r (raw_rpc_block_new n (rb_hash blk) blk) u = Inr () \<Longrightarrow> qty2_u64 (rb_number blk) = n \<Longrightarrow>
      sound r u n (raw_rpc_block_new n (rb_hash blk) blk)" for blk
    by (auto simp: sound_def header_good_def new_legs_fit) (simp_all add: raw_rpc_block_new_def)
  show ?thesis
    using assms bad good
    by (auto simp: block_of_result_def incoherent_placeholder_def Let_def split: sum.splits if_splits)
qed

lemma get_blocks_sound:
  assumes "one_per_call (r_client r)" "ready r u" "get_blocks r ns w = Some (Inr obs)"
  shows "list_all2 (\<lambda>n ob. case ob of Some b \<Rightarrow> sound r u n b | None \<Rightarrow> True) ns obs"
proof (cases "ns = []")
  case True
  then show ?thesis using assms(3) by (simp add: get_blocks_def)
next
  case False
  then obtain rs where rs: "up_batch (r_client r) (map (block_call w) ns) (with_validate_error blocks_validate_error) = Inr rs"
      "obs = map (\<lambda>(n, res). block_of_result r u n res) (zip ns rs)"
    using assms(3) ready_utils [OF assms(2)] by (auto simp: get_blocks_def run_bind_Inr)
  moreover have "length rs = length ns" using one_per_callD [OF assms(1) rs(1)] by simp
  ultimately show ?thesis
    using block_of_result_sound [of r u] by (auto simp: list_all2_conv_all_nth split: option.splits)
qed

lemma get_blocks_returns: "one_per_call (r_client r) \<Longrightarrow> get_blocks r ns w \<noteq> None"
  by (auto simp: get_blocks_def run_bind_None positions_None dest!: one_per_callD simp del: not_None_eq split: if_splits)

lemma link_chain_prefix:
  "list_all2 (\<lambda>n ob. case ob of Some b \<Rightarrow> P n b | None \<Rightarrow> True) ns obs \<Longrightarrow>
   \<exists>cs. link_chain chain obs = chain @ cs \<and> length cs \<le> length ns \<and> list_all2 P (take (length cs) ns) cs"
proof (induction chain obs arbitrary: ns rule: link_chain.induct)
  case (3 chain b obs)
  then obtain n ms where ns: "ns = n # ms" "P n b"
      "list_all2 (\<lambda>n ob. case ob of Some b \<Rightarrow> P n b | None \<Rightarrow> True) ms obs"
    by (auto simp: list_all2_Cons2)
  show ?case
  proof (cases "raw_hash b = [] \<or>
      chain \<noteq> [] \<and> \<not> eq_ignore_ascii_case (raw_hash (last chain)) (rb_parent_hash (raw_block b))")
    case True
    then show ?thesis using ns by (auto intro: exI [of _ "[b]"])
  next
    case False
    then obtain cs where "link_chain (chain @ [b]) obs = (chain @ [b]) @ cs" "length cs \<le> length ms"
        "list_all2 P (take (length cs) ms) cs"
      using 3(1) [OF _ _ ns(3)] by blast
    then show ?thesis using ns False by (intro exI [of _ "b # cs"]) auto
  qed
qed auto

lemma sound_list_grows:
  "list_all2 (sound r u) ns bs \<Longrightarrow> list_all2 (grows r u) bs cs \<Longrightarrow> list_all2 (sound r u) ns cs"
  by (rule list_all2_trans [of "sound r u" "grows r u"]) (auto intro: sound_grows)

lemma get_block_batch_sound:
  assumes "one_per_call (r_client r)" "ready r u" "get_block_batch r el ns req = Some (Inr cs)"
  shows "length cs \<le> length ns \<and> list_all2 (sound r u) (take (length cs) ns) cs \<and>
    list_all (\<lambda>c. is_invalid c \<or> complete c req) cs"
proof -
  obtain obs legs where obs: "get_blocks r ns True = Some (Inr obs)"
      "fetch_and_apply r el (link_chain [] obs) req = Some (Inr (cs, legs))"
    using assms(3) by (auto simp: get_block_batch_def add_requested_data_def run_bind_Inr)
  obtain bs where bs: "link_chain [] obs = bs" "length bs \<le> length ns" "list_all2 (sound r u) (take (length bs) ns) bs"
    using link_chain_prefix [OF get_blocks_sound [OF assms(1,2) obs(1)], of "[]"] by auto
  have g: "list_all2 (grows r u) bs cs" "list_all (\<lambda>c. is_invalid c \<or> complete c req) cs"
    using fetch_and_apply_grow [OF assms(1,2) obs(2)] bs(1) by simp_all
  then show ?thesis using bs sound_list_grows [OF bs(3) g(1)] by (simp add: list_all2_lengthD)
qed

lemma add_requested_data_returns:
  "one_per_call (r_client r) \<Longrightarrow> ready r u \<Longrightarrow> add_requested_data r el bs req \<noteq> None"
  using fetch_and_apply_returns [of r u el bs req] by (simp add: add_requested_data_def run_bind_None del: not_None_eq)

lemma get_block_batch_returns:
  "one_per_call (r_client r) \<Longrightarrow> ready r u \<Longrightarrow> get_block_batch r el ns req \<noteq> None"
  unfolding get_block_batch_def
  by (rule run_bind_total [OF get_blocks_returns run_bind_total [OF add_requested_data_returns]]) auto

subsection \<open>The loop keeps what it has\<close>

definition round_of :: "rpc \<Rightarrow> enrich_round \<Rightarrow> bool" where
  "round_of r rd \<longleftrightarrow> (\<exists>up. er_rpc rd = r\<lparr>r_client := up\<rparr> \<and> one_per_call up)"

fun in_hand :: "rpc \<Rightarrow> chain_utils \<Rightarrow> u64 \<Rightarrow> data_request \<Rightarrow> raw_rpc_block list \<Rightarrow> bool" where
  "in_hand r u n req [] = True"
| "in_hand r u n req [b] = (sound r u n b \<and> (is_invalid b \<or> complete b req))"
| "in_hand r u n req (a # b # bs) = False"

lemma missing_legs_complete:
  assumes "grows r u (clear_invalid b) c" "complete c (missing_legs b req)"
  shows "complete c req"
proof -
  have num: "raw_number c = raw_number b" using assms(1) by (simp add: grows_def same_header_def clear_invalid_def)
  have kept: "raw_logs b \<noteq> None \<longrightarrow> raw_logs c \<noteq> None" "raw_receipts b \<noteq> None \<longrightarrow> raw_receipts c \<noteq> None"
    "raw_debug_frames b \<noteq> None \<longrightarrow> raw_debug_frames c \<noteq> None"
    "raw_debug_state_diffs b \<noteq> None \<longrightarrow> raw_debug_state_diffs c \<noteq> None"
    "raw_trace_replays b \<noteq> None \<longrightarrow> raw_trace_replays c \<noteq> None"
    using assms(1) by (simp_all add: grows_def clear_invalid_same del: not_None_eq)
  have "traces_leg_in_hand b req \<longrightarrow> traces_leg_in_hand c req"
    using kept num unfolding traces_leg_in_hand_def Let_def if_bool_eq_conj by argo
  moreover have "\<not> traces_leg_in_hand b req \<longrightarrow> traces_leg_in_hand c (missing_legs b req) \<longrightarrow> traces_leg_in_hand c req"
    by (simp add: missing_legs_def traces_leg_in_hand_def Let_def del: not_None_eq)
  moreover have "req_logs req \<longrightarrow> raw_logs c \<noteq> None" "req_receipts req \<longrightarrow> raw_receipts c \<noteq> None"
    using assms(2) kept(1,2) by (cases "raw_logs b"; cases "raw_receipts b"; simp add: complete_def missing_legs_def Let_def)+
  moreover have "traces_leg_in_hand c (missing_legs b req)" using assms(2) by (simp add: complete_def)
  ultimately show ?thesis unfolding complete_def by blast
qed

lemma in_hand_single: "list_all2 (grows r u) [b] cs \<Longrightarrow> \<exists>c. cs = [c] \<and> grows r u b c"
  by (auto simp: list_all2_Cons1)

lemma reacquire_residual:
  assumes "round_of r rd" "ready r u" "sound r u n b" "\<not> incoherent b"
    and "reacquire rd n req (Some (missing_legs b req)) [b] = Some (Inr (cs, legs))"
  shows "in_hand r u n req cs"
proof -
  obtain up where up: "er_rpc rd = r\<lparr>r_client := up\<rparr>" "one_per_call up" using assms(1) by (auto simp: round_of_def)
  let ?r = "r\<lparr>r_client := up\<rparr>"
  have "list_all2 (grows ?r u) [clear_invalid b] cs \<and> list_all (\<lambda>c. is_invalid c \<or> complete c (missing_legs b req)) cs"
    using assms(2,5) up by (intro fetch_and_apply_grow) (auto simp: reacquire_def)
  then obtain c where c: "cs = [c]" "grows ?r u (clear_invalid b) c" "is_invalid c \<or> complete c (missing_legs b req)"
    using in_hand_single [of ?r u "clear_invalid b" cs] by auto
  have "sound ?r u n c"
    using sound_clear [OF assms(3,4)] sound_grows [OF _ c(2), of n] by (simp add: sound_client)
  then show ?thesis using c missing_legs_complete [OF c(2)] by (auto simp: sound_client)
qed

lemma reacquire_whole:
  assumes "round_of r rd" "ready r u" "reacquire rd n req None bs = Some (Inr (cs, legs))"
  shows "in_hand r u n req cs"
proof -
  obtain up where up: "er_rpc rd = r\<lparr>r_client := up\<rparr>" "one_per_call up" using assms(1) by (auto simp: round_of_def)
  have "get_block_batch (r\<lparr>r_client := up\<rparr>) (er_legs rd) [n] req = Some (Inr cs)"
    using assms(3) up by (auto simp: reacquire_def run_bind_Inr)
  from get_block_batch_sound [OF _ _ this, of u] up assms(2)
  have "length cs \<le> 1" "list_all2 (sound (r\<lparr>r_client := up\<rparr>) u) (take (length cs) [n]) cs"
    "list_all (\<lambda>c. is_invalid c \<or> complete c req) cs" by simp_all
  then show ?thesis by (cases cs) (auto simp: sound_client)
qed

lemma residual_request_Some:
  assumes "residual_request bs not_ready streak req = Some q"
  shows "not_ready \<and> (\<exists>b rest. bs = b # rest \<and> q = missing_legs b req)"
  using assms by (auto simp: residual_request_def front_block_def Let_def split: if_splits list.splits option.splits)

lemma decide_residual:
  assumes "decide opts req n s = Again delay deadline (Some q)"
  shows "\<exists>b rest. es_blocks s = b # rest \<and> q = missing_legs b req \<and> is_not_ready b"
  using assms
  by (auto simp: decide_def Let_def front_block_def split: option.splits if_splits list.splits dest!: residual_request_Some)

lemma reacquire_in_hand:
  assumes "round_of r rd" "ready r u" "in_hand r u n req (es_blocks s)"
    and "decide opts req n s = Again delay deadline residual"
    and "reacquire rd n req residual (es_blocks s) = Some (Inr (cs, legs))"
  shows "in_hand r u n req cs"
proof (cases residual)
  case None
  then show ?thesis using reacquire_whole [OF assms(1,2)] assms(5) by blast
next
  case (Some q)
  then obtain b rest where b: "es_blocks s = b # rest" "q = missing_legs b req" "is_not_ready b"
    using decide_residual assms(4) by blast
  have "rest = []" "sound r u n b" using assms(3) b(1) by (cases rest; simp)+
  then show ?thesis
    using reacquire_residual [OF assms(1,2), of n b] assms(5) b Some by (auto simp: incoherent_def)
qed

lemma enrich_loop_ready:
  assumes "ready r u"
  shows "(\<And>k. round_of r (rounds k)) \<Longrightarrow> in_hand r u n req (es_blocks s) \<Longrightarrow> fst (enrich_loop opts req n rounds s) = Some (Inr (b, p)) \<Longrightarrow>
    \<not> is_invalid b \<and> sound r u n b \<and> complete b req"
proof (induction opts req n rounds s rule: enrich_loop.induct)
  case (1 opts req n rounds s)
  show ?case
  proof (cases "decide opts req n s")
    case (Ready b' p')
    then have "b' = b" using "1.prems"(3) by (simp add: enrich_loop.simps [of opts])
    moreover obtain rest where "es_blocks s = b' # rest" "\<not> is_invalid b'"
      using Ready by (auto simp: decide_def Let_def front_block_def split: option.splits if_splits list.splits)
    ultimately show ?thesis using "1.prems"(2) by (cases rest) auto
  next
    case (GiveUp e)
    then show ?thesis using "1.prems"(3) by (simp add: enrich_loop.simps [of opts])
  next
    case (Again delay deadline residual)
    let ?rd = "rounds (es_round s)"
    obtain cs legs where re: "\<not> timed_out deadline (es_now s + delay + er_took ?rd)"
        "reacquire ?rd n req residual (es_blocks s) = Some (Inr (cs, legs))"
        "fst (enrich_loop opts req n rounds (advance delay deadline residual (er_took ?rd) (cs, legs) s)) = Some (Inr (b, p))"
      using "1.prems"(3) Again
      by (auto simp: enrich_loop.simps [of opts req n rounds s] Let_def split: if_splits option.splits sum.splits prod.splits)
    have "in_hand r u n req cs" by (rule reacquire_in_hand [OF "1.prems"(1) assms "1.prems"(2) Again re(2)])
    then show ?thesis using "1.IH" [OF Again _ _ re(1) re(2)] re(3) "1.prems"(1) by (simp add: advance_def)
  qed
qed

lemma reacquire_returns:
  assumes "round_of r rd" "ready r u"
  shows "reacquire rd n req residual bs \<noteq> None"
proof -
  obtain up where up: "er_rpc rd = r\<lparr>r_client := up\<rparr>" "one_per_call up" using assms(1) by (auto simp: round_of_def)
  show ?thesis
    using fetch_and_apply_returns [of "er_rpc rd" u] get_block_batch_returns [of "er_rpc rd" u] up assms(2)
    by (cases residual) (simp_all add: reacquire_def run_bind_None del: not_None_eq)
qed

subsection \<open>The budgets\<close>

definition passes_bound :: "rpc_options \<Rightarrow> enrich_state \<Rightarrow> nat" where
  "passes_bound opts s =
     (P_ENRICH_RETRIES - es_incoherent_retries s) +
     ((case es_deadline s of Some d \<Rightarrow> d - es_now s | None \<Rightarrow> not_ready_budget opts) + (NOT_READY_DELAY - 1)) div NOT_READY_DELAY"

lemma advance_passes_bound:
  assumes "decide opts req n s = Again delay deadline residual"
    and "\<not> timed_out deadline (es_now s + delay + took)"
  shows "Suc (passes_bound opts (advance delay deadline residual took fetched s)) \<le> passes_bound opts s"
proof -
  have step: "(d - (now + 100 + took) + 99) div 100 + 1 \<le> (d - now + 99) div 100" if "now < d" for d now :: nat
  proof -
    let ?x = "d - (now + 100 + took)"
    have "?x + 199 \<le> d - now + 99 \<or> ?x = 0" by linarith
    moreover have "1 \<le> (d - now + 99) div 100" using that by (simp add: Suc_le_eq div_greater_zero_iff)
    moreover have "(?x + 199) div 100 = (?x + 99) div 100 + 1" using div_add_self1 [of 100 "?x + 99"] by simp
    ultimately show ?thesis using div_le_mono [of "?x + 199" "d - now + 99" 100] by auto
  qed
  have mono: "(d - (now + 50 + took) + 99) div 100 \<le> (d - now + 99) div 100" for d now :: nat
    by (intro div_le_mono) simp
  show ?thesis
    using decide_again [OF assms(1)] step [of "es_now s"] step [of 0 "not_ready_budget opts"] mono [of _ "es_now s"]
    by (auto simp: passes_bound_def advance_def NOT_READY_DELAY_def P_ENRICH_DELAY_def or_else_def Suc_diff_Suc
        split: option.splits)
qed

lemma enrich_loop_bounded:
  assumes "ready r u"
  shows "(\<And>k. round_of r (rounds k)) \<Longrightarrow>
    fst (enrich_loop opts req n rounds s) \<noteq> None \<and> length (snd (enrich_loop opts req n rounds s)) \<le> passes_bound opts s + 1"
proof (induction opts req n rounds s rule: enrich_loop.induct)
  case (1 opts req n rounds s)
  show ?case
  proof (cases "decide opts req n s")
    case (Again delay deadline residual)
    let ?rd = "rounds (es_round s)"
    have "reacquire ?rd n req residual (es_blocks s) \<noteq> None" using reacquire_returns "1.prems" assms by blast
    then obtain out where out: "reacquire ?rd n req residual (es_blocks s) = Some out" by blast
    have pos: "Suc 0 \<le> passes_bound opts s"
      using decide_again [OF Again]
      by (auto simp: passes_bound_def NOT_READY_DELAY_def or_else_def Suc_le_eq div_greater_zero_iff split: option.splits)
    consider (cut) "timed_out deadline (es_now s + delay + er_took ?rd)"
      | (error) e where "\<not> timed_out deadline (es_now s + delay + er_took ?rd)" "out = Inl e"
      | (answered) x where "\<not> timed_out deadline (es_now s + delay + er_took ?rd)" "out = Inr x"
      by (cases out) auto
    then show ?thesis
    proof cases
      case answered
      let ?s' = "advance delay deadline residual (er_took ?rd) x s"
      have "fst (enrich_loop opts req n rounds ?s') \<noteq> None \<and>
          length (snd (enrich_loop opts req n rounds ?s')) \<le> passes_bound opts ?s' + 1"
        using "1.IH" [OF Again refl refl answered(1) out answered(2) "1.prems"] .
      moreover have "Suc (passes_bound opts ?s') \<le> passes_bound opts s" by (rule advance_passes_bound [OF Again answered(1)])
      ultimately show ?thesis
        using answered out by (auto simp: enrich_loop.simps [of opts req n rounds s] Again Let_def split: prod.splits)
    qed (use pos out in \<open>simp_all add: enrich_loop.simps [of opts req n rounds s] Again Let_def\<close>)
  qed (simp_all add: enrich_loop.simps [of opts])
qed

text \<open>What the enrichment of a polled body delivers.\<close>

lemma enrich_delivers:
  assumes "ready r u" "one_per_call (r_client r)" "\<And>k. round_of r (rounds k)"
    and "get_single_block r n = Some (Inr (Some body))" "\<not> is_invalid body"
    and "fst (enrich_block_with_retry opts rounds start body req) = Some (Inr (b, p))"
  shows "\<not> is_invalid b \<and> header_good r u n b \<and> complete b req \<and> legs_fit r u b"
proof -
  have body: "sound r u n body"
  proof -
    obtain obs where obs: "get_blocks r [n] True = Some (Inr obs)" "(case obs of [] \<Rightarrow> None | b # _ \<Rightarrow> b) = Some body"
      using assms(4) by (auto simp: get_single_block_def run_bind_Inr)
    with get_blocks_sound [OF assms(2,1) obs(1)] show ?thesis by (auto split: list.splits)
  qed
  have num: "raw_number body = n" using body assms(5) by (simp add: sound_def header_good_def incoherent_def)
  have "\<not> is_invalid b \<and> sound r u n b \<and> complete b req"
  proof (cases "wants_data req")
    case False
    then show ?thesis
      using assms(5,6) body
      by (auto simp: enrich_block_with_retry_def wants_data_def complete_def no_traces_in_hand)
  next
    case True
    let ?rd = "rounds 0"
    obtain bs legs where bs: "add_requested_data (er_rpc ?rd) (er_legs ?rd) [body] req = Some (Inr (bs, legs))"
      and loop: "fst (enrich_loop opts req n rounds
        \<lparr>es_blocks = bs, es_legs = legs, es_profile = enrich_profile_default\<lparr>attempts := 1\<rparr>,
         es_incoherent_retries = 0, es_deadline = None, es_streak = 0,
         es_now = start + er_took ?rd, es_round = 1\<rparr>) = Some (Inr (b, p))"
      using assms(6) True num
      by (auto simp: enrich_block_with_retry_def Let_def split: option.splits sum.splits prod.splits)
    obtain up where up: "er_rpc ?rd = r\<lparr>r_client := up\<rparr>" "one_per_call up"
      using assms(3) [of 0] by (auto simp: round_of_def)
    have "list_all2 (grows (er_rpc ?rd) u) [body] bs \<and> list_all (\<lambda>c. is_invalid c \<or> complete c req) bs"
      using bs up assms(1) by (intro fetch_and_apply_grow [of _ _ "er_legs ?rd" _ _ _ legs])
        (auto simp: add_requested_data_def run_bind_Inr)
    then obtain c where c: "bs = [c]" "grows (r\<lparr>r_client := up\<rparr>) u body c" "is_invalid c \<or> complete c req"
      using in_hand_single [of "er_rpc ?rd" u body bs] up by auto
    have "in_hand r u n req bs"
      using c sound_grows [OF _ c(2), of n] body by (simp add: sound_client)
    then show ?thesis using enrich_loop_ready [OF assms(1,3) _ loop] by simp
  qed
  then show ?thesis by (auto simp: sound_def incoherent_def)
qed



subsection \<open>Samples\<close>

definition sample_rpc_options :: rpc_options where
  "sample_rpc_options =
     \<lparr>finality_confirmation = None, opt_finalized_head_ttl = None, opt_not_ready_budget = None,
      verify_block_hash = False, verify_tx_sender = False, verify_tx_root = False, verify_receipts_root = False,
      verify_withdrawals_root = False, verify_logs_bloom = False, call_frame_validation = Off,
      check_log_index = True, check_cumulative_gas_used = False, opt_use_gas_used_for_receipts_root = False\<rparr>"

definition sample_decoders :: decoders where
  "sample_decoders =
     \<lparr>de_block = (\<lambda>v. Inr ((sample_header ''0xab'' [])\<lparr>rb_number := ''0x7'', rb_hash := ''0xaa'', rb_logs_bloom := ''0x00''\<rparr>)),
      de_logs = (\<lambda>v. Inr []), de_receipts = (\<lambda>v. Inr []), de_receipt = (\<lambda>v. Inl []), de_debug_frame = (\<lambda>v. Inl []),
      de_debug_diff = (\<lambda>v. Inl []), de_replay = (\<lambda>v. Inl []), de_trace_frame = (\<lambda>v. Inl [])\<rparr>"

definition sample_upstream :: upstream where
  "sample_upstream =
     \<lparr>up_call = (\<lambda>c opts. Inr (JArray [])), up_batch = (\<lambda>calls opts. Inr (map (\<lambda>c. Inr (JObject [])) calls))\<rparr>"

definition sample_rpc :: rpc where
  "sample_rpc =
     \<lparr>r_options = sample_rpc_options, r_client = sample_upstream, r_chain_utils = Some (chain_utils_new 1 False),
      r_receipts_method = None, r_de = sample_decoders, r_lib = sample_lib, r_split = Piece\<rparr>"

definition sample_data_request :: data_request where
  "sample_data_request =
     \<lparr>req_logs = True, req_receipts = False, req_traces = False, req_state_diffs = False, req_use_trace_api = False,
      req_use_debug_api_for_state_diffs = False, req_use_debug_trace_block_by_number = False,
      req_debug_trace_timeout = None\<rparr>"

definition sample_round :: enrich_round where
  "sample_round = \<lparr>er_rpc = sample_rpc, er_took = 5, er_legs = leg_durations_default\<rparr>"

definition sample_body :: raw_rpc_block where
  "sample_body = raw_rpc_block_new 7 ''0xaa''
     ((sample_header ''0xab'' [])\<lparr>rb_number := ''0x7'', rb_hash := ''0xaa'', rb_logs_bloom := ''0x00''\<rparr>)"

lemma sample_rounds: "ready sample_rpc (chain_utils_new 1 False)" "one_per_call (r_client sample_rpc)" "round_of sample_rpc sample_round"
proof -
  show "ready sample_rpc (chain_utils_new 1 False)" by (simp add: ready_def sample_rpc_def)
  show one: "one_per_call (r_client sample_rpc)" by (auto simp: one_per_call_def sample_rpc_def sample_upstream_def)
  show "round_of sample_rpc sample_round"
    unfolding round_of_def by (intro exI [of _ "r_client sample_rpc"]) (simp add: sample_round_def one)
qed

lemma sample_poll: "get_single_block sample_rpc 7 = Some (Inr (Some sample_body))"
  by (simp add: get_single_block_def get_blocks_def sample_rpc_def sample_upstream_def get_chain_utils_def positions_def
      block_of_result_def sample_decoders_def sample_rpc_options_def verify_header_def on_def sample_body_def Let_def
      qty2_u64_def from_str_radix16_def strip_0x_def unsigned_digits_def hex_digit_def)

lemma sample_enriched:
  "\<exists>p. fst (enrich_block_with_retry sample_rpc_options (\<lambda>k. sample_round) 0 sample_body sample_data_request) =
     Some (Inr (sample_body\<lparr>raw_logs := Some []\<rparr>, p))"
  by (simp add: enrich_block_with_retry_def wants_data_def sample_data_request_def sample_round_def add_requested_data_def
      validate_request_def validate_def sample_rpc_def sample_rpc_options_def fetch_and_apply_def join_or_err_def
      optional_leg_def fetch_logs_def sample_upstream_def sample_decoders_def apply_leg_def apply_logs_def
      get_chain_utils_def group_logs_def or_else_def apply_block_logs_def sample_body_def raw_rpc_block_new_def
      is_zero_bloom_def strip_0x_def verify_logs_def on_def has_def chain_utils_new_def NETWORKS_def net_def
      map_err_def Let_def enrich_loop.simps decide_def front_block_def)



end
