(* ===== verification/Evm_Ingest.thy ===== *)
theory Evm_Ingest
  imports Evm_Enrich
begin

text \<open>
  The ingest layer (\<open>evm-source/src/ingest.rs\<close>): the cadence predictor, the acquisition of a finalized
  range with its per-block budget, and \<open>ingest_range\<close> with its three modes (strided backfill, speculative
  polling of the head, polling of the finalized head).

  The stream is a machine: \<open>ingest_step\<close> does one iteration of the outer loop or of the polling loop and
  gives its effects in order (a batch handed over, an error, a report to the metrics).  An event holds
  what the environment contributes to one iteration: the client's answers, the readings of the clock and
  what the spawned tasks meet.  A task is its eventual result: tasks only run ahead of the order in which
  they are awaited.  Instants and durations are milliseconds.
\<close>

record evm_ingest_batch =
  ib_blocks :: "block list"
  ib_finalized :: "block_ref option"

subsection \<open>Cadence\<close>

definition INTERVAL_WINDOW :: nat where "INTERVAL_WINDOW = 8"
definition HOT_WINDOW_MS :: u64 where "HOT_WINDOW_MS = 600"
definition HOT_POLL_MS :: u64 where "HOT_POLL_MS = 25"
definition QUIET_SLEEP_CAP_MS :: u64 where "QUIET_SLEEP_CAP_MS = 1000"
definition NO_DATA_POLL_MS :: u64 where "NO_DATA_POLL_MS = 100"

record cadence_predictor =
  cp_intervals :: "u64 list"
  cp_last_arrival :: "instant option"

definition cadence_new :: cadence_predictor where
  "cadence_new = \<lparr>cp_intervals = [], cp_last_arrival = None\<rparr>"

definition millis_since :: "instant \<Rightarrow> instant \<Rightarrow> u64" where
  "millis_since now earlier = (if now - earlier < 2 ^ 64 then of_nat (now - earlier) else u64_max)"

definition record_block :: "instant \<Rightarrow> cadence_predictor \<Rightarrow> cadence_predictor" where
  "record_block now c =
     (let intervals =
        (case cp_last_arrival c of
           Some earlier \<Rightarrow>
             (if length (cp_intervals c) = INTERVAL_WINDOW then tl (cp_intervals c) else cp_intervals c) @
             [millis_since now earlier]
         | None \<Rightarrow> cp_intervals c)
      in c\<lparr>cp_intervals := intervals, cp_last_arrival := Some now\<rparr>)"

definition record_polled_block :: "instant \<Rightarrow> bool \<Rightarrow> cadence_predictor \<Rightarrow> cadence_predictor" where
  "record_polled_block now followed_empty_poll c = (if followed_empty_poll then record_block now c else c)"

definition next_poll_delay :: "instant \<Rightarrow> cadence_predictor \<Rightarrow> u64" where
  "next_poll_delay now c =
     (case (cp_last_arrival c, cp_intervals c) of
        (Some earlier, i # is) \<Rightarrow>
          let floor_ms = fold min is i;
              remaining = saturating_sub floor_ms (millis_since now earlier);
              sleep_ms = (if remaining > HOT_WINDOW_MS then min (remaining - HOT_WINDOW_MS) QUIET_SLEEP_CAP_MS
                          else HOT_POLL_MS)
          in max sleep_ms HOT_POLL_MS
      | _ \<Rightarrow> NO_DATA_POLL_MS)"

subsection \<open>Mapping\<close>

text \<open>\<open>mapper\<close> is \<open>map_raw_block\<close> with the options and the clock of the run.\<close>

type_synonym mapper = "raw_rpc_block \<Rightarrow> acquisition_timings option \<Rightarrow> string + block"

definition map_blocks_cpu :: "mapper \<Rightarrow> raw_rpc_block list \<Rightarrow> acquisition_timings list option \<Rightarrow> anyhow + block list" where
  "map_blocks_cpu mapper raws ts =
     map_err Message (collect (map (\<lambda>(i, raw). mapper raw (Option.bind ts (\<lambda>v. vec_get v i)))
       (zip [0..<length raws] raws)))"

definition map_range_prefix :: "mapper \<Rightarrow> raw_rpc_block list \<Rightarrow> anyhow option \<Rightarrow> anyhow + block list" where
  "map_range_prefix mapper raws acquisition_failure =
     (case map_blocks_cpu mapper raws None of
        Inr bs \<Rightarrow> Inr bs
      | Inl mapping_error \<Rightarrow>
          (case acquisition_failure of
             Some acquisition_error \<Rightarrow>
               Inl (Message (display_chain acquisition_error @
                 ''; failed to map the complete prefix below that fault: '' @ display_chain mapping_error))
           | None \<Rightarrow> Inl mapping_error))"

subsection \<open>Range acquisition\<close>

record range_acquisition =
  ra_blocks :: "raw_rpc_block list"
  ra_failure :: "anyhow option"

definition range_candidate_issue :: "raw_rpc_block option \<Rightarrow> u64 \<Rightarrow> string option \<Rightarrow> string option" where
  "range_candidate_issue candidate n parent =
     (case candidate of
        None \<Rightarrow> Some ''block not available''
      | Some c \<Rightarrow>
          if raw_number c \<noteq> n
          then Some (''requested block '' @ show_u64 n @ '', upstream returned '' @ show_u64 (raw_number c))
          else if is_invalid c then Some (or_else (error_message c) ''incoherent block'')
          else
            case parent of
              Some p \<Rightarrow>
                if \<not> eq_ignore_ascii_case p (rb_parent_hash (raw_block c))
                then Some (''parent hash mismatch: expected '' @ p @ '', got '' @ rb_parent_hash (raw_block c))
                else None
            | None \<Rightarrow> None)"

text \<open>\<open>fetch k ns\<close> is the answer of the \<open>k\<close>-th batch acquisition of a range.\<close>

type_synonym fetcher = "nat \<Rightarrow> u64 list \<Rightarrow> raw_rpc_block list run"

datatype acquired = Got raw_rpc_block | Lost anyhow "fetch_report list" | Panicked

function acquire_block ::
    "fetcher \<Rightarrow> u64 \<Rightarrow> string option \<Rightarrow> nat \<Rightarrow> raw_rpc_block option \<Rightarrow> nat \<Rightarrow> acquired \<times> nat" where
  "acquire_block fetch n parent retries candidate k =
     (case range_candidate_issue candidate n parent of
        None \<Rightarrow> (case candidate of Some c \<Rightarrow> (Got c, k) | None \<Rightarrow> (Panicked, k))
      | Some reason \<Rightarrow>
          if retries \<ge> P_ENRICH_RETRIES then
            (Lost (Message (''failed to acquire block '' @ show_u64 n @ '' after '' @ decimal P_ENRICH_RETRIES @
                            '' retries: '' @ reason)) [AcquisitionRetryExhausted], k)
          else
            case fetch k [n] of
              None \<Rightarrow> (Panicked, Suc k)
            | Some (Inl e) \<Rightarrow>
                (Lost (Context (''failed to re-acquire block '' @ show_u64 n @ '' in range acquisition'') e) [], Suc k)
            | Some (Inr bs) \<Rightarrow> acquire_block fetch n parent (Suc retries) (front_block bs) (Suc k))"
  by pat_completeness auto

termination acquire_block
  by (relation "measure (\<lambda>(fetch, n, parent, retries, candidate, k). P_ENRICH_RETRIES - retries)")
     (auto simp: P_ENRICH_RETRIES_def)

declare acquire_block.simps [simp del]

text \<open>The pause before a retry: none before the first fetch of a block the initial batch did not reach.\<close>

definition retry_delay :: "nat \<Rightarrow> bool \<Rightarrow> duration" where
  "retry_delay retries initial_batch_was_short = (if retries = 0 \<and> initial_batch_was_short then 0 else P_ENRICH_DELAY)"

fun acquire_numbers ::
    "fetcher \<Rightarrow> u64 list \<Rightarrow> raw_rpc_block list \<Rightarrow> raw_rpc_block list \<Rightarrow> nat \<Rightarrow>
     (range_acquisition \<times> fetch_report list \<times> nat) option" where
  "acquire_numbers fetch [] initial done_blocks k = Some (\<lparr>ra_blocks = done_blocks, ra_failure = None\<rparr>, [], k)"
| "acquire_numbers fetch (n # ns) initial done_blocks k =
     (case acquire_block fetch n (map_option raw_hash (vec_last done_blocks)) 0 (front_block initial) k of
        (Got c, k') \<Rightarrow> acquire_numbers fetch ns (tl initial) (done_blocks @ [c]) k'
      | (Lost e reports, k') \<Rightarrow> Some (\<lparr>ra_blocks = done_blocks, ra_failure = Some e\<rparr>, reports, k')
      | (Panicked, k') \<Rightarrow> None)"

definition acquire_range_stride ::
    "fetcher \<Rightarrow> u64 list \<Rightarrow> (range_acquisition \<times> fetch_report list \<times> nat) option" where
  "acquire_range_stride fetch numbers =
     (if numbers = [] then None
      else
        case fetch 0 numbers of
          None \<Rightarrow> None
        | Some (Inl e) \<Rightarrow>
            Some (\<lparr>ra_blocks = [], ra_failure = Some (Context ''failed to acquire range stride'' e)\<rparr>, [], 1)
        | Some (Inr initial) \<Rightarrow> acquire_numbers fetch numbers initial [] 1)"

subsection \<open>Strides\<close>

definition incl_range :: "u64 \<Rightarrow> u64 \<Rightarrow> u64 list" where
  "incl_range s e = map (\<lambda>i. s + of_nat i) [0..<Suc (unat e) - unat s]"

partial_function (option) stride_ranges :: "nat \<Rightarrow> u64 \<Rightarrow> u64 \<Rightarrow> (u64 \<times> u64) list option" where
  "stride_ranges stride_size start tip =
     (if start \<le> tip then
        let end_stride = min (start + of_nat stride_size - 1) tip
        in Option.bind (stride_ranges stride_size (end_stride + 1) tip) (\<lambda>rs. Some ((start, end_stride) # rs))
      else Some [])"

text \<open>The effects of the stream, in order.\<close>

datatype ingest_effect = Yield evm_ingest_batch | Fail anyhow | Report fetch_report

record ingest_config =
  ic_from :: u64
  ic_to :: "u64 option"
  ic_stride_size :: nat
  ic_stride_concurrency :: nat
  ic_commitment :: string
  ic_profile :: bool
  ic_req :: data_request
  ic_options :: rpc_options
  ic_mapper :: mapper
  ic_join_error :: anyhow

definition ic_end :: "ingest_config \<Rightarrow> u64" where
  "ic_end cfg = or_else (ic_to cfg) u64_max"

text \<open>
  A stride as a spawned task: its result, or the error of the join when it panicked.  \<open>strides s\<close> answers
  the task that starts at \<open>s\<close>.
\<close>

definition spawn_stride ::
    "ingest_config \<Rightarrow> (u64 \<Rightarrow> fetcher) \<Rightarrow> u64 \<times> u64 \<Rightarrow> anyhow + (range_acquisition \<times> fetch_report list)" where
  "spawn_stride cfg strides = (\<lambda>(s, e).
     case acquire_range_stride (strides s) (incl_range s e) of
       None \<Rightarrow> Inl (ic_join_error cfg)
     | Some (acq, reports, _) \<Rightarrow> Inr (acq, reports))"

text \<open>What is done with an acquired range: the prefix is mapped and handed over, then a failure ends the stream.\<close>

definition neither :: "string \<Rightarrow> u64 \<Rightarrow> anyhow" where
  "neither what s = Message (what @ '' acquisition at block '' @ show_u64 s @ '' returned neither blocks nor failure'')"

definition deliver_range ::
    "ingest_config \<Rightarrow> anyhow \<Rightarrow> range_acquisition \<Rightarrow> (raw_rpc_block \<Rightarrow> block_ref option) \<Rightarrow>
     ingest_effect list \<times> u64 option" where
  "deliver_range cfg no_failure acq report_of =
     (case ra_blocks acq of
        [] \<Rightarrow> ([Fail (or_else (ra_failure acq) no_failure)], None)
      | raws \<Rightarrow>
          (case map_range_prefix (ic_mapper cfg) raws (ra_failure acq) of
             Inl e \<Rightarrow> ([Fail e], None)
           | Inr bs \<Rightarrow>
               let batch = Yield \<lparr>ib_blocks = bs, ib_finalized = report_of (last raws)\<rparr>
               in case ra_failure acq of
                    Some e \<Rightarrow> ([batch, Fail e], None)
                  | None \<Rightarrow> ([batch], Some (raw_number (last raws) + 1))))"

text \<open>
  The pipeline of the backfill: \<open>pending\<close> are the strides in flight, \<open>ranges\<close> those not spawned yet.
\<close>

function backfill_loop ::
    "ingest_config \<Rightarrow> (u64 \<Rightarrow> fetcher) \<Rightarrow> block_ref option \<Rightarrow> (u64 \<times> u64) list \<Rightarrow> (u64 \<times> u64) list \<Rightarrow> u64 \<Rightarrow>
     ingest_effect list \<times> u64 option" where
  "backfill_loop cfg strides finalized_ref [] ranges beg = ([], Some beg)"
| "backfill_loop cfg strides finalized_ref (front # pending) ranges beg =
     (case spawn_stride cfg strides front of
        Inl e \<Rightarrow> ([Fail e], None)
      | Inr (acq, reports) \<Rightarrow>
          (case deliver_range cfg (neither ''range'' (fst front)) acq (\<lambda>_. finalized_ref) of
             (effects, None) \<Rightarrow> (map Report reports @ effects, None)
           | (effects, Some beg') \<Rightarrow>
               let (rest, out) =
                 (case ranges of
                    [] \<Rightarrow> backfill_loop cfg strides finalized_ref pending [] beg'
                  | nxt # ranges' \<Rightarrow> backfill_loop cfg strides finalized_ref (pending @ [nxt]) ranges' beg')
               in (map Report reports @ effects @ rest, out)))"
  by pat_completeness auto

termination backfill_loop
  by (relation "measure (\<lambda>(cfg, strides, f, pending, ranges, beg). length pending + length ranges)") auto

definition backfill ::
    "ingest_config \<Rightarrow> (u64 \<Rightarrow> fetcher) \<Rightarrow> block_ref option \<Rightarrow> (u64 \<times> u64) list \<Rightarrow> u64 \<Rightarrow> ingest_effect list \<times> u64 option" where
  "backfill cfg strides finalized_ref ranges beg =
     (let c = max (ic_stride_concurrency cfg) 1
      in backfill_loop cfg strides finalized_ref (take c ranges) (drop c ranges) beg)"

subsection \<open>Polling the head\<close>

type_synonym enrich_task = "anyhow + (anyhow + block list)"

record spec_state =
  sp_next_num :: u64
  sp_pending :: "(u64 \<times> enrich_task) list"
  sp_hot_streak :: nat
  sp_incoherent_attempts :: nat
  sp_null_polls :: "32 word"

definition PIPELINE_DEPTH :: nat where "PIPELINE_DEPTH = 3"

datatype ingest_mode = Outer | Polling spec_state | Finished

record ingest_state =
  is_beg :: u64
  is_poll_head :: "u64 option"
  is_poll_last_read :: "u64 option"
  is_cadence :: cadence_predictor
  is_last_empty_poll :: "instant option"
  is_last_arrival :: "instant option"
  is_consumer_blocked :: duration
  is_speculative_next :: "u64 option"
  is_mode :: ingest_mode

definition ingest_init :: "ingest_config \<Rightarrow> ingest_state" where
  "ingest_init cfg =
     \<lparr>is_beg = ic_from cfg, is_poll_head = None, is_poll_last_read = None, is_cadence = cadence_new,
      is_last_empty_poll = None, is_last_arrival = None, is_consumer_blocked = 0, is_speculative_next = None,
      is_mode = Outer\<rparr>"

text \<open>
  What one iteration of the polling loop meets: the client of the poll, the clock, the rounds of the
  enrichment it may spawn, whether that task is lost, whether the front task ends within the pause, and
  how long the consumer takes for the \<open>i\<close>-th batch of the iteration.
\<close>

record poll_event =
  pe_rpc :: rpc
  pe_poll_at :: instant
  pe_now :: instant
  pe_delay_now :: instant
  pe_rounds :: "nat \<Rightarrow> enrich_round"
  pe_enrich_done :: instant
  pe_task_lost :: bool
  pe_front_done :: bool
  pe_handoff :: "nat \<Rightarrow> duration"

definition acquisition_timings_of ::
    "poll_event \<Rightarrow> enrich_profile \<Rightarrow> (instant \<times> 32 word \<times> instant) option \<Rightarrow> acquisition_timings list option" where
  "acquisition_timings_of ev profile acquired_at =
     map_option (\<lambda>(issued, nulls, received).
       [\<lparr>at_poll_issued = issued, at_null_polls = nulls, at_body_received = received,
         at_enrich_done = pe_enrich_done ev, at_enrich_profile = profile\<rparr>]) acquired_at"

definition spawn_enrich ::
    "ingest_config \<Rightarrow> poll_event \<Rightarrow> raw_rpc_block \<Rightarrow> (instant \<times> 32 word \<times> instant) option \<Rightarrow>
     enrich_task \<times> fetch_report list" where
  "spawn_enrich cfg ev body acquired_at =
     (if pe_task_lost ev then (Inl (ic_join_error cfg), [])
      else
        let (out, reports) = enrich_block_with_retry (ic_options cfg) (pe_rounds ev) (pe_now ev) body (ic_req cfg)
        in (case out of
              None \<Rightarrow> Inl (ic_join_error cfg)
            | Some (Inl e) \<Rightarrow> Inr (Inl e)
            | Some (Inr (b, profile)) \<Rightarrow>
                Inr (map_blocks_cpu (ic_mapper cfg) [b] (acquisition_timings_of ev profile acquired_at)), reports))"

definition task_value :: "enrich_task \<Rightarrow> anyhow + block list" where
  "task_value t = bind_result t (\<lambda>v. v)"

definition head_batch :: "block list \<Rightarrow> ingest_effect" where
  "head_batch bs = Yield \<lparr>ib_blocks = bs, ib_finalized = None\<rparr>"

text \<open>Awaiting the front of the pipeline while the condition asks for it; \<open>None\<close> when an error ended the stream.\<close>

fun drain_while :: "(nat \<Rightarrow> bool) \<Rightarrow> (u64 \<times> enrich_task) list \<Rightarrow> ingest_effect list \<times> (u64 \<times> enrich_task) list option" where
  "drain_while full [] = ([], Some [])"
| "drain_while full ((n, t) # pending) =
     (if full (Suc (length pending)) then
        (case task_value t of
           Inl e \<Rightarrow> ([Fail e], None)
         | Inr bs \<Rightarrow> let (effects, rest) = drain_while full pending in (head_batch bs # effects, rest))
      else ([], Some ((n, t) # pending)))"

definition handed_over :: "poll_event \<Rightarrow> ingest_effect list \<Rightarrow> duration" where
  "handed_over ev effects = sum_list (map (pe_handoff ev) [0..<length effects])"

text \<open>Delivering what is in flight before giving up on a block: the batches, and the first failure met.\<close>

fun drain_failing :: "(u64 \<times> enrich_task) list \<Rightarrow> ingest_effect list \<times> string option" where
  "drain_failing [] = ([], None)"
| "drain_failing ((n, t) # pending) =
     (case t of
        Inr (Inr bs) \<Rightarrow> let (effects, failure) = drain_failing pending in (head_batch bs # effects, failure)
      | Inr (Inl e) \<Rightarrow> ([], Some (''block '' @ show_u64 n @ '' enrichment failed: '' @ display_chain e))
      | Inl e \<Rightarrow> ([], Some (''block '' @ show_u64 n @ '' enrichment task failed: '' @ display e)))"

definition back_to_outer :: "u64 \<Rightarrow> ingest_state \<Rightarrow> ingest_state" where
  "back_to_outer next_num st = st\<lparr>is_speculative_next := Some next_num, is_beg := next_num, is_mode := Outer\<rparr>"

definition polled_block ::
    "ingest_config \<Rightarrow> poll_event \<Rightarrow> raw_rpc_block \<Rightarrow> spec_state \<Rightarrow> ingest_state \<Rightarrow> ingest_effect list \<times> ingest_state" where
  "polled_block cfg ev body sp st =
     (let empty_at = is_last_empty_poll st;
          followed = (empty_at \<noteq> None);
          reports =
            [UpstreamHead (sp_next_num sp)] @
            (case empty_at of
               Some e \<Rightarrow> [HeadDetectionGap ((pe_poll_at ev - e) - is_consumer_blocked st)] | None \<Rightarrow> []) @
            (if followed then
               (case is_last_arrival st of Some prev \<Rightarrow> [HeadInterval (pe_now ev - prev)] | None \<Rightarrow> [])
             else []);
          acquired_at = (if ic_profile cfg then Some (pe_poll_at ev, sp_null_polls sp, pe_now ev) else None);
          (task, task_reports) = spawn_enrich cfg ev body acquired_at
      in (map Report (reports @ task_reports),
          st\<lparr>is_last_empty_poll := None,
             is_cadence := record_polled_block (pe_now ev) followed (is_cadence st),
             is_last_arrival := (if followed then Some (pe_now ev) else is_last_arrival st),
             is_mode := Polling
               \<lparr>sp_next_num = sp_next_num sp + 1, sp_pending = sp_pending sp @ [(sp_next_num sp, task)],
                sp_hot_streak = Suc (sp_hot_streak sp), sp_incoherent_attempts = 0, sp_null_polls = 0\<rparr>\<rparr>))"

definition polled_incoherent ::
    "raw_rpc_block \<Rightarrow> spec_state \<Rightarrow> ingest_state \<Rightarrow> ingest_effect list \<times> ingest_state" where
  "polled_incoherent body sp st =
     (let reason = or_else (error_message body) ''incoherent block''
      in if sp_incoherent_attempts sp \<ge> P_ENRICH_RETRIES then
           let (effects, failure) = drain_failing (sp_pending sp);
               drain_context = (case failure of Some f \<Rightarrow> ''; while draining earlier blocks: '' @ f | None \<Rightarrow> [])
           in ([Report AcquisitionRetryExhausted] @ effects @
               [Fail (Message (''failed to acquire block '' @ show_u64 (sp_next_num sp) @ '' after '' @
                  decimal P_ENRICH_RETRIES @ '' retries: '' @ reason @ drain_context))],
               st\<lparr>is_last_empty_poll := None, is_mode := Finished\<rparr>)
         else
           ([], st\<lparr>is_last_empty_poll := None,
                  is_mode := Polling (sp\<lparr>sp_hot_streak := 0, sp_incoherent_attempts := Suc (sp_incoherent_attempts sp)\<rparr>)\<rparr>))"

definition polled_nothing ::
    "poll_event \<Rightarrow> spec_state \<Rightarrow> ingest_state \<Rightarrow> ingest_effect list \<times> ingest_state" where
  "polled_nothing ev sp st =
     (let reports = (if sp_next_num sp = 0 then [] else [Report (UpstreamHead (sp_next_num sp - 1))]);
          sp = sp\<lparr>sp_hot_streak := 0, sp_null_polls := sat_inc32 (sp_null_polls sp)\<rparr>;
          st = st\<lparr>is_last_empty_poll := Some (pe_poll_at ev), is_consumer_blocked := 0\<rparr>
      in case sp_pending sp of
           [] \<Rightarrow> (reports, st\<lparr>is_mode := Polling sp\<rparr>)
         | (n, t) # pending \<Rightarrow>
             if pe_front_done ev then
               (case task_value t of
                  Inl e \<Rightarrow> (reports @ [Fail e], st\<lparr>is_mode := Finished\<rparr>)
                | Inr bs \<Rightarrow>
                    (reports @ [head_batch bs],
                     st\<lparr>is_consumer_blocked := pe_handoff ev 0, is_mode := Polling (sp\<lparr>sp_pending := pending\<rparr>)\<rparr>))
             else (reports, st\<lparr>is_mode := Polling sp\<rparr>))"

definition poll_head_block ::
    "ingest_config \<Rightarrow> poll_event \<Rightarrow> spec_state \<Rightarrow> ingest_state \<Rightarrow> ingest_effect list \<times> ingest_state" where
  "poll_head_block cfg ev sp st =
     (case get_single_block (pe_rpc ev) (sp_next_num sp) of
        None \<Rightarrow> ([], st\<lparr>is_mode := Finished\<rparr>)
      | Some (Inl e) \<Rightarrow> ([Fail e], st\<lparr>is_mode := Finished\<rparr>)
      | Some (Inr (Some body)) \<Rightarrow>
          if \<not> is_invalid body then polled_block cfg ev body sp st else polled_incoherent body sp st
      | Some (Inr None) \<Rightarrow> polled_nothing ev sp st)"

definition spec_iteration ::
    "ingest_config \<Rightarrow> poll_event \<Rightarrow> spec_state \<Rightarrow> ingest_state \<Rightarrow> ingest_effect list \<times> ingest_state" where
  "spec_iteration cfg ev sp st =
     (let over = (sp_next_num sp > ic_end cfg)
      in case drain_while (\<lambda>len. len \<ge> PIPELINE_DEPTH \<or> over) (sp_pending sp) of
           (effects, None) \<Rightarrow> (effects, st\<lparr>is_mode := Finished\<rparr>)
         | (effects, Some pending) \<Rightarrow>
             let sp = sp\<lparr>sp_pending := pending\<rparr>;
                 st = st\<lparr>is_consumer_blocked := is_consumer_blocked st + handed_over ev effects\<rparr>
             in if over then (effects, back_to_outer (sp_next_num sp) st)
                else if sp_hot_streak sp > 2 * ic_stride_size cfg then
                  (case drain_while (\<lambda>len. True) pending of
                     (more_effects, None) \<Rightarrow> (effects @ more_effects, st\<lparr>is_mode := Finished\<rparr>)
                   | (more_effects, Some _) \<Rightarrow> (effects @ more_effects, back_to_outer (sp_next_num sp) st))
                else
                  let (poll_effects, st') = poll_head_block cfg ev sp st in (effects @ poll_effects, st'))"

subsection \<open>The outer loop\<close>

text \<open>
  What one iteration of the outer loop meets: the hint on the finalized head, the answers to the strides
  of a backfill, and, for the finalized poll, the head the upstream reports and the answers of its range.
\<close>

record outer_event =
  oe_hint :: "(u64 \<times> string) option"
  oe_strides :: "u64 \<Rightarrow> fetcher"
  oe_head :: "(anyhow + (u64 \<times> string)) \<times> fetch_report list"
  oe_range :: fetcher

text \<open>The finalized poll: \<open>Inl\<close> an error, \<open>Inr None\<close> a pause, \<open>Inr (Some head)\<close> the head to read up to.\<close>

definition polled_finalized_head ::
    "outer_event \<Rightarrow> ingest_state \<Rightarrow> (anyhow + u64 option) \<times> fetch_report list \<times> ingest_state" where
  "polled_finalized_head ev st =
     (let poll_start = (case is_poll_last_read st of Some l \<Rightarrow> l + 1 | None \<Rightarrow> is_beg st);
          st = (if poll_start \<noteq> is_beg st then st\<lparr>is_poll_last_read := None, is_poll_head := None\<rparr> else st);
          last_read = or_else (is_poll_last_read st) 0
      in if is_poll_last_read st = None \<or>
            (case is_poll_head st of Some h \<Rightarrow> last_read \<ge> h | None \<Rightarrow> True) then
           (case oe_head ev of
              (Inl e, reports) \<Rightarrow> (Inl e, reports, st)
            | (Inr (h, _), reports) \<Rightarrow>
                if is_poll_last_read st \<noteq> None \<and> h \<le> last_read then (Inr None, reports, st)
                else
                  let st = st\<lparr>is_poll_head := Some h\<rparr>
                  in (if h < is_beg st then Inr None else Inr (Some h), reports, st))
         else
           let head = or_else (is_poll_head st) (is_beg st)
           in (if head < is_beg st then Inr None else Inr (Some head), [], st))"

definition finalized_poll :: "ingest_config \<Rightarrow> outer_event \<Rightarrow> ingest_state \<Rightarrow> ingest_effect list \<times> ingest_state" where
  "finalized_poll cfg ev st =
     (case polled_finalized_head ev st of
        (Inl e, reports, st) \<Rightarrow> (map Report reports @ [Fail e], st\<lparr>is_mode := Finished\<rparr>)
      | (Inr None, reports, st) \<Rightarrow> (map Report reports, st)
      | (Inr (Some head), reports, st) \<Rightarrow>
          let beg = is_beg st;
              stride_end = min (min (saturating_add beg (of_nat (ic_stride_size cfg))) head) (ic_end cfg)
          in case acquire_range_stride (oe_range ev) (incl_range beg stride_end) of
               None \<Rightarrow> (map Report reports, st\<lparr>is_mode := Finished\<rparr>)
             | Some (acq, acq_reports, _) \<Rightarrow>
                 (case deliver_range cfg (neither ''finalized poll'' beg) acq
                         (\<lambda>l. Some \<lparr>ref_number = raw_number l, ref_hash = raw_hash l\<rparr>) of
                    (effects, None) \<Rightarrow> (map Report (reports @ acq_reports) @ effects, st\<lparr>is_mode := Finished\<rparr>)
                  | (effects, Some beg') \<Rightarrow>
                      (map Report (reports @ acq_reports) @ effects,
                       st\<lparr>is_poll_last_read := Some (beg' - 1), is_beg := beg'\<rparr>)))"

definition outer_iteration :: "ingest_config \<Rightarrow> outer_event \<Rightarrow> ingest_state \<Rightarrow> (ingest_effect list \<times> ingest_state) option" where
  "outer_iteration cfg ev st =
     (let beg = is_beg st;
          tip = (case oe_hint ev of Some (n, _) \<Rightarrow> min n (ic_end cfg) | None \<Rightarrow> beg)
      in if \<not> beg \<le> ic_end cfg then Some ([], st\<lparr>is_mode := Finished\<rparr>)
         else if tip > beg \<and> tip - beg > of_nat (ic_stride_size cfg) then
           map_option (\<lambda>ranges.
             let st = st\<lparr>is_speculative_next := None, is_poll_head := None, is_poll_last_read := None\<rparr>;
                 finalized_ref = map_option (\<lambda>(n, h). \<lparr>ref_number = n, ref_hash = h\<rparr>) (oe_hint ev)
             in case backfill cfg (oe_strides ev) finalized_ref ranges beg of
                  (effects, None) \<Rightarrow> (effects, st\<lparr>is_mode := Finished\<rparr>)
                | (effects, Some beg') \<Rightarrow> (effects, st\<lparr>is_beg := beg'\<rparr>))
             (stride_ranges (ic_stride_size cfg) beg tip)
         else if ic_commitment cfg = ''latest'' then
           Some ([], st\<lparr>is_mode := Polling
             \<lparr>sp_next_num = or_else (is_speculative_next st) beg, sp_pending = [], sp_hot_streak = 0,
              sp_incoherent_attempts = 0, sp_null_polls = 0\<rparr>\<rparr>)
         else Some (finalized_poll cfg ev st))"

definition ingest_step ::
    "ingest_config \<Rightarrow> outer_event \<times> poll_event \<Rightarrow> ingest_state \<Rightarrow> (ingest_effect list \<times> ingest_state) option" where
  "ingest_step cfg ev st =
     (case is_mode st of
        Outer \<Rightarrow> outer_iteration cfg (fst ev) st
      | Polling sp \<Rightarrow> Some (spec_iteration cfg (snd ev) sp st)
      | Finished \<Rightarrow> Some ([], st))"

text \<open>The stream over a sequence of iterations; \<open>None\<close> when one of them does not return.\<close>

fun ingest_range ::
    "ingest_config \<Rightarrow> (outer_event \<times> poll_event) list \<Rightarrow> ingest_state \<Rightarrow> (ingest_effect list \<times> ingest_state) option" where
  "ingest_range cfg [] st = Some ([], st)"
| "ingest_range cfg (ev # evs) st =
     Option.bind (ingest_step cfg ev st) (\<lambda>(effects, st').
     Option.bind (ingest_range cfg evs st') (\<lambda>(rest, st''). Some (effects @ rest, st'')))"

end
