(* ===== verification/Evm_Heights.thy ===== *)
theory Evm_Heights
  imports Evm_Ingest
begin

text \<open>
  What the ingest layer delivers (\<open>evm-source/src/ingest.rs\<close>): blocks at consecutive heights from the
  requested one, each mapped from a raw block without a verdict, in every mode and across the switches
  between them.  The locale \<open>block_fetch\<close> is what the range acquisition relies on in the fetch layer; it is
  interpreted on \<open>get_block_batch\<close> over the HTTP client.
\<close>

subsection \<open>Heights\<close>

definition heights :: "u64 \<Rightarrow> nat \<Rightarrow> u64 list" where
  "heights a n = map (\<lambda>i. a + of_nat i) [0..<n]"

lemma heights_length [simp]: "length (heights a n) = n"
  by (simp add: heights_def)

lemma heights_0 [simp]: "heights a 0 = []"
  by (simp add: heights_def)

lemma heights_add: "heights a (m + n) = heights a m @ heights (a + of_nat m) n"
  by (induction n) (simp_all add: heights_def algebra_simps)

lemma heights_1 [simp]: "heights a (Suc 0) = [a]"
  by (simp add: heights_def)

lemma heights_take [simp]: "take m (heights a n) = heights a (min m n)"
  by (simp add: heights_def take_map min_def)

lemma incl_range_heights: "incl_range s e = heights s (Suc (unat e) - unat s)"
  by (simp add: incl_range_def heights_def)

lemma after_range:
  fixes s e :: u64
  assumes "s \<le> e"
  shows "s + of_nat (Suc (unat e) - unat s) = e + 1" "0 < Suc (unat e) - unat s"
proof -
  have le: "unat s \<le> unat e" using assms by (simp add: word_le_nat_alt)
  then show "0 < Suc (unat e) - unat s" by simp
  have "of_nat (unat s + (Suc (unat e) - unat s)) = (of_nat (Suc (unat e)) :: u64)" using le by simp
  then show "s + of_nat (Suc (unat e) - unat s) = e + 1" by (simp add: add.commute)
qed

subsection \<open>Ranges of strides\<close>

fun runs_from :: "u64 \<Rightarrow> (u64 \<times> u64) list \<Rightarrow> bool" where
  "runs_from b [] = True"
| "runs_from b ((s, e) # rs) \<longleftrightarrow> s = b \<and> s \<le> e \<and> runs_from (e + 1) rs"

lemma stride_ranges_run:
  assumes "0 < stride" "unat tip + stride < 2 ^ 64"
  shows "\<exists>rs. stride_ranges stride start tip = Some rs \<and> runs_from start rs"
proof (induction "Suc (unat tip) - unat start" arbitrary: start rule: less_induct)
  case less
  show ?case
  proof (cases "start \<le> tip")
    case False
    then show ?thesis by (simp add: stride_ranges.simps)
  next
    case True
    let ?e = "min (start + of_nat stride - 1) tip"
    have le: "unat start \<le> unat tip" using True by (simp add: word_le_nat_alt)
    have small: "stride < 2 ^ 64" using assms(2) by linarith
    have sum: "unat (start + of_nat stride) = unat start + stride"
      using le assms(2) small by (simp add: unat_word_ariths unat_of_nat take_bit_nat_eq_self)
    have "start + of_nat stride \<noteq> 0" using sum assms(1) by (metis add_is_0 less_numeral_extra(3) unat_0)
    then have "unat (start + of_nat stride - 1) = unat start + stride - 1"
      using sum by (simp add: unat_minus_one)
    then have e: "unat ?e = min (unat start + stride - 1) (unat tip)"
      by (simp add: min_def word_le_nat_alt)
    then have ge: "start \<le> ?e" using le assms(1) by (simp add: word_le_nat_alt)
    have "unat ?e + 1 < 2 ^ 64" using e assms by simp
    then have "unat (?e + 1) = unat ?e + 1" by (simp add: unat_word_ariths)
    moreover have "unat start \<le> unat ?e" using e le assms(1) by simp
    ultimately have "Suc (unat tip) - unat (?e + 1) < Suc (unat tip) - unat start" using le by linarith
    from less.hyps [OF this] ge True show ?thesis by (subst stride_ranges.simps) (auto simp: Let_def)
  qed
qed

subsection \<open>The fetch layer as the ranges see it\<close>

text \<open>The blocks of a range, one after the other.\<close>

definition raw_linked :: "raw_rpc_block list \<Rightarrow> bool" where
  "raw_linked bs \<longleftrightarrow> list_all (\<lambda>(a, b). eq_ignore_ascii_case (raw_hash a) (rb_parent_hash (raw_block b))) (windows2 bs)"

definition fetched_good :: "(u64 \<Rightarrow> raw_rpc_block \<Rightarrow> bool) \<Rightarrow> u64 \<Rightarrow> raw_rpc_block \<Rightarrow> bool" where
  "fetched_good good n c \<longleftrightarrow> good n c \<and> raw_number c = n \<and> \<not> is_invalid c"

lemma windows2_snoc: "xs \<noteq> [] \<Longrightarrow> windows2 (xs @ [x]) = windows2 xs @ [(last xs, x)]"
  by (induction xs rule: windows2.induct) auto

lemma linked_snoc:
  "raw_linked bs \<Longrightarrow> (\<And>p. map_option raw_hash (vec_last bs) = Some p \<Longrightarrow> eq_ignore_ascii_case p (rb_parent_hash (raw_block c))) \<Longrightarrow>
   raw_linked (bs @ [c])"
  by (cases "bs = []") (auto simp: raw_linked_def windows2_snoc vec_last_def)

locale block_fetch =
  fixes fetch :: fetcher
    and good :: "u64 \<Rightarrow> raw_rpc_block \<Rightarrow> bool"
  assumes fetch_returns: "fetch k ns \<noteq> None"
    and fetch_answers: "fetch k ns = Some (Inr bs) \<Longrightarrow>
      length bs \<le> length ns \<and> list_all2 (\<lambda>n b. is_invalid b \<or> good n b) (take (length bs) ns) bs"
begin

lemma fetch_one:
  assumes "fetch k [n] = Some (Inr bs)" "front_block bs = Some b" "\<not> is_invalid b"
  shows "good n b"
  using fetch_answers [OF assms(1)] assms(2,3) by (cases bs) (auto simp: front_block_def)

lemma acquire_block_got:
  "acquire_block fetch n parent retries candidate k = (a, k') \<Longrightarrow>
   (\<And>b. candidate = Some b \<Longrightarrow> \<not> is_invalid b \<Longrightarrow> good n b) \<Longrightarrow>
   a \<noteq> Panicked \<and> k' \<le> k + (P_ENRICH_RETRIES - retries) \<and>
   (\<forall>c. a = Got c \<longrightarrow> good n c \<and> raw_number c = n \<and> \<not> is_invalid c \<and>
          (\<forall>p. parent = Some p \<longrightarrow> eq_ignore_ascii_case p (rb_parent_hash (raw_block c))))"
proof (induction "P_ENRICH_RETRIES - retries" arbitrary: retries candidate k rule: less_induct)
  case less
  show ?case
  proof (cases "range_candidate_issue candidate n parent")
    case None
    then obtain c where "candidate = Some c" "raw_number c = n" "\<not> is_invalid c"
        "\<forall>p. parent = Some p \<longrightarrow> eq_ignore_ascii_case p (rb_parent_hash (raw_block c))"
      by (auto simp: range_candidate_issue_def split: option.splits if_splits)
    then show ?thesis
      using less.prems None by (auto simp: acquire_block.simps [of fetch n parent retries])
  next
    case (Some reason)
    show ?thesis
    proof (cases "retries \<ge> P_ENRICH_RETRIES")
      case True
      then show ?thesis using less.prems(1) Some by (auto simp: acquire_block.simps [of fetch n parent retries])
    next
      case False
      then have smaller: "P_ENRICH_RETRIES - Suc retries < P_ENRICH_RETRIES - retries" by simp
      obtain out where out: "fetch k [n] = Some out" using fetch_returns by blast
      show ?thesis
      proof (cases out)
        case (Inl e)
        then show ?thesis
          using less.prems(1) Some False out by (auto simp: acquire_block.simps [of fetch n parent retries])
      next
        case (Inr bs)
        then have "acquire_block fetch n parent (Suc retries) (front_block bs) (Suc k) = (a, k')"
          using less.prems(1) Some False out by (simp add: acquire_block.simps [of fetch n parent retries])
        from less.hyps [OF smaller this] fetch_one [of k n bs] out Inr False show ?thesis by fastforce
      qed
    qed
  qed
qed

lemma acquire_numbers_result:
  "raw_linked acc \<Longrightarrow> list_all2 (\<lambda>n b. is_invalid b \<or> good n b) (take (length initial) ns) initial \<Longrightarrow> length initial \<le> length ns \<Longrightarrow>
   \<exists>cs failure reports k'. acquire_numbers fetch ns initial acc k = Some (\<lparr>ra_blocks = acc @ cs, ra_failure = failure\<rparr>, reports, k') \<and>
     length cs \<le> length ns \<and> list_all2 (fetched_good good) (take (length cs) ns) cs \<and> raw_linked (acc @ cs) \<and>
     (failure = None \<longrightarrow> length cs = length ns) \<and> k' \<le> k + P_ENRICH_RETRIES * length ns"
proof (induction ns arbitrary: initial acc k)
  case Nil
  then show ?case by simp
next
  case (Cons n ns)
  obtain a k1 where a: "acquire_block fetch n (map_option raw_hash (vec_last acc)) 0 (front_block initial) k = (a, k1)"
    by fastforce
  have "good n b" if "front_block initial = Some b" "\<not> is_invalid b" for b
    using Cons.prems(2) that by (cases initial) (auto simp: front_block_def)
  note got = acquire_block_got [OF a this]
  have k1: "k1 \<le> k + P_ENRICH_RETRIES" using got by simp
  show ?case
  proof (cases a)
    case (Got c)
    then have c: "fetched_good good n c" "raw_linked (acc @ [c])"
      using got linked_snoc [OF Cons.prems(1), of c] by (auto simp: fetched_good_def)
    have "list_all2 (\<lambda>n b. is_invalid b \<or> good n b) (take (length (tl initial)) ns) (tl initial)" "length (tl initial) \<le> length ns"
      using Cons.prems(2,3) by (cases initial; simp)+
    from Cons.IH [OF c(2) this, of k1] obtain cs failure reports k' where
      "acquire_numbers fetch ns (tl initial) (acc @ [c]) k1 = Some (\<lparr>ra_blocks = (acc @ [c]) @ cs, ra_failure = failure\<rparr>, reports, k')"
      "length cs \<le> length ns" "list_all2 (fetched_good good) (take (length cs) ns) cs" "raw_linked ((acc @ [c]) @ cs)"
      "failure = None \<longrightarrow> length cs = length ns" "k' \<le> k1 + P_ENRICH_RETRIES * length ns" by blast
    then show ?thesis using a Got c(1) k1 by (intro exI [of _ "c # cs"]) auto
  next
    case (Lost e reports)
    then show ?thesis using a k1 Cons.prems(1) by (intro exI [of _ "[]"]) auto
  next
    case Panicked
    then show ?thesis using got by simp
  qed
qed

lemma acquire_range_result:
  assumes "numbers \<noteq> []"
  shows "\<exists>acq reports k. acquire_range_stride fetch numbers = Some (acq, reports, k) \<and>
    length (ra_blocks acq) \<le> length numbers \<and> list_all2 (fetched_good good) (take (length (ra_blocks acq)) numbers) (ra_blocks acq) \<and>
    raw_linked (ra_blocks acq) \<and> (ra_failure acq = None \<longrightarrow> length (ra_blocks acq) = length numbers) \<and>
    k \<le> 1 + P_ENRICH_RETRIES * length numbers"
proof -
  obtain out where out: "fetch 0 numbers = Some out" using fetch_returns by blast
  show ?thesis
  proof (cases out)
    case (Inl e)
    then show ?thesis using assms out by (simp add: acquire_range_stride_def raw_linked_def)
  next
    case (Inr initial)
    have "raw_linked []" by (simp add: raw_linked_def)
    from acquire_numbers_result [OF this, of initial numbers 1] fetch_answers [of 0 numbers initial] out Inr assms
    show ?thesis by (auto simp: acquire_range_stride_def)
  qed
qed

end

subsection \<open>The fetch layer provides it\<close>

text \<open>What a raw block has to be before it is handed on.\<close>

definition deliverable :: "rpc \<Rightarrow> chain_utils \<Rightarrow> data_request \<Rightarrow> u64 \<Rightarrow> raw_rpc_block \<Rightarrow> bool" where
  "deliverable r u req n b \<longleftrightarrow>
     \<not> is_invalid b \<and> header_good r u n b \<and> complete b req \<and> legs_fit r u b"

definition fetch_over :: "(nat \<Rightarrow> enrich_round) \<Rightarrow> data_request \<Rightarrow> fetcher" where
  "fetch_over rounds req k ns = get_block_batch (er_rpc (rounds k)) (er_legs (rounds k)) ns req"

lemma sound_deliverable: "sound r u n b \<Longrightarrow> is_invalid b \<or> complete b req \<Longrightarrow> is_invalid b \<or> deliverable r u req n b"
  by (auto simp: deliverable_def sound_def incoherent_def)

lemma fetch_over_block_fetch:
  assumes "ready r u" "\<And>k. round_of r (rounds k)"
  shows "block_fetch (fetch_over rounds req) (deliverable r u req)"
proof
  fix k ns bs
  obtain up where up: "er_rpc (rounds k) = r\<lparr>r_client := up\<rparr>" "one_per_call up" using assms(2) by (auto simp: round_of_def)
  then show "fetch_over rounds req k ns \<noteq> None"
    unfolding fetch_over_def using assms(1) by (intro get_block_batch_returns) auto
  assume "fetch_over rounds req k ns = Some (Inr bs)"
  then have "length bs \<le> length ns \<and> list_all2 (sound (er_rpc (rounds k)) u) (take (length bs) ns) bs \<and>
      list_all (\<lambda>c. is_invalid c \<or> complete c req) bs"
    unfolding fetch_over_def using assms(1) up by (intro get_block_batch_sound) auto
  then have "length bs \<le> length ns" "list_all2 (sound r u) (take (length bs) ns) bs"
    "list_all (\<lambda>c. is_invalid c \<or> complete c req) bs" by (simp_all add: up sound_client [abs_def])
  then show "length bs \<le> length ns \<and> list_all2 (\<lambda>n b. is_invalid b \<or> deliverable r u req n b) (take (length bs) ns) bs"
    using sound_deliverable [of r u] by (auto simp: list_all2_conv_all_nth list_all_length)
qed

text \<open>
  Over the HTTP client: the object of a session in the worlds of successive rounds.  A client whose cap on
  a batch is zero is never built; it refuses every call here.
\<close>

definition http_upstream ::
    "(bytes \<Rightarrow> string + rpc_response) \<Rightarrow> (bytes \<Rightarrow> string + rpc_response list) \<Rightarrow> http_exchange world \<Rightarrow> upstream" where
  "http_upstream p1 pm w =
     (if 0 < batch_size_cap (client w) then http_client.upstream_at p1 pm w
      else \<lparr>up_call = (\<lambda>c opts. Inl (InvalidConfig [])), up_batch = (\<lambda>calls opts. Inl (InvalidConfig []))\<rparr>)"

lemma http_upstream_one_per_call: "one_per_call (http_upstream p1 pm w)"
  using http_client.upstream_one_per_call [of w p1 pm] by (auto simp: http_upstream_def one_per_call_def)

definition http_round ::
    "(bytes \<Rightarrow> string + rpc_response) \<Rightarrow> (bytes \<Rightarrow> string + rpc_response list) \<Rightarrow> rpc \<Rightarrow> chain_utils \<Rightarrow>
     (nat \<Rightarrow> http_exchange world) \<Rightarrow> (nat \<Rightarrow> leg_durations) \<Rightarrow> nat \<Rightarrow> enrich_round" where
  "http_round p1 pm r u ws els k =
     \<lparr>er_rpc = r\<lparr>r_chain_utils := Some u, r_client := http_upstream p1 pm (ws k)\<rparr>, er_took = 0, er_legs = els k\<rparr>"

interpretation http_fetch:
  block_fetch "fetch_over (http_round p1 pm r u ws els) req" "deliverable (r\<lparr>r_chain_utils := Some u\<rparr>) u req"
  for p1 pm r u ws els req
proof (rule fetch_over_block_fetch)
  show "ready (r\<lparr>r_chain_utils := Some u\<rparr>) u" by (simp add: ready_def)
  show "round_of (r\<lparr>r_chain_utils := Some u\<rparr>) (http_round p1 pm r u ws els k)" for k
    unfolding round_of_def
    by (intro exI [of _ "http_upstream p1 pm (ws k)"]) (simp add: http_round_def http_upstream_one_per_call)
qed

subsection \<open>Delivered blocks\<close>

definition fine :: "rpc \<Rightarrow> chain_utils \<Rightarrow> data_request \<Rightarrow> u64 \<Rightarrow> block \<Rightarrow> bool" where
  "fine r u req n b \<longleftrightarrow> number b = n \<and> (\<exists>raw. deliverable r u req n raw \<and> mapped raw b)"

definition mapper_ok :: "mapper \<Rightarrow> bool" where
  "mapper_ok m \<longleftrightarrow> (\<forall>raw t b. m raw t = Inr b \<longrightarrow> mapped raw b)"

fun effect_blocks :: "ingest_effect \<Rightarrow> block list" where
  "effect_blocks (Yield b) = ib_blocks b"
| "effect_blocks (Fail e) = []"
| "effect_blocks (Report r) = []"

definition emitted :: "ingest_effect list \<Rightarrow> block list" where
  "emitted effects = concat (map effect_blocks effects)"

lemma emitted_simps [simp]:
  "emitted [] = []" "emitted (x # xs) = effect_blocks x @ emitted xs" "emitted (xs @ ys) = emitted xs @ emitted ys"
  "emitted (map Report rs) = []"
  by (simp_all add: emitted_def comp_def)

lemma effect_head_batch [simp]: "effect_blocks (head_batch bs) = bs"
  by (simp add: head_batch_def)

lemma mapped_fine: "deliverable r u req n raw \<Longrightarrow> mapped raw b \<Longrightarrow> fine r u req n b"
  by (auto simp: fine_def deliverable_def header_good_def mapped_def)

lemma map_err_Inr [simp]: "map_err f r = Inr x \<longleftrightarrow> r = Inr x"
  by (auto simp: map_err_def split: sum.splits)

lemma map_blocks_mapped:
  assumes "mapper_ok m" "map_blocks_cpu m raws ts = Inr bs"
  shows "list_all2 mapped raws bs"
proof -
  have eq: "map (\<lambda>(i, raw). m raw (Option.bind ts (\<lambda>v. vec_get v i))) (zip [0..<length raws] raws) = map Inr bs"
    using assms(2) by (simp add: map_blocks_cpu_def collect_Inr)
  have len: "length bs = length raws" using arg_cong [OF eq, of length] by simp
  have "m (raws ! i) (Option.bind ts (\<lambda>v. vec_get v i)) = Inr (bs ! i)" if "i < length raws" for i
    using arg_cong [OF eq, of "\<lambda>xs. xs ! i"] that len by simp
  then show ?thesis using assms(1) len by (auto simp: list_all2_conv_all_nth mapper_ok_def)
qed

lemma map_range_mapped:
  "mapper_ok m \<Longrightarrow> map_range_prefix m raws failure = Inr bs \<Longrightarrow> list_all2 mapped raws bs"
  using map_blocks_mapped [of m raws None bs] by (auto simp: map_range_prefix_def split: sum.splits option.splits)

text \<open>The blocks \<open>bs\<close> are those of the heights from \<open>b\<close> on.\<close>

definition from_height :: "rpc \<Rightarrow> chain_utils \<Rightarrow> data_request \<Rightarrow> u64 \<Rightarrow> block list \<Rightarrow> bool" where
  "from_height r u req b bs \<longleftrightarrow> list_all2 (fine r u req) (heights b (length bs)) bs"

lemma from_height_Nil [simp]: "from_height r u req b []"
  by (simp add: from_height_def)

lemma from_height_single: "from_height r u req b [x] \<longleftrightarrow> fine r u req b x"
  by (simp add: from_height_def)

lemma from_height_append:
  "from_height r u req b xs \<Longrightarrow> from_height r u req (b + of_nat (length xs)) ys \<Longrightarrow> from_height r u req b (xs @ ys)"
  by (simp add: from_height_def heights_add list_all2_appendI)

lemma heights_nth [simp]: "i < n \<Longrightarrow> heights a n ! i = a + of_nat i"
  by (simp add: heights_def)

lemma fetched_last:
  assumes "list_all2 (fetched_good good) (heights s (length bs)) bs" "bs \<noteq> []"
  shows "raw_number (last bs) + 1 = s + of_nat (length bs)"
proof -
  obtain j where j: "length bs = Suc j" using assms(2) by (cases bs) auto
  have "raw_number (bs ! j) = heights s (Suc j) ! j"
    using assms(1) j by (auto simp: list_all2_conv_all_nth fetched_good_def)
  then show ?thesis using assms(2) j by (simp add: last_conv_nth algebra_simps)
qed

lemma deliver_range_heights:
  assumes "mapper_ok (ic_mapper cfg)"
    and good: "list_all2 (fetched_good (deliverable r u req)) (heights s (length (ra_blocks acq))) (ra_blocks acq)"
    and out: "deliver_range cfg e acq rep = (effects, nx)"
  shows "from_height r u req s (emitted effects) \<and>
    (\<forall>b. nx = Some b \<longrightarrow> ra_failure acq = None \<and> emitted effects \<noteq> [] \<and>
       length (emitted effects) = length (ra_blocks acq) \<and> b = s + of_nat (length (emitted effects)))"
proof (cases "ra_blocks acq = []")
  case True
  then show ?thesis using out by (auto simp: deliver_range_def)
next
  case False
  then have deliver: "deliver_range cfg e acq rep =
      (case map_range_prefix (ic_mapper cfg) (ra_blocks acq) (ra_failure acq) of
         Inl e \<Rightarrow> ([Fail e], None)
       | Inr bs \<Rightarrow>
           let batch = Yield \<lparr>ib_blocks = bs, ib_finalized = rep (last (ra_blocks acq))\<rparr>
           in case ra_failure acq of
                Some e \<Rightarrow> ([batch, Fail e], None)
              | None \<Rightarrow> ([batch], Some (raw_number (last (ra_blocks acq)) + 1)))"
    by (cases "ra_blocks acq") (simp_all add: deliver_range_def cong: sum.case_cong option.case_cong)
  show ?thesis
  proof (cases "map_range_prefix (ic_mapper cfg) (ra_blocks acq) (ra_failure acq)")
    case (Inl e)
    then show ?thesis using out deliver by auto
  next
    case (Inr bs)
    have mapped: "list_all2 mapped (ra_blocks acq) bs" by (rule map_range_mapped [OF assms(1) Inr])
    then have len: "length bs = length (ra_blocks acq)" by (simp add: list_all2_lengthD)
    have "list_all2 (fine r u req) (heights s (length (ra_blocks acq))) bs"
      by (rule list_all2_trans [OF _ good mapped]) (auto simp: fetched_good_def intro: mapped_fine)
    then have "from_height r u req s bs" by (simp add: from_height_def len)
    then show ?thesis
      using out deliver Inr fetched_last [OF good False] len False
      by (auto simp: Let_def split: option.splits)
  qed
qed

definition fetches :: "rpc \<Rightarrow> data_request \<Rightarrow> fetcher \<Rightarrow> bool" where
  "fetches r req f \<longleftrightarrow> (\<exists>rounds. (\<forall>k. round_of r (rounds k)) \<and> f = fetch_over rounds req)"

lemma fetches_block_fetch:
  assumes "ready r u" "fetches r req f"
  shows "block_fetch f (deliverable r u req)"
proof -
  obtain rounds where rounds: "\<forall>k. round_of r (rounds k)" "f = fetch_over rounds req"
    using assms(2) by (auto simp: fetches_def)
  then show ?thesis using fetch_over_block_fetch [OF assms(1), of rounds req] by simp
qed

lemma range_delivered:
  assumes "ready r u" "fetches r req f" "mapper_ok (ic_mapper cfg)" "s \<le> e"
    and "acquire_range_stride f (incl_range s e) = Some (acq, reports, k)"
    and out: "deliver_range cfg err acq rep = (effects, nx)"
  shows "from_height r u req s (emitted effects) \<and>
    (\<forall>b. nx = Some b \<longrightarrow> b = e + 1 \<and> b = s + of_nat (length (emitted effects)))"
proof -
  let ?n = "Suc (unat e) - unat s"
  have "incl_range s e \<noteq> []" using after_range(2) [OF assms(4)] by (simp add: incl_range_def)
  from block_fetch.acquire_range_result [OF fetches_block_fetch [OF assms(1,2)] this] assms(5)
  have acq: "length (ra_blocks acq) \<le> ?n" "ra_failure acq = None \<longrightarrow> length (ra_blocks acq) = ?n"
      "list_all2 (fetched_good (deliverable r u req)) (heights s (length (ra_blocks acq))) (ra_blocks acq)"
    by (auto simp: incl_range_heights)
  note del = deliver_range_heights [OF assms(3) acq(3) out]
  have "b = e + 1 \<and> b = s + of_nat (length (emitted effects))" if "nx = Some b" for b
  proof -
    have "length (emitted effects) = ?n" "b = s + of_nat (length (emitted effects))" using del that acq(2) by simp_all
    then show ?thesis using after_range(1) [OF assms(4)] by simp
  qed
  with del show ?thesis by blast
qed

lemma range_returns:
  assumes "ready r u" "fetches r req f" "s \<le> e"
  shows "acquire_range_stride f (incl_range s e) \<noteq> None"
proof -
  have "incl_range s e \<noteq> []" using after_range(2) [OF assms(3)] by (simp add: incl_range_def)
  from block_fetch.acquire_range_result [OF fetches_block_fetch [OF assms(1,2)] this]
  show ?thesis by auto
qed

text \<open>The pipeline emits the strides in order, however many are in flight.\<close>

lemma backfill_loop_heights:
  assumes "ready r u" "\<And>s. fetches r req (strides s)" "mapper_ok (ic_mapper cfg)"
  shows "runs_from beg (pending @ ranges) \<Longrightarrow> backfill_loop cfg strides f pending ranges beg = (effects, nx) \<Longrightarrow>
    from_height r u req beg (emitted effects) \<and> (\<forall>b. nx = Some b \<longrightarrow> b = beg + of_nat (length (emitted effects)))"
proof (induction "length pending + length ranges" arbitrary: pending ranges beg effects nx)
  case 0
  then show ?case by auto
next
  case (Suc n)
  show ?case
  proof (cases pending)
    case Nil
    then show ?thesis using Suc.prems by auto
  next
    case (Cons front pending')
    obtain s e where front: "front = (s, e)" by fastforce
    have run: "s = beg" "s \<le> e" "runs_from (e + 1) (pending' @ ranges)" using Suc.prems(1) Cons front by auto
    obtain acq reports k where acq: "acquire_range_stride (strides s) (incl_range s e) = Some (acq, reports, k)"
      using range_returns [OF assms(1,2) run(2), of s] by auto
    obtain eff nxt where del: "deliver_range cfg (neither ''range'' s) acq (\<lambda>_. f) = (eff, nxt)" by fastforce
    note this_range = range_delivered [OF assms(1,2,3) run(2) acq del]
    show ?thesis
    proof (cases nxt)
      case None
      then show ?thesis using Suc.prems(2) Cons front acq del this_range run(1) by (auto simp: spawn_stride_def)
    next
      case (Some b)
      then have b: "b = e + 1" "b = s + of_nat (length (emitted eff))" using this_range by auto
      define p' r' where "p' = (case ranges of [] \<Rightarrow> pending' | x # _ \<Rightarrow> pending' @ [x])" and "r' = tl ranges"
      have same: "p' @ r' = pending' @ ranges" "length p' + length r' = n"
        using Suc.hyps(2) Cons by (cases ranges; simp add: p'_def r'_def)+
      obtain rest out where rest: "backfill_loop cfg strides f p' r' b = (rest, out)" by fastforce
      have loop: "effects = map Report reports @ eff @ rest" "nx = out"
        using Suc.prems(2) Cons front acq del Some rest
        by (cases ranges; simp add: spawn_stride_def p'_def r'_def)+
      have "runs_from b (p' @ r')" using run(3) b(1) same(1) by simp
      from Suc.hyps(1) [OF same(2) [symmetric] this rest]
      have "from_height r u req b (emitted rest)" "\<forall>c. out = Some c \<longrightarrow> c = b + of_nat (length (emitted rest))" by auto
      then show ?thesis
        using loop this_range run(1) b(2) from_height_append [of r u req s "emitted eff" "emitted rest"]
        by (auto simp: algebra_simps)
    qed
  qed
qed

subsection \<open>The polled head\<close>

text \<open>The tasks in flight, from the height \<open>b\<close> on: each delivers the block of its height or fails.\<close>

fun tasks_from :: "rpc \<Rightarrow> chain_utils \<Rightarrow> data_request \<Rightarrow> u64 \<Rightarrow> (u64 \<times> enrich_task) list \<Rightarrow> bool" where
  "tasks_from r u req b [] = True"
| "tasks_from r u req b ((n, t) # ts) \<longleftrightarrow>
     (case task_value t of Inr bs \<Rightarrow> length bs = 1 \<and> from_height r u req b bs | Inl e \<Rightarrow> True) \<and>
     tasks_from r u req (b + 1) ts"

lemma tasks_from_append:
  "tasks_from r u req b (xs @ ys) \<longleftrightarrow> tasks_from r u req b xs \<and> tasks_from r u req (b + of_nat (length xs)) ys"
  by (induction xs arbitrary: b) (auto simp: algebra_simps)

definition event_ok :: "rpc \<Rightarrow> ingest_config \<Rightarrow> outer_event \<times> poll_event \<Rightarrow> bool" where
  "event_ok r cfg ev \<longleftrightarrow>
     (\<forall>s. fetches r (ic_req cfg) (oe_strides (fst ev) s)) \<and> fetches r (ic_req cfg) (oe_range (fst ev)) \<and>
     (case oe_hint (fst ev) of Some (n, _) \<Rightarrow> unat n + ic_stride_size cfg < 2 ^ 64 | None \<Rightarrow> True) \<and>
     (\<exists>up. pe_rpc (snd ev) = r\<lparr>r_client := up\<rparr> \<and> one_per_call up) \<and> (\<forall>k. round_of r (pe_rounds (snd ev) k))"

lemma poll_ok:
  assumes "event_ok r cfg ev" "ready r u"
  shows "one_per_call (r_client (pe_rpc (snd ev)))" "ready (pe_rpc (snd ev)) u" "\<And>k. round_of (pe_rpc (snd ev)) (pe_rounds (snd ev) k)"
    "deliverable (pe_rpc (snd ev)) u req = deliverable r u req"
proof -
  obtain up where up: "pe_rpc (snd ev) = r\<lparr>r_client := up\<rparr>" "one_per_call up" using assms(1) by (auto simp: event_ok_def)
  then show "one_per_call (r_client (pe_rpc (snd ev)))" "ready (pe_rpc (snd ev)) u" using assms(2) by simp_all
  show "round_of (pe_rpc (snd ev)) (pe_rounds (snd ev) k)" for k
  proof -
    have "round_of r (pe_rounds (snd ev) k)" using assms(1) by (simp add: event_ok_def)
    then obtain v where "er_rpc (pe_rounds (snd ev) k) = r\<lparr>r_client := v\<rparr>" "one_per_call v" by (auto simp: round_of_def)
    then show ?thesis unfolding round_of_def up by (intro exI [of _ v]) simp
  qed
  show "deliverable (pe_rpc (snd ev)) u req = deliverable r u req"
    by (intro ext) (simp add: deliverable_def up header_good_def verify_client legs_fit_def logs_fit_def receipts_fit_def
        cong: option.case_cong)
qed

lemma spawn_enrich_task:
  assumes "event_ok r cfg ev" "ready r u" "mapper_ok (ic_mapper cfg)"
    and "get_single_block (pe_rpc (snd ev)) n = Some (Inr (Some body))" "\<not> is_invalid body"
    and "spawn_enrich cfg (snd ev) body acquired_at = (t, reports)"
  shows "tasks_from r u (ic_req cfg) n [(n, t)]"
proof (cases "task_value t")
  case (Inr bs)
  note ok = poll_ok [OF assms(1,2)]
  obtain b p where b: "fst (enrich_block_with_retry (ic_options cfg) (pe_rounds (snd ev)) (pe_now (snd ev)) body (ic_req cfg)) = Some (Inr (b, p))"
      "map_blocks_cpu (ic_mapper cfg) [b] (acquisition_timings_of (snd ev) p acquired_at) = Inr bs"
    using assms(6) Inr
    by (auto simp: spawn_enrich_def task_value_def Let_def split: if_splits prod.splits option.splits sum.splits)
  have "deliverable (pe_rpc (snd ev)) u (ic_req cfg) n b"
    unfolding deliverable_def by (rule enrich_delivers [OF ok(2,1,3) assms(4,5) b(1)])
  then have del: "deliverable r u (ic_req cfg) n b" by (simp add: ok(4))
  obtain x where x: "bs = [x]" "mapped b x"
    using map_blocks_mapped [OF assms(3) b(2)] by (auto simp: list_all2_Cons1)
  then show ?thesis using Inr mapped_fine [OF del x(2)] by (simp add: from_height_single)
qed simp

lemma drain_while_heights:
  "tasks_from r u req b pending \<Longrightarrow> drain_while full pending = (effects, rest) \<Longrightarrow>
   from_height r u req b (emitted effects) \<and>
   (\<forall>ps. rest = Some ps \<longrightarrow>
      tasks_from r u req (b + of_nat (length (emitted effects))) ps \<and>
      length pending = length (emitted effects) + length ps)"
proof (induction full pending arbitrary: b effects rest rule: drain_while.induct)
  case (1 full)
  then show ?case by auto
next
  case (2 full n t pending)
  show ?case
  proof (cases "full (Suc (length pending))")
    case False
    then show ?thesis using 2 by auto
  next
    case True
    show ?thesis
    proof (cases "task_value t")
      case (Inl e)
      then show ?thesis using 2 True by auto
    next
      case (Inr bs)
      obtain eff out where eff: "drain_while full pending = (eff, out)" by fastforce
      have bs: "length bs = 1" "from_height r u req b bs" "tasks_from r u req (b + 1) pending"
        using "2.prems"(1) Inr by auto
      from "2.IH" [OF True Inr bs(3) eff]
      have IH: "from_height r u req (b + 1) (emitted eff)" "\<forall>ps. out = Some ps \<longrightarrow>
          tasks_from r u req (b + 1 + of_nat (length (emitted eff))) ps \<and> length pending = length (emitted eff) + length ps"
        by auto
      have "effects = head_batch bs # eff" "rest = out" using "2.prems"(2) True Inr eff by simp_all
      then show ?thesis
        using IH from_height_append [OF bs(2), of "emitted eff"] bs(1) by (auto simp: algebra_simps)
    qed
  qed
qed

lemma drain_failing_heights:
  "tasks_from r u req b pending \<Longrightarrow> from_height r u req b (emitted (fst (drain_failing pending)))"
proof (induction pending arbitrary: b)
  case (Cons p pending)
  obtain n t where p: "p = (n, t)" by fastforce
  show ?case
  proof (cases "task_value t")
    case (Inl e)
    then show ?thesis
      by (cases t; cases "projr t") (auto simp: p task_value_def split: prod.splits sum.splits)
  next
    case (Inr bs)
    then have t: "t = Inr (Inr bs)" by (cases t) (simp_all add: task_value_def)
    then have bs: "length bs = 1" "from_height r u req b bs" "tasks_from r u req (b + 1) pending"
      using Cons.prems p Inr by auto
    show ?thesis
      using from_height_append [OF bs(2), of "emitted (fst (drain_failing pending))"] Cons.IH [OF bs(3)] bs(1)
      by (auto simp: p t split: prod.splits)
  qed
qed simp

subsection \<open>The machine\<close>

text \<open>\<open>mode_ok r u cfg b st\<close>: the next block to hand over is that of height \<open>b\<close>.\<close>

definition mode_ok :: "rpc \<Rightarrow> chain_utils \<Rightarrow> ingest_config \<Rightarrow> u64 \<Rightarrow> ingest_state \<Rightarrow> bool" where
  "mode_ok r u cfg b st \<longleftrightarrow>
     (case is_mode st of
        Outer \<Rightarrow> is_beg st = b \<and> or_else (is_speculative_next st) b = b \<and>
          (ic_commitment cfg \<noteq> ''latest'' \<longrightarrow> is_speculative_next st = None)
      | Polling sp \<Rightarrow> ic_commitment cfg = ''latest'' \<and> sp_next_num sp = b + of_nat (length (sp_pending sp)) \<and>
          tasks_from r u (ic_req cfg) b (sp_pending sp)
      | Finished \<Rightarrow> True)"

definition step_ok :: "rpc \<Rightarrow> chain_utils \<Rightarrow> ingest_config \<Rightarrow> u64 \<Rightarrow> ingest_effect list \<times> ingest_state \<Rightarrow> bool" where
  "step_ok r u cfg b out \<longleftrightarrow>
     from_height r u (ic_req cfg) b (emitted (fst out)) \<and>
     mode_ok r u cfg (b + of_nat (length (emitted (fst out)))) (snd out)"

lemma polled_head_keeps:
  assumes "polled_finalized_head ev st = (res, reports, st')"
  shows "is_beg st' = is_beg st \<and> is_mode st' = is_mode st \<and> is_speculative_next st' = is_speculative_next st \<and>
    (\<forall>h. res = Inr (Some h) \<longrightarrow> is_beg st \<le> h)"
  using assms
  by (auto simp: polled_finalized_head_def Let_def not_less split: if_splits option.splits prod.splits sum.splits)

lemma finalized_poll_ok:
  assumes "ready r u" "mapper_ok (ic_mapper cfg)" "fetches r (ic_req cfg) (oe_range ev)"
    and "is_mode st = Outer" "mode_ok r u cfg b st" "b \<le> ic_end cfg" "ic_commitment cfg \<noteq> ''latest''"
  shows "step_ok r u cfg b (finalized_poll cfg ev st)"
proof -
  obtain res reports st1 where head: "polled_finalized_head ev st = (res, reports, st1)" by (cases "polled_finalized_head ev st")
  have st: "is_beg st = b" "is_speculative_next st = None" using assms(4,5,7) by (auto simp: mode_ok_def)
  note keeps = polled_head_keeps [OF head]
  have st1: "is_beg st1 = b" "is_speculative_next st1 = None" "is_mode st1 = Outer" using keeps st assms(4) by simp_all
  consider e where "res = Inl e" | "res = Inr None" | h where "res = Inr (Some h)" by (cases res) auto
  then show ?thesis
  proof cases
    case 3
    let ?e = "min (min (saturating_add b (of_nat (ic_stride_size cfg))) h) (ic_end cfg)"
    have "unat b \<le> unat (saturating_add b (of_nat (ic_stride_size cfg)))"
      using u64_bounded [of b] by (auto simp: unat_saturating_add)
    then have "b \<le> saturating_add b (of_nat (ic_stride_size cfg))" by (simp add: word_le_nat_alt)
    then have le: "b \<le> ?e" using keeps 3 st(1) assms(6) by simp
    obtain acq rs k where acq: "acquire_range_stride (oe_range ev) (incl_range b ?e) = Some (acq, rs, k)"
      using range_returns [OF assms(1,3) le] by auto
    obtain eff nxt where del: "deliver_range cfg (neither ''finalized poll'' b) acq
        (\<lambda>l. Some \<lparr>ref_number = raw_number l, ref_hash = raw_hash l\<rparr>) = (eff, nxt)" by fastforce
    note range = range_delivered [OF assms(1,3,2) le acq del]
    show ?thesis
      using range head 3 acq del st1
      by (cases nxt) (auto simp: finalized_poll_def Let_def step_ok_def mode_ok_def or_else_def)
  qed (use head st1 assms(4,7) in \<open>auto simp: finalized_poll_def step_ok_def mode_ok_def or_else_def\<close>)
qed

lemma backfill_ok:
  assumes "ready r u" "mapper_ok (ic_mapper cfg)" "\<And>s. fetches r (ic_req cfg) (strides s)" "runs_from b ranges"
    and "backfill cfg strides f ranges b = (effects, nx)"
  shows "from_height r u (ic_req cfg) b (emitted effects) \<and> (\<forall>c. nx = Some c \<longrightarrow> c = b + of_nat (length (emitted effects)))"
  using assms(4,5) by (intro backfill_loop_heights [OF assms(1,3,2)]) (auto simp: backfill_def Let_def)

lemma outer_ok:
  assumes "event_ok r cfg ev" "ready r u" "mapper_ok (ic_mapper cfg)" "0 < ic_stride_size cfg"
    and "is_mode st = Outer" "mode_ok r u cfg b st"
  shows "\<exists>out. outer_iteration cfg (fst ev) st = Some out \<and> step_ok r u cfg b out"
proof -
  let ?tip = "case oe_hint (fst ev) of Some (n, _) \<Rightarrow> min n (ic_end cfg) | None \<Rightarrow> b"
  have b: "is_beg st = b" using assms(5,6) by (simp add: mode_ok_def)
  consider (over) "\<not> b \<le> ic_end cfg"
    | (strided) "b \<le> ic_end cfg" "?tip > b \<and> ?tip - b > of_nat (ic_stride_size cfg)"
    | (poll) "b \<le> ic_end cfg" "\<not> (?tip > b \<and> ?tip - b > of_nat (ic_stride_size cfg))" "ic_commitment cfg = ''latest''"
    | (final) "b \<le> ic_end cfg" "\<not> (?tip > b \<and> ?tip - b > of_nat (ic_stride_size cfg))" "ic_commitment cfg \<noteq> ''latest''"
    by blast
  then show ?thesis
  proof cases
    case over
    then show ?thesis by (simp add: outer_iteration_def b step_ok_def mode_ok_def)
  next
    case strided
    have "unat ?tip + ic_stride_size cfg < 2 ^ 64"
    proof (cases "oe_hint (fst ev)")
      case None
      then show ?thesis using strided(2) by simp
    next
      case (Some h)
      then have "unat (fst h) + ic_stride_size cfg < 2 ^ 64" using assms(1) by (auto simp: event_ok_def split: prod.splits)
      moreover have "unat (min (fst h) (ic_end cfg)) \<le> unat (fst h)" by (simp add: word_le_nat_alt [symmetric])
      ultimately show ?thesis using Some by (simp add: case_prod_beta)
    qed
    then obtain ranges where ranges: "stride_ranges (ic_stride_size cfg) b ?tip = Some ranges" "runs_from b ranges"
      using stride_ranges_run [OF assms(4)] by blast
    let ?f = "map_option (\<lambda>(n, h). \<lparr>ref_number = n, ref_hash = h\<rparr>) (oe_hint (fst ev))"
    obtain eff nxt where bf: "backfill cfg (oe_strides (fst ev)) ?f ranges b = (eff, nxt)" by fastforce
    have "from_height r u (ic_req cfg) b (emitted eff) \<and> (\<forall>c. nxt = Some c \<longrightarrow> c = b + of_nat (length (emitted eff)))"
      by (rule backfill_ok [OF assms(2,3) _ ranges(2) bf]) (use assms(1) in \<open>simp add: event_ok_def\<close>)
    moreover have "outer_iteration cfg (fst ev) st =
        Some (let st = st\<lparr>is_speculative_next := None, is_poll_head := None, is_poll_last_read := None\<rparr>
              in (eff, case nxt of None \<Rightarrow> st\<lparr>is_mode := Finished\<rparr> | Some c \<Rightarrow> st\<lparr>is_beg := c\<rparr>))"
      unfolding outer_iteration_def b Let_def if_P [OF strided(2)] ranges(1) option.map bf using strided(1)
      by (simp split: option.splits)
    ultimately show ?thesis
      by (cases nxt) (auto simp: Let_def step_ok_def mode_ok_def or_else_def assms(5))
  next
    case poll
    show ?thesis
      unfolding outer_iteration_def b Let_def if_not_P [OF poll(2)]
      using assms(5,6) poll by (simp add: step_ok_def mode_ok_def)
  next
    case final
    have "fetches r (ic_req cfg) (oe_range (fst ev))" using assms(1) by (simp add: event_ok_def)
    from finalized_poll_ok [OF assms(2,3) this assms(5,6) final(1,3)] final
    show ?thesis unfolding outer_iteration_def b Let_def if_not_P [OF final(2)] by simp
  qed
qed

lemma polled_block_ok:
  assumes "event_ok r cfg ev" "ready r u" "mapper_ok (ic_mapper cfg)"
    and "get_single_block (pe_rpc (snd ev)) (sp_next_num sp) = Some (Inr (Some body))" "\<not> is_invalid body"
    and "mode_ok r u cfg b (st\<lparr>is_mode := Polling sp\<rparr>)"
  shows "step_ok r u cfg b (polled_block cfg (snd ev) body sp st)"
proof -
  let ?acq = "if ic_profile cfg then Some (pe_poll_at (snd ev), sp_null_polls sp, pe_now (snd ev)) else None"
  obtain t rs where t: "spawn_enrich cfg (snd ev) body ?acq = (t, rs)" by fastforce
  have "tasks_from r u (ic_req cfg) (sp_next_num sp) [(sp_next_num sp, t)]"
    by (rule spawn_enrich_task [OF assms(1-5) t])
  moreover have "sp_next_num sp = b + of_nat (length (sp_pending sp))" "tasks_from r u (ic_req cfg) b (sp_pending sp)"
    "ic_commitment cfg = ''latest''" using assms(6) by (simp_all add: mode_ok_def)
  ultimately show ?thesis
    by (simp add: polled_block_def Let_def t step_ok_def mode_ok_def tasks_from_append algebra_simps
        del: map_append list.map)
qed

lemma polled_incoherent_ok:
  assumes "mode_ok r u cfg b (st\<lparr>is_mode := Polling sp\<rparr>)"
  shows "step_ok r u cfg b (polled_incoherent body sp st)"
proof -
  obtain eff failure where d: "drain_failing (sp_pending sp) = (eff, failure)" by fastforce
  have "from_height r u (ic_req cfg) b (emitted eff)"
    using drain_failing_heights [of r u "ic_req cfg" b "sp_pending sp"] assms d by (simp add: mode_ok_def)
  then show ?thesis
    using assms by (auto simp: polled_incoherent_def Let_def d step_ok_def mode_ok_def)
qed

lemma polled_nothing_ok:
  assumes "mode_ok r u cfg b (st\<lparr>is_mode := Polling sp\<rparr>)"
  shows "step_ok r u cfg b (polled_nothing ev sp st)"
proof (cases "sp_pending sp")
  case Nil
  then show ?thesis using assms by (simp add: polled_nothing_def Let_def step_ok_def mode_ok_def)
next
  case (Cons p pending)
  obtain n t where p: "p = (n, t)" by fastforce
  show ?thesis
  proof (cases "task_value t")
    case (Inl e)
    then show ?thesis using assms Cons p by (simp add: polled_nothing_def Let_def step_ok_def mode_ok_def)
  next
    case (Inr bs)
    then have "length bs = 1" "from_height r u (ic_req cfg) b bs" "tasks_from r u (ic_req cfg) (b + 1) pending"
      using assms Cons p by (simp_all add: mode_ok_def)
    then show ?thesis
      using assms Cons p Inr by (simp add: polled_nothing_def Let_def step_ok_def mode_ok_def algebra_simps)
  qed
qed

lemma drain_while_stops: "drain_while full pending = (effects, Some ps) \<Longrightarrow> ps = [] \<or> \<not> full (length ps)"
  by (induction full pending arbitrary: effects rule: drain_while.induct)
     (auto split: if_splits sum.splits prod.splits)

lemma back_to_outer_ok:
  "ic_commitment cfg = ''latest'' \<Longrightarrow> mode_ok r u cfg b (back_to_outer b st)"
  by (simp add: mode_ok_def back_to_outer_def or_else_def)

lemma spec_ok:
  assumes "event_ok r cfg ev" "ready r u" "mapper_ok (ic_mapper cfg)"
    and "is_mode st = Polling sp" "mode_ok r u cfg b st"
  shows "step_ok r u cfg b (spec_iteration cfg (snd ev) sp st)"
proof -
  let ?over = "sp_next_num sp > ic_end cfg" and ?req = "ic_req cfg"
  obtain eff rest where d: "drain_while (\<lambda>len. len \<ge> PIPELINE_DEPTH \<or> ?over) (sp_pending sp) = (eff, rest)" by fastforce
  have sp: "sp_next_num sp = b + of_nat (length (sp_pending sp))" "tasks_from r u ?req b (sp_pending sp)"
    "ic_commitment cfg = ''latest''" using assms(4,5) by (simp_all add: mode_ok_def)
  note drained = drain_while_heights [OF sp(2) d]
  show ?thesis
  proof (cases rest)
    case None
    then show ?thesis using d drained by (simp add: spec_iteration_def step_ok_def mode_ok_def)
  next
    case (Some pending)
    define c where "c = b + of_nat (length (emitted eff))"
    let ?sp = "sp\<lparr>sp_pending := pending\<rparr>"
    let ?st = "st\<lparr>is_consumer_blocked := is_consumer_blocked st + handed_over (snd ev) eff\<rparr>"
    have p: "tasks_from r u ?req c pending" "sp_next_num sp = c + of_nat (length pending)"
      using drained Some sp(1) by (simp_all add: c_def algebra_simps)
    have then_ok: "step_ok r u cfg b (eff @ e2, s2)" if "step_ok r u cfg c (e2, s2)" for e2 s2
      using that drained from_height_append [of r u ?req b "emitted eff" "emitted e2"]
      by (simp add: step_ok_def c_def algebra_simps)
    have polling: "mode_ok r u cfg c (?st\<lparr>is_mode := Polling ?sp\<rparr>)" using p sp(3) by (simp add: mode_ok_def)
    have "step_ok r u cfg c (poll_head_block cfg (snd ev) ?sp ?st)"
      using polled_block_ok [OF assms(1-3) _ _ polling] polled_incoherent_ok [OF polling] polled_nothing_ok [OF polling]
      by (auto simp: poll_head_block_def step_ok_def mode_ok_def split: option.splits sum.splits)
    then have poll: "step_ok r u cfg b (let (e2, s2) = poll_head_block cfg (snd ev) ?sp ?st in (eff @ e2, s2))"
      using then_ok by (cases "poll_head_block cfg (snd ev) ?sp ?st") simp
    obtain e2 rest2 where d2: "drain_while (\<lambda>len. True) pending = (e2, rest2)" by fastforce
    note drained2 = drain_while_heights [OF p(1) d2]
    have hot: "step_ok r u cfg b (case (e2, rest2) of (es, None) \<Rightarrow> (eff @ es, ?st\<lparr>is_mode := Finished\<rparr>)
        | (es, Some _) \<Rightarrow> (eff @ es, back_to_outer (sp_next_num sp) ?st))"
    proof (cases rest2)
      case None
      then show ?thesis using drained2 by (simp, intro then_ok) (simp add: step_ok_def mode_ok_def)
    next
      case (Some ps)
      then have "ps = []" using drain_while_stops d2 by blast
      then have "sp_next_num sp = c + of_nat (length (emitted e2))" using drained2 Some p(2) by simp
      then show ?thesis
        using Some drained2 by (simp, intro then_ok) (simp add: step_ok_def back_to_outer_ok [OF sp(3)])
    qed
    have over: "step_ok r u cfg b (eff, back_to_outer (sp_next_num sp) ?st)" if ?over
    proof -
      have "pending = []" using drain_while_stops [of _ "sp_pending sp"] d Some that by blast
      then have "step_ok r u cfg c ([], back_to_outer (sp_next_num sp) ?st)"
        using p(2) by (simp add: step_ok_def back_to_outer_ok [OF sp(3)])
      then show ?thesis using then_ok by fastforce
    qed
    show ?thesis
      using poll hot over d Some d2 by (auto simp: spec_iteration_def Let_def)
  qed
qed

text \<open>The whole stream from a state: it returns, and what it emits continues from the height of that state.\<close>

lemma ingest_step_ok:
  assumes "event_ok r cfg ev" "ready r u" "mapper_ok (ic_mapper cfg)" "0 < ic_stride_size cfg" "mode_ok r u cfg b st"
  shows "\<exists>out. ingest_step cfg ev st = Some out \<and> step_ok r u cfg b out"
proof (cases "is_mode st")
  case Outer
  then show ?thesis using outer_ok [OF assms(1-4) Outer assms(5)] by (simp add: ingest_step_def)
next
  case (Polling sp)
  then show ?thesis using spec_ok [OF assms(1-3) Polling assms(5)] by (simp add: ingest_step_def)
next
  case Finished
  then show ?thesis by (simp add: ingest_step_def step_ok_def mode_ok_def)
qed

lemma ingest_range_ok:
  assumes "ready r u" "mapper_ok (ic_mapper cfg)" "0 < ic_stride_size cfg"
  shows "list_all (event_ok r cfg) evs \<Longrightarrow> mode_ok r u cfg b st \<Longrightarrow>
    \<exists>out. ingest_range cfg evs st = Some out \<and> step_ok r u cfg b out"
proof (induction evs arbitrary: b st)
  case Nil
  then show ?case by (simp add: step_ok_def)
next
  case (Cons ev evs)
  have ev: "event_ok r cfg ev" using Cons.prems(1) by simp
  obtain e1 st1 where 1: "ingest_step cfg ev st = Some (e1, st1)" "step_ok r u cfg b (e1, st1)"
    using ingest_step_ok [OF ev assms Cons.prems(2)] by auto
  have m: "mode_ok r u cfg (b + of_nat (length (emitted e1))) st1" using 1(2) by (simp add: step_ok_def)
  obtain e2 st2 where 2: "ingest_range cfg evs st1 = Some (e2, st2)"
      "step_ok r u cfg (b + of_nat (length (emitted e1))) (e2, st2)"
    using Cons.IH [OF _ m] Cons.prems(1) by auto
  have "step_ok r u cfg b (e1 @ e2, st2)"
    using 1(2) 2(2) from_height_append [of r u "ic_req cfg" b "emitted e1" "emitted e2"]
    by (simp add: step_ok_def algebra_simps)
  then show ?case using 1(1) 2(1) by simp
qed


definition sample_config :: ingest_config where
  "sample_config =
     \<lparr>ic_from = 7, ic_to = Some 7, ic_stride_size = 5, ic_stride_concurrency = 5, ic_commitment = ''latest'',
      ic_profile = False, ic_req = sample_data_request, ic_options = sample_rpc_options,
      ic_mapper = (\<lambda>raw t. map_raw_block (\<lambda>s. None) (\<lambda>n. Inr []) \<lparr>at_normalized = 0, at_compress_start = 0, at_compressed = 0\<rparr>
        raw \<lparr>with_traces = False, with_state_diffs = False\<rparr> t),
      ic_join_error = Message ''lost''\<rparr>"

definition sample_event :: "outer_event \<times> poll_event" where
  "sample_event =
     (\<lparr>oe_hint = None, oe_strides = (\<lambda>s. fetch_over (\<lambda>k. sample_round) sample_data_request),
       oe_head = (Inl (Message []), []), oe_range = fetch_over (\<lambda>k. sample_round) sample_data_request\<rparr>,
      \<lparr>pe_rpc = sample_rpc, pe_poll_at = 1, pe_now = 2, pe_delay_now = 2, pe_rounds = (\<lambda>k. sample_round),
       pe_enrich_done = 3, pe_task_lost = False, pe_front_done = False, pe_handoff = (\<lambda>i. 0)\<rparr>)"

lemma sample_event_ok: "event_ok sample_rpc sample_config sample_event"
proof -
  have f: "fetches sample_rpc sample_data_request (fetch_over (\<lambda>k. sample_round) sample_data_request)"
    using sample_rounds(3) by (auto simp: fetches_def)
  show ?thesis
    using f sample_rounds by (auto simp: event_ok_def sample_event_def sample_config_def intro: exI [of _ "r_client sample_rpc"])
qed


end
