(* ===== verification/Evm_Source.thy ===== *)
theory Evm_Source
  imports Evm_Ingest
begin

text \<open>
  The data source (\<open>evm-source/src/source.rs\<close>): the continuity check between the ingest stream and the
  service, and the finalizer, which confirms delivered blocks against the upstream's finalized head in a
  task of its own and attaches the watermark to the batches.

  The finalizer is two processes with two bounded channels between them: the stream loop hands messages to
  the prober (\<open>fz_inbox\<close>) and receives confirmed refs from it (\<open>fz_results\<close>).  Each operation below is
  what one of them does between two points where it waits; \<open>finalizer_run\<close> is their interleaving.
\<close>

subsection \<open>Options\<close>

record evm_rpc_data_source_options =
  so_rpc_options :: rpc_options
  so_data_request :: data_request
  so_stride_size :: nat
  so_stride_concurrency :: nat
  so_profile_block_timings :: bool

record evm_rpc_data_source =
  ds_rpc_options :: rpc_options
  ds_data_request :: data_request
  ds_norm_options :: mapping_options
  ds_stride_size :: nat
  ds_stride_concurrency :: nat
  ds_profile_block_timings :: bool

definition source_build :: "evm_rpc_data_source_options \<Rightarrow> evm_rpc_data_source" where
  "source_build opts =
     \<lparr>ds_rpc_options = so_rpc_options opts, ds_data_request = so_data_request opts,
      ds_norm_options = \<lparr>with_traces = req_traces (so_data_request opts), with_state_diffs = req_state_diffs (so_data_request opts)\<rparr>,
      ds_stride_size = max (so_stride_size opts) 1, ds_stride_concurrency = max (so_stride_concurrency opts) 1,
      ds_profile_block_timings = so_profile_block_timings opts\<rparr>"

text \<open>\<open>mapper\<close> is the mapping with the source's options; \<open>join_error\<close> is what a lost task reports.\<close>

definition make_stream ::
    "evm_rpc_data_source \<Rightarrow> (mapping_options \<Rightarrow> mapper) \<Rightarrow> anyhow \<Rightarrow> stream_request \<Rightarrow> string \<Rightarrow> ingest_config" where
  "make_stream ds mapper join_error req commitment =
     \<lparr>ic_from = sr_from req, ic_to = sr_to req, ic_stride_size = ds_stride_size ds,
      ic_stride_concurrency = ds_stride_concurrency ds, ic_commitment = commitment,
      ic_profile = ds_profile_block_timings ds, ic_req = ds_data_request ds, ic_options = ds_rpc_options ds,
      ic_mapper = mapper (ds_norm_options ds), ic_join_error = join_error\<rparr>"

definition source_get_head :: "rpc \<Rightarrow> (anyhow + block_ref) \<times> fetch_report list" where
  "source_get_head r =
     (case get_latest_blockhash r ''latest'' of
        (Inl e, reports) \<Rightarrow> (Inl e, reports)
      | (Inr (n, h), reports) \<Rightarrow> (Inr \<lparr>ref_number = n, ref_hash = h\<rparr>, reports))"

definition source_get_finalized_head ::
    "rpc \<Rightarrow> instant \<Rightarrow> finalized_head_cache \<Rightarrow> (anyhow + block_ref) \<times> fetch_report list \<times> finalized_head_cache" where
  "source_get_finalized_head r now c =
     (let (fetched, reports) = get_latest_blockhash r ''finalized''
      in (bind_result fetched (\<lambda>(n, h). Inr \<lparr>ref_number = n, ref_hash = h\<rparr>), reports,
          resync_finalized_head now fetched c))"

subsection \<open>Continuity\<close>

text \<open>The position of the first block whose parent is not the expected one, and the parent expected next.\<close>

fun find_fork :: "string option \<Rightarrow> nat \<Rightarrow> block list \<Rightarrow> nat option \<times> string option" where
  "find_fork expected i [] = (None, expected)"
| "find_fork expected i (b # bs) =
     (case expected of
        Some ep \<Rightarrow> if ep \<noteq> parent_hash b then (Some i, expected) else find_fork (Some (hash b)) (Suc i) bs
      | None \<Rightarrow> find_fork (Some (hash b)) (Suc i) bs)"

definition fork_signal :: "block \<Rightarrow> stream_error" where
  "fork_signal b = Fork [\<lparr>ref_number = saturating_sub (number b) 1, ref_hash = parent_hash b\<rparr>]"

definition to_block_batch :: "block list \<Rightarrow> evm_ingest_batch \<Rightarrow> block_batch" where
  "to_block_batch bs batch = \<lparr>batch_blocks = bs, batch_finalized_head = ib_finalized batch\<rparr>"

fun ensure_continuity :: "string option \<Rightarrow> (anyhow + evm_ingest_batch) list \<Rightarrow> (stream_error + block_batch) list" where
  "ensure_continuity expected [] = []"
| "ensure_continuity expected (Inl e # items) = [Inl (Other (SourceFault (display e)))]"
| "ensure_continuity expected (Inr batch # items) =
     (case find_fork expected 0 (ib_blocks batch) of
        (Some i, _) \<Rightarrow>
          (if i > 0 then [Inr (to_block_batch (take i (ib_blocks batch)) batch)] else []) @
          [Inl (fork_signal (ib_blocks batch ! i))]
      | (None, expected') \<Rightarrow>
          (if ib_blocks batch \<noteq> [] then [Inr (to_block_batch (ib_blocks batch) batch)] else []) @
          ensure_continuity expected' items)"

fun items_of :: "ingest_effect list \<Rightarrow> (anyhow + evm_ingest_batch) list" where
  "items_of [] = []"
| "items_of (Yield b # es) = Inr b # items_of es"
| "items_of (Fail e # es) = Inl e # items_of es"
| "items_of (Report r # es) = items_of es"

definition get_finalized_stream :: "stream_request \<Rightarrow> ingest_effect list \<Rightarrow> (stream_error + block_batch) list" where
  "get_finalized_stream req effects = ensure_continuity (sr_parent_hash req) (items_of effects)"

fun linked_from :: "string option \<Rightarrow> block list \<Rightarrow> bool" where
  "linked_from expected [] = True"
| "linked_from expected (b # bs) \<longleftrightarrow>
     (case expected of Some ep \<Rightarrow> ep = parent_hash b | None \<Rightarrow> True) \<and> linked_from (Some (hash b)) bs"

text \<open>The blocks before the first error, and that error; the blocks and errors of the output.\<close>

fun blocks_before_error :: "(anyhow + evm_ingest_batch) list \<Rightarrow> block list" where
  "blocks_before_error (Inr batch # items) = ib_blocks batch @ blocks_before_error items"
| "blocks_before_error items = []"

fun first_error :: "(anyhow + evm_ingest_batch) list \<Rightarrow> stream_error list" where
  "first_error [] = []"
| "first_error (Inl e # items) = [Other (SourceFault (display e))]"
| "first_error (Inr batch # items) = first_error items"

definition sent_blocks :: "(stream_error + block_batch) list \<Rightarrow> block list" where
  "sent_blocks out = concat (map (\<lambda>x. case x of Inr batch \<Rightarrow> batch_blocks batch | Inl e \<Rightarrow> []) out)"

definition sent_errors :: "(stream_error + block_batch) list \<Rightarrow> stream_error list" where
  "sent_errors out = concat (map (\<lambda>x. case x of Inr batch \<Rightarrow> [] | Inl e \<Rightarrow> [e]) out)"

lemma sent_simps [simp]:
  "sent_blocks [] = []" "sent_blocks (Inr b # out) = batch_blocks b @ sent_blocks out"
  "sent_blocks (Inl e # out) = sent_blocks out" "sent_blocks (xs @ ys) = sent_blocks xs @ sent_blocks ys"
  "sent_errors [] = []" "sent_errors (Inr b # out) = sent_errors out" "sent_errors (Inl e # out) = e # sent_errors out"
  "sent_errors (xs @ ys) = sent_errors xs @ sent_errors ys"
  by (simp_all add: sent_blocks_def sent_errors_def)

lemma find_fork_spec:
  "find_fork expected i bs = (r, expected') \<Longrightarrow>
   (case r of
      None \<Rightarrow> linked_from expected bs \<and> (\<forall>cs. linked_from expected (bs @ cs) = linked_from expected' cs)
    | Some j \<Rightarrow> i \<le> j \<and> j - i < length bs \<and> linked_from expected (take (j - i) bs) \<and>
        \<not> linked_from expected (take (Suc (j - i)) bs))"
proof (induction bs arbitrary: expected i)
  case Nil
  then show ?case by (auto split: option.splits)
next
  case (Cons b bs)
  show ?case
  proof (cases "\<exists>ep. expected = Some ep \<and> ep \<noteq> parent_hash b")
    case True
    then show ?thesis using Cons.prems by auto
  next
    case False
    then have step: "find_fork (Some (hash b)) (Suc i) bs = (r, expected')"
      using Cons.prems by (auto split: option.splits if_splits)
    have head: "(case expected of Some ep \<Rightarrow> ep = parent_hash b | None \<Rightarrow> True)" using False by (auto split: option.splits)
    show ?thesis
    proof (cases r)
      case None
      then show ?thesis using Cons.IH [OF step] head by simp
    next
      case (Some j)
      then have "Suc i \<le> j" "j - Suc i < length bs" "linked_from (Some (hash b)) (take (j - Suc i) bs)"
        "\<not> linked_from (Some (hash b)) (take (Suc (j - Suc i)) bs)" using Cons.IH [OF step] by auto
      moreover have "j - i = Suc (j - Suc i)" using \<open>Suc i \<le> j\<close> by simp
      ultimately show ?thesis using Some head by simp
    qed
  qed
qed


subsection \<open>The finalizer\<close>

definition PROBE_INTERVAL :: duration where "PROBE_INTERVAL = 500"
definition PROBE_BATCH :: nat where "PROBE_BATCH = 5"
definition PROBE_QUEUE_CAP :: nat where "PROBE_QUEUE_CAP = 50"
definition RESULT_CHANNEL_CAP :: nat where "RESULT_CHANNEL_CAP = 8"

datatype probe_msg = Candidate (msg_ref: block_ref) | Settled (msg_ref: block_ref)

definition offer :: "probe_msg \<Rightarrow> probe_msg list \<Rightarrow> probe_msg list" where
  "offer msg inbox = (if length inbox < PROBE_QUEUE_CAP then inbox @ [msg] else inbox)"

definition at_least :: "block_ref option \<Rightarrow> u64 \<Rightarrow> bool" where
  "at_least c n = (case c of Some r \<Rightarrow> ref_number r \<ge> n | None \<Rightarrow> False)"

definition raise_to :: "block_ref \<Rightarrow> block_ref option \<Rightarrow> block_ref option" where
  "raise_to r c = (case c of Some r0 \<Rightarrow> if ref_number r > ref_number r0 then Some r else c | None \<Rightarrow> Some r)"

fun absorb :: "block_ref list \<times> block_ref option \<Rightarrow> probe_msg \<Rightarrow> block_ref list \<times> block_ref option" where
  "absorb (queue, confirmed) (Candidate candidate) =
     (if at_least confirmed (ref_number candidate) then (queue, confirmed)
      else if length queue \<ge> PROBE_QUEUE_CAP then (butlast queue @ [candidate], confirmed)
      else (queue @ [candidate], confirmed))"
| "absorb (queue, confirmed) (Settled settled) =
     (dropWhile (\<lambda>f. ref_number f \<le> ref_number settled) queue, raise_to settled confirmed)"

text \<open>
  The walk over the answers, top down: \<open>i\<close> answers are left to look at.  It gives the ref it settles, how
  many probes are at or below the place where it stopped, and the probes without the ones it removed.
\<close>

fun walk ::
    "(u64 \<times> string) option list \<Rightarrow> block_ref option \<Rightarrow> nat \<Rightarrow> block_ref list \<Rightarrow>
     (block_ref option \<times> nat \<times> block_ref list) option" where
  "walk infos confirmed 0 probes = Some (None, 0, probes)"
| "walk infos confirmed (Suc i) probes =
     (if i \<ge> length probes then None
      else if at_least confirmed (ref_number (probes ! i)) then Some (None, Suc i, probes)
      else
        case infos ! i of
          None \<Rightarrow> walk infos confirmed i probes
        | Some (n, h) \<Rightarrow>
            if h = ref_hash (probes ! i) then Some (Some (probes ! i), Suc i, probes)
            else walk infos confirmed i (take i probes @ drop (Suc i) probes))"

record finalizer =
  fz_inbox :: "probe_msg list"
  fz_queue :: "block_ref list"
  fz_confirmed :: "block_ref option"
  fz_last_round :: instant
  fz_results :: "block_ref list"
  fz_current :: "block_ref option"

definition finalizer_init :: "instant \<Rightarrow> finalizer" where
  "finalizer_init now =
     \<lparr>fz_inbox = [], fz_queue = [], fz_confirmed = None, fz_last_round = now - PROBE_INTERVAL, fz_results = [],
      fz_current = None\<rparr>"

text \<open>
  A round of the prober at the instant \<open>now\<close>, ending at \<open>finish\<close>: \<open>finalized\<close> is the head it reads through
  the cache and \<open>r\<close> the client it asks.  \<open>None\<close> is a panic.
\<close>

definition prober_round :: "rpc \<Rightarrow> anyhow + (u64 \<times> string) \<Rightarrow> instant \<Rightarrow> instant \<Rightarrow> finalizer \<Rightarrow> finalizer option" where
  "prober_round r finalized now finish fz =
     (let probes = take PROBE_BATCH (fz_queue fz);
          rest = drop PROBE_BATCH (fz_queue fz)
      in case get_finalized_block_batch r finalized (map ref_number probes) of
           Inl e \<Rightarrow> Some (fz\<lparr>fz_queue := probes @ rest, fz_last_round := now\<rparr>)
         | Inr infos \<Rightarrow>
             (case walk infos (fz_confirmed fz) (length infos) probes of
                None \<Rightarrow> None
              | Some (hit, n, probes') \<Rightarrow>
                  let opened = drop n probes'
                  in Some (fz\<lparr>fz_queue := opened @ rest,
                              fz_last_round := (if opened = [] then finish - PROBE_INTERVAL else now),
                              fz_confirmed := (case hit of Some h \<Rightarrow> Some h | None \<Rightarrow> fz_confirmed fz),
                              fz_results := fz_results fz @ (case hit of Some h \<Rightarrow> [h] | None \<Rightarrow> [])\<rparr>)))"

definition prober_absorb :: "probe_msg \<Rightarrow> finalizer \<Rightarrow> finalizer" where
  "prober_absorb msg fz =
     (let (queue, confirmed) = absorb (fz_queue fz, fz_confirmed fz) msg
      in fz\<lparr>fz_inbox := tl (fz_inbox fz), fz_queue := queue, fz_confirmed := confirmed\<rparr>)"

text \<open>The stream loop on a fresh batch, and on a confirmed ref.\<close>

definition finalize_batch :: "block_batch \<Rightarrow> finalizer \<Rightarrow> block_batch \<times> finalizer" where
  "finalize_batch batch fz =
     (let carried = batch_finalized_head batch;
          fz' =
            (case (carried, vec_last (batch_blocks batch)) of
               (Some _, Some l) \<Rightarrow>
                 fz\<lparr>fz_current := raise_to (block_ref_of l) (fz_current fz),
                    fz_inbox := offer (Settled (block_ref_of l)) (fz_inbox fz)\<rparr>
             | _ \<Rightarrow>
                 fz\<lparr>fz_inbox := fold offer (map (\<lambda>b. Candidate (block_ref_of b)) (batch_blocks batch)) (fz_inbox fz)\<rparr>)
      in (\<lparr>batch_blocks = batch_blocks batch,
           batch_finalized_head = (case carried of Some c \<Rightarrow> Some c | None \<Rightarrow> fz_current fz')\<rparr>, fz'))"

definition receive_result :: "finalizer \<Rightarrow> finalizer" where
  "receive_result fz =
     (case fz_results fz of
        [] \<Rightarrow> fz
      | r # rs \<Rightarrow> fz\<lparr>fz_results := rs, fz_current := raise_to r (fz_current fz)\<rparr>)"

text \<open>
  \<open>answered_by r finalized asked ref\<close>: a round that asks for the heights \<open>asked\<close> confirms \<open>ref\<close>: the head
  is at or above the ref, and the answer to the ref's height has the ref's hash.
\<close>

definition answered_by :: "rpc \<Rightarrow> anyhow + (u64 \<times> string) \<Rightarrow> u64 list \<Rightarrow> block_ref \<Rightarrow> bool" where
  "answered_by r finalized asked ref \<longleftrightarrow>
     (\<exists>fin h infos i. finalized = Inr (fin, h) \<and> get_finalized_block_batch r finalized asked = Inr infos \<and>
        i < length infos \<and> i < length (filter (\<lambda>n. n \<le> fin) asked) \<and> filter (\<lambda>n. n \<le> fin) asked ! i = ref_number ref \<and>
        map_option snd (infos ! i) = Some (ref_hash ref))"

text \<open>
  The interleavings.  \<open>finalizer_run fz delivered vouched heads\<close>: the batches so far delivered the refs
  \<open>delivered\<close>, at ascending heights; \<open>vouched\<close> are the refs the source has a reason to call final, the last
  of a batch that carries a report and those the upstream confirmed in a round; \<open>heads\<close> are the heads
  attached to the batches that carried none.
\<close>

inductive finalizer_run :: "finalizer \<Rightarrow> block_ref list \<Rightarrow> block_ref list \<Rightarrow> block_ref list \<Rightarrow> bool" where
  init: "finalizer_run (finalizer_init now) [] [] []"
| fresh_batch: "finalizer_run fz delivered vouched heads \<Longrightarrow>
    refs = map block_ref_of (batch_blocks batch) \<Longrightarrow> ascending ref_number (delivered @ refs) \<Longrightarrow>
    finalize_batch batch fz = (out, fz') \<Longrightarrow>
    finalizer_run fz' (delivered @ refs)
      (vouched @ (if batch_finalized_head batch \<noteq> None \<and> refs \<noteq> [] then [last refs] else []))
      (heads @ (case (batch_finalized_head batch, batch_finalized_head out) of (None, Some h) \<Rightarrow> [h] | _ \<Rightarrow> []))"
| message: "finalizer_run fz delivered vouched heads \<Longrightarrow> fz_inbox fz = msg # rest \<Longrightarrow>
    finalizer_run (prober_absorb msg fz) delivered vouched heads"
| round: "finalizer_run fz delivered vouched heads \<Longrightarrow> fz_queue fz \<noteq> [] \<Longrightarrow>
    length (fz_results fz) < RESULT_CHANNEL_CAP \<Longrightarrow> fz_last_round fz + PROBE_INTERVAL \<le> now \<Longrightarrow>
    one_per_call (r_client r) \<Longrightarrow> prober_round r finalized now finish fz = Some fz' \<Longrightarrow>
    finalizer_run fz' delivered
      (vouched @ filter (answered_by r finalized (map ref_number (take PROBE_BATCH (fz_queue fz)))) delivered) heads"
| result: "finalizer_run fz delivered vouched heads \<Longrightarrow> finalizer_run (receive_result fz) delivered vouched heads"

subsection \<open>What a round of the prober settles\<close>

lemma ascending_remove: "ascending k (xs @ zs) \<Longrightarrow> ascending k (take i xs @ drop (Suc i) xs @ zs)"
proof -
  assume a: "ascending k (xs @ zs)"
  have "xs = take i xs @ drop i xs" by simp
  with a have "ascending k (take i xs @ drop i xs @ zs)" by (metis append.assoc)
  then show ?thesis by (cases "drop i xs") (auto simp: ascending_append ascending_Cons drop_Suc drop_tl)
qed

text \<open>
  The walk keeps the places at or below where it stops, removes some of those above, and a ref it settles is
  the probe at the place where it stopped, with the hash of the answer there.
\<close>

lemma walk_keeps:
  assumes "walk infos confirmed k probes = Some (hit, n, probes')"
  shows "n \<le> k" "take n probes' = take n probes" "set probes' \<subseteq> set probes"
    "ascending ref_number (probes @ zs) \<Longrightarrow> ascending ref_number (probes' @ zs)" "length probes' \<le> length probes"
  using assms
proof (induction k arbitrary: probes)
  case (Suc i)
  {
    case 1 then show ?case using Suc(1) by (fastforce split: if_splits option.splits prod.splits)
  next
    case 2
    have "take n (take i probes @ drop (Suc i) probes) = take n probes" if "n \<le> i" "i < length probes"
      using that by (simp add: min_def)
    then show ?case using 2 Suc(1,2) by (fastforce split: if_splits option.splits prod.splits)
  next
    case 3
    have "set (take i probes @ drop (Suc i) probes) \<subseteq> set probes" by (auto dest: in_set_takeD in_set_dropD)
    then show ?case using 3 Suc(3) by (fastforce split: if_splits option.splits prod.splits)
  next
    case 4
    then show ?case using Suc(4) [of "take i probes @ drop (Suc i) probes"] Suc(4) [of probes] ascending_remove [of ref_number probes zs i]
      by (auto split: if_splits option.splits prod.splits)
  next
    case 5
    then show ?case using Suc(5) [of "take i probes @ drop (Suc i) probes"] Suc(5) [of probes]
      by (auto split: if_splits option.splits prod.splits)
  }
qed simp_all

lemma walk_hit:
  assumes "walk infos confirmed k probes = Some (Some h, n, probes')"
  shows "\<exists>i. n = Suc i \<and> i < k \<and> i < length probes \<and> h = probes ! i \<and> map_option snd (infos ! i) = Some (ref_hash h)"
  using assms
proof (induction k arbitrary: probes)
  case (Suc i)
  have "\<exists>j. n = Suc j \<and> j < i \<and> j < length (take i probes @ drop (Suc i) probes) \<and>
      h = (take i probes @ drop (Suc i) probes) ! j \<and> map_option snd (infos ! j) = Some (ref_hash h)"
    if "walk infos confirmed i (take i probes @ drop (Suc i) probes) = Some (Some h, n, probes')"
    using Suc.IH [OF that] .
  then show ?case using Suc.prems Suc.IH [of probes]
    by (fastforce simp: nth_append split: if_splits option.splits prod.splits)
qed simp

lemma walk_total: "k \<le> length probes \<Longrightarrow> walk infos confirmed k probes \<noteq> None"
  by (induction k arbitrary: probes) (auto split: option.splits prod.splits simp del: not_None_eq)

text \<open>The probes ascend, so those at or below the finalized head are a prefix of them.\<close>

lemma filter_prefix:
  "ascending k xs \<Longrightarrow> filter (\<lambda>n. n \<le> fin) (map k xs) = take (length (filter (\<lambda>n. n \<le> fin) (map k xs))) (map k xs)"
proof (induction xs)
  case (Cons x xs)
  show ?case
  proof (cases "k x \<le> fin")
    case False
    then have "filter (\<lambda>n. n \<le> fin) (map k xs) = []" using Cons.prems by (force simp: ascending_Cons filter_empty_conv)
    with False show ?thesis by simp
  qed (use Cons in \<open>simp add: ascending_Cons\<close>)
qed simp

lemma probe_answers:
  assumes "get_finalized_block_batch r finalized numbers = Inr infos" "one_per_call (r_client r)"
  obtains fin h where "finalized = Inr (fin, h)" "length infos = length (filter (\<lambda>n. n \<le> fin) numbers)"
proof (cases finalized)
  case (Inr fh)
  obtain fin h where fh: "fh = (fin, h)" by fastforce
  have "length infos = length (filter (\<lambda>n. n \<le> fin) numbers)"
    using assms by (auto simp: Inr fh get_finalized_block_batch_def client_error_def map_err_def one_per_call_def Let_def
        bind_result_Inr split: if_splits sum.splits)
  with Inr fh show ?thesis using that by simp
qed (use assms in \<open>simp add: get_finalized_block_batch_def\<close>)

lemma prober_round_total:
  "one_per_call (r_client r) \<Longrightarrow> prober_round r finalized now finish fz \<noteq> None"
proof -
  assume one: "one_per_call (r_client r)"
  let ?probes = "take PROBE_BATCH (fz_queue fz)"
  have "walk infos (fz_confirmed fz) (length infos) ?probes \<noteq> None"
    if "get_finalized_block_batch r finalized (map ref_number ?probes) = Inr infos" for infos
  proof -
    from probe_answers [OF that one] obtain fin h where "length infos = length (filter (\<lambda>n. n \<le> fin) (map ref_number ?probes))" .
    then have "length infos \<le> length ?probes" by (metis length_filter_le length_map)
    then show ?thesis by (rule walk_total)
  qed
  then show ?thesis by (auto simp: prober_round_def Let_def split: sum.splits option.splits prod.splits)
qed

subsection \<open>The invariant of the finalizer\<close>

text \<open>
  The refs the prober still has to settle, queued or on their way: they were delivered, they ascend, and
  they are above what is confirmed.
\<close>

definition pending_refs :: "finalizer \<Rightarrow> block_ref list" where
  "pending_refs fz = fz_queue fz @ map msg_ref (fz_inbox fz)"

definition pending_ok :: "finalizer \<Rightarrow> block_ref list \<Rightarrow> bool" where
  "pending_ok fz delivered \<longleftrightarrow>
     ascending ref_number delivered \<and> ascending ref_number (pending_refs fz) \<and> set (pending_refs fz) \<subseteq> set delivered \<and>
     (\<forall>p \<in> set (pending_refs fz). \<not> at_least (fz_confirmed fz) (ref_number p))"

definition vouched_ok :: "finalizer \<Rightarrow> block_ref set \<Rightarrow> bool" where
  "vouched_ok fz S \<longleftrightarrow>
     (\<forall>p. Settled p \<in> set (fz_inbox fz) \<longrightarrow> p \<in> S) \<and> set (fz_results fz) \<subseteq> S \<and>
     set_option (fz_confirmed fz) \<subseteq> S \<and> set_option (fz_current fz) \<subseteq> S"

definition heads_ok :: "finalizer \<Rightarrow> block_ref list \<Rightarrow> block_ref set \<Rightarrow> bool" where
  "heads_ok fz heads S \<longleftrightarrow>
     set heads \<subseteq> S \<and> sorted (map ref_number heads) \<and> (\<forall>h \<in> set heads. at_least (fz_current fz) (ref_number h))"

definition within_caps :: "finalizer \<Rightarrow> bool" where
  "within_caps fz \<longleftrightarrow>
     length (fz_queue fz) \<le> PROBE_QUEUE_CAP \<and> length (fz_inbox fz) \<le> PROBE_QUEUE_CAP \<and>
     length (fz_results fz) \<le> RESULT_CHANNEL_CAP"

lemma vouched_mono: "vouched_ok fz S \<Longrightarrow> S \<subseteq> T \<Longrightarrow> vouched_ok fz T"
  by (auto simp: vouched_ok_def)

lemma raise_to_Some: "raise_to r c = Some x \<Longrightarrow> x = r \<or> c = Some x"
  by (auto simp: raise_to_def split: option.splits if_splits)

lemma raise_to_keeps: "at_least c n \<Longrightarrow> at_least (raise_to r c) n"
  by (auto simp: at_least_def raise_to_def split: option.splits)

lemma set_raise_to: "r \<in> S \<Longrightarrow> set_option c \<subseteq> S \<Longrightarrow> set_option (raise_to r c) \<subseteq> S"
  by (auto simp: raise_to_def split: option.splits if_splits)

subsubsection \<open>A message\<close>

lemma absorb_pending:
  assumes "ascending ref_number (queue @ msg_ref msg # rest)"
    and "\<forall>p \<in> set (queue @ msg_ref msg # rest). \<not> at_least confirmed (ref_number p)"
    and "absorb (queue, confirmed) msg = (queue', confirmed')"
  shows "ascending ref_number (queue' @ rest)" "set queue' \<subseteq> insert (msg_ref msg) (set queue)"
    "\<forall>p \<in> set (queue' @ rest). \<not> at_least confirmed' (ref_number p)"
    "length queue \<le> PROBE_QUEUE_CAP \<Longrightarrow> length queue' \<le> PROBE_QUEUE_CAP"
    "confirmed' = confirmed \<or> (\<exists>p. msg = Settled p \<and> confirmed' = Some p)"
proof -
  have "ascending ref_number (queue' @ rest) \<and> set queue' \<subseteq> insert (msg_ref msg) (set queue) \<and>
    (\<forall>p \<in> set (queue' @ rest). \<not> at_least confirmed' (ref_number p)) \<and>
    (length queue \<le> PROBE_QUEUE_CAP \<longrightarrow> length queue' \<le> PROBE_QUEUE_CAP) \<and>
    (confirmed' = confirmed \<or> (\<exists>p. msg = Settled p \<and> confirmed' = Some p))"
  proof (cases msg)
  case (Candidate c)
  have b: "ascending ref_number (butlast queue @ c # rest)" "set (butlast queue) \<subseteq> set queue"
    using assms(1) Candidate by (auto simp: ascending_append butlast_conv_take ascending_Cons dest: in_set_takeD)
  with Candidate assms show ?thesis
    by (auto simp: PROBE_QUEUE_CAP_def dest: in_set_butlastD split: if_splits)
next
  case (Settled s)
  have "dropWhile (\<lambda>f. ref_number f \<le> ref_number s) queue = []"
    using assms(1) Settled by (auto simp: ascending_append ascending_Cons dropWhile_eq_Nil_conv intro: less_imp_le)
  moreover have "raise_to s confirmed = Some s"
    using assms(2) Settled by (auto simp: raise_to_def at_least_def split: option.splits)
  ultimately have "queue' = []" "confirmed' = Some s"
    using assms(3) unfolding Settled absorb.simps by (metis prod.inject)+
  then show ?thesis
    using assms(1,2) Settled by (auto simp: ascending_append ascending_Cons at_least_def not_le)
  qed
  then show "ascending ref_number (queue' @ rest)" "set queue' \<subseteq> insert (msg_ref msg) (set queue)"
    "\<forall>p \<in> set (queue' @ rest). \<not> at_least confirmed' (ref_number p)"
    "length queue \<le> PROBE_QUEUE_CAP \<Longrightarrow> length queue' \<le> PROBE_QUEUE_CAP"
    "confirmed' = confirmed \<or> (\<exists>p. msg = Settled p \<and> confirmed' = Some p)"
    by blast+
qed

lemma prober_absorb_ok:
  assumes "fz_inbox fz = msg # rest" and "pending_ok fz delivered" and "vouched_ok fz S" and "within_caps fz"
  shows "pending_ok (prober_absorb msg fz) delivered" "vouched_ok (prober_absorb msg fz) S" "within_caps (prober_absorb msg fz)"
proof -
  obtain queue' confirmed' where a: "absorb (fz_queue fz, fz_confirmed fz) msg = (queue', confirmed')" by fastforce
  have pre: "ascending ref_number (fz_queue fz @ msg_ref msg # map msg_ref rest)"
    "\<forall>p \<in> set (fz_queue fz @ msg_ref msg # map msg_ref rest). \<not> at_least (fz_confirmed fz) (ref_number p)"
    using assms(1,2) by (simp_all add: pending_ok_def pending_refs_def)
  note absorbed = absorb_pending [OF pre a]
  show "pending_ok (prober_absorb msg fz) delivered"
    using absorbed(1-3) a assms(1,2) by (auto simp: prober_absorb_def pending_ok_def pending_refs_def)
  show "vouched_ok (prober_absorb msg fz) S"
    using absorbed(5) a assms(1,3) by (auto simp: prober_absorb_def vouched_ok_def)
  show "within_caps (prober_absorb msg fz)"
    using absorbed(4) a assms(1,4) by (auto simp: prober_absorb_def within_caps_def)
qed

subsubsection \<open>A round\<close>

lemma prober_round_cases:
  assumes "prober_round r finalized now finish fz = Some fz'"
    and "one_per_call (r_client r)" and "ascending ref_number (fz_queue fz @ zs)"
  obtains (unsettled) "fz_confirmed fz' = fz_confirmed fz" "fz_results fz' = fz_results fz" "ascending ref_number (fz_queue fz' @ zs)"
      "set (fz_queue fz') \<subseteq> set (fz_queue fz)"
      "length (fz_queue fz') \<le> length (fz_queue fz)"
  | (settled) h where "fz_confirmed fz' = Some h" "fz_results fz' = fz_results fz @ [h]" "h \<in> set (fz_queue fz)"
      "answered_by r finalized (map ref_number (take PROBE_BATCH (fz_queue fz))) h"
      "ascending ref_number (h # fz_queue fz' @ zs)" "set (fz_queue fz') \<subseteq> set (fz_queue fz)"
      "length (fz_queue fz') \<le> length (fz_queue fz)"
proof -
  let ?probes = "take PROBE_BATCH (fz_queue fz)" and ?rest = "drop PROBE_BATCH (fz_queue fz)"
  show ?thesis
  proof (cases "get_finalized_block_batch r finalized (map ref_number ?probes)")
    case Inl
    then show ?thesis using assms(1,3) by (intro unsettled) (auto simp: prober_round_def Let_def)
  next
    case (Inr infos)
    then obtain hit n probes' where w: "walk infos (fz_confirmed fz) (length infos) ?probes = Some (hit, n, probes')"
      using assms(1) by (auto simp: prober_round_def Let_def split: option.splits)
    have fz': "fz_queue fz' = drop n probes' @ ?rest"
        "fz_confirmed fz' = (case hit of Some h \<Rightarrow> Some h | None \<Rightarrow> fz_confirmed fz)"
        "fz_results fz' = fz_results fz @ (case hit of Some h \<Rightarrow> [h] | None \<Rightarrow> [])"
      using assms(1) by (auto simp: prober_round_def Let_def Inr w)
    note kept = walk_keeps [OF w]
    have asc: "ascending ref_number (probes' @ ?rest @ zs)" using kept(4) [of "?rest @ zs"] assms(3) by (metis append.assoc append_take_drop_id)
    have sub: "set (fz_queue fz') \<subseteq> set (fz_queue fz)"
      using kept(3) by (auto simp: fz' dest: in_set_takeD in_set_dropD)
    have len: "length (fz_queue fz') \<le> length (fz_queue fz)" using kept(5) by (auto simp: fz')
    have asc_open: "ascending ref_number (fz_queue fz' @ zs)"
      using asc by (auto simp: fz' ascending_append dest: in_set_dropD)
    show ?thesis
    proof (cases hit)
      case None
      then show ?thesis using fz' sub len asc_open by (intro unsettled) simp_all
    next
      case (Some h)
      obtain i where i: "n = Suc i" "i < length infos" "i < length ?probes" "h = ?probes ! i"
          "map_option snd (infos ! i) = Some (ref_hash h)"
        using walk_hit [OF w [unfolded Some]] by blast
      obtain fin hh where fin: "finalized = Inr (fin, hh)" "length infos = length (filter (\<lambda>n. n \<le> fin) (map ref_number ?probes))"
        by (rule probe_answers [OF Inr assms(2)])
      have asc_probes: "ascending ref_number ?probes" using assms(3) by (simp add: ascending_append)
      have at_i: "filter (\<lambda>n. n \<le> fin) (map ref_number ?probes) ! i = ref_number h"
        using filter_prefix [OF asc_probes, of fin] i(2-4) fin(2) by (metis length_map nth_map nth_take)
      have answered: "answered_by r finalized (map ref_number ?probes) h"
        unfolding answered_by_def using fin Inr i(2,5) at_i by (intro exI conjI) auto
      have probes': "take n probes' = take i ?probes @ [h]"
        using kept(2) i by (simp add: take_Suc_conv_app_nth)
      then have "probes' = take i ?probes @ h # drop n probes'"
        by (metis append.assoc append_Cons append_Nil append_take_drop_id)
      then have "ascending ref_number (h # fz_queue fz' @ zs)"
        using asc by (metis fz'(1) append.assoc append_Cons ascending_append)
      moreover have "h \<in> set (fz_queue fz)" using i(3,4) by (metis in_set_takeD nth_mem)
      ultimately show ?thesis using fz' Some sub len answered by (intro settled) simp_all
    qed
  qed
qed

lemma prober_round_ok:
  assumes "prober_round r finalized now finish fz = Some fz'" and "one_per_call (r_client r)"
    and "pending_ok fz delivered" and "within_caps fz" and "length (fz_results fz) < RESULT_CHANNEL_CAP"
    and "vouched_ok fz S" and "\<forall>p \<in> set delivered.
      answered_by r finalized (map ref_number (take PROBE_BATCH (fz_queue fz))) p \<longrightarrow> p \<in> T" and "S \<subseteq> T"
  shows "pending_ok fz' delivered \<and> vouched_ok fz' T \<and> within_caps fz' \<and> fz_current fz' = fz_current fz"
proof -
  let ?inbox = "map msg_ref (fz_inbox fz)"
  have same: "fz_inbox fz' = fz_inbox fz" "fz_current fz' = fz_current fz"
    using assms(1) by (auto simp: prober_round_def Let_def split: sum.splits option.splits prod.splits)
  have asc: "ascending ref_number (fz_queue fz @ ?inbox)" using assms(3) by (simp add: pending_ok_def pending_refs_def)
  from assms(1,2) asc show ?thesis
  proof (cases rule: prober_round_cases)
    case unsettled
    with assms(3-6,8) same show ?thesis
      by (auto simp: pending_ok_def pending_refs_def vouched_ok_def within_caps_def)
  next
    case (settled h)
    have "h \<in> T" using settled(3,4) assms(3,7) by (auto simp: pending_ok_def pending_refs_def)
    moreover have "pending_ok fz' delivered"
      using settled(1,5,6) assms(3) same by (auto simp: pending_ok_def pending_refs_def ascending_Cons at_least_def not_le ball_Un)
    ultimately show ?thesis using settled(1,2,7) assms(4-6,8) same
      by (auto simp: vouched_ok_def within_caps_def)
  qed
qed

subsubsection \<open>A batch\<close>

lemma offered_prefix:
  "\<exists>k. fold offer msgs inbox = inbox @ take k msgs \<and>
     (length inbox \<le> PROBE_QUEUE_CAP \<longrightarrow> length (inbox @ take k msgs) \<le> PROBE_QUEUE_CAP)"
proof (induction msgs arbitrary: inbox)
  case (Cons m ms)
  show ?case
  proof (cases "length inbox < PROBE_QUEUE_CAP")
    case True
    obtain k where "fold offer ms (inbox @ [m]) = (inbox @ [m]) @ take k ms"
        "length (inbox @ [m]) \<le> PROBE_QUEUE_CAP \<longrightarrow> length ((inbox @ [m]) @ take k ms) \<le> PROBE_QUEUE_CAP"
      using Cons.IH by blast
    moreover have "offer m inbox = inbox @ [m]" using True by (simp add: offer_def)
    ultimately show ?thesis using True by (intro exI [of _ "Suc k"]) auto
  next
    case False
    have "fold offer ms inbox = inbox" if "\<not> length inbox < PROBE_QUEUE_CAP" for ms
      using that by (induction ms) (simp_all add: offer_def)
    moreover have "offer m inbox = inbox" using False by (simp add: offer_def)
    ultimately show ?thesis using False by (intro exI [of _ 0]) simp
  qed
qed (intro exI [of _ 0], simp)

lemma pending_extend:
  assumes "pending_ok fz delivered" and "ascending ref_number (delivered @ refs)"
    and "fz_inbox fz' = fz_inbox fz @ msgs" and "fz_queue fz' = fz_queue fz" and "fz_confirmed fz' = fz_confirmed fz"
    and "set (map msg_ref msgs) \<subseteq> set refs" and "ascending ref_number (map msg_ref msgs)"
    and "set_option (fz_confirmed fz) \<subseteq> set delivered"
  shows "pending_ok fz' (delivered @ refs)"
proof -
  have above: "\<forall>d \<in> set delivered. \<forall>m \<in> set (map msg_ref msgs). ref_number d < ref_number m"
    using assms(2,6) by (auto simp: ascending_append)
  then have "\<forall>m \<in> set (map msg_ref msgs). \<not> at_least (fz_confirmed fz) (ref_number m)"
    using assms(8) by (auto simp: at_least_def not_le split: option.splits)
  moreover have "pending_refs fz' = pending_refs fz @ map msg_ref msgs" by (simp add: pending_refs_def assms)
  ultimately show ?thesis using assms(1,2,5-7) above
    by (auto simp: pending_ok_def ascending_append)
qed

lemma finalize_batch_ok:
  assumes "finalize_batch batch fz = (out, fz')" and "refs = map block_ref_of (batch_blocks batch)"
    and "ascending ref_number (delivered @ refs)"
    and "pending_ok fz delivered" and "vouched_ok fz S" and "within_caps fz" and "S \<subseteq> set delivered"
    and "batch_finalized_head batch \<noteq> None \<and> refs \<noteq> [] \<Longrightarrow> last refs \<in> T" and "S \<subseteq> T"
  shows "pending_ok fz' (delivered @ refs)" "vouched_ok fz' T" "within_caps fz'"
    "\<And>n. at_least (fz_current fz) n \<Longrightarrow> at_least (fz_current fz') n"
    "batch_finalized_head batch = None \<Longrightarrow> batch_finalized_head out = fz_current fz'"
proof -
  have conf: "set_option (fz_confirmed fz) \<subseteq> set delivered" using assms(5,7) by (auto simp: vouched_ok_def)
  have asc_refs: "ascending ref_number refs" using assms(3) by (simp add: ascending_append)
  have "pending_ok fz' (delivered @ refs) \<and> vouched_ok fz' T \<and> within_caps fz' \<and>
    (\<forall>n. at_least (fz_current fz) n \<longrightarrow> at_least (fz_current fz') n)"
  proof (cases "batch_finalized_head batch \<noteq> None \<and> refs \<noteq> []")
    case True
    then obtain bs b where bs: "batch_blocks batch = bs @ [b]" using assms(2) by (cases "batch_blocks batch" rule: rev_cases) auto
    let ?settled = "block_ref_of b"
    have fz': "fz' = fz\<lparr>fz_current := raise_to ?settled (fz_current fz), fz_inbox := offer (Settled ?settled) (fz_inbox fz)\<rparr>"
      using assms(1) True bs by (auto simp: finalize_batch_def Let_def vec_last_def)
    have T: "?settled \<in> T" "last refs = ?settled" using assms(8) [OF True] by (simp_all add: assms(2) bs)
    obtain k where k: "offer (Settled ?settled) (fz_inbox fz) = fz_inbox fz @ take k [Settled ?settled]"
        "length (fz_inbox fz) \<le> PROBE_QUEUE_CAP \<longrightarrow> length (fz_inbox fz @ take k [Settled ?settled]) \<le> PROBE_QUEUE_CAP"
      using offered_prefix [of "[Settled ?settled]"] by fastforce
    have "pending_ok fz' (delivered @ refs)"
      by (rule pending_extend [OF assms(4,3), where msgs = "take k [Settled ?settled]"])
        (use conf in \<open>auto simp: fz' k(1) assms(2) bs take_Cons' split: if_splits\<close>)
    moreover have "vouched_ok fz' T"
      using assms(5,9) T set_raise_to [of ?settled T "fz_current fz"]
      by (auto simp: fz' vouched_ok_def k(1) take_Cons' split: if_splits)
    ultimately show ?thesis using assms(6) k by (auto simp: fz' within_caps_def raise_to_keeps)
  next
    case False
    let ?msgs = "map (\<lambda>b. Candidate (block_ref_of b)) (batch_blocks batch)"
    have fz': "fz' = fz\<lparr>fz_inbox := fold offer ?msgs (fz_inbox fz)\<rparr>"
      using assms(1,2) False by (auto simp: finalize_batch_def Let_def vec_last_def split: option.splits)
    obtain k where k: "fold offer ?msgs (fz_inbox fz) = fz_inbox fz @ take k ?msgs"
        "length (fz_inbox fz) \<le> PROBE_QUEUE_CAP \<longrightarrow> length (fz_inbox fz @ take k ?msgs) \<le> PROBE_QUEUE_CAP"
      using offered_prefix by blast
    have msgs: "map msg_ref (take k ?msgs) = take k refs" by (simp add: assms(2) take_map comp_def)
    have "pending_ok fz' (delivered @ refs)"
      by (rule pending_extend [OF assms(4,3), where msgs = "take k ?msgs"])
        (use conf asc_refs in \<open>simp_all only: msgs, auto simp: fz' k(1) dest: in_set_takeD\<close>)
    moreover have "vouched_ok fz' T"
      using assms(5,9) by (auto simp: fz' k(1) vouched_ok_def dest: in_set_takeD)
    ultimately show ?thesis using assms(6) k by (auto simp: fz' within_caps_def)
  qed
  then show "pending_ok fz' (delivered @ refs)" "vouched_ok fz' T" "within_caps fz'"
    "\<And>n. at_least (fz_current fz) n \<Longrightarrow> at_least (fz_current fz') n" by blast+
  show "batch_finalized_head batch = None \<Longrightarrow> batch_finalized_head out = fz_current fz'"
    using assms(1) by (auto simp: finalize_batch_def Let_def)
qed

subsubsection \<open>Every reachable state\<close>

lemma receive_result_ok:
  assumes "pending_ok fz delivered" and "vouched_ok fz S" and "within_caps fz"
  shows "pending_ok (receive_result fz) delivered" "vouched_ok (receive_result fz) S" "within_caps (receive_result fz)"
    "at_least (fz_current fz) n \<Longrightarrow> at_least (fz_current (receive_result fz)) n"
  using assms
  by (auto simp: receive_result_def pending_ok_def pending_refs_def vouched_ok_def within_caps_def raise_to_keeps
      split: list.splits dest!: raise_to_Some)

lemma finalizer_run_ok:
  assumes "finalizer_run fz delivered vouched heads"
  shows "pending_ok fz delivered \<and> vouched_ok fz (set delivered \<inter> set vouched) \<and> within_caps fz \<and>
    heads_ok fz heads (set delivered \<inter> set vouched)"
  using assms
proof induction
  case (init now)
  show ?case
    by (simp add: finalizer_init_def pending_ok_def pending_refs_def vouched_ok_def within_caps_def heads_ok_def)
next
  case (fresh_batch fz delivered vouched heads refs batch out fz')
  let ?vouched = "vouched @ (if batch_finalized_head batch \<noteq> None \<and> refs \<noteq> [] then [last refs] else [])"
  let ?T = "set (delivered @ refs) \<inter> set ?vouched"
  have ok: "pending_ok fz' (delivered @ refs)" "vouched_ok fz' ?T" "within_caps fz'"
    "\<And>n. at_least (fz_current fz) n \<Longrightarrow> at_least (fz_current fz') n"
    "batch_finalized_head batch = None \<Longrightarrow> batch_finalized_head out = fz_current fz'"
    using finalize_batch_ok [OF fresh_batch(4,2,3), of "set delivered \<inter> set vouched" ?T] fresh_batch.IH by auto
  have hs: "set heads \<subseteq> ?T" "sorted (map ref_number heads)" "\<forall>h \<in> set heads. at_least (fz_current fz') (ref_number h)"
    using fresh_batch.IH ok(4) by (auto simp: heads_ok_def)
  have "heads_ok fz' (heads @ (case (batch_finalized_head batch, batch_finalized_head out) of (None, Some h) \<Rightarrow> [h] | _ \<Rightarrow> [])) ?T"
    using hs ok(2,5) by (auto simp: heads_ok_def vouched_ok_def at_least_def sorted_append split: option.splits)
  with ok show ?case by blast
next
  case (message fz delivered vouched heads msg rest)
  then show ?case using prober_absorb_ok [OF message(2)]
    by (auto simp: heads_ok_def prober_absorb_def split: prod.splits)
next
  case (round fz delivered vouched heads now r finalized finish fz')
  let ?vouched = "vouched @ filter (answered_by r finalized (map ref_number (take PROBE_BATCH (fz_queue fz)))) delivered"
  have "pending_ok fz' delivered \<and> vouched_ok fz' (set delivered \<inter> set ?vouched) \<and> within_caps fz' \<and> fz_current fz' = fz_current fz"
    by (rule prober_round_ok [OF round(6,5), where S = "set delivered \<inter> set vouched"]) (use round in auto)
  then show ?case using round.IH by (auto simp: heads_ok_def)
next
  case (result fz delivered vouched heads)
  then show ?case using receive_result_ok [of fz delivered "set delivered \<inter> set vouched"] by (auto simp: heads_ok_def)
qed

text \<open>
  C36.  In every interleaving of the stream loop and the prober, over every client that answers a batch with
  one result per call: the queue and both channels stay within their caps; the queue ascends by height and
  holds nothing at or below the prober's watermark; everything the finalizer calls final (the prober's
  watermark, the refs on their way to the stream loop, the stream loop's watermark and the heads attached to
  the batches) is a ref this stream delivered and one that is vouched for, by the batch's own report or by an
  upstream answer with the same hash at or below the finalized head; the attached heads never regress; and
  a round never indexes outside its probes.
\<close>

theorem finalizer_sound:
  assumes "finalizer_run fz delivered vouched heads"
  shows "length (fz_queue fz) \<le> PROBE_QUEUE_CAP \<and> length (fz_inbox fz) \<le> PROBE_QUEUE_CAP \<and>
      length (fz_results fz) \<le> RESULT_CHANNEL_CAP \<and>
    ascending ref_number (fz_queue fz) \<and> (\<forall>p \<in> set (fz_queue fz). \<not> at_least (fz_confirmed fz) (ref_number p)) \<and>
    set_option (fz_confirmed fz) \<union> set (fz_results fz) \<union> set_option (fz_current fz) \<union> set heads
      \<subseteq> set delivered \<inter> set vouched \<and>
    sorted (map ref_number heads) \<and>
    (one_per_call (r_client r) \<longrightarrow> prober_round r finalized now finish fz \<noteq> None)"
proof -
  note ok = finalizer_run_ok [OF assms]
  have "ascending ref_number (fz_queue fz)" "\<forall>p \<in> set (fz_queue fz). \<not> at_least (fz_confirmed fz) (ref_number p)"
    using ok by (auto simp: pending_ok_def pending_refs_def ascending_append)
  moreover have "set_option (fz_confirmed fz) \<union> set (fz_results fz) \<union> set_option (fz_current fz) \<union> set heads
      \<subseteq> set delivered \<inter> set vouched"
    using ok by (auto simp: vouched_ok_def heads_ok_def)
  ultimately show ?thesis using ok prober_round_total by (simp add: within_caps_def heads_ok_def del: not_None_eq)
qed

text \<open>A block is delivered, confirmed in a round and attached to the next batch.\<close>

definition probed_block :: "u64 \<Rightarrow> string \<Rightarrow> block" where
  "probed_block n h =
     \<lparr>number = n, hash = h, parent_number = n - 1, parent_hash = ''0x00'', timestamp = None, json_line_zstd = [],
      timings = None\<rparr>"

definition sample_probe_rpc :: rpc where
  "sample_probe_rpc =
     sample_rpc\<lparr>r_client :=
       \<lparr>up_call = (\<lambda>c opts. Inr JNull),
        up_batch = (\<lambda>calls opts.
          Inr (map (\<lambda>c. Inr (JObject [(''number'', JString ''0x7''), (''hash'', JString ''0xaa'')])) calls))\<rparr>\<rparr>"

lemma sample_finalizer_run:
  "\<exists>vouched. finalizer_run
     \<lparr>fz_inbox = [Candidate (block_ref_of (probed_block 8 ''0xbb''))], fz_queue = [],
      fz_confirmed = Some (block_ref_of (probed_block 7 ''0xaa'')), fz_last_round = 600, fz_results = [],
      fz_current = Some (block_ref_of (probed_block 7 ''0xaa''))\<rparr>
     [block_ref_of (probed_block 7 ''0xaa''), block_ref_of (probed_block 8 ''0xbb'')] vouched
     [block_ref_of (probed_block 7 ''0xaa'')]"
proof -
  let ?a = "probed_block 7 ''0xaa''" and ?b = "probed_block 8 ''0xbb''"
  let ?f = "\<lambda>inbox queue c t res cur. \<lparr>fz_inbox = inbox, fz_queue = queue, fz_confirmed = c, fz_last_round = t,
    fz_results = res, fz_current = cur\<rparr>"
  let ?fin = "Inr (9, ''0xcc'') :: anyhow + (u64 \<times> string)"
  have 1: "finalizer_run (?f [] [] None 500 [] None) [] [] []"
    using init [of 1000] by (simp add: finalizer_init_def PROBE_INTERVAL_def)
  have 2: "finalizer_run (?f [Candidate (block_ref_of ?a)] [] None 500 [] None) [block_ref_of ?a] [] []"
    using fresh_batch [OF 1, of _ "\<lparr>batch_blocks = [?a], batch_finalized_head = None\<rparr>", OF refl]
    by (simp add: finalize_batch_def Let_def vec_last_def offer_def PROBE_QUEUE_CAP_def)
  have 3: "finalizer_run (?f [] [block_ref_of ?a] None 500 [] None) [block_ref_of ?a] [] []"
    using message [OF 2] by (simp add: prober_absorb_def at_least_def PROBE_QUEUE_CAP_def)
  have one: "one_per_call (r_client sample_probe_rpc)" by (auto simp: one_per_call_def sample_probe_rpc_def)
  have "prober_round sample_probe_rpc ?fin 1000 1100 (?f [] [block_ref_of ?a] None 500 [] None) =
      Some (?f [] [] (Some (block_ref_of ?a)) 600 [block_ref_of ?a] None)"
    by (simp add: prober_round_def get_finalized_block_batch_def client_error_def map_err_def sample_probe_rpc_def
        probe_info_def PROBE_BATCH_def PROBE_INTERVAL_def block_ref_of_def probed_block_def at_least_def)
  from round [OF 3 _ _ _ one this] obtain vouched where
    4: "finalizer_run (?f [] [] (Some (block_ref_of ?a)) 600 [block_ref_of ?a] None) [block_ref_of ?a] vouched []"
    by (auto simp: RESULT_CHANNEL_CAP_def PROBE_INTERVAL_def)
  have 5: "finalizer_run (?f [] [] (Some (block_ref_of ?a)) 600 [] (Some (block_ref_of ?a))) [block_ref_of ?a] vouched []"
    using result [OF 4] by (simp add: receive_result_def raise_to_def)
  show ?thesis
    using fresh_batch [OF 5, of _ "\<lparr>batch_blocks = [?b], batch_finalized_head = None\<rparr>", OF refl]
    by (intro exI [of _ vouched])
      (simp add: finalize_batch_def Let_def vec_last_def offer_def PROBE_QUEUE_CAP_def ascending_Cons
        block_ref_of_def probed_block_def)
qed

theorem finalizer_sound_witness:
  "\<exists>fz delivered vouched heads. finalizer_run fz delivered vouched heads \<and> heads = [block_ref_of (probed_block 7 ''0xaa'')] \<and>
     set heads \<subseteq> set delivered \<inter> set vouched \<and> ascending ref_number (fz_queue fz) \<and>
     prober_round sample_probe_rpc (Inr (9, ''0xcc'')) 1000 1100 fz \<noteq> None"
proof -
  obtain fz delivered vouched heads where
    run: "finalizer_run fz delivered vouched heads" "heads = [block_ref_of (probed_block 7 ''0xaa'')]"
    using sample_finalizer_run by blast
  have "one_per_call (r_client sample_probe_rpc)" by (auto simp: one_per_call_def sample_probe_rpc_def)
  with finalizer_sound [OF run(1), of sample_probe_rpc "Inr (9, ''0xcc'')" 1000 1100] run show ?thesis by blast
qed

end
