(* ===== verification/Service_Query.thy ===== *)
theory Service_Query
  imports Service_Run Chain_Query
begin

text \<open>
  The query side of \<open>service.rs\<close>: a query below the window is answered by a backfill from the source that
  is spliced onto a snapshot of the buffer, any other from the buffer, after a wait where the block is not
  there yet.

  The buffer is read under its lock at several points of a query and the ingestion may run in between, so
  every read has its own buffer.  The finalized stream of the source is the list of what it yields, and
  the producer of the backfill the list of what it sends to the response.
\<close>

subsection \<open>Backfill\<close>

definition check_chain_continuity :: "string option \<Rightarrow> block option \<Rightarrow> block \<Rightarrow> fault + unit" where
  "check_chain_continuity parent prev nxt =
     (let ok = (case (prev, parent) of
                  (Some p, _) \<Rightarrow> number p = parent_number nxt \<and> hash p = parent_hash nxt
                | (None, Some ph) \<Rightarrow> ph = parent_hash nxt
                | (None, None) \<Rightarrow> True)
      in if ok then Inr () else Inl (ContinuityViolated (block_ref_of nxt) (parent_ref_of nxt)))"

text \<open>The blocks of a batch one after the other; the last one is what the next has to link to.\<close>

fun check_batch :: "string option \<Rightarrow> block option \<Rightarrow> block list \<Rightarrow> fault + block option" where
  "check_batch parent prev [] = Inr prev"
| "check_batch parent prev (b # bs) =
     (case check_chain_continuity parent prev b of Inl e \<Rightarrow> Inl e | Inr _ \<Rightarrow> check_batch parent (Some b) bs)"

definition check_splice :: "string option \<Rightarrow> block option \<Rightarrow> block list \<Rightarrow> fault + unit" where
  "check_splice parent prev tail =
     (if prev = None then Inl BelowQueryNoDelivery
      else case tail of [] \<Rightarrow> Inr () | t # _ \<Rightarrow> check_chain_continuity parent prev t)"

definition stream_fault :: "stream_error \<Rightarrow> fault" where
  "stream_fault e = (case e of Fork prev \<Rightarrow> BelowQueryFork prev | Other f \<Rightarrow> f)"

fun backfill_items ::
    "string option \<Rightarrow> block option \<Rightarrow> block list \<Rightarrow> (stream_error + block_batch) list \<Rightarrow> (fault + block list) list" where
  "backfill_items parent prev tail [] = (case check_splice parent prev tail of Inl e \<Rightarrow> [Inl e] | Inr _ \<Rightarrow> [])"
| "backfill_items parent prev tail (Inl e # items) = [Inl (stream_fault e)]"
| "backfill_items parent prev tail (Inr batch # items) =
     (case check_batch parent prev (batch_blocks batch) of
        Inl e \<Rightarrow> [Inl e]
      | Inr prev' \<Rightarrow> Inr (batch_blocks batch) # backfill_items parent prev' tail items)"

type_synonym finalized_stream = "stream_request \<Rightarrow> (stream_error + block_batch) list"

text \<open>\<open>None\<close> is the failed assertion that something is missing.\<close>

definition below_query ::
    "chain \<Rightarrow> finalized_stream \<Rightarrow> u64 \<Rightarrow> string option \<Rightarrow> (query_error + data_response) option" where
  "below_query c stream from parent = do {
     first \<leftarrow> first_block c;
     fh \<leftarrow> Chain_Buffer.get_finalized_head c;
     let missing = saturating_add (saturating_sub (parent_number first) from) 1;
     if missing = 0 then None
     else
       let to = saturating_add from (missing - 1)
       in Some (case stream \<lparr>sr_from = from, sr_to = Some to, sr_parent_hash = parent\<rparr> of
              [] \<Rightarrow> Inl (Internal (BelowQueryNoBlocks from to))
            | Inl (Fork []) # _ \<Rightarrow> Inl (Internal BelowQueryForkEmpty)
            | Inl (Fork prev) # _ \<Rightarrow> Inl (InvalidBaseBlock prev)
            | Inl (Other e) # _ \<Rightarrow> Inl (Internal (BelowQueryStreamError e))
            | Inr batch # items \<Rightarrow>
                Inr \<lparr>resp_finalized_head = Some fh,
                     resp_head = Some (backfill_items parent None (snapshot c) (Inr batch # items)),
                     resp_tail = Some (snapshot c)\<rparr>)
   }"

subsection \<open>Waiting for a block\<close>

datatype watch_event = Watched u64 | SenderGone | WaitElapsed

text \<open>How many events of the watch channel pass before the wait returns.\<close>

fun wait_for_block :: "u64 \<Rightarrow> watch_event list \<Rightarrow> nat" where
  "wait_for_block n [] = 0"
| "wait_for_block n (Watched v # evs) = (if v \<ge> n then 0 else Suc (wait_for_block n evs))"
| "wait_for_block n (SenderGone # evs) = 0"
| "wait_for_block n (WaitElapsed # evs) = 0"

subsection \<open>Queries\<close>

record query_reads =
  qr_gate :: chain
  qr_snapshot :: chain
  qr_cache :: chain
  qr_watch :: "watch_event list"
  qr_later :: "nat \<Rightarrow> chain"

definition below_window :: "chain \<Rightarrow> u64 \<Rightarrow> bool option" where
  "below_window c from = do {
     first \<leftarrow> first_block c;
     Some (parent_number first \<noteq> number first \<and> from \<le> parent_number first)
   }"

definition classify_query ::
    "query_reads \<Rightarrow> finalized_stream \<Rightarrow> u64 \<Rightarrow> string option \<Rightarrow> (query_error + data_response \<times> query_class) option" where
  "classify_query qr stream from parent = do {
     below \<leftarrow> below_window (qr_gate qr) from;
     if below then do {
       answer \<leftarrow> below_query (qr_snapshot qr) stream from parent;
       Some (case answer of Inl e \<Rightarrow> Inl e | Inr resp \<Rightarrow> Inr (resp, Backfill))
     }
     else do {
       cached \<leftarrow> query_chain (qr_cache qr) from parent;
       (case cached of
          Inl prev \<Rightarrow> Some (Inl (InvalidBaseBlock prev))
        | Inr resp \<Rightarrow>
            if resp_tail resp \<noteq> None then Some (Inr (resp, Window))
            else do {
              later \<leftarrow> query_chain (qr_later qr (wait_for_block from (qr_watch qr))) from parent;
              Some (case later of
                      Inl prev \<Rightarrow> Inl (InvalidBaseBlock prev)
                    | Inr resp \<Rightarrow> Inr (resp, if resp_tail resp \<noteq> None then Window else WaitEmpty))
            })
     }
   }"

record query_outcome =
  qo_response :: data_response
  qo_class :: query_class

definition service_query ::
    "query_reads \<Rightarrow> finalized_stream \<Rightarrow> u64 \<Rightarrow> string option \<Rightarrow> (query_error + query_outcome) option" where
  "service_query qr stream from parent =
     map_option (\<lambda>r. case r of Inl e \<Rightarrow> Inl e | Inr (resp, cls) \<Rightarrow> Inr \<lparr>qo_response = resp, qo_class = cls\<rparr>)
       (classify_query qr stream from parent)"

definition compat_class :: "query_class \<Rightarrow> string" where
  "compat_class cls =
     (case cls of
        Backfill \<Rightarrow> ''backfill'' | Window \<Rightarrow> ''cache'' | WaitEmpty \<Rightarrow> ''cache''
      | Conflict \<Rightarrow> ''error'' | QueryClassError \<Rightarrow> ''error'')"

definition record_query_outcome :: "query_class \<Rightarrow> duration \<Rightarrow> service \<Rightarrow> service" where
  "record_query_outcome cls elapsed s = upd_metrics (\<lambda>m. record_query cls elapsed (inc_query (compat_class cls) m)) s"

definition response_budget :: "service \<Rightarrow> duration" where
  "response_budget s = unat (response_budget_ms s)"

subsection \<open>What an answer holds\<close>

text \<open>
  \<open>continuous parent bs\<close>: the first block names the requested parent, where one was given, and each other
  the block before it.  \<open>delivered\<close> is what a reader of a response gets: the blocks up to the first error,
  and that error.
\<close>

fun linked_to :: "(block \<Rightarrow> bool) \<Rightarrow> block list \<Rightarrow> bool" where
  "linked_to ok [] = True"
| "linked_to ok (b # bs) \<longleftrightarrow> ok b \<and> linked_to (is_chain b) bs"

definition names_parent :: "string option \<Rightarrow> block \<Rightarrow> bool" where
  "names_parent parent b = (case parent of Some ph \<Rightarrow> ph = parent_hash b | None \<Rightarrow> True)"

definition continuous :: "string option \<Rightarrow> block list \<Rightarrow> bool" where
  "continuous parent bs = linked_to (names_parent parent) bs"

fun delivered :: "(fault + block list) list \<Rightarrow> block list \<Rightarrow> block list \<times> fault option" where
  "delivered [] tail = (tail, None)"
| "delivered (Inl e # items) tail = ([], Some e)"
| "delivered (Inr bs # items) tail = (let (rest, e) = delivered items tail in (bs @ rest, e))"

definition answer_blocks :: "data_response \<Rightarrow> block list \<times> fault option" where
  "answer_blocks resp =
     delivered (case resp_head resp of Some items \<Rightarrow> items | None \<Rightarrow> [])
       (case resp_tail resp of Some tail \<Rightarrow> tail | None \<Rightarrow> [])"

definition after :: "string option \<Rightarrow> block option \<Rightarrow> block \<Rightarrow> bool" where
  "after parent prev = (case prev of Some p \<Rightarrow> is_chain p | None \<Rightarrow> names_parent parent)"

lemma linked_to_append:
  "linked_to ok (xs @ ys) \<longleftrightarrow> linked_to ok xs \<and> linked_to (if xs = [] then ok else is_chain (last xs)) ys"
  by (induction xs arbitrary: ok) auto

lemma linked_to_take: "linked_to ok bs \<Longrightarrow> linked_to ok (take n bs)"
  by (metis append_take_drop_id linked_to_append)

lemma linked_chain_linked_to: "linked_chain bs \<Longrightarrow> (bs \<noteq> [] \<Longrightarrow> ok (hd bs)) \<Longrightarrow> linked_to ok bs"
proof (induction bs arbitrary: ok)
  case (Cons a as)
  then have "linked_to (is_chain a) as" by (cases as) auto
  with Cons.prems(2) show ?case by simp
qed simp

lemma check_chain_continuity_iff: "check_chain_continuity parent prev b = Inr u \<longleftrightarrow> after parent prev b"
  by (auto simp: check_chain_continuity_def after_def names_parent_def is_chain_def split: option.splits)

lemma check_batch_iff:
  "check_batch parent prev bs = Inr prev' \<longleftrightarrow>
     linked_to (after parent prev) bs \<and> prev' = (if bs = [] then prev else Some (last bs))"
proof (induction bs arbitrary: prev)
  case (Cons b bs)
  have next_ok: "after parent (Some b) = is_chain b" by (simp add: after_def)
  show ?case
  proof (cases "after parent prev b")
    case True
    then have "check_chain_continuity parent prev b = Inr ()" by (simp add: check_chain_continuity_iff)
    then show ?thesis using Cons [of "Some b"] True by (simp add: next_ok)
  next
    case False
    then obtain e where "check_chain_continuity parent prev b = Inl e"
      using check_chain_continuity_iff [of parent prev b] by (cases "check_chain_continuity parent prev b") auto
    then show ?thesis using False by simp
  qed
qed auto

lemma backfill_items_delivered:
  assumes "delivered (backfill_items parent prev tail items) tail = (bs, err)" "linked_chain tail"
  shows "linked_to (after parent prev) bs \<and> (err = None \<longrightarrow> (\<exists>xs. bs = xs @ tail \<and> (prev = None \<longrightarrow> xs \<noteq> [])))"
  using assms
proof (induction parent prev tail items arbitrary: bs rule: backfill_items.induct)
  case (1 parent prev tail)
  show ?case
  proof (cases "check_splice parent prev tail")
    case (Inr u)
    then have p: "prev \<noteq> None" "tail \<noteq> [] \<Longrightarrow> after parent prev (hd tail)"
      by (auto simp: check_splice_def check_chain_continuity_iff split: if_splits list.splits)
    with 1 Inr show ?thesis by (auto intro: linked_chain_linked_to)
  qed (use 1 in auto)
next
  case (3 parent prev tail batch items)
  show ?case
  proof (cases "check_batch parent prev (batch_blocks batch)")
    case (Inr prev')
    obtain rest where rest: "delivered (backfill_items parent prev' tail items) tail = (rest, err)" "bs = batch_blocks batch @ rest"
      using "3.prems"(1) Inr by (auto split: prod.splits)
    have ih: "linked_to (after parent prev') rest \<and>
        (err = None \<longrightarrow> (\<exists>xs. rest = xs @ tail \<and> (prev' = None \<longrightarrow> xs \<noteq> [])))"
      using "3.IH" [OF Inr rest(1)] "3.prems"(2) by blast
    have b: "linked_to (after parent prev) (batch_blocks batch)"
        "prev' = (if batch_blocks batch = [] then prev else Some (last (batch_blocks batch)))"
      using Inr by (simp_all add: check_batch_iff)
    have "linked_to (after parent prev) bs" using ih b by (auto simp: rest(2) linked_to_append after_def)
    moreover have "\<exists>xs. bs = xs @ tail \<and> (prev = None \<longrightarrow> xs \<noteq> [])" if "err = None"
    proof -
      from ih that obtain xs where "rest = xs @ tail" "prev' = None \<longrightarrow> xs \<noteq> []" by blast
      then show ?thesis using b(2) rest(2) by (intro exI [of _ "batch_blocks batch @ xs"]) (auto split: if_splits)
    qed
    ultimately show ?thesis by blast
  qed (use 3 in auto)
qed auto

text \<open>
  What an accepted query serves: blocks that are continuous from the requested parent on; all the held
  blocks from the requested height on, or a backfill followed by the whole buffer, or nothing after a wait;
  and only a backfill can fail half-way.
\<close>

definition reads_ok :: "query_reads \<Rightarrow> bool" where
  "reads_ok qr \<longleftrightarrow>
     chain_inv (qr_gate qr) \<and> chain_inv (qr_snapshot qr) \<and> chain_inv (qr_cache qr) \<and> (\<forall>k. chain_inv (qr_later qr k))"

definition read_chain :: "query_reads \<Rightarrow> chain \<Rightarrow> bool" where
  "read_chain qr c \<longleftrightarrow> c = qr_snapshot qr \<or> c = qr_cache qr \<or> (\<exists>k. c = qr_later qr k)"

definition serves :: "u64 \<Rightarrow> query_class \<Rightarrow> chain \<Rightarrow> block list \<Rightarrow> fault option \<Rightarrow> bool" where
  "serves from cls c bs err \<longleftrightarrow>
     (case cls of
        Window \<Rightarrow> err = None \<and> bs \<noteq> [] \<and> bs = filter (\<lambda>b. from \<le> number b) (blocks c)
      | WaitEmpty \<Rightarrow> err = None \<and> bs = []
      | Backfill \<Rightarrow> err = None \<longrightarrow> (\<exists>xs. xs \<noteq> [] \<and> bs = xs @ blocks c)
      | _ \<Rightarrow> False)"

definition answer_ok :: "query_reads \<Rightarrow> u64 \<Rightarrow> string option \<Rightarrow> data_response \<Rightarrow> query_class \<Rightarrow> bool" where
  "answer_ok qr from parent resp cls \<longleftrightarrow>
     (\<exists>c bs err. read_chain qr c \<and> answer_blocks resp = (bs, err) \<and> continuous parent bs \<and> serves from cls c bs err \<and>
        (\<forall>fh. resp_finalized_head resp = Some fh \<longrightarrow> fh = block_ref_of (blocks c ! finalized_head c)))"

lemma query_chain_shape:
  assumes "chain_inv c" "query_chain c from parent = Some (Inr resp)"
  shows "resp_head resp = None"
    "\<And>fh. resp_finalized_head resp = Some fh \<Longrightarrow> fh = block_ref_of (blocks c ! finalized_head c)"
proof -
  have "resp_head resp = None \<and>
    (\<forall>fh. resp_finalized_head resp = Some fh \<longrightarrow> fh = block_ref_of (blocks c ! finalized_head c))"
    using assms(1) by (cases rule: query_chain_cases [where start = "from" and base = parent]) (use assms(2) in auto)
  then show "resp_head resp = None"
    "\<And>fh. resp_finalized_head resp = Some fh \<Longrightarrow> fh = block_ref_of (blocks c ! finalized_head c)" by auto
qed

lemma cache_answer_ok:
  assumes "chain_inv c" "read_chain qr c" "query_chain c from parent = Some (Inr resp)"
  shows "resp_tail resp \<noteq> None \<Longrightarrow> answer_ok qr from parent resp Window"
    "resp_tail resp = None \<Longrightarrow> answer_ok qr from parent resp WaitEmpty"
proof -
  note shape = query_chain_shape [OF assms(1,3)]
  show "answer_ok qr from parent resp Window" if some: "resp_tail resp \<noteq> None"
  proof -
    obtain tail where t: "resp_tail resp = Some tail" using some by auto
    note facts = query_tail [OF assms(1,3) t]
    have "continuous parent tail"
      unfolding continuous_def using facts(2,3,5)
      by (intro linked_chain_linked_to) (auto simp: names_parent_def split: option.splits)
    then show ?thesis using assms(2) shape facts(1,2) t
      by (auto simp: answer_ok_def answer_blocks_def serves_def intro!: exI [of _ c])
  qed
  show "answer_ok qr from parent resp WaitEmpty" if "resp_tail resp = None"
    using assms(2) shape that
    by (auto simp: answer_ok_def answer_blocks_def serves_def continuous_def intro!: exI [of _ c])
qed

lemma below_query_ok:
  assumes inv: "chain_inv (qr_snapshot qr)"
  shows "\<exists>answer. below_query (qr_snapshot qr) stream from parent = Some answer \<and>
    (case answer of
       Inl (InvalidBaseBlock prev) \<Rightarrow> prev \<noteq> []
     | Inl (Internal e) \<Rightarrow> True
     | Inr resp \<Rightarrow> answer_ok qr from parent resp Backfill)"
proof -
  let ?c = "qr_snapshot qr"
  let ?m = "saturating_add (saturating_sub (parent_number (hd (blocks ?c))) from) 1"
  have "unat ?m \<noteq> 0" by (simp add: unat_saturating_add)
  then have m: "?m \<noteq> 0" by (metis unat_0)
  note getters = chain_getters [OF inv]
  let ?to = "saturating_add from (?m - 1)"
  define items where "items = stream \<lparr>sr_from = from, sr_to = Some ?to, sr_parent_hash = parent\<rparr>"
  have eq: "below_query ?c stream from parent =
      Some (case items of
          [] \<Rightarrow> Inl (Internal (BelowQueryNoBlocks from ?to))
        | Inl (Fork []) # _ \<Rightarrow> Inl (Internal BelowQueryForkEmpty)
        | Inl (Fork prev) # _ \<Rightarrow> Inl (InvalidBaseBlock prev)
        | Inl (Other e) # _ \<Rightarrow> Inl (Internal (BelowQueryStreamError e))
        | Inr batch # items \<Rightarrow>
            Inr \<lparr>resp_finalized_head = Some (block_ref_of (blocks ?c ! finalized_head ?c)),
                 resp_head = Some (backfill_items parent None (snapshot ?c) (Inr batch # items)),
                 resp_tail = Some (snapshot ?c)\<rparr>)"
    using m by (simp add: below_query_def getters Let_def items_def)
  have backfill: "answer_ok qr from parent
      \<lparr>resp_finalized_head = Some (block_ref_of (blocks ?c ! finalized_head ?c)),
       resp_head = Some (backfill_items parent None (snapshot ?c) its), resp_tail = Some (snapshot ?c)\<rparr> Backfill" for its
  proof -
    obtain bs err where d: "delivered (backfill_items parent None (snapshot ?c) its) (snapshot ?c) = (bs, err)" by fastforce
    have tail: "snapshot ?c = blocks ?c" "linked_chain (blocks ?c)" using chain_invD(2) [OF inv] by (simp_all add: snapshot_def)
    have "linked_to (after parent None) bs \<and> (err = None \<longrightarrow> (\<exists>xs. bs = xs @ blocks ?c \<and> xs \<noteq> []))"
      using backfill_items_delivered [OF d] tail by simp
    then show ?thesis using d
      by (auto simp: answer_ok_def answer_blocks_def serves_def read_chain_def continuous_def after_def intro!: exI [of _ ?c])
  qed
  show ?thesis unfolding eq
    using backfill by (auto simp del: backfill_items.simps split: list.splits sum.splits stream_error.splits)
qed

lemma classify_query_ok:
  assumes "reads_ok qr"
  shows "\<exists>answer. classify_query qr stream from parent = Some answer \<and>
    (case answer of
       Inl (InvalidBaseBlock prev) \<Rightarrow> prev \<noteq> []
     | Inl (Internal e) \<Rightarrow> below_window (qr_gate qr) from = Some True
     | Inr (resp, cls) \<Rightarrow> answer_ok qr from parent resp cls)"
proof -
  have inv: "chain_inv (qr_gate qr)" "chain_inv (qr_snapshot qr)" "chain_inv (qr_cache qr)" "\<And>k. chain_inv (qr_later qr k)"
    using assms by (auto simp: reads_ok_def)
  obtain below where below: "below_window (qr_gate qr) from = Some below"
    using chain_getters [OF inv(1)] by (auto simp: below_window_def)
  have conflict: "prev \<noteq> []" if "chain_inv c" "query_chain c from parent = Some (Inl prev)" for c prev
    using that(1) conflict_refs_facts(1) tip_refs_facts(1) chain_invD(8) [OF that(1)]
    by (cases rule: query_chain_cases [where start = "from" and base = parent]) (use that(2) in \<open>auto\<close>)
  have total: "\<exists>a. query_chain c from parent = Some a" if "chain_inv c" for c
    using that by (cases rule: query_chain_cases [where start = "from" and base = parent]) auto
  show ?thesis
  proof (cases below)
    case True
    then show ?thesis
      using below below_query_ok [OF inv(2), of stream "from" parent]
      by (fastforce simp: classify_query_def split: sum.splits query_error.splits)
  next
    case False
    obtain cached where cached: "query_chain (qr_cache qr) from parent = Some cached" using total [OF inv(3)] by blast
    let ?later = "qr_later qr (wait_for_block from (qr_watch qr))"
    obtain later where later: "query_chain ?later from parent = Some later" using total [OF inv(4)] by blast
    have read: "read_chain qr (qr_cache qr)" "read_chain qr ?later" by (auto simp: read_chain_def)
    show ?thesis
      using False below cached later conflict [OF inv(3)] conflict [OF inv(4)] cache_answer_ok [OF inv(3) read(1)]
        cache_answer_ok [OF inv(4) read(2)]
      by (auto simp: classify_query_def simp del: not_None_eq split: sum.splits)
  qed
qed

text \<open>
  A compaction between the check of the window and the read of the buffer: the query is answered as an
  expired wait without a finalized head, although the requested block is now below the window and a
  backfill would serve it.
\<close>

lemma compacted_under_query:
  assumes "below_window (qr_gate qr) from = Some False" "below_window (qr_cache qr) from = Some True"
    and "\<And>k. below_window (qr_later qr k) from = Some True"
  shows "classify_query qr stream from parent =
    Some (Inr (\<lparr>resp_finalized_head = None, resp_head = None, resp_tail = None\<rparr>, WaitEmpty))"
proof -
  have "query_chain c from parent = Some (Inr \<lparr>resp_finalized_head = None, resp_head = None, resp_tail = None\<rparr>)"
    if "below_window c from = Some True" for c
    using that by (auto simp: below_window_def query_chain_def split: bind_splits)
  then show ?thesis using assms by (simp add: classify_query_def)
qed

end
