(* ===== verification/Service_Headers.thy ===== *)
theory Service_Headers
  imports Service_Run
begin

text \<open>
  Every block the service holds has hashes that can be written into a response header: validation refuses
  the others before they reach the buffer, and no step of the run brings in a block that was not
  validated.  The response path relies on it, as it unwraps the conversion.
\<close>

definition safe_block :: "block \<Rightarrow> bool" where
  "safe_block b \<longleftrightarrow> hash_ok (hash b) \<and> hash_ok (parent_hash b)"

definition safe_chain :: "chain \<Rightarrow> bool" where
  "safe_chain c \<longleftrightarrow> (\<forall>b \<in> set (blocks c). safe_block b)"

definition safe_service :: "service \<Rightarrow> bool" where
  "safe_service s \<longleftrightarrow> (\<forall>c. svc_chain s = Some c \<longrightarrow> safe_chain c)"

subsection \<open>A batch\<close>

lemma push_result_blocks:
  "push_result bs f nb = Some bs' \<Longrightarrow> set bs' \<subseteq> insert nb (set bs)"
  by (auto simp: push_result_def dest: in_set_takeD split: option.splits if_splits)

lemma push_blocks:
  assumes "chain_inv c" "push c nb = Some (r, c')"
  shows "set (blocks c') \<subseteq> insert nb (set (blocks c))"
  using push_result_correct [OF assms(1), of nb] assms(2) push_result_blocks [of "blocks c" "finalized_head c" nb]
  by (auto split: option.splits)

lemma push_inv: "chain_inv c \<Longrightarrow> push c nb = Some (r, c') \<Longrightarrow> chain_inv c'"
  using chain_push.each_total [of c "[nb]"] by (auto split: if_splits)

lemma push_loop_blocks:
  "chain_inv c \<Longrightarrow> push_loop clk i bs c = Some (res, c') \<Longrightarrow> set (blocks c') \<subseteq> set bs \<union> set (blocks c)"
proof (induction bs arbitrary: i c res)
  case (Cons b bs)
  obtain r c1 where p: "push c b = Some (r, c1)" using push_result_correct [OF Cons.prems(1), of b] by blast
  note 1 = push_blocks [OF Cons.prems(1) p] push_inv [OF Cons.prems(1) p]
  show ?case
  proof (cases r)
    case (Inl e)
    then show ?thesis using Cons.prems(2) p 1 by auto
  next
    case (Inr out)
    then obtain res1 where "push_loop clk (Suc i) bs c1 = Some (res1, c')"
      using Cons.prems(2) p by (auto split: bind_splits sum.splits)
    then show ?thesis using Cons.IH [OF 1(2)] 1(1) by fastforce
  qed
qed simp

lemma settle_max_blocks: "chain_inv c \<Longrightarrow> settle_max c fmax = Some (r, c') \<Longrightarrow> blocks c' = blocks c"
  using settle_max_total [of c fmax] by (metis option.inject prod.inject)

lemma apply_batch_blocks:
  assumes "chain_inv c" "apply_batch_locked clk c batch fmax = Some (Inr ins, c', fmax')"
  shows "set (blocks c') \<subseteq> set (batch_blocks batch) \<union> set (blocks c)"
proof -
  have step: "set (blocks c1) \<subseteq> set (batch_blocks batch) \<union> set (blocks c) \<and> chain_inv c1"
    if "push_loop clk 0 (batch_blocks batch) c = Some (res, c1)" for res c1
    using push_loop_blocks [OF assms(1) that] push_loop_total [OF assms(1), of clk 0 "batch_blocks batch"] that
    by (metis option.inject prod.inject)
  show ?thesis
    using assms(1)
  proof (cases rule: apply_batch_cases [where clk = clk and batch = batch and fmax = fmax])
    case (raised ins' c1 c2 r res c3)
    have c2: "blocks c2 = blocks c1" "chain_inv c2"
      using settle_max_total [of c1 fmax] step [OF raised(2)] raised(3) by (metis option.inject prod.inject)+
    then have "blocks c3 = blocks c1" using settle_max_blocks [OF c2(2) raised(6)] by simp
    then show ?thesis using step [OF raised(2)] raised(7) assms(2) by (cases res) auto
  next
    case (unraised ins' c1 c2)
    have "blocks c2 = blocks c1" using settle_max_blocks step [OF unraised(2)] unraised(3) by blast
    then show ?thesis using step [OF unraised(2)] unraised(5) assms(2) by auto
  qed (use assms(2) in auto)
qed

lemma ingest_batch_safe:
  assumes "svc_inv s" "safe_service s" "batch_ok batch" "ingest_batch clk batch s ses = Some (res, s', ses')"
  shows "safe_service s'"
proof -
  obtain c where c: "svc_chain s = Some c" "chain_inv c" using assms(1) by (auto simp: svc_inv_def)
  have safe: "\<forall>b \<in> set (batch_blocks batch) \<union> set (blocks c). safe_block b"
    using assms(2,3) c(1) by (auto simp: safe_service_def safe_chain_def safe_block_def batch_ok_def)
  from assms(1) c(1) show ?thesis
  proof (cases rule: ingest_batch_cases [where clk = clk and batch = batch and ses = ses])
    case (rejected e c1 fmax)
    then show ?thesis using assms(2,4) by (simp add: safe_service_def)
  next
    case (committed ins c1 fmax k c2 s2)
    have "set (blocks c2) \<subseteq> set (blocks (commit_batch c1))"
      using compact_finality(2) [OF commit_batch_inv [OF committed(2)] committed(4)] .
    also have "\<dots> \<subseteq> set (batch_blocks batch) \<union> set (blocks (begin_batch c))"
      using apply_batch_blocks [OF begin_batch_open(1) [OF c(2)] committed(1)] by (simp add: commit_batch_def)
    finally have "set (blocks c2) \<subseteq> set (batch_blocks batch) \<union> set (blocks c)" by (simp add: begin_batch_def)
    then show ?thesis using safe committed(5,6) assms(4) by (auto simp: safe_service_def safe_chain_def)
  qed
qed

subsection \<open>The run\<close>

lemma ingest_item_safe:
  assumes "svc_inv s" "safe_service s" "ingest_item clk ev s ses = Some (st, s', ses')"
  shows "safe_service s'"
proof (cases "\<exists>batch. ev = StreamItem (Inr batch) \<and> \<not> stopped s \<and> validate_ingest_batch batch = Inr ()")
  case True
  then obtain batch where ev: "ev = StreamItem (Inr batch)" "\<not> stopped s" "validate_ingest_batch batch = Inr ()" by blast
  then obtain res where "ingest_batch clk batch s ses = Some (res, s', ses')"
    using assms(3) by (auto simp: ingest_item_def split: bind_splits)
  then show ?thesis using ingest_batch_safe [OF assms(1,2)] ev(3) by (simp add: validate_ingest_batch_iff)
next
  case False
  then have "svc_chain s' = svc_chain s"
    using assms(3)
    by (auto simp: ingest_item_def split: stream_event.splits sum.splits stream_error.splits if_splits)
  then show ?thesis using assms(2) by (simp add: safe_service_def)
qed

lemma init_service_safe:
  assumes "svc_inv s \<or> svc_chain s = None" "safe_service s" "init_service now_ms head item s = Some (res, s')"
  shows "safe_service s'"
  using assms(1)
proof (cases rule: init_service_cases [where now_ms = now_ms and head = head and item = item])
  case (seeded seed report s2)
  have "safe_block seed" using seeded(4) by (simp add: batch_ok_def safe_block_def)
  then show ?thesis using seeded(7,9) chain_new_inv(1) [OF seeded(1,5)] assms(3)
    by (auto simp: safe_service_def safe_chain_def)
qed (use assms(2,3) in auto)

lemma run_step_safe:
  assumes "run_inv r" "safe_service (rs_service r)" "run_step display i r = Some r'"
  shows "safe_service (rs_service r')"
proof -
  have sinv: "svc_inv (rs_service r)" using assms(1) by (simp add: run_inv_def)
  consider (top) now_ms head item clk ev where "i = Go now_ms head item clk ev" "rs_pc r = AtTop"
    | (item) now_ms head item clk ev where "i = Go now_ms head item clk ev" "rs_pc r = InSession"
    | (rest) "svc_chain (rs_service r') = svc_chain (rs_service r)"
    using assms(3)
    by (cases i; cases "rs_pc r")
      (auto simp: run_step_def stop_def refresh_upstream_head_def dest: run_verdict_chain split: option.splits sum.splits)
  then show ?thesis
  proof cases
    case top
    show ?thesis
    proof (cases "stop_requested (rs_service r) \<or> \<not> rs_stacked r > 5")
      case True
      then show ?thesis using top assms(2,3) by (auto simp: run_step_def run_top_def split: if_splits)
    next
      case False
      then obtain res s' where s': "init_service now_ms head item (rs_service r) = Some (res, s')"
        using top assms(3) by (cases "init_service now_ms head item (rs_service r)") (auto simp: run_step_def run_top_def Let_def)
      then have "svc_chain (rs_service r') = svc_chain s'"
        using False top assms(3)
        by (auto simp: run_step_def run_top_def Let_def split: bind_splits sum.splits fault.splits)
      then show ?thesis
        using init_service_safe [OF disjI1 [OF sinv] assms(2) s'] by (simp add: safe_service_def)
    qed
  next
    case item
    then show ?thesis using assms(3) ingest_item_safe [OF sinv assms(2)] by (auto simp: run_step_def split: bind_splits)
  next
    case rest
    then show ?thesis using assms(2) by (simp add: safe_service_def)
  qed
qed

lemma run_steps_safe:
  "run_inv r \<Longrightarrow> safe_service (rs_service r) \<Longrightarrow> run_steps display is r = Some r' \<Longrightarrow> safe_service (rs_service r')"
proof (induction "is" arbitrary: r)
  case (Cons i "is")
  obtain r1 where r1: "run_step display i r = Some r1" "run_inv r1" using run_step_total [OF Cons.prems(1), of display i] by blast
  then show ?case using Cons.IH [OF r1(2) run_step_safe [OF Cons.prems(1,2) r1(1)]] Cons.prems(3) by simp
qed simp

end
