(* ===== verification/Http.thy ===== *)
theory Http
  imports Service_Query Service_Headers Json
begin

text \<open>
  The HTTP application (\<open>http.rs\<close>): what each handler answers, with the \<open>/stream\<close> handler in full, from the
  request body to the records of the response and the reason the body ends.

  axum, hyper, serde, zstd and flate2 are parameters (\<open>http_lib\<close>).  What the surroundings decide is input of
  the handler: the buffers it reads, whether a wait ended within the budget, and the fate of each send.
\<close>

subsection \<open>Requests, responses and libraries\<close>

record http_stream_request =
  hs_from_block :: u64
  hs_parent_block_hash :: "string option"

datatype body_read = BodyBytes bytes | BodyTooLarge | BodyUnreadable

record frame =
  fr_bytes :: bytes
  fr_number :: u64
  fr_hash :: string
  fr_source :: string

datatype http_body =
    NoBody
  | Plain string
  | RefJson block_ref
  | MetricsJson json
  | PreviousBlocks "block_ref list"
  | Records "frame list"

record http_response =
  rsp_status :: nat
  rsp_headers :: "string \<rightharpoonup> string"
  rsp_body :: http_body

record http_lib =
  parse_request :: "bytes \<Rightarrow> string + http_stream_request"
  decode_all :: "bytes \<Rightarrow> fault + bytes"
  gzip :: "bytes \<Rightarrow> fault + bytes"
  fault_chain :: "fault \<Rightarrow> string"

definition respond :: "nat \<Rightarrow> http_body \<Rightarrow> http_response" where
  "respond status body = \<lparr>rsp_status = status, rsp_headers = Map.empty, rsp_body = body\<rparr>"

subsection \<open>The plain handlers\<close>

definition handle_root :: http_response where
  "handle_root = respond 200 (Plain ''Welcome to hot block data service!'')"

text \<open>\<open>None\<close>: the buffer is not there yet, which panics the request.\<close>

definition handle_head :: "service \<Rightarrow> http_response option" where
  "handle_head s = map_option (\<lambda>r. respond 200 (RefJson r)) (service_head s)"

definition handle_finalized_head :: "service \<Rightarrow> http_response option" where
  "handle_finalized_head s = map_option (\<lambda>r. respond 200 (RefJson r)) (service_finalized_head s)"

definition handle_readiness :: "instant \<Rightarrow> service \<Rightarrow> http_response option" where
  "handle_readiness now s =
     map_option (\<lambda>ready. if ready then respond 200 (Plain ''true'') else respond 503 (Plain ''false'')) (is_ready now s)"

text \<open>\<open>json\<close> and \<open>text\<close> are the renderings of the registry after its levels were refreshed.\<close>

definition handle_metrics :: "string option \<Rightarrow> string + json \<Rightarrow> string + string \<Rightarrow> http_response" where
  "handle_metrics json_param as_json as_text =
     (if json_param = Some ''true'' then
        (case as_json of
           Inr v \<Rightarrow> respond 200 (MetricsJson v)
         | Inl e \<Rightarrow> respond 500 (Plain ''metrics serialization error''))
      else
        (case as_text of
           Inr t \<Rightarrow>
             (respond 200 (Plain t))\<lparr>rsp_headers := [''content-type'' \<mapsto> ''text/plain; version=0.0.4; charset=utf-8'']\<rparr>
         | Inl e \<Rightarrow> respond 500 (Plain (''metrics error: '' @ e))))"

definition handle_metrics_name :: "string option \<Rightarrow> http_response" where
  "handle_metrics_name found =
     (case found of
        Some t \<Rightarrow> respond 200 (Plain t)
      | None \<Rightarrow> respond 404 (Plain ''requested metric not found''))"

definition handle_block_time :: "instant \<Rightarrow> string \<Rightarrow> service \<Rightarrow> http_response" where
  "handle_block_time now height s =
     (case get_block_ingestion_timestamp now height (timestamp_cache s) of
        Some ts \<Rightarrow> respond 200 (Plain (decimal (unat ts)))
      | None \<Rightarrow> respond 404 (Plain ''Timestamp not found for the specified block''))"

definition note_acceptance :: "u64 \<Rightarrow> service \<Rightarrow> service" where
  "note_acceptance now_ms s = upd_metrics (record_first_acceptance now_ms) s"

subsection \<open>Records\<close>

definition encode_block :: "http_lib \<Rightarrow> bool \<Rightarrow> block \<Rightarrow> fault + bytes" where
  "encode_block lib use_zstd b =
     (if use_zstd then Inr (json_line_zstd b)
      else case decode_all lib (json_line_zstd b) of Inl e \<Rightarrow> Inl e | Inr raw \<Rightarrow> gzip lib raw)"

definition encode_frame :: "http_lib \<Rightarrow> bool \<Rightarrow> block \<times> string \<Rightarrow> fault + frame" where
  "encode_frame lib use_zstd = (\<lambda>(b, source).
     case encode_block lib use_zstd b of
       Inl e \<Rightarrow> Inl e
     | Inr bytes \<Rightarrow> Inr \<lparr>fr_bytes = bytes, fr_number = number b, fr_hash = hash b, fr_source = source\<rparr>)"

fun stream_records :: "(fault + block list) list \<Rightarrow> block list \<Rightarrow> (fault + block \<times> string) list" where
  "stream_records [] tail = map (\<lambda>b. Inr (b, ''tail'')) tail"
| "stream_records (Inl e # items) tail = [Inl e]"
| "stream_records (Inr bs # items) tail = map (\<lambda>b. Inr (b, ''head'')) bs @ stream_records items tail"

definition block_stream :: "(fault + block list) list option \<Rightarrow> block list \<Rightarrow> (fault + block \<times> string) list" where
  "block_stream head tail = stream_records (case head of Some items \<Rightarrow> items | None \<Rightarrow> []) tail"

text \<open>The conversion of the hash to a header value is unwrapped: \<open>None\<close> is its panic.\<close>

definition insert_finalized_head :: "(string \<rightharpoonup> string) \<Rightarrow> block_ref \<Rightarrow> (string \<rightharpoonup> string) option" where
  "insert_finalized_head headers fh =
     (if is_header_safe_hash (ref_hash fh)
      then Some (headers(''x-sqd-finalized-head-number'' \<mapsto> decimal (unat (ref_number fh)),
                         ''x-sqd-finalized-head-hash'' \<mapsto> ref_hash fh))
      else None)"

subsection \<open>The body\<close>

datatype send_result = SendElapsed | SendClosed | SendDone

text \<open>
  One turn of the sender: the fate of the frame in hand, the time elapsed when the next record is asked
  for, and whether it comes within the rest of the budget.
\<close>

record body_event =
  be_send :: send_result
  be_elapsed :: duration
  be_in_time :: bool

datatype body_end = Running | Complete | Truncated truncation_cause

fun send_records ::
    "http_lib \<Rightarrow> bool \<Rightarrow> duration \<Rightarrow> body_event list \<Rightarrow> frame \<Rightarrow> (fault + block \<times> string) list \<Rightarrow> frame list \<times> body_end" where
  "send_records lib use_zstd budget [] f items = ([], Running)"
| "send_records lib use_zstd budget (ev # evs) f items =
     (case be_send ev of
        SendElapsed \<Rightarrow> ([], Truncated TruncBudget)
      | SendClosed \<Rightarrow> ([], Truncated TruncDisconnect)
      | SendDone \<Rightarrow>
          if budget - be_elapsed ev = 0 then ([f], Truncated TruncBudget)
          else if \<not> be_in_time ev then ([f], Truncated TruncBudget)
          else
            case items of
              [] \<Rightarrow> ([f], Complete)
            | Inl e # _ \<Rightarrow> ([f], Truncated TruncError)
            | Inr rec # rest \<Rightarrow>
                (case encode_frame lib use_zstd rec of
                   Inl e \<Rightarrow> ([f], Truncated TruncError)
                 | Inr f' \<Rightarrow> let (fs, end) = send_records lib use_zstd budget evs f' rest in (f # fs, end)))"

definition note_end :: "body_end \<Rightarrow> service \<Rightarrow> service" where
  "note_end end s = (case end of Truncated cause \<Rightarrow> upd_metrics (record_truncation cause) s | _ \<Rightarrow> s)"

subsection \<open>The stream handler\<close>

record stream_call =
  sc_accept_encoding :: "string option"
  sc_body :: body_read
  sc_verdict_in_time :: bool
  sc_reads :: query_reads
  sc_source :: finalized_stream
  sc_at_expiry :: chain
  sc_first_in_time :: bool
  sc_settled_after :: duration
  sc_events :: "body_event list"

type_synonym stream_answer = "http_response \<times> body_end \<times> service"

definition internal_error :: "http_lib \<Rightarrow> fault \<Rightarrow> http_response" where
  "internal_error lib e = respond 500 (Plain (''Internal server error'' @ [CHR 0x0A, CHR 0x0A] @ fault_chain lib e))"

definition no_content :: "(string \<rightharpoonup> string) \<Rightarrow> http_response" where
  "no_content headers = \<lparr>rsp_status = 204, rsp_headers = headers, rsp_body = NoBody\<rparr>"

definition stream_headers :: "bool \<Rightarrow> (string \<rightharpoonup> string) \<Rightarrow> string \<rightharpoonup> string" where
  "stream_headers use_zstd headers =
     headers(''content-type'' \<mapsto> ''text/plain; charset=UTF-8'',
             ''content-encoding'' \<mapsto> (if use_zstd then ''zstd'' else ''gzip''),
             ''vary'' \<mapsto> ''Accept-Encoding'')"

text \<open>
  From the outcome of an accepted query to the response: the first record is produced before the status is
  chosen, the others are sent by the body.
\<close>

definition serve_outcome ::
    "http_lib \<Rightarrow> stream_call \<Rightarrow> (query_class \<Rightarrow> service \<Rightarrow> service) \<Rightarrow> query_outcome \<Rightarrow> service \<Rightarrow> stream_answer option" where
  "serve_outcome lib call settle outcome s = do {
     let resp = qo_response outcome;
     headers \<leftarrow> (case resp_finalized_head resp of
                   Some fh \<Rightarrow> insert_finalized_head Map.empty fh
                 | None \<Rightarrow> Some Map.empty);
     let tail = (case resp_tail resp of Some t \<Rightarrow> t | None \<Rightarrow> []);
     if resp_head resp = None \<and> tail = [] then Some (no_content headers, Complete, settle WaitEmpty s)
     else
       let use_zstd = str_contains (case sc_accept_encoding call of Some a \<Rightarrow> a | None \<Rightarrow> []) ''zstd''
       in Some (if \<not> sc_first_in_time call then (no_content headers, Complete, settle WaitEmpty s)
            else case block_stream (resp_head resp) tail of
                   [] \<Rightarrow> (no_content headers, Complete, settle WaitEmpty s)
                 | Inl e # _ \<Rightarrow> (internal_error lib e, Complete, settle QueryClassError s)
                 | Inr rec # rest \<Rightarrow>
                     (case encode_frame lib use_zstd rec of
                        Inl e \<Rightarrow> (internal_error lib e, Complete, settle QueryClassError s)
                      | Inr first \<Rightarrow>
                          let (frames, end) = send_records lib use_zstd (response_budget s) (sc_events call) first rest
                          in (\<lparr>rsp_status = 200, rsp_headers = stream_headers use_zstd headers, rsp_body = Records frames\<rparr>,
                              end, note_end end (settle (qo_class outcome) s))))
   }"

definition handle_stream :: "http_lib \<Rightarrow> stream_call \<Rightarrow> service \<Rightarrow> stream_answer option" where
  "handle_stream lib call s =
     (let settle = (\<lambda>cls. record_query_outcome cls (sc_settled_after call))
      in case sc_body call of
           BodyTooLarge \<Rightarrow> Some (respond 413 (Plain ''request body too large''), Complete, s)
         | BodyUnreadable \<Rightarrow> Some (respond 400 (Plain ''request body unreadable''), Complete, s)
         | BodyBytes bytes \<Rightarrow>
             (case parse_request lib bytes of
                Inl e \<Rightarrow> Some (respond 400 (Plain (''invalid request: '' @ e)), Complete, s)
              | Inr req \<Rightarrow>
                  if \<not> sc_verdict_in_time call then do {
                    fh \<leftarrow> Chain_Buffer.get_finalized_head (sc_at_expiry call);
                    headers \<leftarrow> insert_finalized_head Map.empty fh;
                    Some (no_content headers, Complete, settle WaitEmpty s)
                  }
                  else do {
                    result \<leftarrow> service_query (sc_reads call) (sc_source call) (hs_from_block req) (hs_parent_block_hash req);
                    (case result of
                       Inl (InvalidBaseBlock prev) \<Rightarrow> Some (respond 409 (PreviousBlocks prev), Complete, settle Conflict s)
                     | Inl (Internal e) \<Rightarrow> Some (internal_error lib e, Complete, settle QueryClassError s)
                     | Inr outcome \<Rightarrow> serve_outcome lib call settle outcome s)
                  }))"

subsection \<open>What a body holds\<close>

definition frame_of :: "http_lib \<Rightarrow> bool \<Rightarrow> block \<Rightarrow> frame \<Rightarrow> bool" where
  "frame_of lib use_zstd b f \<longleftrightarrow>
     encode_block lib use_zstd b = Inr (fr_bytes f) \<and> fr_number f = number b \<and> fr_hash f = hash b"

lemma encode_frame_of: "encode_frame lib use_zstd (b, source) = Inr f \<Longrightarrow> frame_of lib use_zstd b f"
  by (auto simp: encode_frame_def frame_of_def split: sum.splits)

text \<open>The records of a body: the blocks an answer delivers, then its error.\<close>

definition recorded :: "block list \<Rightarrow> fault option \<Rightarrow> (fault + block \<times> string) list \<Rightarrow> bool" where
  "recorded bs err items \<longleftrightarrow>
     (\<exists>sources. length sources = length bs \<and>
        items = map Inr (zip bs sources) @ (case err of Some e \<Rightarrow> [Inl e] | None \<Rightarrow> []))"

lemma recorded_same: "recorded bs None (map (\<lambda>b. Inr (b, source)) bs)"
  unfolding recorded_def by (intro exI [of _ "replicate (length bs) source"]) (simp add: zip_replicate2)

lemma recorded_append:
  assumes "recorded bs err items"
  shows "recorded (cs @ bs) err (map (\<lambda>b. Inr (b, source)) cs @ items)"
proof -
  obtain sources where "length sources = length bs"
      "items = map Inr (zip bs sources) @ (case err of Some e \<Rightarrow> [Inl e] | None \<Rightarrow> [])"
    using assms by (auto simp: recorded_def)
  then show ?thesis unfolding recorded_def
    by (intro exI [of _ "replicate (length cs) source @ sources"]) (simp add: zip_replicate2)
qed

lemma stream_records_recorded: "delivered items tail = (bs, err) \<Longrightarrow> recorded bs err (stream_records items tail)"
proof (induction items tail arbitrary: bs rule: stream_records.induct)
  case (1 tail)
  then show ?case by (auto simp: recorded_same)
next
  case (3 cs items tail)
  then show ?case by (auto split: prod.splits intro: recorded_append)
qed (auto simp: recorded_def)

lemma recorded_cases:
  assumes "recorded bs err items"
  obtains (finished) "bs = []" "items = []" "err = None"
  | (failed) e rest where "bs = []" "items = Inl e # rest" "err \<noteq> None"
  | (next_record) b source bs' rest where "bs = b # bs'" "items = Inr (b, source) # rest" "recorded bs' err rest"
proof -
  obtain sources where s: "length sources = length bs"
      "items = map Inr (zip bs sources) @ (case err of Some e \<Rightarrow> [Inl e] | None \<Rightarrow> [])"
    using assms by (auto simp: recorded_def)
  show ?thesis
  proof (cases bs)
    case Nil
    then show ?thesis using s by (cases err) (auto intro: finished failed)
  next
    case (Cons b bs')
    then obtain source ss where ss: "sources = source # ss" "length ss = length bs'" using s(1) by (cases sources) auto
    have "recorded bs' err (map Inr (zip bs' ss) @ (case err of Some e \<Rightarrow> [Inl e] | None \<Rightarrow> []))"
      using ss(2) by (auto simp: recorded_def)
    then show ?thesis using s(2) Cons ss by (intro next_record) auto
  qed
qed

lemma send_records_frames:
  assumes "send_records lib use_zstd budget evs f items = (fs, end)" "frame_of lib use_zstd b f" "recorded bs err items"
  shows "length fs \<le> Suc (length bs) \<and> list_all2 (frame_of lib use_zstd) (take (length fs) (b # bs)) fs \<and>
    (end = Complete \<longrightarrow> err = None \<and> length fs = Suc (length bs))"
  using assms
proof (induction evs arbitrary: f items fs b bs)
  case (Cons ev evs)
  consider (cut) cause where "fs = []" "end = Truncated cause"
    | (last) cause where "fs = [f]" "end = Truncated cause"
    | (whole) "fs = [f]" "items = []" "end = Complete"
    | (more_records) b' source rest f' fs' where "items = Inr (b', source) # rest"
        "encode_frame lib use_zstd (b', source) = Inr f'" "send_records lib use_zstd budget evs f' rest = (fs', end)"
        "fs = f # fs'"
    using Cons.prems(1)
    by (auto split: send_result.splits if_splits list.splits sum.splits prod.splits)
  then show ?case
  proof cases
    case more_records
    obtain bs' where bs': "bs = b' # bs'" "recorded bs' err rest"
      using Cons.prems(3) more_records(1) by (cases rule: recorded_cases) auto
    from Cons.IH [OF more_records(3) encode_frame_of [OF more_records(2)] bs'(2)] show ?thesis
      using Cons.prems(2) more_records(4) bs'(1) by simp
  next
    case whole
    then show ?thesis using Cons.prems(2,3) by (cases rule: recorded_cases [OF Cons.prems(3)]) auto
  qed (use Cons.prems(2) in auto)
qed simp

subsection \<open>What the handler answers\<close>

definition wants_zstd :: "stream_call \<Rightarrow> bool" where
  "wants_zstd call = str_contains (case sc_accept_encoding call of Some a \<Rightarrow> a | None \<Rightarrow> []) ''zstd''"

definition call_ok :: "stream_call \<Rightarrow> bool" where
  "call_ok call \<longleftrightarrow>
     reads_ok (sc_reads call) \<and> chain_inv (sc_at_expiry call) \<and> safe_chain (sc_at_expiry call) \<and>
     (\<forall>c. read_chain (sc_reads call) c \<longrightarrow> safe_chain c)"

text \<open>
  The records of a response: the first of the blocks an accepted query serves, each encoded on its own,
  and all of them when the body ends without a truncation.
\<close>

definition body_ok :: "http_lib \<Rightarrow> stream_call \<Rightarrow> http_stream_request \<Rightarrow> frame list \<Rightarrow> body_end \<Rightarrow> bool" where
  "body_ok lib call req frames end \<longleftrightarrow>
     (\<exists>cls c bs err. read_chain (sc_reads call) c \<and> continuous (hs_parent_block_hash req) bs \<and>
        serves (hs_from_block req) cls c bs err \<and> length frames \<le> length bs \<and>
        list_all2 (frame_of lib (wants_zstd call)) (take (length frames) bs) frames \<and>
        (end = Complete \<longrightarrow> err = None \<and> length frames = length bs))"

text \<open>The finalized head a response names is the one of a buffer that was read for it.\<close>

definition header_ok :: "stream_call \<Rightarrow> (string \<rightharpoonup> string) \<Rightarrow> bool" where
  "header_ok call h \<longleftrightarrow>
     h ''x-sqd-finalized-head-number'' = None \<or>
     (\<exists>c. (read_chain (sc_reads call) c \<or> c = sc_at_expiry call) \<and>
        h ''x-sqd-finalized-head-number'' = Some (decimal (unat (number (blocks c ! finalized_head c)))) \<and>
        h ''x-sqd-finalized-head-hash'' = Some (hash (blocks c ! finalized_head c)))"

definition answers :: "http_lib \<Rightarrow> stream_call \<Rightarrow> http_response \<Rightarrow> body_end \<Rightarrow> bool" where
  "answers lib call rsp end \<longleftrightarrow>
     header_ok call (rsp_headers rsp) \<and>
     (case rsp_body rsp of
        Records frames \<Rightarrow> rsp_status rsp = 200 \<and>
          (\<exists>bytes req. sc_body call = BodyBytes bytes \<and> parse_request lib bytes = Inr req \<and> body_ok lib call req frames end)
      | PreviousBlocks prev \<Rightarrow> rsp_status rsp = 409 \<and> prev \<noteq> []
      | NoBody \<Rightarrow> rsp_status rsp = 204
      | Plain t \<Rightarrow> rsp_status rsp \<in> {400, 413, 500}
      | _ \<Rightarrow> False)"

lemma header_ok_empty [simp]: "header_ok call Map.empty"
  by (simp add: header_ok_def)

lemma header_ok_stream [simp]: "header_ok call (stream_headers z headers) = header_ok call headers"
  by (simp add: header_ok_def stream_headers_def)

lemma answers_plain [simp]:
  "answers lib call (internal_error lib e) end"
  "answers lib call (no_content headers) end = header_ok call headers"
  by (simp_all add: answers_def internal_error_def respond_def no_content_def)

lemma settled_chain [simp]:
  "svc_chain (record_query_outcome cls d s) = svc_chain s" "svc_chain (note_end end s) = svc_chain s"
  by (simp_all add: record_query_outcome_def note_end_def split: body_end.splits)

lemma finalized_header:
  assumes "chain_inv c" "safe_chain c" "read_chain (sc_reads call) c \<or> c = sc_at_expiry call"
  shows "\<exists>headers. insert_finalized_head h (block_ref_of (blocks c ! finalized_head c)) = Some headers \<and>
    header_ok call headers"
proof -
  have "is_header_safe_hash (hash (blocks c ! finalized_head c))"
    using chain_invD(4) [OF assms(1)] assms(2) by (simp add: safe_chain_def safe_block_def hash_ok_def)
  then show ?thesis using assms(3)
    by (auto simp: insert_finalized_head_def header_ok_def block_ref_of_def)
qed

lemma serve_outcome_ok:
  assumes "call_ok call" "sc_body call = BodyBytes bytes" "parse_request lib bytes = Inr req"
    and "answer_ok (sc_reads call) (hs_from_block req) (hs_parent_block_hash req) (qo_response outcome) (qo_class outcome)"
    and "\<And>cls s. svc_chain (settle cls s) = svc_chain s"
  shows "\<exists>rsp end s'. serve_outcome lib call settle outcome s = Some (rsp, end, s') \<and> answers lib call rsp end \<and>
    svc_chain s' = svc_chain s"
proof -
  let ?resp = "qo_response outcome" and ?z = "wants_zstd call"
  obtain c bs err where a: "read_chain (sc_reads call) c" "answer_blocks ?resp = (bs, err)"
      "continuous (hs_parent_block_hash req) bs" "serves (hs_from_block req) (qo_class outcome) c bs err"
      "\<And>fh. resp_finalized_head ?resp = Some fh \<Longrightarrow> fh = block_ref_of (blocks c ! finalized_head c)"
    using assms(4) by (auto simp: answer_ok_def)
  have c: "chain_inv c" "safe_chain c"
    using a(1) assms(1) by (auto simp: call_ok_def reads_ok_def read_chain_def)
  obtain headers where h: "(case resp_finalized_head ?resp of
      Some fh \<Rightarrow> insert_finalized_head Map.empty fh | None \<Rightarrow> Some Map.empty) = Some headers"
      "header_ok call headers"
    using finalized_header [OF c disjI1 [OF a(1)]] a(5) by (cases "resp_finalized_head ?resp") auto
  define tail where "tail = (case resp_tail ?resp of Some t \<Rightarrow> t | None \<Rightarrow> [])"
  have items: "recorded bs err (block_stream (resp_head ?resp) tail)"
    using stream_records_recorded [of _ tail] a(2) by (simp add: block_stream_def answer_blocks_def tail_def)
  note eq = serve_outcome_def Let_def h(1) tail_def [symmetric] wants_zstd_def [symmetric]
  show ?thesis
  proof (cases "(resp_head ?resp = None \<and> tail = []) \<or> \<not> sc_first_in_time call")
    case True
    then show ?thesis using assms(5) h(2) by (auto simp: eq)
  next
    case go: False
    from items show ?thesis
    proof (cases rule: recorded_cases)
      case finished
      then show ?thesis using go assms(5) h(2) by (auto simp: eq)
    next
      case failed
      then show ?thesis using go assms(5) h(2) by (auto simp: eq)
    next
      case (next_record b source bs' rest)
      show ?thesis
      proof (cases "encode_frame lib ?z (b, source)")
        case Inl
        then show ?thesis using go next_record assms(5) h(2) by (auto simp: eq)
      next
        case (Inr first)
        obtain frames "end" where sent: "send_records lib ?z (response_budget s) (sc_events call) first rest = (frames, end)"
          by fastforce
        note fr = send_records_frames [OF sent encode_frame_of [OF Inr] next_record(3)]
        have "body_ok lib call req frames end"
          unfolding body_ok_def using a(1,3,4) fr next_record(1)
          by (intro exI [of _ "qo_class outcome"] exI [of _ c] exI [of _ bs] exI [of _ err]) auto
        then show ?thesis using go next_record Inr sent assms(2,3,5) h(2) by (auto simp: eq answers_def)
      qed
    qed
  qed
qed

lemma handle_stream_ok:
  assumes "call_ok call"
  shows "\<exists>rsp end s'. handle_stream lib call s = Some (rsp, end, s') \<and> answers lib call rsp end \<and> svc_chain s' = svc_chain s"
proof (cases "sc_body call")
  case (BodyBytes bytes)
  show ?thesis
  proof (cases "parse_request lib bytes")
    case Inl
    then show ?thesis using BodyBytes by (simp add: handle_stream_def answers_def respond_def)
  next
    case (Inr req)
    show ?thesis
    proof (cases "sc_verdict_in_time call")
      case False
      have exp: "chain_inv (sc_at_expiry call)" "safe_chain (sc_at_expiry call)" using assms by (auto simp: call_ok_def)
      show ?thesis
        using False BodyBytes Inr finalized_header [OF exp disjI2 [OF refl], of Map.empty] chain_getters(1) [OF exp(1)]
        by (auto simp: handle_stream_def)
    next
      case True
      let ?q = "classify_query (sc_reads call) (sc_source call) (hs_from_block req) (hs_parent_block_hash req)"
      obtain answer where q: "?q = Some answer"
        "case answer of
           Inl (InvalidBaseBlock prev) \<Rightarrow> prev \<noteq> []
         | Inl (Internal e) \<Rightarrow> below_window (qr_gate (sc_reads call)) (hs_from_block req) = Some True
         | Inr (resp, cls) \<Rightarrow> answer_ok (sc_reads call) (hs_from_block req) (hs_parent_block_hash req) resp cls"
        using classify_query_ok [of "sc_reads call"] assms by (metis call_ok_def)
      show ?thesis
      proof (cases answer)
        case (Inl e)
        then show ?thesis using q True BodyBytes Inr
          by (cases e) (auto simp: handle_stream_def service_query_def answers_def respond_def internal_error_def)
      next
        case found: (Inr rc)
        obtain resp cls where rc: "rc = (resp, cls)" by fastforce
        have ok: "answer_ok (sc_reads call) (hs_from_block req) (hs_parent_block_hash req) resp cls" using q(2) found rc by simp
        show ?thesis
          using serve_outcome_ok [OF assms BodyBytes Inr, of "\<lparr>qo_response = resp, qo_class = cls\<rparr>"
              "\<lambda>cls. record_query_outcome cls (sc_settled_after call)" s] ok q(1) found rc True BodyBytes Inr
          by (simp add: handle_stream_def service_query_def)
      qed
    qed
  qed
qed (simp_all add: handle_stream_def answers_def respond_def)

end
