(* ===== verification/Validators.thy ===== *)
theory Validators
  imports Sim
begin

text \<open>
  The structural validators of the harness (\<open>harness/src/validators.rs\<close>): the framing of a body, its
  records against the oracles, conflict bodies, headers, and the outcomes of the closed taxonomy.

  The decoders and the JSON parser are parameters.  A decoding attempt gives an error text or what it
  consumed and produced.  A breach has one constructor per message of the code.
\<close>

subsection \<open>Strings\<close>

definition nl :: char where
  "nl = CHR 0x0A"

definition ends_with_nl :: "string \<Rightarrow> bool" where
  "ends_with_nl s \<longleftrightarrow> s \<noteq> [] \<and> last s = nl"

fun split_inclusive :: "string \<Rightarrow> string list" where
  "split_inclusive [] = []"
| "split_inclusive (c # cs) =
     (if c = nl then [c] # split_inclusive cs
      else case split_inclusive cs of [] \<Rightarrow> [[c]] | l # ls \<Rightarrow> (c # l) # ls)"

fun split_at :: "char \<Rightarrow> string \<Rightarrow> string list" where
  "split_at sep [] = [[]]"
| "split_at sep (c # cs) =
     (if c = sep then [] # split_at sep cs
      else case split_at sep cs of [] \<Rightarrow> [[c]] | l # ls \<Rightarrow> (c # l) # ls)"

text \<open>The white space of a header value, which holds no other.\<close>

definition is_space :: "char \<Rightarrow> bool" where
  "is_space c = (let n = (of_char c :: nat) in n = 32 \<or> (9 \<le> n \<and> n \<le> 13))"

definition trim :: "string \<Rightarrow> string" where
  "trim s = rev (dropWhile is_space (rev (dropWhile is_space s)))"

definition eq_ignore_ascii_case :: "string \<Rightarrow> string \<Rightarrow> bool" where
  "eq_ignore_ascii_case a b = (to_lowercase a = to_lowercase b)"

definition starts_with :: "string \<Rightarrow> string \<Rightarrow> bool" where
  "starts_with s p = (take (length p) s = p)"

datatype parse_int_error = EmptyInt | InvalidDigit | PosOverflow

text \<open>
  \<open>str::parse::<u64>\<close>: an optional plus sign and at least one digit.  An overflow is noticed at the digit
  that causes it, so a text that also holds an invalid digit after it counts as an overflow.
\<close>

fun u64_digits :: "nat \<Rightarrow> string \<Rightarrow> parse_int_error + nat" where
  "u64_digits acc [] = Inr acc"
| "u64_digits acc (c # cs) =
     (let n = (of_char c :: nat)
      in if \<not> (48 \<le> n \<and> n \<le> 57) then Inl InvalidDigit
         else let v = 10 * acc + (n - 48) in if v \<ge> 2 ^ 64 then Inl PosOverflow else u64_digits v cs)"

definition parse_u64 :: "string \<Rightarrow> parse_int_error + u64" where
  "parse_u64 s =
     (if s = [] then Inl EmptyInt
      else if s = ''+'' then Inl InvalidDigit
      else case u64_digits 0 (if hd s = CHR ''+'' then tl s else s) of Inl e \<Rightarrow> Inl e | Inr v \<Rightarrow> Inr (of_nat v))"

subsection \<open>Framing\<close>

record body_frame =
  bf_bytes :: usize
  bf_text :: string

text \<open>
  A raw zstd decoder: from a state and the unread input, the hint, the bytes read, the bytes produced and
  the next state.  Its loop ends when it says so, or when it neither reads nor produces at the end of the
  input; that a decoder never stalls before that is up to the library, so the loop is a partial function.
\<close>

type_synonym 'd zstd_run = "'d \<Rightarrow> bytes \<Rightarrow> string + nat \<times> nat \<times> bytes \<times> 'd"

partial_function (option) decode_loop ::
    "'d zstd_run \<Rightarrow> 'd \<Rightarrow> bytes \<Rightarrow> nat \<Rightarrow> bytes \<Rightarrow> (string + nat \<times> bytes) option" where
  "decode_loop run d input pos out =
     (case run d (drop pos input) of
        Inl e \<Rightarrow> Some (Inl e)
      | Inr (hint, consumed, produced, d') \<Rightarrow>
          if hint = 0 then Some (Inr (pos + consumed, out @ produced))
          else if \<not> (pos + consumed < length input \<or> length produced > 0) then Some (Inl ''truncated zstd frame'')
          else decode_loop run d' input (pos + consumed) (out @ produced))"

definition decode_one_zstd_frame ::
    "(string + 'd) \<Rightarrow> 'd zstd_run \<Rightarrow> bytes \<Rightarrow> (string + nat \<times> bytes) option" where
  "decode_one_zstd_frame new run input =
     (case new of Inl e \<Rightarrow> Some (Inl e) | Inr d \<Rightarrow> decode_loop run d input 0 [])"

text \<open>\<open>zstd_frame\<close> is \<open>decode_one_zstd_frame\<close> of a raw decoder; \<open>with_decoder\<close> below puts one in.\<close>

record wire_lib =
  zstd_frame :: "bytes \<Rightarrow> (string + nat \<times> bytes) option"
  gzip_member :: "bytes \<Rightarrow> string + nat \<times> bytes"
  zstd_stream :: "bytes \<Rightarrow> string + bytes"
  multi_gzip :: "bytes \<Rightarrow> string + bytes"
  is_utf8 :: "bytes \<Rightarrow> bool"
  json_parse :: "bytes \<Rightarrow> string + json"

datatype breach =
    UnexpectedEncoding string
  | DoesNotDecode string
  | ConsumedNothing usize
  | NotUtf8
  | NoFrame
  | FrameNotTerminated usize
  | FrameRecords usize usize
  | EmptyBody
  | BodyNotTerminated
  | RecordNotJson usize string
  | RecordLacksLinkage usize
  | EmptyHashRecord u64
  | ParentAbove u64 u64
  | NotAscending u64 u64
  | NotLinkedTo u64 u64
  | BelowRequested u64 u64
  | NotLowestEligible u64 u64 u64
  | NothingEligible u64 u64
  | OffBranch u64 string string
  | WrongParent u64 u64 string u64 string
  | AtNoEligibleHeight u64
  | BytesDiffer u64
  | NeverProduced u64
  | LacksPreviousBlocks
  | EmptyPreviousBlocks
  | TooManyRefs usize
  | RefLacksNumber
  | RefLacksHash
  | RefEmptyHash
  | RefsNotAscending
  | WrongMediaType string
  | LacksContentType
  | WrongEncoding string string
  | LacksEncoding
  | DoesNotVary
  | MissingNumber
  | UnparsableNumber parse_int_error
  | NotCanonical string
  | MissingHash
  | EmptyWatermarkHash
  | ReadinessBody bytes
  | UnknownRouteStatus nat
  | EmptyFormWithBody
  | EmptyFormLacksWatermark breach
  | NoDiagnostic nat
  | ConflictNotJsonType
  | ConflictLacksType
  | ConflictWithWatermark
  | ConflictNotJson string
  | InternalLacksPrefix
  | OutsideTaxonomy nat
  | WatermarkAboveHead u64 u64
  | WatermarkDisagrees u64 string string

text \<open>
  The two splitters: each unit is decoded from the rest of the body on its own.  \<open>at\<close> is the position in
  the body.
\<close>

function split_frames :: "wire_lib \<Rightarrow> nat \<Rightarrow> bytes \<Rightarrow> (breach + body_frame list) option" where
  "split_frames lib at body =
     (if body = [] then Some (Inr [])
      else case zstd_frame lib body of
             None \<Rightarrow> None
           | Some (Inl e) \<Rightarrow> Some (Inl (DoesNotDecode e))
           | Some (Inr (consumed, out)) \<Rightarrow>
               if consumed = 0 then Some (Inl (ConsumedNothing at))
               else if \<not> is_utf8 lib out then Some (Inl NotUtf8)
               else map_option
                      (\<lambda>r. case r of Inl e \<Rightarrow> Inl e | Inr fs \<Rightarrow> Inr (\<lparr>bf_bytes = consumed, bf_text = out\<rparr> # fs))
                      (split_frames lib (at + consumed) (drop consumed body)))"
  by pat_completeness auto
termination by (relation "measure (\<lambda>(lib, at, body). length body)") auto

function split_gzip_members :: "wire_lib \<Rightarrow> nat \<Rightarrow> bytes \<Rightarrow> breach + body_frame list" where
  "split_gzip_members lib at body =
     (if body = [] then Inr []
      else case gzip_member lib body of
             Inl e \<Rightarrow> Inl (DoesNotDecode e)
           | Inr (consumed, out) \<Rightarrow>
               if consumed = 0 then Inl (ConsumedNothing at)
               else if \<not> is_utf8 lib out then Inl NotUtf8
               else case split_gzip_members lib (at + consumed) (drop consumed body) of
                      Inl e \<Rightarrow> Inl e
                    | Inr fs \<Rightarrow> Inr (\<lparr>bf_bytes = consumed, bf_text = out\<rparr> # fs))"
  by pat_completeness auto
termination by (relation "measure (\<lambda>(lib, at, body). length body)") auto

declare split_frames.simps [simp del] split_gzip_members.simps [simp del]

fun check_frames :: "usize \<Rightarrow> body_frame list \<Rightarrow> breach + unit" where
  "check_frames i [] = Inr ()"
| "check_frames i (f # fs) =
     (let text = bf_text f; records = length (filter (\<lambda>c. c = nl) text)
      in if \<not> ends_with_nl text then Inl (FrameNotTerminated i)
         else if records \<noteq> 1 then Inl (FrameRecords i records)
         else check_frames (Suc i) fs)"

definition validate_framing :: "wire_lib \<Rightarrow> bytes \<Rightarrow> string \<Rightarrow> (breach + string list) option" where
  "validate_framing lib body content_encoding = do {
     frames \<leftarrow> (if content_encoding = ''zstd'' then split_frames lib 0 body
               else if content_encoding = ''gzip'' then Some (split_gzip_members lib 0 body)
               else Some (Inl (UnexpectedEncoding content_encoding)));
     Some (case frames of
             Inl e \<Rightarrow> Inl e
           | Inr fs \<Rightarrow>
               if fs = [] then Inl NoFrame
               else case check_frames 0 fs of Inl e \<Rightarrow> Inl e | Inr _ \<Rightarrow> Inr (map bf_text fs))
   }"

definition decode_body :: "wire_lib \<Rightarrow> bytes \<Rightarrow> string \<Rightarrow> breach + string" where
  "decode_body lib body content_encoding =
     (let utf8 = (\<lambda>r. case r of
                     Inl e \<Rightarrow> Inl (DoesNotDecode e)
                   | Inr out \<Rightarrow> if is_utf8 lib out then Inr out else Inl NotUtf8)
      in if content_encoding = ''zstd'' then utf8 (zstd_stream lib body)
         else if content_encoding = ''gzip'' then utf8 (multi_gzip lib body)
         else Inl (UnexpectedEncoding content_encoding))"

subsection \<open>Records\<close>

type_synonym extractor = "json \<Rightarrow> (u64 \<times> u64 \<times> string \<times> string) option"

definition sim_extract :: extractor where
  "sim_extract v = do {
     n \<leftarrow> json_get ''number'' v; n \<leftarrow> as_u64 n;
     pn \<leftarrow> json_get ''parentNumber'' v; pn \<leftarrow> as_u64 pn;
     h \<leftarrow> json_get ''hash'' v; h \<leftarrow> as_str h;
     ph \<leftarrow> json_get ''parentHash'' v; ph \<leftarrow> as_str ph;
     Some (n, pn, h, ph)
   }"

record record_ref =
  rr_number :: u64
  rr_parent_number :: u64
  rr_hash :: string
  rr_parent_hash :: string

record data_oracle =
  do_ledger :: "ledger option"
  do_eligible :: "model_block list option"

definition tuple_of :: "record_ref \<Rightarrow> model_block" where
  "tuple_of r =
     \<lparr>mb_number = rr_number r, mb_hash = rr_hash r, mb_parent_number = rr_parent_number r,
      mb_parent_hash = rr_parent_hash r\<rparr>"

definition check_shape :: "record_ref \<Rightarrow> breach + unit" where
  "check_shape r =
     (if rr_hash r = [] \<or> rr_parent_hash r = [] then Inl (EmptyHashRecord (rr_number r))
      else if rr_parent_number r > rr_number r then Inl (ParentAbove (rr_number r) (rr_parent_number r))
      else Inr ())"

definition check_next :: "record_ref \<Rightarrow> record_ref \<Rightarrow> breach + unit" where
  "check_next prev r =
     (if rr_number r \<le> rr_number prev then Inl (NotAscending (rr_number r) (rr_number prev))
      else if rr_parent_number r \<noteq> rr_number prev \<or> rr_parent_hash r \<noteq> rr_hash prev
      then Inl (NotLinkedTo (rr_number r) (rr_number prev))
      else Inr ())"

definition check_first :: "u64 \<Rightarrow> model_block list option \<Rightarrow> record_ref \<Rightarrow> breach + unit" where
  "check_first from eligible r =
     (if rr_number r < from then Inl (BelowRequested (rr_number r) from)
      else case eligible of
             None \<Rightarrow> Inr ()
           | Some chain \<Rightarrow>
               (case find (\<lambda>b. mb_number b \<ge> from) chain of
                  Some lowest \<Rightarrow>
                    if mb_number lowest \<noteq> rr_number r
                    then Inl (NotLowestEligible (rr_number r) (mb_number lowest) from) else Inr ()
                | None \<Rightarrow> Inl (NothingEligible (rr_number r) from)))"

definition check_eligible :: "model_block list option \<Rightarrow> record_ref \<Rightarrow> breach + unit" where
  "check_eligible eligible r =
     (case eligible of
        None \<Rightarrow> Inr ()
      | Some [] \<Rightarrow> Inr ()
      | Some (c # cs) \<Rightarrow>
          let in_range = (rr_number r \<ge> mb_number c \<and> rr_number r \<le> mb_number (last (c # cs)))
          in case find (\<lambda>b. mb_number b = rr_number r) (c # cs) of
               Some b \<Rightarrow>
                 if mb_hash b \<noteq> rr_hash r then Inl (OffBranch (rr_number r) (rr_hash r) (mb_hash b))
                 else if mb_parent_number b \<noteq> rr_parent_number r \<or> mb_parent_hash b \<noteq> rr_parent_hash r
                 then Inl (WrongParent (rr_number r) (rr_parent_number r) (rr_parent_hash r)
                            (mb_parent_number b) (mb_parent_hash b))
                 else Inr ()
             | None \<Rightarrow> if in_range then Inl (AtNoEligibleHeight (rr_number r)) else Inr ())"

definition check_bytes :: "ledger option \<Rightarrow> string \<Rightarrow> record_ref \<Rightarrow> breach + unit" where
  "check_bytes lg line r =
     (case lg of
        None \<Rightarrow> Inr ()
      | Some l \<Rightarrow>
          (case line_of l (tuple_of r) of
             Some expected \<Rightarrow> if expected = line then Inr () else Inl (BytesDiffer (rr_number r))
           | None \<Rightarrow> Inl (NeverProduced (rr_number r))))"

definition read_record :: "wire_lib \<Rightarrow> extractor \<Rightarrow> usize \<Rightarrow> string \<Rightarrow> breach + record_ref" where
  "read_record lib extract i line =
     (case json_parse lib line of
        Inl e \<Rightarrow> Inl (RecordNotJson i e)
      | Inr v \<Rightarrow>
          (case extract v of
             None \<Rightarrow> Inl (RecordLacksLinkage i)
           | Some (n, pn, h, ph) \<Rightarrow>
               Inr \<lparr>rr_number = n, rr_parent_number = pn, rr_hash = h, rr_parent_hash = ph\<rparr>))"

text \<open>The checks of one record in the order of the code; \<open>prev\<close> is the record before it.\<close>

definition check_record :: "u64 \<Rightarrow> data_oracle \<Rightarrow> record_ref option \<Rightarrow> string \<Rightarrow> record_ref \<Rightarrow> breach + unit" where
  "check_record from oracle prev line r =
     (case check_shape r of Inl e \<Rightarrow> Inl e | Inr _ \<Rightarrow>
      (case (case prev of Some p \<Rightarrow> check_next p r | None \<Rightarrow> check_first from (do_eligible oracle) r) of
         Inl e \<Rightarrow> Inl e
       | Inr _ \<Rightarrow>
           (case check_eligible (do_eligible oracle) r of
              Inl e \<Rightarrow> Inl e
            | Inr _ \<Rightarrow> check_bytes (do_ledger oracle) line r)))"

fun check_lines ::
    "wire_lib \<Rightarrow> u64 \<Rightarrow> extractor \<Rightarrow> data_oracle \<Rightarrow> record_ref list \<Rightarrow> string list \<Rightarrow> breach + record_ref list" where
  "check_lines lib from extract oracle records [] = Inr records"
| "check_lines lib from extract oracle records (line # lines) =
     (case read_record lib extract (length records) line of
        Inl e \<Rightarrow> Inl e
      | Inr r \<Rightarrow>
          (case check_record from oracle (vec_last records) line r of
             Inl e \<Rightarrow> Inl e
           | Inr _ \<Rightarrow> check_lines lib from extract oracle (records @ [r]) lines))"

definition validate_data ::
    "wire_lib \<Rightarrow> string \<Rightarrow> u64 \<Rightarrow> extractor \<Rightarrow> data_oracle \<Rightarrow> breach + record_ref list" where
  "validate_data lib text from extract oracle =
     (if text = [] then Inl EmptyBody
      else if \<not> ends_with_nl text then Inl BodyNotTerminated
      else check_lines lib from extract oracle [] (split_inclusive text))"

subsection \<open>Conflict bodies\<close>

definition MAX_FORK_REFS :: usize where
  "MAX_FORK_REFS = 101"

definition read_ref :: "json \<Rightarrow> breach + block_ref" where
  "read_ref v =
     (case Option.bind (json_get ''number'' v) as_u64 of
        None \<Rightarrow> Inl RefLacksNumber
      | Some n \<Rightarrow>
          (case Option.bind (json_get ''hash'' v) as_str of
             None \<Rightarrow> Inl RefLacksHash
           | Some h \<Rightarrow> if h = [] then Inl RefEmptyHash else Inr \<lparr>ref_number = n, ref_hash = h\<rparr>))"

fun read_refs :: "json list \<Rightarrow> breach + block_ref list" where
  "read_refs [] = Inr []"
| "read_refs (v # vs) =
     (case read_ref v of
        Inl e \<Rightarrow> Inl e
      | Inr r \<Rightarrow> (case read_refs vs of Inl e \<Rightarrow> Inl e | Inr rs \<Rightarrow> Inr (r # rs)))"

definition validate_conflict :: "json \<Rightarrow> breach + block_ref list" where
  "validate_conflict body =
     (case Option.bind (json_get ''previousBlocks'' body) as_array of
        None \<Rightarrow> Inl LacksPreviousBlocks
      | Some arr \<Rightarrow>
          if arr = [] then Inl EmptyPreviousBlocks
          else if length arr > MAX_FORK_REFS then Inl (TooManyRefs (length arr))
          else (case read_refs arr of
                  Inl e \<Rightarrow> Inl e
                | Inr refs \<Rightarrow>
                    if list_ex (\<lambda>(a, b). ref_number a \<ge> ref_number b) (windows2 refs) then Inl RefsNotAscending
                    else Inr refs))"

subsection \<open>Headers\<close>

record wire_headers =
  wh_content_type :: "string option"
  wh_content_encoding :: "string option"
  wh_vary :: "string option"
  wh_finalized_number :: "string option"
  wh_finalized_hash :: "string option"

definition is_media_type :: "string \<Rightarrow> string \<Rightarrow> bool" where
  "is_media_type value expected =
     eq_ignore_ascii_case (trim (takeWhile (\<lambda>c. c \<noteq> CHR '';'') value)) expected"

definition expect_text :: "string option \<Rightarrow> nat \<Rightarrow> breach + unit" where
  "expect_text content_type status =
     (case content_type of
        Some ct \<Rightarrow> if is_media_type ct ''text/plain'' then Inr () else Inl (WrongMediaType ct)
      | None \<Rightarrow> Inl LacksContentType)"

definition validate_watermark :: "string option \<Rightarrow> string option \<Rightarrow> breach + block_ref" where
  "validate_watermark num h =
     (case num of
        None \<Rightarrow> Inl MissingNumber
      | Some raw \<Rightarrow>
          (case parse_u64 raw of
             Inl e \<Rightarrow> Inl (UnparsableNumber e)
           | Inr n \<Rightarrow>
               if decimal (unat n) \<noteq> raw then Inl (NotCanonical raw)
               else (case h of
                       None \<Rightarrow> Inl MissingHash
                     | Some hh \<Rightarrow> if hh = [] then Inl EmptyWatermarkHash else Inr \<lparr>ref_number = n, ref_hash = hh\<rparr>)))"

definition validate_data_headers :: "wire_headers \<Rightarrow> string \<Rightarrow> breach + block_ref" where
  "validate_data_headers h accept_encoding =
     (case expect_text (wh_content_type h) 200 of Inl e \<Rightarrow> Inl e | Inr _ \<Rightarrow>
      let expected = (if str_contains accept_encoding ''zstd'' then ''zstd'' else ''gzip'')
      in case wh_content_encoding h of
           None \<Rightarrow> Inl LacksEncoding
         | Some actual \<Rightarrow>
             if actual \<noteq> expected then Inl (WrongEncoding expected actual)
             else if \<not> (case wh_vary h of
                          None \<Rightarrow> False
                        | Some v \<Rightarrow> list_ex (\<lambda>t. eq_ignore_ascii_case (trim t) ''accept-encoding'') (split_at (CHR '','') v))
             then Inl DoesNotVary
             else validate_watermark (wh_finalized_number h) (wh_finalized_hash h))"

definition validate_watermark_bounds :: "block_ref \<Rightarrow> block_ref \<Rightarrow> breach + unit" where
  "validate_watermark_bounds finalized head =
     (if ref_number finalized > ref_number head then Inl (WatermarkAboveHead (ref_number finalized) (ref_number head))
      else if ref_number finalized = ref_number head \<and> ref_hash finalized \<noteq> ref_hash head
      then Inl (WatermarkDisagrees (ref_number finalized) (ref_hash finalized) (ref_hash head))
      else Inr ())"

subsection \<open>Outcomes\<close>

datatype error_class = InvalidRequest | ConflictClass | EmptyClass | NotFound | InternalClass

datatype outcome = Class error_class | MethodNotAllowed | UnknownRoute | Unavailable

text \<open>The diagnostics of a 400 and a 404 are checked alike.\<close>

definition check_diagnostic :: "wire_lib \<Rightarrow> nat \<Rightarrow> wire_headers \<Rightarrow> bytes \<Rightarrow> error_class \<Rightarrow> breach + error_class" where
  "check_diagnostic lib status h body cls =
     (case expect_text (wh_content_type h) status of
        Inl e \<Rightarrow> Inl e
      | Inr _ \<Rightarrow> if body = [] then Inl (NoDiagnostic status) else if \<not> is_utf8 lib body then Inl NotUtf8 else Inr cls)"

definition validate_conflict_response :: "wire_lib \<Rightarrow> wire_headers \<Rightarrow> bytes \<Rightarrow> breach + error_class" where
  "validate_conflict_response lib h body =
     (case wh_content_type h of
        None \<Rightarrow> Inl ConflictLacksType
      | Some ct \<Rightarrow>
          if \<not> is_media_type ct ''application/json'' then Inl ConflictNotJsonType
          else if wh_finalized_number h \<noteq> None \<or> wh_finalized_hash h \<noteq> None then Inl ConflictWithWatermark
          else (case json_parse lib body of
                  Inl e \<Rightarrow> Inl (ConflictNotJson e)
                | Inr v \<Rightarrow> (case validate_conflict v of Inl e \<Rightarrow> Inl e | Inr _ \<Rightarrow> Inr ConflictClass)))"

text \<open>\<open>lossy\<close> is \<open>String::from_utf8_lossy\<close>.\<close>

definition validate_error :: "wire_lib \<Rightarrow> (bytes \<Rightarrow> string) \<Rightarrow> nat \<Rightarrow> wire_headers \<Rightarrow> bytes \<Rightarrow> breach + error_class" where
  "validate_error lib lossy status h body =
     (if status = 204 then
        (if body \<noteq> [] then Inl EmptyFormWithBody
         else case validate_watermark (wh_finalized_number h) (wh_finalized_hash h) of
                Inl e \<Rightarrow> Inl (EmptyFormLacksWatermark e)
              | Inr _ \<Rightarrow> Inr EmptyClass)
      else if status = 400 then check_diagnostic lib 400 h body InvalidRequest
      else if status = 404 then check_diagnostic lib 404 h body NotFound
      else if status = 409 then validate_conflict_response lib h body
      else if status = 500 then
        (case expect_text (wh_content_type h) 500 of
           Inl e \<Rightarrow> Inl e
         | Inr _ \<Rightarrow> if starts_with (lossy body) ''Internal server error'' then Inr InternalClass
                    else Inl InternalLacksPrefix)
      else Inl (OutsideTaxonomy status))"

definition validate_outcome :: "wire_lib \<Rightarrow> (bytes \<Rightarrow> string) \<Rightarrow> nat \<Rightarrow> wire_headers \<Rightarrow> bytes \<Rightarrow> breach + outcome" where
  "validate_outcome lib lossy status h body =
     (if status = 405 then Inr MethodNotAllowed
      else if status = 503 then
        (case expect_text (wh_content_type h) status of
           Inl e \<Rightarrow> Inl e
         | Inr _ \<Rightarrow> if body = ''false'' then Inr Unavailable else Inl (ReadinessBody body))
      else case validate_error lib lossy status h body of Inl e \<Rightarrow> Inl e | Inr c \<Rightarrow> Inr (Class c))"

definition validate_unknown_route :: "nat \<Rightarrow> breach + outcome" where
  "validate_unknown_route status = (if status = 404 then Inr UnknownRoute else Inl (UnknownRouteStatus status))"

subsection \<open>The zstd decoder\<close>

text \<open>The units of a zstd body as the decoder of a library cuts them.\<close>

definition with_decoder :: "(string + 'd) \<Rightarrow> 'd zstd_run \<Rightarrow> wire_lib \<Rightarrow> wire_lib" where
  "with_decoder new run lib = lib\<lparr>zstd_frame := decode_one_zstd_frame new run\<rparr>"

text \<open>The splitter returns for every decoder that progresses: a rank of its state and its input goes down.\<close>

lemma decode_loop_returns:
  assumes progress: "\<And>d rest hint n out d'. run d rest = Inr (hint, n, out, d') \<Longrightarrow> hint \<noteq> 0 \<Longrightarrow> rest \<noteq> [] \<or> out \<noteq> [] \<Longrightarrow>
      rank d' (drop n rest) < (rank d rest :: nat)"
  shows "\<exists>r. decode_loop run d input pos out = Some r"
proof (induction "rank d (drop pos input)" arbitrary: d pos out rule: less_induct)
  case less
  show ?case
  proof (cases "run d (drop pos input)")
    case (Inr x)
    obtain hint n produced d' where x: "x = (hint, n, produced, d')" by (cases x)
    then have r: "run d (drop pos input) = Inr (hint, n, produced, d')" using Inr by simp
    show ?thesis
    proof (cases "hint = 0 \<or> \<not> (pos + n < length input \<or> length produced > 0)")
      case False
      then have "drop pos input \<noteq> [] \<or> produced \<noteq> []" by auto
      then have "rank d' (drop (pos + n) input) < rank d (drop pos input)"
        using progress [OF r] False by (simp add: add.commute)
      from less [OF this, of "out @ produced"] show ?thesis
        using False r by (subst decode_loop.simps) auto
    qed (use r in \<open>subst decode_loop.simps, auto\<close>)
  qed (subst decode_loop.simps, simp)
qed

lemma split_frames_returns:
  assumes "\<And>d rest hint n out d'. run d rest = Inr (hint, n, out, d') \<Longrightarrow> hint \<noteq> 0 \<Longrightarrow> rest \<noteq> [] \<or> out \<noteq> [] \<Longrightarrow>
      rank d' (drop n rest) < (rank d rest :: nat)"
  shows "\<exists>r. split_frames (with_decoder new run lib) at body = Some r"
proof (induction "length body" arbitrary: at body rule: less_induct)
  case less
  have loop: "\<exists>r. decode_loop run d body 0 [] = Some r" for d by (rule decode_loop_returns [OF assms])
  obtain r where r: "zstd_frame (with_decoder new run lib) body = Some r"
    using loop by (cases new) (auto simp: with_decoder_def decode_one_zstd_frame_def simp del: not_None_eq)
  show ?case
  proof (cases "body = [] \<or> (\<exists>e. r = Inl e) \<or> (\<exists>out. r = Inr (0, out))")
    case False
    then obtain n out where n: "r = Inr (n, out)" "n > 0" "body \<noteq> []" by (cases r) auto
    then show ?thesis using less [of "drop n body" "at + n"] r
      by (subst split_frames.simps) auto
  qed (use r in \<open>subst split_frames.simps, auto\<close>)
qed

subsection \<open>What the checks accept\<close>

text \<open>
  The declarative reading of a valid DATA body: its lines are records; every record is well-shaped, agrees
  with the eligible chain and has the bytes the ledger vouches for; each record follows the one before it;
  the first starts at the lowest eligible height at or above the requested one.
\<close>

definition follows :: "record_ref \<Rightarrow> record_ref \<Rightarrow> bool" where
  "follows p r \<longleftrightarrow> rr_number p < rr_number r \<and> rr_parent_number r = rr_number p \<and> rr_parent_hash r = rr_hash p"

definition starts_right :: "u64 \<Rightarrow> model_block list option \<Rightarrow> record_ref \<Rightarrow> bool" where
  "starts_right from eligible r \<longleftrightarrow>
     from \<le> rr_number r \<and>
     (\<forall>chain. eligible = Some chain \<longrightarrow>
        (\<exists>b. find (\<lambda>b. from \<le> mb_number b) chain = Some b \<and> mb_number b = rr_number r))"

definition on_branch :: "model_block list option \<Rightarrow> record_ref \<Rightarrow> bool" where
  "on_branch eligible r \<longleftrightarrow>
     (\<forall>chain. eligible = Some chain \<and> chain \<noteq> [] \<longrightarrow>
        (case find (\<lambda>b. mb_number b = rr_number r) chain of
           Some b \<Rightarrow> tuple_of r = b
         | None \<Rightarrow> rr_number r < mb_number (hd chain) \<or> mb_number (last chain) < rr_number r))"

definition vouched :: "ledger option \<Rightarrow> string \<Rightarrow> record_ref \<Rightarrow> bool" where
  "vouched lg line r \<longleftrightarrow> (\<forall>l. lg = Some l \<longrightarrow> line_of l (tuple_of r) = Some line)"

definition record_ok :: "data_oracle \<Rightarrow> string \<Rightarrow> record_ref \<Rightarrow> bool" where
  "record_ok oracle line r \<longleftrightarrow>
     rr_hash r \<noteq> [] \<and> rr_parent_hash r \<noteq> [] \<and> rr_parent_number r \<le> rr_number r \<and>
     on_branch (do_eligible oracle) r \<and> vouched (do_ledger oracle) line r"

definition valid_data :: "wire_lib \<Rightarrow> string \<Rightarrow> u64 \<Rightarrow> extractor \<Rightarrow> data_oracle \<Rightarrow> record_ref list \<Rightarrow> bool" where
  "valid_data lib text from extract oracle rs \<longleftrightarrow>
     ends_with_nl text \<and> rs \<noteq> [] \<and> starts_right from (do_eligible oracle) (hd rs) \<and> successively follows rs \<and>
     list_all2 (\<lambda>line r. read_record lib extract 0 line = Inr r \<and> record_ok oracle line r) (split_inclusive text) rs"

lemma check_next_iff: "check_next p r = Inr u \<longleftrightarrow> follows p r"
  by (auto simp: check_next_def follows_def)

lemma check_first_iff: "check_first from eligible r = Inr u \<longleftrightarrow> starts_right from eligible r"
  by (auto simp: check_first_def starts_right_def split: option.splits)

lemma check_eligible_iff: "check_eligible eligible r = Inr u \<longleftrightarrow> on_branch eligible r"
proof (cases "eligible = None \<or> eligible = Some []")
  case False
  then obtain c cs where e: "eligible = Some (c # cs)" by (metis list.exhaust option.exhaust)
  show ?thesis
  proof (cases "find (\<lambda>b. mb_number b = rr_number r) (c # cs)")
    case None
    then show ?thesis by (auto simp: check_eligible_def on_branch_def e Let_def not_le simp del: find.simps last.simps)
  next
    case (Some b)
    then have "mb_number b = rr_number r" by (auto simp: find_Some_iff simp del: find.simps)
    then have "tuple_of r = b \<longleftrightarrow> mb_hash b = rr_hash r \<and> mb_parent_number b = rr_parent_number r \<and>
        mb_parent_hash b = rr_parent_hash r"
      by (cases b) (auto simp: tuple_of_def)
    then show ?thesis using Some by (simp add: check_eligible_def on_branch_def e Let_def del: find.simps)
  qed
qed (auto simp: check_eligible_def on_branch_def)

lemma check_bytes_iff: "check_bytes lg line r = Inr u \<longleftrightarrow> vouched lg line r"
  by (auto simp: check_bytes_def vouched_def split: option.splits)

lemma both_checks:
  fixes x :: "'e + unit"
  shows "(case x of Inl e \<Rightarrow> Inl e | Inr _ \<Rightarrow> y) = Inr u \<longleftrightarrow> x = Inr () \<and> y = Inr u"
  by (cases x) auto

lemma check_record_iff:
  "check_record from oracle prev line r = Inr u \<longleftrightarrow>
     record_ok oracle line r \<and>
     (case prev of Some p \<Rightarrow> follows p r | None \<Rightarrow> starts_right from (do_eligible oracle) r)"
  by (auto simp: check_record_def both_checks check_next_iff check_first_iff check_eligible_iff check_bytes_iff
      check_shape_def record_ok_def split: option.splits if_splits)

lemma read_record_any: "read_record lib extract i line = Inr r \<longleftrightarrow> read_record lib extract 0 line = Inr r"
  by (auto simp: read_record_def split: sum.splits option.splits prod.splits)

lemma check_lines_iff:
  "check_lines lib from extract oracle records lines = Inr rs \<longleftrightarrow>
     (\<exists>new. rs = records @ new \<and>
        list_all2 (\<lambda>line r. read_record lib extract 0 line = Inr r \<and> record_ok oracle line r) lines new \<and>
        (records = [] \<and> new \<noteq> [] \<longrightarrow> starts_right from (do_eligible oracle) (hd new)) \<and>
        successively follows ((if records = [] then [] else [last records]) @ new))"
proof (induction lines arbitrary: records)
  case (Cons line lines)
  let ?link = "\<lambda>r. case vec_last records of Some p \<Rightarrow> follows p r | None \<Rightarrow> starts_right from (do_eligible oracle) r"
  show ?case
  proof (cases "\<exists>r. read_record lib extract 0 line = Inr r \<and> record_ok oracle line r \<and> ?link r")
    case True
    then obtain r where r: "read_record lib extract 0 line = Inr r" "record_ok oracle line r" "?link r" by blast
    then have "check_record from oracle (vec_last records) line r = Inr ()" by (simp add: check_record_iff)
    then have step: "check_lines lib from extract oracle records (line # lines) =
        check_lines lib from extract oracle (records @ [r]) lines"
      using r(1) read_record_any [of lib "extract" "length records" line r] by simp
    show ?thesis unfolding step Cons.IH
      using r by (cases "records = []") (auto simp: list_all2_Cons1 successively_Cons vec_last_def)
  next
    case False
    have "\<And>rs. check_lines lib from extract oracle records (line # lines) \<noteq> Inr rs"
    proof -
      fix rs
      show "check_lines lib from extract oracle records (line # lines) \<noteq> Inr rs"
        using False read_record_any [of lib "extract" "length records" line] check_record_iff [of "from" "oracle" "vec_last records" line]
        by (auto split: sum.splits)
    qed
    then show ?thesis using False
      by (cases "records = []") (auto simp: list_all2_Cons1 successively_Cons vec_last_def)
  qed
qed auto

lemma split_inclusive_nonempty: "s \<noteq> [] \<Longrightarrow> split_inclusive s \<noteq> []"
  by (cases s) (auto split: list.splits)

lemma validate_data_iff: "validate_data lib text from extract oracle = Inr rs \<longleftrightarrow> valid_data lib text from extract oracle rs"
  using split_inclusive_nonempty [of "text"]
  by (auto simp: validate_data_def valid_data_def check_lines_iff ends_with_nl_def)

text \<open>
  C25.  The check of a DATA body is exact.  \<open>validate_data\<close> returns the records \<open>rs\<close> of a body if and only if
  the body ends at a record boundary, its lines read as \<open>rs\<close> in order, every record is well-shaped, agrees
  with the eligible chain at its height and carries the bytes the ledger vouches for, each one follows the
  one before it by number and hash, and the first starts at the lowest eligible height from the requested
  one on.
\<close>

theorem data_body_check_exact:
  "validate_data lib text from extract oracle = Inr rs \<longleftrightarrow>
     ends_with_nl text \<and> rs \<noteq> [] \<and> starts_right from (do_eligible oracle) (hd rs) \<and> successively follows rs \<and>
     list_all2 (\<lambda>line r. read_record lib extract 0 line = Inr r \<and> record_ok oracle line r) (split_inclusive text) rs"
  by (simp add: validate_data_iff valid_data_def)

end
