(* ===== verification/Http_Conform.thy ===== *)
theory Http_Conform
  imports Http Validators
begin

text \<open>
  The responses of the service pass the validators of the harness: the composition of \<open>Http\<close>, the query
  side of the service and \<open>Validators\<close>.
\<close>

subsection \<open>Frames and lines\<close>

definition one_record :: "string \<Rightarrow> bool" where
  "one_record line \<longleftrightarrow> (\<exists>cs. line = cs @ [nl] \<and> nl \<notin> set cs)"

lemma one_record_counts:
  assumes "one_record line"
  shows "ends_with_nl line" "length (filter (\<lambda>c. c = nl) line) = 1"
  using assms by (auto simp: one_record_def ends_with_nl_def filter_empty_conv)

lemma split_inclusive_record:
  assumes "one_record line"
  shows "split_inclusive (line @ rest) = line # split_inclusive rest"
proof -
  obtain cs where cs: "line = cs @ [nl]" "nl \<notin> set cs" using assms by (auto simp: one_record_def)
  from cs(2) show ?thesis unfolding cs(1) by (induction cs) auto
qed

lemma split_inclusive_concat: "\<forall>l \<in> set lines. one_record l \<Longrightarrow> split_inclusive (concat lines) = lines"
  by (induction lines) (auto simp: split_inclusive_record)

text \<open>A unit of a body, with the line it decodes to wherever it stands.\<close>

definition zstd_unit :: "wire_lib \<Rightarrow> bytes \<Rightarrow> string \<Rightarrow> bool" where
  "zstd_unit lib f line \<longleftrightarrow>
     f \<noteq> [] \<and> is_utf8 lib line \<and> one_record line \<and> (\<forall>rest. zstd_frame lib (f @ rest) = Some (Inr (length f, line)))"

definition gzip_unit :: "wire_lib \<Rightarrow> bytes \<Rightarrow> string \<Rightarrow> bool" where
  "gzip_unit lib f line \<longleftrightarrow>
     f \<noteq> [] \<and> is_utf8 lib line \<and> one_record line \<and> (\<forall>rest. gzip_member lib (f @ rest) = Inr (length f, line))"

lemma split_frames_concat:
  "list_all2 (zstd_unit lib) fs lines \<Longrightarrow>
   \<exists>frames. split_frames lib at (concat fs) = Some (Inr frames) \<and> map bf_text frames = lines"
proof (induction arbitrary: at rule: list_all2_induct)
  case (Cons f fs line lines)
  obtain frames where "split_frames lib (at + length f) (concat fs) = Some (Inr frames)" "map bf_text frames = lines"
    using Cons.IH by blast
  then show ?case using Cons.hyps(1)
    by (subst split_frames.simps) (auto simp: zstd_unit_def)
qed (simp add: split_frames.simps)

lemma split_gzip_members_concat:
  "list_all2 (gzip_unit lib) fs lines \<Longrightarrow>
   \<exists>frames. split_gzip_members lib at (concat fs) = Inr frames \<and> map bf_text frames = lines"
proof (induction arbitrary: at rule: list_all2_induct)
  case (Cons f fs line lines)
  obtain frames where "split_gzip_members lib (at + length f) (concat fs) = Inr frames" "map bf_text frames = lines"
    using Cons.IH by blast
  then show ?case using Cons.hyps(1)
    by (subst split_gzip_members.simps) (auto simp: gzip_unit_def)
qed (simp add: split_gzip_members.simps)

lemma check_frames_ok: "\<forall>f \<in> set frames. one_record (bf_text f) \<Longrightarrow> check_frames i frames = Inr ()"
proof (induction frames arbitrary: i)
  case (Cons f frames)
  then show ?case using one_record_counts [of "bf_text f"] by (simp add: Let_def)
qed simp

lemma validate_framing_ok:
  assumes "list_all2 (if use_zstd then zstd_unit lib else gzip_unit lib) fs lines" "fs \<noteq> []"
  shows "validate_framing lib (concat fs) (if use_zstd then ''zstd'' else ''gzip'') = Some (Inr lines)"
proof -
  obtain frames where f: "map bf_text frames = lines"
      "(if use_zstd then split_frames lib 0 (concat fs) else Some (split_gzip_members lib 0 (concat fs))) = Some (Inr frames)"
    using split_frames_concat [of lib fs lines 0] split_gzip_members_concat [of lib fs lines 0] assms(1)
    by (cases use_zstd) auto
  have "\<forall>l \<in> set lines. one_record l"
    using assms(1) by (cases use_zstd) (auto simp: list_all2_conv_all_nth in_set_conv_nth zstd_unit_def gzip_unit_def)
  then have "check_frames 0 frames = Inr ()" using f(1) by (intro check_frames_ok) auto
  moreover have "frames \<noteq> []" using f(1) assms by (auto dest: list_all2_lengthD)
  ultimately show ?thesis using f by (cases use_zstd) (auto simp: validate_framing_def)
qed

subsection \<open>Numerals\<close>

lemma decimal_digits: "\<forall>c \<in> set (decimal n). 48 \<le> (of_char c :: nat) \<and> (of_char c :: nat) \<le> 57"
  by (induction n rule: decimal.induct) (subst decimal.simps, auto simp: Let_def)

lemma decimal_nonempty: "decimal n \<noteq> []"
  by (subst decimal.simps) simp

lemma u64_digits_snoc:
  assumes "u64_digits acc cs = Inr v" "48 \<le> (of_char c :: nat)" "(of_char c :: nat) \<le> 57" "10 * v + (of_char c - 48) < 2 ^ 64"
  shows "u64_digits acc (cs @ [c]) = Inr (10 * v + (of_char c - 48))"
  using assms by (induction cs arbitrary: acc) (auto simp: Let_def split: if_splits)

lemma u64_digits_decimal: "n < 2 ^ 64 \<Longrightarrow> u64_digits 0 (decimal n) = Inr n"
proof (induction n rule: decimal.induct)
  case (1 n)
  show ?case
  proof (cases "n < 10")
    case True
    then show ?thesis by (subst decimal.simps) (simp add: Let_def)
  next
    case False
    then have "u64_digits 0 (decimal (n div 10)) = Inr (n div 10)" using 1 by simp
    then have "u64_digits 0 (decimal (n div 10) @ [char_of (48 + n mod 10)]) = Inr (10 * (n div 10) + (48 + n mod 10 - 48))"
      using u64_digits_snoc [of 0 "decimal (n div 10)" "n div 10" "char_of (48 + n mod 10)"] 1(2) by simp
    then show ?thesis using False by (subst decimal.simps) simp
  qed
qed

lemma parse_u64_decimal: "parse_u64 (decimal (unat n)) = Inr n"
proof -
  obtain c cs where d: "decimal (unat n) = c # cs" using decimal_nonempty by (metis list.exhaust)
  then have "48 \<le> (of_char c :: nat)" using decimal_digits [of "unat n"] by simp
  then have "c \<noteq> CHR ''+''" by auto
  moreover have "unat n < 2 ^ 64" using unsigned_less [of n] by simp
  ultimately show ?thesis using d u64_digits_decimal [of "unat n"] by (simp add: parse_u64_def)
qed

lemma validate_watermark_ok:
  "h \<noteq> [] \<Longrightarrow> validate_watermark (Some (decimal (unat n))) (Some h) = Inr \<lparr>ref_number = n, ref_hash = h\<rparr>"
  by (simp add: validate_watermark_def parse_u64_decimal)

subsection \<open>Records of the window\<close>

definition record_of :: "block \<Rightarrow> record_ref" where
  "record_of b =
     \<lparr>rr_number = number b, rr_parent_number = parent_number b, rr_hash = hash b, rr_parent_hash = parent_hash b\<rparr>"

lemma tuple_of_record [simp]: "tuple_of (record_of b) = header_tuple b"
  by (simp add: tuple_of_def record_of_def header_tuple_def)

definition window_oracle :: "chain \<Rightarrow> data_oracle" where
  "window_oracle c = \<lparr>do_ledger = None, do_eligible = Some (map header_tuple (blocks c))\<rparr>"

lemma record_of_fields [simp]:
  "rr_number (record_of b) = number b" "rr_parent_number (record_of b) = parent_number b"
  "rr_hash (record_of b) = hash b" "rr_parent_hash (record_of b) = parent_hash b"
  by (simp_all add: record_of_def)

lemma find_filter: "find P xs = (case filter P xs of [] \<Rightarrow> None | x # _ \<Rightarrow> Some x)"
  by (induction xs) auto

lemma follows_linked: "linked_chain bs \<Longrightarrow> successively follows (map record_of bs)"
  by (induction bs rule: linked_chain.induct) (auto simp: follows_def record_of_def is_chain_def)

lemma window_record_ok:
  assumes "chain_inv c" "safe_chain c" "b \<in> set (blocks c)"
  shows "record_ok (window_oracle c) line (record_of b)"
proof -
  note inv = chain_invD [OF assms(1)]
  have safe: "hash b \<noteq> []" "parent_hash b \<noteq> []" using assms(2,3) by (auto simp: safe_chain_def safe_block_def hash_ok_def)
  obtain i where i: "i < length (blocks c)" "b = blocks c ! i" using assms(3) by (auto simp: in_set_conv_nth)
  have pn: "parent_number b \<le> number b" using window_inv_parent_le [OF inv(8) i(1)] i(2) by simp
  have "\<exists>b'. find (\<lambda>h. mb_number h = number b) (map header_tuple (blocks c)) = Some b'"
    using assms(3) by (cases "find (\<lambda>h. mb_number h = number b) (map header_tuple (blocks c))")
      (auto simp: find_None_iff header_tuple_def)
  then obtain h where h: "find (\<lambda>h. mb_number h = number b) (map header_tuple (blocks c)) = Some h" by blast
  then obtain b' where b': "b' \<in> set (blocks c)" "h = header_tuple b'" "number b' = number b"
  proof -
    obtain i where i: "i < length (blocks c)" "h = header_tuple (blocks c ! i)" "mb_number h = number b"
      using h by (auto simp: find_Some_iff)
    then show thesis using that [of "blocks c ! i"] by (simp add: header_tuple_def)
  qed
  have "b' = b" using ascending_nth_inj [OF inv(3)] b'(1,3) i by (auto simp: in_set_conv_nth)
  then show ?thesis using safe pn h b'(2)
    by (simp add: record_ok_def window_oracle_def on_branch_def vouched_def)
qed

lemma window_starts_right:
  assumes "filter (\<lambda>b. from \<le> number b) (blocks c) = b # bs"
  shows "starts_right from (do_eligible (window_oracle c)) (record_of b)"
proof -
  have "from \<le> number b" using assms by (metis (mono_tags, lifting) filter_eq_ConsD)
  moreover have "find (\<lambda>b. from \<le> mb_number b) (map header_tuple (blocks c)) = Some (header_tuple b)"
    using assms by (simp add: find_filter filter_map o_def header_tuple_def)
  ultimately show ?thesis by (simp add: starts_right_def window_oracle_def record_of_def header_tuple_def)
qed

lemma window_body_valid:
  assumes "chain_inv c" "safe_chain c" "bs \<noteq> []" "bs = take n (filter (\<lambda>b. from \<le> number b) (blocks c))"
    and "linked_chain (filter (\<lambda>b. from \<le> number b) (blocks c))"
    and "list_all2 (\<lambda>line b. one_record line \<and> read_record lib ex 0 line = Inr (record_of b)) lines bs"
  shows "validate_data lib (concat lines) from ex (window_oracle c) = Inr (map record_of bs)"
proof -
  let ?t = "filter (\<lambda>b. from \<le> number b) (blocks c)"
  obtain b ts where t: "?t = b # ts" using assms(3,4) by (cases ?t) auto
  have hd_bs: "hd bs = b" using assms(3,4) t by (cases n) auto
  have one: "\<forall>l \<in> set lines. one_record l" using assms(6) by (auto simp: list_all2_conv_all_nth in_set_conv_nth)
  have ne: "lines \<noteq> []" using assms(3,6) by auto
  have "ends_with_nl (concat lines)"
  proof -
    have "concat lines = concat (butlast lines) @ last lines" using ne by (metis append_butlast_last_id concat.simps concat_append append_Nil2)
    then show ?thesis using one ne one_record_counts(1) [of "last lines"] by (auto simp: ends_with_nl_def)
  qed
  moreover have "linked_chain bs"
    using assms(4) linked_chain_take [OF assms(5), of n] by simp
  moreover have "set bs \<subseteq> set (blocks c)" using assms(4) by (auto dest: in_set_takeD)
  moreover have "list_all2 (\<lambda>line r. read_record lib ex 0 line = Inr r \<and> record_ok (window_oracle c) line r) lines
      (map record_of bs)"
    using assms(6) \<open>set bs \<subseteq> set (blocks c)\<close> window_record_ok [OF assms(1,2)]
    by (auto simp: list_all2_conv_all_nth subset_iff)
  ultimately show ?thesis
    using follows_linked [of bs] window_starts_right [OF t] hd_bs assms(3) one
    by (simp add: validate_data_iff valid_data_def split_inclusive_concat list.map_sel(1))
qed

subsection \<open>Responses on the wire\<close>

text \<open>
  What axum adds to a response: the content type of a text or JSON body that sets none itself, and the
  serialisation of the JSON value the derived serialisers give.
\<close>

record wire_env =
  text_type :: string
  json_type :: string
  json_text :: "json \<Rightarrow> bytes"

definition ref_json :: "block_ref \<Rightarrow> json" where
  "ref_json r = JObject [(''number'', JNumber (PosInt (ref_number r))), (''hash'', JString (ref_hash r))]"

definition previous_json :: "block_ref list \<Rightarrow> json" where
  "previous_json prev = JObject [(''previousBlocks'', JArray (map ref_json prev))]"

definition wire_body :: "wire_env \<Rightarrow> http_body \<Rightarrow> bytes" where
  "wire_body env body =
     (case body of
        NoBody \<Rightarrow> []
      | Plain t \<Rightarrow> t
      | RefJson r \<Rightarrow> json_text env (ref_json r)
      | MetricsJson v \<Rightarrow> json_text env v
      | PreviousBlocks prev \<Rightarrow> json_text env (previous_json prev)
      | Records frames \<Rightarrow> concat (map fr_bytes frames))"

definition wire_headers_of :: "wire_env \<Rightarrow> http_response \<Rightarrow> wire_headers" where
  "wire_headers_of env rsp =
     \<lparr>wh_content_type =
        (case rsp_headers rsp ''content-type'' of
           Some t \<Rightarrow> Some t
         | None \<Rightarrow>
             (case rsp_body rsp of
                NoBody \<Rightarrow> None | Plain _ \<Rightarrow> Some (text_type env) | Records _ \<Rightarrow> None | _ \<Rightarrow> Some (json_type env))),
      wh_content_encoding = rsp_headers rsp ''content-encoding'', wh_vary = rsp_headers rsp ''vary'',
      wh_finalized_number = rsp_headers rsp ''x-sqd-finalized-head-number'',
      wh_finalized_hash = rsp_headers rsp ''x-sqd-finalized-head-hash''\<rparr>"

text \<open>
  The documented behaviour of the libraries on both sides: the default content types, JSON that parses back
  to the value it was written from, texts that are UTF-8, and a gzip member that decodes to what was
  compressed wherever it stands.
\<close>

definition env_ok :: "http_lib \<Rightarrow> wire_lib \<Rightarrow> (bytes \<Rightarrow> string) \<Rightarrow> wire_env \<Rightarrow> bool" where
  "env_ok hl wl lossy env \<longleftrightarrow>
     is_media_type (text_type env) ''text/plain'' \<and> is_media_type (json_type env) ''application/json'' \<and>
     (\<forall>prev. json_parse wl (json_text env (previous_json prev)) = Inr (previous_json prev)) \<and>
     is_utf8 wl ''request body unreadable'' \<and>
     (\<forall>body e. parse_request hl body = Inl e \<longrightarrow> is_utf8 wl (''invalid request: '' @ e)) \<and>
     (\<forall>rest. starts_with (lossy (''Internal server error'' @ rest)) ''Internal server error'') \<and>
     (\<forall>raw g. gzip hl raw = Inr g \<and> is_utf8 wl raw \<and> one_record raw \<longrightarrow> gzip_unit wl g raw)"

text \<open>The payload of a block: one zstd frame that holds one line, which reads as the record of the block.\<close>

definition carries :: "http_lib \<Rightarrow> wire_lib \<Rightarrow> extractor \<Rightarrow> block \<Rightarrow> bool" where
  "carries hl wl ex b \<longleftrightarrow>
     (\<exists>line. zstd_unit wl (json_line_zstd b) line \<and> decode_all hl (json_line_zstd b) = Inr line \<and>
        read_record wl ex 0 line = Inr (record_of b))"

lemma frame_unit:
  assumes "env_ok hl wl lossy env" "carries hl wl ex b" "frame_of hl use_zstd b f"
  shows "\<exists>line. (if use_zstd then zstd_unit wl else gzip_unit wl) (fr_bytes f) line \<and> one_record line \<and>
    read_record wl ex 0 line = Inr (record_of b)"
proof -
  obtain line where l: "zstd_unit wl (json_line_zstd b) line" "decode_all hl (json_line_zstd b) = Inr line"
      "read_record wl ex 0 line = Inr (record_of b)"
    using assms(2) by (auto simp: carries_def)
  then have line: "is_utf8 wl line" "one_record line" by (auto simp: zstd_unit_def)
  show ?thesis
  proof (cases use_zstd)
    case True
    then show ?thesis using l line assms(3) by (auto simp: frame_of_def encode_block_def)
  next
    case False
    then have "gzip hl line = Inr (fr_bytes f)" using l assms(3) by (simp add: frame_of_def encode_block_def)
    then have "gzip_unit wl (fr_bytes f) line" using assms(1) line unfolding env_ok_def by blast
    then show ?thesis using False l line by auto
  qed
qed

lemma frames_units:
  assumes "env_ok hl wl lossy env" "\<forall>b \<in> set bs. carries hl wl ex b" "list_all2 (frame_of hl use_zstd) bs frames"
  shows "\<exists>lines. list_all2 (if use_zstd then zstd_unit wl else gzip_unit wl) (map fr_bytes frames) lines \<and>
    list_all2 (\<lambda>line b. one_record line \<and> read_record wl ex 0 line = Inr (record_of b)) lines bs"
  using assms(3,2)
proof (induction rule: list_all2_induct)
  case (Cons b bs f frames)
  obtain line where "(if use_zstd then zstd_unit wl else gzip_unit wl) (fr_bytes f) line" "one_record line"
      "read_record wl ex 0 line = Inr (record_of b)"
    using frame_unit [OF assms(1) _ Cons.hyps(1)] Cons.prems by auto
  moreover obtain lines where "list_all2 (if use_zstd then zstd_unit wl else gzip_unit wl) (map fr_bytes frames) lines"
      "list_all2 (\<lambda>line b. one_record line \<and> read_record wl ex 0 line = Inr (record_of b)) lines bs"
    using Cons by auto
  ultimately show ?case by (intro exI [of _ "line # lines"]) auto
qed simp

subsection \<open>Requests within the window\<close>

definition within :: "query_reads \<Rightarrow> u64 \<Rightarrow> bool" where
  "within qr from \<longleftrightarrow>
     below_window (qr_gate qr) from = Some False \<and> below_window (qr_cache qr) from = Some False \<and>
     (\<forall>k. below_window (qr_later qr k) from = Some False)"

definition class_of :: "data_response \<Rightarrow> query_class" where
  "class_of resp = (if resp_tail resp \<noteq> None then Window else WaitEmpty)"

lemma query_chain_total: "chain_inv c \<Longrightarrow> \<exists>a. query_chain c from parent = Some a"
  by (cases rule: query_chain_cases [where c = c and start = "from" and base = parent]) auto

lemma classify_within:
  assumes "reads_ok qr" "within qr from"
  obtains c a where "read_chain qr c" "chain_inv c" "below_window c from = Some False" "query_chain c from parent = Some a"
    "classify_query qr stream from parent =
       Some (case a of Inl prev \<Rightarrow> Inl (InvalidBaseBlock prev) | Inr resp \<Rightarrow> Inr (resp, class_of resp))"
proof -
  have inv: "chain_inv (qr_cache qr)" "\<And>k. chain_inv (qr_later qr k)" using assms(1) by (auto simp: reads_ok_def)
  have gate: "below_window (qr_gate qr) from = Some False" using assms(2) by (simp add: within_def)
  obtain cached where cached: "query_chain (qr_cache qr) from parent = Some cached" using query_chain_total [OF inv(1)] by blast
  let ?later = "qr_later qr (wait_for_block from (qr_watch qr))"
  obtain later where later: "query_chain ?later from parent = Some later" using query_chain_total [OF inv(2)] by blast
  show thesis
  proof (cases "\<exists>resp. cached = Inr resp \<and> resp_tail resp = None")
    case True
    then have "classify_query qr stream from parent =
        Some (case later of Inl prev \<Rightarrow> Inl (InvalidBaseBlock prev) | Inr resp \<Rightarrow> Inr (resp, class_of resp))"
      using gate cached later by (auto simp: classify_query_def class_of_def split: sum.splits)
    moreover have "read_chain qr ?later" by (auto simp: read_chain_def)
    ultimately show thesis using that [of ?later later] inv(2) later assms(2) by (simp add: within_def)
  next
    case False
    then have "classify_query qr stream from parent =
        Some (case cached of Inl prev \<Rightarrow> Inl (InvalidBaseBlock prev) | Inr resp \<Rightarrow> Inr (resp, class_of resp))"
      using gate cached by (auto simp: classify_query_def class_of_def split: sum.splits)
    moreover have "read_chain qr (qr_cache qr)" by (simp add: read_chain_def)
    ultimately show thesis using that [of "qr_cache qr" cached] inv(1) cached assms(2) by (simp add: within_def)
  qed
qed

lemma ascending_windows2: "ascending ref_number prev \<Longrightarrow> \<not> list_ex (\<lambda>(a, b). ref_number b \<le> ref_number a) (windows2 prev)"
  by (induction prev rule: windows2.induct) (auto simp: ascending_Cons not_le)

lemma read_refs_ok: "\<forall>r \<in> set prev. ref_hash r \<noteq> [] \<Longrightarrow> read_refs (map ref_json prev) = Inr prev"
  by (induction prev) (auto simp: read_ref_def ref_json_def)

lemma validate_conflict_ok:
  assumes "prev \<noteq> []" "ascending ref_number prev" "length prev \<le> 101" "\<forall>r \<in> set prev. ref_hash r \<noteq> []"
  shows "validate_conflict (previous_json prev) = Inr prev"
  using assms ascending_windows2 [OF assms(2)] read_refs_ok [OF assms(4)]
  by (simp add: validate_conflict_def previous_json_def MAX_FORK_REFS_def case_prod_unfold)

lemma window_conflict:
  assumes "chain_inv c" "safe_chain c" "query_chain c from parent = Some (Inl prev)"
  shows "validate_conflict (previous_json prev) = Inr prev"
proof -
  note inv = chain_invD [OF assms(1)]
  have safe: "ref_hash (block_ref_of b) \<noteq> []" "ref_hash (parent_ref_of b) \<noteq> []" if "b \<in> set (blocks c)" for b
    using assms(2) that by (auto simp: safe_chain_def safe_block_def hash_ok_def block_ref_of_def parent_ref_of_def)
  have "prev \<noteq> [] \<and> ascending ref_number prev \<and> length prev \<le> 101 \<and> (\<forall>r \<in> set prev. ref_hash r \<noteq> [])"
    using assms(1)
  proof (cases rule: query_chain_cases [where start = "from" and base = parent])
    case (conflict p h)
    then have "prev = conflict_refs (blocks c) p" using assms(3) by simp
    moreover have "hd (blocks c) \<in> set (blocks c)" using inv(1) by simp
    ultimately show ?thesis using conflict_refs_facts [OF inv(8) conflict(2)] safe by fastforce
  next
    case (tip_conflict h)
    then have "prev = map block_ref_of (drop (length (blocks c) - 100) (blocks c))" using assms(3) by simp
    then show ?thesis using tip_refs_facts [OF inv(8)] safe by (auto dest: in_set_dropD)
  qed (use assms(3) in auto)
  then show ?thesis by (intro validate_conflict_ok) auto
qed

lemma window_answer:
  assumes "chain_inv c" "below_window c from = Some False" "query_chain c from parent = Some (Inr resp)"
  shows "resp_head resp = None" "resp_finalized_head resp = Some (block_ref_of (blocks c ! finalized_head c))"
proof -
  have "resp_head resp = None \<and> resp_finalized_head resp = Some (block_ref_of (blocks c ! finalized_head c))"
    using assms(1)
  proof (cases rule: query_chain_cases [where start = "from" and base = parent])
    case below
    then show ?thesis using assms(2) chain_getters [OF assms(1)] by (simp add: below_window_def)
  qed (use assms(3) in auto)
  then show "resp_head resp = None" "resp_finalized_head resp = Some (block_ref_of (blocks c ! finalized_head c))" by auto
qed

subsection \<open>Conformance\<close>

definition accepted :: "stream_call \<Rightarrow> string" where
  "accepted call = (case sc_accept_encoding call of Some a \<Rightarrow> a | None \<Rightarrow> [])"

text \<open>
  A non-empty answer passes the checks of its headers, its watermark is that of a buffer that was read and
  does not exceed its head, and, unless the reader left before the first record, the body splits into
  frames of one record each that pass the checks against that buffer.  Any other answer is an outcome of
  the taxonomy.
\<close>

definition data_conforms :: "wire_lib \<Rightarrow> wire_env \<Rightarrow> extractor \<Rightarrow> u64 \<Rightarrow> chain \<Rightarrow> stream_call \<Rightarrow> http_response \<Rightarrow> bool" where
  "data_conforms wl env ex from c call rsp \<longleftrightarrow>
     (let h = wire_headers_of env rsp; fin = block_ref_of (blocks c ! finalized_head c)
      in validate_data_headers h (accepted call) = Inr fin \<and>
         validate_watermark_bounds fin (block_ref_of (last (blocks c))) = Inr () \<and>
         (rsp_body rsp = Records [] \<or>
          (\<exists>encoding lines records.
             wh_content_encoding h = Some encoding \<and>
             validate_framing wl (wire_body env (rsp_body rsp)) encoding = Some (Inr lines) \<and>
             validate_data wl (concat lines) from ex (window_oracle c) = Inr records)))"

definition conforms ::
    "http_lib \<Rightarrow> wire_lib \<Rightarrow> (bytes \<Rightarrow> string) \<Rightarrow> wire_env \<Rightarrow> extractor \<Rightarrow> stream_call \<Rightarrow> http_response \<Rightarrow> bool" where
  "conforms hl wl lossy env ex call rsp \<longleftrightarrow>
     (if rsp_status rsp = 200 then
        \<exists>bytes req c. sc_body call = BodyBytes bytes \<and> parse_request hl bytes = Inr req \<and> read_chain (sc_reads call) c \<and>
          data_conforms wl env ex (hs_from_block req) c call rsp
      else
        \<exists>cls. validate_error wl lossy (rsp_status rsp) (wire_headers_of env rsp) (wire_body env (rsp_body rsp)) = Inr cls)"

lemma conforms_plain:
  assumes "env_ok hl wl lossy env"
  shows "conforms hl wl lossy env ex call (internal_error lib e)"
    "t \<noteq> [] \<Longrightarrow> is_utf8 wl t \<Longrightarrow> conforms hl wl lossy env ex call (respond 400 (Plain t))"
  using assms
  by (simp_all add: conforms_def internal_error_def respond_def validate_error_def wire_headers_of_def wire_body_def
      expect_text_def check_diagnostic_def env_ok_def)

lemma conforms_conflict:
  assumes "env_ok hl wl lossy env" "validate_conflict (previous_json prev) = Inr prev"
  shows "conforms hl wl lossy env ex call (respond 409 (PreviousBlocks prev))"
  using assms
  by (simp add: conforms_def respond_def validate_error_def validate_conflict_response_def wire_headers_of_def
      wire_body_def env_ok_def)

lemma conforms_empty:
  assumes "insert_finalized_head Map.empty fh = Some headers" "ref_hash fh \<noteq> []"
  shows "conforms hl wl lossy env ex call (no_content headers)"
  using assms validate_watermark_ok [of "ref_hash fh" "ref_number fh"]
  by (auto simp: conforms_def no_content_def validate_error_def wire_headers_of_def wire_body_def insert_finalized_head_def
      split: if_splits)

lemma stream_media_type: "is_media_type ''text/plain; charset=UTF-8'' ''text/plain''"
  by code_simp

lemma stream_vary:
  "list_ex (\<lambda>t. eq_ignore_ascii_case (trim t) ''accept-encoding'') (split_at (CHR '','') ''Accept-Encoding'')"
  by code_simp

lemma validate_data_headers_ok:
  assumes "insert_finalized_head Map.empty fh = Some headers" "ref_hash fh \<noteq> []"
    and "rsp_headers rsp = stream_headers (str_contains accept ''zstd'') headers"
  shows "validate_data_headers (wire_headers_of env rsp) accept = Inr fh"
    "wh_content_encoding (wire_headers_of env rsp) = Some (if str_contains accept ''zstd'' then ''zstd'' else ''gzip'')"
  using assms stream_media_type stream_vary validate_watermark_ok [of "ref_hash fh" "ref_number fh"]
  by (auto simp: validate_data_headers_def wire_headers_of_def stream_headers_def expect_text_def Let_def
      insert_finalized_head_def split: if_splits)

lemma watermark_below_head:
  assumes "chain_inv c"
  shows "validate_watermark_bounds (block_ref_of (blocks c ! finalized_head c)) (block_ref_of (last (blocks c))) = Inr ()"
proof -
  note inv = chain_invD [OF assms]
  have "finalized_head c < length (blocks c)" using inv(8) by (simp add: window_inv_def)
  then have "number (blocks c ! finalized_head c) \<le> number (last (blocks c))"
    using ascending_last_max [OF inv(3)] inv(1) by auto
  moreover have "blocks c ! finalized_head c = last (blocks c)"
    if "number (blocks c ! finalized_head c) = number (last (blocks c))"
    using ascending_nth_inj [OF inv(3), of "finalized_head c" "length (blocks c) - 1"] that
      \<open>finalized_head c < length (blocks c)\<close> inv(1) by (simp add: last_conv_nth)
  ultimately show ?thesis by (auto simp: validate_watermark_bounds_def block_ref_of_def not_less)
qed

lemma data_conforms_ok:
  assumes c: "chain_inv c" "safe_chain c" and env: "env_ok hl wl lossy env" and carried: "\<forall>b \<in> set (blocks c). carries hl wl ex b"
    and tail: "tail = filter (\<lambda>b. from \<le> number b) (blocks c)" "linked_chain tail"
    and frames: "list_all2 (frame_of hl (wants_zstd call)) (take (length frames) tail) frames"
    and headers: "insert_finalized_head Map.empty (block_ref_of (blocks c ! finalized_head c)) = Some headers"
    and rsp: "rsp = \<lparr>rsp_status = 200, rsp_headers = stream_headers (wants_zstd call) headers, rsp_body = Records frames\<rparr>"
  shows "data_conforms wl env ex from c call rsp"
proof -
  let ?bs = "take (length frames) tail" and ?fin = "block_ref_of (blocks c ! finalized_head c)"
  have z: "wants_zstd call = str_contains (accepted call) ''zstd''" by (simp add: wants_zstd_def accepted_def)
  have "ref_hash ?fin \<noteq> []"
    using c(2) chain_invD(4) [OF c(1)] by (simp add: safe_chain_def safe_block_def hash_ok_def block_ref_of_def)
  note hs = validate_data_headers_ok [OF headers this, of rsp "accepted call" env]
  have "\<exists>lines records. validate_framing wl (concat (map fr_bytes frames)) (if wants_zstd call then ''zstd'' else ''gzip'') =
        Some (Inr lines) \<and> validate_data wl (concat lines) from ex (window_oracle c) = Inr records" if "frames \<noteq> []"
  proof -
    have "\<forall>b \<in> set ?bs. carries hl wl ex b" using carried tail(1) by (auto dest: in_set_takeD)
    then obtain lines where lines:
        "list_all2 (if wants_zstd call then zstd_unit wl else gzip_unit wl) (map fr_bytes frames) lines"
        "list_all2 (\<lambda>line b. one_record line \<and> read_record wl ex 0 line = Inr (record_of b)) lines ?bs"
      using frames_units [OF env _ frames] by blast
    have "?bs \<noteq> []" using frames that by auto
    then show ?thesis
      using validate_framing_ok [OF lines(1)] that window_body_valid [OF c _ _ _ lines(2)] tail by blast
  qed
  then have body: "frames = [] \<or> (\<exists>lines records.
        validate_framing wl (concat (map fr_bytes frames)) (if wants_zstd call then ''zstd'' else ''gzip'') = Some (Inr lines) \<and>
        validate_data wl (concat lines) from ex (window_oracle c) = Inr records)" by blast
  have "rsp_headers rsp = stream_headers (str_contains (accepted call) ''zstd'') headers" using rsp z by simp
  note hs = hs [OF this]
  have "wire_body env (rsp_body rsp) = concat (map fr_bytes frames)" "rsp_body rsp = Records [] \<longleftrightarrow> frames = []"
    using rsp by (simp_all add: wire_body_def)
  then show ?thesis using body unfolding data_conforms_def Let_def hs z [symmetric]
    using watermark_below_head [OF c(1)] by auto
qed

lemma serve_within:
  assumes "env_ok hl wl lossy env" "chain_inv c" "safe_chain c" "\<forall>b \<in> set (blocks c). carries hl wl ex b"
    and "sc_body call = BodyBytes bytes" "parse_request hl bytes = Inr req" "read_chain (sc_reads call) c"
    and "below_window c (hs_from_block req) = Some False" "query_chain c (hs_from_block req) parent = Some (Inr resp)"
  shows "\<exists>rsp end s'. serve_outcome hl call settle \<lparr>qo_response = resp, qo_class = class_of resp\<rparr> s = Some (rsp, end, s') \<and>
    conforms hl wl lossy env ex call rsp"
proof -
  let ?z = "wants_zstd call"
  note shape = window_answer [OF assms(2,8,9)]
  have fin: "ref_hash (block_ref_of (blocks c ! finalized_head c)) \<noteq> []"
    using assms(3) chain_invD(4) [OF assms(2)] by (simp add: safe_chain_def safe_block_def hash_ok_def block_ref_of_def)
  obtain headers where h: "insert_finalized_head Map.empty (block_ref_of (blocks c ! finalized_head c)) = Some headers"
    using finalized_header [OF assms(2,3) disjI1 [OF assms(7)]] by blast
  note empty = conforms_empty [OF h fin] and internal = conforms_plain(1) [OF assms(1)]
  note eq = serve_outcome_def Let_def shape h wants_zstd_def [symmetric]
  show ?thesis
  proof (cases "resp_tail resp")
    case None
    then show ?thesis using empty by (auto simp: eq)
  next
    case (Some tail)
    note t = query_tail [OF assms(2,9) Some]
    then obtain b bs where tail: "tail = b # bs" using t(2) by (meson list.exhaust)
    have items: "block_stream None tail = Inr (b, ''tail'') # map (\<lambda>b. Inr (b, ''tail'')) bs"
      by (simp add: block_stream_def tail)
    show ?thesis
    proof (cases "sc_first_in_time call")
      case False
      then show ?thesis using Some tail empty by (auto simp: eq)
    next
      case True
      show ?thesis
      proof (cases "encode_frame hl ?z (b, ''tail'')")
        case (Inl e)
        then show ?thesis using True Some items tail internal by (auto simp: eq)
      next
        case (Inr first)
        obtain frames "end" where sent:
            "send_records hl ?z (response_budget s) (sc_events call) first (map (\<lambda>b. Inr (b, ''tail'')) bs) = (frames, end)"
          by fastforce
        have "list_all2 (frame_of hl ?z) (take (length frames) tail) frames"
          using send_records_frames [OF sent encode_frame_of [OF Inr] recorded_same] tail by auto
        then have "data_conforms wl env ex (hs_from_block req) c call
            \<lparr>rsp_status = 200, rsp_headers = stream_headers ?z headers, rsp_body = Records frames\<rparr>"
          using data_conforms_ok [OF assms(2,3,1,4) t(1,3) _ h refl] by blast
        then show ?thesis using True Some items tail Inr sent assms(5-7)
          by (auto simp: eq conforms_def)
      qed
    qed
  qed
qed

text \<open>Every buffer the call reads holds payloads that carry their blocks; a parsed request is within the window.\<close>

definition window_call :: "http_lib \<Rightarrow> wire_lib \<Rightarrow> extractor \<Rightarrow> stream_call \<Rightarrow> bool" where
  "window_call hl wl ex call \<longleftrightarrow>
     (\<forall>c b. read_chain (sc_reads call) c \<and> b \<in> set (blocks c) \<longrightarrow> carries hl wl ex b) \<and>
     (\<forall>bytes req. sc_body call = BodyBytes bytes \<and> parse_request hl bytes = Inr req \<longrightarrow>
        within (sc_reads call) (hs_from_block req)) \<and>
     sc_body call \<noteq> BodyTooLarge"

lemma handle_stream_conforms:
  assumes "call_ok call" "env_ok hl wl lossy env" "window_call hl wl ex call"
  shows "\<exists>rsp end s'. handle_stream hl call s = Some (rsp, end, s') \<and> conforms hl wl lossy env ex call rsp"
proof (cases "sc_body call")
  case (BodyBytes bytes)
  show ?thesis
  proof (cases "parse_request hl bytes")
    case (Inl e)
    then have "is_utf8 wl (''invalid request: '' @ e)" using assms(2) unfolding env_ok_def by blast
    then show ?thesis using BodyBytes Inl conforms_plain(2) [OF assms(2)] by (simp add: handle_stream_def)
  next
    case (Inr req)
    have exp: "chain_inv (sc_at_expiry call)" "safe_chain (sc_at_expiry call)" using assms(1) by (auto simp: call_ok_def)
    show ?thesis
    proof (cases "sc_verdict_in_time call")
      case False
      obtain headers where h: "insert_finalized_head Map.empty
          (block_ref_of (blocks (sc_at_expiry call) ! finalized_head (sc_at_expiry call))) = Some headers"
        using finalized_header [OF exp disjI2 [OF refl]] by blast
      have "ref_hash (block_ref_of (blocks (sc_at_expiry call) ! finalized_head (sc_at_expiry call))) \<noteq> []"
        using exp(2) chain_invD(4) [OF exp(1)] by (simp add: safe_chain_def safe_block_def hash_ok_def block_ref_of_def)
      note conform = conforms_empty [OF h this]
      show ?thesis
        using False BodyBytes Inr h conform chain_getters(1) [OF exp(1)] by (simp add: handle_stream_def)
    next
      case True
      let ?qr = "sc_reads call" and ?from = "hs_from_block req" and ?parent = "hs_parent_block_hash req"
      have ok: "reads_ok ?qr" "within ?qr ?from" using assms(1,3) BodyBytes Inr
        unfolding call_ok_def window_call_def by blast+
      obtain c a where c: "read_chain ?qr c" "chain_inv c" "below_window c ?from = Some False"
          "query_chain c ?from ?parent = Some a"
          "classify_query ?qr (sc_source call) ?from ?parent =
             Some (case a of Inl prev \<Rightarrow> Inl (InvalidBaseBlock prev) | Inr resp \<Rightarrow> Inr (resp, class_of resp))"
        by (rule classify_within [OF ok])
      have safe: "safe_chain c" "\<forall>b \<in> set (blocks c). carries hl wl ex b"
        using assms(1,3) c(1) unfolding call_ok_def window_call_def by blast+
      show ?thesis
      proof (cases a)
        case (Inl prev)
        then show ?thesis
          using True BodyBytes Inr c(5) conforms_conflict [OF assms(2) window_conflict [OF c(2) safe(1)]] c(4)
          by (simp add: handle_stream_def service_query_def)
      next
        case found: (Inr resp)
        show ?thesis
          using serve_within [OF assms(2) c(2) safe BodyBytes Inr c(1,3), of ?parent resp
              "\<lambda>cls. record_query_outcome cls (sc_settled_after call)" s] c(4,5) found True BodyBytes Inr
          by (simp add: handle_stream_def service_query_def)
      qed
    qed
  qed
next
  case BodyUnreadable
  then show ?thesis using assms(2) conforms_plain(2) [OF assms(2), of "''request body unreadable''"]
    by (simp add: handle_stream_def env_ok_def)
qed (use assms(3) in \<open>simp add: window_call_def\<close>)

text \<open>The status of an oversized request is none of the taxonomy the harness closes.\<close>

lemma oversized_outside_taxonomy:
  assumes "sc_body call = BodyTooLarge"
  shows "\<exists>rsp. handle_stream hl call s = Some (rsp, Complete, s) \<and>
    validate_error wl lossy (rsp_status rsp) h body = Inl (OutsideTaxonomy 413)"
  using assms by (simp add: handle_stream_def respond_def validate_error_def)

end
