(* ===== verification/Process.thy ===== *)
theory Process
  imports Service_Run Evm_Source Rpc_Client
begin

text \<open>
  The binary (\<open>evm-data-service/src/main.rs\<close>) and the start of the service (\<open>run_data_service\<close>): arguments
  and what they configure, the supervision of the run, and the exit of the process.

  The parser of the command line is clap; its attributes in the source are \<open>args_accepted\<close>.  What the
  supervisor sees, in the order in which it sees it, is a list of events.
\<close>

subsection \<open>Arguments\<close>

datatype call_frame_validation_arg = ArgOff | ArgObserve | ArgReject

fun mode_of_arg :: "call_frame_validation_arg \<Rightarrow> call_frame_validation_mode" where
  "mode_of_arg ArgOff = Off"
| "mode_of_arg ArgObserve = Observe"
| "mode_of_arg ArgReject = Reject"

definition default_rpc_capacity :: "usize option" where
  "default_rpc_capacity = (if DEFAULT_REQUEST_CAPACITY = 0 then None else Some DEFAULT_REQUEST_CAPACITY)"

record args =
  a_http_rpc :: string
  a_max_batch_call_size :: "usize option"
  a_stride_size :: usize
  a_stride_concurrency :: usize
  a_rate_limit :: "f64_value option"
  a_capacity :: usize
  a_timeout :: u64
  a_retry_internal_server_errors :: bool
  a_block_cache_size :: usize
  a_port :: "16 word"
  a_finality_confirmation :: "u64 option"
  a_with_receipts :: bool
  a_with_traces :: bool
  a_with_statediffs :: bool
  a_use_trace_api :: bool
  a_use_debug_api_for_statediffs :: bool
  a_use_debug_trace_block_by_number :: bool
  a_verify_block_hash :: bool
  a_verify_tx_sender :: bool
  a_verify_tx_root :: bool
  a_verify_receipts_root :: bool
  a_verify_withdrawals_root :: bool
  a_verify_logs_bloom :: bool
  a_call_frame_validation :: call_frame_validation_arg
  a_skip_log_index_check :: bool
  a_skip_cumulative_gas_used_check :: bool
  a_use_gas_used_for_receipts_root :: bool
  a_auto_adjust_finalized_head :: bool
  a_profile_block_timings :: bool

text \<open>
  What clap lets through: the two \<open>NonZeroUsize\<close> values, and the \<open>requires\<close> attributes.  A flag that
  another one requires has to be given on the command line.
\<close>

definition args_accepted :: "args \<Rightarrow> bool" where
  "args_accepted a \<longleftrightarrow>
     a_capacity a > 0 \<and> a_block_cache_size a > 0 \<and>
     (a_verify_receipts_root a \<longrightarrow> a_with_receipts a) \<and>
     (a_skip_cumulative_gas_used_check a \<longrightarrow> a_with_receipts a) \<and>
     (a_use_gas_used_for_receipts_root a \<longrightarrow> a_with_receipts a \<and> a_verify_receipts_root a)"

definition args_rpc_client_config :: "args \<Rightarrow> rpc_client_config" where
  "args_rpc_client_config a =
     \<lparr>url = a_http_rpc a, max_batch_call_size = a_max_batch_call_size a, capacity = a_capacity a,
      rate_limit = a_rate_limit a, request_timeout = unat (a_timeout a), retry_attempts = 5,
      retry_schedule = [10, 100, 500, 2000, 10000, 20000],
      retry_internal_server_errors = a_retry_internal_server_errors a, ws_pool_size = None\<rparr>"

definition args_rpc_options :: "args \<Rightarrow> rpc_options" where
  "args_rpc_options a =
     \<lparr>finality_confirmation = a_finality_confirmation a, opt_finalized_head_ttl = None, opt_not_ready_budget = None,
      verify_block_hash = a_verify_block_hash a, verify_tx_sender = a_verify_tx_sender a,
      verify_tx_root = a_verify_tx_root a, verify_receipts_root = a_verify_receipts_root a,
      verify_withdrawals_root = a_verify_withdrawals_root a, verify_logs_bloom = a_verify_logs_bloom a,
      call_frame_validation = mode_of_arg (a_call_frame_validation a),
      check_log_index = (\<not> a_skip_log_index_check a),
      check_cumulative_gas_used = (\<not> a_skip_cumulative_gas_used_check a),
      opt_use_gas_used_for_receipts_root = a_use_gas_used_for_receipts_root a\<rparr>"

definition args_data_request :: "args \<Rightarrow> data_request" where
  "args_data_request a =
     \<lparr>req_logs = (\<not> a_with_receipts a), req_receipts = a_with_receipts a, req_traces = a_with_traces a,
      req_state_diffs = a_with_statediffs a, req_use_trace_api = a_use_trace_api a,
      req_use_debug_api_for_state_diffs = a_use_debug_api_for_statediffs a,
      req_use_debug_trace_block_by_number = a_use_debug_trace_block_by_number a,
      req_debug_trace_timeout = Some ''60s''\<rparr>"

definition args_source_options :: "args \<Rightarrow> evm_rpc_data_source_options" where
  "args_source_options a =
     \<lparr>so_rpc_options = args_rpc_options a, so_data_request = args_data_request a, so_stride_size = a_stride_size a,
      so_stride_concurrency = a_stride_concurrency a, so_profile_block_timings = a_profile_block_timings a\<rparr>"

text \<open>The filter of the default environment variable, or else the most verbose level that is set.\<close>

definition log_levels :: "(string \<times> string) list" where
  "log_levels =
     [(''SQD_TRACE'', ''trace''), (''SQD_DEBUG'', ''debug''), (''SQD_INFO'', ''info''), (''SQD_WARN'', ''warn''),
      (''SQD_ERROR'', ''error''), (''SQD_FATAL'', ''error'')]"

definition sqd_log_filter :: "string option \<Rightarrow> (string \<Rightarrow> string option) \<Rightarrow> string" where
  "sqd_log_filter default_env env =
     (case default_env of
        Some f \<Rightarrow> f
      | None \<Rightarrow>
          (case find (\<lambda>(var, level). case env var of Some v \<Rightarrow> v \<noteq> [] | None \<Rightarrow> False) log_levels of
             Some (var, level) \<Rightarrow> level
           | None \<Rightarrow> ''info''))"

subsection \<open>Starting the service\<close>

record data_service_options =
  dso_block_cache_size :: usize
  dso_port :: "16 word"
  dso_auto_adjust_finalized_head :: bool
  dso_metrics :: "metrics option"

datatype start_error = InitFailed fault | BindFailed string | OptionsRejected anyhow | ClientRejected rpc_error

text \<open>
  \<open>bind_port\<close> is the outcome of binding the port; \<open>fresh\<close> is a private registry, \<open>cache\<close> the process-wide
  ingestion times.  The result is the port and the run before its first step.
\<close>

definition run_data_service ::
    "metrics \<Rightarrow> block_timestamp_cache \<Rightarrow> u64 \<Rightarrow> fault + block_ref \<Rightarrow> (stream_error + block_batch) option \<Rightarrow>
     (16 word \<Rightarrow> string + 16 word) \<Rightarrow> data_service_options \<Rightarrow> (start_error + 16 word \<times> run_state) option" where
  "run_data_service fresh cache now_ms head item bind_port opts = do {
     let s = service_with_metrics (dso_block_cache_size opts) (dso_auto_adjust_finalized_head opts)
               (case dso_metrics opts of Some m \<Rightarrow> m | None \<Rightarrow> fresh) cache;
     (res, s1) \<leftarrow> init_service now_ms head item s;
     (case res of
        Inl e \<Rightarrow> Some (Inl (InitFailed e))
      | Inr _ \<Rightarrow>
          (case bind_port (dso_port opts) of
             Inl e \<Rightarrow> Some (Inl (BindFailed e))
           | Inr p \<Rightarrow> map_option (\<lambda>r. Inr (p, r)) (run_start s1)))
   }"

text \<open>What the task that waits for the first block reports: nothing before the startup value changes.\<close>

datatype startup_report = StartupOk | StartupFailed | SupervisorVanished

definition report_startup :: "(unit + unit) list \<Rightarrow> startup_report option" where
  "report_startup values =
     (case values of [] \<Rightarrow> None | Inl _ # _ \<Rightarrow> Some StartupFailed | Inr _ # _ \<Rightarrow> Some StartupOk)"

subsection \<open>Supervision and exit\<close>

datatype run_failure =
    RunFault fault
  | FailedBeforeFirstBlock
  | ChannelClosed
  | DrainExceeded
  | StartFailure start_error
  | InContext string run_failure

datatype shutdown_reason = Clean | Failure run_failure

text \<open>\<open>None\<close>: the task was dropped before it reported.\<close>

definition classify_run_end :: "run_end option \<Rightarrow> shutdown_reason" where
  "classify_run_end end =
     (case end of
        Some Stopped \<Rightarrow> Clean
      | Some (StartupFailure e) \<Rightarrow> Failure (InContext ''startup failure (FM-31)'' (RunFault e))
      | Some (RunTerminal e) \<Rightarrow> Failure (InContext ''terminal divergence (FM-30)'' (RunFault e))
      | None \<Rightarrow> Failure (InContext ''ingestion task vanished before reporting how it ended (FM-32)'' ChannelClosed))"

definition finish_shutdown :: "bool \<Rightarrow> shutdown_reason \<Rightarrow> run_failure + unit" where
  "finish_shutdown drained_in_grace reason =
     (case (drained_in_grace, reason) of
        (True, Clean) \<Rightarrow> Inr ()
      | (True, Failure e) \<Rightarrow> Inl e
      | (False, Clean) \<Rightarrow> Inl DrainExceeded
      | (False, Failure e) \<Rightarrow> Inl (InContext ''service drain also exceeded the shutdown grace'' e))"

datatype process_event = Signal | Started startup_report | RunEnded "run_end option"

text \<open>The loop of the supervisor: after the startup report it listens to signals and to the end of the run.\<close>

fun supervise :: "bool \<Rightarrow> process_event list \<Rightarrow> shutdown_reason option" where
  "supervise started_done [] = None"
| "supervise started_done (Signal # evs) = Some Clean"
| "supervise started_done (RunEnded end # evs) = Some (classify_run_end end)"
| "supervise started_done (Started report # evs) =
     (if started_done then supervise started_done evs
      else case report of
             StartupOk \<Rightarrow> supervise True evs
           | StartupFailed \<Rightarrow> Some (Failure (InContext ''startup failure (FM-31)'' FailedBeforeFirstBlock))
           | SupervisorVanished \<Rightarrow> Some (Failure (InContext ''startup supervisor vanished (FM-32)'' ChannelClosed)))"

text \<open>
  The exit: a second signal while the service drains ends the process at once with 130, otherwise the
  result of \<open>main\<close> decides between 0 and 1.
\<close>

definition main_result :: "bool \<Rightarrow> process_event list \<Rightarrow> (run_failure + unit) option" where
  "main_result drained_in_grace evs = map_option (finish_shutdown drained_in_grace) (supervise False evs)"

definition exit_code :: "bool \<Rightarrow> run_failure + unit \<Rightarrow> nat" where
  "exit_code second_signal res = (if second_signal then 130 else case res of Inr _ \<Rightarrow> 0 | Inl _ \<Rightarrow> 1)"

definition main_start ::
    "(string \<Rightarrow> string + string) \<Rightarrow> usize \<Rightarrow> (data_service_options \<Rightarrow> (start_error + 16 word \<times> run_state) option) \<Rightarrow>
     metrics \<Rightarrow> args \<Rightarrow> (start_error + 16 word \<times> run_state) option" where
  "main_start parse_url max_permits run m a =
     (case validate (args_rpc_options a) of
        Inl e \<Rightarrow> Some (Inl (OptionsRejected e))
      | Inr _ \<Rightarrow>
          (case try_new parse_url max_permits (args_rpc_client_config a) of
             Inl e \<Rightarrow> Some (Inl (ClientRejected e))
           | Inr rpc \<Rightarrow>
               run \<lparr>dso_block_cache_size = a_block_cache_size a, dso_port = a_port a,
                    dso_auto_adjust_finalized_head = a_auto_adjust_finalized_head a, dso_metrics = Some m\<rparr>))"

definition divergent_reseed_display :: "divergent_reseed \<Rightarrow> string" where
  "divergent_reseed_display d =
     (let show_ref = (\<lambda>r. decimal (unat (ref_number r)) @ ''#'' @ ref_hash r)
      in ''re-seed names '' @ show_ref (dr_seed d) @ '' (parent '' @ show_ref (dr_seed_parent d) @
         '') but the buffer holds '' @ show_ref (dr_held d) @ '' (parent '' @ show_ref (dr_held_parent d) @
         '') at that height'')"

subsection \<open>What is configured\<close>

lemma accepted_options:
  assumes "args_accepted a" "a_call_frame_validation a = ArgReject \<longrightarrow> a_verify_tx_root a \<and> a_verify_tx_sender a"
  shows "validate_request (args_rpc_options a) (args_data_request a) = Inr ()"
  using assms
  by (cases "a_call_frame_validation a")
    (auto simp: args_accepted_def validate_request_def validate_def args_rpc_options_def args_data_request_def)

lemma capacity_rejected: "args_accepted a \<Longrightarrow>
  try_new parse_url max_permits (args_rpc_client_config a) \<noteq> Inl (InvalidConfig ''capacity must be greater than zero'')"
  by (auto simp: try_new_def args_accepted_def args_rpc_client_config_def build_transport_def Let_def split: sum.splits)

subsection \<open>How the process ends\<close>

text \<open>The events a run in a state can have caused: its startup report and its end.\<close>

definition caused :: "run_state \<Rightarrow> process_event \<Rightarrow> bool" where
  "caused r ev =
     (case ev of
        Signal \<Rightarrow> False
      | Started report \<Rightarrow> report_startup (started (rs_service r)) = Some report
      | RunEnded end \<Rightarrow> (\<exists>e. end = Some e \<and> rs_pc r = Ended e))"

lemma supervise_run:
  assumes "run_inv r" "rs_pc r = Ended e" "list_all (caused r) evs" "RunEnded (Some e) \<in> set evs"
  shows "\<exists>reason. supervise started_done evs = Some reason \<and> (reason = Clean \<longleftrightarrow> e = Stopped)"
  using assms(3,4)
proof (induction started_done evs rule: supervise.induct)
  case (4 started_done report evs)
  have rep: "report_startup (started (rs_service r)) = Some report" using 4 by (simp add: caused_def)
  have failed: "e \<noteq> Stopped" if "report = StartupFailed"
  proof
    assume "e = Stopped"
    then have "started (rs_service r) \<in> {[], [Inr ()]}"
      using assms(1,2) by (auto simp: run_inv_def startup_inv_def split: if_splits)
    then show False using rep that by (auto simp: report_startup_def)
  qed
  have "report \<noteq> SupervisorVanished"
    using rep by (auto simp: report_startup_def split: list.splits sum.splits)
  then show ?case using 4 failed by (cases report) (auto simp del: not_None_eq)
qed (use assms(2) in \<open>auto simp: caused_def classify_run_end_def split: run_end.splits\<close>)

lemma signal_is_clean:
  assumes "list_all (\<lambda>ev. ev = Started StartupOk) before"
  shows "supervise started_done (before @ Signal # evs) = Some Clean"
  using assms by (induction before arbitrary: started_done) auto

lemma run_data_service_inv:
  obtains res where "run_data_service fresh cache now_ms head item bind_port opts = Some res"
    "\<And>p r. res = Inr (p, r) \<Longrightarrow> run_inv r \<and> rs_pc r = AtTop"
proof -
  let ?s = "service_with_metrics (dso_block_cache_size opts) (dso_auto_adjust_finalized_head opts)
      (case dso_metrics opts of Some m \<Rightarrow> m | None \<Rightarrow> fresh) cache"
  have "svc_inv ?s \<or> svc_chain ?s = None" by (simp add: service_with_metrics_def)
  then show thesis
  proof (cases rule: init_service_cases [where now_ms = now_ms and head = head and item = item])
    case (seeded seed report s')
    have "started s' = []" using seeded(10) by (simp add: service_with_metrics_def)
    then obtain r where r: "run_start s' = Some r" "run_inv r" "rs_pc r = AtTop" using run_start_inv [OF seeded(8)] by metis
    then show thesis
      using seeded(7) that
      by (cases "bind_port (dso_port opts)") (auto simp: run_data_service_def Let_def)
  qed (auto intro!: that simp: run_data_service_def Let_def)
qed

end
