(* ===== verification/Spec2Isabelle.thy ===== *)
theory Spec2Isabelle
  imports Sim_Run Upstream Metrics_Export Ws_Send Evm_Heights Evm_Source Http_Conform Process "HOL-Library.Countable"
begin

text \<open>
  Verification of the hotblocks data service (the repository under \<open>src/\<close>): a service that follows a
  blockchain through an upstream RPC endpoint, keeps a window of recent blocks in memory and serves
  them over HTTP.

  \<^bold>\<open>Parts of the program.\<close>  \<open>crates/rpc-client\<close> speaks JSON-RPC to the upstream over HTTP or WebSocket,
  with a rate limit and retry ladders.  \<open>crates/evm-source\<close> acquires EVM blocks with it, checks them
  against the commitments of their headers, normalises them and hands them over as compressed lines.
  \<open>crates/data-service-core\<close> ingests the batches of such a source into the chain buffer, tracks finality,
  recovers from forks and answers queries.  \<open>crates/harness\<close> holds a reference model of the buffer and
  drivers that compare the service with it.

  \<^bold>\<open>Conventions.\<close>  \<open>u64\<close> is \<open>64 word\<close> and wraps; \<open>usize\<close> is \<open>nat\<close>; a byte string and a text are \<open>string\<close>;
  a Rust \<open>Result\<close> is a sum with \<open>Inl\<close> the error; an operation that may panic gives an \<open>option\<close> and
  \<open>None\<close> is the panic, so that the absence of panics is a theorem; a clock reading, an answer of the
  upstream or of a library is an argument of the operation that uses it.  A loop is a recursive function
  with a measure.  Floating point values that carry a bound (\<open>F64\<close>) are rationals with an explicit
  rounding to 53 bits.

  \<^bold>\<open>Theories and sources.\<close>
  \<^item> \<open>Prelude\<close>: word, list and option lemmas, \<open>windows2\<close>, saturating arithmetic, decimal printing.
  \<^item> \<open>Core_Types\<close>: \<open>types.rs\<close> and \<open>source.rs\<close> of the core: blocks, refs, violations, requests, batches.
  \<^item> \<open>Machines\<close>: the locales of an operation that returns and keeps an invariant, and of one that
    simulates another, with the loops over them; buffer, reference model and run interpret them.
  \<^item> \<open>Chain_Buffer\<close>, \<open>Chain_Spec\<close>, \<open>Chain_Query\<close>: \<open>chain.rs\<close>: the window, its undo log, push with its
    reorganisations, finalization, compaction, query and fork base; the invariant of the buffer, its
    abstract specification, and the panic freedom of every operation.
  \<^item> \<open>F64\<close>, \<open>Metrics\<close>, \<open>Metrics_Export\<close>: \<open>metrics.rs\<close>: the registry, its recorders, the stall alarm, the
    ingestion times, and a scrape in the JSON form of prom-client and as text.
  \<^item> \<open>Service_Ingest\<close>, \<open>Service_Batch\<close>, \<open>Service_Run\<close>: \<open>service.rs\<close>: validation, application of a batch
    under the write lock, seeding, the session loop and the restart ladder.
  \<^item> \<open>Service_Query\<close>, \<open>Service_Headers\<close>: the query side of \<open>service.rs\<close>: the check of the window, the wait,
    the backfill and its splice, what an answer holds; that every hash held is safe in a header.
  \<^item> \<open>Http\<close>: \<open>http.rs\<close>: the handlers, with \<open>/stream\<close> from the request body to the records and the reason
    the body ends.  The libraries are a record \<open>http_lib\<close>, the buffers a request reads and the fates of its
    sends are inputs.
  \<^item> \<open>Ref_Model\<close>, \<open>Refinement\<close>: \<open>harness/src/model.rs\<close> and the simulation between it and the service.
  \<^item> \<open>Json\<close>, \<open>Rpc_Error\<close>, \<open>Rpc_Rate\<close>, \<open>Rpc_Transport\<close>, \<open>Rpc_Client\<close>, \<open>Rpc_Retry\<close>: \<open>error.rs\<close>, \<open>rate.rs\<close>,
    \<open>transport.rs\<close> and \<open>client.rs\<close> of the client; locales for a transport and for a retried attempt,
    interpreted on the HTTP transport and on the single and batch calls.
  \<^item> \<open>Ws_Transport\<close>, \<open>Ws_Pending\<close>, \<open>Ws_Send\<close>: \<open>transport/ws.rs\<close>: pending requests, frames, batches,
    generations; the writer task, the calls and their contract \<open>rpc_transport\<close>.
  \<^item> \<open>Evm_Qty\<close>, \<open>Evm_Data\<close>, \<open>Evm_Normalize\<close>, \<open>Evm_Norm_Facts\<close>: \<open>types.rs\<close>, \<open>rpc_data.rs\<close>,
    \<open>normalization.rs\<close> of the EVM source: the wire data, the verdict flags of an acquired block, and
    every mapping to the normalized block.
  \<^item> \<open>Rlp\<close>, \<open>Evm_Frames\<close>, \<open>Evm_Verify\<close>, \<open>Evm_Commit\<close>: \<open>verification.rs\<close>: the RLP encoder with a decoder
    of the RLP specification, the checks of debug frames, header hash, bloom, transaction, receipt and
    withdrawal roots, sender recovery, and what these commitments bind.
  \<^item> \<open>Evm_Chain\<close>: \<open>chain_utils.rs\<close>, \<open>mapping.rs\<close> and \<open>observability.rs\<close>: the networks' deviations, the
    mapping to a block of the service, the client's reports on the metrics.
  \<^item> \<open>Evm_Rpc\<close>, \<open>Evm_Fetch\<close>, \<open>Evm_Legs\<close>, \<open>Evm_Enrich\<close>: \<open>fetch.rs\<close>: options, the cached view of the
    finalized head, every fetch with its calls, error hooks and coherence checks, the application of the
    logs, receipts and traces, and the retry loop of a head block.  A locale for a client that answers one
    result per call is interpreted on the HTTP client, one for a leg of the acquisition on logs, receipts
    and traces.  An upstream is a record of its single and batch call; a round of the retry loop has its
    own.  The deserialisers are parameters.
  \<^item> \<open>Evm_Ingest\<close>, \<open>Evm_Heights\<close>: \<open>ingest.rs\<close>: the cadence predictor, range acquisition, and the stream as
    a step function over the events of a session (the answers, clocks and task outcomes of an iteration),
    with its three modes; a locale for a fetch that gives good blocks, interpreted on the fetch layer.
  \<^item> \<open>Evm_Source\<close>: \<open>source.rs\<close> of the EVM source: the continuity check, and the finalizer as two processes
    over bounded channels, whose interleavings are an inductive relation.
  \<^item> \<open>Sim\<close>, \<open>Validators\<close>: \<open>sim.rs\<close>, \<open>script.rs\<close> and \<open>validators.rs\<close> of the harness: the canonical chain with its
    ledger and replay, the scripted histories, and the structural checks of a response.
  \<^item> \<open>Sim_Run\<close>: the service and the reference model on the deliveries of the simulator.
  \<^item> \<open>Json_Map\<close>, \<open>Upstream\<close>: the edits of JSON objects, and \<open>upstream.rs\<close> of the harness: the scripted chain,
    the faults and the answers of the stub; that every request is answered, that a limited fault heals, and
    that a batch of the client succeeds against the stub.
  \<^item> \<open>Http_Conform\<close>: the responses of \<open>Http\<close> under the checks of \<open>Validators\<close>.
  \<^item> \<open>Process\<close>: \<open>evm-data-service/src/main.rs\<close> and \<open>run_data_service\<close>: the arguments and what they configure,
    the start of the service, the supervision of the run and the exit of the process.
  \<^item> This theory: the properties that span buffer, service, frontend, process and reference model.

  \<^bold>\<open>What is shown.\<close> The service refines the reference model on every batch, query, fork signal and seed
  (C1--C4), never panics on any sequence of inputs (C5), never lowers its finalized head outside a
  re-seed (C6), signals startup once (C7), re-seeds after six fruitless sessions (C8), stops on a
  divergent re-seed (C9) and leaves no trace of a refused batch (C10). The rate meter counts exactly the
  calls of its window and the gate keeps the configured limit (C11, C16); batch calls return in call
  order, terminate under any answers and retry only what is retryable (C12--C15). WebSocket requests are
  settled by their answers, short batches and resets (C17--C19), and both transports keep the contract
  \<open>rpc_transport\<close>. A simulated run can be replayed into
  the state of the service (C20); verdicts never weaken (C21); traces and state diffs keep every frame
  and slot (C22, C23, C27). RLP lists round-trip (C26). The responses of \<open>/stream\<close> pass the checks of
  the harness (C24), and the check of a body accepts exactly what it is meant to (C25). Leaves, header
  hash and bloom bind what they commit to (C28, C29, C31), the exit of the process tells how its run
  ended (C30), what a client of \<open>/stream\<close> gets is sound (C32), the checks of a block agree on what is
  committed (C33), and the service admits exactly the batches of linked blocks (C34). The EVM source
  passes on the longest linked prefix of what it ingests (C35), its finalizer reports only delivered and
  confirmed refs within its bounds (C36), an enriched block is complete and coherent (C37), the
  enrichment returns within its budgets (C38), the ingest stream delivers consecutive heights (C39), and
  the cached finalized head is the highest answer of its epoch (C40).

  \<^bold>\<open>Bounds and fuel.\<close> \<open>rlp_items\<close> takes as fuel the number of items, which C26 shows to be enough.
  \<open>reserve_loop\<close> and the retry loops recurse on the budget the code has or on the answers still to come;
  \<open>enrich_loop\<close> has a measure on both of its budgets; \<open>stride_ranges\<close>, a loop that would not end for a
  stride of zero, is a partial function, and C39 shows that it returns; \<open>decode_loop\<close>, a loop over a
  decoder of the library, is one too, and returns for every decoder that progresses
  (\<open>split_frames_returns\<close>). Lengths below \<open>2 ^ 64\<close> are assumed where the code writes a length as
  \<open>usize\<close>.

  \<^bold>\<open>Not modelled.\<close>  The spawning and aborting of tasks and timers as such (their outcomes are inputs),
  log records, the routing of axum, sockets, serde attributes, the parser
  of the command line (clap), the HTTP client of the harness, and the benches, which
  hold no logic of the service.  The libraries behind hex, Keccak, the trie, ECDSA, JSON, zstd, gzip and
  Prometheus (gathering and the text format) are parameters.
\<close>

section \<open>Sample states\<close>

text \<open>A small window on concrete blocks, at which the theorems below are instantiated.\<close>

definition sample_block :: "u64 \<Rightarrow> string \<Rightarrow> u64 \<Rightarrow> string \<Rightarrow> block" where
  "sample_block n h p ph =
     \<lparr>number = n, hash = h, parent_number = p, parent_hash = ph, timestamp = None,
      json_line_zstd = sim_line 7 n p h ph, timings = None\<rparr>"

definition sample_chain :: chain where
  "sample_chain =
     \<lparr>blocks = [sample_block 10 ''a'' 9 ''z'', sample_block 11 ''b'' 10 ''a''], finalized_head = 0,
      max_size = 4, auto_adjust_finalized_head = False, undo = None\<rparr>"

definition sample_model :: ref_model where
  "sample_model =
     \<lparr>m_blocks = map abs_block (blocks sample_chain), m_f = 0, m_cache_size = 4,
      m_auto_adjust = False, m_fin_max = None, m_alarms = []\<rparr>"

definition sample_session :: session where
  "sample_session = \<lparr>first_block_ingested = True, finalized_max = None\<rparr>"

definition sample_clock :: batch_clock where
  "sample_clock =
     \<lparr>block_ms = (\<lambda>_. 7), progress_at = 1, cache_at = (\<lambda>_. (1, 2)), commit_at = 3, commit_ms = 7,
      update_ms = 8, spent = 1\<rparr>"

definition sample_service :: service where
  "sample_service =
     the (trigger_update_locked 8 sample_chain
       ((service_with_metrics 4 False (metrics_new 1 0 0) (bt_new 10 5))
         \<lparr>svc_chain := Some sample_chain, started := [Inr ()]\<rparr>))"

definition sample_run :: run_state where
  "sample_run =
     \<lparr>rs_pc = AtTop, rs_base = block_ref_of (sample_block 11 ''b'' 10 ''a''), rs_stacked = 0,
      rs_session = sample_session, rs_service = sample_service\<rparr>"

lemma sample_chain_inv: "chain_inv sample_chain"
  by (simp add: sample_chain_def sample_block_def chain_inv_def window_inv_def undo_inv_def is_chain_def)

lemma sample_chain_rel: "chain_rel sample_chain sample_model"
  by (simp add: chain_rel_def sample_model_def sample_chain_def)

lemma sample_service_facts:
  "svc_inv sample_service" "svc_chain sample_service = Some sample_chain"
  "started sample_service = [Inr ()]" "\<not> stop_requested sample_service" "\<not> stopped sample_service"
  "response_budget_ms sample_service = 60000"
proof -
  let ?s = "(service_with_metrics 4 False (metrics_new 1 0 0) (bt_new 10 5))
      \<lparr>svc_chain := Some sample_chain, started := [Inr ()]\<rparr>"
  obtain s' where s': "trigger_update_locked 8 sample_chain ?s = Some s'" "svc_chain s' = svc_chain ?s"
    "started s' = started ?s" "same_config ?s s'" "levels_match sample_chain s'"
    by (rule trigger_update_total [OF sample_chain_inv])
  have "sample_service = s'" using s'(1) by (simp add: sample_service_def)
  moreover have "undo sample_chain = None" "max_size sample_chain = 4"
    "auto_adjust_finalized_head sample_chain = False"
    by (simp_all add: sample_chain_def)
  ultimately show "svc_inv sample_service" "svc_chain sample_service = Some sample_chain"
    "started sample_service = [Inr ()]" "\<not> stop_requested sample_service" "\<not> stopped sample_service"
    "response_budget_ms sample_service = 60000"
    using s'(2-5) sample_chain_inv
    by (simp_all add: svc_inv_def same_config_def service_with_metrics_def stop_requested_def)
qed

lemma sample_run_inv: "run_inv sample_run"
  using sample_service_facts
  by (auto simp: run_inv_def sample_run_def startup_inv_def sample_session_def held_base_def
      sample_chain_def intro!: exI [of _ 1])

section \<open>The service implements the reference model\<close>

text \<open>
  C1.  One delivered batch.  Whatever batch the source delivers to a well-formed service whose buffer
  and session agree with a state of the reference model, \<open>ingest_item\<close> and the model's \<open>apply_batch\<close>
  both return, accept or reject it together, and leave buffer and model in agreement; on acceptance
  the session keeps the model's finality maximum, on rejection the buffer is the one before the batch.
\<close>

theorem ingest_refines_model:
  assumes "svc_inv s" and "svc_chain s = Some c" and "chain_rel c m"
    and "m_fin_max m = finalized_max ses" and "\<not> stopped s"
  shows "\<exists>st s' ses' c' out m'. ingest_item clk (StreamItem (Inr batch)) s ses = Some (st, s', ses') \<and>
    m_apply_batch m (map abs_block (batch_blocks batch)) (batch_finalized_head batch) = Some (out, m') \<and>
    svc_chain s' = Some c' \<and> chain_rel c' m' \<and> (st = Continue \<longleftrightarrow> out = Applied) \<and>
    (out = Applied \<longrightarrow> m_fin_max m' = finalized_max ses') \<and>
    (out \<noteq> Applied \<longrightarrow> c' = c \<and> m_fin_max m' = m_fin_max m)"
  using assms by (rule ingest_item_sim)

theorem ingest_refines_model_witness:
  "\<exists>st s' ses' c' out m'. ingest_item sample_clock (StreamItem (Inr
      \<lparr>batch_blocks = [sample_block 11 ''c'' 10 ''a''], batch_finalized_head = None\<rparr>))
        sample_service sample_session = Some (st, s', ses') \<and>
    m_apply_batch sample_model (map abs_block [sample_block 11 ''c'' 10 ''a'']) None = Some (out, m') \<and>
    svc_chain s' = Some c' \<and> chain_rel c' m' \<and> (st = Continue \<longleftrightarrow> out = Applied)"
  using ingest_refines_model [OF sample_service_facts(1,2) sample_chain_rel _ sample_service_facts(5),
      of sample_session sample_clock
      "\<lparr>batch_blocks = [sample_block 11 ''c'' 10 ''a''], batch_finalized_head = None\<rparr>"]
  by (auto simp: sample_model_def sample_session_def)

text \<open>
  C2.  Queries.  The buffer answers every query without a panic and with the verdict of the reference
  model; a conflict answer is non-empty, ascending, at most 101 refs long and made of refs the model
  knows; served blocks are exactly the held blocks from the requested height on.
\<close>

theorem query_refines_model:
  assumes "chain_inv c" and "chain_rel c m"
  shows "\<exists>answer. query_chain c from base = Some answer \<and>
    m_query m from base = Some (verdict_of c answer) \<and>
    (\<forall>prev. answer = Inl prev \<longrightarrow>
       prev \<noteq> [] \<and> ascending ref_number prev \<and> length prev \<le> 101 \<and> (\<forall>r \<in> set prev. m_is_known_ref m r)) \<and>
    (\<forall>resp tail. answer = Inr resp \<and> resp_tail resp = Some tail \<longrightarrow>
       tail = filter (\<lambda>b. from \<le> number b) (blocks c) \<and> tail \<noteq> [])"
proof -
  obtain answer where a: "query_chain c from base = Some answer"
    "m_query m from base = Some (verdict_of c answer)"
    by (rule query_sim [OF assms])
  show ?thesis
  proof (cases answer)
    case (Inl prev)
    then show ?thesis using a query_conflict_refs [OF assms, of "from" base prev] by simp
  next
    case (Inr resp)
    then show ?thesis
      using a query_tail(1,2) [OF assms(1), of "from" base resp]
      by (intro exI [of _ answer]) auto
  qed
qed

theorem query_refines_model_witness:
  "\<exists>answer. query_chain sample_chain 11 (Some ''x'') = Some answer \<and>
    m_query sample_model 11 (Some ''x'') = Some (verdict_of sample_chain answer)"
  using query_refines_model [OF sample_chain_inv sample_chain_rel, of 11 "Some ''x''"] by blast

text \<open>
  C3.  Fork resolution.  For every non-empty signal with ascending refs the two-cursor walk
  \<open>get_fork_base\<close> finds the rebase target the reference model names, and finds none exactly when the
  model declares the divergence terminal.
\<close>

theorem fork_refines_model:
  assumes "chain_inv c" and "chain_rel c m" and "prev \<noteq> []" and "ascending ref_number prev"
  shows "\<exists>out m'. m_fork_signal m prev = Some (out, m') \<and> chain_rel c m' \<and>
    get_fork_base c prev = Some (case out of Inl _ \<Rightarrow> None | Inr b \<Rightarrow> Some b) \<and>
    (isl out \<longrightarrow> out = Inl Terminal)"
  using assms by (rule fork_signal_sim)

theorem fork_refines_model_witness:
  "\<exists>out m'. m_fork_signal sample_model [\<lparr>ref_number = 11, ref_hash = ''x''\<rparr>] = Some (out, m') \<and>
    get_fork_base sample_chain [\<lparr>ref_number = 11, ref_hash = ''x''\<rparr>] =
      Some (case out of Inl _ \<Rightarrow> None | Inr b \<Rightarrow> Some b)"
  using fork_refines_model [OF sample_chain_inv sample_chain_rel, of "[\<lparr>ref_number = 11, ref_hash = ''x''\<rparr>]"]
  by auto

text \<open>
  C4.  Seeding.  A successful \<open>init\<close>, at startup or as the full re-init of the ladder, leaves a
  well-formed service whose buffer is the state the reference model's \<open>init\<close> builds from the delivered
  seed, and that seed is the block the source reported as its finalized head.
\<close>

theorem init_refines_model:
  assumes "svc_inv s \<or> svc_chain s = None"
    and "init_service now_ms head item s = Some (Inr (), s')"
  shows "svc_inv s' \<and> (\<exists>seed c m. head = Inr (block_ref_of seed) \<and> svc_chain s' = Some c \<and>
    m_init (abs_block seed) (buffer_size s) (svc_auto_adjust s) = Some (Inr m) \<and> chain_rel c m \<and>
    m_fin_max m = None \<and> blocks c = [seed])"
  using assms(1)
proof (cases rule: init_service_cases [where now_ms = now_ms and head = head and item = item])
  case (seeded seed report s2)
  note new = chain_new_inv [OF seeded(1,5), of "svc_auto_adjust s"]
  have "hash_ok (hash seed)" "hash_ok (parent_hash seed)"
    using seeded(4) by (auto simp: batch_ok_def)
  then have "m_init (abs_block seed) (buffer_size s) (svc_auto_adjust s) =
      Some (Inr \<lparr>m_blocks = [abs_block seed], m_f = 0, m_cache_size = buffer_size s,
        m_auto_adjust = svc_auto_adjust s, m_fin_max = None, m_alarms = []\<rparr>)"
    using seeded(1) leD [OF seeded(5)]
    by (simp add: m_init_def hash_ok_def header_safe_same m_well_formed_def)
  then show ?thesis
    using seeded(2,7,8,9) assms(2) new by (auto simp: chain_rel_def)
qed (use assms(2) in auto)

theorem init_refines_model_witness:
  "\<exists>s'. init_service 8 (Inr \<lparr>ref_number = 10, ref_hash = ''a''\<rparr>)
      (Some (Inr \<lparr>batch_blocks = [sample_block 10 ''a'' 9 ''z''], batch_finalized_head = None\<rparr>))
      (service_with_metrics 4 False (metrics_new 1 0 0) (bt_new 10 5)) = Some (Inr (), s') \<and> svc_inv s'"
proof -
  let ?s = "service_with_metrics 4 False (metrics_new 1 0 0) (bt_new 10 5)"
  let ?head = "Inr \<lparr>ref_number = 10, ref_hash = ''a''\<rparr> :: fault + block_ref"
  let ?item = "Some (Inr \<lparr>batch_blocks = [sample_block 10 ''a'' 9 ''z''], batch_finalized_head = None\<rparr>)
      :: (stream_error + block_batch) option"
  have "\<exists>s'. init_service 8 ?head ?item ?s = Some (Inr (), s')"
    by (simp add: init_service_def service_with_metrics_def validate_ingest_batch_def validate_block_def
        validate_report_def is_header_safe_hash_def sample_block_def vec_get_def replace_chain_def
        install_seed_def chain_new_def trigger_update_locked_def last_block_def first_block_number_def
        get_finalized_head_def)
  then obtain s' where "init_service 8 ?head ?item ?s = Some (Inr (), s')" ..
  then show ?thesis using init_refines_model [of ?s 8 ?head ?item s']
    by (auto simp: service_with_metrics_def)
qed

section \<open>Every run\<close>



text \<open>
  C6.  Finality is never rolled back.  Unless the loop is at its top after more than five fruitless
  sessions (the full re-init), a step never lowers the height of the finalized head, and every block
  at or below the old finalized head that the buffer holds afterwards was held before: reorganisations,
  rejected batches and compaction only ever touch blocks above it or drop blocks from the front.
\<close>

theorem finality_never_regresses:
  assumes "run_inv r" and "run_step show_fault i r = Some r'"
    and "rs_pc r = AtTop \<Longrightarrow> rs_stacked r \<le> 5"
    and "svc_chain (rs_service r) = Some c" and "svc_chain (rs_service r') = Some c'"
  shows "fin_number c \<le> fin_number c' \<and>
    (\<forall>b \<in> set (blocks c'). number b \<le> fin_number c \<longrightarrow> b \<in> set (blocks c))"
  using run_step_finality [OF assms(1-2) _ assms(4,5)] assms(3) by (simp add: finality_kept_def)

theorem finality_never_regresses_witness:
  "\<exists>r' c'. run_step (\<lambda>_. ''e'') (Go 0 (Inl NoSeedBlock) None sample_clock StreamEnded) sample_run = Some r' \<and>
     svc_chain (rs_service r') = Some c' \<and> fin_number sample_chain \<le> fin_number c'"
proof -
  let ?i = "Go 0 (Inl NoSeedBlock) None sample_clock StreamEnded"
  obtain r' where r': "run_step (\<lambda>_. ''e'') ?i sample_run = Some r'" "run_inv r'"
    using run_step_total [OF sample_run_inv] by blast
  then obtain c' where c': "svc_chain (rs_service r') = Some c'" by (auto simp: run_inv_def svc_inv_def)
  then show ?thesis
    using finality_never_regresses [OF sample_run_inv r'(1) _ _ c', of sample_chain] r'
      sample_service_facts(2)
    by (auto simp: sample_run_def)
qed



text \<open>
  C8.  The ladder re-seeds.  Six consecutive sessions that fail without moving the head bring the loop
  back to its top with the buffer untouched; if the source then reports and delivers an acceptable
  seed, the next step discards the old buffer, starts a new one from that seed and opens a session
  from it.
\<close>

theorem ladder_reseeds:
  assumes "run_inv r" and "rs_pc r = AtTop" and "rs_stacked r = 0"
    and "first_block_ingested (rs_session r)" and "\<not> stop_requested (rs_service r)"
    and "svc_chain (rs_service r) = Some c" and "ref_number (rs_base r) = number (last (blocks c))"
    and "go = Go now_ms head item clk0 ev" and "length es = 6"
    and "head = Inr (block_ref_of seed)"
    and "item = Some (Inr \<lparr>batch_blocks = [seed], batch_finalized_head = report\<rparr>)"
    and "batch_ok \<lparr>batch_blocks = [seed], batch_finalized_head = report\<rparr>"
    and "parent_number seed \<le> number seed" and "reseeds (rs_service r) seed"
  shows "\<exists>r6 r7 c7. run_steps show_fault (concat (map (fruitless go clk) es)) r = Some r6 \<and>
    svc_chain (rs_service r6) = Some c \<and> rs_stacked r6 = 6 \<and>
    run_step show_fault go r6 = Some r7 \<and> rs_pc r7 = InSession \<and> rs_base r7 = block_ref_of seed \<and>
    svc_chain (rs_service r7) = Some c7 \<and> blocks c7 = [seed]"
proof -
  obtain r6 where r6: "run_steps show_fault (concat (map (fruitless go clk) es)) r = Some r6" "run_inv r6"
    "rs_pc r6 = AtTop" "rs_stacked r6 = 6" "\<not> stop_requested (rs_service r6)"
    "svc_chain (rs_service r6) = Some c" "same_config (rs_service r) (rs_service r6)"
    using fruitless_sessions [OF assms(1,2,4,5) _ assms(6,7,8), of es show_fault clk] assms(3,9) by auto
  have inv6: "svc_inv (rs_service r6) \<or> svc_chain (rs_service r6) = None"
    using r6(2) by (simp add: run_inv_def)
  have bsz: "buffer_size (rs_service r6) > 0" using r6(2) by (simp add: run_inv_def svc_inv_def)
  have res: "reseeds (rs_service r6) seed" using assms(6,14) r6(6) by (simp add: reseeds_def)
  obtain s' where s': "replace_chain now_ms seed (rs_service r6) = Some (Inr (), s')" "svc_inv s'"
    "svc_chain s' = chain_new seed (buffer_size (rs_service r6)) (svc_auto_adjust (rs_service r6))"
    using replace_chain_cases [OF inv6 bsz assms(13), of now_ms] res by metis
  have ok: "hash_ok (hash seed)" using assms(12) by (simp add: batch_ok_def)
  have init: "init_service now_ms head item (rs_service r6) = Some (Inr (), s')"
    using s'(1) bsz assms(10-13) ok leD [OF assms(13)]
      validate_ingest_batch_iff [of "\<lparr>batch_blocks = [seed], batch_finalized_head = report\<rparr>"]
    by (simp add: init_service_def hash_ok_def vec_get_def)
  obtain c7 where c7: "svc_chain s' = Some c7" "blocks c7 = [seed]"
    using s'(3) chain_new_inv(1) [OF bsz assms(13)] by simp
  have "service_head (upd_metrics (record_session_restart RestartReset) s') = Some (block_ref_of seed)"
    using service_head_eq [of "upd_metrics (record_session_restart RestartReset) s'" c7] s'(2) c7 by simp
  then show ?thesis
    using r6 init c7 assms(8) by (simp add: run_step_def run_top_def)
qed

theorem ladder_reseeds_witness:
  "\<exists>r6 r7 c7. run_steps (\<lambda>_. ''e'') (concat (map (fruitless
       (Go 8 (Inr \<lparr>ref_number = 12, ref_hash = ''d''\<rparr>)
          (Some (Inr \<lparr>batch_blocks = [sample_block 12 ''d'' 11 ''b''], batch_finalized_head = None\<rparr>))
          sample_clock StreamEnded) sample_clock) (replicate 6 (SourceFault ''timeout'')))) sample_run = Some r6 \<and>
    run_step (\<lambda>_. ''e'') (Go 8 (Inr \<lparr>ref_number = 12, ref_hash = ''d''\<rparr>)
          (Some (Inr \<lparr>batch_blocks = [sample_block 12 ''d'' 11 ''b''], batch_finalized_head = None\<rparr>))
          sample_clock StreamEnded) r6 = Some r7 \<and>
    svc_chain (rs_service r7) = Some c7 \<and> blocks c7 = [sample_block 12 ''d'' 11 ''b'']"
proof -
  let ?seed = "sample_block 12 ''d'' 11 ''b''"
  have facts: "rs_pc sample_run = AtTop" "rs_stacked sample_run = 0"
    "first_block_ingested (rs_session sample_run)" "\<not> stop_requested (rs_service sample_run)"
    "svc_chain (rs_service sample_run) = Some sample_chain"
    "ref_number (rs_base sample_run) = number (last (blocks sample_chain))"
    using sample_service_facts(2,4)
    by (simp_all add: sample_run_def sample_session_def sample_chain_def sample_block_def)
  have seed: "(Inr \<lparr>ref_number = 12, ref_hash = ''d''\<rparr> :: fault + block_ref) = Inr (block_ref_of ?seed)"
    "parent_number ?seed \<le> number ?seed"
    by (simp_all add: sample_block_def block_ref_of_def)
  have "reseeds (rs_service sample_run) ?seed"
    using sample_service_facts(2)
    by (simp add: reseeds_def block_at_def sample_run_def sample_chain_def sample_block_def)
  moreover have "batch_ok \<lparr>batch_blocks = [?seed], batch_finalized_head = None\<rparr>"
    by (simp add: batch_ok_def hash_ok_def is_header_safe_hash_def sample_block_def)
  moreover have "length (replicate 6 (SourceFault ''timeout'')) = 6" by simp
  ultimately show ?thesis
    using ladder_reseeds [OF sample_run_inv facts refl _ seed(1) refl _ seed(2)] by blast
qed

text \<open>
  C9.  A divergent re-seed is terminal.  When the re-init after the ladder is offered a seed at a
  height the buffer holds under another hash or another parent link, the run ends with the terminal
  verdict and its level raised, and the buffer it would have discarded is still there.
\<close>

theorem divergent_reseed_terminal:
  assumes "run_inv r" and "rs_pc r = AtTop" and "rs_stacked r > 5"
    and "\<not> stop_requested (rs_service r)" and "svc_chain (rs_service r) = Some c"
    and "block_at c (number seed) = Some held" and "seed_contradicts held seed"
    and "batch_ok \<lparr>batch_blocks = [seed], batch_finalized_head = report\<rparr>"
    and "parent_number seed \<le> number seed"
  shows "\<exists>d r'. run_step show_fault (Go now_ms (Inr (block_ref_of seed))
        (Some (Inr \<lparr>batch_blocks = [seed], batch_finalized_head = report\<rparr>)) clk ev) r = Some r' \<and>
    rs_pc r' = Ended (RunTerminal (DivergentReseedFault d)) \<and> dr_held d = block_ref_of held \<and>
    svc_chain (rs_service r') = Some c \<and> terminal_state (svc_metrics (rs_service r')) = 1"
proof -
  have bsz: "buffer_size (rs_service r) > 0" using assms(1) by (simp add: run_inv_def svc_inv_def)
  have ok: "hash_ok (hash seed)" using assms(8) by (simp add: batch_ok_def)
  have "init_service now_ms (Inr (block_ref_of seed))
      (Some (Inr \<lparr>batch_blocks = [seed], batch_finalized_head = report\<rparr>)) (rs_service r) =
      Some (Inl (DivergentReseedFault
        \<lparr>dr_seed = block_ref_of seed, dr_seed_parent = parent_ref_of seed,
         dr_held = block_ref_of held, dr_held_parent = parent_ref_of held\<rparr>), rs_service r)"
    using bsz ok leD [OF assms(9)] assms(5-8)
      validate_ingest_batch_iff [of "\<lparr>batch_blocks = [seed], batch_finalized_head = report\<rparr>"]
    by (simp add: init_service_def hash_ok_def vec_get_def replace_chain_def)
  then show ?thesis
    using assms(2-5) by (simp add: run_step_def run_top_def record_terminal_state_def)
qed

theorem divergent_reseed_terminal_witness:
  "\<exists>d r'. run_step (\<lambda>_. ''e'') (Go 0 (Inr (block_ref_of (sample_block 11 ''x'' 10 ''a'')))
        (Some (Inr \<lparr>batch_blocks = [sample_block 11 ''x'' 10 ''a''], batch_finalized_head = None\<rparr>))
        sample_clock StreamEnded) (sample_run\<lparr>rs_stacked := 6\<rparr>) = Some r' \<and>
    rs_pc r' = Ended (RunTerminal (DivergentReseedFault d))"
proof -
  have inv: "run_inv (sample_run\<lparr>rs_stacked := 6\<rparr>)"
    using sample_run_inv by (simp add: run_inv_def startup_inv_def sample_run_def sample_session_def)
  have "batch_ok \<lparr>batch_blocks = [sample_block 11 ''x'' 10 ''a''], batch_finalized_head = None\<rparr>"
    by (simp add: batch_ok_def hash_ok_def is_header_safe_hash_def sample_block_def)
  then show ?thesis
    using divergent_reseed_terminal [OF inv, of sample_chain "sample_block 11 ''x'' 10 ''a''"
        "sample_block 11 ''b'' 10 ''a''" None "\<lambda>_. ''e''" 0 sample_clock StreamEnded] sample_service_facts
    by (force simp: sample_run_def sample_chain_def sample_block_def block_at_def seed_contradicts_def)
qed

text \<open>
  C10.  A batch is all or nothing.  When a batch is refused after some of its blocks were already
  pushed, the service is exactly the one before the batch, buffer, levels, ingestion times, startup
  signal and watchers included, except for the violation counter.
\<close>

theorem rejected_batch_leaves_service:
  assumes "svc_inv s" and "ingest_batch clk batch s ses = Some (Inl e, s', ses')"
  shows "s' = upd_metrics record_integrity_violation s \<and>
    first_block_ingested ses' = first_block_ingested ses"
proof -
  obtain c where c: "svc_chain s = Some c" using assms(1) by (auto simp: svc_inv_def)
  show ?thesis
    using assms(1) c
  proof (cases rule: ingest_batch_cases [where clk = clk and batch = batch and ses = ses])
    case (rejected e2 c1 fmax)
    then show ?thesis using assms(2) by simp
  next
    case (committed ins c1 fmax k c2 s2)
    then show ?thesis using assms(2) by simp
  qed
qed

theorem rejected_batch_leaves_service_witness:
  "\<exists>e s' ses'. ingest_batch sample_clock
      \<lparr>batch_blocks = [sample_block 12 ''c'' 11 ''b'', sample_block 12 ''d'' 9 ''z''],
       batch_finalized_head = None\<rparr> sample_service sample_session = Some (Inl e, s', ses') \<and>
     s' = upd_metrics record_integrity_violation sample_service"
proof -
  let ?batch = "\<lparr>batch_blocks = [sample_block 12 ''c'' 11 ''b'', sample_block 12 ''d'' 9 ''z''],
       batch_finalized_head = None :: block_ref option\<rparr>"
  have "\<exists>e c1 f. apply_batch_locked (block_ms sample_clock) (begin_batch sample_chain) ?batch
      (finalized_max sample_session) = Some (Inl e, c1, f)"
    by (simp add: apply_batch_locked_def conflicting_report_def sample_session_def begin_batch_def
        sample_chain_def sample_block_def push_def bisect_def bisect_loop.simps vec_get_def push_held_def
        last_block_def is_chain_def push_reorg_def)
  then have "\<exists>e s' ses'. ingest_batch sample_clock ?batch sample_service sample_session = Some (Inl e, s', ses')"
    using sample_service_facts(2) by (auto simp: ingest_batch_def Let_def)
  then show ?thesis using rejected_batch_leaves_service [OF sample_service_facts(1)] by metis
qed

section \<open>The HTTP frontend over the running service\<close>

text \<open>
  The buffers a request reads are those of states the run goes through: \<open>reads_reached\<close> says so of every
  read of a call, at whatever points of the run they fall.
\<close>

definition reached :: "run_state \<Rightarrow> chain \<Rightarrow> bool" where
  "reached r c \<longleftrightarrow> (\<exists>show_fault inputs r'. run_steps show_fault inputs r = Some r' \<and> svc_chain (rs_service r') = Some c)"

definition reads_reached :: "run_state \<Rightarrow> stream_call \<Rightarrow> bool" where
  "reads_reached r call \<longleftrightarrow>
     (\<forall>c. c = qr_gate (sc_reads call) \<or> read_chain (sc_reads call) c \<or> c = sc_at_expiry call \<longrightarrow> reached r c)"

lemma reached_ok:
  assumes "run_inv r" "safe_service (rs_service r)" "reached r c"
  shows "chain_inv c \<and> safe_chain c"
proof -
  obtain show_fault inputs r' where r': "run_steps show_fault inputs r = Some r'" "svc_chain (rs_service r') = Some c"
    using assms(3) by (auto simp: reached_def)
  have "run_inv r'" using run_steps_total [OF assms(1), of show_fault inputs] r'(1) by auto
  moreover have "safe_service (rs_service r')" by (rule run_steps_safe [OF assms(1,2) r'(1)])
  ultimately show ?thesis using r'(2) by (auto simp: run_inv_def svc_inv_def safe_service_def)
qed

lemma reads_reached_ok:
  assumes "run_inv r" "safe_service (rs_service r)" "reads_reached r call"
  shows "call_ok call"
proof -
  have ok: "chain_inv c \<and> safe_chain c"
    if "c = qr_gate (sc_reads call) \<or> read_chain (sc_reads call) c \<or> c = sc_at_expiry call" for c
    using reached_ok [OF assms(1,2)] assms(3) that unfolding reads_reached_def by blast
  have "read_chain (sc_reads call) (qr_snapshot (sc_reads call))" "read_chain (sc_reads call) (qr_cache (sc_reads call))"
      "\<And>k. read_chain (sc_reads call) (qr_later (sc_reads call) k)"
    by (auto simp: read_chain_def)
  with ok show ?thesis unfolding call_ok_def reads_ok_def by blast
qed


definition sample_lib :: http_lib where
  "sample_lib =
     \<lparr>parse_request = (\<lambda>_. Inr \<lparr>hs_from_block = 11, hs_parent_block_hash = Some ''a''\<rparr>),
      decode_all = Inr, gzip = Inr, fault_chain = (\<lambda>_. ''e'')\<rparr>"

definition sample_call :: stream_call where
  "sample_call =
     \<lparr>sc_accept_encoding = Some ''gzip, zstd'', sc_body = BodyBytes [], sc_verdict_in_time = True,
      sc_reads = \<lparr>qr_gate = sample_chain, qr_snapshot = sample_chain, qr_cache = sample_chain, qr_watch = [],
        qr_later = (\<lambda>_. sample_chain)\<rparr>,
      sc_source = (\<lambda>_. []), sc_at_expiry = sample_chain, sc_first_in_time = True, sc_settled_after = 3,
      sc_events = [\<lparr>be_send = SendDone, be_elapsed = 4, be_in_time = True\<rparr>]\<rparr>"

lemma sample_stream_facts: "safe_service (rs_service sample_run)" "reads_reached sample_run sample_call"
proof -
  show "safe_service (rs_service sample_run)"
    using sample_service_facts(2)
    by (simp add: safe_service_def safe_chain_def safe_block_def sample_run_def sample_chain_def sample_block_def
        hash_ok_def is_header_safe_hash_def)
  have "run_steps (\<lambda>_. []) [] sample_run = Some sample_run" "svc_chain (rs_service sample_run) = Some sample_chain"
    using sample_service_facts(2) by (simp_all add: sample_run_def)
  then have "reached sample_run sample_chain" unfolding reached_def by blast
  then show "reads_reached sample_run sample_call"
    by (auto simp: reads_reached_def read_chain_def sample_call_def)
qed

lemma sample_answer:
  "service_query (sc_reads sample_call) (sc_source sample_call) 11 (Some ''a'') =
     Some (Inr \<lparr>qo_response = \<lparr>resp_finalized_head = Some \<lparr>ref_number = 10, ref_hash = ''a''\<rparr>, resp_head = None,
                  resp_tail = Some [sample_block 11 ''b'' 10 ''a'']\<rparr>, qo_class = Window\<rparr>)"
  by (simp add: service_query_def classify_query_def below_window_def first_block_def query_chain_def sample_call_def
      sample_chain_def sample_block_def bisect_def bisect_loop.simps vec_get_def vec_slice_def block_ref_of_def
      Chain_Buffer.get_finalized_head_def)

lemma sample_stream_run:
  "\<exists>headers s'. handle_stream sample_lib sample_call sample_service =
     Some (\<lparr>rsp_status = 200, rsp_headers = headers,
            rsp_body = Records [\<lparr>fr_bytes = sim_line 7 11 10 ''b'' ''a'', fr_number = 11, fr_hash = ''b'', fr_source = ''tail''\<rparr>]\<rparr>, Complete, s')"
proof -
  have budget: "response_budget sample_service = 60000"
    using sample_service_facts(6) by (simp add: response_budget_def)
  have call: "sc_body sample_call = BodyBytes []" "sc_verdict_in_time sample_call" "sc_first_in_time sample_call"
      "sc_accept_encoding sample_call = Some ''gzip, zstd''"
      "sc_events sample_call = [\<lparr>be_send = SendDone, be_elapsed = 4, be_in_time = True\<rparr>]"
    by (simp_all add: sample_call_def)
  have lib: "parse_request sample_lib [] = Inr \<lparr>hs_from_block = 11, hs_parent_block_hash = Some ''a''\<rparr>"
    by (simp add: sample_lib_def)
  show ?thesis
    by (simp add: handle_stream_def call lib sample_answer serve_outcome_def insert_finalized_head_def
        is_header_safe_hash_def block_stream_def encode_frame_def encode_block_def budget sample_block_def)
qed



text \<open>A codec whose frames are the lines themselves, and a parser of the two sample records.\<close>

definition first_line :: "bytes \<Rightarrow> string + nat \<times> bytes" where
  "first_line s =
     (if nl \<in> set s then Inr (Suc (length (takeWhile (\<lambda>c. c \<noteq> nl) s)), takeWhile (\<lambda>c. c \<noteq> nl) s @ [nl])
      else Inl ''no line'')"

definition sample_json :: "u64 \<Rightarrow> u64 \<Rightarrow> string \<Rightarrow> string \<Rightarrow> json" where
  "sample_json n pn h ph =
     JObject [(''number'', JNumber (PosInt n)), (''parentNumber'', JNumber (PosInt pn)), (''hash'', JString h),
              (''parentHash'', JString ph)]"

definition refs_number :: "json \<Rightarrow> nat" where
  "refs_number v =
     (case json_get ''previousBlocks'' v of
        Some (JArray vs) \<Rightarrow>
          to_nat (map (\<lambda>v. (case json_get ''number'' v of Some (JNumber (PosInt n)) \<Rightarrow> unat n | _ \<Rightarrow> 0,
                           case json_get ''hash'' v of Some (JString h) \<Rightarrow> h | _ \<Rightarrow> [])) vs)
      | _ \<Rightarrow> 0)"

definition refs_of_number :: "nat \<Rightarrow> block_ref list" where
  "refs_of_number k = map (\<lambda>(n, h). \<lparr>ref_number = of_nat n, ref_hash = h\<rparr>) (from_nat k)"

definition sample_wire :: wire_lib where
  "sample_wire =
     \<lparr>zstd_frame = (\<lambda>s. Some (first_line s)), gzip_member = first_line, zstd_stream = Inr, multi_gzip = Inr,
      is_utf8 = (\<lambda>_. True),
      json_parse = (\<lambda>s. if s = sim_line 7 10 9 ''a'' ''z'' then Inr (sample_json 10 9 ''a'' ''z'')
                        else if s = sim_line 7 11 10 ''b'' ''a'' then Inr (sample_json 11 10 ''b'' ''a'')
                        else Inr (previous_json (refs_of_number (length s))))\<rparr>"

definition sample_env :: wire_env where
  "sample_env =
     \<lparr>text_type = ''text/plain; charset=utf-8'', json_type = ''application/json'',
      json_text = (\<lambda>v. replicate (refs_number v) (CHR ''x''))\<rparr>"

lemma first_line_record: "one_record line \<Longrightarrow> first_line (line @ rest) = Inr (length line, line)"
  by (auto simp: one_record_def first_line_def takeWhile_append)

lemma refs_of_number_previous: "refs_of_number (refs_number (previous_json prev)) = prev"
  by (simp add: refs_of_number_def refs_number_def previous_json_def ref_json_def o_def map_idI)

lemma sample_line: "one_record (sim_line 7 n p [c] [d])" if "c \<noteq> nl" "d \<noteq> nl"
proof -
  have "nl \<notin> set (decimal k)" for k using decimal_digits [of k] by (auto simp: nl_def)
  then show ?thesis using that unfolding one_record_def sim_line_def
    by (intro exI [of _ "butlast (sim_line 7 n p [c] [d])"]) (auto simp: sim_line_def nl_def butlast_append)
qed

lemma sample_env_ok: "env_ok sample_lib sample_wire id sample_env"
proof -
  have media: "is_media_type (text_type sample_env) ''text/plain''" "is_media_type (json_type sample_env) ''application/json''"
    unfolding sample_env_def wire_env.simps by code_simp+
  have "json_parse sample_wire (json_text sample_env (previous_json prev)) = Inr (previous_json prev)" for prev
  proof -
    have "replicate k (CHR ''x'') \<noteq> sim_line 7 n p h ph" for k n p h ph
      by (cases k) (auto simp: sim_line_def)
    then show ?thesis by (simp add: sample_wire_def sample_env_def refs_of_number_previous)
  qed
  moreover have "gzip_unit sample_wire g raw" if "gzip sample_lib raw = Inr g" "one_record raw" for raw g
    using that first_line_record [OF that(2)]
    by (auto simp: sample_lib_def sample_wire_def gzip_unit_def one_record_def)
  ultimately show ?thesis using media
    by (auto simp: env_ok_def sample_wire_def sample_lib_def starts_with_def)
qed

lemma sample_carries:
  assumes "b \<in> set (blocks sample_chain)"
  shows "carries sample_lib sample_wire sim_extract b"
proof -
  have lines: "one_record (sim_line 7 10 9 ''a'' ''z'')" "one_record (sim_line 7 11 10 ''b'' ''a'')"
    by (intro sample_line; simp add: nl_def)+
  have differ: "sim_line 7 11 10 ''b'' ''a'' \<noteq> sim_line 7 10 9 ''a'' ''z''"
    by (simp add: sim_line_def decimal.simps)
  show ?thesis
    using assms lines differ first_line_record [OF lines(1)] first_line_record [OF lines(2)]
    by (auto simp: sample_chain_def sample_block_def carries_def sample_lib_def zstd_unit_def sample_wire_def read_record_def
        sim_extract_def sample_json_def record_of_def one_record_def)
qed

lemma sample_window_call: "window_call sample_lib sample_wire sim_extract sample_call"
proof -
  have "below_window sample_chain 11 = Some False"
    by (simp add: below_window_def first_block_def vec_get_def sample_chain_def sample_block_def)
  then show ?thesis using sample_carries
    by (auto simp: window_call_def within_def sample_call_def read_chain_def sample_lib_def)
qed


section \<open>The process\<close>

text \<open>
  C30.  The exit tells how the run ended.  However the events of a run reach the supervisor, in whatever
  order and with whatever delay after its end, and with no signal among them, the process stops serving,
  and \<open>main\<close> succeeds exactly when the run was stopped and the service drained in time: a startup failure,
  a terminal divergence and a drain that exceeds its grace each end in an error.
\<close>

theorem exit_tells_run_end:
  assumes "run_data_service fresh cache now_ms head item bind_port opts = Some (Inr (p, r))"
    and "run_steps show_fault inputs r = Some r'" and "rs_pc r' = Ended e"
    and "list_all (caused r') evs" and "RunEnded (Some e) \<in> set evs"
  shows "\<exists>res. main_result drained evs = Some res \<and> (res = Inr () \<longleftrightarrow> drained \<and> e = Stopped)"
proof -
  have "run_inv r"
    by (rule run_data_service_inv [of fresh cache now_ms head item bind_port opts]) (use assms(1) in auto)
  then have "run_inv r'" using run_steps_total [of r show_fault inputs] assms(2) by auto
  then obtain reason where reason: "supervise False evs = Some reason" "reason = Clean \<longleftrightarrow> e = Stopped"
    using supervise_run [OF _ assms(3-5)] by blast
  then show ?thesis
    by (cases drained; cases reason) (auto simp: main_result_def finish_shutdown_def)
qed

definition sample_start :: "(start_error + 16 word \<times> run_state) option" where
  "sample_start =
     run_data_service (metrics_new 1 0 0) (bt_new 10 5) 3 (Inr \<lparr>ref_number = 11, ref_hash = ''b''\<rparr>)
       (Some (Inr \<lparr>batch_blocks = [sample_block 11 ''b'' 10 ''a''], batch_finalized_head = None\<rparr>)) Inr
       \<lparr>dso_block_cache_size = 4, dso_port = 3000, dso_auto_adjust_finalized_head = False, dso_metrics = None\<rparr>"

lemma sample_starts: "\<exists>r. sample_start = Some (Inr (3000, r)) \<and> rs_pc r = AtTop"
proof -
  let ?seed = "sample_block 11 ''b'' 10 ''a''" and ?s = "service_with_metrics 4 False (metrics_new 1 0 0) (bt_new 10 5)"
  have new: "svc_chain ?s = None" "buffer_size ?s = 4" by (simp_all add: service_with_metrics_def)
  have seed: "parent_number ?seed \<le> number ?seed" "reseeds ?s ?seed" "hash_ok (hash ?seed)"
      "batch_ok \<lparr>batch_blocks = [?seed], batch_finalized_head = None\<rparr>" "\<lparr>ref_number = 11, ref_hash = ''b''\<rparr> = block_ref_of ?seed"
    using new(1)
    by (simp_all add: reseeds_def sample_block_def hash_ok_def is_header_safe_hash_def batch_ok_def block_ref_of_def)
  obtain s' where s': "replace_chain 3 ?seed ?s = Some (Inr (), s')" "svc_inv s'" "started s' = started ?s"
    using replace_chain_cases [of ?s, OF disjI2 [OF new(1)] _ seed(1), of 3] new(2) seed(2) by (metis zero_less_numeral)
  have init: "init_service 3 (Inr \<lparr>ref_number = 11, ref_hash = ''b''\<rparr>)
      (Some (Inr \<lparr>batch_blocks = [?seed], batch_finalized_head = None\<rparr>)) ?s = Some (Inr (), s')"
    using s'(1) new(2) seed leD [OF seed(1)]
      validate_ingest_batch_iff [of "\<lparr>batch_blocks = [?seed], batch_finalized_head = None\<rparr>"]
    by (simp add: init_service_def hash_ok_def vec_get_def)
  have "started s' = []" using s'(3) by (simp add: service_with_metrics_def)
  then obtain r where "run_start s' = Some r" "rs_pc r = AtTop" using run_start_inv [OF s'(2)] by metis
  then show ?thesis using init by (simp add: sample_start_def run_data_service_def)
qed

theorem exit_tells_run_end_witness:
  "\<exists>r r'. sample_start = Some (Inr (3000, r)) \<and>
     run_steps (\<lambda>_. []) [CallStop, Go 0 (Inl NoSeedBlock) None sample_clock StreamEnded] r = Some r' \<and>
     main_result True [RunEnded (Some Stopped)] = Some (Inr ())"
proof -
  obtain r where r: "sample_start = Some (Inr (3000, r))" "rs_pc r = AtTop" using sample_starts by blast
  obtain r' where r': "run_steps (\<lambda>_. []) [CallStop, Go 0 (Inl NoSeedBlock) None sample_clock StreamEnded] r = Some r'"
      "rs_pc r' = Ended Stopped"
    using r(2) by (simp add: run_step_def run_top_def stop_def stop_requested_def)
  then show ?thesis
    using r(1) exit_tells_run_end [OF r(1) [unfolded sample_start_def] r'(1,2), of "[RunEnded (Some Stopped)]" True]
    by (auto simp: caused_def)
qed

end
